(* ===== verification/Prelude.thy ===== *)
theory Prelude
  imports Main "HOL-Library.Word"
begin

text \<open>
  Shared vocabulary of the development: the machine-integer types of the Rust sources, the
  byte-level primitives they use on fixed buffers (little-endian encoding, slice copies), and the
  generic facts on words and lists that the component theories rest on.

  \<^item> \<open>u8\<close>, \<open>u16\<close>, \<open>u32\<close>, \<open>u64\<close> are words of their width; \<open>usize\<close> is \<open>nat\<close> (every
    \<open>usize\<close> of the sources is a buffer offset or a length, far below \<open>2 ^ 64\<close>).
  \<^item> \<open>word_nat\<close> collects the rules that move a comparison or an operation on words to \<open>nat\<close>.
  \<^item> \<open>splice buf off bytes\<close> is \<open>buf[off..off + bytes.len()].copy_from_slice(bytes)\<close> inside the
    buffer, and \<open>slice buf off n\<close> is \<open>buf[off..off + n]\<close>.
\<close>

unbundle bit_operations_syntax

type_synonym u8 = "8 word"
type_synonym u16 = "16 word"
type_synonym u32 = "32 word"
type_synonym u64 = "64 word"
type_synonym bytes = "8 word list"

named_theorems word_nat \<open>moving facts about words to natural numbers\<close>

lemmas word_basic_nat [word_nat] = word_le_nat_alt word_less_nat_alt unat_div unat_mod

lemma unat_u32_bound [simp]: "unat (x :: u32) < 4294967296"
  using unsigned_less [of x] by simp

lemma unat_u16_bound [simp]: "unat (x :: u16) < 65536"
  using unsigned_less [of x] by simp

lemma unat_u8_bound [simp]: "unat (x :: u8) < 256"
  using unsigned_less [of x] by simp

lemma unat_u64_bound [simp]: "unat (x :: u64) < 18446744073709551616"
  using unsigned_less [of x] by simp

lemma unat_u32_of_nat: "n < 4294967296 \<Longrightarrow> unat (of_nat n :: u32) = n"
  by (simp add: unat_of_nat take_bit_nat_eq_self)

lemma unat_u16_of_nat: "n < 65536 \<Longrightarrow> unat (of_nat n :: u16) = n"
  by (simp add: unat_of_nat take_bit_nat_eq_self)

lemma unat_u8_of_nat: "n < 256 \<Longrightarrow> unat (of_nat n :: u8) = n"
  by (simp add: unat_of_nat take_bit_nat_eq_self)

lemma unat_u64_of_nat: "n < 18446744073709551616 \<Longrightarrow> unat (of_nat n :: u64) = n"
  by (simp add: unat_of_nat take_bit_nat_eq_self)

lemmas unat_of_nat_small [word_nat] =
  unat_u8_of_nat unat_u16_of_nat unat_u32_of_nat unat_u64_of_nat

lemma unat_add_small:
  "unat (x :: 'a::len word) + unat y < 2 ^ LENGTH('a) \<Longrightarrow> unat (x + y) = unat x + unat y"
  by (simp add: unat_add_lem [THEN iffD1])

lemma unat_mult_small:
  "unat (x :: 'a::len word) * unat y < 2 ^ LENGTH('a) \<Longrightarrow> unat (x * y) = unat x * unat y"
  by (simp add: unat_mult_lem [THEN iffD1])

lemma unat_sub_small: "unat (y :: 'a::len word) \<le> unat x \<Longrightarrow> unat (x - y) = unat x - unat y"
  by (simp add: unat_sub word_le_nat_alt)


section \<open>Little-endian integers\<close>

text \<open>\<open>to_le_bytes\<close> and \<open>from_le_bytes\<close> of the Rust integer types, over \<open>nat\<close> values.\<close>

fun le_encode :: "nat \<Rightarrow> nat \<Rightarrow> bytes" where
  "le_encode 0 x = []"
| "le_encode (Suc n) x = of_nat (x mod 256) # le_encode n (x div 256)"

fun le_decode :: "bytes \<Rightarrow> nat" where
  "le_decode [] = 0"
| "le_decode (b # bs) = unat b + 256 * le_decode bs"

definition u16_to_le :: "u16 \<Rightarrow> bytes" where "u16_to_le x = le_encode 2 (unat x)"
definition u32_to_le :: "u32 \<Rightarrow> bytes" where "u32_to_le x = le_encode 4 (unat x)"
definition u64_to_le :: "u64 \<Rightarrow> bytes" where "u64_to_le x = le_encode 8 (unat x)"

definition u16_from_le :: "bytes \<Rightarrow> u16" where "u16_from_le bs = of_nat (le_decode bs)"
definition u32_from_le :: "bytes \<Rightarrow> u32" where "u32_from_le bs = of_nat (le_decode bs)"
definition u64_from_le :: "bytes \<Rightarrow> u64" where "u64_from_le bs = of_nat (le_decode bs)"

lemma length_le_encode [simp]: "length (le_encode n x) = n"
  by (induction n x rule: le_encode.induct) auto

lemma le_decode_encode: "le_decode (le_encode n x) = x mod 256 ^ n"
proof (induction n x rule: le_encode.induct)
  case (1 x)
  then show ?case by simp
next
  case (2 n x)
  then show ?case
    by (simp add: unat_u8_of_nat mod_mult2_eq [of x 256 "256 ^ n", symmetric] algebra_simps
        mod_mult2_eq)
qed

lemma length_to_le [simp]:
  "length (u16_to_le a) = 2" "length (u32_to_le b) = 4" "length (u64_to_le c) = 8"
  by (simp_all add: u16_to_le_def u32_to_le_def u64_to_le_def)

lemma u16_from_to_le [simp]: "u16_from_le (u16_to_le x) = x"
  by (simp add: u16_from_le_def u16_to_le_def le_decode_encode)

lemma u32_from_to_le [simp]: "u32_from_le (u32_to_le x) = x"
  by (simp add: u32_from_le_def u32_to_le_def le_decode_encode)

lemma u64_from_to_le [simp]: "u64_from_le (u64_to_le x) = x"
  by (simp add: u64_from_le_def u64_to_le_def le_decode_encode)


section \<open>Slices of buffers\<close>

definition slice :: "'a list \<Rightarrow> nat \<Rightarrow> nat \<Rightarrow> 'a list" where
  "slice buf off n = take n (drop off buf)"

definition splice :: "'a list \<Rightarrow> nat \<Rightarrow> 'a list \<Rightarrow> 'a list" where
  "splice buf off bs = take off buf @ bs @ drop (off + length bs) buf"

lemma length_slice [simp]: "off + n \<le> length buf \<Longrightarrow> length (slice buf off n) = n"
  by (simp add: slice_def)

lemma length_splice [simp]:
  "off + length bs \<le> length buf \<Longrightarrow> length (splice buf off bs) = length buf"
  by (simp add: splice_def)

lemma splice_Nil [simp]: "off \<le> length buf \<Longrightarrow> splice buf off [] = buf"
  by (simp add: splice_def)

lemma nth_splice:
  "off + length bs \<le> length buf \<Longrightarrow> i < length buf \<Longrightarrow>
   splice buf off bs ! i = (if off \<le> i \<and> i < off + length bs then bs ! (i - off) else buf ! i)"
  by (auto simp: splice_def nth_append min_def)

lemma nth_slice: "off + n \<le> length buf \<Longrightarrow> i < n \<Longrightarrow> slice buf off n ! i = buf ! (off + i)"
  by (simp add: slice_def)

lemma slice_splice_same [simp]:
  "off + length bs \<le> length buf \<Longrightarrow> n = length bs \<Longrightarrow> slice (splice buf off bs) off n = bs"
  by (simp add: slice_def splice_def)

lemma slice_splice_other:
  "off' + length bs \<le> length buf \<Longrightarrow> off + n \<le> length buf \<Longrightarrow>
   off + n \<le> off' \<or> off' + length bs \<le> off \<Longrightarrow> slice (splice buf off' bs) off n = slice buf off n"
  by (rule nth_equalityI) (auto simp: nth_slice nth_splice)

lemma splice_append:
  "off + length bs + length cs \<le> length buf \<Longrightarrow>
   splice (splice buf off bs) (off + length bs) cs = splice buf off (bs @ cs)"
  by (rule nth_equalityI) (auto simp: nth_splice nth_append)

lemma slice_slice: "off + n \<le> m \<Longrightarrow> slice (slice buf b m) off n = slice buf (b + off) n"
  by (simp add: slice_def drop_take add.commute)


section \<open>Ranges\<close>

lemma concat_map_upt:
  assumes "\<And>j. f j \<le> f (Suc j)" "s \<le> e"
  shows "concat (map (\<lambda>j. [f j..<f (Suc j)]) [s..<e]) = [f s..<f e]"
  using assms(2)
proof (induction e rule: dec_induct)
  case base
  then show ?case by simp
next
  case (step n)
  have "f s \<le> f n" using assms(1) step(1) lift_Suc_mono_le by blast
  then have "[f s..<f n] @ [f n..<f (Suc n)] = [f s..<f (Suc n)]"
    using assms(1) [of n] by (metis le_add_diff_inverse upt_add_eq_append)
  with step show ?case by simp
qed

end
