(* ===== verification/Fs_Error.thy ===== *)
theory Fs_Error
  imports Prelude
begin

text \<open>
  The error vocabulary of \<^verbatim>\<open>src/src/fs_error.rs\<close>: the kinds, the error type \<open>FSError\<close>, its
  stable numeric codes \<open>FSErrorCode\<close> and their categories. Paths carried by an error are byte
  strings. An \<open>std::io::Error\<close> is represented by its kind, of which the sources only meet
  \<open>UnexpectedEof\<close>.
\<close>

datatype fs_error_category = Generic | Corruption

datatype fs_error_code =
    EC_FileDoesNotExist | EC_DirectoryDoesNotExist | EC_DoesNotExist | EC_AlreadyExists
  | EC_IsADirectory | EC_NotADirectory | EC_IsAFile | EC_NotAFile | EC_IsASymlink | EC_NotASymlink
  | EC_DirectoryNotEmpty | EC_FileNotOpen
  | EC_DirFreeRegionTooSmall | EC_DirEntryNotFree
  | EC_StorageFull | EC_INodeTableFull | EC_DataRegionFull
  | EC_MaxINodeSize
  | EC_InvalidInput | EC_InputDirEntriesOverfillBlock | EC_InputDirEntriesUnderfillBlock
  | EC_InputOffsetNotAtDirEntryStart | EC_InputINodeIndexOOB | EC_InputBlockIndexOOB
  | EC_InputIndexOOB | EC_InputINodeBlockIndexOOB | EC_InputUnknownFileType
  | EC_InputNotEnoughAllocatedBlocks | EC_InputFileIsSelfOrParent
  | EC_EmptySymlink | EC_MaximumSymlinkDepthReached
  | EC_DeletingRoot
  | EC_IO
  | EC_InvalidDirEntry | EC_ZeroLengthDirEntry | EC_DirEntryIsFree | EC_DirEntryInvalidINode
  | EC_DirEntryINodeOOB | EC_DirEntryInvalidFileType
  | EC_InvalidDir | EC_DirEntriesOverfillBlock
  | EC_InvalidINode | EC_INodeSizeGreaterThanAllocatedRegion | EC_INodeInvalidDirect
  | EC_INodeDirectOOB
  | EC_InvalidMagic

text \<open>The discriminants: \<open>generic(n)\<close> and \<open>corruption(n)\<close> place the category in the high byte.\<close>

definition CATEGORY_SHIFT :: nat where "CATEGORY_SHIFT = 8"
definition ERROR_MASK :: u16 where "ERROR_MASK = push_bit CATEGORY_SHIFT 1 - 1"
definition CATEGORY_MASK :: u16 where "CATEGORY_MASK = NOT ERROR_MASK"

fun category_as_u16 :: "fs_error_category \<Rightarrow> u16" where
  "category_as_u16 Generic = 0"
| "category_as_u16 Corruption = 1"

definition error_code :: "u16 \<Rightarrow> u16 \<Rightarrow> u16" where
  "error_code category error = push_bit CATEGORY_SHIFT category OR error"

definition generic :: "u16 \<Rightarrow> u16" where
  "generic error = error_code (category_as_u16 Generic) error"

definition corruption :: "u16 \<Rightarrow> u16" where
  "corruption error = error_code (category_as_u16 Corruption) error"

fun code_as_u16 :: "fs_error_code \<Rightarrow> u16" where
  "code_as_u16 EC_FileDoesNotExist = generic 1"
| "code_as_u16 EC_DirectoryDoesNotExist = generic 2"
| "code_as_u16 EC_DoesNotExist = generic 3"
| "code_as_u16 EC_AlreadyExists = generic 4"
| "code_as_u16 EC_IsADirectory = generic 5"
| "code_as_u16 EC_NotADirectory = generic 6"
| "code_as_u16 EC_IsAFile = generic 7"
| "code_as_u16 EC_NotAFile = generic 8"
| "code_as_u16 EC_IsASymlink = generic 9"
| "code_as_u16 EC_NotASymlink = generic 10"
| "code_as_u16 EC_DirectoryNotEmpty = generic 11"
| "code_as_u16 EC_FileNotOpen = generic 12"
| "code_as_u16 EC_DirFreeRegionTooSmall = generic 13"
| "code_as_u16 EC_DirEntryNotFree = generic 14"
| "code_as_u16 EC_StorageFull = generic 15"
| "code_as_u16 EC_INodeTableFull = generic 16"
| "code_as_u16 EC_DataRegionFull = generic 17"
| "code_as_u16 EC_MaxINodeSize = generic 18"
| "code_as_u16 EC_InvalidInput = generic 19"
| "code_as_u16 EC_InputDirEntriesOverfillBlock = generic 20"
| "code_as_u16 EC_InputDirEntriesUnderfillBlock = generic 21"
| "code_as_u16 EC_InputOffsetNotAtDirEntryStart = generic 22"
| "code_as_u16 EC_InputINodeIndexOOB = generic 23"
| "code_as_u16 EC_InputBlockIndexOOB = generic 24"
| "code_as_u16 EC_InputIndexOOB = generic 25"
| "code_as_u16 EC_InputINodeBlockIndexOOB = generic 26"
| "code_as_u16 EC_InputUnknownFileType = generic 27"
| "code_as_u16 EC_InputNotEnoughAllocatedBlocks = generic 28"
| "code_as_u16 EC_InputFileIsSelfOrParent = generic 29"
| "code_as_u16 EC_EmptySymlink = generic 30"
| "code_as_u16 EC_MaximumSymlinkDepthReached = generic 31"
| "code_as_u16 EC_DeletingRoot = generic 32"
| "code_as_u16 EC_IO = generic 33"
| "code_as_u16 EC_InvalidDirEntry = corruption 1"
| "code_as_u16 EC_ZeroLengthDirEntry = corruption 2"
| "code_as_u16 EC_DirEntryIsFree = corruption 3"
| "code_as_u16 EC_DirEntryInvalidINode = corruption 4"
| "code_as_u16 EC_DirEntryINodeOOB = corruption 5"
| "code_as_u16 EC_DirEntryInvalidFileType = corruption 6"
| "code_as_u16 EC_InvalidDir = corruption 7"
| "code_as_u16 EC_DirEntriesOverfillBlock = corruption 8"
| "code_as_u16 EC_InvalidINode = corruption 9"
| "code_as_u16 EC_INodeSizeGreaterThanAllocatedRegion = corruption 10"
| "code_as_u16 EC_INodeInvalidDirect = corruption 11"
| "code_as_u16 EC_INodeDirectOOB = corruption 12"
| "code_as_u16 EC_InvalidMagic = corruption 13"

text \<open>
  \<open>category\<close> transmutes the high byte of the discriminant to \<open>FSErrorCategory\<close>, which is only
  defined for the discriminants of that enum: \<open>None\<close> stands for any other value.
\<close>

definition category :: "fs_error_code \<Rightarrow> fs_error_category option" where
  "category c =
     (let value = drop_bit CATEGORY_SHIFT (code_as_u16 c AND CATEGORY_MASK)
      in if value = category_as_u16 Generic then Some Generic
         else if value = category_as_u16 Corruption then Some Corruption
         else None)"

datatype storage_full_kind = SF_None | SF_INodeTableFull | SF_DataRegionFull

datatype invalid_dir_entry_kind =
    DE_None | DE_ZeroLength | DE_IsFree | DE_InvalidINode | DE_INodeOOB | DE_InvalidFileType

datatype invalid_dir_kind = DK_None | DK_EntriesOverfillBlock

datatype invalid_inode_kind =
    IN_None
  | IN_SizeGreaterThanAllocatedRegion
  | IN_InvalidDirect u16 u32  \<comment> \<open>ind, address\<close>
  | IN_DirectOOB u16 u32 u32  \<comment> \<open>ind, address, max\<close>

datatype invalid_input_kind =
    II_None
  | II_DirEntriesOverfillBlock u32 nat nat  \<comment> \<open>block, offset, record_len\<close>
  | II_DirEntriesUnderfillBlock u32 nat  \<comment> \<open>block, filled\<close>
  | II_OffsetNotAtDirEntryStart u32 u16  \<comment> \<open>block, offset\<close>
  | II_INodeIndexOOB u32 u32  \<comment> \<open>index, max\<close>
  | II_BlockIndexOOB u32 u32
  | II_IndexOOB u32 u32
  | II_INodeBlockIndexOOB u32 u32
  | II_UnknownFileType
  | II_NotEnoughAllocatedBlocks u32 u32  \<comment> \<open>required, provided\<close>
  | II_FileIsSelfOrParent

datatype io_error = UnexpectedEof

datatype fs_error =
    FileDoesNotExist bytes
  | DirectoryDoesNotExist bytes
  | DoesNotExist bytes
  | AlreadyExists bytes
  | IsADirectory bytes
  | NotADirectory bytes
  | IsAFile bytes
  | NotAFile bytes
  | IsASymlink bytes
  | NotASymlink bytes
  | DirectoryNotEmpty bytes
  | FileNotOpen u32
  | DirFreeRegionTooSmall u32 u16 u16 u16  \<comment> \<open>block, offset, available, required\<close>
  | DirEntryNotFree u32 u16  \<comment> \<open>block, offset\<close>
  | StorageFull storage_full_kind u32 u32  \<comment> \<open>kind, requested, available\<close>
  | MaxINodeSize u32 u32  \<comment> \<open>requested blocks, max blocks\<close>
  | EmptySymlink bytes
  | MaximumSymlinkDepthReached bytes u32
  | DeletingRoot bytes
  | InvalidDirEntry invalid_dir_entry_kind u32 nat  \<comment> \<open>kind, block, offset\<close>
  | InvalidDir invalid_dir_kind u32 nat
  | InvalidINode invalid_inode_kind u64 u32  \<comment> \<open>kind, size, blocks\<close>
  | InvalidInput invalid_input_kind
  | InvalidMagic u64 u64  \<comment> \<open>expected, actual\<close>
  | IO io_error

fun fs_error_code_of :: "fs_error \<Rightarrow> fs_error_code" where
  "fs_error_code_of (FileDoesNotExist _) = EC_FileDoesNotExist"
| "fs_error_code_of (DirectoryDoesNotExist _) = EC_DirectoryDoesNotExist"
| "fs_error_code_of (DoesNotExist _) = EC_DoesNotExist"
| "fs_error_code_of (AlreadyExists _) = EC_AlreadyExists"
| "fs_error_code_of (IsADirectory _) = EC_IsADirectory"
| "fs_error_code_of (NotADirectory _) = EC_NotADirectory"
| "fs_error_code_of (IsAFile _) = EC_IsAFile"
| "fs_error_code_of (NotAFile _) = EC_NotAFile"
| "fs_error_code_of (IsASymlink _) = EC_IsASymlink"
| "fs_error_code_of (NotASymlink _) = EC_NotASymlink"
| "fs_error_code_of (DirectoryNotEmpty _) = EC_DirectoryNotEmpty"
| "fs_error_code_of (FileNotOpen _) = EC_FileNotOpen"
| "fs_error_code_of (DirFreeRegionTooSmall _ _ _ _) = EC_DirFreeRegionTooSmall"
| "fs_error_code_of (DirEntryNotFree _ _) = EC_DirEntryNotFree"
| "fs_error_code_of (StorageFull SF_None _ _) = EC_StorageFull"
| "fs_error_code_of (StorageFull SF_INodeTableFull _ _) = EC_INodeTableFull"
| "fs_error_code_of (StorageFull SF_DataRegionFull _ _) = EC_DataRegionFull"
| "fs_error_code_of (MaxINodeSize _ _) = EC_MaxINodeSize"
| "fs_error_code_of (EmptySymlink _) = EC_EmptySymlink"
| "fs_error_code_of (MaximumSymlinkDepthReached _ _) = EC_MaximumSymlinkDepthReached"
| "fs_error_code_of (DeletingRoot _) = EC_DeletingRoot"
| "fs_error_code_of (InvalidDirEntry DE_None _ _) = EC_InvalidDirEntry"
| "fs_error_code_of (InvalidDirEntry DE_ZeroLength _ _) = EC_ZeroLengthDirEntry"
| "fs_error_code_of (InvalidDirEntry DE_IsFree _ _) = EC_DirEntryIsFree"
| "fs_error_code_of (InvalidDirEntry DE_InvalidINode _ _) = EC_DirEntryInvalidINode"
| "fs_error_code_of (InvalidDirEntry DE_INodeOOB _ _) = EC_DirEntryINodeOOB"
| "fs_error_code_of (InvalidDirEntry DE_InvalidFileType _ _) = EC_DirEntryInvalidFileType"
| "fs_error_code_of (InvalidDir DK_None _ _) = EC_InvalidDir"
| "fs_error_code_of (InvalidDir DK_EntriesOverfillBlock _ _) = EC_DirEntriesOverfillBlock"
| "fs_error_code_of (InvalidINode IN_None _ _) = EC_InvalidINode"
| "fs_error_code_of (InvalidINode IN_SizeGreaterThanAllocatedRegion _ _) =
     EC_INodeSizeGreaterThanAllocatedRegion"
| "fs_error_code_of (InvalidINode (IN_InvalidDirect _ _) _ _) = EC_INodeInvalidDirect"
| "fs_error_code_of (InvalidINode (IN_DirectOOB _ _ _) _ _) = EC_INodeDirectOOB"
| "fs_error_code_of (InvalidInput II_None) = EC_InvalidInput"
| "fs_error_code_of (InvalidInput (II_DirEntriesOverfillBlock _ _ _)) =
     EC_InputDirEntriesOverfillBlock"
| "fs_error_code_of (InvalidInput (II_DirEntriesUnderfillBlock _ _)) =
     EC_InputDirEntriesUnderfillBlock"
| "fs_error_code_of (InvalidInput (II_OffsetNotAtDirEntryStart _ _)) =
     EC_InputOffsetNotAtDirEntryStart"
| "fs_error_code_of (InvalidInput (II_INodeIndexOOB _ _)) = EC_InputINodeIndexOOB"
| "fs_error_code_of (InvalidInput (II_BlockIndexOOB _ _)) = EC_InputBlockIndexOOB"
| "fs_error_code_of (InvalidInput (II_IndexOOB _ _)) = EC_InputIndexOOB"
| "fs_error_code_of (InvalidInput (II_INodeBlockIndexOOB _ _)) = EC_InputINodeBlockIndexOOB"
| "fs_error_code_of (InvalidInput II_UnknownFileType) = EC_InputUnknownFileType"
| "fs_error_code_of (InvalidInput (II_NotEnoughAllocatedBlocks _ _)) =
     EC_InputNotEnoughAllocatedBlocks"
| "fs_error_code_of (InvalidInput II_FileIsSelfOrParent) = EC_InputFileIsSelfOrParent"
| "fs_error_code_of (InvalidMagic _ _) = EC_InvalidMagic"
| "fs_error_code_of (IO _) = EC_IO"

text \<open>The errors that report a corrupted image, by their constructors.\<close>

fun is_corruption :: "fs_error \<Rightarrow> bool" where
  "is_corruption (InvalidDirEntry _ _ _) = True"
| "is_corruption (InvalidDir _ _ _) = True"
| "is_corruption (InvalidINode _ _ _) = True"
| "is_corruption (InvalidMagic _ _) = True"
| "is_corruption _ = False"

lemmas code_defs =
  generic_def corruption_def error_code_def CATEGORY_SHIFT_def CATEGORY_MASK_def ERROR_MASK_def

text \<open>
  C40. The numeric code of an error classifies it: \<open>category\<close> is defined on the code of every
  error (the \<open>transmute\<close> never meets a foreign discriminant), and it is \<open>Corruption\<close> exactly for
  the errors that report a corrupted image.
\<close>

theorem error_category_classifies:
  "category (fs_error_code_of e) = Some (if is_corruption e then Corruption else Generic)"
  by (cases e rule: fs_error_code_of.cases) (simp_all add: category_def code_defs)

end
