(* ===== verification/Outcome.thy ===== *)
theory Outcome
  imports Fs_Error
begin

text \<open>
  The effects of the Rust code. A call returns \<open>Ok\<close> or \<open>Err\<close> (\<open>FSResult\<close>), or panics
  (\<open>unwrap\<close> of \<open>None\<close>, a slice out of range, arithmetic overflow with overflow checks on,
  \<open>todo!\<close>), or does not return; \<open>'a res\<close> has one constructor for each. A computation over a
  mutable state is a function from the state to a result and the state left behind, so that the
  mutations made before an early return stay visible. \<open>bindM\<close> is the \<open>?\<close> operator.
\<close>

datatype 'a res = Ok 'a | Err fs_error | Panic | Diverge

type_synonym ('s, 'a) io = "'s \<Rightarrow> 'a res \<times> 's"

definition returnM :: "'a \<Rightarrow> ('s, 'a) io" where "returnM v s = (Ok v, s)"
definition throwM :: "fs_error \<Rightarrow> ('s, 'a) io" where "throwM e s = (Err e, s)"
definition panicM :: "('s, 'a) io" where "panicM s = (Panic, s)"
definition liftM :: "'a res \<Rightarrow> ('s, 'a) io" where "liftM r s = (r, s)"

fun bindR :: "'a res \<Rightarrow> ('a \<Rightarrow> 'b res) \<Rightarrow> 'b res" where
  "bindR (Ok v) f = f v"
| "bindR (Err e) f = Err e"
| "bindR Panic f = Panic"
| "bindR Diverge f = Diverge"

definition bindM :: "('s, 'a) io \<Rightarrow> ('a \<Rightarrow> ('s, 'b) io) \<Rightarrow> ('s, 'b) io" where
  "bindM m f s =
     (case m s of
        (Ok v, s') \<Rightarrow> f v s'
      | (Err e, s') \<Rightarrow> (Err e, s')
      | (Panic, s') \<Rightarrow> (Panic, s')
      | (Diverge, s') \<Rightarrow> (Diverge, s'))"

text \<open>\<open>for x in xs { acc = f(x, acc)?; }\<close>\<close>

fun foldM :: "('x \<Rightarrow> 'a \<Rightarrow> ('s, 'a) io) \<Rightarrow> 'x list \<Rightarrow> 'a \<Rightarrow> ('s, 'a) io" where
  "foldM f [] acc = returnM acc"
| "foldM f (x # xs) acc = bindM (f x acc) (foldM f xs)"

text \<open>
  A loop whose body may \<open>continue\<close> (with a new accumulator), \<open>break\<close> or \<open>return\<close>. A labelled
  \<open>break\<close> of an outer loop is passed on by the inner one.
\<close>

datatype ('a, 'r) ctl = Cont 'a | Brk 'a | Ret 'r

fun loopM :: "('x \<Rightarrow> 'a \<Rightarrow> ('s, ('a, 'r) ctl) io) \<Rightarrow> 'x list \<Rightarrow> 'a \<Rightarrow> ('s, ('a, 'r) ctl) io" where
  "loopM f [] acc = returnM (Cont acc)"
| "loopM f (x # xs) acc =
     bindM (f x acc) (\<lambda>c.
     case c of Cont acc' \<Rightarrow> loopM f xs acc' | Brk acc' \<Rightarrow> returnM (Brk acc') | Ret r \<Rightarrow> returnM (Ret r))"

text \<open>Access to the state and a computation on a component of it (\<open>&mut self.field\<close>).\<close>

definition getM :: "('s \<Rightarrow> 'a) \<Rightarrow> ('s, 'a) io" where "getM f s = (Ok (f s), s)"
definition modifyM :: "('s \<Rightarrow> 's) \<Rightarrow> ('s, unit) io" where "modifyM f s = (Ok (), f s)"

definition zoomM :: "('s \<Rightarrow> 't) \<Rightarrow> ('t \<Rightarrow> 's \<Rightarrow> 's) \<Rightarrow> ('t, 'a) io \<Rightarrow> ('s, 'a) io" where
  "zoomM get put m s = (case m (get s) of (r, t) \<Rightarrow> (r, put t s))"

text \<open>\<open>match r { Err(e) => h(e), .. }\<close>\<close>

definition catchM :: "('s, 'a) io \<Rightarrow> (fs_error \<Rightarrow> ('s, 'a) io) \<Rightarrow> ('s, 'a) io" where
  "catchM m h s = (case m s of (Err e, s') \<Rightarrow> h e s' | p \<Rightarrow> p)"

text \<open>\<open>Option::unwrap\<close>.\<close>

definition unwrap :: "'a option \<Rightarrow> 'a res" where
  "unwrap x = (case x of None \<Rightarrow> Panic | Some v \<Rightarrow> Ok v)"


section \<open>Checked arithmetic and slices\<close>

definition addW :: "'a::len word \<Rightarrow> 'a word \<Rightarrow> 'a word res" where
  "addW x y = (if unat x + unat y < 2 ^ LENGTH('a) then Ok (x + y) else Panic)"

definition subW :: "'a::len word \<Rightarrow> 'a word \<Rightarrow> 'a word res" where
  "subW x y = (if unat y \<le> unat x then Ok (x - y) else Panic)"

definition mulW :: "'a::len word \<Rightarrow> 'a word \<Rightarrow> 'a word res" where
  "mulW x y = (if unat x * unat y < 2 ^ LENGTH('a) then Ok (x * y) else Panic)"

text \<open>\<open>u32::div_ceil\<close>.\<close>

definition div_ceilW :: "'a::len word \<Rightarrow> 'a word \<Rightarrow> 'a word" where
  "div_ceilW x y = (if x mod y = 0 then x div y else x div y + 1)"

text \<open>\<open>a - b\<close> on \<open>usize\<close>.\<close>

definition subN :: "nat \<Rightarrow> nat \<Rightarrow> nat res" where
  "subN a b = (if b \<le> a then Ok (a - b) else Panic)"

text \<open>\<open>&buf[a..a + n]\<close> and \<open>buf[off..off + bytes.len()].copy_from_slice(bytes)\<close>.\<close>

definition sliceR :: "'a list \<Rightarrow> nat \<Rightarrow> nat \<Rightarrow> 'a list res" where
  "sliceR buf off n = (if off + n \<le> length buf then Ok (slice buf off n) else Panic)"

definition spliceR :: "'a list \<Rightarrow> nat \<Rightarrow> 'a list \<Rightarrow> 'a list res" where
  "spliceR buf off bs = (if off + length bs \<le> length buf then Ok (splice buf off bs) else Panic)"

definition indexR :: "'a list \<Rightarrow> nat \<Rightarrow> 'a res" where
  "indexR xs i = (if i < length xs then Ok (xs ! i) else Panic)"

definition updateR :: "'a list \<Rightarrow> nat \<Rightarrow> 'a \<Rightarrow> 'a list res" where
  "updateR xs i v = (if i < length xs then Ok (xs[i := v]) else Panic)"

text \<open>The \<open>write_field!\<close> macro on a list of fields, from an offset: the buffer and the end offset.\<close>

fun write_fields :: "bytes \<Rightarrow> nat \<Rightarrow> bytes list \<Rightarrow> (bytes \<times> nat) res" where
  "write_fields buf off [] = Ok (buf, off)"
| "write_fields buf off (f # fs) =
     bindR (spliceR buf off f) (\<lambda>buf'. write_fields buf' (off + length f) fs)"

text \<open>The \<open>read_field!\<close> macro on a list of field sizes, from an offset.\<close>

fun read_fields :: "bytes \<Rightarrow> nat \<Rightarrow> nat list \<Rightarrow> bytes list res" where
  "read_fields buf off [] = Ok []"
| "read_fields buf off (n # ns) =
     bindR (sliceR buf off n) (\<lambda>f. bindR (read_fields buf (off + n) ns) (\<lambda>fs. Ok (f # fs)))"

text \<open>Decimal \<open>to_string\<close> of an unsigned integer.\<close>

fun decimal :: "nat \<Rightarrow> bytes" where
  "decimal n = (if n < 10 then [of_nat (48 + n)] else decimal (n div 10) @ [of_nat (48 + n mod 10)])"

declare decimal.simps [simp del]

definition u32_to_string :: "u32 \<Rightarrow> bytes" where "u32_to_string x = decimal (unat x)"


section \<open>Laws\<close>

named_theorems io_simps \<open>evaluation of the primitive computations\<close>

lemmas io_prims [io_simps] =
  returnM_def throwM_def panicM_def liftM_def getM_def modifyM_def zoomM_def bindM_def

lemma bindR_cong [fundef_cong]:
  "r = r' \<Longrightarrow> (\<And>v. r' = Ok v \<Longrightarrow> f v = f' v) \<Longrightarrow> bindR r f = bindR r' f'"
  by (cases r') auto

lemma bindM_cong [fundef_cong]: "m = m' \<Longrightarrow> (\<And>v. f v = f' v) \<Longrightarrow> bindM m f = bindM m' f'"
  by (rule arg_cong2 [where f = bindM]) auto

lemma bindR_eq_Ok: "bindR r f = Ok v \<longleftrightarrow> (\<exists>x. r = Ok x \<and> f x = Ok v)"
  by (cases r) auto

lemma bindM_Ok: "m s = (Ok v, s') \<Longrightarrow> bindM m f s = f v s'"
  by (simp add: bindM_def)

lemma bindM_Err: "m s = (Err e, s') \<Longrightarrow> bindM m f s = (Err e, s')"
  by (simp add: bindM_def)

lemma bindM_Panic: "m s = (Panic, s') \<Longrightarrow> bindM m f s = (Panic, s')"
  by (simp add: bindM_def)

lemma bindM_eq_Ok:
  "bindM m f s = (Ok v, s'') \<longleftrightarrow> (\<exists>x s'. m s = (Ok x, s') \<and> f x s' = (Ok v, s''))"
  by (auto simp: bindM_def split: prod.splits res.splits)

lemma bindM_returnM [simp]: "bindM (returnM v) f = f v"
  by (rule ext) (simp add: bindM_def returnM_def)

lemma bindM_throwM [simp]: "bindM (throwM e) f = throwM e"
  by (rule ext) (simp add: bindM_def throwM_def)

lemma bindM_panicM [simp]: "bindM panicM f = panicM"
  by (rule ext) (simp add: bindM_def panicM_def)

lemma bindM_liftM_Ok [simp]: "bindM (liftM (Ok v)) f = f v"
  by (rule ext) (simp add: bindM_def liftM_def)

lemma bindM_liftM_Panic [simp]: "bindM (liftM Panic) f = panicM"
  by (rule ext) (simp add: bindM_def liftM_def panicM_def)

lemma liftM_Ok [simp]: "liftM (Ok v) = returnM v"
  by (rule ext) (simp add: liftM_def returnM_def)

lemma liftM_bindR: "bindM (liftM r) (\<lambda>v. bindM (liftM (f v)) g) = bindM (liftM (bindR r f)) g"
  by (cases r) (auto simp: bindM_def liftM_def)

lemma bindM_assoc: "bindM (bindM m f) g = bindM m (\<lambda>x. bindM (f x) g)"
  by (rule ext) (simp add: bindM_def split: prod.splits res.splits)

lemma addW_Ok: "unat (x :: 'a::len word) + unat y < 2 ^ LENGTH('a) \<Longrightarrow> addW x y = Ok (x + y)"
  by (simp add: addW_def)

lemma subW_Ok: "unat (y :: 'a::len word) \<le> unat x \<Longrightarrow> subW x y = Ok (x - y)"
  by (simp add: subW_def)

lemma mulW_Ok: "unat (x :: 'a::len word) * unat y < 2 ^ LENGTH('a) \<Longrightarrow> mulW x y = Ok (x * y)"
  by (simp add: mulW_def)

lemma addW_eq_Ok:
  "addW (x :: 'a::len word) y = Ok z \<longleftrightarrow>
   unat x + unat y < 2 ^ LENGTH('a) \<and> z = x + y \<and> unat z = unat x + unat y"
  by (auto simp: addW_def unat_add_small)

lemma subW_eq_Ok:
  "subW (x :: 'a::len word) y = Ok z \<longleftrightarrow>
   unat y \<le> unat x \<and> z = x - y \<and> unat z = unat x - unat y"
  by (auto simp: subW_def unat_sub_small)

lemma write_fields_splice:
  "off + length (concat fs) \<le> length buf \<Longrightarrow>
   write_fields buf off fs = Ok (splice buf off (concat fs), off + length (concat fs))"
proof (induction fs arbitrary: buf off)
  case Nil
  then show ?case by simp
next
  case (Cons f fs)
  then have fit: "off + length f \<le> length buf" by simp
  have "write_fields (splice buf off f) (off + length f) fs =
      Ok (splice (splice buf off f) (off + length f) (concat fs),
          off + length f + length (concat fs))"
    using Cons.prems fit by (intro Cons.IH) simp
  moreover have "splice (splice buf off f) (off + length f) (concat fs) =
      splice buf off (f @ concat fs)"
    using Cons.prems by (intro splice_append) simp
  ultimately show ?case using fit by (simp add: spliceR_def add.assoc)
qed

lemma length_write_fields:
  "write_fields buf off fs = Ok (buf', off') \<Longrightarrow> length buf' = length buf"
proof (induction fs arbitrary: buf off)
  case Nil
  then show ?case by simp
next
  case (Cons f fs)
  then obtain b where b: "spliceR buf off f = Ok b"
    and rest: "write_fields b (off + length f) fs = Ok (buf', off')"
    by (auto simp: bindR_eq_Ok)
  from b have "length b = length buf" by (auto simp: spliceR_def split: if_splits)
  with Cons.IH [OF rest] show ?case by simp
qed

lemma read_fields_concat:
  "slice buf off (length (concat fs)) = concat fs \<Longrightarrow> off + length (concat fs) \<le> length buf \<Longrightarrow>
   read_fields buf off (map length fs) = Ok fs"
proof (induction fs arbitrary: off)
  case Nil
  then show ?case by simp
next
  case (Cons f fs)
  have "slice buf off (length f) = take (length f) (slice buf off (length (concat (f # fs))))"
    by (simp add: slice_def)
  then have f: "slice buf off (length f) = f" using Cons.prems(1) by simp
  have "slice buf (off + length f) (length (concat fs)) =
      drop (length f) (slice buf off (length (concat (f # fs))))"
    by (simp add: slice_def drop_take add.commute)
  then have "slice buf (off + length f) (length (concat fs)) = concat fs" using Cons.prems(1) by simp
  then have "read_fields buf (off + length f) (map length fs) = Ok fs"
    using Cons.prems(2) by (intro Cons.IH) auto
  then show ?case using Cons.prems(2) f by (simp add: sliceR_def)
qed


lemma nat_div_ceil:
  assumes "0 < (y :: nat)"
  shows "(x + y - 1) div y = (if x mod y = 0 then x div y else x div y + 1)"
proof -
  define q r where "q = x div y" and "r = x mod y"
  have x: "x = q * y + r" and r: "r < y" using assms by (simp_all add: q_def r_def)
  have "(x + y - 1) div y = (if r = 0 then q else q + 1)"
    using assms r by (intro div_nat_eqI) (auto simp: x algebra_simps)
  then show ?thesis by (simp add: q_def r_def)
qed

lemma unat_div_ceilW:
  assumes "0 < unat (y :: 'a::len word)"
  shows "unat (div_ceilW x y) = (unat x + unat y - 1) div unat y"
proof (cases "x mod y = 0")
  case True
  then have "unat x mod unat y = 0" by (metis unat_0 unat_mod)
  then show ?thesis
    using True assms by (simp add: div_ceilW_def unat_div nat_div_ceil del: One_nat_def)
next
  case False
  then have m: "unat x mod unat y \<noteq> 0" by (metis unat_0_iff unat_mod)
  have "unat y \<noteq> 1" using m by auto
  moreover have "unat x \<noteq> 0" using m by (intro notI) simp
  ultimately have "unat x div unat y < unat x" using assms by simp
  then have "unat x div unat y + 1 < 2 ^ LENGTH('a)"
    using unsigned_less [of x, where 'a = nat] by linarith
  then have "unat (x div y + 1) = unat x div unat y + 1"
    by (simp add: unat_div unat_add_small)
  then show ?thesis
    using False m assms by (simp add: div_ceilW_def nat_div_ceil del: One_nat_def)
qed

end
