(* ===== verification/Block_Device.thy ===== *)
theory Block_Device
  imports Outcome
begin

text \<open>
  The storage interface: the constants of \<^verbatim>\<open>src/src/fs_utils.rs\<close>, the trait \<open>BlockDevice\<close> of
  \<^verbatim>\<open>src/src/device/block_device.rs\<close> as a record of operations over a device type \<open>'d\<close> (the format
  code is generic over the trait, and takes the record as an argument), and the contracts a device
  can satisfy, as locales:

  \<^item> \<open>partial_device\<close>: a device whose abstract content is a list of 256-byte blocks, and whose reads
    and writes agree with that list whenever they return \<open>Ok\<close>;
  \<^item> \<open>block_device\<close>: in addition every access inside the device returns \<open>Ok\<close>, as does a flush;
  \<^item> \<open>resizable_device\<close>: in addition the device can be cut or extended by zeroed blocks;
  \<^item> \<open>checked_device\<close>: in addition an access outside it is refused and changes nothing.

  \<open>execs\<close> is the evaluation judgement the clients of a device are verified with: from every state
  with abstraction \<open>b\<close>, the computation gives the result \<open>r\<close> and a state with abstraction \<open>b'\<close>.
\<close>

definition MAGIC :: u64 where "MAGIC = 0x2E2E616E616E6162"
definition BLOCK_SIZE :: nat where "BLOCK_SIZE = 256"
definition INVALID_ADDRESS :: u32 where "INVALID_ADDRESS = 0xFFFFFFFF"

record 'd block_ops =
  read_block :: "u32 \<Rightarrow> ('d, bytes) io"
  write_block :: "u32 \<Rightarrow> bytes \<Rightarrow> ('d, unit) io"
  block_count :: "'d \<Rightarrow> u32"
  resize :: "u32 \<Rightarrow> ('d, unit) io"
  flush :: "('d, unit) io"

abbreviation zero_block :: bytes where "zero_block \<equiv> replicate BLOCK_SIZE 0"

definition wf_blocks :: "bytes list \<Rightarrow> bool" where
  "wf_blocks bs \<longleftrightarrow> (\<forall>b \<in> set bs. length b = BLOCK_SIZE)"

definition resize_blocks :: "nat \<Rightarrow> bytes list \<Rightarrow> bytes list" where
  "resize_blocks n bs = take n bs @ replicate (n - length bs) zero_block"

lemma unat_INVALID_ADDRESS [simp]: "unat INVALID_ADDRESS = 4294967295"
  by (simp add: INVALID_ADDRESS_def)

lemma wf_blocks_nth [simp]: "wf_blocks bs \<Longrightarrow> i < length bs \<Longrightarrow> length (bs ! i) = BLOCK_SIZE"
  by (simp add: wf_blocks_def)

lemma wf_blocks_update [simp]:
  "wf_blocks bs \<Longrightarrow> length b = BLOCK_SIZE \<Longrightarrow> wf_blocks (bs[i := b])"
  unfolding wf_blocks_def using set_update_subset_insert by fast

lemma wf_resize_blocks [simp]: "wf_blocks bs \<Longrightarrow> wf_blocks (resize_blocks n bs)"
  by (auto simp: wf_blocks_def resize_blocks_def dest: in_set_takeD)

lemma length_resize_blocks [simp]: "length (resize_blocks n bs) = n"
  by (simp add: resize_blocks_def)


section \<open>Evaluation judgement\<close>

definition execs ::
  "('s \<Rightarrow> bool) \<Rightarrow> ('s \<Rightarrow> 'b) \<Rightarrow> ('s, 'a) io \<Rightarrow> 'b \<Rightarrow> 'a res \<Rightarrow> 'b \<Rightarrow> bool" where
  "execs I A m b r b' \<longleftrightarrow>
     (\<forall>s. I s \<longrightarrow> A s = b \<longrightarrow> (\<exists>s'. m s = (r, s') \<and> I s' \<and> A s' = b'))"

lemma execsI:
  "(\<And>s. I s \<Longrightarrow> A s = b \<Longrightarrow> \<exists>s'. m s = (r, s') \<and> I s' \<and> A s' = b') \<Longrightarrow> execs I A m b r b'"
  by (simp add: execs_def)

lemma execsD: "execs I A m b r b' \<Longrightarrow> I s \<Longrightarrow> A s = b \<Longrightarrow> \<exists>s'. m s = (r, s') \<and> I s' \<and> A s' = b'"
  by (simp add: execs_def)

lemma execs_return [intro]: "execs I A (returnM v) b (Ok v) b"
  by (simp add: execs_def returnM_def)

lemma execs_throw [intro]: "execs I A (throwM e) b (Err e) b"
  by (simp add: execs_def throwM_def)

lemma execs_panic [intro]: "execs I A panicM b Panic b"
  by (simp add: execs_def panicM_def)

lemma execs_lift [intro]: "execs I A (liftM r) b r b"
  by (simp add: execs_def liftM_def)

lemma execs_bind:
  "execs I A m b (Ok v) b1 \<Longrightarrow> execs I A (f v) b1 r b2 \<Longrightarrow> execs I A (bindM m f) b r b2"
  unfolding execs_def by (metis bindM_Ok)

lemma execs_bind_Err: "execs I A m b (Err e) b1 \<Longrightarrow> execs I A (bindM m f) b (Err e) b1"
  unfolding execs_def by (metis bindM_Err)

lemma execs_bind_Panic: "execs I A m b Panic b1 \<Longrightarrow> execs I A (bindM m f) b Panic b1"
  unfolding execs_def by (metis bindM_Panic)

lemma execs_foldM:
  assumes step: "\<And>k. k < length xs \<Longrightarrow> execs I A (f (xs ! k) (acc k)) (b k) (Ok (acc (Suc k))) (b (Suc k))"
  shows "execs I A (foldM f xs (acc 0)) (b 0) (Ok (acc (length xs))) (b (length xs))"
  using assms
proof (induction xs arbitrary: acc b)
  case Nil
  then show ?case by auto
next
  case (Cons x xs)
  have "execs I A (f x (acc 0)) (b 0) (Ok (acc 1)) (b 1)"
    using Cons.prems [of 0] by simp
  moreover have "execs I A (foldM f xs (acc (Suc 0))) (b (Suc 0)) (Ok (acc (Suc (length xs))))
      (b (Suc (length xs)))"
    using Cons.IH [of "\<lambda>k. acc (Suc k)" "\<lambda>k. b (Suc k)"] Cons.prems [of "Suc k" for k] by simp
  ultimately show ?case by (auto intro: execs_bind)
qed

text \<open>
  A loop that only reads, as a walk over the concatenation of the segments its iterations cover:
  \<open>P c X a\<close> says that covering \<open>X\<close> from the accumulator \<open>a\<close> ends with \<open>c\<close>.
\<close>

lemma execs_loopM:
  assumes nil: "\<And>a. Q a \<Longrightarrow> P (Cont a) [] a"
    and cont: "\<And>a a1 c X Y. P (Cont a1) X a \<Longrightarrow> P c Y a1 \<Longrightarrow> sorted (X @ Y) \<Longrightarrow> P c (X @ Y) a"
    and brk: "\<And>a a1 X Y. P (Brk a1) X a \<Longrightarrow> sorted (X @ Y) \<Longrightarrow> P (Brk a1) (X @ Y) a"
    and ret: "\<And>a r X Y. P (Ret r) X a \<Longrightarrow> sorted (X @ Y) \<Longrightarrow> P (Ret r) (X @ Y) a"
    and keep: "\<And>a a1 X. Q a \<Longrightarrow> P (Cont a1) X a \<Longrightarrow> Q a1"
    and body: "\<And>x a. x \<in> set xs \<Longrightarrow> Q a \<Longrightarrow> \<exists>c. execs I A (f x a) b (Ok c) b \<and> P c (X x) a"
    and sorted: "sorted (concat (map X xs) :: nat list)"
    and Q: "Q a"
  shows "\<exists>c. execs I A (loopM f xs a) b (Ok c) b \<and> P c (concat (map X xs)) a"
  using body sorted Q
proof (induction xs arbitrary: a)
  case Nil
  then show ?case using nil by auto
next
  case (Cons x xs)
  from Cons.prems(1) [of x a] Cons.prems(3) obtain c where
    c: "execs I A (f x a) b (Ok c) b" "P c (X x) a" by auto
  show ?case
  proof (cases c)
    case (Cont a1)
    have "Q a1" using keep Cons.prems(3) c Cont by blast
    then have "\<exists>c. execs I A (loopM f xs a1) b (Ok c) b \<and> P c (concat (map X xs)) a1"
      using Cons.prems(1,2) by (intro Cons.IH) (auto simp: sorted_append)
    with c Cont cont Cons.prems(2) show ?thesis by (fastforce intro: execs_bind)
  next
    case (Brk a1)
    with c brk Cons.prems(2) show ?thesis by (fastforce intro: execs_bind)
  next
    case (Ret r)
    with c ret Cons.prems(2) show ?thesis by (fastforce intro: execs_bind)
  qed
qed


section \<open>Scripts of accesses\<close>

text \<open>A sequence of reads and writes, run on a device and on a list of blocks.\<close>

datatype access = Read u32 | Write u32 bytes

fun run_accesses :: "('d, 'x) block_ops_scheme \<Rightarrow> access list \<Rightarrow> ('d, bytes list) io" where
  "run_accesses ops [] = returnM []"
| "run_accesses ops (Read n # as) =
     bindM (read_block ops n) (\<lambda>buf. bindM (run_accesses ops as) (\<lambda>out. returnM (buf # out)))"
| "run_accesses ops (Write n buf # as) =
     bindM (write_block ops n buf) (\<lambda>_. run_accesses ops as)"

fun spec_accesses :: "bytes list \<Rightarrow> access list \<Rightarrow> bytes list \<times> bytes list" where
  "spec_accesses bs [] = ([], bs)"
| "spec_accesses bs (Read n # as) =
     (let (out, bs') = spec_accesses bs as in (bs ! unat n # out, bs'))"
| "spec_accesses bs (Write n buf # as) = spec_accesses (bs[unat n := buf]) as"

fun access_ok :: "nat \<Rightarrow> access \<Rightarrow> bool" where
  "access_ok k (Read n) \<longleftrightarrow> unat n < k"
| "access_ok k (Write n buf) \<longleftrightarrow> unat n < k \<and> length buf = BLOCK_SIZE"

lemma length_spec_accesses [simp]: "length (snd (spec_accesses bs as)) = length bs"
  by (induction bs as rule: spec_accesses.induct) (auto simp: Let_def split: prod.splits)


section \<open>Contracts\<close>

locale partial_device =
  fixes ops :: "'d block_ops"
    and blks :: "'d \<Rightarrow> bytes list"
    and inv :: "'d \<Rightarrow> bool"
  assumes wf: "inv d \<Longrightarrow> wf_blocks (blks d)"
    and count: "inv d \<Longrightarrow> unat (block_count ops d) = length (blks d)"
    and read_partial: "inv d \<Longrightarrow> unat n < length (blks d) \<Longrightarrow> read_block ops n d = (Ok buf, d') \<Longrightarrow>
      buf = blks d ! unat n \<and> inv d' \<and> blks d' = blks d"
    and write_partial: "inv d \<Longrightarrow> unat n < length (blks d) \<Longrightarrow> length buf = BLOCK_SIZE \<Longrightarrow>
      write_block ops n buf d = (Ok u, d') \<Longrightarrow> inv d' \<and> blks d' = (blks d)[unat n := buf]"
begin

lemma length_blks: "inv d \<Longrightarrow> length (blks d) < 4294967296"
  using count [of d] unat_u32_bound [of "block_count ops d"] by simp

lemma run_accesses_partial:
  "inv d \<Longrightarrow> \<forall>a \<in> set as. access_ok (length (blks d)) a \<Longrightarrow>
   run_accesses ops as d = (Ok out, d') \<Longrightarrow>
   inv d' \<and> (out, blks d') = spec_accesses (blks d) as"
proof (induction as arbitrary: d out)
  case Nil
  then show ?case by (simp add: returnM_def)
next
  case (Cons a as)
  show ?case
  proof (cases a)
    case (Read n)
    with Cons.prems obtain buf d1 out' where
      r: "read_block ops n d = (Ok buf, d1)" and rest: "run_accesses ops as d1 = (Ok out', d')"
      and out: "out = buf # out'"
      by (auto simp: bindM_eq_Ok returnM_def)
    from Cons.prems r Read have "buf = blks d ! unat n" "inv d1" "blks d1 = blks d"
      using read_partial [OF Cons.prems(1) _ r] by auto
    with Cons.IH [of d1 out'] Cons.prems rest out Read show ?thesis
      by (auto split: prod.splits)
  next
    case (Write n buf)
    with Cons.prems obtain u d1 where
      w: "write_block ops n buf d = (Ok u, d1)" and rest: "run_accesses ops as d1 = (Ok out, d')"
      by (auto simp: bindM_eq_Ok)
    from Cons.prems Write have "inv d1 \<and> blks d1 = (blks d)[unat n := buf]"
      using write_partial [OF Cons.prems(1) _ _ w] by auto
    with Cons.IH [of d1 out] Cons.prems rest Write show ?thesis by simp
  qed
qed

end

locale block_device =
  fixes ops :: "'d block_ops"
    and blks :: "'d \<Rightarrow> bytes list"
    and inv :: "'d \<Rightarrow> bool"
  assumes blocks_wf: "inv d \<Longrightarrow> wf_blocks (blks d)"
    and count_ok: "inv d \<Longrightarrow> unat (block_count ops d) = length (blks d)"
    and read_ok: "inv d \<Longrightarrow> unat n < length (blks d) \<Longrightarrow>
      \<exists>d'. read_block ops n d = (Ok (blks d ! unat n), d') \<and> inv d' \<and> blks d' = blks d"
    and write_ok: "inv d \<Longrightarrow> unat n < length (blks d) \<Longrightarrow> length buf = BLOCK_SIZE \<Longrightarrow>
      \<exists>d'. write_block ops n buf d = (Ok (), d') \<and> inv d' \<and> blks d' = (blks d)[unat n := buf]"
    and flush_ok: "inv d \<Longrightarrow> \<exists>d'. flush ops d = (Ok (), d') \<and> inv d' \<and> blks d' = blks d"
begin

sublocale partial: partial_device ops blks inv
proof
  show "inv d \<Longrightarrow> wf_blocks (blks d)" for d by (rule blocks_wf)
  show "inv d \<Longrightarrow> unat (block_count ops d) = length (blks d)" for d by (rule count_ok)
  show "buf = blks d ! unat n \<and> inv d' \<and> blks d' = blks d"
    if "inv d" "unat n < length (blks d)" "read_block ops n d = (Ok buf, d')" for d n buf d'
    using read_ok [OF that(1,2)] that(3) by auto
  show "inv d' \<and> blks d' = (blks d)[unat n := buf]"
    if "inv d" "unat n < length (blks d)" "length buf = BLOCK_SIZE"
      "write_block ops n buf d = (Ok u, d')" for d n buf u d'
    using write_ok [OF that(1-3)] that(4) by auto
qed

lemma length_small: "inv d \<Longrightarrow> length (blks d) < 4294967296"
  using count_ok [of d] unat_u32_bound [of "block_count ops d"] by simp

lemma read_execs [intro]:
  "unat n < length bs \<Longrightarrow> execs inv blks (read_block ops n) bs (Ok (bs ! unat n)) bs"
  using read_ok by (force simp: execs_def)

lemma write_execs [intro]:
  "unat n < length bs \<Longrightarrow> length buf = BLOCK_SIZE \<Longrightarrow>
   execs inv blks (write_block ops n buf) bs (Ok ()) (bs[unat n := buf])"
  using write_ok by (force simp: execs_def)

lemma flush_execs [intro]: "execs inv blks (flush ops) bs (Ok ()) bs"
  using flush_ok by (force simp: execs_def)

lemma execs_wf:
  "(wf_blocks bs \<Longrightarrow> length bs < 4294967296 \<Longrightarrow> execs inv blks m bs r bs') \<Longrightarrow> execs inv blks m bs r bs'"
  using blocks_wf partial.length_blks by (force simp: execs_def)

lemma run_accesses_total:
  "inv d \<Longrightarrow> \<forall>a \<in> set as. access_ok (length (blks d)) a \<Longrightarrow>
   \<exists>d'. run_accesses ops as d = (Ok (fst (spec_accesses (blks d) as)), d') \<and> inv d' \<and>
     blks d' = snd (spec_accesses (blks d) as)"
proof (induction as arbitrary: d)
  case Nil
  then show ?case by (simp add: returnM_def)
next
  case (Cons a as)
  show ?case
  proof (cases a)
    case (Read n)
    with Cons.prems have n: "unat n < length (blks d)" by simp
    from read_ok [OF Cons.prems(1) n] obtain d1 where
      d1: "read_block ops n d = (Ok (blks d ! unat n), d1)" "inv d1" "blks d1 = blks d" by auto
    from Cons.IH [OF d1(2)] Cons.prems d1(3) Read obtain d2 where
      "run_accesses ops as d1 = (Ok (fst (spec_accesses (blks d) as)), d2)" "inv d2"
      "blks d2 = snd (spec_accesses (blks d) as)" by auto
    with d1 Read show ?thesis by (auto simp: bindM_Ok returnM_def split: prod.splits)
  next
    case (Write n buf)
    with Cons.prems have n: "unat n < length (blks d)" and l: "length buf = BLOCK_SIZE" by auto
    from write_ok [OF Cons.prems(1) n l] obtain d1 where
      d1: "write_block ops n buf d = (Ok (), d1)" "inv d1" "blks d1 = (blks d)[unat n := buf]"
      by auto
    from Cons.IH [OF d1(2)] Cons.prems d1(3) Write obtain d2 where
      "run_accesses ops as d1 = (Ok (fst (spec_accesses ((blks d)[unat n := buf]) as)), d2)" "inv d2"
      "blks d2 = snd (spec_accesses ((blks d)[unat n := buf]) as)" by auto
    with d1 Write show ?thesis by (auto simp: bindM_Ok)
  qed
qed

end

locale resizable_device = block_device +
  assumes resize_ok: "inv d \<Longrightarrow>
      \<exists>d'. resize ops n d = (Ok (), d') \<and> inv d' \<and> blks d' = resize_blocks (unat n) (blks d)"

text \<open>
  Accesses of a device that checks its bounds, on the list of its blocks: the script ends at the first
  access outside the device, with the error that names the block and the number of blocks.
\<close>

definition oob_error :: "u32 \<Rightarrow> bytes list \<Rightarrow> fs_error" where
  "oob_error n bs = InvalidInput (II_BlockIndexOOB n (of_nat (length bs)))"

fun checked_accesses :: "bytes list \<Rightarrow> access list \<Rightarrow> bytes list res \<times> bytes list" where
  "checked_accesses bs [] = (Ok [], bs)"
| "checked_accesses bs (Read n # as) =
     (if unat n < length bs
      then case checked_accesses bs as of
             (Ok out, bs') \<Rightarrow> (Ok (bs ! unat n # out), bs')
           | (r, bs') \<Rightarrow> (r, bs')
      else (Err (oob_error n bs), bs))"
| "checked_accesses bs (Write n buf # as) =
     (if unat n < length bs then checked_accesses (bs[unat n := buf]) as else (Err (oob_error n bs), bs))"

fun whole_block :: "access \<Rightarrow> bool" where
  "whole_block (Read n) \<longleftrightarrow> True"
| "whole_block (Write n buf) \<longleftrightarrow> length buf = BLOCK_SIZE"

locale checked_device = resizable_device +
  assumes read_oob: "inv d \<Longrightarrow> length (blks d) \<le> unat n \<Longrightarrow>
      read_block ops n d = (Err (InvalidInput (II_BlockIndexOOB n (block_count ops d))), d)"
    and write_oob: "inv d \<Longrightarrow> length (blks d) \<le> unat n \<Longrightarrow>
      write_block ops n buf d = (Err (InvalidInput (II_BlockIndexOOB n (block_count ops d))), d)"
begin

lemma oob_count: "inv d \<Longrightarrow> InvalidInput (II_BlockIndexOOB n (block_count ops d)) = oob_error n (blks d)"
  by (simp add: oob_error_def flip: count_ok)

lemma run_accesses_checked:
  "inv d \<Longrightarrow> \<forall>a \<in> set as. whole_block a \<Longrightarrow>
   \<exists>d'. run_accesses ops as d = (fst (checked_accesses (blks d) as), d') \<and> inv d' \<and>
     blks d' = snd (checked_accesses (blks d) as)"
proof (induction as arbitrary: d)
  case Nil
  then show ?case by (simp add: returnM_def)
next
  case (Cons a as)
  note out = oob_count [OF Cons.prems(1)]
  show ?case
  proof (cases a)
    case (Read n)
    show ?thesis
    proof (cases "unat n < length (blks d)")
      case True
      from read_ok [OF Cons.prems(1) True] obtain d1 where
        d1: "read_block ops n d = (Ok (blks d ! unat n), d1)" "inv d1" "blks d1 = blks d" by auto
      from Cons.IH [OF d1(2)] Cons.prems(2) d1(3) obtain d2 where
        "run_accesses ops as d1 = (fst (checked_accesses (blks d) as), d2)" "inv d2"
        "blks d2 = snd (checked_accesses (blks d) as)" by auto
      with d1 True Read show ?thesis by (auto simp: bindM_def returnM_def split: res.splits prod.splits)
    qed (use read_oob [OF Cons.prems(1), of n] Read Cons.prems(1) out in \<open>auto simp: bindM_def\<close>)
  next
    case (Write n buf)
    show ?thesis
    proof (cases "unat n < length (blks d)")
      case True
      with Cons.prems(2) Write write_ok [OF Cons.prems(1) True, of buf] obtain d1 where
        d1: "write_block ops n buf d = (Ok (), d1)" "inv d1" "blks d1 = (blks d)[unat n := buf]" by auto
      with Cons.IH [OF d1(2)] Cons.prems(2) True Write show ?thesis by (auto simp: bindM_Ok)
    qed (use write_oob [OF Cons.prems(1), of n buf] Write Cons.prems(1) out in \<open>auto simp: bindM_def\<close>)
  qed
qed

end

end
