(* ===== verification/Memory_Device.thy ===== *)
theory Memory_Device
  imports Block_Device
begin

text \<open>
  \<open>MemoryDevice\<close> of \<^verbatim>\<open>src/src/device/memory_device.rs\<close>: a vector of blocks, its import from and
  export to an image file (the content of a host file is a byte string), and the proof that it is
  a \<open>checked_device\<close> whose abstraction is the vector itself.
\<close>

record memory_device =
  md_blocks :: "bytes list"

definition mem_block_count :: "memory_device \<Rightarrow> u32" where
  "mem_block_count d = of_nat (length (md_blocks d))"

definition mem_read_block :: "u32 \<Rightarrow> (memory_device, bytes) io" where
  "mem_read_block block d =
     (if mem_block_count d \<le> block
      then (Err (InvalidInput (II_BlockIndexOOB block (mem_block_count d))), d)
      else (indexR (md_blocks d) (unat block), d))"

definition mem_write_block :: "u32 \<Rightarrow> bytes \<Rightarrow> (memory_device, unit) io" where
  "mem_write_block block buf d =
     (if mem_block_count d \<le> block
      then (Err (InvalidInput (II_BlockIndexOOB block (mem_block_count d))), d)
      else (case updateR (md_blocks d) (unat block) buf of
              Ok bs \<Rightarrow> (Ok (), d\<lparr>md_blocks := bs\<rparr>)
            | _ \<Rightarrow> (Panic, d)))"

definition mem_resize :: "u32 \<Rightarrow> (memory_device, unit) io" where
  "mem_resize blocks d = (Ok (), d\<lparr>md_blocks := resize_blocks (unat blocks) (md_blocks d)\<rparr>)"

definition mem_flush :: "(memory_device, unit) io" where
  "mem_flush d = (Ok (), d)"

definition mem_ops :: "memory_device block_ops" where
  "mem_ops = \<lparr>read_block = mem_read_block, write_block = mem_write_block,
     block_count = mem_block_count, resize = mem_resize, flush = mem_flush\<rparr>"

definition mem_empty :: "u64 \<Rightarrow> memory_device" where
  "mem_empty blocks = \<lparr>md_blocks = replicate (unat blocks) zero_block\<rparr>"

text \<open>
  \<open>from_file\<close> reads whole blocks until \<open>read_exact\<close> meets the end of the file; a trailing partial
  block is dropped. \<open>save\<close> opens an existing file without truncating it, writes the blocks from its
  start, and then sets its length; \<open>set_len\<close> cuts or zero-extends the file.
\<close>

function blocks_of_bytes :: "bytes \<Rightarrow> bytes list" where
  "blocks_of_bytes bs =
     (if length bs < BLOCK_SIZE then [] else take BLOCK_SIZE bs # blocks_of_bytes (drop BLOCK_SIZE bs))"
  by pat_completeness auto
termination
  by (relation "measure length") (auto simp: BLOCK_SIZE_def)

declare blocks_of_bytes.simps [simp del]

definition mem_from_file :: "bytes \<Rightarrow> memory_device" where
  "mem_from_file content = \<lparr>md_blocks = blocks_of_bytes content\<rparr>"

definition file_overwrite :: "bytes \<Rightarrow> nat \<Rightarrow> bytes \<Rightarrow> bytes" where
  "file_overwrite content pos bs =
     take pos (content @ replicate (pos - length content) 0) @ bs @ drop (pos + length bs) content"

definition file_set_len :: "bytes \<Rightarrow> nat \<Rightarrow> bytes" where
  "file_set_len content n = take n content @ replicate (n - length content) 0"

definition mem_save :: "memory_device \<Rightarrow> bytes \<Rightarrow> bytes" where
  "mem_save d old =
     file_set_len
       (snd (fold (\<lambda>block (pos, content). (pos + length block, file_overwrite content pos block))
          (md_blocks d) (0, old)))
       (unat (mem_block_count d) * BLOCK_SIZE)"

definition mem_inv :: "memory_device \<Rightarrow> bool" where
  "mem_inv d \<longleftrightarrow> wf_blocks (md_blocks d) \<and> length (md_blocks d) < 4294967296"

lemma unat_mem_block_count [simp]: "mem_inv d \<Longrightarrow> unat (mem_block_count d) = length (md_blocks d)"
  by (simp add: mem_inv_def mem_block_count_def unat_u32_of_nat)

lemma mem_ops_simps [simp]:
  "read_block mem_ops = mem_read_block" "write_block mem_ops = mem_write_block"
  "block_count mem_ops = mem_block_count" "resize mem_ops = mem_resize" "flush mem_ops = mem_flush"
  by (simp_all add: mem_ops_def)

lemma mem_read_in: "mem_inv d \<Longrightarrow> unat n < length (md_blocks d) \<Longrightarrow>
    mem_read_block n d = (Ok (md_blocks d ! unat n), d)"
  by (simp add: mem_read_block_def indexR_def word_le_nat_alt)

lemma mem_write_in: "mem_inv d \<Longrightarrow> unat n < length (md_blocks d) \<Longrightarrow>
    mem_write_block n buf d = (Ok (), d\<lparr>md_blocks := (md_blocks d)[unat n := buf]\<rparr>)"
  by (simp add: mem_write_block_def updateR_def word_le_nat_alt)

lemma mem_inv_resize: "mem_inv d \<Longrightarrow> mem_inv (d\<lparr>md_blocks := resize_blocks (unat (n :: u32)) (md_blocks d)\<rparr>)"
  by (simp add: mem_inv_def)

interpretation mem: checked_device mem_ops md_blocks mem_inv
proof unfold_locales
  show "mem_inv d \<Longrightarrow> wf_blocks (md_blocks d)" for d by (simp add: mem_inv_def)
  show "mem_inv d \<Longrightarrow> unat (block_count mem_ops d) = length (md_blocks d)" for d by simp
  show "\<exists>d'. read_block mem_ops n d = (Ok (md_blocks d ! unat n), d') \<and> mem_inv d' \<and>
      md_blocks d' = md_blocks d"
    if "mem_inv d" "unat n < length (md_blocks d)" for d n
    using that by (simp add: mem_read_in)
  show "\<exists>d'. write_block mem_ops n buf d = (Ok (), d') \<and> mem_inv d' \<and>
      md_blocks d' = (md_blocks d)[unat n := buf]"
    if "mem_inv d" "unat n < length (md_blocks d)" "length buf = BLOCK_SIZE" for d n buf
    using that by (simp add: mem_write_in) (simp add: mem_inv_def)
  show "\<exists>d'. resize mem_ops n d = (Ok (), d') \<and> mem_inv d' \<and>
      md_blocks d' = resize_blocks (unat n) (md_blocks d)"
    if "mem_inv d" for d n
    using that by (simp add: mem_resize_def mem_inv_resize)
  show "\<exists>d'. flush mem_ops d = (Ok (), d') \<and> mem_inv d' \<and> md_blocks d' = md_blocks d"
    if "mem_inv d" for d
    using that by (simp add: mem_flush_def)
  show "read_block mem_ops n d =
      (Err (InvalidInput (II_BlockIndexOOB n (block_count mem_ops d))), d)"
    if "mem_inv d" "length (md_blocks d) \<le> unat n" for d n
    using that by (simp add: mem_read_block_def word_le_nat_alt)
  show "write_block mem_ops n buf d =
      (Err (InvalidInput (II_BlockIndexOOB n (block_count mem_ops d))), d)"
    if "mem_inv d" "length (md_blocks d) \<le> unat n" for d n buf
    using that by (simp add: mem_write_block_def word_le_nat_alt)
qed

text \<open>An evaluation fact on the abstraction is an evaluation of the memory device itself.\<close>

lemma mem_execs:
  assumes "execs mem_inv md_blocks m bs r bs'" and "mem_inv \<lparr>md_blocks = bs\<rparr>"
  shows "m \<lparr>md_blocks = bs\<rparr> = (r, \<lparr>md_blocks = bs'\<rparr>)"
proof -
  from execsD [OF assms(1,2)] obtain d' where "m \<lparr>md_blocks = bs\<rparr> = (r, d')" "md_blocks d' = bs'"
    by auto
  then show ?thesis by (cases d') simp
qed

lemma length_concat_wf: "wf_blocks bs \<Longrightarrow> length (concat bs) = length bs * BLOCK_SIZE"
  by (induction bs) (auto simp: wf_blocks_def)

lemma blocks_of_bytes_concat: "wf_blocks bs \<Longrightarrow> blocks_of_bytes (concat bs) = bs"
proof (induction bs)
  case Nil
  then show ?case by (subst blocks_of_bytes.simps) (simp add: BLOCK_SIZE_def)
next
  case (Cons b bs)
  then have "length b = BLOCK_SIZE" and "wf_blocks bs" by (simp_all add: wf_blocks_def)
  with Cons.IH show ?case by (subst blocks_of_bytes.simps) simp
qed

lemma save_fold:
  "wf_blocks bs \<Longrightarrow> pos \<le> length content \<Longrightarrow>
   fold (\<lambda>block (pos, content). (pos + length block, file_overwrite content pos block)) bs
     (pos, content) =
   (pos + length (concat bs), take pos content @ concat bs @ drop (pos + length (concat bs)) content)"
proof (induction bs arbitrary: pos content)
  case Nil
  then show ?case by simp
next
  case (Cons b bs)
  have wf: "wf_blocks bs" using Cons.prems(1) by (simp add: wf_blocks_def)
  have "file_overwrite content pos b = take pos content @ b @ drop (pos + length b) content"
    using Cons.prems(2) by (simp add: file_overwrite_def)
  with Cons.IH [OF wf, of "pos + length b" "take pos content @ b @ drop (pos + length b) content"]
    Cons.prems(2) show ?case
    by (simp add: add.assoc add.commute add.left_commute)
qed

text \<open>
  Exporting a memory device to an image file and importing that file gives the device back,
  whatever the file held before.
\<close>

lemma mem_from_file_save:
  assumes "mem_inv d"
  shows "mem_from_file (mem_save d old) = d"
proof -
  have wf: "wf_blocks (md_blocks d)" using assms by (simp add: mem_inv_def)
  have "mem_save d old = concat (md_blocks d)"
    using assms by (simp add: mem_save_def save_fold [OF wf] file_set_len_def length_concat_wf [OF wf])
  then show ?thesis by (simp add: mem_from_file_def blocks_of_bytes_concat [OF wf])
qed

lemma mem_from_file_save_witness:
  "mem_inv (mem_empty 2) \<and> mem_from_file (mem_save (mem_empty 2) [7, 7, 7]) = mem_empty 2"
proof -
  have h: "mem_inv (mem_empty 2)" by (simp add: mem_inv_def mem_empty_def wf_blocks_def)
  show ?thesis using h mem_from_file_save [OF h, of "[7, 7, 7]"] by simp
qed

end
