(* ===== verification/File_Device.thy ===== *)
theory File_Device
  imports Memory_Device
begin

text \<open>
  \<open>FileDevice\<close> of \<^verbatim>\<open>src/src/device/file_device.rs\<close>. The host file is its content and its cursor;
  \<open>seek\<close>, \<open>read_exact\<close>, \<open>write_all\<close> and \<open>set_len\<close> of \<open>std::fs::File\<close> act on them (a write past
  the end fills the gap with zeros). The only failure of the host that the model has is
  \<open>UnexpectedEof\<close>. The device is a \<open>checked_device\<close> whose blocks are the 256-byte chunks of the file.
\<close>

record host_file =
  hf_content :: bytes
  hf_pos :: nat

record file_device =
  fd_file :: host_file
  fd_size :: u32

definition hf_seek :: "nat \<Rightarrow> (host_file, unit) io" where
  "hf_seek pos f = (Ok (), f\<lparr>hf_pos := pos\<rparr>)"

definition hf_read_exact :: "nat \<Rightarrow> (host_file, bytes) io" where
  "hf_read_exact n f =
     (if hf_pos f + n \<le> length (hf_content f)
      then (Ok (slice (hf_content f) (hf_pos f) n), f\<lparr>hf_pos := hf_pos f + n\<rparr>)
      else (Err (IO UnexpectedEof), f\<lparr>hf_pos := max (hf_pos f) (length (hf_content f))\<rparr>))"

definition hf_write_all :: "bytes \<Rightarrow> (host_file, unit) io" where
  "hf_write_all buf f =
     (Ok (), f\<lparr>hf_content := file_overwrite (hf_content f) (hf_pos f) buf,
               hf_pos := hf_pos f + length buf\<rparr>)"

definition hf_set_len :: "nat \<Rightarrow> (host_file, unit) io" where
  "hf_set_len n f = (Ok (), f\<lparr>hf_content := file_set_len (hf_content f) n\<rparr>)"

abbreviation on_file :: "(host_file, 'a) io \<Rightarrow> (file_device, 'a) io" where
  "on_file \<equiv> zoomM fd_file (\<lambda>f d. d\<lparr>fd_file := f\<rparr>)"

definition file_block_count :: "file_device \<Rightarrow> u32" where
  "file_block_count d = fd_size d"

definition file_read_block :: "u32 \<Rightarrow> (file_device, bytes) io" where
  "file_read_block block d =
     (if file_block_count d \<le> block
      then (Err (InvalidInput (II_BlockIndexOOB block (file_block_count d))), d)
      else bindM (on_file (hf_seek (unat block * BLOCK_SIZE)))
             (\<lambda>_. on_file (hf_read_exact BLOCK_SIZE)) d)"

definition file_write_block :: "u32 \<Rightarrow> bytes \<Rightarrow> (file_device, unit) io" where
  "file_write_block block buf d =
     (if file_block_count d \<le> block
      then (Err (InvalidInput (II_BlockIndexOOB block (file_block_count d))), d)
      else bindM (on_file (hf_seek (unat block * BLOCK_SIZE)))
             (\<lambda>_. on_file (hf_write_all buf)) d)"

definition file_resize :: "u32 \<Rightarrow> (file_device, unit) io" where
  "file_resize blocks =
     bindM (modifyM (\<lambda>d. d\<lparr>fd_size := blocks\<rparr>))
       (\<lambda>_. on_file (hf_set_len (unat blocks * BLOCK_SIZE)))"

definition file_flush :: "(file_device, unit) io" where
  "file_flush d = (Ok (), d)"

definition file_ops :: "file_device block_ops" where
  "file_ops = \<lparr>read_block = file_read_block, write_block = file_write_block,
     block_count = file_block_count, resize = file_resize, flush = file_flush\<rparr>"

text \<open>\<open>create_disk_file\<close> gives a new file of zeros, \<open>from_file\<close> measures an existing one.\<close>

definition create_disk_file :: "u32 \<Rightarrow> host_file" where
  "create_disk_file blocks = \<lparr>hf_content = file_set_len [] (unat blocks * BLOCK_SIZE), hf_pos = 0\<rparr>"

definition file_from_file :: "host_file \<Rightarrow> file_device" where
  "file_from_file f =
     \<lparr>fd_file = f, fd_size = of_nat (length (hf_content f) div BLOCK_SIZE)\<rparr>"

definition fd_blocks :: "file_device \<Rightarrow> bytes list" where
  "fd_blocks d =
     map (\<lambda>i. slice (hf_content (fd_file d)) (i * BLOCK_SIZE) BLOCK_SIZE) [0..<unat (fd_size d)]"

definition file_inv :: "file_device \<Rightarrow> bool" where
  "file_inv d \<longleftrightarrow> length (hf_content (fd_file d)) = unat (fd_size d) * BLOCK_SIZE"

lemma file_ops_simps [simp]:
  "read_block file_ops = file_read_block" "write_block file_ops = file_write_block"
  "block_count file_ops = file_block_count" "resize file_ops = file_resize"
  "flush file_ops = file_flush"
  by (simp_all add: file_ops_def)

lemma length_fd_blocks [simp]: "length (fd_blocks d) = unat (fd_size d)"
  by (simp add: fd_blocks_def)

lemma chunk_fits: "i < n \<Longrightarrow> i * BLOCK_SIZE + BLOCK_SIZE \<le> n * BLOCK_SIZE"
  by (metis Suc_leI add.commute mult_Suc mult_le_mono1)

lemma chunks_disjoint:
  "i \<noteq> j \<Longrightarrow> i * BLOCK_SIZE + BLOCK_SIZE \<le> j * BLOCK_SIZE \<or> j * BLOCK_SIZE + BLOCK_SIZE \<le> i * BLOCK_SIZE"
  by (metis add.commute linorder_neqE_nat mult_Suc mult_le_mono1 Suc_leI)

lemma wf_fd_blocks: "file_inv d \<Longrightarrow> wf_blocks (fd_blocks d)"
  by (auto simp: wf_blocks_def fd_blocks_def file_inv_def chunk_fits)

lemma file_overwrite_splice:
  "pos + length bs \<le> length content \<Longrightarrow> file_overwrite content pos bs = splice content pos bs"
  by (simp add: file_overwrite_def splice_def)

lemma file_read_in: "file_inv d \<Longrightarrow> unat n < unat (fd_size d) \<Longrightarrow>
    \<exists>d'. file_read_block n d = (Ok (fd_blocks d ! unat n), d') \<and> file_inv d' \<and> fd_blocks d' = fd_blocks d"
  using chunk_fits [of "unat n" "unat (fd_size d)"]
  by (simp add: file_read_block_def file_block_count_def word_le_nat_alt io_simps hf_seek_def
      hf_read_exact_def file_inv_def fd_blocks_def)

lemma file_write_in:
  assumes inv: "file_inv d" and n: "unat n < unat (fd_size d)" and len: "length buf = BLOCK_SIZE"
  shows "\<exists>d'. file_write_block n buf d = (Ok (), d') \<and> file_inv d' \<and>
    fd_blocks d' = (fd_blocks d)[unat n := buf]"
proof -
  let ?c = "hf_content (fd_file d)"
  let ?c' = "splice ?c (unat n * BLOCK_SIZE) buf"
  have fits: "unat n * BLOCK_SIZE + length buf \<le> length ?c"
    using inv n len chunk_fits [of "unat n" "unat (fd_size d)"] by (simp add: file_inv_def)
  have "map (\<lambda>i. slice ?c' (i * BLOCK_SIZE) BLOCK_SIZE) [0..<unat (fd_size d)] =
      (map (\<lambda>i. slice ?c (i * BLOCK_SIZE) BLOCK_SIZE) [0..<unat (fd_size d)])[unat n := buf]"
  proof (rule nth_equalityI)
    fix i
    assume "i < length (map (\<lambda>i. slice ?c' (i * BLOCK_SIZE) BLOCK_SIZE) [0..<unat (fd_size d)])"
    then have i: "i < unat (fd_size d)" by simp
    show "map (\<lambda>i. slice ?c' (i * BLOCK_SIZE) BLOCK_SIZE) [0..<unat (fd_size d)] ! i =
      (map (\<lambda>i. slice ?c (i * BLOCK_SIZE) BLOCK_SIZE) [0..<unat (fd_size d)])[unat n := buf] ! i"
    proof (cases "i = unat n")
      case True
      then show ?thesis using i fits len by simp
    next
      case False
      then have "slice ?c' (i * BLOCK_SIZE) BLOCK_SIZE = slice ?c (i * BLOCK_SIZE) BLOCK_SIZE"
        using fits len inv i chunks_disjoint [OF False] chunk_fits [OF i]
        by (intro slice_splice_other) (auto simp: file_inv_def)
      then show ?thesis using False i by simp
    qed
  qed simp
  then show ?thesis
    using inv n fits
    by (simp add: file_write_block_def file_block_count_def word_le_nat_alt io_simps hf_seek_def
        hf_write_all_def file_inv_def fd_blocks_def file_overwrite_splice)
qed

lemma length_file_set_len [simp]: "length (file_set_len c n) = n"
  by (simp add: file_set_len_def)

lemma nth_file_set_len: "i < n \<Longrightarrow> file_set_len c n ! i = (if i < length c then c ! i else 0)"
  by (auto simp: file_set_len_def nth_append)

lemma slice_file_set_len:
  assumes "length c = m * BLOCK_SIZE" and "i < n"
  shows "slice (file_set_len c (n * BLOCK_SIZE)) (i * BLOCK_SIZE) BLOCK_SIZE =
    (if i < m then slice c (i * BLOCK_SIZE) BLOCK_SIZE else zero_block)"
proof -
  have fit: "i * BLOCK_SIZE + BLOCK_SIZE \<le> n * BLOCK_SIZE" using assms(2) by (rule chunk_fits)
  show ?thesis
  proof (cases "i < m")
    case True
    then have "i * BLOCK_SIZE + BLOCK_SIZE \<le> m * BLOCK_SIZE" by (rule chunk_fits)
    then show ?thesis
      using True fit assms(1) by (intro nth_equalityI) (auto simp: nth_slice nth_file_set_len)
  next
    case False
    then have "\<not> i * BLOCK_SIZE + j < m * BLOCK_SIZE" for j by (simp add: not_less trans_le_add1)
    then show ?thesis
      using False fit assms(1) by (intro nth_equalityI) (auto simp: nth_slice nth_file_set_len)
  qed
qed

lemma file_resize_in:
  assumes inv: "file_inv d"
  shows "\<exists>d'. file_resize n d = (Ok (), d') \<and> file_inv d' \<and>
    fd_blocks d' = resize_blocks (unat n) (fd_blocks d)"
proof -
  have "map (\<lambda>i. slice (file_set_len (hf_content (fd_file d)) (unat n * BLOCK_SIZE)) (i * BLOCK_SIZE)
      BLOCK_SIZE) [0..<unat n] = resize_blocks (unat n) (fd_blocks d)"
  proof (rule nth_equalityI, simp)
    fix i
    assume "i < length (map (\<lambda>i. slice (file_set_len (hf_content (fd_file d)) (unat n * BLOCK_SIZE))
      (i * BLOCK_SIZE) BLOCK_SIZE) [0..<unat n])"
    then have i: "i < unat n" by simp
    with slice_file_set_len [of "hf_content (fd_file d)" "unat (fd_size d)" i "unat n"] inv
    show "map (\<lambda>i. slice (file_set_len (hf_content (fd_file d)) (unat n * BLOCK_SIZE)) (i * BLOCK_SIZE)
      BLOCK_SIZE) [0..<unat n] ! i = resize_blocks (unat n) (fd_blocks d) ! i"
      by (auto simp: resize_blocks_def file_inv_def fd_blocks_def nth_append)
  qed
  then show ?thesis
    using inv
    by (simp add: file_resize_def io_simps hf_set_len_def file_inv_def fd_blocks_def file_set_len_def)
qed

interpretation fileDev: checked_device file_ops fd_blocks file_inv
proof unfold_locales
  show "file_inv d \<Longrightarrow> wf_blocks (fd_blocks d)" for d by (rule wf_fd_blocks)
  show "file_inv d \<Longrightarrow> unat (block_count file_ops d) = length (fd_blocks d)" for d
    by (simp add: file_block_count_def)
  show "\<exists>d'. read_block file_ops n d = (Ok (fd_blocks d ! unat n), d') \<and> file_inv d' \<and>
      fd_blocks d' = fd_blocks d"
    if "file_inv d" "unat n < length (fd_blocks d)" for d n
    using that by (simp add: file_read_in)
  show "\<exists>d'. write_block file_ops n buf d = (Ok (), d') \<and> file_inv d' \<and>
      fd_blocks d' = (fd_blocks d)[unat n := buf]"
    if "file_inv d" "unat n < length (fd_blocks d)" "length buf = BLOCK_SIZE" for d n buf
    using that by (simp add: file_write_in)
  show "\<exists>d'. resize file_ops n d = (Ok (), d') \<and> file_inv d' \<and>
      fd_blocks d' = resize_blocks (unat n) (fd_blocks d)"
    if "file_inv d" for d n
    using that by (simp add: file_resize_in)
  show "\<exists>d'. flush file_ops d = (Ok (), d') \<and> file_inv d' \<and> fd_blocks d' = fd_blocks d"
    if "file_inv d" for d
    using that by (simp add: file_flush_def)
  show "read_block file_ops n d =
      (Err (InvalidInput (II_BlockIndexOOB n (block_count file_ops d))), d)"
    if "file_inv d" "length (fd_blocks d) \<le> unat n" for d n
    using that by (simp add: file_read_block_def file_block_count_def word_le_nat_alt)
  show "write_block file_ops n buf d =
      (Err (InvalidInput (II_BlockIndexOOB n (block_count file_ops d))), d)"
    if "file_inv d" "length (fd_blocks d) \<le> unat n" for d n buf
    using that by (simp add: file_write_block_def file_block_count_def word_le_nat_alt)
qed

lemma file_from_create: "file_inv (file_from_file (create_disk_file n))"
  by (simp add: file_inv_def file_from_file_def create_disk_file_def BLOCK_SIZE_def)

lemma fd_blocks_create:
  "fd_blocks (file_from_file (create_disk_file n)) = replicate (unat n) zero_block"
proof (rule nth_equalityI)
  have size: "fd_size (file_from_file (create_disk_file n)) = n"
    by (simp add: file_from_file_def create_disk_file_def BLOCK_SIZE_def)
  then show "length (fd_blocks (file_from_file (create_disk_file n))) =
      length (replicate (unat n) zero_block)" by simp
  fix i
  assume "i < length (fd_blocks (file_from_file (create_disk_file n)))"
  then have "i < unat n" using size by simp
  then show "fd_blocks (file_from_file (create_disk_file n)) ! i = replicate (unat n) zero_block ! i"
    using size slice_file_set_len [of "[]" 0 i "unat n"]
    by (simp add: fd_blocks_def) (simp add: file_from_file_def create_disk_file_def)
qed

text \<open>
  C25. The two backends are interchangeable: a file device and a memory device with the same blocks
  answer every sequence of reads and writes of whole blocks alike, inside and outside the device. The
  reads return the same bytes, the first access outside the device is refused by both with the
  same error, which names the block and the number of blocks, and both end with the same blocks.
\<close>

theorem file_memory_equivalent:
  assumes "file_inv fd" and "mem_inv md" and "fd_blocks fd = md_blocks md" and "\<forall>a \<in> set as. whole_block a"
  shows "\<exists>fd' md'. run_accesses file_ops as fd = (fst (checked_accesses (md_blocks md) as), fd') \<and>
    run_accesses mem_ops as md = (fst (checked_accesses (md_blocks md) as), md') \<and>
    fd_blocks fd' = snd (checked_accesses (md_blocks md) as) \<and> md_blocks md' = snd (checked_accesses (md_blocks md) as)"
  using fileDev.run_accesses_checked [OF assms(1,4)] mem.run_accesses_checked [OF assms(2,4)] assms(3) by auto

theorem file_memory_equivalent_witness:
  "\<exists>fd' md'.
     run_accesses file_ops [Write 1 (replicate 256 7), Read 1, Read 2, Write 0 (replicate 256 5)]
       (file_from_file (create_disk_file 2)) = (Err (InvalidInput (II_BlockIndexOOB 2 2)), fd') \<and>
     run_accesses mem_ops [Write 1 (replicate 256 7), Read 1, Read 2, Write 0 (replicate 256 5)] (mem_empty 2) =
       (Err (InvalidInput (II_BlockIndexOOB 2 2)), md') \<and>
     fd_blocks fd' = [zero_block, replicate 256 7] \<and> md_blocks md' = [zero_block, replicate 256 7]"
proof -
  let ?as = "[Write 1 (replicate 256 7), Read 1, Read 2, Write 0 (replicate 256 5)]"
  have "replicate 2 zero_block = [zero_block, zero_block]" unfolding numeral_2_eq_2 by simp
  then have two: "md_blocks (mem_empty 2) = [zero_block, zero_block]" by (simp add: mem_empty_def)
  have res: "checked_accesses [zero_block, zero_block] ?as =
      (Err (InvalidInput (II_BlockIndexOOB 2 2)), [zero_block, replicate 256 7])" by (simp add: oob_error_def)
  have inv: "mem_inv (mem_empty 2)" by (simp add: mem_inv_def mem_empty_def wf_blocks_def)
  have same: "fd_blocks (file_from_file (create_disk_file 2)) = md_blocks (mem_empty 2)"
    by (simp add: fd_blocks_create mem_empty_def)
  have whole: "\<forall>a \<in> set ?as. whole_block a" by (simp add: BLOCK_SIZE_def)
  from file_memory_equivalent [OF file_from_create inv same whole, unfolded two res fst_conv snd_conv] show ?thesis .
qed

end
