(* ===== verification/Cached_Device.thy ===== *)
theory Cached_Device
  imports Memory_Device File_Device
begin

text \<open>
  \<open>CachedDevice<D>\<close> of \<^verbatim>\<open>src/src/device/cached_device.rs\<close>: a write-back cache over any device,
  whose entries are threaded by \<open>more_recent\<close>/\<open>less_recent\<close> addresses from \<open>lru\<close> to \<open>mru\<close>.

  \<^item> \<open>cd_blocks\<close> is what a client sees: the cached copy of a block where there is one, the block of
    the inner device elsewhere. The data invariant \<open>cd_inv\<close> says that a clean copy agrees with the
    inner device; it is kept by every access whatever the threading looks like, so the cache is a
    \<open>partial_device\<close> whenever the inner device is one.
  \<^item> \<open>chain\<close> says that the threading lists the cached addresses from the least to the most recently
    used. Accesses keep it as long as the most recently used block is not accessed again at once;
    then no access panics and eviction is least-recently-used. Cache_Repetition shows what happens
    otherwise, Full_Cache that it does not matter to a cache that is as large as its device.
  \<^item> The order in which \<open>flush\<close> visits the \<open>HashMap\<close> is the argument \<open>ord\<close>.
\<close>

record cached_block =
  cb_data :: bytes
  cb_dirty :: bool
  cb_pinned :: bool
  cb_more_recent :: u32
  cb_less_recent :: u32

record 'd cached_device =
  cd_device :: 'd
  cd_size :: nat
  cd_cache :: "u32 \<rightharpoonup> cached_block"
  cd_cached_count :: nat
  cd_lru :: u32
  cd_mru :: u32

definition cached_new :: "'d \<Rightarrow> nat \<Rightarrow> 'd cached_device" where
  "cached_new device cap =
     \<lparr>cd_device = device, cd_size = max cap 2, cd_cache = Map.empty, cd_cached_count = 0,
      cd_lru = INVALID_ADDRESS, cd_mru = INVALID_ADDRESS\<rparr>"

abbreviation on_dev :: "('d, 'a) io \<Rightarrow> ('d cached_device, 'a) io" where
  "on_dev \<equiv> zoomM cd_device (\<lambda>d c. c\<lparr>cd_device := d\<rparr>)"

text \<open>\<open>self.cache.get_mut(&key).unwrap()\<close>, then a change of the entry.\<close>

definition cache_modify ::
  "u32 \<Rightarrow> (cached_block \<Rightarrow> cached_block) \<Rightarrow> ('d cached_device, unit) io" where
  "cache_modify key f c =
     (case cd_cache c key of
        None \<Rightarrow> (Panic, c)
      | Some e \<Rightarrow> (Ok (), c\<lparr>cd_cache := (cd_cache c)(key \<mapsto> f e)\<rparr>))"

text \<open>
  The hit path, shared by \<open>read_block\<close> and \<open>write_block\<close>: unlink the entry, move it after the most
  recently used one; \<open>upd\<close> is what the access does to the entry itself.
\<close>

definition cached_touch ::
  "u32 \<Rightarrow> cached_block \<Rightarrow> (cached_block \<Rightarrow> cached_block) \<Rightarrow> ('d cached_device, unit) io" where
  "cached_touch block entry upd =
     (let entry_more_recent = cb_more_recent entry; entry_less_recent = cb_less_recent entry in
      bindM (if entry_more_recent \<noteq> INVALID_ADDRESS
             then bindM (cache_modify entry_more_recent (\<lambda>e. e\<lparr>cb_less_recent := entry_less_recent\<rparr>))
                    (\<lambda>_. if entry_less_recent \<noteq> INVALID_ADDRESS
                         then cache_modify entry_less_recent (\<lambda>e. e\<lparr>cb_more_recent := entry_more_recent\<rparr>)
                         else returnM ())
             else returnM ()) (\<lambda>_.
      bindM (modifyM (\<lambda>c. if cd_lru c = block \<and> entry_more_recent \<noteq> INVALID_ADDRESS
                          then c\<lparr>cd_lru := entry_more_recent\<rparr> else c)) (\<lambda>_.
      bindM (getM cd_mru) (\<lambda>mru.
      bindM (cache_modify mru (\<lambda>e. e\<lparr>cb_more_recent := block\<rparr>)) (\<lambda>_.
      bindM (cache_modify block
               (\<lambda>e. upd (e\<lparr>cb_more_recent := INVALID_ADDRESS, cb_less_recent := mru\<rparr>))) (\<lambda>_.
      modifyM (\<lambda>c. c\<lparr>cd_mru := block\<rparr>)))))))"

definition miss_update :: "u32 \<Rightarrow> ('d cached_device, unit) io" where
  "miss_update block =
     bindM (getM cd_mru) (\<lambda>mru.
     bindM (if mru \<noteq> INVALID_ADDRESS
            then cache_modify mru (\<lambda>e. e\<lparr>cb_more_recent := block\<rparr>)
            else modifyM (\<lambda>c. c\<lparr>cd_lru := block\<rparr>)) (\<lambda>_.
     modifyM (\<lambda>c. c\<lparr>cd_mru := block\<rparr>)))"

definition evict_lru :: "'d block_ops \<Rightarrow> ('d cached_device, unit) io" where
  "evict_lru ops =
     bindM (getM cd_lru) (\<lambda>to_remove.
     bindM (getM (\<lambda>c. cd_cache c to_remove)) (\<lambda>found.
     bindM (liftM (unwrap found)) (\<lambda>lru.
     bindM (if cb_dirty lru then on_dev (write_block ops to_remove (cb_data lru)) else returnM ()) (\<lambda>_.
     bindM (modifyM (\<lambda>c. c\<lparr>cd_lru := cb_more_recent lru\<rparr>)) (\<lambda>_.
     bindM (cache_modify (cb_more_recent lru) (\<lambda>e. e\<lparr>cb_less_recent := INVALID_ADDRESS\<rparr>)) (\<lambda>_.
     modifyM (\<lambda>c. c\<lparr>cd_cache := (cd_cache c)(to_remove := None),
                    cd_cached_count := cd_cached_count c - 1\<rparr>)))))))"

definition cached_insert :: "'d block_ops \<Rightarrow> u32 \<Rightarrow> cached_block \<Rightarrow> ('d cached_device, unit) io" where
  "cached_insert ops block entry =
     bindM (getM (\<lambda>c. cd_size c \<le> cd_cached_count c)) (\<lambda>full.
     bindM (if full then evict_lru ops else returnM ()) (\<lambda>_.
     modifyM (\<lambda>c. c\<lparr>cd_cached_count := cd_cached_count c + 1,
                    cd_cache := (cd_cache c)(block \<mapsto> entry)\<rparr>)))"

definition fresh_entry :: "bytes \<Rightarrow> bool \<Rightarrow> u32 \<Rightarrow> cached_block" where
  "fresh_entry data dirty mru =
     \<lparr>cb_data = data, cb_dirty = dirty, cb_pinned = False, cb_more_recent = INVALID_ADDRESS,
      cb_less_recent = mru\<rparr>"

definition cached_read_block :: "'d block_ops \<Rightarrow> u32 \<Rightarrow> ('d cached_device, bytes) io" where
  "cached_read_block ops block =
     bindM (getM (\<lambda>c. cd_cache c block)) (\<lambda>cached.
     case cached of
       Some entry \<Rightarrow>
         bindM (cached_touch block entry id) (\<lambda>_.
         bindM (getM (\<lambda>c. cd_cache c block)) (\<lambda>e.
         bindM (liftM (unwrap e)) (\<lambda>e. returnM (cb_data e))))
     | None \<Rightarrow>
         bindM (on_dev (read_block ops block)) (\<lambda>buf.
         bindM (getM cd_mru) (\<lambda>mru.
         bindM (miss_update block) (\<lambda>_.
         bindM (cached_insert ops block (fresh_entry buf False mru)) (\<lambda>_.
         returnM buf)))))"

definition cached_write_block :: "'d block_ops \<Rightarrow> u32 \<Rightarrow> bytes \<Rightarrow> ('d cached_device, unit) io" where
  "cached_write_block ops block buf =
     bindM (getM (\<lambda>c. cd_cache c block)) (\<lambda>cached.
     case cached of
       Some entry \<Rightarrow> cached_touch block entry (\<lambda>e. e\<lparr>cb_dirty := True, cb_data := buf\<rparr>)
     | None \<Rightarrow>
         bindM (getM cd_mru) (\<lambda>mru.
         bindM (miss_update block) (\<lambda>_.
         cached_insert ops block (fresh_entry buf True mru))))"

definition cached_block_count :: "'d block_ops \<Rightarrow> 'd cached_device \<Rightarrow> u32" where
  "cached_block_count ops c = block_count ops (cd_device c)"

definition cached_resize :: "'d block_ops \<Rightarrow> u32 \<Rightarrow> ('d cached_device, unit) io" where
  "cached_resize ops blocks = on_dev (resize ops blocks)"

definition flush_entry :: "'d block_ops \<Rightarrow> u32 \<Rightarrow> unit \<Rightarrow> ('d cached_device, unit) io" where
  "flush_entry ops key _ =
     bindM (getM (\<lambda>c. cd_cache c key)) (\<lambda>found.
     case found of
       None \<Rightarrow> returnM ()
     | Some value \<Rightarrow>
         if cb_dirty value
         then bindM (on_dev (write_block ops key (cb_data value)))
                (\<lambda>_. cache_modify key (\<lambda>e. e\<lparr>cb_dirty := False\<rparr>))
         else returnM ())"

definition cached_flush ::
  "'d block_ops \<Rightarrow> ((u32 \<rightharpoonup> cached_block) \<Rightarrow> u32 list) \<Rightarrow> ('d cached_device, unit) io" where
  "cached_flush ops ord =
     bindM (getM (\<lambda>c. ord (cd_cache c))) (\<lambda>keys. foldM (flush_entry ops) keys ())"

text \<open>\<open>drop\<close> flushes and ignores the outcome.\<close>

definition cached_drop ::
  "'d block_ops \<Rightarrow> ((u32 \<rightharpoonup> cached_block) \<Rightarrow> u32 list) \<Rightarrow> 'd cached_device \<Rightarrow> 'd cached_device" where
  "cached_drop ops ord c = snd (cached_flush ops ord c)"

text \<open>\<open>save\<close> of a cached memory device writes the inner device, without flushing the cache.\<close>

definition cached_save :: "memory_device cached_device \<Rightarrow> bytes \<Rightarrow> bytes" where
  "cached_save c file = mem_save (cd_device c) file"

definition cached_ops ::
  "'d block_ops \<Rightarrow> ((u32 \<rightharpoonup> cached_block) \<Rightarrow> u32 list) \<Rightarrow> 'd cached_device block_ops" where
  "cached_ops ops ord =
     \<lparr>read_block = cached_read_block ops, write_block = cached_write_block ops,
      block_count = cached_block_count ops, resize = cached_resize ops,
      flush = cached_flush ops ord\<rparr>"

text \<open>A \<open>HashMap\<close> iteration visits every key once, in some order.\<close>

definition visits_all :: "((u32 \<rightharpoonup> cached_block) \<Rightarrow> u32 list) \<Rightarrow> bool" where
  "visits_all ord \<longleftrightarrow> (\<forall>m. finite (dom m) \<longrightarrow> distinct (ord m) \<and> set (ord m) = dom m)"


section \<open>What a client sees\<close>

definition cd_blocks :: "('d \<Rightarrow> bytes list) \<Rightarrow> 'd cached_device \<Rightarrow> bytes list" where
  "cd_blocks blks c =
     map (\<lambda>i. case cd_cache c (of_nat i) of
                Some e \<Rightarrow> cb_data e
              | None \<Rightarrow> blks (cd_device c) ! i) [0..<length (blks (cd_device c))]"

definition entry_ok :: "bytes list \<Rightarrow> u32 \<Rightarrow> cached_block \<Rightarrow> bool" where
  "entry_ok bs k e \<longleftrightarrow>
     unat k < length bs \<and> length (cb_data e) = BLOCK_SIZE \<and>
     (\<not> cb_dirty e \<longrightarrow> cb_data e = bs ! unat k)"

definition cd_inv :: "('d \<Rightarrow> bool) \<Rightarrow> ('d \<Rightarrow> bytes list) \<Rightarrow> 'd cached_device \<Rightarrow> bool" where
  "cd_inv dinv blks c \<longleftrightarrow>
     dinv (cd_device c) \<and> (\<forall>k e. cd_cache c k = Some e \<longrightarrow> entry_ok (blks (cd_device c)) k e)"

lemma cached_ops_simps [simp]:
  "read_block (cached_ops ops ord) = cached_read_block ops"
  "write_block (cached_ops ops ord) = cached_write_block ops"
  "block_count (cached_ops ops ord) = cached_block_count ops"
  "resize (cached_ops ops ord) = cached_resize ops"
  "flush (cached_ops ops ord) = cached_flush ops ord"
  by (simp_all add: cached_ops_def)

lemma length_cd_blocks [simp]: "length (cd_blocks blks c) = length (blks (cd_device c))"
  by (simp add: cd_blocks_def)

lemma nth_cd_blocks:
  "i < length (blks (cd_device c)) \<Longrightarrow>
   cd_blocks blks c ! i =
     (case cd_cache c (of_nat i) of Some e \<Rightarrow> cb_data e | None \<Rightarrow> blks (cd_device c) ! i)"
  by (simp add: cd_blocks_def cong: option.case_cong)

text \<open>
  What a client sees depends on the inner device and on the data and dirty flags of the entries
  only; a threading update leaves both alone.
\<close>

definition view :: "'d cached_device \<Rightarrow> u32 \<rightharpoonup> bytes \<times> bool" where
  "view c k = map_option (\<lambda>e. (cb_data e, cb_dirty e)) (cd_cache c k)"

definition same_data :: "'d cached_device \<Rightarrow> 'd cached_device \<Rightarrow> bool" where
  "same_data c c' \<longleftrightarrow> cd_device c' = cd_device c \<and> view c' = view c \<and>
     cd_size c' = cd_size c \<and> cd_cached_count c' = cd_cached_count c"

lemma same_data_refl [simp]: "same_data c c"
  by (simp add: same_data_def)

lemma same_data_trans [trans]: "same_data a b \<Longrightarrow> same_data b c \<Longrightarrow> same_data a c"
  by (simp add: same_data_def)

lemma view_None: "view c k = None \<longleftrightarrow> cd_cache c k = None"
  by (simp add: view_def)

lemma cd_blocks_view:
  "cd_blocks blks c =
     map (\<lambda>i. case view c (of_nat i) of Some x \<Rightarrow> fst x | None \<Rightarrow> blks (cd_device c) ! i)
       [0..<length (blks (cd_device c))]"
  unfolding cd_blocks_def view_def by (rule map_cong [OF refl]) (simp split: option.split)

lemma nth_cd_blocks_view:
  "i < length (blks (cd_device c)) \<Longrightarrow>
   cd_blocks blks c ! i = (case view c (of_nat i) of Some x \<Rightarrow> fst x | None \<Rightarrow> blks (cd_device c) ! i)"
  by (simp add: cd_blocks_view cong: option.case_cong)

lemma cd_inv_view:
  "cd_inv dinv blks c \<longleftrightarrow>
     dinv (cd_device c) \<and>
     (\<forall>k x. view c k = Some x \<longrightarrow> unat k < length (blks (cd_device c)) \<and> length (fst x) = BLOCK_SIZE \<and>
        (\<not> snd x \<longrightarrow> fst x = blks (cd_device c) ! unat k))"
  unfolding cd_inv_def entry_ok_def view_def by force

lemma same_data_blocks: "same_data c c' \<Longrightarrow> cd_blocks blks c' = cd_blocks blks c"
  unfolding cd_blocks_view same_data_def by metis

lemma same_data_inv: "same_data c c' \<Longrightarrow> cd_inv dinv blks c' = cd_inv dinv blks c"
  by (simp add: cd_inv_view same_data_def)

definition keeps_data :: "(cached_block \<Rightarrow> cached_block) \<Rightarrow> bool" where
  "keeps_data f \<longleftrightarrow> (\<forall>e. cb_data (f e) = cb_data e \<and> cb_dirty (f e) = cb_dirty e)"

lemma keeps_data_threading [simp]:
  "keeps_data (\<lambda>e. e\<lparr>cb_more_recent := x\<rparr>)" "keeps_data (\<lambda>e. e\<lparr>cb_less_recent := x\<rparr>)"
  by (simp_all add: keeps_data_def)

lemma cache_modify_Ok:
  "cache_modify key f c = (Ok u, c') \<longleftrightarrow>
   (\<exists>e. cd_cache c key = Some e \<and> c' = c\<lparr>cd_cache := (cd_cache c)(key \<mapsto> f e)\<rparr>)"
  by (auto simp: cache_modify_def split: option.splits)

lemma cache_modify_same:
  "cache_modify key f c = (Ok u, c') \<Longrightarrow> keeps_data f \<Longrightarrow>
   same_data c c' \<and> cd_lru c' = cd_lru c \<and> cd_mru c' = cd_mru c"
  by (auto simp: cache_modify_Ok same_data_def view_def keeps_data_def)

lemma touch_same:
  assumes "cached_touch block entry upd c = (Ok u, c')"
  shows "\<exists>c1 e1. same_data c c1 \<and> cd_cache c1 block = Some e1 \<and> cd_device c' = cd_device c1 \<and>
    cd_cache c' = (cd_cache c1)(block \<mapsto>
      upd (e1\<lparr>cb_more_recent := INVALID_ADDRESS, cb_less_recent := cd_mru c\<rparr>)) \<and>
    cd_size c' = cd_size c \<and> cd_cached_count c' = cd_cached_count c \<and> cd_mru c' = block"
proof -
  let ?relink = "if cb_more_recent entry \<noteq> INVALID_ADDRESS
    then bindM (cache_modify (cb_more_recent entry) (\<lambda>e. e\<lparr>cb_less_recent := cb_less_recent entry\<rparr>))
      (\<lambda>_. if cb_less_recent entry \<noteq> INVALID_ADDRESS
           then cache_modify (cb_less_recent entry) (\<lambda>e. e\<lparr>cb_more_recent := cb_more_recent entry\<rparr>)
           else returnM ())
    else returnM ()"
  let ?lru = "\<lambda>c :: 'a cached_device. if cd_lru c = block \<and> cb_more_recent entry \<noteq> INVALID_ADDRESS
    then c\<lparr>cd_lru := cb_more_recent entry\<rparr> else c"
  from assms obtain a a1 a2 u1 u2 where
    relink: "?relink c = (Ok u1, a)"
    and a1: "cache_modify (cd_mru (?lru a)) (\<lambda>e. e\<lparr>cb_more_recent := block\<rparr>) (?lru a) = (Ok u2, a1)"
    and a2: "cache_modify block (\<lambda>e. upd (e\<lparr>cb_more_recent := INVALID_ADDRESS,
          cb_less_recent := cd_mru (?lru a)\<rparr>)) a1 = (Ok (), a2)"
    and c': "c' = a2\<lparr>cd_mru := block\<rparr>"
    unfolding cached_touch_def Let_def bindM_eq_Ok [of _ _ _ u] bindM_eq_Ok modifyM_def getM_def
    by auto
  have s0: "same_data c a \<and> cd_mru a = cd_mru c"
    using relink
    by (auto simp: bindM_eq_Ok returnM_def split: if_splits dest!: cache_modify_same
        intro: same_data_trans)
  have s1: "same_data a (?lru a)" by (simp add: same_data_def view_def fun_eq_iff)
  have s2: "same_data (?lru a) a1" using cache_modify_same [OF a1] by simp
  have "cd_mru (?lru a) = cd_mru c" using s0 by simp
  with a2 obtain e1 where "cd_cache a1 block = Some e1"
    "a2 = a1\<lparr>cd_cache := (cd_cache a1)(block \<mapsto>
      upd (e1\<lparr>cb_more_recent := INVALID_ADDRESS, cb_less_recent := cd_mru c\<rparr>))\<rparr>"
    by (auto simp: cache_modify_Ok)
  moreover have "same_data c a1" using s0 s1 s2 same_data_trans by blast
  ultimately show ?thesis using c' by (auto simp: same_data_def)
qed


lemma cd_blocks_device:
  "blks d = blks (cd_device c) \<Longrightarrow> cd_blocks blks (c\<lparr>cd_device := d\<rparr>) = cd_blocks blks c"
  by (simp add: cd_blocks_def cong: option.case_cong)

text \<open>
  Writing an entry back (and dropping it or marking it clean) and storing a new entry, as changes
  of the view.
\<close>

lemma writeback_data:
  assumes inv: "cd_inv dinv blks c"
    and k: "view c k = Some (data, dirty)"
    and d': "dinv (cd_device c')" "blks (cd_device c') = (blks (cd_device c))[unat k := data]"
    and view: "view c' = (view c)(k := r)" "r = None \<or> r = Some (data, False)"
    and small: "length (blks (cd_device c)) < 4294967296"
  shows "cd_inv dinv blks c' \<and> cd_blocks blks c' = cd_blocks blks c"
proof
  show "cd_inv dinv blks c'"
    using inv k d' view unfolding cd_inv_view
    by (auto simp: nth_list_update word_unat_eq_iff split: if_splits)
  show "cd_blocks blks c' = cd_blocks blks c"
  proof (rule nth_equalityI)
    show "length (cd_blocks blks c') = length (cd_blocks blks c)" using d' by simp
    fix i assume "i < length (cd_blocks blks c')"
    then have i: "i < length (blks (cd_device c))" "i < length (blks (cd_device c'))"
      using d' by simp_all
    then have "(of_nat i = k) = (unat k = i)"
      using small by (auto simp: unat_u32_of_nat)
    then show "cd_blocks blks c' ! i = cd_blocks blks c ! i"
      using inv k view d' i unfolding cd_inv_view
      by (cases "of_nat i = k") (auto simp: nth_cd_blocks_view split: option.split)
  qed
qed

lemma store_data:
  assumes inv: "cd_inv dinv blks c"
    and d': "dinv (cd_device c')" "blks (cd_device c') = blks (cd_device c)"
    and view: "view c' = (view c)(k \<mapsto> (data, dirty))"
    and k: "unat k < length (blks (cd_device c))" "length data = BLOCK_SIZE"
    and clean: "\<not> dirty \<longrightarrow> data = blks (cd_device c) ! unat k"
    and small: "length (blks (cd_device c)) < 4294967296"
  shows "cd_inv dinv blks c' \<and> cd_blocks blks c' = (cd_blocks blks c)[unat k := data]"
proof
  show "cd_inv dinv blks c'"
    using inv k d' view clean unfolding cd_inv_view by (auto split: if_splits)
  show "cd_blocks blks c' = (cd_blocks blks c)[unat k := data]"
  proof (rule nth_equalityI)
    show "length (cd_blocks blks c') = length ((cd_blocks blks c)[unat k := data])" using d' by simp
    fix i assume "i < length (cd_blocks blks c')"
    then have i: "i < length (blks (cd_device c))" "i < length (blks (cd_device c'))"
      using d' by simp_all
    then have "(of_nat i = k) = (unat k = i)"
      using small by (auto simp: unat_u32_of_nat)
    then show "cd_blocks blks c' ! i = (cd_blocks blks c)[unat k := data] ! i"
      using i k d' view by (auto simp: nth_cd_blocks_view nth_list_update split: option.split)
  qed
qed

lemma nth_cd_blocks_hit:
  "cd_inv dinv blks c \<Longrightarrow> view c k = Some (data, dirty) \<Longrightarrow> cd_blocks blks c ! unat k = data"
  unfolding cd_inv_view by (auto simp: nth_cd_blocks_view)

lemma view_simps [simp]:
  "view (c\<lparr>cd_device := d\<rparr>) = view c" "view (c\<lparr>cd_lru := a\<rparr>) = view c"
  "view (c\<lparr>cd_mru := a\<rparr>) = view c" "view (c\<lparr>cd_cached_count := n\<rparr>) = view c"
  "view (c\<lparr>cd_cache := (cd_cache c)(k \<mapsto> e)\<rparr>) = (view c)(k \<mapsto> (cb_data e, cb_dirty e))"
  "view (c\<lparr>cd_cache := (cd_cache c)(k := None)\<rparr>) = (view c)(k := None)"
  by (auto simp: view_def fun_eq_iff)

lemma on_dev_Ok:
  "on_dev m c = (Ok v, c') \<longleftrightarrow> (\<exists>d'. m (cd_device c) = (Ok v, d') \<and> c' = c\<lparr>cd_device := d'\<rparr>)"
  by (auto simp: zoomM_def split: prod.splits)

lemma miss_update_same:
  "miss_update block c = (Ok u, c') \<Longrightarrow> same_data c c'"
  by (auto simp: miss_update_def bindM_eq_Ok getM_def modifyM_def same_data_def view_def fun_eq_iff
      cache_modify_Ok split: if_splits)


section \<open>The cache is transparent\<close>

context partial_device
begin

lemma evict_data:
  assumes inv: "cd_inv inv blks c" and run: "evict_lru ops c = (Ok u, c')"
  shows "cd_inv inv blks c' \<and> cd_blocks blks c' = cd_blocks blks c \<and>
    view c' = (view c)(cd_lru c := None) \<and>
    length (blks (cd_device c')) = length (blks (cd_device c))"
proof -
  let ?k = "cd_lru c"
  obtain e c1 c2 where e: "cd_cache c ?k = Some e"
    and w: "(if cb_dirty e then on_dev (write_block ops ?k (cb_data e)) else returnM ()) c = (Ok (), c1)"
    and m: "cache_modify (cb_more_recent e) (\<lambda>e. e\<lparr>cb_less_recent := INVALID_ADDRESS\<rparr>)
        (c1\<lparr>cd_lru := cb_more_recent e\<rparr>) = (Ok (), c2)"
    and c': "c' = c2\<lparr>cd_cache := (cd_cache c2)(?k := None), cd_cached_count := cd_cached_count c2 - 1\<rparr>"
    using run unfolding evict_lru_def bindM_eq_Ok getM_def modifyM_def liftM_def unwrap_def
    by (auto split: option.splits)
  have v: "view c ?k = Some (cb_data e, cb_dirty e)" using e by (simp add: view_def)
  have ok: "inv (cd_device c)" "unat ?k < length (blks (cd_device c))" "length (cb_data e) = BLOCK_SIZE"
    "\<not> cb_dirty e \<Longrightarrow> cb_data e = blks (cd_device c) ! unat ?k"
    using inv v unfolding cd_inv_view by auto
  have d1: "inv (cd_device c1) \<and> blks (cd_device c1) = (blks (cd_device c))[unat ?k := cb_data e] \<and>
      view c1 = view c"
    using w ok write_partial [OF ok(1-3)]
    by (cases "cb_dirty e") (auto simp: on_dev_Ok returnM_def)
  have s: "same_data (c1\<lparr>cd_lru := cb_more_recent e\<rparr>) c2" using cache_modify_same [OF m] by simp
  have "view c' = (view c)(?k := None)" "cd_device c' = cd_device c1"
    using s d1 unfolding c' same_data_def by simp_all
  then show ?thesis
    using writeback_data [OF inv v, of c' None] d1 length_blks [OF ok(1)] by simp
qed

lemma insert_data:
  assumes inv: "cd_inv inv blks c" and run: "cached_insert ops block entry c = (Ok u, c')"
    and b: "unat block < length (blks (cd_device c))" "length (cb_data entry) = BLOCK_SIZE"
    and clean: "\<not> cb_dirty entry \<longrightarrow> cb_data entry = cd_blocks blks c ! unat block"
    and miss: "cd_cache c block = None"
  shows "cd_inv inv blks c' \<and> cd_blocks blks c' = (cd_blocks blks c)[unat block := cb_data entry]"
proof -
  obtain c1 where
    ev: "(if cd_size c \<le> cd_cached_count c then evict_lru ops else returnM ()) c = (Ok (), c1)"
    and c': "c' = c1\<lparr>cd_cached_count := cd_cached_count c1 + 1,
      cd_cache := (cd_cache c1)(block \<mapsto> entry)\<rparr>"
    using run unfolding cached_insert_def bindM_eq_Ok getM_def modifyM_def by auto
  have "view c block = None" using miss by (simp add: view_None)
  then have c1: "cd_inv inv blks c1 \<and> cd_blocks blks c1 = cd_blocks blks c \<and> view c1 block = None \<and>
      length (blks (cd_device c1)) = length (blks (cd_device c))"
    using ev evict_data [OF inv, of _ c1] inv by (auto simp: returnM_def split: if_splits)
  then have small: "length (blks (cd_device c1)) < 4294967296" "inv (cd_device c1)"
    using length_blks [of "cd_device c1"] by (auto simp: cd_inv_def)
  have "cd_blocks blks c1 ! unat block = blks (cd_device c1) ! unat block"
    using c1 b nth_cd_blocks_view [of "unat block" blks c1] by simp
  moreover have "view c' = (view c1)(block \<mapsto> (cb_data entry, cb_dirty entry))"
    by (simp add: c' view_def fun_eq_iff)
  ultimately show ?thesis
    using store_data [of inv blks c1 c' block "cb_data entry" "cb_dirty entry"] c1 b clean small
    by (simp add: c')
qed

lemma cached_read_partial:
  assumes inv: "cd_inv inv blks c" and n: "unat n < length (blks (cd_device c))"
    and run: "cached_read_block ops n c = (Ok buf, c')"
  shows "buf = cd_blocks blks c ! unat n \<and> cd_inv inv blks c' \<and> cd_blocks blks c' = cd_blocks blks c"
proof (cases "cd_cache c n")
  case (Some entry)
  with run obtain u e where t: "cached_touch n entry id c = (Ok u, c')"
    and e: "cd_cache c' n = Some e" "buf = cb_data e"
    by (auto simp: cached_read_block_def bindM_eq_Ok getM_def liftM_def returnM_def unwrap_def
        split: option.splits)
  from touch_same [OF t] obtain c1 e1 where s1: "same_data c c1" "cd_cache c1 n = Some e1"
    "cd_device c' = cd_device c1" "cd_size c' = cd_size c" "cd_cached_count c' = cd_cached_count c"
    "cd_cache c' = (cd_cache c1)(n \<mapsto> e1\<lparr>cb_more_recent := INVALID_ADDRESS, cb_less_recent := cd_mru c\<rparr>)"
    by auto
  then have "view c' = view c1" by (auto simp: view_def fun_eq_iff)
  with s1 have "same_data c c'" by (simp add: same_data_def)
  moreover from this e have "view c n = Some (cb_data e, cb_dirty e)"
    by (metis same_data_def view_def option.simps(9))
  ultimately show ?thesis
    using inv e by (simp add: same_data_inv same_data_blocks nth_cd_blocks_hit)
next
  case None
  with run obtain d1 c2 where r: "read_block ops n (cd_device c) = (Ok buf, d1)"
    and m: "miss_update n (c\<lparr>cd_device := d1\<rparr>) = (Ok (), c2)"
    and i: "cached_insert ops n (fresh_entry buf False (cd_mru c)) c2 = (Ok (), c')"
    by (auto simp: cached_read_block_def bindM_eq_Ok getM_def returnM_def on_dev_Ok)
  have ok: "inv (cd_device c)" using inv by (simp add: cd_inv_def)
  from read_partial [OF ok n r] have d1: "buf = blks (cd_device c) ! unat n" "inv d1"
    "blks d1 = blks (cd_device c)" by auto
  have buf: "buf = cd_blocks blks c ! unat n" using None n d1 by (simp add: nth_cd_blocks)
  have s: "same_data (c\<lparr>cd_device := d1\<rparr>) c2" by (rule miss_update_same [OF m])
  have inv2: "cd_inv inv blks c2" "cd_blocks blks c2 = cd_blocks blks c"
    using inv d1 same_data_inv [OF s, of inv blks] same_data_blocks [OF s, of blks]
    by (auto simp: cd_inv_def cd_blocks_device)
  have len: "length buf = BLOCK_SIZE" using wf [OF ok] n d1 by simp
  have "cd_cache c2 n = None" "length (blks (cd_device c2)) = length (blks (cd_device c))"
    using s None d1 by (auto simp: same_data_def simp flip: view_None)
  then have "cd_inv inv blks c' \<and> cd_blocks blks c' = (cd_blocks blks c)[unat n := buf]"
    using insert_data [OF inv2(1) i] n len buf inv2(2) by (simp add: fresh_entry_def)
  then show ?thesis using buf by simp
qed

lemma cached_write_partial:
  assumes inv: "cd_inv inv blks c" and n: "unat n < length (blks (cd_device c))"
    and len: "length buf = BLOCK_SIZE" and run: "cached_write_block ops n buf c = (Ok u, c')"
  shows "cd_inv inv blks c' \<and> cd_blocks blks c' = (cd_blocks blks c)[unat n := buf]"
proof (cases "cd_cache c n")
  case (Some entry)
  with run have t: "cached_touch n entry (\<lambda>e. e\<lparr>cb_dirty := True, cb_data := buf\<rparr>) c = (Ok u, c')"
    by (simp add: cached_write_block_def bindM_def getM_def)
  from touch_same [OF t] obtain c1 e1 where s: "same_data c c1" "cd_device c' = cd_device c1"
    "cd_cache c' = (cd_cache c1)(n \<mapsto> e1\<lparr>cb_more_recent := INVALID_ADDRESS, cb_less_recent := cd_mru c,
        cb_dirty := True, cb_data := buf\<rparr>)"
    by auto
  then have "view c' = (view c)(n \<mapsto> (buf, True))" "cd_device c' = cd_device c"
    by (auto simp: same_data_def view_def fun_eq_iff)
  then show ?thesis
    using store_data [of inv blks c c' n buf True] inv n len length_blks by (simp add: cd_inv_def)
next
  case None
  with run obtain c2 where m: "miss_update n c = (Ok (), c2)"
    and i: "cached_insert ops n (fresh_entry buf True (cd_mru c)) c2 = (Ok (), c')"
    by (auto simp: cached_write_block_def bindM_eq_Ok getM_def)
  have s: "same_data c c2" by (rule miss_update_same [OF m])
  have "cd_cache c2 n = None" using s None by (simp add: same_data_def flip: view_None)
  moreover have "cd_device c2 = cd_device c" using s by (simp add: same_data_def)
  ultimately show ?thesis
    using insert_data [OF _ i, of] inv n len same_data_inv [OF s] same_data_blocks [OF s]
    by (simp add: fresh_entry_def)
qed

lemma cached_partial_device: "partial_device (cached_ops ops ord) (cd_blocks blks) (cd_inv inv blks)"
proof
  show "wf_blocks (cd_blocks blks c)" if "cd_inv inv blks c" for c
    using that wf unfolding cd_inv_def wf_blocks_def entry_ok_def cd_blocks_def
    by (auto split: option.split)
  show "unat (block_count (cached_ops ops ord) c) = length (cd_blocks blks c)"
    if "cd_inv inv blks c" for c
    using that count by (simp add: cd_inv_def cached_block_count_def)
  show "buf = cd_blocks blks c ! unat n \<and> cd_inv inv blks c' \<and> cd_blocks blks c' = cd_blocks blks c"
    if "cd_inv inv blks c" "unat n < length (cd_blocks blks c)"
      "read_block (cached_ops ops ord) n c = (Ok buf, c')" for c n buf c'
    using cached_read_partial [of c n buf c'] that by simp
  show "cd_inv inv blks c' \<and> cd_blocks blks c' = (cd_blocks blks c)[unat n := buf]"
    if "cd_inv inv blks c" "unat n < length (cd_blocks blks c)" "length buf = BLOCK_SIZE"
      "write_block (cached_ops ops ord) n buf c = (Ok u, c')" for c n buf u c'
    using cached_write_partial [of c n buf u c'] that by simp
qed

end

interpretation cachedMem: partial_device "cached_ops mem_ops ord" "cd_blocks md_blocks" "cd_inv mem_inv md_blocks" for ord
  by (rule mem.partial.cached_partial_device)

interpretation cachedFile: partial_device "cached_ops file_ops ord" "cd_blocks fd_blocks" "cd_inv file_inv fd_blocks" for ord
  by (rule fileDev.partial.cached_partial_device)



section \<open>The threading is a recency list\<close>

text \<open>
  \<open>links m p xs q\<close>: the entries of \<open>xs\<close> are threaded in that order, from the predecessor \<open>p\<close> of
  the first to the successor \<open>q\<close> of the last. \<open>chain c L\<close>: the cache holds exactly the blocks of
  \<open>L\<close>, threaded from the least to the most recently used.
\<close>

definition first_of :: "u32 list \<Rightarrow> u32 \<Rightarrow> u32" where
  "first_of xs q = (case xs of [] \<Rightarrow> q | x # _ \<Rightarrow> x)"

definition last_of :: "u32 \<Rightarrow> u32 list \<Rightarrow> u32" where
  "last_of p xs = (if xs = [] then p else last xs)"

fun links :: "(u32 \<rightharpoonup> cached_block) \<Rightarrow> u32 \<Rightarrow> u32 list \<Rightarrow> u32 \<Rightarrow> bool" where
  "links m p [] q \<longleftrightarrow> True"
| "links m p (x # xs) q \<longleftrightarrow>
     (case m x of
        None \<Rightarrow> False
      | Some e \<Rightarrow> cb_less_recent e = p \<and> cb_more_recent e = first_of xs q \<and> links m x xs q)"

definition chain :: "'d cached_device \<Rightarrow> u32 list \<Rightarrow> bool" where
  "chain c L \<longleftrightarrow>
     distinct L \<and> INVALID_ADDRESS \<notin> set L \<and> dom (cd_cache c) = set L \<and>
     links (cd_cache c) INVALID_ADDRESS L INVALID_ADDRESS \<and>
     cd_lru c = first_of L INVALID_ADDRESS \<and> cd_mru c = last_of INVALID_ADDRESS L \<and>
     cd_cached_count c = length L \<and> length L \<le> cd_size c \<and> 2 \<le> cd_size c"

fun access_block :: "access \<Rightarrow> u32" where
  "access_block (Read n) = n"
| "access_block (Write n buf) = n"

definition dirty_keys :: "'d cached_device \<Rightarrow> u32 set" where
  "dirty_keys c = {k. \<exists>e. cd_cache c k = Some e \<and> cb_dirty e}"

definition lru_step :: "nat \<Rightarrow> u32 list \<Rightarrow> u32 \<Rightarrow> u32 list" where
  "lru_step cap L n =
     (if n \<in> set L then remove1 n L else if cap \<le> length L then tl L else L) @ [n]"

lemma first_of_simps [simp]:
  "first_of [] q = q" "first_of (x # xs) q = x" "first_of (xs @ ys) q = first_of xs (first_of ys q)"
  by (simp_all add: first_of_def split: list.split)

lemma last_of_simps [simp]:
  "last_of p [] = p" "last_of p (x # xs) = last_of x xs" "last_of p (xs @ ys) = last_of (last_of p xs) ys"
  by (simp_all add: last_of_def)

lemma links_append [simp]:
  "links m p (xs @ ys) q \<longleftrightarrow> links m p xs (first_of ys q) \<and> links m (last_of p xs) ys q"
  by (induction xs arbitrary: p) (auto split: option.split)

lemma links_other [simp]: "x \<notin> set xs \<Longrightarrow> links (m(x := v)) p xs q = links m p xs q"
  by (induction xs arbitrary: p) (auto split: option.split)

lemma links_set_less:
  "links m p (x # xs) q \<Longrightarrow> x \<notin> set xs \<Longrightarrow> m x = Some e \<Longrightarrow>
   links (m(x \<mapsto> e\<lparr>cb_less_recent := p'\<rparr>)) p' (x # xs) q"
  by auto

lemma links_set_more:
  "links m p (xs @ [x]) q \<Longrightarrow> x \<notin> set xs \<Longrightarrow> m x = Some e \<Longrightarrow>
   links (m(x \<mapsto> e\<lparr>cb_more_recent := q'\<rparr>)) p (xs @ [x]) q'"
  by auto

lemma chain_new: "chain (cached_new d cap) []"
  by (simp add: chain_def cached_new_def)

text \<open>The neighbour of an unlinked block on the less recent side, if there is one, gets its other neighbour.\<close>

lemma link_less_recent:
  assumes m: "links m INVALID_ADDRESS xs n" "links m q ys INVALID_ADDRESS" "m n = Some e"
    and xs: "INVALID_ADDRESS \<notin> set xs" "distinct xs" "n \<notin> set xs" "set xs \<inter> set ys = {}"
  obtains m' where "links m' INVALID_ADDRESS xs y" "links m' q ys INVALID_ADDRESS" "m' n = Some e" "dom m' = dom m"
    "(if last_of INVALID_ADDRESS xs \<noteq> INVALID_ADDRESS
      then cache_modify (last_of INVALID_ADDRESS xs) (\<lambda>e. e\<lparr>cb_more_recent := y\<rparr>) else returnM ()) (c\<lparr>cd_cache := m\<rparr>) = (Ok (), c\<lparr>cd_cache := m'\<rparr>)"
proof (cases xs rule: rev_cases)
  case Nil
  with m that [of m] show ?thesis by (simp add: returnM_def)
next
  case (snoc xs' x)
  obtain ex where ex: "m x = Some ex" using m(1) snoc by (auto split: option.splits)
  have x: "x \<noteq> INVALID_ADDRESS" "x \<notin> set xs'" "x \<notin> set ys" "x \<noteq> n" using xs snoc by auto
  show ?thesis
    using m ex x snoc links_set_more [OF m(1) [unfolded snoc], of ex y]
    by (intro that [of "m(x \<mapsto> ex\<lparr>cb_more_recent := y\<rparr>)"]) (auto simp: cache_modify_def)
qed

lemma chain_hit:
  assumes ch: "chain c L" and n: "n \<in> set L" "last L \<noteq> n" and e: "cd_cache c n = Some e"
    and upd: "\<And>e. cb_more_recent (upd e) = cb_more_recent e \<and> cb_less_recent (upd e) = cb_less_recent e"
  shows "\<exists>c'. cached_touch n e upd c = (Ok (), c') \<and> chain c' (remove1 n L @ [n]) \<and> cd_size c' = cd_size c"
proof -
  have dist: "distinct L" and inval: "INVALID_ADDRESS \<notin> set L" using ch by (auto simp: chain_def)
  from n(1) obtain xs ys where L: "L = xs @ n # ys" by (meson split_list)
  with n dist obtain y ys' where ys: "ys = y # ys'" by (cases ys) auto
  obtain zs z where zs: "ys = zs @ [z]" using ys by (metis append_butlast_last_id list.distinct(1))
  let ?p = "last_of INVALID_ADDRESS xs" let ?m = "cd_cache c"
  have nds: "n \<notin> set xs" "n \<notin> set ys" "distinct ys" "distinct xs" "set xs \<inter> set ys = {}"
    using dist L by auto
  have nv: "y \<noteq> INVALID_ADDRESS" "n \<noteq> INVALID_ADDRESS" using inval L ys by auto
  have fl: "first_of ys q = y" "last_of q ys = z" for q
    using ys by simp (simp add: zs)
  have lk: "links ?m INVALID_ADDRESS xs n" "links ?m n ys INVALID_ADDRESS"
    "cb_less_recent e = ?p" "cb_more_recent e = y" "cd_mru c = z" "cd_lru c = first_of xs n"
    using ch e unfolding chain_def L by (simp_all add: fl)
  obtain ey where ey: "?m y = Some ey" using lk(2) unfolding ys by (auto split: option.splits)
  define m1 where "m1 = ?m(y \<mapsto> ey\<lparr>cb_less_recent := ?p\<rparr>)"
  have m1: "links m1 INVALID_ADDRESS xs n" "links m1 ?p ys INVALID_ADDRESS" "m1 n = Some e"
    "dom m1 = dom ?m"
    using lk ey nds e unfolding m1_def ys by (auto split: option.splits)
  have "INVALID_ADDRESS \<notin> set xs" using inval L by simp
  from link_less_recent [OF m1(1-3) this nds(4,1,5), of y c, unfolded m1(4)] obtain m2 where
    m2: "links m2 INVALID_ADDRESS xs y" "links m2 ?p ys INVALID_ADDRESS" "m2 n = Some e" "dom m2 = dom ?m"
    and run2: "(if ?p \<noteq> INVALID_ADDRESS
        then cache_modify ?p (\<lambda>e. e\<lparr>cb_more_recent := y\<rparr>) else returnM ()) (c\<lparr>cd_cache := m1\<rparr>) =
        (Ok (), c\<lparr>cd_cache := m2\<rparr>)" .
  obtain ez where ez: "m2 z = Some ez" using m2(2) unfolding zs by (auto split: option.splits)
  have z: "z \<notin> set xs" "z \<notin> set zs" "z \<noteq> n" using nds zs by auto
  define m3 where "m3 = m2(z \<mapsto> ez\<lparr>cb_more_recent := n\<rparr>)"
  have m3: "links m3 INVALID_ADDRESS xs y" "links m3 ?p ys n" "m3 n = Some e" "dom m3 = dom ?m"
    using m2 z ez links_set_more [OF m2(2) [unfolded zs], of ez n] unfolding m3_def zs by auto
  define m4 where "m4 = m3(n \<mapsto> upd (e\<lparr>cb_more_recent := INVALID_ADDRESS, cb_less_recent := z\<rparr>))"
  have m4: "links m4 INVALID_ADDRESS (xs @ ys @ [n]) INVALID_ADDRESS" "dom m4 = dom ?m"
    using m3 nds upd e unfolding m4_def by (auto simp: fl)
  let ?lru = "if first_of xs n = n then y else first_of xs n"
  have "cached_touch n e upd c =
      (Ok (), c\<lparr>cd_cache := m4, cd_lru := ?lru, cd_mru := n\<rparr>)"
  proof -
    have r1: "cache_modify y (\<lambda>e. e\<lparr>cb_less_recent := ?p\<rparr>) c = (Ok (), c\<lparr>cd_cache := m1\<rparr>)"
      using ey by (simp add: cache_modify_def m1_def)
    have r3: "cache_modify z (\<lambda>e. e\<lparr>cb_more_recent := n\<rparr>) c0 = (Ok (), c0\<lparr>cd_cache := m3\<rparr>)"
      if "cd_cache c0 = m2" for c0 :: "'a cached_device"
      using ez that by (simp add: cache_modify_def m3_def)
    have r4: "cache_modify n (\<lambda>e. upd (e\<lparr>cb_more_recent := INVALID_ADDRESS, cb_less_recent := z\<rparr>)) c0 =
        (Ok (), c0\<lparr>cd_cache := m4\<rparr>)" if "cd_cache c0 = m3" for c0 :: "'a cached_device"
      using m3 that by (simp add: cache_modify_def m4_def)
    have "c\<lparr>cd_cache := m4, cd_mru := n\<rparr> = c\<lparr>cd_cache := m4, cd_lru := first_of xs n, cd_mru := n\<rparr>"
      using lk by (cases c) simp
    then show ?thesis
      unfolding cached_touch_def Let_def lk(3,4)
      using nv lk by (auto simp: bindM_def r1 run2 modifyM_def getM_def r3 r4)
  qed
  moreover have "remove1 n L = xs @ ys" using nds L by (simp add: remove1_append)
  moreover have "?lru = first_of (xs @ ys @ [n]) INVALID_ADDRESS"
    using nds ys by (cases xs) auto
  moreover have "set L = set (xs @ ys @ [n])" "length L = length (xs @ ys @ [n])" using L by auto
  ultimately show ?thesis
    using ch m4 nds inval unfolding chain_def by (auto simp: L simp del: links.simps)
qed

lemma chain_miss:
  assumes ch: "chain c L" and n: "n \<notin> set L" "n \<noteq> INVALID_ADDRESS"
  shows "\<exists>c'. miss_update n c = (Ok (), c') \<and> same_data c c' \<and> cd_cache c' n = None \<and>
    dom (cd_cache c') = set L \<and> links (cd_cache c') INVALID_ADDRESS L n \<and>
    cd_lru c' = first_of L n \<and> cd_mru c' = n"
proof (cases L rule: rev_cases)
  case Nil
  with ch show ?thesis
    by (auto simp: chain_def miss_update_def bindM_def getM_def modifyM_def same_data_def)
next
  case (snoc xs x)
  with ch obtain e where e: "cd_cache c x = Some e" by (auto simp: chain_def split: option.splits)
  have "x \<noteq> INVALID_ADDRESS" "cd_mru c = x" using ch snoc by (auto simp: chain_def)
  then have run: "miss_update n c =
      (Ok (), c\<lparr>cd_cache := (cd_cache c)(x \<mapsto> e\<lparr>cb_more_recent := n\<rparr>), cd_mru := n\<rparr>)"
    using e by (simp add: miss_update_def bindM_def getM_def modifyM_def cache_modify_def)
  have "cd_cache c n = None" using ch n by (auto simp: chain_def)
  moreover have "links ((cd_cache c)(x \<mapsto> e\<lparr>cb_more_recent := n\<rparr>)) INVALID_ADDRESS L n"
    using ch e unfolding snoc chain_def by (intro links_set_more) auto
  ultimately show ?thesis
    using ch n snoc e miss_update_same [OF run] unfolding run
    by (auto simp: chain_def simp del: links.simps links_append)
qed

context block_device
begin

lemma evict_runs:
  assumes inv: "cd_inv inv blks c"
    and L: "dom (cd_cache c) = set (x # y # L)" "distinct (x # y # L)"
    and lk: "links (cd_cache c) INVALID_ADDRESS (x # y # L) q" and lru: "cd_lru c = x"
  shows "\<exists>c'. evict_lru ops c = (Ok (), c') \<and> dom (cd_cache c') = set (y # L) \<and>
    links (cd_cache c') INVALID_ADDRESS (y # L) q \<and> cd_lru c' = y \<and> cd_mru c' = cd_mru c \<and>
    cd_cached_count c' = cd_cached_count c - 1 \<and> cd_size c' = cd_size c"
proof -
  obtain e ey where e: "cd_cache c x = Some e" "cb_more_recent e = y" "cd_cache c y = Some ey"
    using lk by (auto split: option.splits)
  then have ok: "entry_ok (blks (cd_device c)) x e" "inv (cd_device c)"
    using inv by (auto simp: cd_inv_def)
  obtain d' where w: "(if cb_dirty e then on_dev (write_block ops x (cb_data e)) else returnM ()) c =
      (Ok (), c\<lparr>cd_device := d'\<rparr>)"
  proof (cases "cb_dirty e")
    case True
    then show ?thesis
      using that write_ok [OF ok(2), of x "cb_data e"] ok(1) by (auto simp: entry_ok_def zoomM_def)
  next
    case False
    then show ?thesis using that [of "cd_device c"] by (simp add: returnM_def)
  qed
  let ?m = "(cd_cache c)(y \<mapsto> ey\<lparr>cb_less_recent := INVALID_ADDRESS\<rparr>, x := None)"
  have "evict_lru ops c = (Ok (), c\<lparr>cd_device := d', cd_lru := y, cd_cache := ?m,
      cd_cached_count := cd_cached_count c - 1\<rparr>)"
    using e lru w
    by (simp add: evict_lru_def bindM_def getM_def liftM_def unwrap_def modifyM_def cache_modify_def)
  moreover have "links ?m INVALID_ADDRESS (y # L) q" "dom ?m = set (y # L)"
    using lk L e by (auto split: option.splits)
  ultimately show ?thesis by (auto simp del: links.simps)
qed

lemma insert_runs:
  assumes inv: "cd_inv inv blks c"
    and L: "dom (cd_cache c) = set L" "distinct L" "INVALID_ADDRESS \<notin> set L"
    and n: "n \<notin> set L" "n \<noteq> INVALID_ADDRESS"
    and lk: "links (cd_cache c) INVALID_ADDRESS L n"
    and ends: "cd_lru c = first_of L n" "cd_mru c = n"
    and count: "cd_cached_count c = length L" "length L \<le> cd_size c" "2 \<le> cd_size c"
    and entry: "cb_more_recent entry = INVALID_ADDRESS" "cb_less_recent entry = last_of INVALID_ADDRESS L"
  shows "\<exists>c'. cached_insert ops n entry c = (Ok (), c') \<and> chain c' (lru_step (cd_size c) L n) \<and>
    cd_size c' = cd_size c"
proof (cases "cd_size c \<le> length L")
  case True
  with count obtain x y L' where xy: "L = x # y # L'"
    by (cases L; cases "tl L") auto
  from evict_runs [of c x y L' n] inv L lk ends obtain c1 where
    ev: "evict_lru ops c = (Ok (), c1)" and
    c1: "dom (cd_cache c1) = set (y # L')" "links (cd_cache c1) INVALID_ADDRESS (y # L') n"
      "cd_lru c1 = y" "cd_mru c1 = n" "cd_cached_count c1 = length L - 1" "cd_size c1 = cd_size c"
    unfolding xy using count xy by auto
  let ?c' = "c1\<lparr>cd_cached_count := cd_cached_count c1 + 1, cd_cache := (cd_cache c1)(n \<mapsto> entry)\<rparr>"
  have "cached_insert ops n entry c = (Ok (), ?c')"
    using True ev count by (simp add: cached_insert_def bindM_def getM_def modifyM_def)
  moreover have "links ((cd_cache c1)(n \<mapsto> entry)) INVALID_ADDRESS ((y # L') @ [n]) INVALID_ADDRESS"
    using c1 n entry unfolding xy links_append by (auto simp del: links.simps) (simp add: last_of_def)
  ultimately show ?thesis
    using c1 n L count True unfolding chain_def lru_step_def xy
    by (auto simp del: links.simps links_append)
next
  case False
  let ?c' = "c\<lparr>cd_cached_count := cd_cached_count c + 1, cd_cache := (cd_cache c)(n \<mapsto> entry)\<rparr>"
  have "cached_insert ops n entry c = (Ok (), ?c')"
    using False count by (simp add: cached_insert_def bindM_def getM_def modifyM_def returnM_def)
  moreover have "links ((cd_cache c)(n \<mapsto> entry)) INVALID_ADDRESS (L @ [n]) INVALID_ADDRESS"
    using lk n entry by (auto simp: last_of_def)
  ultimately show ?thesis
    using ends n L count False unfolding chain_def lru_step_def
    by (auto simp del: links.simps links_append)
qed

lemma miss_insert_runs:
  assumes inv: "cd_inv inv blks c" and ch: "chain c L" and n: "n \<notin> set L" "n \<noteq> INVALID_ADDRESS"
  shows "\<exists>c'. bindM (miss_update n) (\<lambda>_. cached_insert ops n (fresh_entry buf dirty (cd_mru c))) c = (Ok (), c') \<and>
    chain c' (lru_step (cd_size c) L n) \<and> cd_size c' = cd_size c"
proof -
  from chain_miss [OF ch n] obtain c2 where m: "miss_update n c = (Ok (), c2)" "same_data c c2"
    and c2: "dom (cd_cache c2) = set L" "links (cd_cache c2) INVALID_ADDRESS L n"
      "cd_lru c2 = first_of L n" "cd_mru c2 = n" by auto
  have sz: "cd_size c2 = cd_size c" "cd_cached_count c2 = cd_cached_count c" "cd_inv inv blks c2"
    using m inv same_data_inv by (auto simp: same_data_def)
  have "\<exists>c'. cached_insert ops n (fresh_entry buf dirty (cd_mru c)) c2 = (Ok (), c') \<and>
      chain c' (lru_step (cd_size c2) L n) \<and> cd_size c' = cd_size c2"
    using ch n c2 sz by (intro insert_runs) (auto simp: chain_def fresh_entry_def)
  then show ?thesis using m(1) sz by (auto simp: bindM_def)
qed

lemma valid_address:
  assumes "inv d" "unat n < length (blks d)"
  shows "n \<noteq> INVALID_ADDRESS"
proof
  assume "n = INVALID_ADDRESS"
  then have "unat n = 4294967295" by simp
  with assms partial.length_blks [of d] show False by linarith
qed

lemma chain_hit_entry:
  "chain c L \<Longrightarrow> n \<in> set L \<Longrightarrow> \<exists>e. cd_cache c n = Some e"
  by (auto simp: chain_def)

lemma cached_read_runs:
  assumes inv: "cd_inv inv blks c" and ch: "chain c L" and n: "unat n < length (blks (cd_device c))"
    and fresh: "L = [] \<or> last L \<noteq> n"
  shows "\<exists>c'. cached_read_block ops n c = (Ok (cd_blocks blks c ! unat n), c') \<and>
    chain c' (lru_step (cd_size c) L n) \<and> cd_size c' = cd_size c \<and>
    cd_inv inv blks c' \<and> cd_blocks blks c' = cd_blocks blks c"
proof -
  have d: "inv (cd_device c)" using inv by (simp add: cd_inv_def)
  have "\<exists>buf c'. cached_read_block ops n c = (Ok buf, c') \<and> chain c' (lru_step (cd_size c) L n) \<and>
      cd_size c' = cd_size c"
  proof (cases "n \<in> set L")
    case True
    with chain_hit_entry [OF ch] obtain e where e: "cd_cache c n = Some e" by auto
    from True fresh have last: "last L \<noteq> n" by auto
    from chain_hit [OF ch True last e, of id] obtain c' where
      c': "cached_touch n e id c = (Ok (), c')" "chain c' (remove1 n L @ [n])" "cd_size c' = cd_size c"
      by auto
    moreover obtain e' where "cd_cache c' n = Some e'"
      using chain_hit_entry [OF c'(2), of n] by auto
    ultimately show ?thesis
      using e True
      by (simp add: cached_read_block_def bindM_def getM_def liftM_def unwrap_def returnM_def lru_step_def)
  next
    case False
    then have miss: "cd_cache c n = None" using ch by (auto simp: chain_def)
    from read_ok [OF d n] obtain d1 where d1: "read_block ops n (cd_device c) = (Ok (blks (cd_device c) ! unat n), d1)"
      "inv d1" "blks d1 = blks (cd_device c)" by auto
    let ?c = "c\<lparr>cd_device := d1\<rparr>"
    have "cd_inv inv blks ?c" "chain ?c L" using inv ch d1 by (auto simp: cd_inv_def chain_def)
    from miss_insert_runs [OF this False valid_address [OF d n]] obtain c' where
      "bindM (miss_update n) (\<lambda>_. cached_insert ops n
         (fresh_entry (blks (cd_device c) ! unat n) False (cd_mru c))) ?c = (Ok (), c')"
      "chain c' (lru_step (cd_size c) L n)" "cd_size c' = cd_size c"
      by auto
    then show ?thesis using miss d1
      by (auto simp: cached_read_block_def bindM_eq_Ok getM_def zoomM_def returnM_def)
  qed
  then show ?thesis using partial.cached_read_partial [OF inv n] by blast
qed

lemma cached_write_runs:
  assumes inv: "cd_inv inv blks c" and ch: "chain c L" and n: "unat n < length (blks (cd_device c))"
    and len: "length buf = BLOCK_SIZE" and fresh: "L = [] \<or> last L \<noteq> n"
  shows "\<exists>c'. cached_write_block ops n buf c = (Ok (), c') \<and>
    chain c' (lru_step (cd_size c) L n) \<and> cd_size c' = cd_size c \<and>
    cd_inv inv blks c' \<and> cd_blocks blks c' = (cd_blocks blks c)[unat n := buf]"
proof -
  have d: "inv (cd_device c)" using inv by (simp add: cd_inv_def)
  have "\<exists>c'. cached_write_block ops n buf c = (Ok (), c') \<and> chain c' (lru_step (cd_size c) L n) \<and>
      cd_size c' = cd_size c"
  proof (cases "n \<in> set L")
    case True
    with chain_hit_entry [OF ch] obtain e where e: "cd_cache c n = Some e" by auto
    from True fresh have last: "last L \<noteq> n" by auto
    from chain_hit [OF ch True last e, of "\<lambda>e. e\<lparr>cb_dirty := True, cb_data := buf\<rparr>"] e True
    show ?thesis by (auto simp: cached_write_block_def bindM_def getM_def lru_step_def)
  next
    case False
    then have "cd_cache c n = None" using ch by (auto simp: chain_def)
    with miss_insert_runs [OF inv ch False valid_address [OF d n], of buf True]
    show ?thesis by (simp add: cached_write_block_def bindM_def [of "getM _"] getM_def)
  qed
  then show ?thesis using partial.cached_write_partial [OF inv n len] by blast
qed

lemma cached_script_runs:
  "cd_inv inv blks c \<Longrightarrow> chain c L \<Longrightarrow>
   \<forall>a \<in> set as. access_ok (length (blks (cd_device c))) a \<Longrightarrow>
   distinct_adj (map access_block as) \<Longrightarrow> as = [] \<or> L = [] \<or> last L \<noteq> access_block (hd as) \<Longrightarrow>
   \<exists>c'. run_accesses (cached_ops ops ord) as c = (Ok (fst (spec_accesses (cd_blocks blks c) as)), c') \<and>
     cd_inv inv blks c' \<and> cd_blocks blks c' = snd (spec_accesses (cd_blocks blks c) as) \<and>
     chain c' (foldl (lru_step (cd_size c)) L (map access_block as)) \<and> cd_size c' = cd_size c"
proof (induction as arbitrary: c L)
  case Nil
  then show ?case by (simp add: returnM_def)
next
  case (Cons a as)
  have len: "length (cd_blocks blks c) = length (blks (cd_device c))" by simp
  have next_ok: "distinct_adj (map access_block as) \<and>
    (as = [] \<or> lru_step k L (access_block a) = [] \<or>
     last (lru_step k L (access_block a)) \<noteq> access_block (hd as))" for k
    using Cons.prems(4) by (auto simp: distinct_adj_Cons lru_step_def hd_map)
  show ?case
  proof (cases a)
    case (Read n)
    with Cons.prems have n: "unat n < length (blks (cd_device c))" and fresh: "L = [] \<or> last L \<noteq> n" by auto
    from cached_read_runs [OF Cons.prems(1,2) n fresh] obtain c1 where
      c1: "cached_read_block ops n c = (Ok (cd_blocks blks c ! unat n), c1)"
        "chain c1 (lru_step (cd_size c) L n)" "cd_size c1 = cd_size c" "cd_inv inv blks c1"
        "cd_blocks blks c1 = cd_blocks blks c" by auto
    moreover have "length (blks (cd_device c1)) = length (blks (cd_device c))"
      using c1(5) by (metis length_cd_blocks)
    ultimately show ?thesis
      using Cons.IH [OF c1(4,2)] Cons.prems(3) next_ok [of "cd_size c"] Read
      by (auto simp: bindM_eq_Ok returnM_def split: prod.splits)
  next
    case (Write n buf)
    with Cons.prems have n: "unat n < length (blks (cd_device c))" and fresh: "L = [] \<or> last L \<noteq> n"
      and len: "length buf = BLOCK_SIZE" by auto
    from cached_write_runs [OF Cons.prems(1,2) n len fresh] obtain c1 where
      c1: "cached_write_block ops n buf c = (Ok (), c1)"
        "chain c1 (lru_step (cd_size c) L n)" "cd_size c1 = cd_size c" "cd_inv inv blks c1"
        "cd_blocks blks c1 = (cd_blocks blks c)[unat n := buf]" by auto
    moreover have "length (blks (cd_device c1)) = length (blks (cd_device c))"
      using c1(5) by (metis length_cd_blocks length_list_update)
    ultimately show ?thesis
      using Cons.IH [OF c1(4,2)] Cons.prems(3) next_ok [of "cd_size c"] Write
      by (auto simp: bindM_eq_Ok split: prod.splits)
  qed
qed

lemma flush_entry_runs:
  assumes inv: "cd_inv inv blks c"
  shows "\<exists>c'. flush_entry ops k u c = (Ok (), c') \<and> cd_inv inv blks c' \<and>
    cd_blocks blks c' = cd_blocks blks c \<and> dirty_keys c' = dirty_keys c - {k}"
proof (cases "k \<in> dirty_keys c")
  case False
  then have "flush_entry ops k u c = (Ok (), c)"
    by (auto simp: flush_entry_def dirty_keys_def bindM_def getM_def returnM_def split: option.split)
  with False inv show ?thesis by simp
next
  case True
  then obtain e where e: "cd_cache c k = Some e" "cb_dirty e" by (auto simp: dirty_keys_def)
  then have ok: "inv (cd_device c)" "unat k < length (blks (cd_device c))" "length (cb_data e) = BLOCK_SIZE"
    using inv by (auto simp: cd_inv_def entry_ok_def)
  from write_ok [OF ok] obtain d' where d': "write_block ops k (cb_data e) (cd_device c) = (Ok (), d')"
    "inv d'" "blks d' = (blks (cd_device c))[unat k := cb_data e]" by auto
  let ?c' = "c\<lparr>cd_device := d', cd_cache := (cd_cache c)(k \<mapsto> e\<lparr>cb_dirty := False\<rparr>)\<rparr>"
  have "flush_entry ops k u c = (Ok (), ?c')"
    using e d' by (simp add: flush_entry_def bindM_def getM_def zoomM_def cache_modify_def)
  moreover have "view c k = Some (cb_data e, True)" "view ?c' = (view c)(k := Some (cb_data e, False))"
    using e by (auto simp: view_def fun_eq_iff)
  moreover have "dirty_keys ?c' = dirty_keys c - {k}" by (auto simp: dirty_keys_def)
  ultimately show ?thesis
    using writeback_data [OF inv, of k "cb_data e" True ?c'] d' partial.length_blks [OF ok(1)] by simp
qed

lemma flush_keys_run:
  "cd_inv inv blks c \<Longrightarrow>
   \<exists>c'. foldM (flush_entry ops) ks u c = (Ok (), c') \<and> cd_inv inv blks c' \<and>
    cd_blocks blks c' = cd_blocks blks c \<and> dirty_keys c' = dirty_keys c - set ks"
proof (induction ks arbitrary: c u)
  case Nil
  then show ?case by (simp add: returnM_def)
next
  case (Cons k ks)
  from flush_entry_runs [OF Cons.prems, of k u] obtain c1 where
    "flush_entry ops k u c = (Ok (), c1)" "cd_inv inv blks c1" "cd_blocks blks c1 = cd_blocks blks c"
    "dirty_keys c1 = dirty_keys c - {k}" by auto
  with Cons.IH [of c1 "()"] show ?case by (auto simp: bindM_def)
qed

lemma clean_blocks:
  assumes "cd_inv inv blks c" "dirty_keys c = {}"
  shows "blks (cd_device c) = cd_blocks blks c"
proof (rule nth_equalityI)
  have small: "length (blks (cd_device c)) < 4294967296"
    using assms partial.length_blks by (simp add: cd_inv_def)
  fix i assume i: "i < length (blks (cd_device c))"
  with small have "unat (of_nat i :: u32) = i" by (simp add: unat_u32_of_nat)
  with assms i show "blks (cd_device c) ! i = cd_blocks blks c ! i"
    by (auto simp: nth_cd_blocks cd_inv_def entry_ok_def dirty_keys_def split: option.split)
qed simp

lemma cached_flush_runs:
  assumes "visits_all ord" "cd_inv inv blks c"
  shows "\<exists>c'. cached_flush ops ord c = (Ok (), c') \<and> cd_inv inv blks c' \<and>
    cd_blocks blks c' = cd_blocks blks c \<and> blks (cd_device c') = cd_blocks blks c"
proof -
  have fin: "finite (dom (cd_cache c))" by simp
  have "dirty_keys c \<subseteq> set (ord (cd_cache c))"
    using assms(1) fin by (auto simp: visits_all_def dirty_keys_def)
  moreover from flush_keys_run [OF assms(2), of "ord (cd_cache c)" "()"] obtain c' where
    "foldM (flush_entry ops) (ord (cd_cache c)) () c = (Ok (), c')" "cd_inv inv blks c'"
    "cd_blocks blks c' = cd_blocks blks c" "dirty_keys c' = dirty_keys c - set (ord (cd_cache c))"
    by auto
  ultimately show ?thesis
    using clean_blocks [of c'] by (auto simp: cached_flush_def bindM_def getM_def)
qed

end

lemma replicate_4: "replicate 4 x = [x, x, x, x]"
  by (simp add: numeral_eq_Suc)

lemma cd_inv_new: "dinv d \<Longrightarrow> cd_inv dinv blks (cached_new d cap) \<and> cd_blocks blks (cached_new d cap) = blks d"
  by (auto simp: cd_inv_def cached_new_def cd_blocks_def map_nth)


section \<open>Properties\<close>

text \<open>
  C10. A write-back cache over any device that satisfies the block-device contract is invisible and
  least-recently-used: after any sequence of in-range reads and writes that never accesses the same
  block twice in a row, no access has failed, every read returned the latest contents, the cached
  blocks are the ones an LRU list of the cache's capacity holds, and a final flush (in any order)
  leaves on the inner device exactly the contents written.
\<close>

theorem cache_lru_transparent:
  assumes dev: "block_device ops blks dinv" and d: "dinv d" and ord: "visits_all ord"
    and ok: "\<forall>a \<in> set as. access_ok (length (blks d)) a"
    and norep: "distinct_adj (map access_block as)"
  shows "\<exists>c c'. run_accesses (cached_ops ops ord) as (cached_new d cap) =
      (Ok (fst (spec_accesses (blks d) as)), c) \<and>
    dom (cd_cache c) = set (foldl (lru_step (max cap 2)) [] (map access_block as)) \<and>
    flush (cached_ops ops ord) c = (Ok (), c') \<and>
    blks (cd_device c') = snd (spec_accesses (blks d) as)"
proof -
  have new: "cd_inv dinv blks (cached_new d cap)" "cd_blocks blks (cached_new d cap) = blks d"
    using d by (simp_all add: cd_inv_new)
  have "length (blks (cd_device (cached_new d cap))) = length (blks d)" by (simp add: cached_new_def)
  with block_device.cached_script_runs [OF dev new(1) chain_new] new(2) ok norep obtain c where
    c: "run_accesses (cached_ops ops ord) as (cached_new d cap) =
        (Ok (fst (spec_accesses (blks d) as)), c)" "cd_inv dinv blks c"
      "cd_blocks blks c = snd (spec_accesses (blks d) as)"
      "chain c (foldl (lru_step (cd_size (cached_new d cap))) [] (map access_block as))"
    by auto metis
  from block_device.cached_flush_runs [OF dev ord c(2)] c show ?thesis
    by (auto simp: chain_def cached_new_def)
qed

theorem cache_lru_transparent_witness:
  "\<exists>c c'. run_accesses (cached_ops mem_ops (\<lambda>m. sorted_list_of_set (dom m)))
      [Write 1 (replicate 256 7), Read 2, Read 3, Read 1] (cached_new (mem_empty 4) 2) =
      (Ok [zero_block, zero_block, replicate 256 7], c) \<and>
    dom (cd_cache c) = {3, 1} \<and> flush (cached_ops mem_ops (\<lambda>m. sorted_list_of_set (dom m))) c = (Ok (), c') \<and>
    md_blocks (cd_device c') = [zero_block, replicate 256 7, zero_block, zero_block]"
proof -
  let ?as = "[Write 1 (replicate 256 7), Read 2, Read 3, Read 1]" let ?d = "mem_empty 4"
  have d: "mem_inv ?d" "md_blocks ?d = [zero_block, zero_block, zero_block, zero_block]"
    by (simp_all add: mem_empty_def mem_inv_def wf_blocks_def replicate_4)
  have ord: "visits_all (\<lambda>m. sorted_list_of_set (dom m))" by (simp add: visits_all_def)
  have ok: "\<forall>a \<in> set ?as. access_ok (length (md_blocks ?d)) a" by (simp add: d BLOCK_SIZE_def)
  have "foldl (lru_step (max 2 2)) [] (map access_block ?as) = [3, 1]" by (simp add: lru_step_def)
  moreover have "spec_accesses (md_blocks ?d) ?as =
      ([zero_block, zero_block, replicate 256 7], [zero_block, replicate 256 7, zero_block, zero_block])"
    by (simp add: d)
  ultimately show ?thesis
    using cache_lru_transparent [OF mem.block_device_axioms d(1) ord ok, of 2] by simp
qed

text \<open>
  C24. Whatever the sequence of in-range accesses (repeated blocks included), a cached device over
  any device never returns stale or wrong contents: if the accesses return, the reads gave the
  latest contents and the contents the client sees are those written.
\<close>

theorem cache_never_stale:
  assumes "partial_device ops blks dinv" "dinv d"
    and "\<forall>a \<in> set as. access_ok (length (blks d)) a"
    and "run_accesses (cached_ops ops ord) as (cached_new d cap) = (Ok out, c)"
  shows "(out, cd_blocks blks c) = spec_accesses (blks d) as \<and> cd_inv dinv blks c"
  using partial_device.run_accesses_partial
      [OF partial_device.cached_partial_device [OF assms(1), of ord], of "cached_new d cap" as out c]
    assms cd_inv_new [of dinv d blks cap]
  by (auto simp: cached_new_def)

theorem cache_never_stale_witness:
  "\<exists>c. run_accesses (cached_ops mem_ops (\<lambda>m. [])) [Write 1 (replicate 256 7), Read 1, Read 1]
      (cached_new (mem_empty 4) 2) = (Ok [replicate 256 7, replicate 256 7], c) \<and>
    cd_blocks md_blocks c = [zero_block, replicate 256 7, zero_block, zero_block]"
proof -
  let ?as = "[Write 1 (replicate 256 7), Read 1, Read 1]" let ?d = "mem_empty 4"
  let ?run = "run_accesses (cached_ops mem_ops (\<lambda>m. [])) ?as (cached_new ?d 2)"
  have d: "mem_inv ?d" "md_blocks ?d = [zero_block, zero_block, zero_block, zero_block]"
    by (simp_all add: mem_empty_def mem_inv_def wf_blocks_def replicate_4)
  have "fst ?run = Ok [replicate 256 7, replicate 256 7]" by code_simp
  then obtain c where c: "?run = (Ok [replicate 256 7, replicate 256 7], c)" by (metis prod.collapse)
  have ok: "\<forall>a \<in> set ?as. access_ok (length (md_blocks ?d)) a" by (simp add: d BLOCK_SIZE_def)
  have "snd (spec_accesses (md_blocks ?d) ?as) = [zero_block, replicate 256 7, zero_block, zero_block]"
    by (simp add: d)
  with cache_never_stale [OF mem.partial.partial_device_axioms d(1) ok c] c show ?thesis
    by (metis snd_conv)
qed

end
