(* ===== verification/Cache_Repetition.thy ===== *)
theory Cache_Repetition
  imports Cached_Device
begin

text \<open>
  What a repeated access does to the cache of \<^verbatim>\<open>src/src/device/cached_device.rs\<close>. Accessing the most recently
  used block again makes it its own less recent neighbour; nothing panics yet, and the list from \<open>lru\<close> along
  the \<open>more_recent\<close> addresses is still right. \<open>fwd_list X c L\<close> follows that list alone: \<open>L\<close> are the blocks
  on it, \<open>X\<close> the cached blocks that are not. One more miss and a hit later a block has been dropped from the
  list while its own \<open>more_recent\<close> address still names a neighbour; once that neighbour is evicted, the next
  access to the block panics.
\<close>


section \<open>The list along the more recent addresses\<close>

fun fwd :: "(u32 \<rightharpoonup> cached_block) \<Rightarrow> u32 list \<Rightarrow> u32 \<Rightarrow> bool" where
  "fwd m [] q \<longleftrightarrow> True"
| "fwd m (x # xs) q \<longleftrightarrow> (\<exists>e. m x = Some e \<and> cb_more_recent e = first_of xs q) \<and> fwd m xs q"

definition fwd_list :: "u32 set \<Rightarrow> 'd cached_device \<Rightarrow> u32 list \<Rightarrow> bool" where
  "fwd_list X c L \<longleftrightarrow>
     distinct L \<and> L \<noteq> [] \<and> finite X \<and> set L \<inter> X = {} \<and> INVALID_ADDRESS \<notin> set L \<union> X \<and>
     dom (cd_cache c) = set L \<union> X \<and> fwd (cd_cache c) L INVALID_ADDRESS \<and>
     cd_lru c = hd L \<and> cd_mru c = last L \<and> cd_cached_count c = length L + card X \<and> length L + card X \<le> cd_size c"

definition less_of :: "'d cached_device \<Rightarrow> u32 \<rightharpoonup> u32" where
  "less_of c k = map_option cb_less_recent (cd_cache c k)"

lemma fwd_append [simp]: "fwd m (xs @ ys) q \<longleftrightarrow> fwd m xs (first_of ys q) \<and> fwd m ys q"
  by (induction xs) auto

lemma fwd_other [simp]: "x \<notin> set xs \<Longrightarrow> fwd (m(x := v)) xs q = fwd m xs q"
  by (induction xs) auto

lemma fwd_same_more: "fwd m xs q \<Longrightarrow> m x = Some e \<Longrightarrow> cb_more_recent e' = cb_more_recent e \<Longrightarrow> fwd (m(x \<mapsto> e')) xs q"
  by (induction xs) auto

lemma links_fwd: "links m p xs q \<Longrightarrow> fwd m xs q"
  by (induction xs arbitrary: p) (auto split: option.splits)

lemma chain_fwd_list:
  assumes "chain c L" "L \<noteq> []"
  shows "fwd_list {} c L"
proof -
  have "fwd (cd_cache c) L INVALID_ADDRESS" using assms(1) links_fwd unfolding chain_def by blast
  then show ?thesis using assms by (cases L) (simp_all add: chain_def fwd_list_def last_of_def)
qed

text \<open>
  The first step of a miss: the most recently used block gets its new neighbour \<open>x\<close>, which is not in the
  cache yet.
\<close>

definition fwd_pending :: "u32 set \<Rightarrow> 'd cached_device \<Rightarrow> u32 list \<Rightarrow> u32 \<Rightarrow> bool" where
  "fwd_pending X c L x \<longleftrightarrow>
     distinct L \<and> L \<noteq> [] \<and> finite X \<and> set L \<inter> X = {} \<and> INVALID_ADDRESS \<notin> insert x (set L \<union> X) \<and> x \<notin> set L \<union> X \<and>
     dom (cd_cache c) = set L \<union> X \<and> fwd (cd_cache c) L x \<and>
     cd_lru c = hd L \<and> cd_mru c = x \<and> cd_cached_count c = length L + card X \<and> length L + card X \<le> cd_size c"

lemma fwd_miss_update:
  assumes L: "fwd_list X c L" and x: "x \<notin> set L \<union> X" "x \<noteq> INVALID_ADDRESS"
  shows "\<exists>c'. miss_update x c = (Ok (), c') \<and> fwd_pending X c' L x \<and> same_data c c' \<and>
    (\<forall>k \<in> X. cd_cache c' k = cd_cache c k) \<and> less_of c' = less_of c"
proof -
  obtain ys y where ys: "L = ys @ [y]" using L by (metis fwd_list_def rev_exhaust)
  with L obtain e where e: "cd_cache c y = Some e" by (auto simp: fwd_list_def)
  have y: "cd_mru c = y" "y \<noteq> INVALID_ADDRESS" "y \<notin> set ys" "y \<notin> X" "fwd (cd_cache c) ys y" using L ys by (auto simp: fwd_list_def)
  let ?c = "c\<lparr>cd_cache := (cd_cache c)(y \<mapsto> e\<lparr>cb_more_recent := x\<rparr>), cd_mru := x\<rparr>"
  have run: "miss_update x c = (Ok (), ?c)"
    using e y by (simp add: miss_update_def bindM_def getM_def modifyM_def cache_modify_def)
  have "fwd_pending X ?c L x" using L x y e ys by (auto simp: fwd_list_def fwd_pending_def)
  moreover have "\<forall>k \<in> X. cd_cache ?c k = cd_cache c k" using y(4) by auto
  moreover have "less_of ?c = less_of c" using e by (auto simp: less_of_def)
  ultimately show ?thesis using run miss_update_same [OF run] by blast
qed

context block_device
begin

text \<open>Dropping the first block of the list to make room.\<close>

lemma fwd_evict:
  assumes inv: "cd_inv inv blks c" and x: "cd_cache c x = Some e" "cb_more_recent e = y" "cd_cache c y = Some ey" "cd_lru c = x" "x \<noteq> y"
  shows "\<exists>d'. evict_lru ops c = (Ok (), c\<lparr>cd_device := d', cd_lru := y,
    cd_cache := (cd_cache c)(y \<mapsto> ey\<lparr>cb_less_recent := INVALID_ADDRESS\<rparr>, x := None), cd_cached_count := cd_cached_count c - 1\<rparr>)"
proof -
  have ok: "entry_ok (blks (cd_device c)) x e" "inv (cd_device c)" using inv x(1) by (auto simp: cd_inv_def)
  obtain d' where "(if cb_dirty e then on_dev (write_block ops x (cb_data e)) else returnM ()) c = (Ok (), c\<lparr>cd_device := d'\<rparr>)"
  proof (cases "cb_dirty e")
    case True
    then show ?thesis
      using that write_ok [OF ok(2), of x "cb_data e"] ok(1) by (auto simp: entry_ok_def zoomM_def)
  qed (use that [of "cd_device c"] in \<open>simp add: returnM_def\<close>)
  then show ?thesis
    using x by (auto simp: evict_lru_def bindM_def getM_def liftM_def unwrap_def modifyM_def cache_modify_def)
qed

text \<open>The new block is stored; a full cache drops the first block of the list.\<close>

lemma fwd_insert:
  assumes inv: "cd_inv inv blks c" and L: "fwd_pending X c L x" and f: "cb_more_recent f = INVALID_ADDRESS"
    and two: "cd_size c \<le> cd_cached_count c \<Longrightarrow> 2 \<le> length L"
  defines "L' \<equiv> if cd_size c \<le> cd_cached_count c then tl L else L"
  shows "\<exists>c'. cached_insert ops x f c = (Ok (), c') \<and> fwd_list X c' (L' @ [x]) \<and> cd_size c' = cd_size c \<and>
      (\<forall>k \<in> X. cd_cache c' k = cd_cache c k) \<and> cd_cache c' x = Some f \<and>
      (L' = L \<or> 2 \<le> length L' \<longrightarrow> less_of c' (last L) = less_of c (last L))"
proof (cases "cd_size c \<le> cd_cached_count c")
  case False
  let ?c' = "c\<lparr>cd_cached_count := cd_cached_count c + 1, cd_cache := (cd_cache c)(x \<mapsto> f)\<rparr>"
  have "cached_insert ops x f c = (Ok (), ?c')"
    using False by (simp add: cached_insert_def bindM_def getM_def modifyM_def returnM_def)
  moreover have "fwd_list X ?c' (L @ [x])" using L f False by (auto simp: fwd_list_def fwd_pending_def)
  moreover have "\<forall>k \<in> X. cd_cache ?c' k = cd_cache c k" using L by (auto simp: fwd_pending_def)
  moreover have "last L \<noteq> x" using L last_in_set [of L] unfolding fwd_pending_def by blast
  ultimately show ?thesis using False by (intro exI [of _ ?c']) (simp add: L'_def less_of_def)
next
  case True
  obtain y z ys where ys: "L = y # z # ys" using two [OF True] by (cases L; cases "tl L") auto
  obtain ey ez where yz: "cd_cache c y = Some ey" "cb_more_recent ey = z" "cd_cache c z = Some ez"
    using L unfolding ys fwd_pending_def by auto
  have dst: "distinct L" "y \<noteq> z" "cd_lru c = y" "x \<notin> set L" using L ys by (auto simp: fwd_pending_def)
  let ?m = "(cd_cache c)(z \<mapsto> ez\<lparr>cb_less_recent := INVALID_ADDRESS\<rparr>)"
  from fwd_evict [OF inv yz dst(3,2)] obtain d' where
    ev: "evict_lru ops c = (Ok (), c\<lparr>cd_device := d', cd_lru := z, cd_cache := ?m(y := None), cd_cached_count := cd_cached_count c - 1\<rparr>)" by auto
  let ?c' = "c\<lparr>cd_device := d', cd_lru := z, cd_cached_count := cd_cached_count c - 1 + 1, cd_cache := ?m(y := None, x \<mapsto> f)\<rparr>"
  have "cached_insert ops x f c = (Ok (), ?c')"
    using True ev by (simp add: cached_insert_def bindM_def getM_def modifyM_def)
  moreover have "fwd ?m (z # ys) x"
    using L yz(3) unfolding ys by (intro fwd_same_more [of _ _ _ z ez]) (auto simp: fwd_pending_def)
  then have "fwd (?m(y := None, x \<mapsto> f)) (z # ys) x"
    using dst(1,4) by (subst fwd_other, simp add: ys, subst fwd_other) (simp_all add: ys)
  then have "fwd (?m(y := None, x \<mapsto> f)) ((z # ys) @ [x]) INVALID_ADDRESS" using f unfolding fwd_append by simp
  then have "fwd_list X ?c' ((z # ys) @ [x])"
    using L True yz dst unfolding ys by (auto simp: fwd_list_def fwd_pending_def simp del: fwd.simps fwd_append)
  moreover have "\<forall>k \<in> X. cd_cache ?c' k = cd_cache c k" using L unfolding ys by (auto simp: fwd_pending_def)
  moreover have "less_of ?c' (last L) = less_of c (last L)" if "ys \<noteq> []"
  proof -
    have "last L \<in> set ys" using that unfolding ys by simp
    then have "last L \<noteq> x" "last L \<noteq> y" "last L \<noteq> z" using dst unfolding ys by auto
    then show ?thesis by (simp add: less_of_def)
  qed
  ultimately show ?thesis
    using True unfolding L'_def ys by (intro exI [of _ ?c']) (auto simp: Suc_le_eq)
qed

lemma fwd_miss:
  assumes inv: "cd_inv inv blks c" and L: "fwd_list X c L" and x: "x \<notin> set L \<union> X" "unat x < length (blks (cd_device c))"
    and two: "cd_size c \<le> cd_cached_count c \<Longrightarrow> 2 \<le> length L"
  defines "L' \<equiv> if cd_size c \<le> cd_cached_count c then tl L else L"
  shows "\<exists>c'. cached_read_block ops x c = (Ok (cd_blocks blks c ! unat x), c') \<and> cd_inv inv blks c' \<and> cd_blocks blks c' = cd_blocks blks c \<and>
    fwd_list X c' (L' @ [x]) \<and> cd_size c' = cd_size c \<and> (\<forall>k \<in> X. cd_cache c' k = cd_cache c k) \<and>
    less_of c' x = Some (last L) \<and> (L' = L \<or> 2 \<le> length L' \<longrightarrow> less_of c' (last L) = less_of c (last L))"
proof -
  have d: "inv (cd_device c)" using inv by (simp add: cd_inv_def)
  have none: "cd_cache c x = None" "cd_mru c = last L" using L x(1) by (auto simp: fwd_list_def)
  from read_ok [OF d x(2)] obtain d1 where d1: "read_block ops x (cd_device c) = (Ok (blks (cd_device c) ! unat x), d1)"
    "inv d1" "blks d1 = blks (cd_device c)" by auto
  let ?b = "blks (cd_device c) ! unat x" and ?c = "c\<lparr>cd_device := d1\<rparr>" let ?f = "fresh_entry ?b False (cd_mru c)"
  have "fwd_list X ?c L" using L by (simp add: fwd_list_def)
  from fwd_miss_update [OF this x(1) valid_address [OF d x(2)]] obtain c1 where m: "miss_update x ?c = (Ok (), c1)"
    and c1: "fwd_pending X c1 L x" "same_data ?c c1" "\<forall>k \<in> X. cd_cache c1 k = cd_cache c k" "less_of c1 = less_of ?c" by auto
  have "cd_inv inv blks ?c" using inv d1 by (simp add: cd_inv_def)
  then have i1: "cd_inv inv blks c1" "cd_size c1 = cd_size c" "cd_cached_count c1 = cd_cached_count c"
    using same_data_inv [OF c1(2), of inv blks] c1(2) by (simp_all add: same_data_def)
  from fwd_insert [OF i1(1) c1(1), of ?f] two obtain c' where i: "cached_insert ops x ?f c1 = (Ok (), c')"
    and c': "fwd_list X c' (L' @ [x])" "cd_size c' = cd_size c" "\<forall>k \<in> X. cd_cache c' k = cd_cache c1 k" "cd_cache c' x = Some ?f"
    "L' = L \<or> 2 \<le> length L' \<longrightarrow> less_of c' (last L) = less_of c1 (last L)"
    unfolding i1(2,3) L'_def by (auto simp: fresh_entry_def)
  have run: "cached_read_block ops x c = (Ok ?b, c')"
    using none(1) d1(1) m i by (simp add: cached_read_block_def bindM_def getM_def zoomM_def returnM_def)
  have "less_of c' x = Some (last L)" using c'(4) none(2) by (simp add: less_of_def fresh_entry_def)
  moreover have "less_of c1 = less_of c" using c1(4) by (simp add: less_of_def fun_eq_iff)
  ultimately show ?thesis using run partial.cached_read_partial [OF inv x(2) run] c' c1(3) by auto
qed

text \<open>Reading uncached blocks moves the list along; the blocks off the list stay as they are.\<close>

lemma fwd_reads:
  assumes "cd_inv inv blks c" "fwd_list X c L" "distinct xs" "set xs \<inter> (set L \<union> X) = {}" "2 + card X \<le> cd_size c"
    and "\<forall>x \<in> set xs. unat x < length (blks (cd_device c))"
  defines "k \<equiv> cd_size c - card X"
  shows "\<exists>out c'. run_accesses (cached_ops ops ord) (map Read xs) c = (Ok out, c') \<and>
    fwd_list X c' (drop (length (L @ xs) - k) (L @ xs)) \<and> (\<forall>k \<in> X. cd_cache c' k = cd_cache c k)"
  using assms(1-6) unfolding k_def
proof (induction xs arbitrary: c L)
  case Nil
  then show ?case by (auto simp: returnM_def fwd_list_def)
next
  case (Cons x xs)
  let ?k = "cd_size c - card X" and ?L = "if cd_size c \<le> cd_cached_count c then tl L else L"
  have len: "length L \<le> ?k" "cd_cached_count c = length L + card X" "L \<noteq> []" using Cons.prems(2) by (auto simp: fwd_list_def)
  have x: "x \<notin> set L \<union> X" "unat x < length (blks (cd_device c))" using Cons.prems(4,6) by auto
  have "2 \<le> length L" if "cd_size c \<le> cd_cached_count c" using that len(2) Cons.prems(5) by linarith
  from fwd_miss [OF Cons.prems(1,2) x this] obtain c1 where c1: "cached_read_block ops x c = (Ok (cd_blocks blks c ! unat x), c1)"
    "cd_inv inv blks c1" "cd_blocks blks c1 = cd_blocks blks c" "fwd_list X c1 (?L @ [x])" "cd_size c1 = cd_size c"
    "\<forall>k \<in> X. cd_cache c1 k = cd_cache c k" by blast
  have same: "length (blks (cd_device c1)) = length (blks (cd_device c))" using c1(3) by (metis length_cd_blocks)
  have sub: "set (?L @ [x]) \<subseteq> insert x (set L)" using list.set_sel(2) [OF len(3)] by auto
  have dis: "set xs \<inter> (set (?L @ [x]) \<union> X) = {}" using Cons.prems(3,4) sub by auto
  from Cons.IH [OF c1(2,4) _ dis, of] Cons.prems(3,5,6) same c1(5) obtain out c' where
    rest: "run_accesses (cached_ops ops ord) (map Read xs) c1 = (Ok out, c')"
    "fwd_list X c' (drop (length ((?L @ [x]) @ xs) - ?k) ((?L @ [x]) @ xs))" "\<forall>k \<in> X. cd_cache c' k = cd_cache c1 k" by auto
  have "drop (length ((?L @ [x]) @ xs) - ?k) ((?L @ [x]) @ xs) = drop (length (L @ x # xs) - ?k) (L @ x # xs)"
  proof (cases "cd_size c \<le> cd_cached_count c")
    case True
    then have "?k = length L" using len by linarith
    then show ?thesis using True len(3) by (cases L) (auto simp: Suc_diff_le)
  qed simp
  with rest c1(1,6) show ?case by (auto simp: bindM_Ok returnM_def)
qed

end


section \<open>A repeated access\<close>

text \<open>The most recently used block becomes its own neighbour.\<close>

lemma repeat_hit:
  assumes L: "fwd_list X c L" and n: "last L = n"
  shows "\<exists>buf c'. cached_read_block ops n c = (Ok buf, c') \<and> fwd_list X c' L \<and> less_of c' n = Some n \<and> cd_size c' = cd_size c"
proof -
  obtain ys where ys: "L = ys @ [n]" using L n by (metis append_butlast_last_id fwd_list_def)
  obtain e where e: "cd_cache c n = Some e" "cb_more_recent e = INVALID_ADDRESS" using L ys by (auto simp: fwd_list_def)
  let ?c = "c\<lparr>cd_cache := (cd_cache c)(n \<mapsto> e\<lparr>cb_more_recent := INVALID_ADDRESS, cb_less_recent := n\<rparr>)\<rparr>"
  have "c\<lparr>cd_mru := n\<rparr> = c" using L ys by (simp add: fwd_list_def)
  then have "cached_read_block ops n c = (Ok (cb_data e), ?c)"
    using L ys e by (cases c) (simp add: fwd_list_def cached_read_block_def cached_touch_def Let_def bindM_def getM_def modifyM_def
        cache_modify_def liftM_def unwrap_def returnM_def)
  moreover have "fwd_list X ?c L" using L ys e by (auto simp: fwd_list_def)
  ultimately show ?thesis by (auto simp: less_of_def)
qed

text \<open>
  A hit on a block that is its own neighbour, with \<open>m\<close> accessed since: \<open>m\<close> is no longer on the list, although its
  \<open>more_recent\<close> address is \<open>n\<close>.
\<close>

lemma orphan_hit:
  assumes F: "fwd_list {} c (L @ [n, m])" and L: "L \<noteq> []" and n: "less_of c n = Some n"
  shows "\<exists>buf c'. cached_read_block ops n c = (Ok buf, c') \<and> fwd_list {m} c' (L @ [n]) \<and>
    (\<exists>e. cd_cache c' m = Some e \<and> cb_more_recent e = n) \<and> cd_size c' = cd_size c"
proof -
  obtain en em where e: "cd_cache c n = Some en" "cb_more_recent en = m" "cb_less_recent en = n" "cd_cache c m = Some em"
    using F n by (auto simp: fwd_list_def less_of_def)
  have d: "n \<noteq> m" "n \<noteq> INVALID_ADDRESS" "m \<noteq> INVALID_ADDRESS" "hd L \<noteq> n" "cd_lru c = hd L" "cd_mru c = m" "n \<notin> set L" "m \<notin> set L"
    using F L by (auto simp: fwd_list_def)
  let ?m = "(cd_cache c)(m \<mapsto> em\<lparr>cb_less_recent := n, cb_more_recent := n\<rparr>, n \<mapsto> en\<lparr>cb_more_recent := INVALID_ADDRESS, cb_less_recent := m\<rparr>)"
  let ?c = "c\<lparr>cd_cache := ?m, cd_mru := n\<rparr>"
  have "cached_read_block ops n c = (Ok (cb_data en), ?c)"
    using e d by (simp add: cached_read_block_def cached_touch_def Let_def bindM_def getM_def modifyM_def
        cache_modify_def liftM_def unwrap_def returnM_def fun_upd_twist)
  moreover have "fwd_list {m} ?c (L @ [n])" using F L d by (auto simp: fwd_list_def)
  moreover have "\<exists>e. cd_cache ?c m = Some e \<and> cb_more_recent e = n" using d(1) by simp
  ultimately show ?thesis by auto
qed

lemma links_back:
  assumes "links m p xs INVALID_ADDRESS" "x \<in> set xs" "m x = Some e" "cb_more_recent e = y" "y \<noteq> INVALID_ADDRESS"
  shows "map_option cb_less_recent (m y) = Some x"
proof -
  from assms(2) obtain as bs where xs: "xs = as @ x # bs" by (meson split_list)
  with assms have "first_of bs INVALID_ADDRESS = y" by simp
  with assms(5) obtain bs' where "bs = y # bs'" by (cases bs) auto
  with assms(1,3) xs show ?thesis by (auto split: option.splits)
qed

text \<open>Then no recency list threads the cache any more.\<close>

lemma orphan_no_chain:
  assumes F: "fwd_list {m} c (L @ [n])" and L: "L \<noteq> []" and m: "cd_cache c m = Some e" "cb_more_recent e = n"
  shows "\<not> chain c K"
proof
  assume K: "chain c K"
  have l: "last L \<in> set L" using L by simp
  have "fwd (cd_cache c) (butlast L @ [last L]) n" using F L by (simp add: fwd_list_def)
  then obtain el where el: "cd_cache c (last L) = Some el" "cb_more_recent el = n" by auto
  have "n \<noteq> INVALID_ADDRESS" "last L \<noteq> m" "m \<in> set K" "last L \<in> set K" using F K l by (auto simp: fwd_list_def chain_def)
  with links_back [of "cd_cache c" INVALID_ADDRESS K m e n] links_back [of "cd_cache c" INVALID_ADDRESS K "last L" el n] K m el
  show False by (simp add: chain_def)
qed

lemma missing_neighbour_panics:
  assumes "cd_cache c m = Some e" "cb_more_recent e = n" "n \<noteq> INVALID_ADDRESS" "cd_cache c n = None"
  shows "cached_read_block ops m c = (Panic, c)"
  using assms by (simp add: cached_read_block_def cached_touch_def Let_def bindM_def getM_def cache_modify_def)

lemma bindM_returnM_right: "bindM m returnM = m"
  by (rule ext) (simp add: bindM_def returnM_def split: res.split prod.split)

lemma run_accesses_append:
  "run_accesses ops (as @ bs) = bindM (run_accesses ops as) (\<lambda>xs. bindM (run_accesses ops bs) (\<lambda>ys. returnM (xs @ ys)))"
  by (induction ops as rule: run_accesses.induct) (simp_all add: bindM_assoc bindM_returnM bindM_returnM_right)

lemma lru_step_two:
  "2 \<le> cap \<Longrightarrow> L \<noteq> [] \<Longrightarrow> last L \<noteq> n \<Longrightarrow> \<exists>K. K \<noteq> [] \<and> lru_step cap L n = K @ [n]"
  by (cases L; cases "tl L") (auto simp: lru_step_def)

lemma set_lru_step: "set (lru_step cap L n) \<subseteq> insert n (set L)"
  using set_remove1_subset [of n L] list.set_sel(2) [of L] by (cases L) (auto simp: lru_step_def)

lemma set_lru_list: "set (foldl (lru_step cap) L ns) \<subseteq> set L \<union> set ns"
proof (induction ns arbitrary: L)
  case (Cons n ns)
  have "set (foldl (lru_step cap) (lru_step cap L n) ns) \<subseteq> set (lru_step cap L n) \<union> set ns" by (rule Cons)
  then show ?case using set_lru_step [of cap L n] by auto
qed simp

lemma lru_list_last: "ns \<noteq> [] \<Longrightarrow> foldl (lru_step cap) L ns \<noteq> [] \<and> last (foldl (lru_step cap) L ns) = last ns"
  by (cases ns rule: rev_cases) (auto simp: lru_step_def)

lemma lru_list_two:
  assumes "2 \<le> cap" "distinct_adj ns" "2 \<le> length ns"
  shows "\<exists>K. K \<noteq> [] \<and> foldl (lru_step cap) [] ns = K @ [last ns]"
proof -
  obtain ms n where ms: "ns = ms @ [n]" "ms \<noteq> []" using assms(3) by (cases ns rule: rev_cases) force+
  then have "last ms \<noteq> n" using assms(2) by (auto simp: distinct_adj_append_iff)
  with lru_step_two [OF assms(1), of "foldl (lru_step cap) [] ms" n] lru_list_last [OF ms(2), of cap "[]"] show ?thesis
    by (simp add: ms(1))
qed

context block_device
begin

text \<open>From a well-threaded cache: the block used last again, an uncached block, the first block again.\<close>

lemma repeat_orphans:
  assumes inv: "cd_inv inv blks c" and ch: "chain c (K @ [n])" and K: "K \<noteq> []" and cap: "3 \<le> cd_size c"
    and m: "m \<notin> set (K @ [n])" "unat m < length (blks (cd_device c))"
  shows "\<exists>out c' K' e. run_accesses (cached_ops ops ord) [Read n, Read m, Read n] c = (Ok out, c') \<and> cd_inv inv blks c' \<and>
    cd_blocks blks c' = cd_blocks blks c \<and> cd_size c' = cd_size c \<and> K' \<noteq> [] \<and> set K' \<subseteq> set K \<and> fwd_list {m} c' (K' @ [n]) \<and>
    cd_cache c' m = Some e \<and> cb_more_recent e = n"
proof -
  have "n \<in> dom (cd_cache c)" using ch by (simp add: chain_def)
  then have n: "unat n < length (blks (cd_device c))" using inv by (auto simp: cd_inv_def entry_ok_def)
  from repeat_hit [OF chain_fwd_list [OF ch], of n ops] obtain b1 c1 where c1: "cached_read_block ops n c = (Ok b1, c1)"
    "fwd_list {} c1 (K @ [n])" "less_of c1 n = Some n" "cd_size c1 = cd_size c" by auto
  note i1 = partial.cached_read_partial [OF inv n c1(1)]
  have l1: "length (blks (cd_device c1)) = length (blks (cd_device c))" using i1 by (metis length_cd_blocks)
  have cnt: "cd_cached_count c1 = length K + 1" using c1(2) by (simp add: fwd_list_def)
  define K' where "K' = (if cd_size c1 \<le> cd_cached_count c1 then tl K else K)"
  have K': "(if cd_size c1 \<le> cd_cached_count c1 then tl (K @ [n]) else K @ [n]) = K' @ [n]" "K' \<noteq> []" "set K' \<subseteq> set K"
    using K cap cnt c1(4) list.set_sel(2) [OF K] by (cases K; auto simp: K'_def)+
  have two: "cd_size c1 \<le> cd_cached_count c1 \<Longrightarrow> 2 \<le> length (K @ [n])" using K by (cases K) auto
  from fwd_miss [OF conjunct1 [OF conjunct2 [OF i1]] c1(2) _ _ two, of m] m l1 obtain c2 where
    c2: "cached_read_block ops m c1 = (Ok (cd_blocks blks c1 ! unat m), c2)" "cd_inv inv blks c2" "cd_blocks blks c2 = cd_blocks blks c1"
    "fwd_list {} c2 (K' @ [n, m])" "cd_size c2 = cd_size c1"
    "K' @ [n] = K @ [n] \<or> 2 \<le> length (K' @ [n]) \<longrightarrow> less_of c2 n = less_of c1 n" unfolding K'(1) by auto
  have "2 \<le> length (K' @ [n])" using K'(2) by (cases K') auto
  then have "less_of c2 n = Some n" using c2(6) c1(3) by simp
  from orphan_hit [OF c2(4) K'(2) this, of ops] obtain b3 c3 e where c3: "cached_read_block ops n c2 = (Ok b3, c3)"
    "fwd_list {m} c3 (K' @ [n])" "cd_cache c3 m = Some e" "cb_more_recent e = n" "cd_size c3 = cd_size c2" by blast
  have "unat n < length (blks (cd_device c2))" using n l1 c2(3) by (metis length_cd_blocks)
  note i3 = partial.cached_read_partial [OF c2(2) this c3(1)]
  have "run_accesses (cached_ops ops ord) [Read n, Read m, Read n] c = (Ok [b1, cd_blocks blks c1 ! unat m, b3], c3)"
    using c1(1) c2(1) c3(1) by (simp add: bindM_Ok returnM_def)
  then show ?thesis using i1 i3 c2(3,5) c1(4) c3(2-5) K'(2,3) by auto
qed

end

text \<open>
  C26. Re-reading the most recently used block corrupts the recency list of a cache of three or more
  blocks, over any device that satisfies the block-device contract: after any script of in-range accesses
  without immediate repetitions (two accesses at least), read the block accessed last again, then a new
  block \<open>m\<close>, then the first one again. These reads return (so a repetition alone does not panic), but
  no recency list describes the cache any more. After as many further new blocks as push the old ones
  out, which are read without an error too, reading \<open>m\<close> panics.
\<close>

theorem cache_repeat_panics:
  assumes dev: "block_device ops blks dinv" and d: "dinv d" and cap: "3 \<le> cap"
    and as: "\<forall>a \<in> set as. access_ok (length (blks d)) a" "distinct_adj (map access_block as)" "2 \<le> length as"
    and m: "distinct (m # xs)" "set (m # xs) \<inter> access_block ` set as = {}" "\<forall>x \<in> set (m # xs). unat x < length (blks d)"
      "length xs = cap - 1"
  shows "\<exists>out c out' c'. run_accesses (cached_ops ops ord) (as @ map Read [access_block (last as), m, access_block (last as)]) (cached_new d cap) =
      (Ok out, c) \<and> (\<forall>L. \<not> chain c L) \<and>
    run_accesses (cached_ops ops ord) (map Read xs) c = (Ok out', c') \<and> read_block (cached_ops ops ord) m c' = (Panic, c')"
proof -
  let ?c = "cached_new d cap" and ?n = "access_block (last as)"
  have new: "cd_inv dinv blks ?c" "cd_blocks blks ?c = blks d" using d by (simp_all add: cd_inv_new)
  have sz: "cd_size ?c = cap" "cd_device ?c = d" using cap by (simp_all add: cached_new_def)
  from block_device.cached_script_runs [OF dev new(1) chain_new _ as(2), of ord, unfolded new(2) sz] as(1) obtain o0 c0 where
    c0: "run_accesses (cached_ops ops ord) as ?c = (Ok o0, c0)" "cd_inv dinv blks c0" "length (cd_blocks blks c0) = length (blks d)"
    "chain c0 (foldl (lru_step cap) [] (map access_block as))" "cd_size c0 = cap"
    by (metis length_spec_accesses)
  have ne: "as \<noteq> []" using as(3) by auto
  from lru_list_two [of cap, OF _ as(2)] cap as(3) obtain K where
    K: "K \<noteq> []" "foldl (lru_step cap) [] (map access_block as) = K @ [?n]" using ne by (auto simp: last_map)
  have sub: "set (K @ [?n]) \<subseteq> access_block ` set as" using set_lru_list [of cap "[]" "map access_block as"] unfolding K(2) by simp
  have "m \<notin> set (K @ [?n])" "unat m < length (blks (cd_device c0))" using m(2,3) sub c0(3) by auto
  from block_device.repeat_orphans [OF dev c0(2) c0(4) [unfolded K(2)] K(1) _ this, of ord] cap c0(5) obtain o1 c1 K' e where
    c1: "run_accesses (cached_ops ops ord) [Read ?n, Read m, Read ?n] c0 = (Ok o1, c1)" "cd_inv dinv blks c1"
    "cd_blocks blks c1 = cd_blocks blks c0" "cd_size c1 = cap" "K' \<noteq> []" "set K' \<subseteq> set K" "fwd_list {m} c1 (K' @ [?n])"
    "cd_cache c1 m = Some e" "cb_more_recent e = ?n" by auto
  have run: "run_accesses (cached_ops ops ord) (as @ map Read [?n, m, ?n]) ?c = (Ok (o0 @ o1), c1)"
    using c0(1) c1(1) by (simp add: run_accesses_append bindM_Ok returnM_def del: run_accesses.simps)
  have len: "length (blks (cd_device c1)) = length (blks d)" using c1(3) c0(3) by (metis length_cd_blocks)
  have "set (K' @ [?n]) \<subseteq> access_block ` set as" using sub c1(6) by auto
  moreover have "set xs \<inter> access_block ` set as = {}" "m \<notin> set xs" using m(1,2) by auto
  ultimately have "set xs \<inter> (set (K' @ [?n]) \<union> {m}) = {}" by blast
  from block_device.fwd_reads [OF dev c1(2,7) _ this, of ord] m(1,3) cap c1(4) len obtain o2 c2 where
    c2: "run_accesses (cached_ops ops ord) (map Read xs) c1 = (Ok o2, c2)" "cd_cache c2 m = cd_cache c1 m"
    "fwd_list {m} c2 (drop (length ((K' @ [?n]) @ xs) - (cap - 1)) ((K' @ [?n]) @ xs))" by auto
  have xs: "drop (length ((K' @ [?n]) @ xs) - (cap - 1)) ((K' @ [?n]) @ xs) = xs" using m(4) by simp
  have "dom (cd_cache c2) = insert m (set xs)" using c2(3) unfolding xs by (simp add: fwd_list_def)
  moreover have "?n \<notin> insert m (set xs)" using m(2) sub by auto
  ultimately have "cd_cache c2 ?n = None" by blast
  moreover have "?n \<noteq> INVALID_ADDRESS" using c1(7) by (auto simp: fwd_list_def)
  ultimately have "cached_read_block ops m c2 = (Panic, c2)" using missing_neighbour_panics c1(8,9) c2(2) by metis
  then show ?thesis using run c2(1) orphan_no_chain [OF c1(7,5,8,9)] by auto
qed

theorem cache_repeat_panics_witness:
  "\<exists>out c out' c'. run_accesses (cached_ops mem_ops (\<lambda>m. [])) (map Read [1, 2, 2, 3, 2]) (cached_new (mem_empty 6) 3) = (Ok out, c) \<and> (\<forall>L. \<not> chain c L) \<and>
    run_accesses (cached_ops mem_ops (\<lambda>m. [])) (map Read [4, 5]) c = (Ok out', c') \<and> read_block (cached_ops mem_ops (\<lambda>m. [])) 3 c' = (Panic, c')"
proof -
  have d: "mem_inv (mem_empty 6)" "length (md_blocks (mem_empty 6)) = 6" by (simp_all add: mem_empty_def mem_inv_def wf_blocks_def)
  have "\<forall>a \<in> set (map Read [1, 2]). access_ok (length (md_blocks (mem_empty 6))) a" by (simp add: d)
  from cache_repeat_panics [OF mem.block_device_axioms d(1) _ this, of 3 3 "[4, 5]" "\<lambda>m. []"] show ?thesis by (simp add: d)
qed

end
