(* ===== verification/Full_Cache.thy ===== *)
theory Full_Cache
  imports Cached_Device
begin

text \<open>
  A cached device whose cache is at least as large as its device. Nothing is ever evicted then, so the
  state of the threading does not matter as long as its addresses are cached ones: every access inside
  the device returns, repetitions included, and the cached device satisfies \<open>block_device\<close> whenever the inner
  device does. \<open>resize\<close> is not part of that contract, as it leaves the cache as it is.
\<close>


section \<open>Addresses inside the cache\<close>

definition links_in :: "u32 set \<Rightarrow> cached_block \<Rightarrow> bool" where
  "links_in E e \<longleftrightarrow> cb_more_recent e \<in> insert INVALID_ADDRESS E \<and> cb_less_recent e \<in> insert INVALID_ADDRESS E"

definition linked :: "u32 set \<Rightarrow> u32 set \<Rightarrow> 'd cached_device \<Rightarrow> bool" where
  "linked D E c \<longleftrightarrow> dom (cd_cache c) = D \<and> (\<forall>e \<in> ran (cd_cache c). links_in E e)"

definition same_rest :: "'d cached_device \<Rightarrow> 'd cached_device \<Rightarrow> bool" where
  "same_rest c c' \<longleftrightarrow> cd_device c' = cd_device c \<and> cd_size c' = cd_size c \<and> cd_cached_count c' = cd_cached_count c"

lemma same_rest_simps [simp]: "same_rest c c" "same_rest c (c\<lparr>cd_lru := a\<rparr>)" "same_rest c (c\<lparr>cd_mru := a\<rparr>)"
  by (simp_all add: same_rest_def)

lemma same_rest_trans: "same_rest a b \<Longrightarrow> same_rest b c \<Longrightarrow> same_rest a c"
  by (simp add: same_rest_def)

lemma linked_simps [simp]: "linked D E (c\<lparr>cd_lru := a\<rparr>) = linked D E c" "linked D E (c\<lparr>cd_mru := a\<rparr>) = linked D E c"
  "linked D E (c\<lparr>cd_device := d\<rparr>) = linked D E c"
  by (simp_all add: linked_def)

lemma linked_mono: "linked D E c \<Longrightarrow> E \<subseteq> E' \<Longrightarrow> linked D E' c"
  by (auto simp: linked_def links_in_def)

lemma linked_modify:
  assumes c: "linked D E c" and key: "key \<in> D" and f: "\<And>e. links_in E e \<Longrightarrow> links_in E (f e)"
  shows "\<exists>c'. cache_modify key f c = (Ok (), c') \<and> linked D E c' \<and> same_rest c c' \<and> cd_mru c' = cd_mru c"
proof -
  obtain e where e: "cd_cache c key = Some e" using c key by (auto simp: linked_def)
  moreover have "links_in E (f e)" using c e f by (auto simp: linked_def ran_def)
  moreover have "ran ((cd_cache c)(key \<mapsto> f e)) \<subseteq> insert (f e) (ran (cd_cache c))" by (auto simp: ran_def)
  ultimately show ?thesis
    using c key by (auto simp: cache_modify_def linked_def same_rest_def insert_absorb)
qed

lemma touch_linked:
  fixes c :: "'d cached_device"
  assumes c: "linked D D c" and b: "cd_cache c block = Some e" and mru: "cd_mru c \<in> D"
    and upd: "\<And>e. cb_more_recent (upd e) = cb_more_recent e \<and> cb_less_recent (upd e) = cb_less_recent e"
  shows "\<exists>c'. cached_touch block e upd c = (Ok (), c') \<and> linked D D c' \<and> same_rest c c' \<and> cd_mru c' = block"
proof -
  let ?a = "cb_more_recent e" and ?b = "cb_less_recent e"
  have e: "links_in D e" and block: "block \<in> D" using c b by (auto simp: linked_def ran_def)
  define relink :: "('d cached_device, unit) io" where "relink = (if ?a \<noteq> INVALID_ADDRESS
      then bindM (cache_modify ?a (\<lambda>e. e\<lparr>cb_less_recent := ?b\<rparr>))
             (\<lambda>_. if ?b \<noteq> INVALID_ADDRESS then cache_modify ?b (\<lambda>e. e\<lparr>cb_more_recent := ?a\<rparr>) else returnM ())
      else returnM ())"
  obtain c1 where c1: "relink c = (Ok (), c1)" "linked D D c1" "same_rest c c1" "cd_mru c1 = cd_mru c"
  proof (cases "?a = INVALID_ADDRESS")
    case False
    then have "?a \<in> D" using e by (simp add: links_in_def)
    from linked_modify [OF c this, of "\<lambda>x. x\<lparr>cb_less_recent := ?b\<rparr>"] e obtain c0 where
      c0: "cache_modify ?a (\<lambda>e. e\<lparr>cb_less_recent := ?b\<rparr>) c = (Ok (), c0)" "linked D D c0" "same_rest c c0" "cd_mru c0 = cd_mru c"
      by (auto simp: links_in_def)
    show ?thesis
    proof (cases "?b = INVALID_ADDRESS")
      case True
      then show ?thesis using that [of c0] c0 False by (simp add: relink_def bindM_Ok returnM_def)
    next
      case b: False
      then have "?b \<in> D" using e by (simp add: links_in_def)
      from linked_modify [OF c0(2) this, of "\<lambda>x. x\<lparr>cb_more_recent := ?a\<rparr>"] e obtain c1 where
        "cache_modify ?b (\<lambda>e. e\<lparr>cb_more_recent := ?a\<rparr>) c0 = (Ok (), c1)" "linked D D c1" "same_rest c0 c1" "cd_mru c1 = cd_mru c0"
        by (auto simp: links_in_def)
      then show ?thesis using that [of c1] c0 False b by (simp add: relink_def bindM_Ok same_rest_def)
    qed
  qed (use that [of c] c in \<open>simp add: relink_def returnM_def\<close>)
  define c2 where "c2 = (if cd_lru c1 = block \<and> ?a \<noteq> INVALID_ADDRESS then c1\<lparr>cd_lru := ?a\<rparr> else c1)"
  have c2: "linked D D c2" "same_rest c c2" "cd_mru c2 = cd_mru c" using c1 by (auto simp: c2_def same_rest_def)
  from linked_modify [OF c2(1) mru, of "\<lambda>e. e\<lparr>cb_more_recent := block\<rparr>"] block obtain c3 where
    c3: "cache_modify (cd_mru c) (\<lambda>e. e\<lparr>cb_more_recent := block\<rparr>) c2 = (Ok (), c3)" "linked D D c3" "same_rest c2 c3"
    by (auto simp: links_in_def)
  from linked_modify [OF c3(2) block, of "\<lambda>e. upd (e\<lparr>cb_more_recent := INVALID_ADDRESS, cb_less_recent := cd_mru c\<rparr>)"] mru upd
  obtain c4 where c4: "cache_modify block (\<lambda>e. upd (e\<lparr>cb_more_recent := INVALID_ADDRESS, cb_less_recent := cd_mru c\<rparr>)) c3 = (Ok (), c4)"
    "linked D D c4" "same_rest c3 c4" by (auto simp: links_in_def)
  have "cached_touch block e upd c = (Ok (), c4\<lparr>cd_mru := block\<rparr>)"
    unfolding cached_touch_def Let_def relink_def [symmetric] bindM_Ok [of relink c, OF c1(1)]
    by (simp add: bindM_def modifyM_def getM_def c2_def [symmetric] c2(3) c3(1) c4(1))
  moreover have "same_rest c c4" using c2(2) c3(3) c4(3) same_rest_trans by blast
  ultimately show ?thesis using c4(2) by (auto simp: same_rest_def)
qed

lemma miss_insert_linked:
  assumes c: "linked D D c" and mru: "if D = {} then cd_mru c = INVALID_ADDRESS else cd_mru c \<in> D" and D: "INVALID_ADDRESS \<notin> D"
    and block: "block \<notin> D" "cd_cached_count c < cd_size c"
  defines "D' \<equiv> insert block D"
  shows "\<exists>c'. bindM (miss_update block) (\<lambda>_. cached_insert ops block (fresh_entry buf dirty (cd_mru c))) c = (Ok (), c') \<and>
    linked D' D' c' \<and> cd_mru c' = block \<and> cd_device c' = cd_device c \<and> cd_size c' = cd_size c \<and>
    cd_cached_count c' = cd_cached_count c + 1"
proof -
  obtain c1 where c1: "miss_update block c = (Ok (), c1)" "linked D D' c1" "same_rest c c1" "cd_mru c1 = block"
  proof (cases "D = {}")
    case True
    then have "miss_update block c = (Ok (), c\<lparr>cd_lru := block, cd_mru := block\<rparr>)"
      using mru by (simp add: miss_update_def bindM_def getM_def modifyM_def)
    then show ?thesis
      using that linked_mono [OF c, of D'] by (auto simp: D'_def same_rest_def)
  next
    case False
    then have m: "cd_mru c \<in> D" "cd_mru c \<noteq> INVALID_ADDRESS" using mru D by auto
    have "linked D D' c" using c by (rule linked_mono) (auto simp: D'_def)
    from linked_modify [OF this m(1), of "\<lambda>e. e\<lparr>cb_more_recent := block\<rparr>"] obtain c0 where
      "cache_modify (cd_mru c) (\<lambda>e. e\<lparr>cb_more_recent := block\<rparr>) c = (Ok (), c0)" "linked D D' c0" "same_rest c c0"
      by (auto simp: links_in_def D'_def)
    then show ?thesis
      using that [of "c0\<lparr>cd_mru := block\<rparr>"] m(2) by (simp add: miss_update_def bindM_def getM_def modifyM_def same_rest_def)
  qed
  have "cd_mru c \<in> insert INVALID_ADDRESS D'" using mru by (auto simp: D'_def split: if_splits)
  then have fresh: "links_in D' (fresh_entry buf dirty (cd_mru c))" by (simp add: links_in_def fresh_entry_def)
  let ?c = "c1\<lparr>cd_cached_count := cd_cached_count c1 + 1, cd_cache := (cd_cache c1)(block \<mapsto> fresh_entry buf dirty (cd_mru c))\<rparr>"
  have "\<not> cd_size c1 \<le> cd_cached_count c1" using c1(3) block(2) by (simp add: same_rest_def)
  then have "cached_insert ops block (fresh_entry buf dirty (cd_mru c)) c1 = (Ok (), ?c)"
    by (simp add: cached_insert_def bindM_def getM_def modifyM_def returnM_def)
  moreover have "linked D' D' ?c" using c1(2) fresh by (auto simp: linked_def D'_def ran_def split: if_splits)
  ultimately show ?thesis using c1 by (simp add: bindM_Ok same_rest_def)
qed


section \<open>The contract\<close>

definition full_inv :: "('d \<Rightarrow> bool) \<Rightarrow> ('d \<Rightarrow> bytes list) \<Rightarrow> 'd cached_device \<Rightarrow> bool" where
  "full_inv dinv blks c \<longleftrightarrow>
     cd_inv dinv blks c \<and> linked (dom (cd_cache c)) (dom (cd_cache c)) c \<and>
     (if dom (cd_cache c) = {} then cd_mru c = INVALID_ADDRESS else cd_mru c \<in> dom (cd_cache c)) \<and>
     cd_cached_count c = card (dom (cd_cache c)) \<and> length (blks (cd_device c)) \<le> cd_size c"

lemma full_inv_new: "dinv d \<Longrightarrow> length (blks d) \<le> cap \<Longrightarrow> full_inv dinv blks (cached_new d cap)"
  using cd_inv_new [of dinv d blks cap] by (simp add: full_inv_def linked_def cached_new_def)

context block_device
begin

lemma cached_in_range:
  assumes "cd_inv inv blks c"
  shows "unat ` dom (cd_cache c) \<subseteq> {..<length (blks (cd_device c))}" "INVALID_ADDRESS \<notin> dom (cd_cache c)"
proof -
  show r: "unat ` dom (cd_cache c) \<subseteq> {..<length (blks (cd_device c))}" using assms by (auto simp: cd_inv_def entry_ok_def)
  have "inv (cd_device c)" using assms by (simp add: cd_inv_def)
  then show "INVALID_ADDRESS \<notin> dom (cd_cache c)" using r valid_address by fastforce
qed

lemma cache_has_room:
  assumes inv: "full_inv inv blks c" and n: "unat n < length (blks (cd_device c))" "cd_cache c n = None"
  shows "cd_cached_count c < cd_size c"
proof -
  let ?D = "dom (cd_cache c)"
  have "cd_inv inv blks c" using inv by (simp add: full_inv_def)
  from cached_in_range(1) [OF this] n have "unat ` insert n ?D \<subseteq> {..<length (blks (cd_device c))}" by auto
  then have "card (unat ` insert n ?D) \<le> length (blks (cd_device c))" using card_mono [of "{..<length (blks (cd_device c))}"] by simp
  moreover have "card (unat ` insert n ?D) = card (insert n ?D)" by (intro card_image inj_onI) (simp add: word_unat_eq_iff)
  moreover have "card (insert n ?D) = card ?D + 1" using n(2) by (simp add: domIff)
  ultimately show ?thesis using inv by (simp add: full_inv_def)
qed

lemma full_miss:
  assumes inv: "full_inv inv blks c" and n: "unat n < length (blks (cd_device c))" "cd_cache c n = None"
  shows "\<exists>c'. bindM (miss_update n) (\<lambda>_. cached_insert ops n (fresh_entry buf dirty (cd_mru c))) c = (Ok (), c') \<and>
    linked (insert n (dom (cd_cache c))) (insert n (dom (cd_cache c))) c' \<and> cd_mru c' = n \<and>
    cd_device c' = cd_device c \<and> cd_size c' = cd_size c \<and> cd_cached_count c' = card (insert n (dom (cd_cache c)))"
proof -
  have F: "linked (dom (cd_cache c)) (dom (cd_cache c)) c"
    "if dom (cd_cache c) = {} then cd_mru c = INVALID_ADDRESS else cd_mru c \<in> dom (cd_cache c)"
    "cd_cached_count c = card (dom (cd_cache c))" "cd_inv inv blks c" using inv unfolding full_inv_def by blast+
  have "n \<notin> dom (cd_cache c)" using n(2) by blast
  with miss_insert_linked [OF F(1,2) cached_in_range(2) [OF F(4)] this cache_has_room [OF inv n], of ops buf dirty] F(3)
  show ?thesis by simp
qed

lemma full_hit:
  assumes inv: "full_inv inv blks c" and e: "cd_cache c n = Some e"
    and upd: "\<And>e. cb_more_recent (upd e) = cb_more_recent e \<and> cb_less_recent (upd e) = cb_less_recent e"
  shows "\<exists>c'. cached_touch n e upd c = (Ok (), c') \<and> linked (dom (cd_cache c)) (dom (cd_cache c)) c' \<and> cd_mru c' = n \<and> same_rest c c'"
proof -
  have "linked (dom (cd_cache c)) (dom (cd_cache c)) c" "cd_mru c \<in> dom (cd_cache c)"
    using inv e unfolding full_inv_def by (auto split: if_splits)
  from touch_linked [OF this(1) e this(2) upd] show ?thesis by blast
qed

lemma full_invI:
  assumes "full_inv inv blks c" "cd_inv inv blks c'" "linked D D c'" "cd_mru c' = n" "n \<in> D"
    "cd_cached_count c' = card D" "cd_size c' = cd_size c" "length (cd_blocks blks c') = length (cd_blocks blks c)"
  shows "full_inv inv blks c'"
  using assms by (auto simp: full_inv_def linked_def)

lemma full_read:
  assumes inv: "full_inv inv blks c" and n: "unat n < length (blks (cd_device c))"
  shows "\<exists>c'. cached_read_block ops n c = (Ok (cd_blocks blks c ! unat n), c') \<and> full_inv inv blks c' \<and> cd_blocks blks c' = cd_blocks blks c"
proof -
  have ci: "cd_inv inv blks c" and cnt: "cd_cached_count c = card (dom (cd_cache c))" using inv by (simp_all add: full_inv_def)
  have "\<exists>buf c'. cached_read_block ops n c = (Ok buf, c') \<and> linked (insert n (dom (cd_cache c))) (insert n (dom (cd_cache c))) c' \<and>
      cd_mru c' = n \<and> cd_size c' = cd_size c \<and> cd_cached_count c' = card (insert n (dom (cd_cache c)))"
  proof (cases "cd_cache c n")
    case (Some e)
    from full_hit [OF inv Some, of id] obtain c' where c': "cached_touch n e id c = (Ok (), c')"
      "linked (dom (cd_cache c)) (dom (cd_cache c)) c'" "cd_mru c' = n" "same_rest c c'" by auto
    have D: "insert n (dom (cd_cache c)) = dom (cd_cache c)" using Some by auto
    obtain e' where "cd_cache c' n = Some e'" using c'(2) Some by (auto simp: linked_def)
    then show ?thesis
      using Some c' cnt unfolding D
      by (simp add: cached_read_block_def bindM_def getM_def liftM_def unwrap_def returnM_def same_rest_def)
  next
    case None
    have d: "inv (cd_device c)" using ci by (simp add: cd_inv_def)
    from read_ok [OF d n] obtain d1 where d1: "read_block ops n (cd_device c) = (Ok (blks (cd_device c) ! unat n), d1)"
      "inv d1" "blks d1 = blks (cd_device c)" by auto
    let ?c = "c\<lparr>cd_device := d1\<rparr>"
    have "full_inv inv blks ?c" using inv d1 by (simp add: full_inv_def cd_inv_def)
    from full_miss [OF this, of n "blks (cd_device c) ! unat n" False] n None d1(3) obtain c' where
      "bindM (miss_update n) (\<lambda>_. cached_insert ops n (fresh_entry (blks (cd_device c) ! unat n) False (cd_mru c))) ?c = (Ok (), c')"
      "linked (insert n (dom (cd_cache c))) (insert n (dom (cd_cache c))) c'" "cd_mru c' = n" "cd_size c' = cd_size c"
      "cd_cached_count c' = card (insert n (dom (cd_cache c)))" by auto
    then show ?thesis
      using None d1 by (auto simp: cached_read_block_def bindM_eq_Ok getM_def zoomM_def returnM_def)
  qed
  then obtain buf c' where c': "cached_read_block ops n c = (Ok buf, c')" "linked (insert n (dom (cd_cache c))) (insert n (dom (cd_cache c))) c'"
    "cd_mru c' = n" "cd_size c' = cd_size c" "cd_cached_count c' = card (insert n (dom (cd_cache c)))" by blast
  note P = partial.cached_read_partial [OF ci n c'(1)]
  have "full_inv inv blks c'" by (rule full_invI [OF inv _ c'(2,3) _ c'(5,4)]) (use P in simp_all)
  then show ?thesis using P c'(1) by simp
qed

lemma full_write:
  assumes inv: "full_inv inv blks c" and n: "unat n < length (blks (cd_device c))" and len: "length buf = BLOCK_SIZE"
  shows "\<exists>c'. cached_write_block ops n buf c = (Ok (), c') \<and> full_inv inv blks c' \<and> cd_blocks blks c' = (cd_blocks blks c)[unat n := buf]"
proof -
  have ci: "cd_inv inv blks c" and cnt: "cd_cached_count c = card (dom (cd_cache c))" using inv by (simp_all add: full_inv_def)
  have "\<exists>c'. cached_write_block ops n buf c = (Ok (), c') \<and> linked (insert n (dom (cd_cache c))) (insert n (dom (cd_cache c))) c' \<and>
      cd_mru c' = n \<and> cd_size c' = cd_size c \<and> cd_cached_count c' = card (insert n (dom (cd_cache c)))"
  proof (cases "cd_cache c n")
    case (Some e)
    have D: "insert n (dom (cd_cache c)) = dom (cd_cache c)" using Some by auto
    from full_hit [OF inv Some, of "\<lambda>e. e\<lparr>cb_dirty := True, cb_data := buf\<rparr>"] show ?thesis
      using Some cnt unfolding D by (auto simp: cached_write_block_def bindM_def getM_def same_rest_def)
  next
    case None
    from full_miss [OF inv n None, of buf True] None show ?thesis
      by (auto simp: cached_write_block_def bindM_def [of "getM _"] getM_def)
  qed
  then obtain c' where c': "cached_write_block ops n buf c = (Ok (), c')" "linked (insert n (dom (cd_cache c))) (insert n (dom (cd_cache c))) c'"
    "cd_mru c' = n" "cd_size c' = cd_size c" "cd_cached_count c' = card (insert n (dom (cd_cache c)))" by blast
  note P = partial.cached_write_partial [OF ci n len c'(1)]
  have "full_inv inv blks c'" by (rule full_invI [OF inv _ c'(2,3) _ c'(5,4)]) (use P in simp_all)
  then show ?thesis using P c'(1) by simp
qed

lemma flush_linked:
  "foldM (flush_entry ops) ks u c = (Ok v, c') \<Longrightarrow> linked D D c \<Longrightarrow>
   linked D D c' \<and> cd_mru c' = cd_mru c \<and> cd_size c' = cd_size c \<and> cd_cached_count c' = cd_cached_count c"
proof (induction ks arbitrary: c u)
  case (Cons k ks)
  obtain w c1 where c1: "flush_entry ops k u c = (Ok w, c1)" "foldM (flush_entry ops) ks w c1 = (Ok v, c')"
    using Cons.prems(1) by (auto simp: bindM_eq_Ok)
  have "linked D D c1 \<and> cd_mru c1 = cd_mru c \<and> cd_size c1 = cd_size c \<and> cd_cached_count c1 = cd_cached_count c"
  proof (cases "c1 = c")
    case False
    with c1(1) obtain e d where e: "cd_cache c k = Some e" "c1 = c\<lparr>cd_device := d, cd_cache := (cd_cache c)(k \<mapsto> e\<lparr>cb_dirty := False\<rparr>)\<rparr>"
      by (auto simp: flush_entry_def bindM_eq_Ok getM_def returnM_def on_dev_Ok cache_modify_Ok split: option.splits if_splits)
    have "cache_modify k (\<lambda>e. e\<lparr>cb_dirty := False\<rparr>) (c\<lparr>cd_device := d\<rparr>) = (Ok (), c1)" using e by (simp add: cache_modify_def)
    moreover have "k \<in> D" using e(1) Cons.prems(2) by (auto simp: linked_def)
    ultimately show ?thesis
      using linked_modify [of D D "c\<lparr>cd_device := d\<rparr>" k "\<lambda>e. e\<lparr>cb_dirty := False\<rparr>"] Cons.prems(2)
      by (auto simp: links_in_def same_rest_def)
  qed (use Cons.prems(2) in simp)
  with Cons.IH [OF c1(2)] show ?case by simp
qed (simp add: returnM_def)

text \<open>The cached device is a block device, and the properties of block devices hold for it.\<close>

lemma full_cache_device: "block_device (cached_ops ops ord) (cd_blocks blks) (full_inv inv blks)"
proof
  fix c assume inv: "full_inv inv blks c"
  then have ci: "cd_inv inv blks c" by (simp add: full_inv_def)
  note P = partial.cached_partial_device [of ord]
  show "wf_blocks (cd_blocks blks c)" by (rule partial_device.wf [OF P ci])
  show "unat (block_count (cached_ops ops ord) c) = length (cd_blocks blks c)" by (rule partial_device.count [OF P ci])
  show "\<exists>c'. flush (cached_ops ops ord) c = (Ok (), c') \<and> full_inv inv blks c' \<and> cd_blocks blks c' = cd_blocks blks c"
  proof -
    from flush_keys_run [OF ci, of "ord (cd_cache c)" "()"] obtain c' where
      c': "foldM (flush_entry ops) (ord (cd_cache c)) () c = (Ok (), c')" "cd_inv inv blks c'" "cd_blocks blks c' = cd_blocks blks c" by blast
    have "linked (dom (cd_cache c)) (dom (cd_cache c)) c" using inv by (simp add: full_inv_def)
    note L = flush_linked [OF c'(1) this]
    have "length (blks (cd_device c')) = length (blks (cd_device c))" using c'(3) by (metis length_cd_blocks)
    then have "full_inv inv blks c'" using inv c'(2) L unfolding full_inv_def linked_def by auto
    then show ?thesis using c' by (auto simp: cached_flush_def bindM_def getM_def)
  qed
  fix n :: u32 assume "unat n < length (cd_blocks blks c)"
  then have n: "unat n < length (blks (cd_device c))" by simp
  show "\<exists>c'. read_block (cached_ops ops ord) n c = (Ok (cd_blocks blks c ! unat n), c') \<and> full_inv inv blks c' \<and>
      cd_blocks blks c' = cd_blocks blks c" using full_read [OF inv n] by simp
  show "\<exists>c'. write_block (cached_ops ops ord) n buf c = (Ok (), c') \<and> full_inv inv blks c' \<and>
      cd_blocks blks c' = (cd_blocks blks c)[unat n := buf]" if "length buf = BLOCK_SIZE" for buf
    using full_write [OF inv n that] by simp
qed

end

interpretation fullMem: block_device "cached_ops mem_ops ord" "cd_blocks md_blocks" "full_inv mem_inv md_blocks" for ord
  by (rule mem.full_cache_device)

end
