(* ===== verification/File_Type.thy ===== *)
theory File_Type
  imports Block_Device
begin

text \<open>
  The small shared types: \<^verbatim>\<open>src/src/file.rs\<close> (\<open>FileType\<close> and its one-byte encoding, the file
  handle), \<^verbatim>\<open>src/src/formats/v1/file.rs\<close> (open-file metadata), the directory listing of
  \<^verbatim>\<open>src/src/common.rs\<close> and the version field of \<^verbatim>\<open>src/src/fs_utils.rs\<close>.
\<close>

datatype file_type = File | Directory | Symlink | Unknown

record file_handle = fh_id :: u32

datatype open_file_mode = OM_Read | OM_Write | OM_ReadWrite

record file_metadata =
  fm_inode :: u32
  fm_offset :: u64
  fm_mode :: open_file_mode

definition file_metadata_new :: "u32 \<Rightarrow> open_file_mode \<Rightarrow> file_metadata" where
  "file_metadata_new inode mode = \<lparr>fm_inode = inode, fm_offset = 0, fm_mode = mode\<rparr>"

record directory_content_entry =
  dc_filename :: bytes
  dc_file_type :: file_type

fun file_type_to_le :: "file_type \<Rightarrow> bytes" where
  "file_type_to_le File = [0]"
| "file_type_to_le Directory = [1]"
| "file_type_to_le Symlink = [2]"
| "file_type_to_le Unknown = [3]"

definition file_type_from_le :: "bytes \<Rightarrow> file_type" where
  "file_type_from_le buf =
     (if buf ! 0 = 0 then File else if buf ! 0 = 1 then Directory
      else if buf ! 0 = 2 then Symlink else Unknown)"

datatype version = V1

definition read_version :: "bytes \<Rightarrow> version res" where
  "read_version buf =
     bindR (sliceR buf 8 4) (\<lambda>version_bytes.
     if u32_from_le version_bytes = 1 then Ok V1 else Panic)"

fun version_supports_fuse :: "version \<Rightarrow> bool" where
  "version_supports_fuse V1 = True"

lemma length_file_type_to_le [simp]: "length (file_type_to_le t) = 1"
  by (cases t) auto

lemma file_type_from_to_le [simp]: "file_type_from_le (file_type_to_le t) = t"
  by (cases t) (auto simp: file_type_from_le_def)

end
