(* ===== verification/Directory.thy ===== *)
theory Directory
  imports File_Type
begin

text \<open>
  Directory entries, \<^verbatim>\<open>src/src/formats/v1/directory.rs\<close>: variable-length records packed into the
  data blocks of a directory, free space included as records with an invalid inode. The fixed array
  \<open>name\<close> is a list of 64 bytes. \<open>encode\<close> is the on-disk image of an entry, as long as its
  \<open>record_len\<close>; \<open>dirent_ok\<close> the entries it represents faithfully.
\<close>

definition MAX_NAME :: nat where "MAX_NAME = 64"

record dir_entry =
  de_inode :: u32
  de_file_type :: file_type
  de_record_len :: u16
  de_name_len :: u16
  de_name :: bytes

definition min_record_len :: "u16 \<Rightarrow> u16 res" where
  "min_record_len name_len =
     bindR (addW (4 + 1 + 2 + 2) name_len) (\<lambda>r.
     bindR (addW r 3) (\<lambda>r. Ok (push_bit 2 (drop_bit 2 r))))"

definition min_free_size :: u16 where
  "min_free_size = push_bit 2 (drop_bit 2 (4 + 2 + 3))"

definition dir_entry_new :: "u32 \<Rightarrow> file_type \<Rightarrow> bytes \<Rightarrow> dir_entry res" where
  "dir_entry_new inode file_type name =
     (let name_len = min (length name) MAX_NAME;
          name_arr = splice (replicate MAX_NAME 0) 0 (take name_len name) in
      bindR (min_record_len (of_nat name_len)) (\<lambda>record_len.
      Ok \<lparr>de_inode = inode, de_file_type = file_type, de_record_len = record_len,
          de_name_len = of_nat name_len, de_name = name_arr\<rparr>))"

definition dir_entry_free :: "u16 \<Rightarrow> dir_entry" where
  "dir_entry_free sz =
     \<lparr>de_inode = INVALID_ADDRESS, de_file_type = File, de_record_len = max sz min_free_size,
      de_name_len = 0, de_name = replicate MAX_NAME 0\<rparr>"

definition is_free :: "dir_entry \<Rightarrow> bool" where "is_free e \<longleftrightarrow> de_inode e = INVALID_ADDRESS"

definition dir_entry_serialize :: "dir_entry \<Rightarrow> bytes \<Rightarrow> nat \<Rightarrow> bytes res" where
  "dir_entry_serialize e buf init_offset =
     bindR (write_fields buf init_offset [u32_to_le (de_inode e), u16_to_le (de_record_len e)]) (\<lambda>(buf, offset).
     bindR (if \<not> is_free e
            then bindR (write_fields buf offset [u16_to_le (de_name_len e), file_type_to_le (de_file_type e)])
                   (\<lambda>(buf, offset).
                 bindR (sliceR (de_name e) 0 (unat (de_name_len e))) (\<lambda>name.
                 bindR (spliceR buf offset name) (\<lambda>buf. Ok (buf, offset + unat (de_name_len e)))))
            else Ok (buf, offset)) (\<lambda>(buf, offset).
     if offset \<le> init_offset + unat (de_record_len e)
     then spliceR buf offset (replicate (init_offset + unat (de_record_len e) - offset) 0)
     else Panic))"

definition dir_entry_deserialize :: "bytes \<Rightarrow> nat \<Rightarrow> dir_entry res" where
  "dir_entry_deserialize buf init_offset =
     bindR (read_fields buf init_offset [4, 2, 2, 1]) (\<lambda>f.
     let offset = init_offset + 9;
         name_len = u16_from_le (f ! 2) in
     bindR (subN BLOCK_SIZE offset) (\<lambda>room.
     let len = min (min (unat name_len) room) MAX_NAME in
     bindR (sliceR buf offset len) (\<lambda>name.
     Ok \<lparr>de_inode = u32_from_le (f ! 0), de_file_type = file_type_from_le (f ! 3),
         de_record_len = u16_from_le (f ! 1), de_name_len = name_len,
         de_name = splice (replicate MAX_NAME 0) 0 name\<rparr>)))"

record directory =
  dy_inode :: u32
  dy_entries :: "dir_entry list"

definition directory_new :: "u32 \<Rightarrow> u32 \<Rightarrow> directory res" where
  "directory_new inode parent =
     bindR (dir_entry_new inode Directory [46]) (\<lambda>self_entry.
     bindR (dir_entry_new parent Directory [46, 46]) (\<lambda>parent_entry.
     bindR (subW (of_nat BLOCK_SIZE) (de_record_len self_entry)) (\<lambda>r.
     bindR (subW r (de_record_len parent_entry)) (\<lambda>r.
     Ok \<lparr>dy_inode = inode, dy_entries = [self_entry, parent_entry, dir_entry_free r]\<rparr>))))"


section \<open>The image of an entry\<close>

definition name_of :: "dir_entry \<Rightarrow> bytes" where
  "name_of e = take (unat (de_name_len e)) (de_name e)"

definition entry_head :: "dir_entry \<Rightarrow> bytes" where
  "entry_head e =
     u32_to_le (de_inode e) @ u16_to_le (de_record_len e) @
     (if is_free e then []
      else u16_to_le (de_name_len e) @ file_type_to_le (de_file_type e) @ name_of e)"

definition encode :: "dir_entry \<Rightarrow> bytes" where
  "encode e = entry_head e @ replicate (unat (de_record_len e) - length (entry_head e)) 0"

definition dirent_ok :: "dir_entry \<Rightarrow> bool" where
  "dirent_ok e \<longleftrightarrow>
     unat (de_record_len e) \<le> BLOCK_SIZE \<and> length (de_name e) = MAX_NAME \<and>
     (if is_free e then 9 \<le> unat (de_record_len e) \<and> e = dir_entry_free (de_record_len e)
      else unat (de_name_len e) \<le> MAX_NAME \<and> 9 + unat (de_name_len e) \<le> unat (de_record_len e) \<and>
        de_name e = name_of e @ replicate (MAX_NAME - unat (de_name_len e)) 0)"

abbreviation rec_len :: "dir_entry \<Rightarrow> nat" where "rec_len e \<equiv> unat (de_record_len e)"

lemma min_free_size_eq [simp]: "min_free_size = 8"
  by (simp add: min_free_size_def)

lemma align4: "unat (push_bit 2 (drop_bit 2 r) :: u16) = unat r div 4 * 4"
proof -
  have "unat (drop_bit 2 r) = unat r div 4" by (simp add: drop_bit_eq_div unat_div)
  moreover have "unat (push_bit 2 (drop_bit 2 r) :: u16) = unat (drop_bit 2 r * 4 :: u16)"
    by (simp add: push_bit_eq_mult)
  moreover have "unat r div 4 * 4 < 65536"
    using unat_u16_bound [of r] div_times_less_eq_dividend [of "unat r" 4] by linarith
  ultimately show ?thesis using unat_mult_small [of "drop_bit 2 r" 4] by simp
qed

lemma min_record_len_eq:
  assumes "unat n \<le> 64"
  shows "\<exists>r. min_record_len n = Ok r \<and> unat r = (unat n + 12) div 4 * 4"
proof -
  have a: "addW 9 n = Ok (9 + n)" "unat (9 + n) = unat n + 9"
    using assms unat_add_small [of 9 n] by (simp_all add: addW_def)
  have b: "addW (9 + n) 3 = Ok (9 + n + 3)" "unat (9 + n + 3) = unat n + 12"
    using assms a unat_add_small [of "9 + n" 3] by (simp_all add: addW_def)
  show ?thesis using a b align4 [of "9 + n + 3"] by (simp add: min_record_len_def)
qed

lemma length_name_of: "dirent_ok e \<Longrightarrow> \<not> is_free e \<Longrightarrow> length (name_of e) = unat (de_name_len e)"
  by (simp add: dirent_ok_def name_of_def)

lemma length_encode:
  assumes "dirent_ok e"
  shows "length (encode e) = rec_len e" "length (entry_head e) \<le> rec_len e"
proof -
  show "length (entry_head e) \<le> rec_len e"
    using assms length_name_of [OF assms] by (auto simp: entry_head_def dirent_ok_def)
  then show "length (encode e) = rec_len e" by (simp add: encode_def)
qed

lemma serialize_encode:
  assumes ok: "dirent_ok e" and buf: "length buf = BLOCK_SIZE" and fit: "off + rec_len e \<le> BLOCK_SIZE"
  shows "dir_entry_serialize e buf off = Ok (splice buf off (encode e))"
proof -
  note len = length_encode [OF ok]
  let ?h = "u32_to_le (de_inode e) @ u16_to_le (de_record_len e)"
  let ?t = "u16_to_le (de_name_len e) @ file_type_to_le (de_file_type e)"
  let ?z = "replicate (rec_len e - length (entry_head e)) (0 :: u8)"
  have head: "length (entry_head e) \<le> rec_len e" by (rule len(2))
  have w1: "write_fields buf off [u32_to_le (de_inode e), u16_to_le (de_record_len e)] =
      Ok (splice buf off ?h, off + 6)"
    using head fit buf by (subst write_fields_splice) (auto simp: entry_head_def split: if_splits)
  have lb: "length (splice buf off xs) = BLOCK_SIZE" if "length xs \<le> rec_len e" for xs
    using that fit buf by simp
  have final: "spliceR (splice buf off (entry_head e)) (off + length (entry_head e)) ?z = Ok (splice buf off (encode e))"
    using head fit buf lb [of "entry_head e"] splice_append [of off "entry_head e" ?z buf]
    by (simp add: spliceR_def encode_def)
  show ?thesis
  proof (cases "is_free e")
    case True
    then have h: "entry_head e = ?h" by (simp add: entry_head_def)
    then show ?thesis
      using True w1 final head by (simp add: dir_entry_serialize_def)
  next
    case False
    let ?n = "name_of e"
    have h: "entry_head e = (?h @ ?t) @ ?n" using False by (simp add: entry_head_def)
    have ln: "length ?n = unat (de_name_len e)" by (rule length_name_of [OF ok False])
    have sl: "sliceR (de_name e) 0 (unat (de_name_len e)) = Ok ?n"
      using ok False by (simp add: sliceR_def slice_def name_of_def dirent_ok_def)
    have w2: "write_fields (splice buf off ?h) (off + 6) [u16_to_le (de_name_len e), file_type_to_le (de_file_type e)] =
        Ok (splice buf off (?h @ ?t), off + 9)"
      using head fit buf h lb [of ?h] splice_append [of off ?h ?t buf]
      by (subst write_fields_splice) auto
    have w3: "spliceR (splice buf off (?h @ ?t)) (off + 9) ?n = Ok (splice buf off (entry_head e))"
      using head fit buf h lb [of "?h @ ?t"] splice_append [of off "?h @ ?t" ?n buf]
      by (simp add: spliceR_def)
    have lh: "length (entry_head e) = 9 + unat (de_name_len e)" using h ln by simp
    show ?thesis
      using False w1 w2 w3 sl final head lh by (simp add: dir_entry_serialize_def add.assoc)
  qed
qed

lemma encode_fields:
  assumes ok: "dirent_ok e"
  shows "take 9 (encode e) = concat [u32_to_le (de_inode e), u16_to_le (de_record_len e), u16_to_le (de_name_len e), file_type_to_le (de_file_type e)]"
proof (cases "is_free e")
  case True
  have nine: "9 \<le> rec_len e" using ok by (auto simp: dirent_ok_def split: if_splits)
  from True have "e = dir_entry_free (de_record_len e)" using ok by (simp add: dirent_ok_def)
  then have f: "de_name_len e = 0" "de_file_type e = File" by (metis dir_entry_free_def dir_entry.select_convs)+
  have "replicate (rec_len e - 6) (0 :: u8) = 0 # 0 # 0 # replicate (rec_len e - 9) 0"
    using nine by (simp add: numeral_eq_Suc Suc_diff_Suc flip: replicate_Suc)
  then show ?thesis using True f
    by (simp add: encode_def entry_head_def u16_to_le_def numeral_2_eq_2)
next
  case False
  then show ?thesis using length_name_of [OF ok] by (simp add: encode_def entry_head_def)
qed

lemma encode_name:
  assumes ok: "dirent_ok e" and img: "slice buf off (rec_len e) = encode e"
  defines "n \<equiv> unat (de_name_len e)"
  shows "n \<le> MAX_NAME" "slice buf (off + 9) n = take n (de_name e)" "9 + n \<le> rec_len e" "splice (replicate MAX_NAME 0) 0 (take n (de_name e)) = de_name e"
proof -
  have "n \<le> MAX_NAME \<and> slice buf (off + 9) n = take n (de_name e) \<and> 9 + n \<le> rec_len e \<and> splice (replicate MAX_NAME 0) 0 (take n (de_name e)) = de_name e"
  proof (cases "is_free e")
    case True
    then have "e = dir_entry_free (de_record_len e)" "9 \<le> rec_len e" using ok by (auto simp: dirent_ok_def)
    moreover have "de_name_len e = 0" "de_name e = replicate MAX_NAME 0"
      using calculation(1) by (metis dir_entry_free_def dir_entry.select_convs)+
    ultimately show ?thesis by (simp add: n_def slice_def splice_def)
  next
    case False
    then have n: "n \<le> MAX_NAME" "9 + n \<le> rec_len e" "length (de_name e) = MAX_NAME"
      "de_name e = name_of e @ replicate (MAX_NAME - n) 0" using ok by (auto simp: dirent_ok_def n_def)
    have "slice buf (off + 9) n = slice (encode e) 9 n"
      using n(2) slice_slice [of 9 n "rec_len e" buf off] img by simp
    also have "\<dots> = name_of e"
      using False length_name_of [OF ok False] by (simp add: encode_def entry_head_def slice_def n_def)
    finally have sl: "slice buf (off + 9) n = take n (de_name e)" by (simp add: name_of_def n_def)
    have "splice (replicate MAX_NAME 0) 0 (name_of e) = name_of e @ replicate (MAX_NAME - n) 0"
      using length_name_of [OF ok False] by (simp add: splice_def n_def)
    then have "splice (replicate MAX_NAME 0) 0 (take n (de_name e)) = de_name e"
      unfolding n(4) [symmetric] by (simp add: name_of_def n_def)
    with sl n(1,2) show ?thesis by simp
  qed
  then show "n \<le> MAX_NAME" "slice buf (off + 9) n = take n (de_name e)" "9 + n \<le> rec_len e" "splice (replicate MAX_NAME 0) 0 (take n (de_name e)) = de_name e"
    by blast+
qed

lemma deserialize_encode:
  assumes ok: "dirent_ok e" and buf: "length buf = BLOCK_SIZE" and fit: "off + rec_len e \<le> BLOCK_SIZE"
    and img: "slice buf off (rec_len e) = encode e"
  shows "dir_entry_deserialize buf off = Ok e"
proof -
  have nine: "9 \<le> rec_len e" using ok by (auto simp: dirent_ok_def split: if_splits)
  let ?fs = "[u32_to_le (de_inode e), u16_to_le (de_record_len e), u16_to_le (de_name_len e), file_type_to_le (de_file_type e)]"
  have "slice buf off 9 = slice (slice buf off (rec_len e)) 0 9" using nine by (simp add: slice_slice)
  then have "slice buf off 9 = concat ?fs" using encode_fields [OF ok] unfolding img by (simp add: slice_def)
  then have rd: "read_fields buf off (map length ?fs) = Ok ?fs"
    using nine fit buf by (intro read_fields_concat) simp_all
  have sub: "subN BLOCK_SIZE (off + 9) = Ok (BLOCK_SIZE - (off + 9))" using nine fit by (simp add: subN_def)
  note N = encode_name [OF ok img]
  let ?n = "unat (de_name_len e)"
  have name: "min (min ?n (BLOCK_SIZE - (off + 9))) MAX_NAME = ?n" using N(1,3) fit by simp
  have sl: "sliceR buf (off + 9) ?n = Ok (take ?n (de_name e))"
    using N(2,3) fit buf by (simp add: sliceR_def)
  show ?thesis
    unfolding dir_entry_deserialize_def using rd sub name sl N(4) by (simp add: Let_def)
qed

text \<open>The entries the code creates.\<close>

lemma dir_entry_free_ok: "9 \<le> unat r \<Longrightarrow> unat r \<le> BLOCK_SIZE \<Longrightarrow> dirent_ok (dir_entry_free r) \<and>
  is_free (dir_entry_free r) \<and> de_record_len (dir_entry_free r) = r"
proof -
  assume r: "9 \<le> unat r" "unat r \<le> BLOCK_SIZE"
  then have "max r 8 = r" by (simp add: max_def word_le_nat_alt)
  then show ?thesis using r by (simp add: dirent_ok_def dir_entry_free_def is_free_def)
qed

lemma dir_entry_new_eq:
  assumes "length name \<le> MAX_NAME"
  shows "\<exists>e. dir_entry_new i t name = Ok e \<and> de_inode e = i \<and> de_file_type e = t \<and>
    name_of e = name \<and> unat (de_name_len e) = length name \<and>
    rec_len e = (length name + 12) div 4 * 4 \<and> (i \<noteq> INVALID_ADDRESS \<longrightarrow> dirent_ok e)"
proof -
  have n: "unat (of_nat (length name) :: u16) = length name" using assms by (simp add: MAX_NAME_def unat_u16_of_nat)
  then obtain r where r: "min_record_len (of_nat (length name)) = Ok r" "unat r = (length name + 12) div 4 * 4"
    using min_record_len_eq [of "of_nat (length name)"] assms by (auto simp: MAX_NAME_def)
  let ?e = "\<lparr>de_inode = i, de_file_type = t, de_record_len = r, de_name_len = of_nat (length name),
      de_name = splice (replicate MAX_NAME 0) 0 name\<rparr>"
  have "dir_entry_new i t name = Ok ?e" using assms r(1) by (simp add: dir_entry_new_def Let_def)
  moreover have nm: "name_of ?e = name" using n assms by (simp add: name_of_def splice_def)
  moreover have "dirent_ok ?e" if "i \<noteq> INVALID_ADDRESS"
  proof -
    have "9 + length name \<le> (length name + 12) div 4 * 4" by presburger
    moreover have "(length name + 12) div 4 * 4 \<le> length name + 12" by simp
    ultimately show ?thesis
      using that assms r(2) n nm by (simp add: dirent_ok_def is_free_def splice_def BLOCK_SIZE_def MAX_NAME_def)
  qed
  ultimately show ?thesis using r(2) n by (intro exI [of _ ?e]) simp
qed

end
