(* ===== verification/Path.thy ===== *)
theory Path
  imports Outcome
begin

text \<open>
  What the sources use of \<open>std::path\<close> on Linux and of \<open>std::str\<close>: \<open>Path::components\<close>,
  \<open>parent\<close>, \<open>file_name\<close>, comparison of paths (which compares components), joining components for
  error messages, and the validity check of \<open>str::from_utf8\<close>. Paths are byte strings; a path that
  has been taken apart is its list of components.
\<close>

datatype component = RootDir | CurDir | ParentDir | Normal bytes

abbreviation slash :: u8 where "slash \<equiv> 47"
abbreviation dot :: u8 where "dot \<equiv> 46"

text \<open>The pieces between separators, empty ones included.\<close>

fun split_slash :: "bytes \<Rightarrow> bytes list" where
  "split_slash [] = [[]]"
| "split_slash (b # bs) =
     (if b = slash then [] # split_slash bs
      else case split_slash bs of p # ps \<Rightarrow> (b # p) # ps | [] \<Rightarrow> [[b]])"

text \<open>Inside a path empty pieces and \<open>.\<close> are dropped; a leading \<open>.\<close> of a relative path is kept.\<close>

fun piece_components :: "bytes list \<Rightarrow> component list" where
  "piece_components [] = []"
| "piece_components (p # ps) =
     (if p = [] \<or> p = [dot] then piece_components ps
      else if p = [dot, dot] then ParentDir # piece_components ps
      else Normal p # piece_components ps)"

definition components :: "bytes \<Rightarrow> component list" where
  "components path =
     (case split_slash path of
        [] \<Rightarrow> []
      | p # ps \<Rightarrow>
          if p = [] \<and> ps \<noteq> [] then RootDir # piece_components ps
          else if p = [dot] then CurDir # piece_components ps
          else piece_components (p # ps))"

definition path_parent :: "component list \<Rightarrow> component list option" where
  "path_parent cs = (if cs = [] \<or> last cs = RootDir then None else Some (butlast cs))"

definition path_file_name :: "component list \<Rightarrow> bytes option" where
  "path_file_name cs =
     (if cs = [] then None else case last cs of Normal name \<Rightarrow> Some name | _ \<Rightarrow> None)"

fun path_component_bytes :: "component \<Rightarrow> bytes" where
  "path_component_bytes RootDir = [slash]"
| "path_component_bytes CurDir = [dot]"
| "path_component_bytes ParentDir = [dot, dot]"
| "path_component_bytes (Normal name) = name"

text \<open>\<open>PathBuf::join\<close> of a component that is neither \<open>RootDir\<close> nor empty.\<close>

definition join :: "bytes \<Rightarrow> component \<Rightarrow> bytes" where
  "join progress c =
     (if progress = [] then path_component_bytes c else progress @ slash # path_component_bytes c)"


section \<open>UTF-8\<close>

abbreviation cont_byte :: "u8 \<Rightarrow> bool" where "cont_byte b \<equiv> 0x80 \<le> b \<and> b \<le> 0xBF"

function utf8_valid :: "bytes \<Rightarrow> bool" where
  "utf8_valid bs =
     (case bs of
        [] \<Rightarrow> True
      | b # r \<Rightarrow>
          if b \<le> 0x7F then utf8_valid r
          else if 0xC2 \<le> b \<and> b \<le> 0xDF
          then (case r of c # r' \<Rightarrow> cont_byte c \<and> utf8_valid r' | _ \<Rightarrow> False)
          else if 0xE0 \<le> b \<and> b \<le> 0xEF
          then (case r of
                  c # d # r' \<Rightarrow>
                    (if b = 0xE0 then 0xA0 else 0x80) \<le> c \<and> c \<le> (if b = 0xED then 0x9F else 0xBF) \<and>
                    cont_byte d \<and> utf8_valid r'
                | _ \<Rightarrow> False)
          else if 0xF0 \<le> b \<and> b \<le> 0xF4
          then (case r of
                  c # d # e # r' \<Rightarrow>
                    (if b = 0xF0 then 0x90 else 0x80) \<le> c \<and> c \<le> (if b = 0xF4 then 0x8F else 0xBF) \<and>
                    cont_byte d \<and> cont_byte e \<and> utf8_valid r'
                | _ \<Rightarrow> False)
          else False)"
  by pat_completeness auto
termination by (relation "measure length") auto

declare utf8_valid.simps [simp del]

definition from_utf8 :: "bytes \<Rightarrow> bytes option" where
  "from_utf8 bs = (if utf8_valid bs then Some bs else None)"


section \<open>Components\<close>

lemma split_slash_nonempty [simp]: "split_slash bs \<noteq> []"
  by (induction bs) (auto split: list.split)

lemma piece_components_kinds:
  "c \<in> set (piece_components ps) \<Longrightarrow> c = ParentDir \<or> (\<exists>n. c = Normal n \<and> n \<in> set ps \<and> n \<noteq> [] \<and> n \<noteq> [dot])"
  by (induction ps) (auto split: if_splits)

text \<open>\<open>RootDir\<close> and \<open>CurDir\<close> only occur in front.\<close>

lemma components_tl: "c \<in> set (tl (components path)) \<Longrightarrow> c \<noteq> RootDir \<and> c \<noteq> CurDir"
proof -
  assume c: "c \<in> set (tl (components path))"
  obtain q qs where q: "split_slash path = q # qs" by (cases "split_slash path") auto
  from c have "c \<in> set (piece_components qs) \<or> c \<in> set (tl (piece_components (q # qs)))"
    by (auto simp: components_def q split: if_splits)
  then have "c \<in> set (piece_components qs) \<or> c \<in> set (piece_components (q # qs))"
    by (metis list.sel(2) list.set_sel(2))
  then show ?thesis by (metis component.distinct(3,5,9,11) component.distinct piece_components_kinds)
qed

lemma split_slash_free: "p \<in> set (split_slash bs) \<Longrightarrow> slash \<notin> set p"
  by (induction bs arbitrary: p) (auto split: list.splits if_splits)

text \<open>A file name is a non-empty piece of the path without a separator.\<close>

lemma file_name_shape:
  assumes "path_file_name (components path) = Some name"
  shows "name \<noteq> [] \<and> name \<noteq> [dot] \<and> slash \<notin> set name"
proof -
  from assms have ne: "components path \<noteq> []" and l: "last (components path) = Normal name"
    by (auto simp: path_file_name_def split: if_splits component.splits)
  then have "Normal name \<in> set (components path)" by (metis last_in_set)
  moreover obtain q qs where q: "split_slash path = q # qs" by (cases "split_slash path") auto
  ultimately have "Normal name \<in> set (piece_components qs) \<or> Normal name \<in> set (piece_components (q # qs))"
    by (auto simp: components_def split: if_splits)
  then obtain ps where ps: "Normal name \<in> set (piece_components ps)" "set ps \<subseteq> set (split_slash path)"
    unfolding q by (metis order_refl set_subset_Cons)
  with piece_components_kinds [OF ps(1)] split_slash_free [of name path] show ?thesis by auto
qed

lemma ascii_valid: "(\<And>b. b \<in> set bs \<Longrightarrow> b \<le> 0x7F) \<Longrightarrow> utf8_valid bs"
  by (induction bs) (subst utf8_valid.simps, simp)+

end
