(* ===== verification/Superblock.thy ===== *)
theory Superblock
  imports File_Type
begin

text \<open>
  The superblock of \<^verbatim>\<open>src/src/formats/v1/superblock.rs\<close>: its layout arithmetic and its on-disk
  encoding. \<open>INode::inodes_per_block\<close> of \<^verbatim>\<open>src/src/formats/v1/inode.rs\<close> stands here because
  \<open>Superblock::new\<close> uses it.
\<close>

definition on_disk_size :: nat where "on_disk_size = 96"
definition inodes_per_block :: u32 where "inodes_per_block = of_nat (BLOCK_SIZE div on_disk_size)"

record superblock =
  sb_magic :: u64
  sb_version :: u32
  sb_block_size :: u32
  sb_total_blocks :: u32
  sb_inode_bitmap_start :: u32
  sb_inode_bitmap_blocks :: u32
  sb_block_bitmap_start :: u32
  sb_block_bitmap_blocks :: u32
  sb_inode_table_start :: u32
  sb_inode_table_blocks :: u32
  sb_data_start :: u32
  sb_root_inode :: u32
  sb_free_inodes :: u32
  sb_free_data :: u32

definition superblock_new ::
  "u64 \<Rightarrow> u32 \<Rightarrow> u32 \<Rightarrow> u32 \<Rightarrow> u32 \<Rightarrow> u32 \<Rightarrow> u32 \<Rightarrow> u32 \<Rightarrow> superblock res" where
  "superblock_new magic version block_sz total_blocks inode_bitmap_blocks block_bitmap_blocks
     inode_table_blocks root_inode =
     (let inode_bitmap_start = 1 in
      bindR (addW inode_bitmap_start inode_bitmap_blocks) (\<lambda>block_bitmap_start.
      bindR (addW block_bitmap_start block_bitmap_blocks) (\<lambda>inode_table_start.
      bindR (addW inode_table_start inode_table_blocks) (\<lambda>data_start.
      bindR (mulW inode_table_blocks inodes_per_block) (\<lambda>free_inodes.
      bindR (subW total_blocks data_start) (\<lambda>free_data.
      Ok \<lparr>sb_magic = magic, sb_version = version, sb_block_size = block_sz,
          sb_total_blocks = total_blocks,
          sb_inode_bitmap_start = inode_bitmap_start, sb_inode_bitmap_blocks = inode_bitmap_blocks,
          sb_block_bitmap_start = block_bitmap_start, sb_block_bitmap_blocks = block_bitmap_blocks,
          sb_inode_table_start = inode_table_start, sb_inode_table_blocks = inode_table_blocks,
          sb_data_start = data_start, sb_root_inode = root_inode,
          sb_free_inodes = free_inodes, sb_free_data = free_data\<rparr>))))))"

definition superblock_fields :: "superblock \<Rightarrow> bytes list" where
  "superblock_fields sb =
     [u64_to_le (sb_magic sb), u32_to_le (sb_version sb), u32_to_le (sb_block_size sb),
      u32_to_le (sb_total_blocks sb), u32_to_le (sb_inode_bitmap_start sb),
      u32_to_le (sb_inode_bitmap_blocks sb), u32_to_le (sb_block_bitmap_start sb),
      u32_to_le (sb_block_bitmap_blocks sb), u32_to_le (sb_inode_table_start sb),
      u32_to_le (sb_inode_table_blocks sb), u32_to_le (sb_data_start sb),
      u32_to_le (sb_root_inode sb), u32_to_le (sb_free_inodes sb), u32_to_le (sb_free_data sb)]"

definition superblock_serialize :: "superblock \<Rightarrow> bytes \<Rightarrow> bytes res" where
  "superblock_serialize sb buf =
     bindR (write_fields buf 0 (superblock_fields sb)) (\<lambda>(buf', _). Ok buf')"

definition superblock_deserialize :: "bytes \<Rightarrow> superblock res" where
  "superblock_deserialize buf =
     bindR (read_fields buf 0 [8, 4, 4, 4, 4, 4, 4, 4, 4, 4, 4, 4, 4, 4]) (\<lambda>f.
     Ok \<lparr>sb_magic = u64_from_le (f ! 0), sb_version = u32_from_le (f ! 1),
         sb_block_size = u32_from_le (f ! 2), sb_total_blocks = u32_from_le (f ! 3),
         sb_inode_bitmap_start = u32_from_le (f ! 4), sb_inode_bitmap_blocks = u32_from_le (f ! 5),
         sb_block_bitmap_start = u32_from_le (f ! 6), sb_block_bitmap_blocks = u32_from_le (f ! 7),
         sb_inode_table_start = u32_from_le (f ! 8), sb_inode_table_blocks = u32_from_le (f ! 9),
         sb_data_start = u32_from_le (f ! 10), sb_root_inode = u32_from_le (f ! 11),
         sb_free_inodes = u32_from_le (f ! 12), sb_free_data = u32_from_le (f ! 13)\<rparr>)"


section \<open>Encoding\<close>

lemma inodes_per_block_eq [simp]: "inodes_per_block = 2"
  by (simp add: inodes_per_block_def BLOCK_SIZE_def on_disk_size_def)

lemma length_superblock_fields:
  "map length (superblock_fields sb) = [8, 4, 4, 4, 4, 4, 4, 4, 4, 4, 4, 4, 4, 4]"
  by (simp add: superblock_fields_def)

lemma length_superblock_bytes [simp]: "length (concat (superblock_fields sb)) = 60"
  by (simp add: superblock_fields_def)

lemma superblock_serialize_eq:
  assumes "length buf = BLOCK_SIZE"
  shows "superblock_serialize sb buf = Ok (splice buf 0 (concat (superblock_fields sb)))"
  using assms
  by (simp add: superblock_serialize_def write_fields_splice BLOCK_SIZE_def del: length_concat)

lemma superblock_deserialize_fields:
  assumes "slice buf 0 60 = concat (superblock_fields sb)" "60 \<le> length buf"
  shows "superblock_deserialize buf = Ok sb"
proof -
  have "length (concat (superblock_fields sb)) = 60" by (simp add: superblock_fields_def)
  then have "read_fields buf 0 (map length (superblock_fields sb)) = Ok (superblock_fields sb)"
    using assms by (intro read_fields_concat) simp_all
  then show ?thesis
    unfolding length_superblock_fields superblock_deserialize_def by (simp add: superblock_fields_def)
qed

lemma superblock_codec:
  assumes "length buf = BLOCK_SIZE"
  shows "\<exists>b. superblock_serialize sb buf = Ok b \<and> length b = BLOCK_SIZE \<and>
    superblock_deserialize b = Ok sb \<and> slice b 8 4 = u32_to_le (sb_version sb)"
proof -
  let ?b = "splice buf 0 (concat (superblock_fields sb))"
  have l: "length (concat (superblock_fields sb)) = 60" by (simp add: superblock_fields_def)
  have "superblock_deserialize ?b = Ok sb"
    using assms l by (intro superblock_deserialize_fields) (simp_all add: BLOCK_SIZE_def)
  moreover have "slice ?b 8 4 = slice (slice ?b 0 60) 8 4" by (simp add: slice_slice)
  then have "slice ?b 8 4 = slice (concat (superblock_fields sb)) 8 4"
    using assms l by (simp add: BLOCK_SIZE_def)
  then have "slice ?b 8 4 = u32_to_le (sb_version sb)"
    by (simp add: superblock_fields_def slice_def)
  ultimately show ?thesis
    using superblock_serialize_eq [OF assms, of sb] assms l by (simp add: BLOCK_SIZE_def)
qed

lemma superblock_deserialize_total:
  "length buf = BLOCK_SIZE \<Longrightarrow> \<exists>sb. superblock_deserialize buf = Ok sb"
  by (simp add: superblock_deserialize_def sliceR_def BLOCK_SIZE_def)

end
