(* ===== verification/INode.thy ===== *)
theory INode
  imports Superblock
begin

text \<open>
  Inodes, \<^verbatim>\<open>src/src/formats/v1/inode.rs\<close>: the capacity constants, the record, its 92-byte
  encoding inside a 96-byte slot. The fixed array \<open>direct\<close> is a list; \<open>inode_wf\<close> is its length.
\<close>

definition DIRECT_COUNT :: nat where "DIRECT_COUNT = 12"
definition INDIRECT_COUNT :: nat where "INDIRECT_COUNT = BLOCK_SIZE div 4"
definition DOUBLE_COUNT :: nat where "DOUBLE_COUNT = INDIRECT_COUNT * INDIRECT_COUNT"
definition MAX_BLOCKS :: nat where "MAX_BLOCKS = DIRECT_COUNT + INDIRECT_COUNT + DOUBLE_COUNT"
definition MAX_SIZE :: nat where "MAX_SIZE = MAX_BLOCKS * BLOCK_SIZE"

lemmas count_defs = DIRECT_COUNT_def INDIRECT_COUNT_def DOUBLE_COUNT_def MAX_BLOCKS_def BLOCK_SIZE_def

record inode =
  in_size :: u64
  in_file_type :: file_type
  in_permissions :: u16
  in_direct :: "u32 list"
  in_indirect :: u32
  in_double :: u32
  in_created :: u64
  in_modified :: u64
  in_links :: u16
  in_blocks :: u32

definition inode_empty :: "file_type \<Rightarrow> u16 \<Rightarrow> u64 \<Rightarrow> inode" where
  "inode_empty file_type permissions created =
     \<lparr>in_size = 0, in_file_type = file_type, in_permissions = permissions,
      in_direct = replicate 12 INVALID_ADDRESS, in_indirect = INVALID_ADDRESS,
      in_double = INVALID_ADDRESS, in_created = created, in_modified = created,
      in_links = 1, in_blocks = 0\<rparr>"

definition inode_fields :: "inode \<Rightarrow> bytes list" where
  "inode_fields i =
     [u64_to_le (in_size i), file_type_to_le (in_file_type i), [0], u16_to_le (in_permissions i),
      u16_to_le (in_links i), u16_to_le 0, u32_to_le (in_blocks i)] @
     map u32_to_le (in_direct i) @
     [u32_to_le (in_indirect i), u32_to_le (in_double i), u64_to_le (in_created i),
      u64_to_le (in_modified i)]"

definition inode_serialize :: "inode \<Rightarrow> bytes \<Rightarrow> bytes res" where
  "inode_serialize i buf = bindR (write_fields buf 0 (inode_fields i)) (\<lambda>(buf', _). Ok buf')"

definition inode_deserialize :: "bytes \<Rightarrow> inode res" where
  "inode_deserialize buf =
     bindR (read_fields buf 0 ([8, 1, 1, 2, 2, 2, 4] @ replicate 12 4 @ [4, 4, 8, 8])) (\<lambda>f.
     Ok \<lparr>in_size = u64_from_le (f ! 0), in_file_type = file_type_from_le (f ! 1),
         in_permissions = u16_from_le (f ! 3),
         in_direct = map (\<lambda>i. u32_from_le (f ! (7 + i))) [0..<12],
         in_indirect = u32_from_le (f ! 19), in_double = u32_from_le (f ! 20),
         in_created = u64_from_le (f ! 21), in_modified = u64_from_le (f ! 22),
         in_links = u16_from_le (f ! 4), in_blocks = u32_from_le (f ! 6)\<rparr>)"

definition inode_wf :: "inode \<Rightarrow> bool" where "inode_wf i \<longleftrightarrow> length (in_direct i) = DIRECT_COUNT"


section \<open>Encoding\<close>

lemma inode_wf_empty [simp]: "inode_wf (inode_empty t p c)"
  by (simp add: inode_wf_def inode_empty_def DIRECT_COUNT_def)

lemma length_inode_fields:
  "inode_wf i \<Longrightarrow> map length (inode_fields i) = [8, 1, 1, 2, 2, 2, 4] @ replicate 12 4 @ [4, 4, 8, 8]"
  by (simp add: inode_fields_def inode_wf_def DIRECT_COUNT_def map_replicate_const comp_def)

lemma length_inode_bytes: "inode_wf i \<Longrightarrow> length (concat (inode_fields i)) = 92"
  by (simp only: length_concat length_inode_fields) (simp add: sum_list_replicate)

lemma inode_serialize_eq:
  assumes "length buf = BLOCK_SIZE" "inode_wf i"
  shows "inode_serialize i buf = Ok (splice buf 0 (concat (inode_fields i)))"
  using assms length_inode_bytes [OF assms(2)]
  by (simp add: inode_serialize_def write_fields_splice BLOCK_SIZE_def del: length_concat)

lemma inode_deserialize_fields:
  assumes "slice buf 0 92 = concat (inode_fields i)" "92 \<le> length buf" "inode_wf i"
  shows "inode_deserialize buf = Ok i"
proof -
  have "read_fields buf 0 (map length (inode_fields i)) = Ok (inode_fields i)"
    using assms length_inode_bytes [of i] by (intro read_fields_concat) simp_all
  moreover obtain d0 d1 d2 d3 d4 d5 d6 d7 d8 d9 d10 d11 where
    "in_direct i = [d0, d1, d2, d3, d4, d5, d6, d7, d8, d9, d10, d11]"
    using assms(3) by (auto simp: inode_wf_def DIRECT_COUNT_def numeral_eq_Suc length_Suc_conv)
  ultimately show ?thesis
    unfolding length_inode_fields [OF assms(3)] inode_deserialize_def
    by (simp add: inode_fields_def upt_rec)
qed

lemma inode_wf_deserialize: "inode_deserialize buf = Ok i \<Longrightarrow> inode_wf i"
  by (auto simp: inode_deserialize_def bindR_eq_Ok inode_wf_def DIRECT_COUNT_def)

lemma inode_deserialize_total:
  "length buf = BLOCK_SIZE \<Longrightarrow> \<exists>i. inode_deserialize buf = Ok i"
  by (simp add: inode_deserialize_def sliceR_def BLOCK_SIZE_def numeral_eq_Suc)


end
