(* ===== verification/INode_Handler.thy ===== *)
theory INode_Handler
  imports INode Memory_Device
begin

text \<open>
  \<open>INodeTableHandler\<close> of \<^verbatim>\<open>src/src/formats/v1/inode_handler.rs\<close>: the inode table (sub-block
  placement of inodes) and the block lists of inodes (direct, indirect and double-indirect
  addresses). The \<open>&mut INode\<close> and \<open>&mut usize\<close> arguments are returned; every caller drops them
  when the call fails.

  The contents of an inode are specified by \<open>inode_blocks\<close>, the list of its data blocks as the
  pointer blocks on the device give it, and \<open>meta_blocks\<close>, the pointer blocks in use. Adding blocks
  appends to both lists and touches no other block.
\<close>

record inode_table_handler =
  ih_inode_table_start :: u32
  ih_inode_table_blocks :: u32
  ih_data_start :: u32

definition inode_table_handler_new :: "u32 \<Rightarrow> u32 \<Rightarrow> u32 \<Rightarrow> inode_table_handler" where
  "inode_table_handler_new inode_table_start inode_table_blocks data_start =
     \<lparr>ih_inode_table_start = inode_table_start, ih_inode_table_blocks = inode_table_blocks,
      ih_data_start = data_start\<rparr>"

definition write_inode ::
  "'d block_ops \<Rightarrow> inode_table_handler \<Rightarrow> u32 \<Rightarrow> inode \<Rightarrow> ('d, unit) io" where
  "write_inode ops h index inode =
     bindM (liftM (mulW (ih_inode_table_blocks h) inodes_per_block)) (\<lambda>max_inode_index.
     if max_inode_index \<le> index
     then throwM (InvalidInput (II_INodeIndexOOB index max_inode_index))
     else
       bindM (liftM (addW (ih_inode_table_start h) (index div inodes_per_block))) (\<lambda>inode_block.
       let offset = index mod inodes_per_block in
       bindM (liftM (inode_serialize inode (replicate BLOCK_SIZE 0))) (\<lambda>buf.
       bindM (read_block ops inode_block) (\<lambda>block.
       let start = unat offset * on_disk_size in
       bindM (liftM (spliceR block start (take on_disk_size buf))) (\<lambda>block'.
       write_block ops inode_block block')))))"

definition read_inode :: "'d block_ops \<Rightarrow> inode_table_handler \<Rightarrow> u32 \<Rightarrow> ('d, inode) io" where
  "read_inode ops h index =
     bindM (liftM (mulW (ih_inode_table_blocks h) inodes_per_block)) (\<lambda>max_inode_index.
     if max_inode_index \<le> index
     then throwM (InvalidInput (II_INodeIndexOOB index max_inode_index))
     else
       bindM (liftM (addW (ih_inode_table_start h) (index div inodes_per_block))) (\<lambda>inode_block.
       let offset = index mod inodes_per_block in
       bindM (read_block ops inode_block) (\<lambda>block.
       let start = unat offset * on_disk_size in
       bindM (liftM (sliceR block start on_disk_size)) (\<lambda>slot.
       bindM (liftM (spliceR (replicate BLOCK_SIZE 0) 0 slot)) (\<lambda>buf.
       liftM (inode_deserialize buf))))))"

definition metadata_blocks :: "nat \<Rightarrow> nat" where
  "metadata_blocks blocks =
     (if blocks \<le> DIRECT_COUNT then 0
      else if blocks \<le> DIRECT_COUNT + INDIRECT_COUNT then 1
      else let double_blocks = blocks - DIRECT_COUNT - INDIRECT_COUNT
           in 1 + 1 + (double_blocks + INDIRECT_COUNT - 1) div INDIRECT_COUNT)"

definition blocks_necessary_to_grow_n :: "inode \<Rightarrow> u32 \<Rightarrow> u32 res" where
  "blocks_necessary_to_grow_n inode n =
     (let current = unat (in_blocks inode); new = current + unat n in
      bindR (subN (metadata_blocks new) (metadata_blocks current)) (\<lambda>k. Ok (of_nat k)))"

definition blocks_necessary_to_grow :: "inode \<Rightarrow> u32 res" where
  "blocks_necessary_to_grow inode = blocks_necessary_to_grow_n inode 1"

definition not_enough_blocks :: "u32 \<Rightarrow> u32 list \<Rightarrow> fs_error" where
  "not_enough_blocks required pool =
     InvalidInput (II_NotEnoughAllocatedBlocks required (of_nat (length pool)))"

definition write_indirect ::
  "'d block_ops \<Rightarrow> inode_table_handler \<Rightarrow> inode \<Rightarrow> u32 \<Rightarrow> u32 list \<Rightarrow> nat \<Rightarrow> nat \<Rightarrow>
   ('d, inode \<times> nat) io" where
  "write_indirect ops h inode block pool pool_index index =
     bindM (if index = 0
            then if pool = [] then throwM (not_enough_blocks 1 pool)
                 else bindM (liftM (indexR pool pool_index)) (\<lambda>p. returnM (p, pool_index + 1))
            else returnM (in_indirect inode, pool_index)) (\<lambda>(indirect, pool_index).
     bindM (liftM (addW indirect (ih_data_start h))) (\<lambda>addr.
     bindM (read_block ops addr) (\<lambda>buf.
     let offset = index * 4 in
     bindM (liftM (spliceR buf offset (u32_to_le block))) (\<lambda>buf.
     bindM (write_block ops addr buf) (\<lambda>_.
     returnM (inode\<lparr>in_indirect := indirect\<rparr>, pool_index))))))"

definition write_double_indirect ::
  "'d block_ops \<Rightarrow> inode_table_handler \<Rightarrow> inode \<Rightarrow> u32 \<Rightarrow> u32 list \<Rightarrow> nat \<Rightarrow> nat \<Rightarrow>
   ('d, inode \<times> nat) io" where
  "write_double_indirect ops h inode block pool pool_index index =
     (let indirect_offset = (index div INDIRECT_COUNT) * 4;
          direct_offset = (index mod INDIRECT_COUNT) * 4 in
      bindM (if index = 0
             then if length pool < 2 then throwM (not_enough_blocks 2 pool)
                  else bindM (liftM (indexR pool pool_index)) (\<lambda>p. returnM (p, pool_index + 1))
             else returnM (in_double inode, pool_index)) (\<lambda>(double, pool_index).
      bindM (liftM (addW double (ih_data_start h))) (\<lambda>double_addr.
      bindM (read_block ops double_addr) (\<lambda>buf.
      bindM (if direct_offset = 0
             then if pool = [] then throwM (not_enough_blocks 1 pool)
                  else bindM (liftM (indexR pool pool_index)) (\<lambda>p. returnM (p, pool_index + 1))
             else bindM (liftM (sliceR buf indirect_offset 4))
                    (\<lambda>b. returnM (u32_from_le b, pool_index))) (\<lambda>(indirect, pool_index).
      bindM (liftM (addW indirect (ih_data_start h))) (\<lambda>indirect_addr.
      bindM (read_block ops indirect_addr) (\<lambda>buf.
      bindM (liftM (spliceR buf direct_offset (u32_to_le block))) (\<lambda>buf.
      bindM (write_block ops indirect_addr buf) (\<lambda>_.
      bindM (if direct_offset = 0
             then bindM (read_block ops double_addr) (\<lambda>buf.
                  bindM (liftM (spliceR buf indirect_offset (u32_to_le indirect)))
                    (write_block ops double_addr))
             else returnM ()) (\<lambda>_.
      returnM (inode\<lparr>in_double := double\<rparr>, pool_index)))))))))))"

definition max_inode_size_error :: "nat \<Rightarrow> fs_error" where
  "max_inode_size_error requested = MaxINodeSize (of_nat requested) (of_nat MAX_BLOCKS)"

text \<open>The body of the loop of \<open>add_blocks\<close>, which is also the body of \<open>add_block\<close>.\<close>

definition place_block ::
  "'d block_ops \<Rightarrow> inode_table_handler \<Rightarrow> u32 list \<Rightarrow> u32 \<Rightarrow> inode \<times> nat \<Rightarrow> ('d, inode \<times> nat) io" where
  "place_block ops h pool block = (\<lambda>(inode, pool_index).
     let index = unat (in_blocks inode) in
     bindM (if index < DIRECT_COUNT
            then bindM (liftM (updateR (in_direct inode) index block))
                   (\<lambda>direct. returnM (inode\<lparr>in_direct := direct\<rparr>, pool_index))
            else if index < DIRECT_COUNT + INDIRECT_COUNT
            then write_indirect ops h inode block pool pool_index (index - DIRECT_COUNT)
            else if index < DIRECT_COUNT + INDIRECT_COUNT + DOUBLE_COUNT
            then write_double_indirect ops h inode block pool pool_index
                   (index - DIRECT_COUNT - INDIRECT_COUNT)
            else throwM (max_inode_size_error (index + 1))) (\<lambda>(inode, pool_index).
     bindM (liftM (addW (in_blocks inode) 1)) (\<lambda>blocks.
     returnM (inode\<lparr>in_blocks := blocks\<rparr>, pool_index))))"

definition add_blocks ::
  "'d block_ops \<Rightarrow> inode_table_handler \<Rightarrow> inode \<Rightarrow> u32 list \<Rightarrow> u32 list \<Rightarrow> ('d, inode) io" where
  "add_blocks ops h inode blocks pool =
     (if blocks = [] then returnM inode
      else
        let current = unat (in_blocks inode); new_count = current + length blocks in
        if MAX_BLOCKS < new_count then throwM (max_inode_size_error new_count)
        else
          bindM (liftM (blocks_necessary_to_grow_n inode (of_nat (length blocks)))) (\<lambda>required_metadata.
          if length pool < unat required_metadata
          then throwM (not_enough_blocks required_metadata pool)
          else bindM (foldM (place_block ops h pool) blocks (inode, 0)) (\<lambda>(inode, _). returnM inode)))"

definition add_block ::
  "'d block_ops \<Rightarrow> inode_table_handler \<Rightarrow> inode \<Rightarrow> u32 \<Rightarrow> u32 list \<Rightarrow> ('d, inode) io" where
  "add_block ops h inode block pool =
     (let index = unat (in_blocks inode) in
      if MAX_BLOCKS \<le> index then throwM (max_inode_size_error (index + 1))
      else bindM (place_block ops h pool block (inode, 0)) (\<lambda>(inode, _). returnM inode))"

definition resolve_indirect ::
  "'d block_ops \<Rightarrow> inode_table_handler \<Rightarrow> u32 \<Rightarrow> nat \<Rightarrow> ('d, u32) io" where
  "resolve_indirect ops h indirect index =
     bindM (liftM (addW (ih_data_start h) indirect)) (\<lambda>addr.
     bindM (read_block ops addr) (\<lambda>buf.
     let start = index * 4 in
     bindM (liftM (sliceR buf start 4)) (\<lambda>b. returnM (u32_from_le b))))"

definition resolve_double ::
  "'d block_ops \<Rightarrow> inode_table_handler \<Rightarrow> u32 \<Rightarrow> nat \<Rightarrow> ('d, u32) io" where
  "resolve_double ops h double index =
     bindM (liftM (addW (ih_data_start h) double)) (\<lambda>addr.
     bindM (read_block ops addr) (\<lambda>buf.
     let start = index * 4 in
     bindM (liftM (sliceR buf start 4)) (\<lambda>b. returnM (u32_from_le b))))"

definition get_block ::
  "'d block_ops \<Rightarrow> inode_table_handler \<Rightarrow> inode \<Rightarrow> u32 \<Rightarrow> ('d, u32) io" where
  "get_block ops h inode index =
     (if MAX_BLOCKS \<le> unat index
      then throwM (InvalidInput (II_INodeBlockIndexOOB index (of_nat MAX_BLOCKS)))
      else if in_blocks inode \<le> index
      then throwM (InvalidInput (II_IndexOOB index (in_blocks inode)))
      else
        let i = unat index in
        if i < DIRECT_COUNT then liftM (indexR (in_direct inode) i)
        else
          let i = i - DIRECT_COUNT in
          if i < INDIRECT_COUNT then resolve_indirect ops h (in_indirect inode) i
          else
            let i = i - INDIRECT_COUNT in
            if i < DOUBLE_COUNT
            then bindM (resolve_double ops h (in_double inode) (i div INDIRECT_COUNT)) (\<lambda>indirect.
                 resolve_indirect ops h indirect (i mod INDIRECT_COUNT))
            else throwM (InvalidInput (II_INodeBlockIndexOOB (of_nat i) (of_nat MAX_BLOCKS))))"


section \<open>The inode table\<close>

text \<open>\<open>slot bs h n\<close>: the 96 bytes of inode \<open>n\<close>, and the inode they encode.\<close>

definition slot_block :: "inode_table_handler \<Rightarrow> u32 \<Rightarrow> nat" where
  "slot_block h n = unat (ih_inode_table_start h) + unat n div 2"

definition slot_offset :: "u32 \<Rightarrow> nat" where
  "slot_offset n = unat n mod 2 * 96"

definition inode_at :: "inode_table_handler \<Rightarrow> bytes list \<Rightarrow> u32 \<Rightarrow> inode res" where
  "inode_at h bs n =
     inode_deserialize (splice (replicate BLOCK_SIZE 0) 0 (slice (bs ! slot_block h n) (slot_offset n) 96))"

definition table_ok :: "inode_table_handler \<Rightarrow> nat \<Rightarrow> bool" where
  "table_ok h k \<longleftrightarrow>
     unat (ih_inode_table_blocks h) * 2 < 4294967296 \<and>
     unat (ih_inode_table_start h) + unat (ih_inode_table_blocks h) \<le> k"

definition put_inode :: "inode_table_handler \<Rightarrow> bytes list \<Rightarrow> u32 \<Rightarrow> inode \<Rightarrow> bytes list" where
  "put_inode h bs n i =
     bs[slot_block h n :=
          splice (bs ! slot_block h n) (slot_offset n) (concat (inode_fields i) @ replicate 4 0)]"

abbreviation inode_count :: "inode_table_handler \<Rightarrow> nat" where
  "inode_count h \<equiv> unat (ih_inode_table_blocks h) * 2"

lemma slot_bounds:
  "slot_offset n + 96 \<le> 256"
  "unat n < inode_count h \<Longrightarrow> slot_block h n < unat (ih_inode_table_start h) + unat (ih_inode_table_blocks h)"
  by (auto simp: slot_offset_def slot_block_def)

lemma slot_disjoint:
  "n \<noteq> m \<Longrightarrow> slot_block h n = slot_block h m \<Longrightarrow>
   slot_offset n + 96 \<le> slot_offset m \<or> slot_offset m + 96 \<le> slot_offset n"
proof -
  assume "n \<noteq> m" and eq: "slot_block h n = slot_block h m"
  then have "unat n \<noteq> unat m" by (simp add: word_unat_eq_iff)
  moreover have "unat n div 2 = unat m div 2" using eq by (simp add: slot_block_def)
  ultimately have "unat n mod 2 \<noteq> unat m mod 2" by (metis div_mult_mod_eq)
  then show ?thesis by (auto simp: slot_offset_def)
qed

lemma table_max:
  assumes "table_ok h k"
  shows "mulW (ih_inode_table_blocks h) 2 = Ok (ih_inode_table_blocks h * 2)"
    "unat (ih_inode_table_blocks h * 2) = inode_count h"
  using assms unat_mult_small [of "ih_inode_table_blocks h" 2]
  by (auto simp: table_ok_def mulW_def)

lemma slot_addr:
  assumes "table_ok h k" "unat n < inode_count h" "k < 4294967296"
  shows "addW (ih_inode_table_start h) (n div 2) = Ok (of_nat (slot_block h n))"
    "unat (of_nat (slot_block h n) :: u32) = slot_block h n" "slot_block h n < k"
proof -
  have lt: "slot_block h n < k" using assms slot_bounds(2) [of n h] by (simp add: table_ok_def)
  then show "slot_block h n < k" "unat (of_nat (slot_block h n) :: u32) = slot_block h n"
    using assms by (simp_all add: unat_u32_of_nat)
  have eq: "slot_block h n = unat (ih_inode_table_start h) + unat (n div 2)"
    by (simp add: slot_block_def unat_div)
  then have "of_nat (slot_block h n) = ih_inode_table_start h + n div 2" by simp
  then show "addW (ih_inode_table_start h) (n div 2) = Ok (of_nat (slot_block h n))"
    using lt assms(3) eq by (simp add: addW_def)
qed

context block_device
begin

lemma read_inode_execs:
  assumes ok: "table_ok h (length bs)" and n: "unat n < inode_count h"
  shows "execs inv blks (read_inode ops h n) bs (inode_at h bs n) bs"
proof (rule execs_wf)
  assume wf: "wf_blocks bs" and small: "length bs < 4294967296"
  note addr = slot_addr [OF ok n small] and max = table_max [OF ok]
  have lt: "\<not> ih_inode_table_blocks h * 2 \<le> n" using n max by (simp add: word_le_nat_alt)
  have off: "unat (n mod 2) * 96 = slot_offset n" by (simp add: slot_offset_def unat_mod)
  have len: "length (bs ! slot_block h n) = 256" using wf addr(3) by (simp add: BLOCK_SIZE_def)
  have "execs inv blks (read_block ops (of_nat (slot_block h n))) bs (Ok (bs ! slot_block h n)) bs"
    using read_execs [of "of_nat (slot_block h n)" bs] addr by simp
  then show "execs inv blks (read_inode ops h n) bs (inode_at h bs n) bs"
    using slot_bounds(1) [of n] len
    by (auto simp: read_inode_def max lt addr(1) Let_def off on_disk_size_def sliceR_def spliceR_def
        inode_at_def BLOCK_SIZE_def intro!: execs_bind)
qed

lemma write_inode_execs:
  assumes ok: "table_ok h (length bs)" and n: "unat n < inode_count h" and i: "inode_wf i"
  shows "execs inv blks (write_inode ops h n i) bs (Ok ()) (put_inode h bs n i)"
proof (rule execs_wf)
  assume wf: "wf_blocks bs" and small: "length bs < 4294967296"
  note addr = slot_addr [OF ok n small] and max = table_max [OF ok]
  have lt: "\<not> ih_inode_table_blocks h * 2 \<le> n" using n max by (simp add: word_le_nat_alt)
  have off: "unat (n mod 2) * 96 = slot_offset n" by (simp add: slot_offset_def unat_mod)
  have len: "length (bs ! slot_block h n) = 256" using wf addr(3) by (simp add: BLOCK_SIZE_def)
  have bytes: "take 96 (splice (replicate 256 0) 0 (concat (inode_fields i))) =
      concat (inode_fields i) @ replicate 4 0"
    using length_inode_bytes [OF i] by (simp add: splice_def)
  have len2: "length (concat (inode_fields i) @ replicate 4 0) = 96"
    using length_inode_bytes [OF i] by simp
  have ser: "inode_serialize i (replicate BLOCK_SIZE 0) =
      Ok (splice (replicate 256 0) 0 (concat (inode_fields i)))"
    using inode_serialize_eq [OF _ i, of "replicate BLOCK_SIZE 0"] by (simp add: BLOCK_SIZE_def)
  let ?b = "splice (bs ! slot_block h n) (slot_offset n) (concat (inode_fields i) @ replicate 4 0)"
  have lb: "length ?b = BLOCK_SIZE"
    using slot_bounds(1) [of n] len len2 by (simp add: BLOCK_SIZE_def)
  have "execs inv blks (read_block ops (of_nat (slot_block h n))) bs (Ok (bs ! slot_block h n)) bs"
    using read_execs [of "of_nat (slot_block h n)" bs] addr by simp
  moreover have "execs inv blks (write_block ops (of_nat (slot_block h n)) ?b) bs (Ok ()) (put_inode h bs n i)"
    using write_execs [of "of_nat (slot_block h n)" bs ?b] addr lb by (simp add: put_inode_def)
  moreover have "spliceR (bs ! slot_block h n) (slot_offset n) (concat (inode_fields i) @ replicate 4 0) = Ok ?b"
    unfolding spliceR_def len len2 using slot_bounds(1) [of n] by simp
  ultimately show "execs inv blks (write_inode ops h n i) bs (Ok ()) (put_inode h bs n i)"
    by (auto simp: write_inode_def max lt addr(1) ser Let_def off on_disk_size_def bytes intro!: execs_bind)
qed

end

lemma length_slot_bytes: "inode_wf i \<Longrightarrow> length (concat (inode_fields i) @ replicate 4 0) = 96"
  using length_inode_bytes [of i] by simp

lemma length_put_inode [simp]: "length (put_inode h bs n i) = length bs"
  by (simp add: put_inode_def)

lemma wf_put_inode:
  assumes "wf_blocks bs" "slot_block h n < length bs" "inode_wf i"
  shows "wf_blocks (put_inode h bs n i)"
proof -
  have "length (bs ! slot_block h n) = 256" using assms by (simp add: BLOCK_SIZE_def)
  then have "length (splice (bs ! slot_block h n) (slot_offset n)
      (concat (inode_fields i) @ replicate 4 0)) = BLOCK_SIZE"
    using slot_bounds(1) [of n] length_slot_bytes [OF assms(3)] by (simp add: BLOCK_SIZE_def)
  with assms(1) show ?thesis by (simp add: put_inode_def)
qed

lemma inode_at_put_same:
  assumes wf: "wf_blocks bs" and n: "slot_block h n < length bs" and i: "inode_wf i"
  shows "inode_at h (put_inode h bs n i) n = Ok i"
proof -
  let ?s = "concat (inode_fields i) @ replicate 4 0"
  have len: "length (bs ! slot_block h n) = 256" using wf n by (simp add: BLOCK_SIZE_def)
  have "slice (splice (bs ! slot_block h n) (slot_offset n) ?s) (slot_offset n) 96 = ?s"
    using len length_slot_bytes [OF i] slot_bounds(1) [of n] by (intro slice_splice_same) simp_all
  then have "inode_at h (put_inode h bs n i) n = inode_deserialize (splice (replicate 256 0) 0 ?s)"
    using n by (simp add: inode_at_def put_inode_def BLOCK_SIZE_def)
  also have "\<dots> = Ok i"
  proof (rule inode_deserialize_fields [OF _ _ i])
    have "slice (splice (replicate 256 0) 0 ?s) 0 92 = take 92 ?s"
      using length_slot_bytes [OF i] by (simp add: slice_def splice_def)
    also have "\<dots> = concat (inode_fields i)"
      using length_inode_bytes [OF i] by simp
    finally show "slice (splice (replicate 256 0) 0 ?s) 0 92 = concat (inode_fields i)" .
    show "92 \<le> length (splice (replicate 256 0) 0 ?s)"
      using length_slot_bytes [OF i] by simp
  qed
  finally show ?thesis .
qed

lemma inode_at_put_other:
  assumes wf: "wf_blocks bs" and n: "slot_block h n < length bs" "slot_block h m < length bs"
    and i: "inode_wf i" and neq: "m \<noteq> n"
  shows "inode_at h (put_inode h bs n i) m = inode_at h bs m"
proof (cases "slot_block h m = slot_block h n")
  case True
  have "length (bs ! slot_block h n) = 256" using wf n by (simp add: BLOCK_SIZE_def)
  then have "slice (splice (bs ! slot_block h n) (slot_offset n) (concat (inode_fields i) @ replicate 4 0))
      (slot_offset m) 96 = slice (bs ! slot_block h n) (slot_offset m) 96"
    using slot_disjoint [OF neq True] slot_bounds(1) [of n] slot_bounds(1) [of m]
      length_slot_bytes [OF i]
    by (intro slice_splice_other) auto
  with True n show ?thesis by (simp add: inode_at_def put_inode_def)
next
  case False
  then show ?thesis by (simp add: inode_at_def put_inode_def)
qed



section \<open>The block list of an inode\<close>

definition data_addr :: "inode_table_handler \<Rightarrow> u32 \<Rightarrow> nat" where
  "data_addr h r = unat (ih_data_start h) + unat r"

definition ptr :: "bytes list \<Rightarrow> nat \<Rightarrow> nat \<Rightarrow> u32" where
  "ptr bs a k = u32_from_le (slice (bs ! a) (k * 4) 4)"

definition set_ptr :: "bytes list \<Rightarrow> nat \<Rightarrow> nat \<Rightarrow> u32 \<Rightarrow> bytes list" where
  "set_ptr bs a k v = bs[a := splice (bs ! a) (k * 4) (u32_to_le v)]"

definition block_at :: "inode_table_handler \<Rightarrow> bytes list \<Rightarrow> inode \<Rightarrow> nat \<Rightarrow> u32" where
  "block_at h bs i k =
     (if k < 12 then in_direct i ! k
      else if k < 76 then ptr bs (data_addr h (in_indirect i)) (k - 12)
      else ptr bs (data_addr h (ptr bs (data_addr h (in_double i)) ((k - 76) div 64))) ((k - 76) mod 64))"

definition inode_blocks :: "inode_table_handler \<Rightarrow> bytes list \<Rightarrow> inode \<Rightarrow> u32 list" where
  "inode_blocks h bs i = map (block_at h bs i) [0..<unat (in_blocks i)]"

definition meta_blocks :: "inode_table_handler \<Rightarrow> bytes list \<Rightarrow> inode \<Rightarrow> nat list" where
  "meta_blocks h bs i =
     (if 12 < unat (in_blocks i) then [data_addr h (in_indirect i)] else []) @
     (if 76 < unat (in_blocks i)
      then data_addr h (in_double i) #
           map (\<lambda>j. data_addr h (ptr bs (data_addr h (in_double i)) j))
             [0..<(unat (in_blocks i) - 76 + 63) div 64]
      else [])"

definition meta_ok :: "inode_table_handler \<Rightarrow> bytes list \<Rightarrow> inode \<Rightarrow> bool" where
  "meta_ok h bs i \<longleftrightarrow>
     unat (in_blocks i) \<le> MAX_BLOCKS \<and> distinct (meta_blocks h bs i) \<and>
     (\<forall>a \<in> set (meta_blocks h bs i). a < length bs)"

lemma count_simps [simp]:
  "DIRECT_COUNT = 12" "INDIRECT_COUNT = 64" "DOUBLE_COUNT = 4096" "MAX_BLOCKS = 4172"
  by (simp_all add: count_defs)

lemma length_set_ptr [simp]: "length (set_ptr bs a k v) = length bs"
  by (simp add: set_ptr_def)

lemma wf_set_ptr [simp]: "wf_blocks bs \<Longrightarrow> a < length bs \<Longrightarrow> k < 64 \<Longrightarrow> wf_blocks (set_ptr bs a k v)"
  by (simp add: set_ptr_def BLOCK_SIZE_def)

lemma ptr_set_ptr:
  assumes "wf_blocks bs" "a < length bs" "k < 64" "j < 64"
  shows "ptr (set_ptr bs a k v) b j = (if b = a \<and> j = k then v else ptr bs b j)"
proof -
  have len: "length (bs ! a) = 256" using assms by (simp add: BLOCK_SIZE_def)
  show ?thesis
  proof (cases "b = a")
    case False
    then show ?thesis by (auto simp: ptr_def set_ptr_def)
  next
    case True
    have "slice (splice (bs ! a) (k * 4) (u32_to_le v)) (j * 4) 4 = slice (bs ! a) (j * 4) 4" if "j \<noteq> k"
      using that assms len by (intro slice_splice_other) auto
    with True assms len show ?thesis by (auto simp: ptr_def set_ptr_def)
  qed
qed

lemma nth_set_ptr_other [simp]: "b \<noteq> a \<Longrightarrow> set_ptr bs a k v ! b = bs ! b"
  by (simp add: set_ptr_def)

lemma data_addr_inj: "data_addr h r = data_addr h r' \<longleftrightarrow> r = r'"
  by (simp add: data_addr_def word_unat_eq_iff)

lemma data_addr_word:
  assumes "data_addr h r < k" "k < 4294967296"
  shows "addW (ih_data_start h) r = Ok (ih_data_start h + r)"
    "addW r (ih_data_start h) = Ok (ih_data_start h + r)"
    "unat (ih_data_start h + r) = data_addr h r"
proof -
  have fit: "unat (ih_data_start h) + unat r < 4294967296" using assms by (simp add: data_addr_def)
  then show "addW (ih_data_start h) r = Ok (ih_data_start h + r)" by (simp add: addW_def)
  from fit show "addW r (ih_data_start h) = Ok (ih_data_start h + r)"
    by (simp add: addW_def add.commute [of "unat r"] add.commute [of r])
  from fit show "unat (ih_data_start h + r) = data_addr h r"
    using unat_add_small [of "ih_data_start h" r] by (simp add: data_addr_def)
qed

context block_device
begin

lemma read_data_execs:
  assumes "data_addr h r < length bs" "length bs < 4294967296"
  shows "execs inv blks (read_block ops (ih_data_start h + r)) bs (Ok (bs ! data_addr h r)) bs"
  using read_execs [of "ih_data_start h + r" bs] data_addr_word(3) [OF assms] assms(1) by simp

lemma write_data_execs:
  assumes "data_addr h r < length bs" "length bs < 4294967296" "length buf = BLOCK_SIZE"
  shows "execs inv blks (write_block ops (ih_data_start h + r) buf) bs (Ok ()) (bs[data_addr h r := buf])"
  using write_execs [of "ih_data_start h + r" bs buf] data_addr_word(3) [OF assms(1,2)] assms by simp

lemma resolve_indirect_execs:
  assumes "data_addr h r < length bs" "k < 64"
  shows "execs inv blks (resolve_indirect ops h r k) bs (Ok (ptr bs (data_addr h r) k)) bs"
    "execs inv blks (resolve_double ops h r k) bs (Ok (ptr bs (data_addr h r) k)) bs"
proof -
  have "execs inv blks (resolve_indirect ops h r k) bs (Ok (ptr bs (data_addr h r) k)) bs \<and>
    execs inv blks (resolve_double ops h r k) bs (Ok (ptr bs (data_addr h r) k)) bs"
    if "wf_blocks bs" and small: "length bs < 4294967296"
    using assms that data_addr_word [OF assms(1) small] wf_blocks_nth [OF that(1) assms(1)]
    by (auto simp: resolve_indirect_def resolve_double_def sliceR_def ptr_def BLOCK_SIZE_def
        intro!: execs_bind read_data_execs)
  then show "execs inv blks (resolve_indirect ops h r k) bs (Ok (ptr bs (data_addr h r) k)) bs"
    "execs inv blks (resolve_double ops h r k) bs (Ok (ptr bs (data_addr h r) k)) bs"
    by (auto intro: execs_wf)
qed

lemma get_block_execs:
  assumes wf: "inode_wf i" and ok: "meta_ok h bs i" and n: "n < in_blocks i"
  shows "execs inv blks (get_block ops h i n) bs (Ok (inode_blocks h bs i ! unat n)) bs"
proof -
  let ?k = "unat n"
  have k: "?k < unat (in_blocks i)" "?k < 4172" "\<not> in_blocks i \<le> n"
    using n ok by (auto simp: meta_ok_def word_less_nat_alt word_le_nat_alt)
  have res: "inode_blocks h bs i ! ?k = block_at h bs i ?k" using k by (simp add: inode_blocks_def)
  consider "?k < 12" | "12 \<le> ?k" "?k < 76" | "76 \<le> ?k" by linarith
  then show ?thesis
  proof cases
    case 1
    with wf k show ?thesis
      by (auto simp: get_block_def res block_at_def inode_wf_def indexR_def)
  next
    case 2
    then have "data_addr h (in_indirect i) < length bs" using ok k by (auto simp: meta_ok_def meta_blocks_def)
    with 2 k show ?thesis
      by (auto simp: get_block_def res block_at_def Let_def intro: resolve_indirect_execs)
  next
    case 3
    let ?j = "?k - 76"
    have "data_addr h (in_double i) < length bs" "?j div 64 < 64" "?j mod 64 < 64"
      using ok k 3 by (auto simp: meta_ok_def meta_blocks_def)
    moreover have "?j div 64 < (unat (in_blocks i) - 76 + 63) div 64" using k 3 by linarith
    then have "data_addr h (ptr bs (data_addr h (in_double i)) (?j div 64)) < length bs"
      using ok k 3 by (auto simp: meta_ok_def meta_blocks_def)
    ultimately show ?thesis
      using 3 k
      by (auto simp: get_block_def res block_at_def Let_def intro!: execs_bind resolve_indirect_execs)
  qed
qed

end


text \<open>
  One more block at position \<open>k\<close>. In the direct and indirect regions the new address goes to a
  fixed place; in the double-indirect region to entry \<open>m\<close> of the \<open>j\<close>-th pointer block \<open>ind\<close>, which
  is new (and then recorded in the double-indirect block) when \<open>m = 0\<close>.
\<close>

definition double_write ::
  "inode_table_handler \<Rightarrow> bytes list \<Rightarrow> u32 \<Rightarrow> u32 \<Rightarrow> nat \<Rightarrow> nat \<Rightarrow> u32 \<Rightarrow> bytes list" where
  "double_write h bs dbl ind j m b =
     (let bs1 = set_ptr bs (data_addr h ind) m b
      in if m = 0 then set_ptr bs1 (data_addr h dbl) j ind else bs1)"

lemma ptr_double_write:
  assumes wf: "wf_blocks bs" and a: "data_addr h ind < length bs" "data_addr h dbl < length bs"
    and neq: "data_addr h ind \<noteq> data_addr h dbl" and j: "j < 64" "m < 64" and x: "x < 64"
    and old: "m \<noteq> 0 \<Longrightarrow> ptr bs (data_addr h dbl) j = ind"
  shows "ptr (double_write h bs dbl ind j m b) a x =
    (if a = data_addr h dbl \<and> x = j then ind
     else if a = data_addr h ind \<and> x = m then b else ptr bs a x)"
  using assms by (auto simp: double_write_def Let_def ptr_set_ptr)

lemma inode_blocks_extend:
  assumes "unat (in_blocks i') = Suc (unat (in_blocks i))"
    and "\<And>x. x < unat (in_blocks i) \<Longrightarrow> block_at h bs' i' x = block_at h bs i x"
    and "block_at h bs' i' (unat (in_blocks i)) = b"
  shows "inode_blocks h bs' i' = inode_blocks h bs i @ [b]"
  using assms by (simp add: inode_blocks_def)

lemma double_step:
  assumes wf: "wf_blocks bs" and k: "unat (in_blocks i) = k" "76 \<le> k" "k < 4172"
    and j: "j = (k - 76) div 64" and m: "m = (k - 76) mod 64"
    and dbl: "76 < k \<Longrightarrow> in_double i = dbl" and old: "m \<noteq> 0 \<Longrightarrow> ptr bs (data_addr h dbl) j = ind"
    and M: "M = [data_addr h (in_indirect i), data_addr h dbl] @
      map (\<lambda>j. data_addr h (ptr bs (data_addr h dbl) j)) [0..<j] @ [data_addr h ind]"
    and ok: "distinct M" "\<forall>a \<in> set M. a < length bs"
    and i': "i' = i\<lparr>in_double := dbl, in_blocks := in_blocks i + 1\<rparr>"
  shows "inode_blocks h (double_write h bs dbl ind j m b) i' = inode_blocks h bs i @ [b] \<and>
    meta_blocks h (double_write h bs dbl ind j m b) i' = M"
proof -
  let ?bs' = "double_write h bs dbl ind j m b"
  have jm: "j < 64" "m < 64" "k = 76 + 64 * j + m" using j m k by auto
  have nd: "data_addr h ind \<noteq> data_addr h dbl" "data_addr h ind < length bs"
    "data_addr h dbl < length bs" "data_addr h (in_indirect i) \<noteq> data_addr h dbl"
    "data_addr h (in_indirect i) \<noteq> data_addr h ind" using ok M by auto
  have nj: "data_addr h (ptr bs (data_addr h dbl) x) \<noteq> data_addr h ind"
    "data_addr h (ptr bs (data_addr h dbl) x) \<noteq> data_addr h dbl" if "x < j" for x
    using ok(1) that unfolding M
    by (simp_all add: image_iff) (metis atLeastLessThan_iff le0)+
  note ptr' = ptr_double_write [OF wf nd(2,3,1) jm(1,2) _ old]
  have k': "unat (in_blocks i') = Suc k" using k i' unat_add_small [of "in_blocks i" 1] by simp
  have "inode_blocks h ?bs' i' = inode_blocks h bs i @ [b]"
  proof (rule inode_blocks_extend)
    show "unat (in_blocks i') = Suc (unat (in_blocks i))" using k' k by simp
    show "block_at h ?bs' i' (unat (in_blocks i)) = b"
      using k jm nd by (simp add: block_at_def i' ptr' flip: j m)
    fix x assume x: "x < unat (in_blocks i)"
    show "block_at h ?bs' i' x = block_at h bs i x"
    proof (cases "x < 76")
      case True
      then show ?thesis using nd by (auto simp: block_at_def i' ptr')
    next
      case False
      let ?j = "(x - 76) div 64" let ?m = "(x - 76) mod 64"
      have "in_double i = dbl" using False x k dbl by simp
      moreover have "?j < j \<or> ?j = j \<and> ?m < m"
        using False x k jm div_mult_mod_eq [of "x - 76" 64] mod_less_divisor [of 64 "x - 76"] by linarith
      moreover have "?j < 64" using False x k by linarith
      ultimately show ?thesis
        using False jm nd nj [of ?j] old by (auto simp: block_at_def i' ptr')
    qed
  qed
  moreover have "meta_blocks h ?bs' i' = M"
  proof -
    have "(Suc k - 76 + 63) div 64 = Suc j" using j k by linarith
    moreover have "map (\<lambda>j. data_addr h (ptr ?bs' (data_addr h dbl) j)) [0..<j] =
        map (\<lambda>j. data_addr h (ptr bs (data_addr h dbl) j)) [0..<j]"
      using jm nd by (simp add: ptr')
    moreover have "ptr ?bs' (data_addr h dbl) j = ind" using jm nd by (simp add: ptr')
    ultimately show ?thesis using k' k by (simp add: meta_blocks_def M i')
  qed
  ultimately show ?thesis ..
qed

lemma indirect_step:
  assumes wf: "wf_blocks bs" and k: "unat (in_blocks i) = k" "12 \<le> k" "k < 76"
    and ind: "12 < k \<Longrightarrow> in_indirect i = ind" and a: "data_addr h ind < length bs"
    and i': "i' = i\<lparr>in_indirect := ind, in_blocks := in_blocks i + 1\<rparr>"
  shows "inode_blocks h (set_ptr bs (data_addr h ind) (k - 12) b) i' = inode_blocks h bs i @ [b] \<and>
    meta_blocks h (set_ptr bs (data_addr h ind) (k - 12) b) i' = [data_addr h ind]"
proof
  have k': "unat (in_blocks i') = Suc k" using k i' unat_add_small [of "in_blocks i" 1] by simp
  show "inode_blocks h (set_ptr bs (data_addr h ind) (k - 12) b) i' = inode_blocks h bs i @ [b]"
    using k ind k' ptr_set_ptr [OF wf a]
    by (intro inode_blocks_extend) (auto simp: block_at_def i')
  show "meta_blocks h (set_ptr bs (data_addr h ind) (k - 12) b) i' = [data_addr h ind]"
    using k k' by (simp add: meta_blocks_def i')
qed

lemma direct_step:
  assumes wf: "inode_wf i" and k: "unat (in_blocks i) = k" "k < 12"
    and i': "i' = i\<lparr>in_direct := (in_direct i)[k := b], in_blocks := in_blocks i + 1\<rparr>"
  shows "inode_blocks h bs i' = inode_blocks h bs i @ [b] \<and> meta_blocks h bs i' = []"
proof
  have k': "unat (in_blocks i') = Suc k" using k i' unat_add_small [of "in_blocks i" 1] by simp
  show "inode_blocks h bs i' = inode_blocks h bs i @ [b]"
    using k k' wf by (intro inode_blocks_extend) (auto simp: block_at_def i' inode_wf_def)
  show "meta_blocks h bs i' = []" using k' k by (simp add: meta_blocks_def)
qed


text \<open>Pointer blocks needed for one more data block, and the ones a step takes from the pool.\<close>

definition need :: "nat \<Rightarrow> nat" where "need k = metadata_blocks (Suc k) - metadata_blocks k"

lemma need_simps:
  "k < 12 \<Longrightarrow> need k = 0" "need 12 = 1" "12 < k \<Longrightarrow> k < 76 \<Longrightarrow> need k = 0" "need 76 = 2"
  "76 < k \<Longrightarrow> need k = (if (k - 76) mod 64 = 0 then 1 else 0)"
proof -
  show "need k = (if (k - 76) mod 64 = 0 then 1 else 0)" if "76 < k" for k
  proof -
    obtain x where x: "k = 76 + x" using \<open>76 < k\<close> less_imp_add_positive by blast
    have "(63 + x) div 64 = (if x mod 64 = 0 then x div 64 else x div 64 + 1)"
      using nat_div_ceil [of 64 x] by (simp add: add.commute)
    moreover have "(64 + x) div 64 = Suc (x div 64)" by simp
    ultimately show ?thesis using that x by (simp add: need_def metadata_blocks_def)
  qed
qed (auto simp: need_def metadata_blocks_def)

lemma metadata_blocks_mono: "k \<le> l \<Longrightarrow> metadata_blocks k \<le> metadata_blocks l"
  by (auto simp: metadata_blocks_def Let_def intro!: div_le_mono)

lemma metadata_blocks_le: "k \<le> 4172 \<Longrightarrow> metadata_blocks k \<le> 66"
  by (auto simp: metadata_blocks_def Let_def)

definition same_attrs :: "inode \<Rightarrow> inode \<Rightarrow> bool" where
  "same_attrs i i' \<longleftrightarrow>
     in_size i' = in_size i \<and> in_file_type i' = in_file_type i \<and>
     in_permissions i' = in_permissions i \<and> in_links i' = in_links i \<and>
     in_created i' = in_created i \<and> in_modified i' = in_modified i"

context block_device
begin

lemma set_ptr_execs:
  assumes wf: "wf_blocks bs" and small: "length bs < 4294967296" and a: "data_addr h r < length bs" and k: "k < 64"
  shows "execs inv blks (bindM (read_block ops (ih_data_start h + r)) (\<lambda>buf.
      bindM (liftM (spliceR buf (k * 4) (u32_to_le v))) (write_block ops (ih_data_start h + r)))) bs
      (Ok ()) (set_ptr bs (data_addr h r) k v)"
  using assms wf_blocks_nth [OF wf a]
  by (auto simp: spliceR_def set_ptr_def BLOCK_SIZE_def intro!: execs_bind read_data_execs write_data_execs)

lemma write_indirect_execs:
  assumes wf: "wf_blocks bs" and small: "length bs < 4294967296" and a: "data_addr h ind < length bs"
    and idx: "index < 64"
    and ind: "if index = 0 then pi < length pool \<and> pool ! pi = ind \<and> pi' = pi + 1
              else in_indirect i = ind \<and> pi' = pi"
  shows "execs inv blks (write_indirect ops h i b pool pi index) bs
    (Ok (i\<lparr>in_indirect := ind\<rparr>, pi')) (set_ptr bs (data_addr h ind) index b)"
proof -
  have sel: "(if index = 0 then if pool = [] then throwM (not_enough_blocks 1 pool)
       else bindM (liftM (indexR pool pi)) (\<lambda>p. returnM (p, pi + 1))
     else returnM (in_indirect i, pi)) = returnM (ind, pi')"
    using ind by (auto simp: indexR_def)
  have eq: "write_indirect ops h i b pool pi index = bindM (bindM (read_block ops (ih_data_start h + ind)) (\<lambda>buf.
      bindM (liftM (spliceR buf (index * 4) (u32_to_le b))) (write_block ops (ih_data_start h + ind))))
      (\<lambda>_. returnM (i\<lparr>in_indirect := ind\<rparr>, pi'))"
    unfolding write_indirect_def sel using data_addr_word(2) [OF a small] by (simp add: bindM_assoc)
  show ?thesis unfolding eq by (rule execs_bind [OF set_ptr_execs [OF wf small a idx]]) auto
qed

lemma write_double_execs:
  assumes wf: "wf_blocks bs" and small: "length bs < 4294967296"
    and a: "data_addr h ind < length bs" "data_addr h dbl < length bs" "data_addr h ind \<noteq> data_addr h dbl"
    and idx: "index < 4096" and j: "j = index div 64" and m: "m = index mod 64"
    and dbl: "if index = 0 then 2 \<le> length pool \<and> pi < length pool \<and> pool ! pi = dbl \<and> pi1 = pi + 1
              else in_double i = dbl \<and> pi1 = pi"
    and ind: "if m = 0 then pi1 < length pool \<and> pool ! pi1 = ind \<and> pi2 = pi1 + 1
              else ptr bs (data_addr h dbl) j = ind \<and> pi2 = pi1"
  shows "execs inv blks (write_double_indirect ops h i b pool pi index) bs
    (Ok (i\<lparr>in_double := dbl\<rparr>, pi2)) (double_write h bs dbl ind j m b)"
proof -
  have jm: "j < 64" "m < 64" using j m idx by auto
  have len: "length (bs ! data_addr h dbl) = 256" using wf a by (simp add: BLOCK_SIZE_def)
  have sel: "(if index = 0 then if length pool < 2 then throwM (not_enough_blocks 2 pool)
       else bindM (liftM (indexR pool pi)) (\<lambda>p. returnM (p, pi + 1))
     else returnM (in_double i, pi)) = returnM (dbl, pi1)"
    using dbl by (auto simp: indexR_def)
  have sel2: "(if m * 4 = 0 then if pool = [] then throwM (not_enough_blocks 1 pool)
       else bindM (liftM (indexR pool pi1)) (\<lambda>p. returnM (p, pi1 + 1))
     else bindM (liftM (sliceR (bs ! data_addr h dbl) (j * 4) 4))
            (\<lambda>b. returnM (u32_from_le b, pi1))) = returnM (ind, pi2)"
    using ind jm len by (auto simp: indexR_def sliceR_def ptr_def)
  let ?bs1 = "set_ptr bs (data_addr h ind) m b"
  have step1: "execs inv blks (bindM (read_block ops (ih_data_start h + ind)) (\<lambda>buf.
      bindM (liftM (spliceR buf (m * 4) (u32_to_le b))) (write_block ops (ih_data_start h + ind)))) bs
      (Ok ()) ?bs1" by (rule set_ptr_execs [OF wf small a(1) jm(2)])
  have step2: "execs inv blks (if m * 4 = 0
      then bindM (read_block ops (ih_data_start h + dbl)) (\<lambda>buf.
           bindM (liftM (spliceR buf (j * 4) (u32_to_le ind))) (write_block ops (ih_data_start h + dbl)))
      else returnM ()) ?bs1 (Ok ()) (double_write h bs dbl ind j m b)"
    using set_ptr_execs [of ?bs1 h dbl j ind] wf small a jm by (auto simp: double_write_def)
  have addr: "addW dbl (ih_data_start h) = Ok (ih_data_start h + dbl)"
    "addW ind (ih_data_start h) = Ok (ih_data_start h + ind)"
    using data_addr_word(2) [OF a(2) small] data_addr_word(2) [OF a(1) small] by simp_all
  have assoc: "bindM (read_block ops (ih_data_start h + ind)) (\<lambda>buf.
      bindM (liftM (spliceR buf (m * 4) (u32_to_le b))) (\<lambda>buf.
      bindM (write_block ops (ih_data_start h + ind) buf) k)) =
    bindM (bindM (read_block ops (ih_data_start h + ind)) (\<lambda>buf.
      bindM (liftM (spliceR buf (m * 4) (u32_to_le b))) (write_block ops (ih_data_start h + ind)))) k"
    for k :: "unit \<Rightarrow> ('d, inode \<times> nat) io"
    by (simp add: bindM_assoc)
  show ?thesis
    unfolding write_double_indirect_def Let_def sel
    apply (simp only: bindM_returnM split_conv addr bindM_liftM_Ok flip: j m)
    apply (rule execs_bind [OF read_data_execs [OF a(2) small]])
    apply (simp only: count_simps flip: j m)
    apply (simp only: sel2 bindM_returnM split_conv addr bindM_liftM_Ok assoc)
    apply (rule execs_bind [OF step1])
    apply (rule execs_bind [OF step2])
    apply (rule execs_return)
    done
qed

end


text \<open>
  \<open>extends h bs i bs' i' bl new\<close>: the inode \<open>i\<close> on \<open>bs\<close> grew to \<open>i'\<close> on \<open>bs'\<close> by the data blocks
  \<open>bl\<close> and the pointer blocks \<open>new\<close>, and nothing else on the device changed.
\<close>

definition extends ::
  "inode_table_handler \<Rightarrow> bytes list \<Rightarrow> inode \<Rightarrow> bytes list \<Rightarrow> inode \<Rightarrow> u32 list \<Rightarrow> nat list \<Rightarrow> bool" where
  "extends h bs i bs' i' bl new \<longleftrightarrow>
     inode_wf i' \<and> same_attrs i i' \<and> unat (in_blocks i') = unat (in_blocks i) + length bl \<and>
     inode_blocks h bs' i' = inode_blocks h bs i @ bl \<and>
     meta_blocks h bs' i' = meta_blocks h bs i @ new \<and>
     length bs' = length bs \<and> wf_blocks bs' \<and>
     (\<forall>a. a \<notin> set (meta_blocks h bs' i') \<longrightarrow> bs' ! a = bs ! a)"

lemma extends_refl: "inode_wf i \<Longrightarrow> wf_blocks bs \<Longrightarrow> extends h bs i bs i [] []"
  by (simp add: extends_def same_attrs_def)

lemma extends_trans:
  "extends h bs i bs1 i1 xs n1 \<Longrightarrow> extends h bs1 i1 bs2 i2 ys n2 \<Longrightarrow>
   extends h bs i bs2 i2 (xs @ ys) (n1 @ n2)"
  by (auto simp: extends_def same_attrs_def)

lemma extends_set_ptr:
  assumes "wf_blocks bs" "a < length bs" "k < 64" "inode_wf i'" "same_attrs i i'"
    "in_blocks i' = in_blocks i + 1" "unat (in_blocks i) < 4172" "a \<in> set (meta_blocks h bs i @ new)"
    "inode_blocks h (set_ptr bs a k v) i' = inode_blocks h bs i @ [b]"
    "meta_blocks h (set_ptr bs a k v) i' = meta_blocks h bs i @ new"
  shows "extends h bs i (set_ptr bs a k v) i' [b] new"
proof -
  have "\<forall>x. x \<notin> set (meta_blocks h bs i @ new) \<longrightarrow> set_ptr bs a k v ! x = bs ! x"
    using assms(8) by (metis nth_set_ptr_other)
  then show ?thesis using assms unat_add_small [of "in_blocks i" 1] by (simp add: extends_def)
qed

context block_device
begin

lemma place_direct:
  assumes wf: "wf_blocks bs" and i: "inode_wf i" and k: "unat (in_blocks i) < 12"
  shows "\<exists>i'. execs inv blks (place_block ops h pool b (i, pi)) bs (Ok (i', pi)) bs \<and>
    extends h bs i bs i' [b] []"
proof -
  define i' where "i' = i\<lparr>in_direct := (in_direct i)[unat (in_blocks i) := b], in_blocks := in_blocks i + 1\<rparr>"
  have k1: "unat (in_blocks i + 1) = Suc (unat (in_blocks i))" using k unat_add_small [of "in_blocks i" 1] by simp
  have "place_block ops h pool b (i, pi) = returnM (i', pi)"
    using k i by (simp add: place_block_def updateR_def inode_wf_def addW_def i'_def)
  moreover have "meta_blocks h bs i = []" using k by (simp add: meta_blocks_def)
  ultimately show ?thesis
    using direct_step [OF i refl k i'_def] i k1 wf
    by (intro exI [of _ i']) (auto simp: extends_def same_attrs_def i'_def inode_wf_def)
qed

lemma place_indirect:
  assumes wf: "wf_blocks bs" "length bs < 4294967296" and i: "inode_wf i" and ok: "meta_ok h bs i"
    and k: "unat (in_blocks i) = k" "12 \<le> k" "k < 76"
    and pool: "new = map (data_addr h) (take (need k) (drop pi pool))" "pi + need k \<le> length pool"
      "\<forall>a \<in> set new. a < length bs"
  shows "\<exists>i' bs'. execs inv blks (place_block ops h pool b (i, pi)) bs (Ok (i', pi + need k)) bs' \<and>
    extends h bs i bs' i' [b] new"
proof -
  define ind where "ind = (if k = 12 then pool ! pi else in_indirect i)"
  define i' where "i' = i\<lparr>in_indirect := ind, in_blocks := in_blocks i + 1\<rparr>"
  have mem: "meta_blocks h bs i @ new = [data_addr h ind]"
    using k pool(1,2) by (cases "k = 12") (auto simp: meta_blocks_def ind_def need_simps take_Suc_conv_app_nth)
  then have a: "data_addr h ind < length bs" using ok pool(3) by (auto simp: meta_ok_def Cons_eq_append_conv append_eq_Cons_conv)
  have sel: "if k - 12 = 0 then pi < length pool \<and> pool ! pi = ind \<and> pi + need k = pi + 1
      else in_indirect i = ind \<and> pi + need k = pi"
    using k pool(2) by (auto simp: ind_def need_simps)
  have "execs inv blks (place_block ops h pool b (i, pi)) bs (Ok (i', pi + need k))
      (set_ptr bs (data_addr h ind) (k - 12) b)"
  proof -
    have "place_block ops h pool b (i, pi) = bindM (write_indirect ops h i b pool pi (k - 12))
        (\<lambda>(inode, p). bindM (liftM (addW (in_blocks inode) 1)) (\<lambda>blocks. returnM (inode\<lparr>in_blocks := blocks\<rparr>, p)))"
      using k by (simp add: place_block_def)
    moreover have "k - 12 < 64" using k by simp
    ultimately show ?thesis
      using k by (simp only:) (rule execs_bind [OF write_indirect_execs [OF wf a _ sel]],
        auto simp: addW_def i'_def)
  qed
  moreover have "extends h bs i (set_ptr bs (data_addr h ind) (k - 12) b) i' [b] new"
    using wf a k i mem indirect_step [OF wf(1) k _ a i'_def]
    by (intro extends_set_ptr) (auto simp: i'_def same_attrs_def inode_wf_def ind_def)
  ultimately show ?thesis by blast
qed

lemma double_meta:
  fixes bs :: "bytes list"
  assumes k: "unat (in_blocks i) = k" "76 \<le> k" and pool: "new = map (data_addr h) (take (need k) (drop pi pool))" "pi + need k \<le> length pool"
  defines "j \<equiv> (k - 76) div 64" and "m \<equiv> (k - 76) mod 64" and "dbl \<equiv> if k = 76 then pool ! pi else in_double i"
  defines "ind \<equiv> if m = 0 then pool ! (if k = 76 then pi + 1 else pi) else ptr bs (data_addr h dbl) j"
  shows "meta_blocks h bs i @ new = [data_addr h (in_indirect i), data_addr h dbl] @
    map (\<lambda>j. data_addr h (ptr bs (data_addr h dbl) j)) [0..<j] @ [data_addr h ind]"
proof (cases "k = 76")
  case True
  then have "take 2 (drop pi pool) = [pool ! pi, pool ! (pi + 1)]"
    using pool(2) by (simp add: need_simps take_Suc_conv_app_nth numeral_2_eq_2)
  with True k pool(1) show ?thesis
    by (simp add: meta_blocks_def need_simps j_def m_def dbl_def ind_def)
next
  case False
  then have k76: "76 < k" using k by simp
  have div: "(k - 76 + 63) div 64 = (if m = 0 then j else Suc j)"
    using nat_div_ceil [of 64 "k - 76"] by (simp add: j_def m_def add.commute)
  have "new = (if m = 0 then [data_addr h (pool ! pi)] else [])"
    using pool(1,2) k76 by (auto simp: need_simps m_def take_Suc_conv_app_nth)
  with div k k76 show ?thesis
    by (auto simp: meta_blocks_def dbl_def ind_def)
qed

lemma place_double:
  assumes wf: "wf_blocks bs" "length bs < 4294967296" and i: "inode_wf i" and ok: "meta_ok h bs i"
    and k: "unat (in_blocks i) = k" "76 \<le> k" "k < 4172"
    and pool: "new = map (data_addr h) (take (need k) (drop pi pool))" "pi + need k \<le> length pool"
      "\<forall>a \<in> set new. a < length bs" "distinct (meta_blocks h bs i @ new)"
  shows "\<exists>i' bs'. execs inv blks (place_block ops h pool b (i, pi)) bs (Ok (i', pi + need k)) bs' \<and>
    extends h bs i bs' i' [b] new"
proof -
  define j m where "j = (k - 76) div 64" and "m = (k - 76) mod 64"
  define dbl where "dbl = (if k = 76 then pool ! pi else in_double i)"
  define pi1 where "pi1 = (if k = 76 then pi + 1 else pi)"
  define ind where "ind = (if m = 0 then pool ! pi1 else ptr bs (data_addr h dbl) j)"
  define i' where "i' = i\<lparr>in_double := dbl, in_blocks := in_blocks i + 1\<rparr>"
  let ?M = "[data_addr h (in_indirect i), data_addr h dbl] @
      map (\<lambda>j. data_addr h (ptr bs (data_addr h dbl) j)) [0..<j] @ [data_addr h ind]"
  let ?bs' = "double_write h bs dbl ind j m b"
  have mem: "meta_blocks h bs i @ new = ?M"
    unfolding ind_def pi1_def dbl_def j_def m_def by (rule double_meta [OF k(1,2) pool(1,2)])
  have dist: "distinct ?M" and lt: "\<forall>a \<in> set ?M. a < length bs"
    using pool(3,4) ok unfolding mem [symmetric] by (auto simp: meta_ok_def)
  have a: "data_addr h ind < length bs" "data_addr h dbl < length bs" "data_addr h ind \<noteq> data_addr h dbl"
    using dist lt by auto
  have sel: "if k - 76 = 0 then 2 \<le> length pool \<and> pi < length pool \<and> pool ! pi = dbl \<and> pi1 = pi + 1
      else in_double i = dbl \<and> pi1 = pi"
    using k pool(2) by (auto simp: dbl_def pi1_def need_simps)
  have sel2: "if m = 0 then pi1 < length pool \<and> pool ! pi1 = ind \<and> pi + need k = pi1 + 1
      else ptr bs (data_addr h dbl) j = ind \<and> pi + need k = pi1"
    using k pool(2) by (cases "k = 76") (auto simp: ind_def pi1_def m_def need_simps)
  have "execs inv blks (place_block ops h pool b (i, pi)) bs (Ok (i', pi + need k)) ?bs'"
  proof -
    have "place_block ops h pool b (i, pi) = bindM (write_double_indirect ops h i b pool pi (k - 76))
        (\<lambda>(inode, p). bindM (liftM (addW (in_blocks inode) 1)) (\<lambda>blocks. returnM (inode\<lparr>in_blocks := blocks\<rparr>, p)))"
      using k by (simp add: place_block_def)
    moreover have "k - 76 < 4096" using k by simp
    ultimately show ?thesis
      using k by (simp only:) (rule execs_bind [OF write_double_execs [OF wf a _ j_def m_def sel sel2]],
        auto simp: addW_def i'_def)
  qed
  moreover have "extends h bs i ?bs' i' [b] new"
  proof -
    have st: "inode_blocks h ?bs' i' = inode_blocks h bs i @ [b] \<and> meta_blocks h ?bs' i' = ?M"
      using k dist lt by (intro double_step [OF wf(1) k(1) _ _ j_def m_def]) (auto simp: i'_def dbl_def ind_def)
    have jm: "j < 64" "m < 64" using k by (auto simp: j_def m_def)
    then have w: "length ?bs' = length bs \<and> wf_blocks ?bs' \<and>
        (\<forall>x. x \<noteq> data_addr h ind \<longrightarrow> x \<noteq> data_addr h dbl \<longrightarrow> ?bs' ! x = bs ! x)"
      using wf a by (simp add: double_write_def Let_def)
    show ?thesis
      unfolding extends_def using w st i k mem unat_add_small [of "in_blocks i" 1]
      by (auto simp: i'_def same_attrs_def inode_wf_def)
  qed
  ultimately show ?thesis by blast
qed

lemma place_block_runs:
  assumes wf: "wf_blocks bs" "length bs < 4294967296" and i: "inode_wf i" and ok: "meta_ok h bs i"
    and k: "unat (in_blocks i) = k" "k < 4172"
    and pool: "new = map (data_addr h) (take (need k) (drop pi pool))" "pi + need k \<le> length pool"
      "\<forall>a \<in> set new. a < length bs" "distinct (meta_blocks h bs i @ new)"
  shows "\<exists>i' bs'. execs inv blks (place_block ops h pool b (i, pi)) bs (Ok (i', pi + need k)) bs' \<and>
    extends h bs i bs' i' [b] new \<and> meta_ok h bs' i'"
proof -
  have "\<exists>i' bs'. execs inv blks (place_block ops h pool b (i, pi)) bs (Ok (i', pi + need k)) bs' \<and>
    extends h bs i bs' i' [b] new"
  proof (cases "k < 12")
    case True
    then show ?thesis using place_direct [OF wf(1) i, of h pool b pi] k pool by (auto simp: need_simps)
  next
    case False
    then show ?thesis
      using place_indirect [OF wf i ok k(1) _ _ pool(1-3), of b]
        place_double [OF wf i ok k(1) _ k(2) pool(1-4), of b] by (cases "k < 76") auto
  qed
  then obtain i' bs' where "execs inv blks (place_block ops h pool b (i, pi)) bs (Ok (i', pi + need k)) bs'"
    and ext: "extends h bs i bs' i' [b] new" by blast
  moreover have "meta_ok h bs' i'"
    using ext ok pool(3,4) k by (auto simp: extends_def meta_ok_def)
  ultimately show ?thesis by blast
qed

lemma place_all_runs:
  assumes "wf_blocks bs" "length bs < 4294967296" "inode_wf i" "meta_ok h bs i"
    and "unat (in_blocks i) = k" "k + length bl \<le> 4172"
    and "tot = metadata_blocks (k + length bl) - metadata_blocks k"
    and "new = map (data_addr h) (take tot (drop pi pool))" "pi + tot \<le> length pool"
      "\<forall>a \<in> set new. a < length bs" "distinct (meta_blocks h bs i @ new)"
  shows "\<exists>i' bs'. execs inv blks (foldM (place_block ops h pool) bl (i, pi)) bs (Ok (i', pi + tot)) bs' \<and>
    extends h bs i bs' i' bl new \<and> meta_ok h bs' i'"
  using assms
proof (induction bl arbitrary: bs i k pi tot new)
  case Nil
  then show ?case using extends_refl [of i bs h] by auto
next
  case (Cons b bl)
  let ?n = "need k" let ?rest = "metadata_blocks (Suc k + length bl) - metadata_blocks (Suc k)"
  have tot: "tot = ?n + ?rest"
    using Cons.prems(7) metadata_blocks_mono [of k "Suc k"]
      metadata_blocks_mono [of "Suc k" "Suc k + length bl"] by (simp add: need_def)
  let ?new1 = "map (data_addr h) (take ?n (drop pi pool))"
  let ?new2 = "map (data_addr h) (take ?rest (drop (pi + ?n) pool))"
  have new: "new = ?new1 @ ?new2"
    using Cons.prems(8) by (simp add: tot take_add add.commute)
  have part: "k < 4172" "pi + ?n \<le> length pool" "pi + ?n + ?rest \<le> length pool"
    "\<forall>a \<in> set (?new1 @ ?new2). a < length bs" "distinct (meta_blocks h bs i @ ?new1 @ ?new2)"
    using Cons.prems(6,9,10,11) unfolding new tot by simp_all
  then have part1: "\<forall>a \<in> set ?new1. a < length bs" "distinct (meta_blocks h bs i @ ?new1)"
    by (simp, metis append.assoc distinct_append)
  have "\<exists>i1 bs1. execs inv blks (place_block ops h pool b (i, pi)) bs (Ok (i1, pi + ?n)) bs1 \<and>
      extends h bs i bs1 i1 [b] ?new1 \<and> meta_ok h bs1 i1"
    using Cons.prems(1-5) part part1 by (intro place_block_runs) simp_all
  then obtain i1 bs1 where run1: "execs inv blks (place_block ops h pool b (i, pi)) bs (Ok (i1, pi + ?n)) bs1"
    and ext1: "extends h bs i bs1 i1 [b] ?new1" and ok1: "meta_ok h bs1 i1" by blast
  have "\<exists>i' bs'. execs inv blks (foldM (place_block ops h pool) bl (i1, pi + ?n)) bs1
      (Ok (i', pi + ?n + ?rest)) bs' \<and> extends h bs1 i1 bs' i' bl ?new2 \<and> meta_ok h bs' i'"
    using Cons.prems(2,5,6) part ext1 [unfolded extends_def] ok1
    by (intro Cons.IH [where k = "Suc k"]) simp_all
  then obtain i' bs' where run2: "execs inv blks (foldM (place_block ops h pool) bl (i1, pi + ?n)) bs1
      (Ok (i', pi + ?n + ?rest)) bs'" and ext2: "extends h bs1 i1 bs' i' bl ?new2" and ok2: "meta_ok h bs' i'"
    by blast
  have "extends h bs i bs' i' (b # bl) new" using extends_trans [OF ext1 ext2] new by simp
  then show ?case
    using execs_bind [OF run1, of "foldM (place_block ops h pool) bl", OF run2] ok2
    by (auto simp: tot add.assoc)
qed

lemma add_blocks_execs:
  assumes i: "inode_wf i" and ok: "meta_ok h bs i"
    and k: "unat (in_blocks i) + length bl \<le> MAX_BLOCKS"
    and tot: "tot = metadata_blocks (unat (in_blocks i) + length bl) - metadata_blocks (unat (in_blocks i))"
    and pool: "tot \<le> length pool" "\<forall>p \<in> set (take tot pool). data_addr h p < length bs"
      "distinct (meta_blocks h bs i @ map (data_addr h) (take tot pool))"
    and wf: "wf_blocks bs" "length bs < 4294967296"
  shows "\<exists>i' bs'. execs inv blks (add_blocks ops h i bl pool) bs (Ok i') bs' \<and>
    extends h bs i bs' i' bl (map (data_addr h) (take tot pool)) \<and> meta_ok h bs' i'"
proof (cases "bl = []")
  case True
  then show ?thesis using tot ok extends_refl [OF i wf(1)] by (auto simp: add_blocks_def)
next
  case False
  have req: "blocks_necessary_to_grow_n i (of_nat (length bl)) = Ok (of_nat tot)"
    using k tot metadata_blocks_mono [of "unat (in_blocks i)" "unat (in_blocks i) + length bl"]
    by (simp add: blocks_necessary_to_grow_n_def subN_def unat_u32_of_nat Let_def)
  have "tot \<le> 4172" using tot k metadata_blocks_le [of "unat (in_blocks i) + length bl"] by simp
  then have "unat (of_nat tot :: u32) = tot" by (simp add: unat_u32_of_nat)
  moreover obtain i' bs' where run: "execs inv blks (foldM (place_block ops h pool) bl (i, 0)) bs (Ok (i', tot)) bs'"
    and ext: "extends h bs i bs' i' bl (map (data_addr h) (take tot pool))" "meta_ok h bs' i'"
    using place_all_runs [OF wf i ok refl _ tot refl, of 0 pool] k pool by auto
  ultimately have "execs inv blks (add_blocks ops h i bl pool) bs (Ok i') bs'"
    using False k pool(1) by (auto simp: add_blocks_def req intro!: execs_bind [OF run])
  with ext show ?thesis by blast
qed

end



section \<open>Frame\<close>

text \<open>The block list only depends on the pointer blocks and on the addresses of the inode.\<close>

lemma meta_blocks_frame:
  assumes "\<And>a. a \<in> set (meta_blocks h bs i) \<Longrightarrow> bs' ! a = bs ! a"
  shows "meta_blocks h bs' i = meta_blocks h bs i"
proof (cases "76 < unat (in_blocks i)")
  case True
  then have "bs' ! data_addr h (in_double i) = bs ! data_addr h (in_double i)"
    by (intro assms) (simp add: meta_blocks_def)
  then show ?thesis by (simp add: meta_blocks_def ptr_def)
qed (simp add: meta_blocks_def)

lemma inode_blocks_frame:
  assumes eq: "\<And>a. a \<in> set (meta_blocks h bs i) \<Longrightarrow> bs' ! a = bs ! a"
  shows "inode_blocks h bs' i = inode_blocks h bs i"
proof -
  have "block_at h bs' i k = block_at h bs i k" if k: "k < unat (in_blocks i)" for k
  proof -
    consider "k < 12" | "12 \<le> k" "k < 76" | "76 \<le> k" by linarith
    then show ?thesis
    proof cases
      case 2
      then have "bs' ! data_addr h (in_indirect i) = bs ! data_addr h (in_indirect i)"
        using k by (intro eq) (simp add: meta_blocks_def)
      then show ?thesis using 2 by (simp add: block_at_def ptr_def)
    next
      case 3
      let ?d = "data_addr h (in_double i)" and ?j = "(k - 76) div 64"
      have "?j < (unat (in_blocks i) - 76 + 63) div 64" using 3 k by (simp add: less_eq_div_iff_mult_less_eq Suc_le_eq [symmetric])
      then have "data_addr h (ptr bs ?d ?j) \<in> set (meta_blocks h bs i)" "?d \<in> set (meta_blocks h bs i)"
        using 3 k by (simp_all add: meta_blocks_def)
      then show ?thesis using 3 eq by (simp add: block_at_def ptr_def)
    qed (simp add: block_at_def)
  qed
  then show ?thesis by (simp add: inode_blocks_def)
qed

lemma inode_blocks_attrs [simp]:
  "inode_blocks h bs (i\<lparr>in_size := s\<rparr>) = inode_blocks h bs i"
  "inode_blocks h bs (i\<lparr>in_modified := t\<rparr>) = inode_blocks h bs i"
  "meta_blocks h bs (i\<lparr>in_size := s\<rparr>) = meta_blocks h bs i"
  "meta_blocks h bs (i\<lparr>in_modified := t\<rparr>) = meta_blocks h bs i"
  "meta_ok h bs (i\<lparr>in_size := s\<rparr>) = meta_ok h bs i"
  "meta_ok h bs (i\<lparr>in_modified := t\<rparr>) = meta_ok h bs i"
  by (simp_all add: inode_blocks_def meta_blocks_def meta_ok_def block_at_def [abs_def])

lemma inode_wf_attrs [simp]:
  "inode_wf (i\<lparr>in_size := s\<rparr>) = inode_wf i" "inode_wf (i\<lparr>in_modified := t\<rparr>) = inode_wf i"
  by (simp_all add: inode_wf_def)

lemma length_inode_blocks [simp]: "length (inode_blocks h bs i) = unat (in_blocks i)"
  by (simp add: inode_blocks_def)


section \<open>Properties\<close>

text \<open>
  On any device that satisfies the block-device contract, writing an inode into the table and
  reading it back returns the inode, every other inode reads as before, and no block of the device
  other than the one holding the inode changes (two inodes share a block).
\<close>

lemma inode_table_read_write:
  assumes dev: "block_device ops blks dinv" and d: "dinv d" and ok: "table_ok h (length (blks d))"
    and n: "unat n < inode_count h" and i: "inode_wf i"
  shows "\<exists>d1. write_inode ops h n i d = (Ok (), d1) \<and> fst (read_inode ops h n d1) = Ok i \<and>
    (\<forall>m. m \<noteq> n \<and> unat m < inode_count h \<longrightarrow> fst (read_inode ops h m d1) = fst (read_inode ops h m d)) \<and>
    (\<forall>a. a \<noteq> slot_block h n \<longrightarrow> blks d1 ! a = blks d ! a)"
proof -
  let ?bs = "blks d"
  have wf: "wf_blocks ?bs" using block_device.blocks_wf [OF dev d] .
  have lt: "slot_block h m < length ?bs" if "unat m < inode_count h" for m
    using that ok slot_bounds(2) [of m h] by (simp add: table_ok_def)
  from execsD [OF block_device.write_inode_execs [OF dev ok n i] d refl] obtain d1 where
    d1: "write_inode ops h n i d = (Ok (), d1)" "dinv d1" "blks d1 = put_inode h ?bs n i" by blast
  have read1: "fst (read_inode ops h m d1) = inode_at h (put_inode h ?bs n i) m" if "unat m < inode_count h" for m
  proof -
    have "table_ok h (length (blks d1))" using ok d1 by simp
    from execsD [OF block_device.read_inode_execs [OF dev this that] d1(2) refl] d1(3) show ?thesis by auto
  qed
  have read: "fst (read_inode ops h m d) = inode_at h ?bs m" if "unat m < inode_count h" for m
    using execsD [OF block_device.read_inode_execs [OF dev ok that] d refl] by auto
  have "fst (read_inode ops h n d1) = Ok i"
    using read1 [OF n] inode_at_put_same [OF wf lt [OF n] i] by simp
  moreover have "fst (read_inode ops h m d1) = fst (read_inode ops h m d)" if "m \<noteq> n" "unat m < inode_count h" for m
    using read1 [OF that(2)] read [OF that(2)] inode_at_put_other [OF wf lt [OF n] lt [OF that(2)] i that(1)] by simp
  moreover have "blks d1 ! a = ?bs ! a" if "a \<noteq> slot_block h n" for a
    using that d1(3) by (simp add: put_inode_def)
  ultimately show ?thesis using d1(1) by blast
qed

lemma inode_table_read_write_witness:
  "\<exists>d1. write_inode mem_ops \<lparr>ih_inode_table_start = 1, ih_inode_table_blocks = 2, ih_data_start = 3\<rparr>
      1 (inode_empty Directory 7 9) (mem_empty 4) = (Ok (), d1) \<and>
    fst (read_inode mem_ops \<lparr>ih_inode_table_start = 1, ih_inode_table_blocks = 2, ih_data_start = 3\<rparr> 1 d1) =
      Ok (inode_empty Directory 7 9)"
proof -
  let ?h = "\<lparr>ih_inode_table_start = 1, ih_inode_table_blocks = 2, ih_data_start = 3\<rparr> :: inode_table_handler"
  have "mem_inv (mem_empty 4)" "table_ok ?h (length (md_blocks (mem_empty 4)))" "unat (1 :: u32) < inode_count ?h"
    by (simp_all add: mem_empty_def mem_inv_def wf_blocks_def table_ok_def)
  from inode_table_read_write [OF mem.block_device_axioms this inode_wf_empty] show ?thesis by blast
qed

text \<open>
  C11. Growing an inode is appending: when the pool holds as many free pointer blocks as
  \<open>blocks_necessary_to_grow_n\<close> asks for, \<open>add_blocks\<close> succeeds, and from then on \<open>get_block\<close> reads
  the old block list followed by the new blocks, through the direct, indirect and double-indirect
  regions; the attributes of the inode are unchanged, the pointer blocks in use grow by exactly the
  blocks taken from the front of the pool, and every block that is not a pointer block of the inode
  is untouched.
\<close>

theorem add_blocks_appends:
  assumes dev: "block_device ops blks dinv" and d: "dinv d"
    and i: "inode_wf i" and ok: "meta_ok h (blks d) i"
    and k: "unat (in_blocks i) + length bl \<le> MAX_BLOCKS"
    and req: "blocks_necessary_to_grow_n i (of_nat (length bl)) = Ok n" "unat n \<le> length pool"
    and pool: "\<forall>p \<in> set pool. data_addr h p < length (blks d)"
      "distinct (meta_blocks h (blks d) i @ map (data_addr h) pool)"
  shows "\<exists>i' d1. add_blocks ops h i bl pool d = (Ok i', d1) \<and>
    unat (in_blocks i') = unat (in_blocks i) + length bl \<and> same_attrs i i' \<and>
    (\<forall>x < in_blocks i'. fst (get_block ops h i' x d1) = Ok ((inode_blocks h (blks d) i @ bl) ! unat x)) \<and>
    meta_blocks h (blks d1) i' = meta_blocks h (blks d) i @ map (data_addr h) (take (unat n) pool) \<and>
    (\<forall>a. a \<notin> set (meta_blocks h (blks d1) i') \<longrightarrow> blks d1 ! a = blks d ! a)"
proof -
  let ?bs = "blks d" let ?k = "unat (in_blocks i)"
  define tot where "tot = metadata_blocks (?k + length bl) - metadata_blocks ?k"
  have "tot \<le> 4172" using tot_def k metadata_blocks_le [of "?k + length bl"] by simp
  then have n: "unat n = tot"
    using req(1) k unfolding blocks_necessary_to_grow_n_def Let_def
    by (auto simp: subN_def bindR_eq_Ok tot_def unat_u32_of_nat simp del: of_nat_diff split: if_splits)
  have wf: "wf_blocks ?bs" "length ?bs < 4294967296"
    using block_device.blocks_wf [OF dev d] block_device.count_ok [OF dev d]
      unat_u32_bound [of "block_count ops d"] by simp_all
  have p: "\<forall>p \<in> set (take tot pool). data_addr h p < length ?bs"
    "distinct (meta_blocks h ?bs i @ map (data_addr h) (take tot pool))"
    using pool by (auto dest: in_set_takeD)
      (metis append.assoc append_take_drop_id distinct_append pool(2) take_map)
  from block_device.add_blocks_execs [OF dev i ok k tot_def _ p wf] req(2) n obtain i' bs' where
    run: "execs dinv blks (add_blocks ops h i bl pool) ?bs (Ok i') bs'"
    and ext: "extends h ?bs i bs' i' bl (map (data_addr h) (take tot pool))" "meta_ok h bs' i'"
    by auto
  from execsD [OF run d refl] obtain d1 where
    d1: "add_blocks ops h i bl pool d = (Ok i', d1)" "dinv d1" "blks d1 = bs'" by blast
  have "fst (get_block ops h i' x d1) = Ok ((inode_blocks h ?bs i @ bl) ! unat x)" if "x < in_blocks i'" for x
  proof -
    have "execs dinv blks (get_block ops h i' x) bs' (Ok (inode_blocks h bs' i' ! unat x)) bs'"
      using ext that by (intro block_device.get_block_execs [OF dev]) (auto simp: extends_def)
    from execsD [OF this d1(2,3)] ext show ?thesis by (auto simp: extends_def)
  qed
  with d1 ext n show ?thesis by (intro exI [of _ i'] exI [of _ d1]) (simp add: extends_def)
qed

theorem add_blocks_appends_witness:
  "\<exists>i' d1. add_blocks mem_ops \<lparr>ih_inode_table_start = 0, ih_inode_table_blocks = 1, ih_data_start = 1\<rparr>
      (inode_empty File 0 0) (map of_nat [10..<23]) [2] (mem_empty 4) = (Ok i', d1) \<and>
    fst (get_block mem_ops \<lparr>ih_inode_table_start = 0, ih_inode_table_blocks = 1, ih_data_start = 1\<rparr> i' 12 d1) = Ok 22"
proof -
  let ?h = "\<lparr>ih_inode_table_start = 0, ih_inode_table_blocks = 1, ih_data_start = 1\<rparr> :: inode_table_handler"
  let ?i = "inode_empty File 0 0" let ?bl = "map of_nat [10..<23] :: u32 list"
  have d: "mem_inv (mem_empty 4)" by (simp add: mem_empty_def mem_inv_def wf_blocks_def)
  have ok: "meta_ok ?h (md_blocks (mem_empty 4)) ?i"
    by (simp add: meta_ok_def meta_blocks_def inode_empty_def)
  have k: "unat (in_blocks ?i) + length ?bl \<le> MAX_BLOCKS" by (simp add: inode_empty_def)
  have req: "blocks_necessary_to_grow_n ?i (of_nat (length ?bl)) = Ok 1" "unat (1 :: u32) \<le> length [2 :: u32]"
    by (simp_all add: blocks_necessary_to_grow_n_def inode_empty_def subN_def metadata_blocks_def)
  have pool: "\<forall>p \<in> set [2]. data_addr ?h p < length (md_blocks (mem_empty 4))"
    "distinct (meta_blocks ?h (md_blocks (mem_empty 4)) ?i @ map (data_addr ?h) [2])"
    by (simp_all add: data_addr_def mem_empty_def meta_blocks_def inode_empty_def)
  from add_blocks_appends [OF mem.block_device_axioms d inode_wf_empty ok k req pool]
  obtain i' d1 where run: "add_blocks mem_ops ?h ?i ?bl [2] (mem_empty 4) = (Ok i', d1)"
    and n: "unat (in_blocks i') = 13"
    and get: "\<And>x. x < in_blocks i' \<Longrightarrow> fst (get_block mem_ops ?h i' x d1) =
        Ok ((inode_blocks ?h (md_blocks (mem_empty 4)) ?i @ ?bl) ! unat x)"
    by (auto simp: inode_empty_def)
  have "inode_blocks ?h (md_blocks (mem_empty 4)) ?i = []" by (simp add: inode_blocks_def inode_empty_def)
  then have "fst (get_block mem_ops ?h i' 12 d1) = Ok 22"
    using get [of 12] n by (simp add: word_less_nat_alt)
  with run show ?thesis by blast
qed

end
