(* ===== verification/Bitmap_Allocator.thy ===== *)
theory Bitmap_Allocator
  imports Memory_Device
begin

text \<open>
  \<open>BitmapAllocator\<close> of \<^verbatim>\<open>src/src/formats/v1/bitmap_allocator.rs\<close>: one bit per item, in blocks
  \<open>start .. start + size\<close> of the device. Operations that set \<open>last_alloc\<close> return the allocator.
  \<open>bit_at\<close> reads the bitmap off the device contents; every operation is specified by it.
\<close>

record bitmap_allocator =
  ba_start :: u32
  ba_size :: u32
  ba_max_index :: u32
  ba_last_alloc :: u32

definition bitmap_allocator_new :: "u32 \<Rightarrow> u32 \<Rightarrow> u32 \<Rightarrow> bitmap_allocator" where
  "bitmap_allocator_new start sz max_idx =
     \<lparr>ba_start = start, ba_size = sz, ba_max_index = max_idx, ba_last_alloc = 0\<rparr>"

abbreviation u32_range :: "u32 \<Rightarrow> u32 \<Rightarrow> u32 list" where
  "u32_range a b \<equiv> map of_nat [unat a..<unat b]"

definition get_index :: "u32 \<Rightarrow> u32 \<Rightarrow> u32 \<Rightarrow> u32 res" where
  "get_index bitmap_block byte_in_block bit_in_byte =
     bindR (mulW bitmap_block (of_nat BLOCK_SIZE)) (\<lambda>b.
     bindR (addW byte_in_block b) (\<lambda>byte.
     bindR (mulW byte 8) (\<lambda>i. addW i bit_in_byte)))"

definition unpack_index :: "u32 \<Rightarrow> u32 \<times> u32 \<times> u8" where
  "unpack_index index =
     (let byte_index = index div 8; bit_in_byte = index mod 8;
          bitmap_block = byte_index div of_nat BLOCK_SIZE;
          byte_in_block = byte_index mod of_nat BLOCK_SIZE
      in (bitmap_block, byte_in_block, ucast bit_in_byte))"

definition is_allocated :: "'d block_ops \<Rightarrow> bitmap_allocator \<Rightarrow> u32 \<Rightarrow> ('d, bool) io" where
  "is_allocated ops al block =
     (if ba_max_index al < block then returnM False
      else
        let (bitmap_block, byte, bit) = unpack_index block in
        bindM (liftM (addW (ba_start al) bitmap_block)) (\<lambda>addr.
        bindM (read_block ops addr) (\<lambda>buf.
        bindM (liftM (indexR buf (unat byte))) (\<lambda>byte.
        returnM (byte AND push_bit (unat bit) 1 \<noteq> 0)))))"

text \<open>
  The three nested loops of \<open>find_free\<close>: the eight bits of a byte (\<open>el\<close> is shifted right as the
  loop goes), the bytes of a bitmap block (full bytes are skipped), the bitmap blocks.
\<close>

definition scan_bit ::
  "bitmap_allocator \<Rightarrow> nat \<Rightarrow> u32 \<Rightarrow> u32 \<Rightarrow> u8 \<times> u32 list \<Rightarrow> ('d, (u8 \<times> u32 list, u32 list) ctl) io" where
  "scan_bit al num offset pos = (\<lambda>(el, res).
     bindM (liftM (addW offset pos)) (\<lambda>index.
     if ba_max_index al \<le> index then returnM (Brk (el, res))
     else if el AND 1 = 0
     then let res = res @ [index] in
          if length res = num then returnM (Ret res) else returnM (Cont (drop_bit 1 el, res))
     else returnM (Cont (drop_bit 1 el, res))))"

fun drop_el :: "('e \<times> 'a, 'r) ctl \<Rightarrow> ('a, 'r) ctl" where
  "drop_el (Cont (el, res)) = Cont res"
| "drop_el (Brk (el, res)) = Brk res"
| "drop_el (Ret r) = Ret r"

definition scan_byte ::
  "bitmap_allocator \<Rightarrow> nat \<Rightarrow> u32 \<Rightarrow> u8 \<Rightarrow> u32 list \<Rightarrow> ('d, (u32 list, u32 list) ctl) io" where
  "scan_byte al num offset el res =
     bindM (loopM (scan_bit al num offset) (map of_nat [0..<8]) (el, res)) (\<lambda>c. returnM (drop_el c))"

definition scan_block ::
  "bitmap_allocator \<Rightarrow> nat \<Rightarrow> u32 \<Rightarrow> bytes \<Rightarrow> nat list \<Rightarrow> u32 list \<Rightarrow> ('d, (u32 list, u32 list) ctl) io" where
  "scan_block al num i buf js res =
     loopM (\<lambda>j res.
       bindM (liftM (indexR buf j)) (\<lambda>el.
       if el = 255 then returnM (Cont res)
       else
         bindM (liftM (get_index i (of_nat j) 0)) (\<lambda>offset.
         scan_byte al num offset el res))) js res"

definition find_free_restart ::
  "'d block_ops \<Rightarrow> bitmap_allocator \<Rightarrow> nat \<Rightarrow> u32 \<Rightarrow> u32 \<Rightarrow> u32 list \<Rightarrow> ('d, u32 list) io" where
  "find_free_restart ops al num start_block start_byte res =
     bindM (loopM (\<lambda>i res.
       bindM (liftM (addW i (ba_start al))) (\<lambda>bitmap_addr.
       bindM (read_block ops bitmap_addr) (\<lambda>buf.
       let end' = if i = start_block then unat start_byte else BLOCK_SIZE in
       scan_block al num i buf [0..<end'] res)))
       (u32_range 0 start_block) res) (\<lambda>c.
     returnM (case c of Ret res \<Rightarrow> res | Cont res \<Rightarrow> res | Brk res \<Rightarrow> res))"

definition find_free :: "'d block_ops \<Rightarrow> bitmap_allocator \<Rightarrow> u32 \<Rightarrow> ('d, u32 list) io" where
  "find_free ops al n =
     (if n = 0 then returnM []
      else
        let num = unat n; (start_block, start_byte, _) = unpack_index (ba_last_alloc al) in
        bindM (loopM (\<lambda>i res.
          bindM (liftM (addW i (ba_start al))) (\<lambda>bitmap_addr.
          bindM (read_block ops bitmap_addr) (\<lambda>buf.
          let start = if i = start_block then unat start_byte else 0 in
          scan_block al num i buf [start..<BLOCK_SIZE] res)))
          (u32_range start_block (ba_size al)) []) (\<lambda>c.
        case c of
          Ret res \<Rightarrow> returnM res
        | Cont res \<Rightarrow> find_free_restart ops al num start_block start_byte res
        | Brk res \<Rightarrow> find_free_restart ops al num start_block start_byte res))"

text \<open>\<open>modify\<close>: one bitmap block is kept in a buffer until the next index lies in another block.\<close>

definition write_cached :: "'d block_ops \<Rightarrow> bitmap_allocator \<Rightarrow> bytes \<times> u32 \<Rightarrow> ('d, unit) io" where
  "write_cached ops al = (\<lambda>(buf, cached_block).
     if cached_block \<noteq> INVALID_ADDRESS
     then bindM (liftM (addW cached_block (ba_start al))) (\<lambda>addr. write_block ops addr buf)
     else returnM ())"

definition modify_step ::
  "'d block_ops \<Rightarrow> bitmap_allocator \<Rightarrow> (u8 \<Rightarrow> u8 \<Rightarrow> u8) \<Rightarrow> u32 \<Rightarrow> bytes \<times> u32 \<Rightarrow> ('d, bytes \<times> u32) io" where
  "modify_step ops al opn b = (\<lambda>(buf, cached_block).
     let (bitmap_block, byte_in_block, bit_in_byte) = unpack_index b in
     bindM (if bitmap_block \<noteq> cached_block
            then bindM (write_cached ops al (buf, cached_block)) (\<lambda>_.
                 bindM (liftM (addW bitmap_block (ba_start al))) (\<lambda>addr.
                 bindM (read_block ops addr) (\<lambda>buf. returnM (buf, bitmap_block))))
            else returnM (buf, cached_block)) (\<lambda>(buf, cached_block).
     bindM (liftM (indexR buf (unat byte_in_block))) (\<lambda>byte.
     bindM (liftM (updateR buf (unat byte_in_block) (opn byte bit_in_byte))) (\<lambda>buf.
     returnM (buf, cached_block)))))"

definition modify ::
  "'d block_ops \<Rightarrow> bitmap_allocator \<Rightarrow> u32 list \<Rightarrow> (u8 \<Rightarrow> u8 \<Rightarrow> u8) \<Rightarrow> ('d, unit) io" where
  "modify ops al blocks opn =
     (if blocks = [] then returnM ()
      else bindM (foldM (modify_step ops al opn) blocks (replicate BLOCK_SIZE 0, INVALID_ADDRESS))
             (write_cached ops al))"

text \<open>The closures passed to \<open>modify\<close>.\<close>

definition set_op :: "u8 \<Rightarrow> u8 \<Rightarrow> u8" where "set_op byte bt = byte OR push_bit (unat bt) 1"
definition clear_op :: "u8 \<Rightarrow> u8 \<Rightarrow> u8" where "clear_op byte bt = byte AND NOT (push_bit (unat bt) 1)"

definition allocate ::
  "'d block_ops \<Rightarrow> bitmap_allocator \<Rightarrow> u32 list \<Rightarrow> ('d, bitmap_allocator) io" where
  "allocate ops al blocks =
     (if length blocks = 0 then returnM al
      else
        bindM (modify ops al blocks set_op) (\<lambda>_.
        bindM (liftM (indexR blocks (length blocks - 1))) (\<lambda>l.
        returnM (al\<lparr>ba_last_alloc := l\<rparr>))))"

definition deallocate ::
  "'d block_ops \<Rightarrow> bitmap_allocator \<Rightarrow> u32 list \<Rightarrow> ('d, bitmap_allocator) io" where
  "deallocate ops al blocks =
     bindM (modify ops al blocks clear_op) (\<lambda>_.
     returnM al)"

definition trailing_ones :: "u8 \<Rightarrow> nat" where
  "trailing_ones x = length (takeWhile (bit x) [0..<8])"

definition find_allocate_byte ::
  "'d block_ops \<Rightarrow> bitmap_allocator \<Rightarrow> u32 \<Rightarrow> u32 \<Rightarrow> bytes \<Rightarrow> nat \<Rightarrow> unit \<Rightarrow>
   ('d, (unit, u32 \<times> bitmap_allocator) ctl) io" where
  "find_allocate_byte ops al i bitmap_addr buf j u =
     bindM (liftM (indexR buf j)) (\<lambda>el.
     if el = 255 then returnM (Cont u)
     else
       let pos = trailing_ones el in
       bindM (liftM (get_index i (of_nat j) (of_nat pos))) (\<lambda>index.
       if ba_max_index al \<le> index then throwM (StorageFull SF_None 1 0)
       else
         bindM (liftM (updateR buf j (set_op el (of_nat pos)))) (\<lambda>buf.
         bindM (write_block ops bitmap_addr buf) (\<lambda>_.
         returnM (Ret (index, al\<lparr>ba_last_alloc := index\<rparr>))))))"

definition find_allocate_block ::
  "'d block_ops \<Rightarrow> bitmap_allocator \<Rightarrow> u32 \<Rightarrow> unit \<Rightarrow> ('d, (unit, u32 \<times> bitmap_allocator) ctl) io" where
  "find_allocate_block ops al i u =
     bindM (liftM (addW i (ba_start al))) (\<lambda>bitmap_addr.
     bindM (read_block ops bitmap_addr) (\<lambda>buf.
     loopM (find_allocate_byte ops al i bitmap_addr buf) [0..<BLOCK_SIZE] u))"

definition find_allocate :: "'d block_ops \<Rightarrow> bitmap_allocator \<Rightarrow> ('d, u32 \<times> bitmap_allocator) io" where
  "find_allocate ops al =
     bindM (loopM (find_allocate_block ops al) (u32_range 0 (ba_size al)) ()) (\<lambda>c.
     case c of
       Ret r \<Rightarrow> returnM r
     | Cont _ \<Rightarrow> throwM (StorageFull SF_None 1 0)
     | Brk _ \<Rightarrow> throwM (StorageFull SF_None 1 0))"

definition max_index :: "bitmap_allocator \<Rightarrow> u32" where "max_index al = ba_max_index al"

text \<open>The three nested loops of \<open>count_allocated\<close>; leaving the region ends all of them.\<close>

definition count_bit ::
  "bitmap_allocator \<Rightarrow> u32 \<Rightarrow> u32 \<Rightarrow> u8 \<times> u32 \<Rightarrow> ('d, (u8 \<times> u32, u32) ctl) io" where
  "count_bit al offset pos = (\<lambda>(el, count).
     bindM (liftM (addW offset pos)) (\<lambda>index.
     if ba_max_index al \<le> index then returnM (Brk (el, count))
     else if el AND 1 \<noteq> 0
     then bindM (liftM (addW count 1)) (\<lambda>count. returnM (Cont (drop_bit 1 el, count)))
     else returnM (Cont (drop_bit 1 el, count))))"

definition count_block ::
  "bitmap_allocator \<Rightarrow> u32 \<Rightarrow> bytes \<Rightarrow> u32 \<Rightarrow> ('d, (u32, u32) ctl) io" where
  "count_block al i buf count =
     loopM (\<lambda>j count.
       bindM (liftM (indexR buf j)) (\<lambda>el.
       if el = 0 then returnM (Cont count)
       else
         bindM (liftM (get_index i (of_nat j) 0)) (\<lambda>offset.
         bindM (loopM (count_bit al offset) (map of_nat [0..<8]) (el, count)) (\<lambda>c.
         returnM (drop_el c))))) [0..<BLOCK_SIZE] count"

definition count_allocated :: "'d block_ops \<Rightarrow> bitmap_allocator \<Rightarrow> ('d, u32) io" where
  "count_allocated ops al =
     bindM (loopM (\<lambda>i count.
       bindM (liftM (addW i (ba_start al))) (\<lambda>bitmap_addr.
       bindM (read_block ops bitmap_addr) (\<lambda>buf. count_block al i buf count)))
       (u32_range 0 (ba_size al)) 0) (\<lambda>c.
     returnM (case c of Cont n \<Rightarrow> n | Brk n \<Rightarrow> n | Ret n \<Rightarrow> n))"


section \<open>Reading the bitmap\<close>

definition bitmap_ok :: "bitmap_allocator \<Rightarrow> nat \<Rightarrow> bool" where
  "bitmap_ok al k \<longleftrightarrow>
     unat (ba_start al) + unat (ba_size al) \<le> k \<and> unat (ba_size al) \<le> 2097152 \<and>
     unat (ba_max_index al) \<le> unat (ba_size al) * 2048"

definition bit_at :: "bitmap_allocator \<Rightarrow> bytes list \<Rightarrow> nat \<Rightarrow> bool" where
  "bit_at al bs x = bit (bs ! (unat (ba_start al) + x div 2048) ! (x mod 2048 div 8)) (x mod 8)"

lemma get_index_Ok:
  assumes "unat i < 2097152" "j < 256" "p < 8"
  shows "get_index i (of_nat j) (of_nat p) = Ok (of_nat ((j + unat i * 256) * 8 + p))"
    "unat (of_nat ((j + unat i * 256) * 8 + p) :: u32) = (j + unat i * 256) * 8 + p"
proof -
  have "unat i \<le> 2097151" "j \<le> 255" "p \<le> 7" using assms by simp_all
  then have small: "(j + unat i * 256) * 8 + p < 4294967296" by (simp add: algebra_simps)
  then show "unat (of_nat ((j + unat i * 256) * 8 + p) :: u32) = (j + unat i * 256) * 8 + p"
    by (rule unat_u32_of_nat)
  have m: "mulW i (of_nat BLOCK_SIZE) = Ok (of_nat (unat i * 256))"
    using small by (simp add: mulW_def BLOCK_SIZE_def)
  have a: "addW (of_nat j :: u32) (of_nat (unat i * 256)) = Ok (of_nat (j + unat i * 256))"
    using small assms by (simp only: addW_def unat_u32_of_nat) (simp add: unat_u32_of_nat)
  have m8: "mulW (of_nat (j + unat i * 256) :: u32) 8 = Ok (of_nat ((j + unat i * 256) * 8))"
    using small by (simp add: mulW_def unat_u32_of_nat del: of_nat_add of_nat_mult) simp
  have "addW (of_nat ((j + unat i * 256) * 8) :: u32) (of_nat p) = Ok (of_nat ((j + unat i * 256) * 8 + p))"
    using small assms by (simp add: addW_def unat_u32_of_nat del: of_nat_add of_nat_mult) simp
  then show "get_index i (of_nat j) (of_nat p) = Ok (of_nat ((j + unat i * 256) * 8 + p))"
    unfolding get_index_def by (simp only: m a m8 bindR.simps)
qed

lemma unpack_index_unat:
  assumes "unpack_index x = (blk, byte, bt)"
  shows "unat blk = unat x div 2048" "unat byte = unat x mod 2048 div 8" "unat bt = unat x mod 8"
    "unat blk < 2097152" "unat byte < 256" "unat bt < 8"
proof -
  have bt: "bt = ucast (x mod 8)" and blk: "blk = x div 8 div 256" and byte: "byte = x div 8 mod 256"
    using assms by (auto simp: unpack_index_def BLOCK_SIZE_def Let_def)
  have "unat (x mod 8) < 256" by (simp add: unat_mod)
  then show "unat bt = unat x mod 8" "unat bt < 8"
    by (simp_all add: bt unsigned_ucast_eq unat_mod take_bit_nat_eq_self)
  show u: "unat blk = unat x div 2048" by (simp add: blk unat_div flip: div_mult2_eq)
  show "unat byte = unat x mod 2048 div 8"
    using mod_mult2_eq [of "unat x" 8 256] by (simp add: byte unat_div unat_mod)
  then show "unat byte < 256" by simp
  show "unat blk < 2097152" using u unat_u32_bound [of x] by linarith
qed


text \<open>
  \<open>scanned num mx free c X res\<close>: covering the indices \<open>X\<close> from the result \<open>res\<close> collects the free
  ones below \<open>mx\<close>, stops as soon as there are \<open>num\<close> of them, and may break off at an index that is
  not below \<open>mx\<close>.
\<close>

definition scanned ::
  "nat \<Rightarrow> nat \<Rightarrow> (nat \<Rightarrow> bool) \<Rightarrow> (u32 list, u32 list) ctl \<Rightarrow> nat list \<Rightarrow> u32 list \<Rightarrow> bool" where
  "scanned num mx free c X res \<longleftrightarrow>
     (let found = res @ map of_nat (filter (\<lambda>x. x < mx \<and> free x) X)
      in if num \<le> length found then c = Ret (take num found)
         else c = Cont found \<or> c = Brk found \<and> (\<exists>x \<in> set X. mx \<le> x))"

lemma scanned_Nil: "length res < num \<Longrightarrow> scanned num mx free (Cont res) [] res"
  by (simp add: scanned_def)

lemma scanned_Cont:
  "scanned num mx free (Cont r1) X res \<Longrightarrow> scanned num mx free c Y r1 \<Longrightarrow>
   scanned num mx free c (X @ Y) res"
  by (auto simp: scanned_def Let_def split: if_splits)

lemma scanned_Brk:
  assumes "scanned num mx free (Brk r1) X res" "sorted (X @ Y)"
  shows "scanned num mx free (Brk r1) (X @ Y) res"
proof -
  from assms(1) obtain x where x: "x \<in> set X" "mx \<le> x" by (auto simp: scanned_def Let_def split: if_splits)
  then have "\<forall>y \<in> set Y. mx \<le> y" using assms(2) by (force simp: sorted_append)
  then have "filter (\<lambda>x. x < mx \<and> free x) Y = []" by (auto simp: filter_empty_conv)
  with assms x show ?thesis by (auto simp: scanned_def Let_def split: if_splits)
qed

lemma scanned_Ret: "scanned num mx free (Ret r) X res \<Longrightarrow> scanned num mx free (Ret r) (X @ Y) res"
  by (auto simp: scanned_def Let_def split: if_splits)

lemma scanned_keep: "scanned num mx free (Cont r1) X res \<Longrightarrow> length r1 < num"
  by (auto simp: scanned_def Let_def split: if_splits)

lemma scan_loop:
  assumes "\<And>x a. x \<in> set xs \<Longrightarrow> length a < num \<Longrightarrow>
      \<exists>c. execs I A (f x a) b (Ok c) b \<and> scanned num mx free c (X x) a"
    and "sorted (concat (map X xs))" "length a < num"
  shows "\<exists>c. execs I A (loopM f xs a) b (Ok c) b \<and> scanned num mx free c (concat (map X xs)) a"
proof (rule execs_loopM [where P = "scanned num mx free" and Q = "\<lambda>a. length a < num"])
  show "length a1 < num" if "scanned num mx free (Cont a1) X a" for a a1 X
    using that by (rule scanned_keep)
qed (use assms in \<open>auto intro: scanned_Nil scanned_Cont scanned_Brk scanned_Ret\<close>)

lemma scan_bit_step:
  assumes off: "unat offset + 8 \<le> 4294967296" and p: "p < 8" and free: "free (unat offset + p) = (\<not> bit el p)"
  defines "x \<equiv> unat offset + p"
  shows "scan_bit al num offset (of_nat p) (drop_bit p el, res) =
    returnM (if unat (ba_max_index al) \<le> x then Brk (drop_bit p el, res)
      else if free x then if Suc (length res) = num then Ret (res @ [of_nat x]) else Cont (drop_bit (Suc p) el, res @ [of_nat x])
      else Cont (drop_bit (Suc p) el, res))"
proof -
  have x: "addW offset (of_nat p) = Ok (of_nat x)" "unat (of_nat x :: u32) = x"
    using off p unfolding x_def by (simp_all add: addW_def unat_u32_of_nat del: of_nat_add) simp
  have fr: "(drop_bit p el AND 1 = 0) = free x"
    using free by (simp add: x_def and_one_eq even_drop_bit_iff_not_bit flip: even_iff_mod_2_eq_zero)
  have le: "(ba_max_index al \<le> of_nat x) = (unat (ba_max_index al) \<le> x)" using x(2) by (simp add: word_le_nat_alt)
  have sft: "drop_bit (Suc 0) (drop_bit p el) = drop_bit (Suc p) el" by simp
  show ?thesis unfolding scan_bit_def split_conv x(1) bindM_liftM_Ok le fr by (simp add: sft del: drop_bit_drop_bit)
qed

lemma scan_byte_execs:
  assumes off: "unat offset + 8 \<le> 4294967296" and num: "length res < num"
    and free: "\<And>p. p < 8 \<Longrightarrow> free (unat offset + p) = (\<not> bit el p)"
  shows "\<exists>c. execs I A (scan_byte al num offset el res) b (Ok c) b \<and>
    scanned num (unat (ba_max_index al)) free c [unat offset..<unat offset + 8] res"
proof -
  let ?mx = "unat (ba_max_index al)"
  have "length res < num \<Longrightarrow> \<exists>c. execs I A (loopM (scan_bit al num offset) (map of_nat [p..<8]) (drop_bit p el, res)) b (Ok c) b \<and>
      scanned num ?mx free (drop_el c) [unat offset + p..<unat offset + 8] res" if "p \<le> 8" for p res
    using that
  proof (induction p arbitrary: res rule: inc_induct)
    case base
    then show ?case by (intro exI [of _ "Cont (drop_bit 8 el, res)"]) (auto simp: scanned_def)
  next
    case (step p)
    let ?x = "unat offset + p"
    have rng: "[p..<8] = p # [Suc p..<8]" "[?x..<unat offset + 8] = [?x] @ [unat offset + Suc p..<unat offset + 8]"
      using step(2) by (simp_all add: upt_conv_Cons)
    note body = scan_bit_step [where free = free, OF off step(2) free [OF step(2)], of al num]
    have go: ?case if r: "?x < ?mx" "length r < num" "free ?x \<and> r = res @ [of_nat ?x] \<or> \<not> free ?x \<and> r = res" for r
    proof -
      have s: "scanned num ?mx free (Cont r) [?x] res" using r by (auto simp: scanned_def)
      from step.IH [OF r(2)] obtain c where "execs I A (loopM (scan_bit al num offset) (map of_nat [Suc p..<8]) (drop_bit (Suc p) el, r)) b (Ok c) b"
        "scanned num ?mx free (drop_el c) [unat offset + Suc p..<unat offset + 8] r" by auto
      with r s scanned_Cont [OF s] show ?thesis unfolding rng by (intro exI [of _ c]) (auto simp: body)
    qed
    consider "?mx \<le> ?x" | "?x < ?mx" "free ?x" "Suc (length res) = num"
      | "?x < ?mx" "free ?x" "length (res @ [of_nat ?x]) < num" | "?x < ?mx" "\<not> free ?x" using step(4) by fastforce
    then show ?case
    proof cases
      case 1
      have "scanned num ?mx free (Brk res) ([?x] @ [unat offset + Suc p..<unat offset + 8]) res"
        using 1 step(4) by (intro scanned_Brk) (auto simp: scanned_def)
      then show ?thesis unfolding rng using 1 by (intro exI [of _ "Brk (drop_bit p el, res)"]) (auto simp: body)
    next
      case 2
      have "scanned num ?mx free (Ret (res @ [of_nat ?x])) ([?x] @ [unat offset + Suc p..<unat offset + 8]) res"
        using 2 by (intro scanned_Ret) (auto simp: scanned_def)
      then show ?thesis unfolding rng using 2 by (intro exI [of _ "Ret (res @ [of_nat ?x])"]) (auto simp: body)
    qed (use go step(4) in blast)+
  qed
  from this [of 0 res] num show ?thesis
    by (auto simp: scan_byte_def intro: execs_bind)
qed


lemma bit_at_byte:
  assumes "j < 256" "p < 8"
  shows "bit_at al bs ((j + i * 256) * 8 + p) = bit (bs ! (unat (ba_start al) + i) ! j) p"
proof -
  have eq: "(j + i * 256) * 8 + p = (j * 8 + p) + i * 2048" by simp
  have "j * 8 + p < 2048" using assms by simp
  then have "((j + i * 256) * 8 + p) div 2048 = i" "((j + i * 256) * 8 + p) mod 2048 = j * 8 + p"
    unfolding eq by simp_all
  moreover have "(p + (j + i * 256) * 8) mod 8 = p" using assms by (simp only: mod_mult_self1) simp
  then have "((j + i * 256) * 8 + p) mod 8 = p" by (simp only: add.commute)
  ultimately show ?thesis using assms by (simp add: bit_at_def)
qed

lemma full_byte: "bit (255 :: u8) p \<longleftrightarrow> p < 8"
proof -
  have "(255 :: u8) = mask 8" by (simp add: mask_eq_exp_minus_1)
  then show ?thesis by (simp only: bit_mask_iff) simp
qed

lemma scan_block_execs:
  assumes i: "unat i < 2097152" and buf: "length buf = 256" "buf = bs ! (unat (ba_start al) + unat i)"
    and se: "s \<le> e" "e \<le> 256" and num: "length res < num"
  shows "\<exists>c. execs I A (scan_block al num i buf [s..<e] res) b (Ok c) b \<and>
    scanned num (unat (ba_max_index al)) (\<lambda>x. \<not> bit_at al bs x) c
      [(s + unat i * 256) * 8..<(e + unat i * 256) * 8] res"
proof -
  let ?f = "\<lambda>j. (j + unat i * 256) * 8" let ?free = "\<lambda>x. \<not> bit_at al bs x"
  have seg: "concat (map (\<lambda>j. [?f j..<?f (Suc j)]) [s..<e]) = [?f s..<?f e]"
    using se by (intro concat_map_upt) simp_all
  have "\<exists>c. execs I A (scan_block al num i buf [s..<e] res) b (Ok c) b \<and>
    scanned num (unat (ba_max_index al)) ?free c (concat (map (\<lambda>j. [?f j..<?f (Suc j)]) [s..<e])) res"
    unfolding scan_block_def
  proof (rule scan_loop)
    fix j and a :: "u32 list" assume "j \<in> set [s..<e]" and a: "length a < num"
    then have j: "j < 256" using se by simp
    have fr: "?free (?f j + p) = (\<not> bit (buf ! j) p)" if "p < 8" for p
      using bit_at_byte [OF j that] buf by simp
    have get: "get_index i (of_nat j) 0 = Ok (of_nat (?f j))" "unat (of_nat (?f j) :: u32) = ?f j"
      using get_index_Ok [OF i j, of 0] by simp_all
    have rng: "[?f j..<?f (Suc j)] = [?f j..<?f j + 8]" by (simp add: algebra_simps)
    show "\<exists>c. execs I A (bindM (liftM (indexR buf j)) (\<lambda>el. if el = 255 then returnM (Cont a)
         else bindM (liftM (get_index i (of_nat j) 0)) (\<lambda>offset. scan_byte al num offset el a))) b (Ok c) b \<and>
        scanned num (unat (ba_max_index al)) ?free c [?f j..<?f (Suc j)] a"
    proof (cases "buf ! j = 255")
      case True
      have "\<not> ?free x" if "?f j \<le> x" "x < ?f j + 8" for x
      proof -
        have "x - ?f j < 8" using that by linarith
        then show ?thesis using fr [of "x - ?f j"] that True full_byte [of "x - ?f j"] by simp
      qed
      then have "filter (\<lambda>x. x < unat (ba_max_index al) \<and> ?free x) [?f j..<?f (Suc j)] = []"
        unfolding rng by (auto simp: filter_empty_conv)
      with True a j buf show ?thesis
        by (intro exI [of _ "Cont a"]) (auto simp: scanned_def indexR_def)
    next
      case False
      have lim: "?f j + 8 \<le> 4294967296"
        using get_index_Ok(2) [OF i j, of 7] unat_u32_bound [of "of_nat (?f j + 7)"] by simp
      define off :: u32 where "off = of_nat (?f j)"
      have u: "unat off = ?f j" and g: "get_index i (of_nat j) 0 = Ok off"
        unfolding off_def by (rule get)+
      have "\<exists>c. execs I A (scan_byte al num off (buf ! j) a) b (Ok c) b \<and>
        scanned num (unat (ba_max_index al)) ?free c [unat off..<unat off + 8] a"
        using fr lim by (intro scan_byte_execs [OF _ a]) (simp_all only: u)
      then show ?thesis
        unfolding rng u using False j buf g by (auto simp: indexR_def)
    qed
  qed (use seg num in simp_all)
  with seg show ?thesis by simp
qed


definition find_order :: "bitmap_allocator \<Rightarrow> nat list" where
  "find_order al =
     (let last = unat (ba_last_alloc al)
      in [8 * (last div 8)..<unat (ba_size al) * 2048] @ [0..<last div 2048 * 2048])"

lemma u32_range_nth: "map f (u32_range a b) = map (\<lambda>k. f (of_nat k)) [unat a..<unat b]"
  by simp

lemma in_u32_range: "x \<in> set (u32_range a b) \<longleftrightarrow> unat a \<le> unat x \<and> unat x < unat b"
proof
  assume "x \<in> set (u32_range a b)"
  then obtain k where k: "unat a \<le> k" "k < unat b" "x = of_nat k" by auto
  then have "k < 4294967296" using unat_u32_bound [of b] by linarith
  then have "unat x = k" using k by (simp add: unat_u32_of_nat)
  with k show "unat a \<le> unat x \<and> unat x < unat b" by simp
next
  assume "unat a \<le> unat x \<and> unat x < unat b"
  then show "x \<in> set (u32_range a b)" by (auto intro!: image_eqI [of _ _ "unat x"])
qed

lemma concat_u32_range:
  assumes "\<And>j. g j \<le> g (Suc j)" "unat a \<le> unat b"
    and "\<And>i. unat a \<le> unat i \<Longrightarrow> unat i < unat b \<Longrightarrow> X i = [g (unat i)..<g (Suc (unat i))]"
  shows "concat (map X (u32_range a b)) = [g (unat a)..<g (unat b)]"
proof -
  have "map X (u32_range a b) = map (\<lambda>j. [g j..<g (Suc j)]) [unat a..<unat b]"
    unfolding u32_range_nth
  proof (rule map_cong [OF refl])
    fix k assume "k \<in> set [unat a..<unat b]"
    then have k: "unat a \<le> k" "k < unat b" by simp_all
    then have "k < 4294967296" using unat_u32_bound [of b] by linarith
    then show "X (of_nat k) = [g k..<g (Suc k)]"
      using assms(3) [of "of_nat k"] k by (simp add: unat_u32_of_nat)
  qed
  moreover have "concat (map (\<lambda>j. [g j..<g (Suc j)]) [unat a..<unat b]) = [g (unat a)..<g (unat b)]"
    using assms(1,2) by (intro concat_map_upt)
  ultimately show ?thesis by (simp only:)
qed

context block_device
begin

lemma read_bitmap_execs:
  assumes ok: "bitmap_ok al (length bs)" and i: "unat i < unat (ba_size al)"
    and small: "length bs < 4294967296"
  shows "addW i (ba_start al) = Ok (i + ba_start al)" "addW (ba_start al) i = Ok (i + ba_start al)"
    "unat (i + ba_start al) = unat (ba_start al) + unat i"
    "execs inv blks (read_block ops (i + ba_start al)) bs (Ok (bs ! (unat (ba_start al) + unat i))) bs"
proof -
  have lt: "unat (ba_start al) + unat i < length bs" using ok i by (simp add: bitmap_ok_def)
  then show "addW i (ba_start al) = Ok (i + ba_start al)" "addW (ba_start al) i = Ok (i + ba_start al)"
    using small by (simp_all add: addW_def add.commute [of "unat i"] add.commute [of "ba_start al" i])
  show u: "unat (i + ba_start al) = unat (ba_start al) + unat i"
    using lt small unat_add_small [of i "ba_start al"] by simp
  show "execs inv blks (read_block ops (i + ba_start al)) bs (Ok (bs ! (unat (ba_start al) + unat i))) bs"
    using read_execs [of "i + ba_start al" bs] lt u by simp
qed

lemma scan_blocks_execs:
  assumes ok: "bitmap_ok al (length bs)" and wf: "wf_blocks bs" and small: "length bs < 4294967296"
    and num: "length res < num" and ab: "unat a \<le> unat b" "unat b \<le> unat (ba_size al)"
    and frm: "\<And>i. unat a \<le> unat i \<Longrightarrow> unat i < unat b \<Longrightarrow> frm i \<le> til i \<and> til i \<le> 256"
    and seg: "concat (map (\<lambda>i. [(frm i + unat i * 256) * 8..<(til i + unat i * 256) * 8]) (u32_range a b)) = X"
      "sorted X"
  shows "\<exists>c. execs inv blks (loopM (\<lambda>i res.
      bindM (liftM (addW i (ba_start al))) (\<lambda>bitmap_addr.
      bindM (read_block ops bitmap_addr) (\<lambda>buf. scan_block al num i buf [frm i..<til i] res)))
      (u32_range a b) res) bs (Ok c) bs \<and>
    scanned num (unat (ba_max_index al)) (\<lambda>x. \<not> bit_at al bs x) c X res"
  unfolding seg(1) [symmetric]
proof (rule scan_loop)
  fix i and r :: "u32 list" assume "i \<in> set (u32_range a b)" and r: "length r < num"
  from this(1) [unfolded in_u32_range] have i: "unat a \<le> unat i" "unat i < unat b" "unat i < unat (ba_size al)" "unat i < 2097152"
    using ab ok by (auto simp: bitmap_ok_def)
  note rd = read_bitmap_execs [OF ok i(3) small]
  let ?buf = "bs ! (unat (ba_start al) + unat i)"
  have len: "length ?buf = 256" using ok i wf by (simp add: bitmap_ok_def BLOCK_SIZE_def)
  from scan_block_execs [OF i(4) len refl _ _ r, of "frm i" "til i" inv blks bs] frm [OF i(1,2)]
  obtain c where "execs inv blks (scan_block al num i ?buf [frm i..<til i] r) bs (Ok c) bs"
    "scanned num (unat (ba_max_index al)) (\<lambda>x. \<not> bit_at al bs x) c
      [(frm i + unat i * 256) * 8..<(til i + unat i * 256) * 8] r" by blast
  then show "\<exists>c. execs inv blks (bindM (liftM (addW i (ba_start al))) (\<lambda>bitmap_addr.
      bindM (read_block ops bitmap_addr) (\<lambda>buf. scan_block al num i buf [frm i..<til i] r))) bs (Ok c) bs \<and>
    scanned num (unat (ba_max_index al)) (\<lambda>x. \<not> bit_at al bs x) c
      [(frm i + unat i * 256) * 8..<(til i + unat i * 256) * 8] r"
    using rd(1,4) by (auto intro!: execs_bind)
qed (use seg num in simp_all)

end

text \<open>The indices the two loops of \<open>find_free\<close> go through.\<close>

lemma forward_order:
  assumes un: "unpack_index (ba_last_alloc al) = (sb, sy, st)" and last: "unat (ba_last_alloc al) < unat (ba_size al) * 2048"
  shows "unat sb < unat (ba_size al)"
    "concat (map (\<lambda>i. [((if i = sb then unat sy else 0) + unat i * 256) * 8..<(256 + unat i * 256) * 8]) (u32_range sb (ba_size al))) =
      [8 * (unat (ba_last_alloc al) div 8)..<unat (ba_size al) * 2048]"
proof -
  note u = unpack_index_unat [OF un]
  let ?last = "unat (ba_last_alloc al)"
  show sb: "unat sb < unat (ba_size al)" using u(1) last by (simp add: less_mult_imp_div_less)
  have "?last mod 2048 div 8 = ?last div 8 mod 256" using mod_mult2_eq [of ?last 8 256] by simp
  moreover have "?last div 2048 = ?last div 8 div 256" using div_mult2_eq [of ?last 8 256] by simp
  ultimately have last8: "8 * (?last div 8) = unat sb * 2048 + unat sy * 8"
    unfolding u(1,2) using div_mult_mod_eq [of "?last div 8" 256] by linarith
  let ?g = "\<lambda>k. if k = unat sb then 8 * (?last div 8) else k * 2048"
  have "concat (map (\<lambda>i. [((if i = sb then unat sy else 0) + unat i * 256) * 8..<(256 + unat i * 256) * 8]) (u32_range sb (ba_size al))) =
      [?g (unat sb)..<?g (unat (ba_size al))]"
    using sb u(5) by (intro concat_u32_range) (auto simp: last8 algebra_simps word_unat_eq_iff)
  then show "concat (map (\<lambda>i. [((if i = sb then unat sy else 0) + unat i * 256) * 8..<(256 + unat i * 256) * 8]) (u32_range sb (ba_size al))) =
      [8 * (?last div 8)..<unat (ba_size al) * 2048]" using sb by simp
qed

lemma restart_order:
  assumes un: "unpack_index (ba_last_alloc al) = (sb, sy, st)"
  shows "concat (map (\<lambda>i. [(0 + unat i * 256) * 8..<((if i = sb then unat sy else 256) + unat i * 256) * 8]) (u32_range 0 sb)) =
    [0..<unat (ba_last_alloc al) div 2048 * 2048]"
proof -
  have "concat (map (\<lambda>i. [(0 + unat i * 256) * 8..<((if i = sb then unat sy else 256) + unat i * 256) * 8]) (u32_range 0 sb)) =
      [unat (0 :: u32) * 2048..<unat sb * 2048]"
    by (rule concat_u32_range [where g = "\<lambda>k. k * 2048"]) (auto simp: algebra_simps)
  then show ?thesis by (simp add: unpack_index_unat(1) [OF un])
qed

context block_device
begin

lemma find_free_restart_execs:
  assumes ok: "bitmap_ok al (length bs)" and un: "unpack_index (ba_last_alloc al) = (sb, sy, st)" and sb: "unat sb < unat (ba_size al)"
    and res: "length res < num"
  shows "execs inv blks (find_free_restart ops al num sb sy res) bs
    (Ok (take num (res @ map of_nat (filter (\<lambda>x. x < unat (ba_max_index al) \<and> \<not> bit_at al bs x)
      [0..<unat (ba_last_alloc al) div 2048 * 2048])))) bs"
proof (rule execs_wf)
  assume wf: "wf_blocks bs" and small: "length bs < 4294967296"
  have til: "0 \<le> (if i = sb then unat sy else 256) \<and> (if i = sb then unat sy else 256) \<le> 256"
    for i using unpack_index_unat(5) [OF un] by simp
  let ?X = "[0..<unat (ba_last_alloc al) div 2048 * 2048]"
  from scan_blocks_execs [OF ok wf small res _ _ til restart_order [OF un]] sb obtain c where
    run: "execs inv blks (loopM (\<lambda>i res. bindM (liftM (addW i (ba_start al))) (\<lambda>bitmap_addr.
      bindM (read_block ops bitmap_addr) (\<lambda>buf. scan_block al num i buf
        [0..<if i = sb then unat sy else 256] res))) (u32_range 0 sb) res) bs (Ok c) bs"
    and c: "scanned num (unat (ba_max_index al)) (\<lambda>x. \<not> bit_at al bs x) c ?X res" by (auto simp: less_imp_le)
  have "execs inv blks (find_free_restart ops al num sb sy res) bs
      (Ok (case c of Ret res \<Rightarrow> res | Cont res \<Rightarrow> res | Brk res \<Rightarrow> res)) bs"
    unfolding find_free_restart_def Let_def BLOCK_SIZE_def by (rule execs_bind [OF run execs_return])
  moreover have "(case c of Ret res \<Rightarrow> res | Cont res \<Rightarrow> res | Brk res \<Rightarrow> res) =
      take num (res @ map of_nat (filter (\<lambda>x. x < unat (ba_max_index al) \<and> \<not> bit_at al bs x) ?X))"
    using c by (auto simp: scanned_def Let_def split: if_splits)
  ultimately show "execs inv blks (find_free_restart ops al num sb sy res) bs
    (Ok (take num (res @ map of_nat (filter (\<lambda>x. x < unat (ba_max_index al) \<and> \<not> bit_at al bs x) ?X)))) bs" by simp
qed

lemma find_free_execs:
  assumes ok: "bitmap_ok al (length bs)" and last: "unat (ba_last_alloc al) < unat (ba_size al) * 2048"
  shows "execs inv blks (find_free ops al n) bs
    (Ok (map of_nat (take (unat n)
      (filter (\<lambda>x. x < unat (ba_max_index al) \<and> \<not> bit_at al bs x) (find_order al))))) bs"
proof (cases "n = 0")
  case True
  then show ?thesis by (auto simp: find_free_def)
next
  case False
  let ?num = "unat n" let ?sel = "filter (\<lambda>x. x < unat (ba_max_index al) \<and> \<not> bit_at al bs x)"
  let ?X1 = "[8 * (unat (ba_last_alloc al) div 8)..<unat (ba_size al) * 2048]" let ?X2 = "[0..<unat (ba_last_alloc al) div 2048 * 2048]"
  let ?all = "map of_nat (take ?num (?sel (find_order al))) :: u32 list"
  obtain sb sy st where un: "unpack_index (ba_last_alloc al) = (sb, sy, st)" by (metis prod_cases3)
  note F = forward_order [OF un last]
  have num: "length ([] :: u32 list) < ?num" using False by (simp add: unat_gt_0)
  have order: "find_order al = ?X1 @ ?X2" by (simp add: find_order_def Let_def)
  show ?thesis
  proof (rule execs_wf)
    assume wf: "wf_blocks bs" and small: "length bs < 4294967296"
    from scan_blocks_execs [OF ok wf small num _ _ _ F(2)] F(1) unpack_index_unat(5) [OF un] obtain c where
      run: "execs inv blks (loopM (\<lambda>i res. bindM (liftM (addW i (ba_start al))) (\<lambda>bitmap_addr.
        bindM (read_block ops bitmap_addr) (\<lambda>buf. scan_block al ?num i buf [if i = sb then unat sy else 0..<256] res)))
        (u32_range sb (ba_size al)) []) bs (Ok c) bs"
      and c: "scanned ?num (unat (ba_max_index al)) (\<lambda>x. \<not> bit_at al bs x) c ?X1 []" by (auto simp: less_imp_le)
    have rest: "execs inv blks (case c of Ret res \<Rightarrow> returnM res
        | Cont res \<Rightarrow> find_free_restart ops al ?num sb sy res
        | Brk res \<Rightarrow> find_free_restart ops al ?num sb sy res) bs (Ok ?all) bs"
    proof (cases "?num \<le> length (?sel ?X1)")
      case True
      then have "c = Ret ?all" using c by (simp add: scanned_def order take_map)
      then show ?thesis by auto
    next
      case False
      let ?r = "map of_nat (?sel ?X1) :: u32 list"
      have eq: "take ?num (?r @ map of_nat (?sel ?X2)) = ?all" by (simp add: order take_map)
      have "execs inv blks (find_free_restart ops al ?num sb sy ?r) bs (Ok ?all) bs"
        using find_free_restart_execs [OF ok un F(1), of ?r ?num] False unfolding eq by simp
      moreover have "c = Cont ?r \<or> c = Brk ?r" using c False by (auto simp: scanned_def Let_def)
      ultimately show ?thesis by auto
    qed
    show "execs inv blks (find_free ops al n) bs (Ok ?all) bs"
      using False run rest unfolding find_free_def un Let_def split_conv
      by (simp add: BLOCK_SIZE_def) (rule execs_bind)
  qed
qed

end



section \<open>Changing the bitmap\<close>

definition upd_bit :: "bitmap_allocator \<Rightarrow> (u8 \<Rightarrow> u8 \<Rightarrow> u8) \<Rightarrow> bytes list \<Rightarrow> u32 \<Rightarrow> bytes list" where
  "upd_bit al opn bs b =
     (let a = unat (ba_start al) + unat b div 2048; y = unat b mod 2048 div 8
      in bs[a := (bs ! a)[y := opn (bs ! a ! y) (of_nat (unat b mod 8))]])"

definition overlay :: "bitmap_allocator \<Rightarrow> bytes \<times> u32 \<Rightarrow> bytes list \<Rightarrow> bytes list" where
  "overlay al = (\<lambda>(buf, cb) bs. if cb = INVALID_ADDRESS then bs else bs[unat (ba_start al) + unat cb := buf])"

definition cached_ok :: "bitmap_allocator \<Rightarrow> bytes \<times> u32 \<Rightarrow> bool" where
  "cached_ok al = (\<lambda>(buf, cb). cb = INVALID_ADDRESS \<or> unat cb < unat (ba_size al) \<and> length buf = 256)"

lemma length_upd_bit [simp]: "length (upd_bit al opn bs b) = length bs"
  by (simp add: upd_bit_def Let_def)

lemma length_overlay [simp]: "length (overlay al st bs) = length bs"
  by (cases st) (simp add: overlay_def)

lemma wf_upd_bit [simp]: "wf_blocks bs \<Longrightarrow> wf_blocks (upd_bit al opn bs b)"
  by (cases "unat (ba_start al) + unat b div 2048 < length bs") (simp_all add: upd_bit_def Let_def list_update_beyond not_less)

lemma wf_overlay: "wf_blocks bs \<Longrightarrow> cached_ok al st \<Longrightarrow> wf_blocks (overlay al st bs)"
  by (cases st) (auto simp: overlay_def cached_ok_def BLOCK_SIZE_def)

context block_device
begin

lemma write_cached_execs:
  assumes ok: "bitmap_ok al (length bs)" and st: "cached_ok al st" and small: "length bs < 4294967296"
  shows "execs inv blks (write_cached ops al st) bs (Ok ()) (overlay al st bs)"
proof -
  obtain buf cb where s: "st = (buf, cb)" by (cases st)
  show ?thesis
  proof (cases "cb = INVALID_ADDRESS")
    case True
    then show ?thesis by (auto simp: s write_cached_def overlay_def)
  next
    case False
    then have cb: "unat cb < unat (ba_size al)" "length buf = BLOCK_SIZE"
      using st by (auto simp: s cached_ok_def BLOCK_SIZE_def)
    note rd = read_bitmap_execs [OF ok cb(1) small]
    have "unat (cb + ba_start al) < length bs" using rd(3) cb ok by (simp add: bitmap_ok_def)
    from write_execs [OF this cb(2)] False rd show ?thesis
      by (auto simp: s write_cached_def overlay_def)
  qed
qed

lemma modify_step_execs:
  assumes ok: "bitmap_ok al (length bs)" and st: "cached_ok al st" and small: "length bs < 4294967296"
    and b: "unat b < unat (ba_size al) * 2048" and wf: "wf_blocks bs"
  shows "\<exists>st' bs'. execs inv blks (modify_step ops al opn b st) bs (Ok st') bs' \<and>
    cached_ok al st' \<and> wf_blocks bs' \<and> length bs' = length bs \<and>
    overlay al st' bs' = upd_bit al opn (overlay al st bs) b"
proof -
  obtain buf cb where s: "st = (buf, cb)" by (cases st)
  obtain bb y t where un: "unpack_index b = (bb, y, t)" by (metis prod_cases3)
  note u = unpack_index_unat [OF un]
  have t: "t = of_nat (unat b mod 8)" using u(3) by (simp add: word_unat_eq_iff unat_u8_of_nat)
  have bb: "unat bb < unat (ba_size al)" using b u(1) by (simp add: less_mult_imp_div_less)
  have inval: "bb \<noteq> INVALID_ADDRESS" using u(4) by auto
  let ?a = "unat (ba_start al) + unat bb"
  have a: "?a < length bs" using bb ok by (simp add: bitmap_ok_def)
  define bs1 where "bs1 = (if bb = cb then bs else overlay al st bs)"
  define buf1 where "buf1 = (if bb = cb then buf else bs1 ! ?a)"
  have ov: "wf_blocks (overlay al st bs)" using wf_overlay [OF wf st] .
  have len1: "length bs1 = length bs" "wf_blocks bs1" using wf ov by (auto simp: bs1_def)
  have buf1: "length buf1 = 256"
    using st a ov inval by (auto simp: buf1_def bs1_def s cached_ok_def BLOCK_SIZE_def)
  have same: "bs1[?a := buf1] = overlay al st bs"
    using inval by (auto simp: bs1_def buf1_def s overlay_def)
  have sel: "execs inv blks (if bb \<noteq> cb
      then bindM (write_cached ops al (buf, cb)) (\<lambda>_.
           bindM (liftM (addW bb (ba_start al))) (\<lambda>addr.
           bindM (read_block ops addr) (\<lambda>buf. returnM (buf, bb))))
      else returnM (buf, cb)) bs (Ok (buf1, bb)) bs1"
  proof (cases "bb = cb")
    case True
    then show ?thesis by (auto simp: buf1_def bs1_def)
  next
    case False
    have "execs inv blks (write_cached ops al (buf, cb)) bs (Ok ()) bs1"
      using write_cached_execs [OF ok st small] False by (simp add: s bs1_def)
    moreover have "bitmap_ok al (length bs1)" "length bs1 < 4294967296" using ok small len1 by simp_all
    note rd = read_bitmap_execs [OF this(1) bb this(2)]
    ultimately show ?thesis using False rd(1,4) by (auto simp: buf1_def intro!: execs_bind)
  qed
  let ?buf2 = "buf1[unat y := opn (buf1 ! unat y) t]"
  have "execs inv blks (modify_step ops al opn b st) bs (Ok (?buf2, bb)) bs1"
    unfolding modify_step_def s split_conv un Let_def
    using buf1 u(5) by (intro execs_bind [OF sel]) (auto simp: indexR_def updateR_def)
  moreover have "cached_ok al (?buf2, bb)" using bb buf1 by (simp add: cached_ok_def)
  moreover have "overlay al (?buf2, bb) bs1 = upd_bit al opn (overlay al st bs) b"
  proof -
    have "overlay al (?buf2, bb) bs1 = (bs1[?a := buf1])[?a := ?buf2]" using inval by (simp add: overlay_def)
    moreover have "(bs1[?a := buf1]) ! ?a = buf1" using a len1 by simp
    ultimately show ?thesis unfolding same upd_bit_def Let_def using u(1,2) t by simp
  qed
  ultimately show ?thesis using len1 by blast
qed

lemma modify_execs:
  assumes ok: "bitmap_ok al (length bs)" and blocks: "\<forall>b \<in> set blocks. unat b < unat (ba_size al) * 2048"
  shows "execs inv blks (modify ops al blocks opn) bs (Ok ()) (foldl (upd_bit al opn) bs blocks)"
proof (rule execs_wf)
  assume "wf_blocks bs" "length bs < 4294967296"
  then have "cached_ok al st \<Longrightarrow> bitmap_ok al (length bs) \<Longrightarrow>
    \<exists>st' bs'. execs inv blks (foldM (modify_step ops al opn) blocks st) bs (Ok st') bs' \<and>
      cached_ok al st' \<and> wf_blocks bs' \<and> length bs' = length bs \<and>
      overlay al st' bs' = foldl (upd_bit al opn) (overlay al st bs) blocks" for st
    using blocks
  proof (induction blocks arbitrary: st bs)
    case Nil
    then show ?case by (intro exI [of _ st] exI [of _ bs]) auto
  next
    case (Cons b blocks)
    from modify_step_execs [OF Cons.prems(2,1,4) _ Cons.prems(3), of b opn] Cons.prems(5) obtain st1 bs1 where
      s1: "execs inv blks (modify_step ops al opn b st) bs (Ok st1) bs1" "cached_ok al st1" "wf_blocks bs1"
      "length bs1 = length bs" "overlay al st1 bs1 = upd_bit al opn (overlay al st bs) b" by auto
    from Cons.IH [of st1 bs1] Cons.prems s1 obtain st2 bs2 where
      s2: "execs inv blks (foldM (modify_step ops al opn) blocks st1) bs1 (Ok st2) bs2" "cached_ok al st2" "wf_blocks bs2"
      "length bs2 = length bs" "overlay al st2 bs2 = foldl (upd_bit al opn) (overlay al st1 bs1) blocks" by auto
    have "execs inv blks (foldM (modify_step ops al opn) (b # blocks) st) bs (Ok st2) bs2"
      using execs_bind [OF s1(1), of "foldM (modify_step ops al opn) blocks", OF s2(1)] by simp
    with s1 s2 show ?case by (intro exI [of _ st2] exI [of _ bs2]) simp
  qed
  from this [of "(replicate BLOCK_SIZE 0, INVALID_ADDRESS)"] ok obtain st' bs' where
    s: "execs inv blks (foldM (modify_step ops al opn) blocks (replicate BLOCK_SIZE 0, INVALID_ADDRESS)) bs (Ok st') bs'"
    "cached_ok al st'" "length bs' = length bs" "overlay al st' bs' = foldl (upd_bit al opn) bs blocks"
    by (auto simp: cached_ok_def overlay_def)
  have "execs inv blks (write_cached ops al st') bs' (Ok ()) (overlay al st' bs')"
    using s ok \<open>length bs < 4294967296\<close> by (intro write_cached_execs) simp_all
  with s show "execs inv blks (modify ops al blocks opn) bs (Ok ()) (foldl (upd_bit al opn) bs blocks)"
    by (auto simp: modify_def intro: execs_bind)
qed

end


lemma bit_at_upd:
  assumes wf: "wf_blocks bs" and b: "unat (ba_start al) + unat b div 2048 < length bs"
  shows "bit_at al (upd_bit al opn bs b) x =
    (if x div 2048 = unat b div 2048 \<and> x mod 2048 div 8 = unat b mod 2048 div 8
     then bit (opn (bs ! (unat (ba_start al) + x div 2048) ! (x mod 2048 div 8)) (of_nat (unat b mod 8))) (x mod 8)
     else bit_at al bs x)"
proof -
  have "length (bs ! (unat (ba_start al) + unat b div 2048)) = 256" using wf b by (simp add: BLOCK_SIZE_def)
  then show ?thesis using b by (auto simp: bit_at_def upd_bit_def Let_def nth_list_update)
qed

lemma same_bit:
  assumes "x div 2048 = y div 2048" "x mod 2048 div 8 = y mod 2048 div 8"
  shows "x mod 8 = y mod 8 \<longleftrightarrow> x = (y :: nat)"
proof
  assume m: "x mod 8 = y mod 8"
  have "x mod 2048 mod 8 = x mod 8" "y mod 2048 mod 8 = y mod 8" by (simp_all add: mod_mod_cancel)
  then have "x mod 2048 = y mod 2048" using assms(2) m by (metis div_mult_mod_eq)
  then show "x = y" using assms(1) by (metis div_mult_mod_eq)
qed simp

lemma bit_at_set:
  assumes "wf_blocks bs" "unat (ba_start al) + unat b div 2048 < length bs"
  shows "bit_at al (upd_bit al set_op bs b) x \<longleftrightarrow> x = unat b \<or> bit_at al bs x"
proof -
  have bit: "bit (set_op z (of_nat (unat b mod 8))) (x mod 8) = (bit z (x mod 8) \<or> x mod 8 = unat b mod 8)" for z
    by (auto simp: set_op_def bit_or_iff bit_push_bit_iff bit_1_iff unat_u8_of_nat simp del: push_bit_of_1)
  show ?thesis unfolding bit_at_upd [OF assms] bit using same_bit [of x "unat b"] by (auto simp: bit_at_def)
qed

lemma bit_at_clear:
  assumes "wf_blocks bs" "unat (ba_start al) + unat b div 2048 < length bs"
  shows "bit_at al (upd_bit al clear_op bs b) x \<longleftrightarrow> x \<noteq> unat b \<and> bit_at al bs x"
proof -
  have bit: "bit (clear_op z (of_nat (unat b mod 8))) (x mod 8) = (bit z (x mod 8) \<and> x mod 8 \<noteq> unat b mod 8)" for z
    by (auto simp: clear_op_def bit_and_iff bit_not_iff bit_push_bit_iff bit_1_iff unat_u8_of_nat
        simp del: push_bit_of_1 dest: bit_imp_le_length)
  show ?thesis unfolding bit_at_upd [OF assms] bit using same_bit [of x "unat b"] by (auto simp: bit_at_def)
qed

lemma upd_bits_fold:
  assumes "wf_blocks bs" "bitmap_ok al (length bs)" "\<forall>b \<in> set blocks. unat b < unat (ba_size al) * 2048"
  shows "bit_at al (foldl (upd_bit al set_op) bs blocks) x \<longleftrightarrow> x \<in> unat ` set blocks \<or> bit_at al bs x"
    "bit_at al (foldl (upd_bit al clear_op) bs blocks) x \<longleftrightarrow> x \<notin> unat ` set blocks \<and> bit_at al bs x"
proof -
  have lt: "unat (ba_start al) + unat b div 2048 < k" if "bitmap_ok al k" "unat b < unat (ba_size al) * 2048" for b k
    using that less_mult_imp_div_less [of "unat b" "unat (ba_size al)" 2048] by (simp add: bitmap_ok_def)
  show "bit_at al (foldl (upd_bit al set_op) bs blocks) x \<longleftrightarrow> x \<in> unat ` set blocks \<or> bit_at al bs x"
    using assms by (induction blocks arbitrary: bs) (auto simp: bit_at_set lt)
  show "bit_at al (foldl (upd_bit al clear_op) bs blocks) x \<longleftrightarrow> x \<notin> unat ` set blocks \<and> bit_at al bs x"
    using assms by (induction blocks arbitrary: bs) (auto simp: bit_at_clear lt)
qed

lemma upd_bits_other:
  "a < unat (ba_start al) \<or> unat (ba_start al) + unat (ba_size al) \<le> a \<Longrightarrow>
   \<forall>b \<in> set blocks. unat b < unat (ba_size al) * 2048 \<Longrightarrow>
   foldl (upd_bit al opn) bs blocks ! a = bs ! a"
proof (induction blocks arbitrary: bs)
  case (Cons b blocks)
  have "unat b div 2048 < unat (ba_size al)" using Cons.prems(2) less_mult_imp_div_less by simp
  then have "upd_bit al opn bs b ! a = bs ! a" using Cons.prems(1) by (auto simp: upd_bit_def Let_def)
  with Cons show ?case by simp
qed simp

lemma length_upd_bits [simp]: "length (foldl (upd_bit al opn) bs blocks) = length bs"
  by (induction blocks arbitrary: bs) simp_all

lemma wf_upd_bits [simp]: "wf_blocks bs \<Longrightarrow> wf_blocks (foldl (upd_bit al opn) bs blocks)"
  by (induction blocks arbitrary: bs) simp_all

context block_device
begin

lemma allocate_execs:
  assumes "bitmap_ok al (length bs)" "\<forall>b \<in> set blocks. unat b < unat (ba_size al) * 2048"
  shows "execs inv blks (allocate ops al blocks) bs
    (Ok (if blocks = [] then al else al\<lparr>ba_last_alloc := last blocks\<rparr>)) (foldl (upd_bit al set_op) bs blocks)"
proof (cases "blocks = []")
  case True
  then show ?thesis by (auto simp: allocate_def)
next
  case False
  then have "indexR blocks (length blocks - 1) = Ok (last blocks)" by (simp add: indexR_def last_conv_nth)
  with False modify_execs [OF assms, of set_op] show ?thesis
    by (auto simp: allocate_def intro!: execs_bind)
qed

lemma deallocate_execs:
  assumes "bitmap_ok al (length bs)" "\<forall>b \<in> set blocks. unat b < unat (ba_size al) * 2048"
  shows "execs inv blks (deallocate ops al blocks) bs (Ok al) (foldl (upd_bit al clear_op) bs blocks)"
  using modify_execs [OF assms, of clear_op] by (auto simp: deallocate_def intro!: execs_bind)

lemma is_allocated_execs:
  assumes ok: "bitmap_ok al (length bs)" and b: "unat b < unat (ba_size al) * 2048"
  shows "execs inv blks (is_allocated ops al b) bs (Ok (b \<le> ba_max_index al \<and> bit_at al bs (unat b))) bs"
proof (cases "ba_max_index al < b")
  case True
  then have "\<not> b \<le> ba_max_index al" by simp
  with True show ?thesis by (auto simp: is_allocated_def)
next
  case False
  obtain bb y t where un: "unpack_index b = (bb, y, t)" by (metis prod_cases3)
  note u = unpack_index_unat [OF un]
  have bb: "unat bb < unat (ba_size al)" using b u(1) by (simp add: less_mult_imp_div_less)
  have bit: "(z AND push_bit k 1 \<noteq> 0) = bit z k" for z :: u8 and k
    by (simp only: bit_iff_and_push_bit_not_eq_0)
  show ?thesis
  proof (rule execs_wf)
    assume wf: "wf_blocks bs" and small: "length bs < 4294967296"
    note rd = read_bitmap_execs [OF ok bb small]
    have "length (bs ! (unat (ba_start al) + unat bb)) = 256"
      using wf bb ok by (simp add: bitmap_ok_def BLOCK_SIZE_def)
    with False u rd(2) show "execs inv blks (is_allocated ops al b) bs
        (Ok (b \<le> ba_max_index al \<and> bit_at al bs (unat b))) bs"
      unfolding is_allocated_def un
      by (auto simp: bit indexR_def bit_at_def not_less simp del: push_bit_of_1 intro!: execs_bind [OF rd(4)])
  qed
qed

end


section \<open>First fit\<close>

lemma loopM_skip:
  assumes "\<And>x. x \<in> set ys \<Longrightarrow> execs I A (f x a) b (Ok (Cont a)) b" "execs I A (loopM f xs a) b r b'"
  shows "execs I A (loopM f (ys @ xs) a) b r b'"
  using assms
proof (induction ys)
  case (Cons y ys)
  have "execs I A (loopM f (ys @ xs) a) b r b'" using Cons by auto
  then show ?case using Cons.prems(1) [of y] by (auto intro!: execs_bind [where v = "Cont a" and ?b1.0 = b])
qed simp

lemma loopM_all_skip:
  assumes "\<And>x. x \<in> set ys \<Longrightarrow> execs I A (f x a) b (Ok (Cont a)) b"
  shows "execs I A (loopM f ys a) b (Ok (Cont a)) b"
  using loopM_skip [of ys I A f a b "[]" "Ok (Cont a)" b] assms by auto

lemma loopM_stop:
  "execs I A (f x a) b (Ok (Ret r)) b' \<Longrightarrow> execs I A (loopM f (x # xs) a) b (Ok (Ret r)) b'"
  by (auto intro!: execs_bind [where v = "Ret r" and ?b1.0 = b'])

lemma full_byte_iff: "z = (255 :: u8) \<longleftrightarrow> (\<forall>p < 8. bit z p)"
proof
  show "\<forall>p < 8. bit z p" if "z = 255" using that full_byte by metis
  show "z = 255" if "\<forall>p < 8. bit z p"
  proof (rule bit_word_eqI)
    fix n assume "n < LENGTH(8)"
    then have "n < 8" by simp
    then show "bit z n = bit (255 :: u8) n" using that by (simp only: full_byte)
  qed
qed

lemma trailing_ones_eq:
  assumes "p < 8" "\<not> bit z p" "\<And>q. q < p \<Longrightarrow> bit z q"
  shows "trailing_ones z = p"
proof -
  have "takeWhile (bit z) [0..<8] = take p [0..<8]"
    using assms by (intro takeWhile_eq_take_P_nth) auto
  then show ?thesis using assms(1) by (simp add: trailing_ones_def)
qed

lemma pack_index: "r = a * 8 + m \<Longrightarrow> x = q * 2048 + r \<Longrightarrow> x = (a + q * 256) * 8 + (m :: nat)"
  by simp

lemma split_upt: "k < n \<Longrightarrow> [0..<n] = [0..<k] @ k # [Suc k..<n]"
  by (metis less_imp_le_nat le0 upt_add_eq_append upt_conv_Cons le_add_diff_inverse)

lemma split_u32_range:
  assumes "unat i < unat n"
  shows "\<exists>rest. u32_range 0 n = u32_range 0 i @ i # rest"
proof -
  have "u32_range 0 n = map of_nat ([0..<unat i] @ unat i # [Suc (unat i)..<unat n])"
    using split_upt [OF assms] by simp
  then show ?thesis by auto
qed

context block_device
begin

lemma full_block_skip:
  assumes ok: "bitmap_ok al (length bs)" and i: "unat i < unat (ba_size al)"
    and wf: "wf_blocks bs" and small: "length bs < 4294967296"
    and full: "\<And>y. unat i * 2048 \<le> y \<Longrightarrow> y < (unat i + 1) * 2048 \<Longrightarrow> bit_at al bs y"
  shows "execs inv blks (find_allocate_block ops al i u) bs (Ok (Cont u)) bs"
proof -
  note rd = read_bitmap_execs [OF ok i small]
  let ?buf = "bs ! (unat (ba_start al) + unat i)"
  have len: "length ?buf = 256" using ok i wf by (simp add: bitmap_ok_def BLOCK_SIZE_def)
  have "?buf ! j = 255" if "j < 256" for j
    using full [of "(j + unat i * 256) * 8 + p" for p] bit_at_byte [OF that, of _ al bs "unat i"] that
    by (auto simp: full_byte_iff)
  then have "execs inv blks (loopM (find_allocate_byte ops al i (i + ba_start al) ?buf) [0..<256] u) bs (Ok (Cont u)) bs"
    using len by (intro loopM_all_skip) (auto simp: find_allocate_byte_def indexR_def)
  then show ?thesis using rd unfolding find_allocate_block_def
    by (auto simp: BLOCK_SIZE_def intro!: execs_bind [OF rd(4)])
qed

lemma unpack_index_eq:
  assumes "unpack_index x = (i, y, t)"
  shows "unat x = (unat y + unat i * 256) * 8 + unat t"
proof -
  have "unat x mod 2048 mod 8 = unat x mod 8" by (simp add: mod_mod_cancel)
  then have "unat x mod 2048 = unat x mod 2048 div 8 * 8 + unat x mod 8"
    using div_mult_mod_eq [of "unat x mod 2048" 8] by simp
  moreover have "unat x = unat x div 2048 * 2048 + unat x mod 2048" by simp
  ultimately show ?thesis unfolding unpack_index_unat(1-3) [OF assms] by (rule pack_index)
qed

text \<open>The block that holds the first clear bit.\<close>

lemma find_allocate_block_execs:
  assumes ok: "bitmap_ok al (length bs)" and wf: "wf_blocks bs" and small: "length bs < 4294967296"
    and x: "unat x < unat (ba_max_index al)" "\<not> bit_at al bs (unat x)" "\<And>y. y < unat x \<Longrightarrow> bit_at al bs y"
    and un: "unpack_index x = (i, y, t)" and i: "unat i < unat (ba_size al)"
  shows "execs inv blks (find_allocate_block ops al i ()) bs (Ok (Ret (x, al\<lparr>ba_last_alloc := x\<rparr>))) (upd_bit al set_op bs x)"
proof -
  note u = unpack_index_unat [OF un] and xeq = unpack_index_eq [OF un] and rd = read_bitmap_execs [OF ok i small]
  let ?a = "unat (ba_start al) + unat i" let ?buf = "bs ! ?a" let ?j = "unat y" let ?p = "unat t"
  have len: "length ?buf = 256" using ok i wf by (simp add: bitmap_ok_def BLOCK_SIZE_def)
  have bt: "bit_at al bs ((j + unat i * 256) * 8 + p) = bit (?buf ! j) p" if "j < 256" "p < 8" for j p
    using bit_at_byte [OF that] .
  have before: "?buf ! j = 255" if "j < ?j" for j
    using x(3) bt [of j] that u(5) xeq by (auto simp: full_byte_iff)
  have pos: "trailing_ones (?buf ! ?j) = ?p"
  proof (rule trailing_ones_eq [OF u(6)])
    show "\<not> bit (?buf ! ?j) ?p" using x(2) bt [OF u(5,6)] xeq by simp
    show "bit (?buf ! ?j) q" if "q < ?p" for q
      using x(3) [of "(?j + unat i * 256) * 8 + q"] bt [OF u(5), of q] u(6) that xeq by simp
  qed
  have nz: "?buf ! ?j \<noteq> 255" using x(2) bt [OF u(5,6)] u(6) xeq by (auto simp: full_byte_iff)
  have get: "get_index i (of_nat ?j) (of_nat ?p) = Ok x"
    using get_index_Ok(1) [OF u(4-6)] xeq unfolding xeq [symmetric] by simp
  have mx: "\<not> ba_max_index al \<le> x" using x(1) by (simp add: word_le_nat_alt)
  let ?buf' = "?buf[?j := set_op (?buf ! ?j) (of_nat ?p)]"
  have "unat (i + ba_start al) < length bs" using rd(3) i ok by (simp add: bitmap_ok_def)
  then have wr: "execs inv blks (write_block ops (i + ba_start al) ?buf') bs (Ok ()) (upd_bit al set_op bs x)"
    using write_execs [of "i + ba_start al" bs ?buf'] len rd(3) u by (simp add: BLOCK_SIZE_def upd_bit_def Let_def)
  have stop: "execs inv blks (find_allocate_byte ops al i (i + ba_start al) ?buf ?j ()) bs
      (Ok (Ret (x, al\<lparr>ba_last_alloc := x\<rparr>))) (upd_bit al set_op bs x)"
    unfolding find_allocate_byte_def using len u(5) nz pos get mx wr
    by (auto simp: indexR_def updateR_def Let_def intro!: execs_bind)
  have "execs inv blks (loopM (find_allocate_byte ops al i (i + ba_start al) ?buf) [0..<256] ()) bs
      (Ok (Ret (x, al\<lparr>ba_last_alloc := x\<rparr>))) (upd_bit al set_op bs x)"
    unfolding split_upt [OF u(5)] using before len u(5)
    by (intro loopM_skip loopM_stop stop) (auto simp: find_allocate_byte_def indexR_def)
  then show ?thesis
    using rd unfolding find_allocate_block_def by (auto simp: BLOCK_SIZE_def intro!: execs_bind [OF rd(4)])
qed

lemma find_allocate_execs:
  assumes ok: "bitmap_ok al (length bs)"
    and x: "unat x < unat (ba_max_index al)" "\<not> bit_at al bs (unat x)" "\<And>y. y < unat x \<Longrightarrow> bit_at al bs y"
  shows "execs inv blks (find_allocate ops al) bs (Ok (x, al\<lparr>ba_last_alloc := x\<rparr>)) (upd_bit al set_op bs x)"
proof (rule execs_wf)
  assume wf: "wf_blocks bs" and small: "length bs < 4294967296"
  obtain i y t where un: "unpack_index x = (i, y, t)" by (metis prod_cases3)
  note u = unpack_index_unat [OF un] and xeq = unpack_index_eq [OF un]
  have i: "unat i < unat (ba_size al)" using x(1) ok u(1) by (simp add: bitmap_ok_def less_mult_imp_div_less)
  have blk: "execs inv blks (find_allocate_block ops al i ()) bs (Ok (Ret (x, al\<lparr>ba_last_alloc := x\<rparr>))) (upd_bit al set_op bs x)"
    by (rule find_allocate_block_execs [OF ok wf small x(1,2) _ un i]) (rule x(3))
  obtain rest where rng: "u32_range 0 (ba_size al) = u32_range 0 i @ i # rest" using split_u32_range [OF i] by blast
  have "execs inv blks (loopM (find_allocate_block ops al) (u32_range 0 (ba_size al)) ()) bs
      (Ok (Ret (x, al\<lparr>ba_last_alloc := x\<rparr>))) (upd_bit al set_op bs x)"
    unfolding rng
  proof (intro loopM_skip loopM_stop blk)
    fix k assume "k \<in> set (u32_range 0 i)"
    then have k: "unat k < unat i" unfolding in_u32_range by simp
    then show "execs inv blks (find_allocate_block ops al k ()) bs (Ok (Cont ())) bs"
      using i x(3) xeq by (intro full_block_skip [OF ok _ wf small]) auto
  qed
  then show "execs inv blks (find_allocate ops al) bs (Ok (x, al\<lparr>ba_last_alloc := x\<rparr>)) (upd_bit al set_op bs x)"
    unfolding find_allocate_def by (auto intro!: execs_bind)
qed

end



section \<open>Properties\<close>

lemma distinct_find_order: "distinct (find_order al)"
proof -
  let ?l = "unat (ba_last_alloc al)"
  have "?l div 2048 * 2048 \<le> 8 * (?l div 8)"
    using div_mult2_eq [of ?l 8 256] div_times_less_eq_dividend [of "?l div 8" 256] by simp
  then show ?thesis by (auto simp: find_order_def Let_def)
qed

lemma find_order_bound:
  "unat (ba_last_alloc al) < unat (ba_size al) * 2048 \<Longrightarrow> x \<in> set (find_order al) \<Longrightarrow>
   x < unat (ba_size al) * 2048"
  using div_times_less_eq_dividend [of "unat (ba_last_alloc al)" 2048]
  by (auto simp: find_order_def Let_def)

text \<open>
  C13. \<open>find_free\<close> followed by \<open>allocate\<close>, on any device that satisfies the block-device contract:
  the indices found are the first ones that are free and inside the region, in the scan order
  (from the byte of the last allocation to the end, then from the start to the bitmap block of the
  last allocation), without duplicates; allocating them sets exactly their bits and leaves every
  block outside the bitmap untouched.
\<close>

theorem find_free_allocate:
  assumes dev: "block_device ops blks dinv" and d: "dinv d" and ok: "bitmap_ok al (length (blks d))"
    and last: "unat (ba_last_alloc al) < unat (ba_size al) * 2048"
  shows "\<exists>xs d1 al' d2. find_free ops al n d = (Ok xs, d1) \<and> allocate ops al xs d1 = (Ok al', d2) \<and>
    map unat xs = take (unat n)
      (filter (\<lambda>x. x < unat (ba_max_index al) \<and> \<not> bit_at al (blks d) x) (find_order al)) \<and>
    distinct xs \<and>
    (\<forall>x. bit_at al (blks d2) x \<longleftrightarrow> x \<in> unat ` set xs \<or> bit_at al (blks d) x) \<and>
    (\<forall>a. a < unat (ba_start al) \<or> unat (ba_start al) + unat (ba_size al) \<le> a \<longrightarrow> blks d2 ! a = blks d ! a)"
proof -
  let ?ns = "take (unat n) (filter (\<lambda>x. x < unat (ba_max_index al) \<and> \<not> bit_at al (blks d) x) (find_order al))"
  let ?xs = "map of_nat ?ns :: u32 list"
  have wf: "wf_blocks (blks d)" by (rule block_device.blocks_wf [OF dev d])
  have small: "x < unat (ba_max_index al)" "x < unat (ba_size al) * 2048" if "x \<in> set ?ns" for x
    using that find_order_bound [OF last, of x] by (auto dest: in_set_takeD)
  then have "x < 4294967296" if "x \<in> set ?ns" for x
    using that unat_u32_bound [of "ba_max_index al"] less_trans by blast
  then have unat: "map unat ?xs = ?ns" by (simp add: map_idI unat_u32_of_nat)
  have "distinct (map unat ?xs)" unfolding unat using distinct_find_order by simp
  then have dist: "distinct ?xs" by (simp only: distinct_map)
  have bound: "\<forall>x \<in> set ?xs. unat x < unat (ba_size al) * 2048"
    using small(2) unat by (metis (no_types, lifting) image_eqI list.set_map)
  from execsD [OF block_device.find_free_execs [OF dev ok last] d refl] obtain d1 where
    d1: "find_free ops al n d = (Ok ?xs, d1)" "dinv d1" "blks d1 = blks d" by blast
  from execsD [OF block_device.allocate_execs [OF dev ok bound] d1(2,3)] obtain al' d2 where
    d2: "allocate ops al ?xs d1 = (Ok al', d2)" "blks d2 = foldl (upd_bit al set_op) (blks d) ?xs" by blast
  have "bit_at al (blks d2) x \<longleftrightarrow> x \<in> unat ` set ?xs \<or> bit_at al (blks d) x" for x
    unfolding d2(2) by (rule upd_bits_fold(1) [OF wf ok bound])
  moreover have "blks d2 ! a = blks d ! a"
    if "a < unat (ba_start al) \<or> unat (ba_start al) + unat (ba_size al) \<le> a" for a
    unfolding d2(2) by (rule upd_bits_other [OF that bound])
  ultimately show ?thesis using d1(1) d2(1) unat dist by blast
qed

theorem find_free_allocate_witness:
  "\<exists>xs d1 al' d2. find_free mem_ops (bitmap_allocator_new 1 1 10) 2 (mem_empty 3) = (Ok xs, d1) \<and>
    allocate mem_ops (bitmap_allocator_new 1 1 10) xs d1 = (Ok al', d2) \<and>
    bit_at (bitmap_allocator_new 1 1 10) (md_blocks d2) 1"
proof -
  let ?al = "bitmap_allocator_new 1 1 10"
  have bits: "\<not> bit_at ?al (md_blocks (mem_empty 3)) x" if "x < 10" for x
    using that by (simp add: bit_at_def mem_empty_def bitmap_allocator_new_def BLOCK_SIZE_def)
  have l: "8 * (unat (ba_last_alloc ?al) div 8) = 0" "unat (ba_size ?al) * 2048 = 2048"
    "unat (ba_last_alloc ?al) div 2048 * 2048 = 0" by (simp_all add: bitmap_allocator_new_def)
  have g: "[0..<n] = 0 # 1 # [2..<n]" if "2 < n" for n using that by (simp add: upt_conv_Cons numeral_2_eq_2)
  have "[0..<2048] = 0 # 1 # [2..<2048]" by (rule g) simp
  then have order: "find_order ?al = 0 # 1 # [2..<2048]"
    unfolding find_order_def Let_def l by (simp only: upt.simps append_Nil2)
  have pre: "mem_inv (mem_empty 3)" "bitmap_ok ?al (length (md_blocks (mem_empty 3)))"
    "unat (ba_last_alloc ?al) < unat (ba_size ?al) * 2048"
    by (simp_all add: mem_empty_def mem_inv_def wf_blocks_def bitmap_ok_def bitmap_allocator_new_def)
  from find_free_allocate [OF mem.block_device_axioms pre, of 2] obtain xs d1 al' d2 where
    run: "find_free mem_ops ?al 2 (mem_empty 3) = (Ok xs, d1)" "allocate mem_ops ?al xs d1 = (Ok al', d2)"
    and xs: "map unat xs = take 2 (filter (\<lambda>x. x < unat (ba_max_index ?al) \<and>
       \<not> bit_at ?al (md_blocks (mem_empty 3)) x) (find_order ?al))"
    and bit: "bit_at ?al (md_blocks d2) 1 \<longleftrightarrow> 1 \<in> unat ` set xs \<or> bit_at ?al (md_blocks (mem_empty 3)) 1"
    by auto
  have t: "take 2 (filter P (0 # 1 # ys)) = [0, 1]" if "P 0" "P 1" for P :: "nat \<Rightarrow> bool" and ys using that by simp
  let ?P = "\<lambda>x. x < unat (ba_max_index ?al) \<and> \<not> bit_at ?al (md_blocks (mem_empty 3)) x"
  have "?P 0" "?P 1" using bits [of 0] bits [of 1] by (simp_all add: bitmap_allocator_new_def)
  note first = t [of ?P, OF this, of "[2..<2048]"]
  have "map unat xs = [0, 1]" by (rule trans [OF xs [unfolded order] first])
  then have "1 \<in> unat ` set xs" by (metis list.set_intros(1,2) list.set_map)
  with run bit show ?thesis by blast
qed

text \<open>
  C27. \<open>find_free\<close> does not wrap all the way around: with the last allocation in the last byte of a
  one-block bitmap and that byte full, it reports no free index although index 0 is free.
\<close>

theorem find_free_misses_free:
  "fst (find_free mem_ops (bitmap_allocator_new 0 1 2048\<lparr>ba_last_alloc := 2047\<rparr>) 1
     \<lparr>md_blocks = [replicate 255 0 @ [255]]\<rparr>) = Ok [] \<and>
   \<not> bit_at (bitmap_allocator_new 0 1 2048) [replicate 255 0 @ [255]] 0"
proof -
  let ?al = "bitmap_allocator_new 0 1 2048\<lparr>ba_last_alloc := 2047\<rparr>" let ?bs = "[replicate 255 0 @ [255]] :: bytes list"
  have pre: "mem_inv \<lparr>md_blocks = ?bs\<rparr>" "bitmap_ok ?al (length ?bs)"
    "unat (ba_last_alloc ?al) < unat (ba_size ?al) * 2048"
    by (simp_all add: mem_inv_def wf_blocks_def bitmap_ok_def bitmap_allocator_new_def BLOCK_SIZE_def)
  have full: "bit_at ?al ?bs x" if "2040 \<le> x" "x < 2048" for x
  proof -
    have "x div 2048 = 0" "x mod 2048 div 8 = 255" using that by (simp_all add: div_nat_eqI)
    then show ?thesis using full_byte [of "x mod 8"]
      by (simp add: bit_at_def bitmap_allocator_new_def nth_append)
  qed
  have "find_order ?al = [2040..<2048]" by (simp add: find_order_def bitmap_allocator_new_def)
  then have "filter (\<lambda>x. x < unat (ba_max_index ?al) \<and> \<not> bit_at ?al ?bs x) (find_order ?al) = []"
    using full by (auto simp: filter_empty_conv)
  then have "fst (find_free mem_ops ?al 1 \<lparr>md_blocks = ?bs\<rparr>) = Ok []"
    using execsD [OF mem.find_free_execs [OF pre(2,3), of 1] pre(1)] by auto
  moreover have "\<not> bit_at (bitmap_allocator_new 0 1 2048) ?bs 0"
    by (simp add: bit_at_def bitmap_allocator_new_def nth_append)
  ultimately show ?thesis by blast
qed

text \<open>
  \<open>find_allocate\<close> is first fit: when the lowest free index lies inside the region, the call
  returns it, sets its bit and no other, and remembers it as the last allocation.
\<close>

lemma find_allocate_first_fit:
  assumes dev: "block_device ops blks dinv" and d: "dinv d" and ok: "bitmap_ok al (length (blks d))"
    and x: "unat x < unat (ba_max_index al)" "\<not> bit_at al (blks d) (unat x)"
      "\<forall>y < unat x. bit_at al (blks d) y"
  shows "\<exists>d'. find_allocate ops al d = (Ok (x, al\<lparr>ba_last_alloc := x\<rparr>), d') \<and>
    (\<forall>y. bit_at al (blks d') y \<longleftrightarrow> y = unat x \<or> bit_at al (blks d) y)"
proof -
  have "unat x div 2048 < unat (ba_size al)"
    using ok x(1) less_mult_imp_div_less [of "unat x" "unat (ba_size al)" 2048] by (simp add: bitmap_ok_def)
  then have lt: "unat (ba_start al) + unat x div 2048 < length (blks d)" using ok by (simp add: bitmap_ok_def)
  from execsD [OF block_device.find_allocate_execs [OF dev ok x(1,2)] d refl] x(3) obtain d' where
    "find_allocate ops al d = (Ok (x, al\<lparr>ba_last_alloc := x\<rparr>), d')" "blks d' = upd_bit al set_op (blks d) x"
    by blast
  then show ?thesis using bit_at_set [OF block_device.blocks_wf [OF dev d] lt] by auto
qed

lemma find_allocate_first_fit_witness:
  "\<exists>d'. find_allocate mem_ops (bitmap_allocator_new 1 1 10) (mem_empty 3) =
     (Ok (0, bitmap_allocator_new 1 1 10), d') \<and> bit_at (bitmap_allocator_new 1 1 10) (md_blocks d') 0"
proof -
  let ?al = "bitmap_allocator_new 1 1 10"
  have pre: "mem_inv (mem_empty 3)" "bitmap_ok ?al (length (md_blocks (mem_empty 3)))"
    "unat (0 :: u32) < unat (ba_max_index ?al)" "\<not> bit_at ?al (md_blocks (mem_empty 3)) (unat (0 :: u32))"
    "\<forall>y < unat (0 :: u32). bit_at ?al (md_blocks (mem_empty 3)) y"
    by (simp_all add: mem_empty_def mem_inv_def wf_blocks_def bitmap_ok_def bitmap_allocator_new_def
        bit_at_def BLOCK_SIZE_def)
  from find_allocate_first_fit [OF mem.block_device_axioms pre] show ?thesis
    by (auto simp: bitmap_allocator_new_def)
qed

text \<open>
  \<open>deallocate\<close> clears exactly the given bits, and \<open>is_allocated\<close> reports the bit of every index
  up to \<open>max_index\<close>.
\<close>

lemma deallocate_is_allocated:
  assumes dev: "block_device ops blks dinv" and d: "dinv d" and ok: "bitmap_ok al (length (blks d))"
    and xs: "\<forall>x \<in> set xs. unat x < unat (ba_size al) * 2048"
  shows "\<exists>d'. deallocate ops al xs d = (Ok al, d') \<and>
    (\<forall>y. bit_at al (blks d') y \<longleftrightarrow> y \<notin> unat ` set xs \<and> bit_at al (blks d) y) \<and>
    (\<forall>y. unat y < unat (ba_size al) * 2048 \<and> y \<le> ba_max_index al \<longrightarrow>
       fst (is_allocated ops al y d') = Ok (y \<notin> set xs \<and> bit_at al (blks d) (unat y)))"
proof -
  have wf: "wf_blocks (blks d)" by (rule block_device.blocks_wf [OF dev d])
  from execsD [OF block_device.deallocate_execs [OF dev ok xs] d refl] obtain d' where
    d': "deallocate ops al xs d = (Ok al, d')" "dinv d'" "blks d' = foldl (upd_bit al clear_op) (blks d) xs" by blast
  have bits: "bit_at al (blks d') y \<longleftrightarrow> y \<notin> unat ` set xs \<and> bit_at al (blks d) y" for y
    unfolding d'(3) by (rule upd_bits_fold(2) [OF wf ok xs])
  have "fst (is_allocated ops al y d') = Ok (y \<notin> set xs \<and> bit_at al (blks d) (unat y))"
    if y: "unat y < unat (ba_size al) * 2048" "y \<le> ba_max_index al" for y
  proof -
    have "bitmap_ok al (length (blks d'))" using ok d'(3) by simp
    note run = execsD [OF block_device.is_allocated_execs [OF dev this y(1)] d'(2) refl]
    have "unat y \<in> unat ` set xs \<longleftrightarrow> y \<in> set xs" by (metis (mono_tags) image_iff word_unat_eq_iff)
    with run y(2) bits [of "unat y"] show ?thesis by auto
  qed
  with d'(1) bits show ?thesis by blast
qed

end
