(* ===== verification/Directory_Handler.thy ===== *)
theory Directory_Handler
  imports Directory Path INode_Handler Bitmap_Allocator
begin

text \<open>
  \<open>DirectoryHandler\<close> of \<^verbatim>\<open>src/src/formats/v1/directory_handler.rs\<close>: iteration over the entries of a
  directory, search, path resolution with symbolic links, insertion and removal of entries. The
  closures passed to \<open>iterate\<close> get the state they capture as an argument and return it with their
  verdict; a closure may panic (slices of the entry name).
\<close>

record directory_handler =
  dh_data_start :: u32
  dh_root_inode_ind :: u32

record resolution_result =
  rr_target_inode :: inode
  rr_target_inode_index :: u32
  rr_parent_inode_index :: u32
  rr_dir_entry :: dir_entry
  rr_dir_entry_block_index :: u32
  rr_dir_entry_offset :: nat

definition directory_handler_new :: "u32 \<Rightarrow> u32 \<Rightarrow> directory_handler" where
  "directory_handler_new data_start root_inode_ind =
     \<lparr>dh_data_start = data_start, dh_root_inode_ind = root_inode_ind\<rparr>"

type_synonym 'a callback = "dir_entry \<Rightarrow> u32 \<Rightarrow> nat \<Rightarrow> 'a \<Rightarrow> (bool \<times> 'a) res"

text \<open>The inner loop of \<open>iterate\<close>: the entries of one block.\<close>

function iter_block :: "'a callback \<Rightarrow> bytes \<Rightarrow> u32 \<Rightarrow> nat \<Rightarrow> 'a \<Rightarrow> ('a, 'a) ctl res" where
  "iter_block callback buf rel_block offset acc =
     (if offset < BLOCK_SIZE
      then
        bindR (dir_entry_deserialize buf offset) (\<lambda>parsed.
        let len = rec_len parsed in
        bindR (callback parsed rel_block offset acc) (\<lambda>(stop, acc).
        if BLOCK_SIZE < offset + len then Err (InvalidDir DK_EntriesOverfillBlock rel_block offset)
        else if len = 0 then Err (InvalidDirEntry DE_ZeroLength rel_block offset)
        else if stop then Ok (Ret acc)
        else iter_block callback buf rel_block (offset + len) acc))
      else Ok (Cont acc))"
  by pat_completeness auto
termination by (relation "measure (\<lambda>(_, _, _, offset, _). BLOCK_SIZE - offset)") auto

declare iter_block.simps [simp del]

definition iterate ::
  "'d block_ops \<Rightarrow> directory_handler \<Rightarrow> inode \<Rightarrow> inode_table_handler \<Rightarrow> 'a callback \<Rightarrow> 'a \<Rightarrow> ('d, 'a) io" where
  "iterate ops dh dir_inode ih callback acc =
     bindM (loopM (\<lambda>block acc.
       bindM (get_block ops ih dir_inode block) (\<lambda>rel_block.
       bindM (liftM (addW rel_block (dh_data_start dh))) (\<lambda>absolute_block.
       bindM (read_block ops absolute_block) (\<lambda>buf.
       liftM (iter_block callback buf rel_block 0 acc)))))
       (u32_range 0 (in_blocks dir_inode)) acc) (\<lambda>c.
     returnM (case c of Cont acc \<Rightarrow> acc | Brk acc \<Rightarrow> acc | Ret acc \<Rightarrow> acc))"

text \<open>
  \<open>iterate_block_unchecked\<close> does not end on a zero-length record unless the callback stops it; the
  fuel bounds the number of records visited.
\<close>

fun iter_unchecked :: "nat \<Rightarrow> 'a callback \<Rightarrow> bytes \<Rightarrow> u32 \<Rightarrow> nat \<Rightarrow> 'a \<Rightarrow> 'a res" where
  "iter_unchecked 0 callback buf block_ind offset acc = Diverge"
| "iter_unchecked (Suc fuel) callback buf block_ind offset acc =
     (if offset < BLOCK_SIZE
      then
        bindR (dir_entry_deserialize buf offset) (\<lambda>parsed.
        let len = rec_len parsed in
        bindR (callback parsed block_ind offset acc) (\<lambda>(stop, acc).
        if stop then Ok acc else iter_unchecked fuel callback buf block_ind (offset + len) acc))
      else Ok acc)"

definition iterate_block_unchecked ::
  "'d block_ops \<Rightarrow> directory_handler \<Rightarrow> nat \<Rightarrow> u32 \<Rightarrow> 'a callback \<Rightarrow> 'a \<Rightarrow> ('d, 'a) io" where
  "iterate_block_unchecked ops dh fuel block_ind callback acc =
     bindM (liftM (addW block_ind (dh_data_start dh))) (\<lambda>absolute_block.
     bindM (read_block ops absolute_block) (\<lambda>buf.
     liftM (iter_unchecked fuel callback buf block_ind 0 acc)))"

definition find_entry ::
  "'d block_ops \<Rightarrow> directory_handler \<Rightarrow> inode \<Rightarrow> inode_table_handler \<Rightarrow> bytes \<Rightarrow>
   ('d, (dir_entry \<times> u32 \<times> nat) option) io" where
  "find_entry ops dh dir_inode ih name =
     iterate ops dh dir_inode ih (\<lambda>entry block offset res.
       if is_free entry then Ok (False, res)
       else
         bindR (sliceR (de_name entry) 0 (unat (de_name_len entry))) (\<lambda>entry_name.
         if entry_name = name then Ok (True, Some (entry, block, offset)) else Ok (False, res))) None"

definition can_fit ::
  "'d block_ops \<Rightarrow> directory_handler \<Rightarrow> inode \<Rightarrow> inode_table_handler \<Rightarrow> dir_entry \<Rightarrow>
   ('d, (u32 \<times> u16) option) io" where
  "can_fit ops dh dir ih to_insert =
     iterate ops dh dir ih (\<lambda>entry block offset res.
       if is_free entry
       then
         bindR (addW (de_record_len to_insert) min_free_size) (\<lambda>needed.
         if needed \<le> de_record_len entry \<or> de_record_len entry = de_record_len to_insert
         then Ok (True, Some (block, of_nat offset)) else Ok (False, res))
       else Ok (False, res)) None"

definition get_entries ::
  "'d block_ops \<Rightarrow> directory_handler \<Rightarrow> inode \<Rightarrow> inode_table_handler \<Rightarrow> bool \<Rightarrow> ('d, dir_entry list) io" where
  "get_entries ops dh dir ih include_free =
     (if include_free
      then iterate ops dh dir ih (\<lambda>entry _ _ entries. Ok (False, entries @ [entry])) []
      else iterate ops dh dir ih (\<lambda>entry _ _ entries.
             Ok (False, if is_free entry then entries else entries @ [entry])) [])"

text \<open>\<open>write_directory_with_inode\<close>: the validation pass and the writing pass.\<close>

fun validate_layout :: "dir_entry list \<Rightarrow> nat \<Rightarrow> nat \<Rightarrow> (nat \<times> nat) res" where
  "validate_layout [] offset data_block_dst = Ok (offset, data_block_dst)"
| "validate_layout (e # es) offset data_block_dst =
     (let record_len = rec_len e in
      if BLOCK_SIZE < offset + record_len
      then Err (InvalidInput (II_DirEntriesOverfillBlock (of_nat data_block_dst) offset record_len))
      else
        let offset = offset + record_len in
        if offset = BLOCK_SIZE then validate_layout es 0 (data_block_dst + 1)
        else validate_layout es offset data_block_dst)"

definition write_entry ::
  "'d block_ops \<Rightarrow> directory_handler \<Rightarrow> inode \<Rightarrow> inode_table_handler \<Rightarrow> dir_entry \<Rightarrow>
   bytes \<times> nat \<times> u32 \<Rightarrow> ('d, bytes \<times> nat \<times> u32) io" where
  "write_entry ops dh inode ih e = (\<lambda>(buf, offset, data_block_dst).
     bindM (liftM (dir_entry_serialize e buf offset)) (\<lambda>buf.
     let offset = offset + rec_len e in
     if offset = BLOCK_SIZE
     then
       bindM (get_block ops ih inode data_block_dst) (\<lambda>block.
       bindM (liftM (addW (dh_data_start dh) block)) (\<lambda>addr.
       bindM (write_block ops addr buf) (\<lambda>_.
       bindM (liftM (addW data_block_dst 1)) (\<lambda>dst.
       returnM (replicate BLOCK_SIZE 0, 0, dst)))))
     else returnM (buf, offset, data_block_dst)))"

definition write_directory_with_inode ::
  "'d block_ops \<Rightarrow> directory_handler \<Rightarrow> directory \<Rightarrow> inode \<Rightarrow> inode_table_handler \<Rightarrow> ('d, unit) io" where
  "write_directory_with_inode ops dh directory inode ih =
     bindM (liftM (validate_layout (dy_entries directory) 0 0)) (\<lambda>(offset, data_block_dst).
     if offset \<noteq> 0
     then throwM (InvalidInput (II_DirEntriesUnderfillBlock (of_nat data_block_dst) offset))
     else if 12 < data_block_dst then panicM
     else
       bindM (foldM (write_entry ops dh inode ih) (dy_entries directory) (replicate BLOCK_SIZE 0, 0, 0))
         (\<lambda>_. returnM ()))"

definition add_entry_here ::
  "'d block_ops \<Rightarrow> directory_handler \<Rightarrow> dir_entry \<Rightarrow> u32 \<Rightarrow> u16 \<Rightarrow> ('d, unit) io" where
  "add_entry_here ops dh entry block free_region_offset =
     bindM (liftM (addW (dh_data_start dh) block)) (\<lambda>addr.
     bindM (read_block ops addr) (\<lambda>buf.
     bindM (liftM (dir_entry_deserialize buf (unat free_region_offset))) (\<lambda>free_region.
     if \<not> is_free free_region then throwM (DirEntryNotFree block free_region_offset)
     else
       bindM (if de_record_len free_region \<noteq> de_record_len entry
              then bindM (liftM (addW (de_record_len entry) min_free_size)) (\<lambda>required.
                   if de_record_len free_region < required
                   then throwM (DirFreeRegionTooSmall block free_region_offset (de_record_len free_region) required)
                   else returnM ())
              else returnM ()) (\<lambda>_.
       bindM (liftM (subW (de_record_len free_region) (de_record_len entry))) (\<lambda>left.
       let free_region = free_region\<lparr>de_record_len := left\<rparr> in
       bindM (if min_free_size < left
              then bindM (liftM (addW free_region_offset (de_record_len entry)))
                     (\<lambda>off. liftM (dir_entry_serialize free_region buf (unat off)))
              else returnM buf) (\<lambda>buf.
       bindM (liftM (dir_entry_serialize entry buf (unat free_region_offset))) (\<lambda>buf.
       write_block ops addr buf)))))))"

definition add_entry_grow ::
  "'d block_ops \<Rightarrow> directory_handler \<Rightarrow> dir_entry \<Rightarrow> u32 \<Rightarrow> ('d, unit) io" where
  "add_entry_grow ops dh entry block =
     bindM (liftM (subW (of_nat BLOCK_SIZE) (de_record_len entry))) (\<lambda>remainder.
     if remainder \<noteq> 0 \<and> remainder < min_free_size
     then throwM (DirFreeRegionTooSmall block 0 remainder min_free_size)
     else
       bindM (liftM (dir_entry_serialize entry (replicate BLOCK_SIZE 0) 0)) (\<lambda>buf.
       bindM (if 0 < remainder
              then liftM (dir_entry_serialize (dir_entry_free remainder) buf (rec_len entry))
              else returnM buf) (\<lambda>buf.
       bindM (liftM (addW (dh_data_start dh) block)) (\<lambda>addr.
       write_block ops addr buf))))"

text \<open>
  The search of \<open>free_region\<close> for the record before \<open>offset\<close>. A zero-length record before it makes
  no progress: the loop then never ends.
\<close>

function find_prev :: "bytes \<Rightarrow> u32 \<Rightarrow> u16 \<Rightarrow> u16 \<Rightarrow> (u16 \<times> dir_entry option) res" where
  "find_prev buf block offset prev_offset =
     (if prev_offset < offset
      then
        bindR (dir_entry_deserialize buf (unat prev_offset)) (\<lambda>parsed.
        bindR (addW prev_offset (de_record_len parsed)) (\<lambda>next.
        if offset < next then Err (InvalidInput (II_OffsetNotAtDirEntryStart block offset))
        else if next = offset then Ok (prev_offset, Some parsed)
        else if next = prev_offset then Diverge
        else find_prev buf block offset next))
      else Ok (prev_offset, None))"
  by pat_completeness auto
termination
  by (relation "measure (\<lambda>(_, _, offset, prev). unat offset - unat prev)")
    (auto simp: addW_eq_Ok word_less_nat_alt word_unat_eq_iff)

declare find_prev.simps [simp del]

definition free_region :: "'d block_ops \<Rightarrow> directory_handler \<Rightarrow> u32 \<Rightarrow> u16 \<Rightarrow> ('d, u16) io" where
  "free_region ops dh block offset =
     bindM (liftM (addW (dh_data_start dh) block)) (\<lambda>addr.
     bindM (read_block ops addr) (\<lambda>buf.
     bindM (liftM (find_prev buf block offset 0)) (\<lambda>(prev_offset, prev_entry).
     let (free_region_size, free_region_start) =
       (case prev_entry of
          Some e \<Rightarrow> if is_free e then (de_record_len e, prev_offset) else (0, offset)
        | None \<Rightarrow> (0, offset)) in
     bindM (liftM (dir_entry_deserialize buf (unat offset))) (\<lambda>to_free.
     bindM (liftM (addW free_region_size (de_record_len to_free))) (\<lambda>free_region_size.
     let next_offset = unat offset + rec_len to_free in
     bindM (if next_offset < BLOCK_SIZE
            then bindM (liftM (dir_entry_deserialize buf next_offset)) (\<lambda>next_entry.
                 if is_free next_entry
                 then liftM (addW free_region_size (de_record_len next_entry))
                 else returnM free_region_size)
            else returnM free_region_size) (\<lambda>free_region_size.
     bindM (liftM (dir_entry_serialize (dir_entry_free free_region_size) buf (unat free_region_start))) (\<lambda>buf.
     bindM (write_block ops addr buf) (\<lambda>_.
     returnM (de_record_len to_free)))))))))"



section \<open>Path resolution\<close>

text \<open>The contents of a symbolic link: the first bytes of its data block, which must be UTF-8.\<close>

definition symlink_target :: "'d block_ops \<Rightarrow> directory_handler \<Rightarrow> inode \<Rightarrow> ('d, bytes) io" where
  "symlink_target ops dh inode =
     bindM (liftM (indexR (in_direct inode) 0)) (\<lambda>direct.
     bindM (liftM (addW (dh_data_start dh) direct)) (\<lambda>block_ind.
     bindM (read_block ops block_ind) (\<lambda>buf.
     bindM (liftM (sliceR buf 0 (unat (in_size inode)))) (\<lambda>target.
     liftM (unwrap (from_utf8 target))))))"

text \<open>
  \<open>_resolve\<close> (with \<open>_resolve_symlink\<close>) and the loop over the components of the path. The state of
  the loop is the result under construction and the path walked so far; \<open>it\<close> counts the symbolic
  links being followed.
\<close>

function resolve_at ::
    "'d block_ops \<Rightarrow> directory_handler \<Rightarrow> inode_table_handler \<Rightarrow> nat \<Rightarrow> component list \<Rightarrow> u32 \<Rightarrow> bool \<Rightarrow>
     ('d, resolution_result) io"
  and resolve_loop ::
    "'d block_ops \<Rightarrow> directory_handler \<Rightarrow> inode_table_handler \<Rightarrow> nat \<Rightarrow> component list \<Rightarrow> bool \<Rightarrow>
     bytes \<Rightarrow> resolution_result \<Rightarrow> ('d, resolution_result) io" where
  "resolve_at ops dh ih it path src final =
     bindM (read_inode ops ih src) (\<lambda>cur_inode.
     let st = \<lparr>rr_target_inode = cur_inode, rr_target_inode_index = src, rr_parent_inode_index = src,
               rr_dir_entry = dir_entry_free 0, rr_dir_entry_block_index = 0, rr_dir_entry_offset = 0\<rparr> in
     if path = [] \<or> path = [CurDir] then returnM st
     else if path = [RootDir]
     then
       bindM (read_inode ops ih (dh_root_inode_ind dh)) (\<lambda>cur_inode.
       returnM (st\<lparr>rr_target_inode := cur_inode, rr_target_inode_index := dh_root_inode_ind dh,
                   rr_parent_inode_index := dh_root_inode_ind dh\<rparr>))
     else resolve_loop ops dh ih it path final [] st)"
| "resolve_loop ops dh ih it [] final progress st = returnM st"
| "resolve_loop ops dh ih it (cmp # rest) final progress st =
     (if cmp = CurDir \<or> cmp = RootDir then resolve_loop ops dh ih it rest final progress st
      else
        let progress = join progress cmp; is_final_component = (rest = []) in
        bindM (find_entry ops dh (rr_target_inode st) ih (path_component_bytes cmp)) (\<lambda>entry_opt.
        case entry_opt of
          None \<Rightarrow> throwM (DoesNotExist progress)
        | Some (entry, entry_block, entry_offset) \<Rightarrow>
            if de_inode entry = INVALID_ADDRESS
            then throwM (InvalidDirEntry DE_InvalidINode entry_block entry_offset)
            else
              bindM (read_inode ops ih (de_inode entry)) (\<lambda>inode.
              let step = st\<lparr>rr_parent_inode_index := rr_target_inode_index st,
                            rr_target_inode := inode, rr_target_inode_index := de_inode entry,
                            rr_dir_entry := entry, rr_dir_entry_block_index := entry_block,
                            rr_dir_entry_offset := entry_offset\<rparr> in
              if in_file_type inode = Symlink \<and> (\<not> is_final_component \<or> final)
              then
                if 40 \<le> it then throwM (MaximumSymlinkDepthReached progress 40)
                else if in_size inode = 0 \<or> in_blocks inode = 0 then throwM (EmptySymlink progress)
                else
                  bindM (symlink_target ops dh inode) (\<lambda>target.
                  bindM (resolve_at ops dh ih (it + 1) (components target)
                           (if hd target = slash then dh_root_inode_ind dh else rr_target_inode_index st) True)
                    (\<lambda>res.
                  if in_file_type (rr_target_inode res) \<noteq> Directory \<and> \<not> is_final_component
                  then throwM (NotADirectory progress)
                  else resolve_loop ops dh ih it rest final progress (res\<lparr>rr_dir_entry := entry\<rparr>)))
              else if in_file_type inode = Directory
              then resolve_loop ops dh ih it rest final progress step
              else if \<not> is_final_component then throwM (NotADirectory progress)
              else resolve_loop ops dh ih it rest final progress step)))"
  by pat_completeness auto
termination
  by (relation "measures
      [case_sum (\<lambda>(_, _, _, it, _). 41 - it) (\<lambda>(_, _, _, it, _). 41 - it),
       case_sum (\<lambda>(_, _, _, _, path, _). Suc (length path)) (\<lambda>(_, _, _, _, comps, _). length comps)]")
    auto

declare resolve_at.simps [simp del] resolve_loop.simps [simp del]

definition resolve ::
  "'d block_ops \<Rightarrow> directory_handler \<Rightarrow> component list \<Rightarrow> u32 \<Rightarrow> inode_table_handler \<Rightarrow> bool \<Rightarrow>
   ('d, resolution_result) io" where
  "resolve ops dh path src ih resolve_final_symlink = resolve_at ops dh ih 0 path src resolve_final_symlink"


section \<open>Well-formed directories\<close>

text \<open>
  The abstract contents of a directory block is a list of entries whose images fill the block; the
  contents of a directory is a list of such lists, one per data block of its inode.
\<close>

definition image :: "dir_entry list \<Rightarrow> bytes" where "image es = concat (map encode es)"

definition total :: "dir_entry list \<Rightarrow> nat" where "total es = sum_list (map rec_len es)"

definition layout :: "dir_entry list \<Rightarrow> bytes \<Rightarrow> bool" where
  "layout es buf \<longleftrightarrow> (\<forall>e \<in> set es. dirent_ok e) \<and> buf = image es \<and> total es = BLOCK_SIZE"

definition dir_layout :: "inode_table_handler \<Rightarrow> bytes list \<Rightarrow> inode \<Rightarrow> dir_entry list list \<Rightarrow> bool" where
  "dir_layout h bs i ess \<longleftrightarrow>
     inode_wf i \<and> meta_ok h bs i \<and>
     list_all2 (\<lambda>r es. data_addr h r < length bs \<and> layout es (bs ! data_addr h r)) (inode_blocks h bs i) ess"

text \<open>What \<open>iterate\<close> does on the abstract contents.\<close>

fun walk :: "'a callback \<Rightarrow> u32 \<Rightarrow> nat \<Rightarrow> dir_entry list \<Rightarrow> 'a \<Rightarrow> ('a, 'a) ctl res" where
  "walk cb r off [] acc = Ok (Cont acc)"
| "walk cb r off (e # es) acc =
     bindR (cb e r off acc) (\<lambda>(stop, acc).
     if stop then Ok (Ret acc) else walk cb r (off + rec_len e) es acc)"

fun visit_blocks :: "'a callback \<Rightarrow> (u32 \<times> dir_entry list) list \<Rightarrow> 'a \<Rightarrow> ('a, 'a) ctl res" where
  "visit_blocks cb [] acc = Ok (Cont acc)"
| "visit_blocks cb ((r, es) # bls) acc =
     bindR (walk cb r 0 es acc) (\<lambda>c.
     case c of Cont acc \<Rightarrow> visit_blocks cb bls acc | Brk acc \<Rightarrow> Ok (Brk acc) | Ret acc \<Rightarrow> Ok (Ret acc))"

lemma image_simps [simp]:
  "image [] = []" "image (e # es) = encode e @ image es" "image (xs @ ys) = image xs @ image ys"
  by (simp_all add: image_def)

lemma total_simps [simp]:
  "total [] = 0" "total (e # es) = rec_len e + total es" "total (xs @ ys) = total xs + total ys"
  by (simp_all add: total_def)

lemma length_image: "\<forall>e \<in> set es. dirent_ok e \<Longrightarrow> length (image es) = total es"
  by (induction es) (auto simp: length_encode)

lemma dirent_ok_len: "dirent_ok e \<Longrightarrow> 9 \<le> rec_len e \<and> rec_len e \<le> BLOCK_SIZE"
  by (auto simp: dirent_ok_def split: if_splits)

lemma layout_length: "layout es buf \<Longrightarrow> length buf = BLOCK_SIZE"
  by (simp add: layout_def length_image)

lemma layout_slice:
  assumes "layout (pre @ e # post) buf"
  shows "slice buf (total pre) (rec_len e) = encode e" "dirent_ok e"
    "total pre + rec_len e \<le> BLOCK_SIZE" "dir_entry_deserialize buf (total pre) = Ok e"
proof -
  have ok: "\<forall>x \<in> set pre. dirent_ok x" "dirent_ok e" "buf = image pre @ encode e @ image post"
    "total pre + rec_len e + total post = BLOCK_SIZE"
    using assms by (auto simp: layout_def)
  then show "dirent_ok e" "total pre + rec_len e \<le> BLOCK_SIZE" by simp_all
  show sl: "slice buf (total pre) (rec_len e) = encode e"
    using ok length_image [of pre] length_encode [OF ok(2)] by (simp add: slice_def)
  show "dir_entry_deserialize buf (total pre) = Ok e"
    using ok sl layout_length [OF assms] by (intro deserialize_encode) simp_all
qed

lemma iter_block_visit:
  "layout (pre @ es) buf \<Longrightarrow> iter_block cb buf r (total pre) acc = walk cb r (total pre) es acc"
proof (induction es arbitrary: pre acc)
  case Nil
  then have "total pre = BLOCK_SIZE" by (simp add: layout_def)
  then show ?case by (subst iter_block.simps) simp
next
  case (Cons e es)
  note e = layout_slice [OF Cons.prems]
  have IH: "iter_block cb buf r (total pre + rec_len e) a = walk cb r (total pre + rec_len e) es a" for a
    using Cons.IH [of "pre @ [e]" a] Cons.prems by simp
  have len: "9 \<le> rec_len e" using e(2) dirent_ok_len by blast
  show ?case
    using e(3,4) len by (subst iter_block.simps) (auto simp: IH Let_def intro!: bindR_cong)
qed

lemma execs_bindR:
  assumes "execs I A m b r b" and "\<And>v. r = Ok v \<Longrightarrow> execs I A (f v) b (g v) b"
  shows "execs I A (bindM m f) b (bindR r g) b"
  using assms by (cases r) (force simp: execs_def bindM_def)+

context block_device
begin

lemma iterate_loop_execs:
  assumes dir: "dir_layout h bs i ess" and dh: "dh_data_start dh = ih_data_start h"
    and small: "length bs < 4294967296"
  shows "k \<le> length ess \<Longrightarrow>
    execs inv blks (loopM (\<lambda>block acc.
       bindM (get_block ops h i block) (\<lambda>rel_block.
       bindM (liftM (addW rel_block (dh_data_start dh))) (\<lambda>absolute_block.
       bindM (read_block ops absolute_block) (\<lambda>buf.
       liftM (iter_block cb buf rel_block 0 acc)))))
       (map of_nat [k..<length ess]) acc) bs
      (visit_blocks cb (drop k (zip (inode_blocks h bs i) ess)) acc) bs"
proof (induction "length ess - k" arbitrary: k acc)
  case 0
  then show ?case by auto
next
  case (Suc n)
  have n: "unat (in_blocks i) = length ess" "length (inode_blocks h bs i) = length ess"
    using dir list_all2_lengthD by (fastforce simp: dir_layout_def inode_blocks_def)+
  have k: "k < length ess" using Suc.hyps(2) by simp
  then have ku: "unat (of_nat k :: u32) = k" using n(1) unat_u32_bound [of "in_blocks i"] by (simp add: unat_u32_of_nat)
  then have kl: "(of_nat k :: u32) < in_blocks i" using k n(1) by (simp add: word_less_nat_alt)
  let ?r = "inode_blocks h bs i ! k"
  have r: "data_addr h ?r < length bs" "layout (ess ! k) (bs ! data_addr h ?r)"
    using dir k n(2) by (auto simp: dir_layout_def list_all2_conv_all_nth)
  have ds: "drop k (zip (inode_blocks h bs i) ess) = (?r, ess ! k) # drop (Suc k) (zip (inode_blocks h bs i) ess)"
    using k n(2) by (simp add: Cons_nth_drop_Suc [symmetric])
  have us: "[k..<length ess] = k # [Suc k..<length ess]" using k by (rule upt_conv_Cons)
  have body: "execs inv blks
      (bindM (get_block ops h i (of_nat k)) (\<lambda>rel_block.
       bindM (liftM (addW rel_block (dh_data_start dh))) (\<lambda>absolute_block.
       bindM (read_block ops absolute_block) (\<lambda>buf.
       liftM (iter_block cb buf rel_block 0 acc))))) bs (walk cb ?r 0 (ess ! k) acc) bs"
    using get_block_execs [of i h bs "of_nat k"] kl ku dir read_data_execs [OF r(1) small]
      data_addr_word [OF r(1) small] iter_block_visit [of "[]" "ess ! k" "bs ! data_addr h ?r" cb ?r acc] r(2)
    by (auto simp: dir_layout_def dh add.commute intro!: execs_bind)
  show ?case
    unfolding us ds using Suc.hyps(1) [of "Suc k"] Suc.hyps(2) k
    by (auto intro!: execs_bindR [OF body] split: ctl.splits)
qed

lemma iterate_execs:
  assumes "dir_layout h bs i ess" "dh_data_start dh = ih_data_start h"
    and "visit_blocks cb (zip (inode_blocks h bs i) ess) acc = Ok c"
  shows "execs inv blks (iterate ops dh i h cb acc) bs
    (Ok (case c of Cont acc \<Rightarrow> acc | Brk acc \<Rightarrow> acc | Ret acc \<Rightarrow> acc)) bs"
proof (rule execs_wf)
  assume small: "length bs < 4294967296"
  have "unat (in_blocks i) = length ess"
    using assms(1) list_all2_lengthD by (fastforce simp: dir_layout_def inode_blocks_def)
  with iterate_loop_execs [OF assms(1,2) small, of 0 cb acc] assms(3)
  show "execs inv blks (iterate ops dh i h cb acc) bs
    (Ok (case c of Cont acc \<Rightarrow> acc | Brk acc \<Rightarrow> acc | Ret acc \<Rightarrow> acc)) bs"
    by (auto simp: iterate_def intro!: execs_bind)
qed

end

section \<open>Search and listing\<close>

text \<open>\<open>locate\<close>: the first entry that satisfies a predicate, with its block and offset.\<close>

fun locate :: "(dir_entry \<Rightarrow> bool) \<Rightarrow> nat \<Rightarrow> dir_entry list \<Rightarrow> (dir_entry \<times> nat) option" where
  "locate P off [] = None"
| "locate P off (e # es) = (if P e then Some (e, off) else locate P (off + rec_len e) es)"

fun locate_in :: "(dir_entry \<Rightarrow> bool) \<Rightarrow> (u32 \<times> dir_entry list) list \<Rightarrow> (dir_entry \<times> u32 \<times> nat) option" where
  "locate_in P [] = None"
| "locate_in P ((r, es) # bls) =
     (case locate P 0 es of Some (e, off) \<Rightarrow> Some (e, r, off) | None \<Rightarrow> locate_in P bls)"

definition search :: "(dir_entry \<Rightarrow> bool) \<Rightarrow> (dir_entry \<Rightarrow> u32 \<Rightarrow> nat \<Rightarrow> 'b) \<Rightarrow> 'b option callback" where
  "search P g e r off acc = Ok (if P e then (True, Some (g e r off)) else (False, acc))"

abbreviation contents :: "inode_table_handler \<Rightarrow> bytes list \<Rightarrow> inode \<Rightarrow> dir_entry list list \<Rightarrow> (u32 \<times> dir_entry list) list" where
  "contents h bs i ess \<equiv> zip (inode_blocks h bs i) ess"

lemma visit_search:
  "walk (search P g) r off es acc =
   Ok (case locate P off es of Some (e, o') \<Rightarrow> Ret (Some (g e r o')) | None \<Rightarrow> Cont acc)"
  by (induction es arbitrary: off) (auto simp: search_def)

lemma visit_blocks_search:
  "visit_blocks (search P g) bls acc =
   Ok (case locate_in P bls of Some (e, r, off) \<Rightarrow> Ret (Some (g e r off)) | None \<Rightarrow> Cont acc)"
  by (induction bls) (auto simp: visit_search split: option.splits)

lemma visit_collect:
  "walk (\<lambda>e _ _ acc. Ok (False, f e acc)) r off es acc = Ok (Cont (fold f es acc))"
  by (induction es arbitrary: off acc) auto

lemma visit_blocks_collect:
  "visit_blocks (\<lambda>e _ _ acc. Ok (False, f e acc)) bls acc = Ok (Cont (fold f (concat (map snd bls)) acc))"
  by (induction bls arbitrary: acc) (auto simp: visit_collect)

lemma visit_cong:
  "(\<And>e r off a. e \<in> set es \<Longrightarrow> cb e r off a = cb' e r off a) \<Longrightarrow> walk cb r off es acc = walk cb' r off es acc"
  by (induction es arbitrary: off acc) (auto intro!: bindR_cong)

lemma visit_blocks_cong:
  "(\<And>e r off a. e \<in> \<Union> (set ` snd ` set bls) \<Longrightarrow> cb e r off a = cb' e r off a) \<Longrightarrow>
   visit_blocks cb bls acc = visit_blocks cb' bls acc"
proof (induction bls arbitrary: acc)
  case Nil
  then show ?case by simp
next
  case (Cons b bls)
  obtain r es where b: "b = (r, es)" by force
  have "walk cb r 0 es acc = walk cb' r 0 es acc" using Cons.prems b by (intro visit_cong) auto
  moreover have "visit_blocks cb bls a = visit_blocks cb' bls a" for a
    using Cons.prems b by (intro Cons.IH) auto
  ultimately show ?case using b by (auto intro!: bindR_cong split: ctl.splits)
qed

lemma locate_SomeD:
  "locate P off es = Some (e, o') \<Longrightarrow>
   \<exists>pre post. es = pre @ e # post \<and> P e \<and> (\<forall>x \<in> set pre. \<not> P x) \<and> o' = off + total pre"
proof (induction es arbitrary: off)
  case Nil
  then show ?case by simp
next
  case (Cons a es)
  show ?case
  proof (cases "P a")
    case True
    with Cons.prems show ?thesis by (intro exI [of _ "[]"] exI [of _ es]) simp
  next
    case False
    with Cons.IH [of "off + rec_len a"] Cons.prems obtain pre post where
      "es = pre @ e # post" "P e" "\<forall>x \<in> set pre. \<not> P x" "o' = off + rec_len a + total pre" by auto
    with False show ?thesis by (intro exI [of _ "a # pre"] exI [of _ post]) simp
  qed
qed

lemma locate_None: "locate P off es = None \<longleftrightarrow> (\<forall>e \<in> set es. \<not> P e)"
  by (induction es arbitrary: off) auto

lemma locate_in_None: "locate_in P bls = None \<longleftrightarrow> (\<forall>e \<in> \<Union> (set ` snd ` set bls). \<not> P e)"
proof (induction bls)
  case (Cons b bls)
  obtain r es where "b = (r, es)" by force
  with Cons locate_None [of P 0 es] show ?case by (cases "locate P 0 es") auto
qed simp

lemma locate_in_SomeD:
  "locate_in P bls = Some (e, r, off) \<Longrightarrow>
   \<exists>pre post. (r, pre @ e # post) \<in> set bls \<and> P e \<and> (\<forall>x \<in> set pre. \<not> P x) \<and> off = total pre"
proof (induction bls)
  case Nil
  then show ?case by simp
next
  case (Cons b bls)
  obtain r' es where b: "b = (r', es)" by force
  show ?case
  proof (cases "locate P 0 es")
    case None
    with Cons b show ?thesis by auto
  next
    case (Some eo)
    with Cons.prems b have "r' = r" "locate P 0 es = Some (e, off)" by (cases eo; simp)+
    with b locate_SomeD [of P 0 es e off] show ?thesis by auto
  qed
qed

text \<open>The live entry with a given name, and a free region that can take an entry.\<close>

definition named :: "bytes \<Rightarrow> dir_entry \<Rightarrow> bool" where
  "named name e \<longleftrightarrow> \<not> is_free e \<and> name_of e = name"

definition takes :: "dir_entry \<Rightarrow> dir_entry \<Rightarrow> bool" where
  "takes to_insert e \<longleftrightarrow>
     is_free e \<and> (rec_len to_insert + 8 \<le> rec_len e \<or> de_record_len e = de_record_len to_insert)"

lemma name_slice:
  assumes "dirent_ok e" "\<not> is_free e"
  shows "sliceR (de_name e) 0 (unat (de_name_len e)) = Ok (name_of e)"
proof -
  have "length (de_name e) = MAX_NAME" "unat (de_name_len e) \<le> MAX_NAME"
    using assms unfolding dirent_ok_def by auto
  then show ?thesis by (simp add: sliceR_def slice_def name_of_def)
qed

lemma dir_layout_ok:
  "dir_layout h bs i ess \<Longrightarrow> e \<in> \<Union> (set ` snd ` set (contents h bs i ess)) \<Longrightarrow> dirent_ok e"
  by (fastforce simp: dir_layout_def layout_def list_all2_conv_all_nth set_zip)

lemma dir_layout_contents:
  "dir_layout h bs i ess \<Longrightarrow> map snd (contents h bs i ess) = ess"
  "dir_layout h bs i ess \<Longrightarrow> map fst (contents h bs i ess) = inode_blocks h bs i"
  by (auto simp: dir_layout_def dest: list_all2_lengthD)

context block_device
begin

lemma find_entry_execs:
  assumes dir: "dir_layout h bs i ess" and dh: "dh_data_start dh = ih_data_start h"
  shows "execs inv blks (find_entry ops dh i h name) bs (Ok (locate_in (named name) (contents h bs i ess))) bs"
proof -
  let ?cb = "\<lambda>entry block offset res.
       if is_free entry then Ok (False, res)
       else
         bindR (sliceR (de_name entry) 0 (unat (de_name_len entry))) (\<lambda>entry_name.
         if entry_name = name then Ok (True, Some (entry, block, offset)) else Ok (False, res))"
  have cb: "?cb e r off a = search (named name) (\<lambda>e r off. (e, r, off)) e r off a" if "dirent_ok e" for e r off a
    using name_slice [OF that] by (simp add: search_def named_def)
  have "visit_blocks ?cb (contents h bs i ess) None =
      visit_blocks (search (named name) (\<lambda>e r off. (e, r, off))) (contents h bs i ess) None"
    by (rule visit_blocks_cong) (rule cb [OF dir_layout_ok [OF dir]])
  from iterate_execs [OF dir dh this [unfolded visit_blocks_search]] show ?thesis
    unfolding find_entry_def by (cases "locate_in (named name) (contents h bs i ess)") auto
qed

lemma can_fit_execs:
  assumes dir: "dir_layout h bs i ess" and dh: "dh_data_start dh = ih_data_start h"
    and e: "rec_len to_insert \<le> BLOCK_SIZE"
  shows "execs inv blks (can_fit ops dh i h to_insert) bs
    (Ok (map_option (\<lambda>(_, r, off). (r, of_nat off)) (locate_in (takes to_insert) (contents h bs i ess)))) bs"
proof -
  have add: "addW (de_record_len to_insert) 8 = Ok (de_record_len to_insert + 8)"
    "unat (de_record_len to_insert + 8) = rec_len to_insert + 8"
    using e unat_add_small [of "de_record_len to_insert" 8] by (simp_all add: addW_def BLOCK_SIZE_def)
  let ?g = "\<lambda>e r off. (r :: u32, of_nat off :: u16)"
  let ?cb = "\<lambda>entry block offset res.
       if is_free entry
       then
         bindR (addW (de_record_len to_insert) min_free_size) (\<lambda>needed.
         if needed \<le> de_record_len entry \<or> de_record_len entry = de_record_len to_insert
         then Ok (True, Some (block, of_nat offset)) else Ok (False, res))
       else Ok (False, res)"
  have "?cb = search (takes to_insert) ?g"
    using add by (intro ext) (auto simp: search_def takes_def word_le_nat_alt)
  then have "visit_blocks ?cb (contents h bs i ess) None =
      Ok (case locate_in (takes to_insert) (contents h bs i ess) of
        Some (e, r, off) \<Rightarrow> Ret (Some (?g e r off)) | None \<Rightarrow> Cont None)"
    by (simp only: visit_blocks_search)
  from iterate_execs [OF dir dh this] show ?thesis
    unfolding can_fit_def by (cases "locate_in (takes to_insert) (contents h bs i ess)") auto
qed

lemma get_entries_execs:
  assumes dir: "dir_layout h bs i ess" and dh: "dh_data_start dh = ih_data_start h"
  shows "execs inv blks (get_entries ops dh i h include_free) bs
    (Ok (filter (\<lambda>e. include_free \<or> \<not> is_free e) (concat ess))) bs"
proof -
  have fold1: "fold (\<lambda>e entries. entries @ [e]) es acc = acc @ es" for es acc :: "dir_entry list"
    by (induction es arbitrary: acc) auto
  have fold2: "fold (\<lambda>e entries. if is_free e then entries else entries @ [e]) es acc =
      acc @ filter (\<lambda>e. \<not> is_free e) es" for es acc
    by (induction es arbitrary: acc) auto
  note v = visit_blocks_collect [of _ "contents h bs i ess" "[]", unfolded dir_layout_contents(1) [OF dir]]
  show ?thesis
    unfolding get_entries_def
    using iterate_execs [OF dir dh v, of "\<lambda>e entries. entries @ [e]"]
      iterate_execs [OF dir dh v, of "\<lambda>e entries. if is_free e then entries else entries @ [e]"]
    by (auto simp: fold1 fold2)
qed

end

section \<open>Insertion and removal\<close>

lemma splice_middle:
  "length y = length x \<Longrightarrow> n = length a \<Longrightarrow> splice (a @ x @ b) n y = a @ y @ b"
  by (simp add: splice_def)

lemma layout_total_small: "layout es buf \<Longrightarrow> total es = 256"
  by (simp add: layout_def BLOCK_SIZE_def)

lemma layout_replace:
  assumes "layout (pre @ xs @ post) buf" "\<forall>e \<in> set ys. dirent_ok e" "total ys = total xs"
  shows "layout (pre @ ys @ post) (splice buf (total pre) (image ys))"
    "splice buf (total pre) (image ys) = image (pre @ ys @ post)"
proof -
  have ok: "\<forall>e \<in> set (pre @ xs @ post). dirent_ok e" "buf = image pre @ image xs @ image post"
    using assms(1) by (simp_all add: layout_def)
  have "length (image ys) = length (image xs)" "total pre = length (image pre)"
    using ok(1) assms(2,3) length_image [of ys] length_image [of xs] length_image [of pre] by auto
  then show eq: "splice buf (total pre) (image ys) = image (pre @ ys @ post)"
    unfolding ok(2) by (simp add: splice_middle)
  show "layout (pre @ ys @ post) (splice buf (total pre) (image ys))"
    using assms ok(1) unfolding eq by (auto simp: layout_def)
qed

lemma free_record:
  assumes "dirent_ok e" "is_free e"
  shows "e = dir_entry_free (de_record_len e)" "9 \<le> unat x \<Longrightarrow> e\<lparr>de_record_len := x\<rparr> = dir_entry_free x"
proof -
  show e: "e = dir_entry_free (de_record_len e)" using assms unfolding dirent_ok_def by auto
  assume "9 \<le> unat x"
  then have "max x 8 = x" by (simp add: max_def word_le_nat_alt)
  then show "e\<lparr>de_record_len := x\<rparr> = dir_entry_free x"
    by (subst e) (simp add: dir_entry_free_def)
qed

text \<open>The entries after an insertion into a free region.\<close>

definition insert_at :: "dir_entry \<Rightarrow> dir_entry \<Rightarrow> dir_entry list" where
  "insert_at e fr =
     (if de_record_len fr = de_record_len e then [e]
      else [e, dir_entry_free (de_record_len fr - de_record_len e)])"

definition fits :: "dir_entry \<Rightarrow> dir_entry \<Rightarrow> bool" where
  "fits e fr \<longleftrightarrow> is_free fr \<and> (rec_len e + 8 < rec_len fr \<or> de_record_len fr = de_record_len e)"

lemma insert_at_ok:
  assumes "dirent_ok e" "dirent_ok fr" "fits e fr"
  shows "\<forall>x \<in> set (insert_at e fr). dirent_ok x" "total (insert_at e fr) = rec_len fr"
    "filter (\<lambda>x. \<not> is_free x) (insert_at e fr) = filter (\<lambda>x. \<not> is_free x) [e]"
proof -
  have "(\<forall>x \<in> set (insert_at e fr). dirent_ok x) \<and> total (insert_at e fr) = rec_len fr \<and>
    filter (\<lambda>x. \<not> is_free x) (insert_at e fr) = filter (\<lambda>x. \<not> is_free x) [e]"
  proof (cases "de_record_len fr = de_record_len e")
    case False
    then have lt: "rec_len e + 8 < rec_len fr" using assms(3) by (simp add: fits_def)
    then have d: "unat (de_record_len fr - de_record_len e) = rec_len fr - rec_len e"
      by (simp add: unat_sub_small)
    then show ?thesis
      using False assms(1) lt dirent_ok_len [OF assms(2)]
        dir_entry_free_ok [of "de_record_len fr - de_record_len e"] by (auto simp: insert_at_def)
  qed (use assms in \<open>simp_all add: insert_at_def\<close>)
  then show "\<forall>x \<in> set (insert_at e fr). dirent_ok x" "total (insert_at e fr) = rec_len fr"
    "filter (\<lambda>x. \<not> is_free x) (insert_at e fr) = filter (\<lambda>x. \<not> is_free x) [e]" by auto
qed

text \<open>The two serializations of \<open>add_entry_here\<close>, the rest of the region first.\<close>

lemma insert_bytes:
  assumes lay: "layout (pre @ fr # post) buf" and e: "dirent_ok e" and fits: "fits e fr"
  shows "bindR (if min_free_size < de_record_len fr - de_record_len e
          then bindR (addW (of_nat (total pre)) (de_record_len e))
                 (\<lambda>off. dir_entry_serialize (fr\<lparr>de_record_len := de_record_len fr - de_record_len e\<rparr>) buf (unat off))
          else Ok buf) (\<lambda>buf. dir_entry_serialize e buf (total pre)) = Ok (image (pre @ insert_at e fr @ post))"
proof -
  note fr = layout_slice [OF lay] and len = layout_length [OF lay]
  have pre: "total pre \<le> 256" "unat (of_nat (total pre) :: u16) = total pre"
    using fr(3) by (simp_all add: BLOCK_SIZE_def unat_u16_of_nat)
  note ok = insert_at_ok [OF e fr(2) fits]
  have lay': "layout (pre @ [fr] @ post) buf" using lay by simp
  note rep = layout_replace(2) [OF lay' ok(1)]
  show ?thesis
  proof (cases "de_record_len fr = de_record_len e")
    case True
    then show ?thesis using serialize_encode [OF e len, of "total pre"] fr(3) rep
      by (simp add: insert_at_def)
  next
    case False
    let ?left = "de_record_len fr - de_record_len e"
    have lt: "rec_len e + 8 < rec_len fr" and free: "is_free fr" using False fits by (simp_all add: fits_def)
    then have left: "unat ?left = rec_len fr - rec_len e" "8 < ?left" by (simp_all add: unat_sub_small word_less_nat_alt)
    have f: "fr\<lparr>de_record_len := ?left\<rparr> = dir_entry_free ?left"
      using free_record(2) [OF fr(2) free] left lt by simp
    have fok: "dirent_ok (dir_entry_free ?left)" "rec_len (dir_entry_free ?left) = rec_len fr - rec_len e"
      using dir_entry_free_ok [of ?left] left lt dirent_ok_len [OF fr(2)] by simp_all
    have off: "addW (of_nat (total pre)) (de_record_len e) = Ok (of_nat (total pre) + de_record_len e)"
      "unat (of_nat (total pre) + de_record_len e) = total pre + rec_len e"
      using pre dirent_ok_len [OF e] unat_add_small [of "of_nat (total pre)" "de_record_len e"]
      by (simp_all add: addW_def BLOCK_SIZE_def)
    let ?b = "splice buf (total pre + rec_len e) (encode (dir_entry_free ?left))"
    have s1: "dir_entry_serialize (dir_entry_free ?left) buf (total pre + rec_len e) = Ok ?b"
      using serialize_encode [OF fok(1) len] fok(2) fr(3) lt by simp
    have lb: "length ?b = BLOCK_SIZE" using len fr(3) lt length_encode [OF fok(1)] fok(2) by simp
    have s2: "dir_entry_serialize e ?b (total pre) = Ok (splice ?b (total pre) (encode e))"
      using serialize_encode [OF e lb] fr(3) lt by simp
    have "splice ?b (total pre) (encode e) = splice buf (total pre) (encode e @ encode (dir_entry_free ?left))"
      using len fr(3) lt length_encode [OF e] length_encode [OF fok(1)] fok(2)
      by (intro nth_equalityI) (auto simp: nth_splice nth_append)
    then show ?thesis using False f s1 s2 off left rep ok(2) by (simp add: insert_at_def)
  qed
qed

text \<open>Removal: the freed entry is merged with the free regions next to it.\<close>

definition freed :: "dir_entry list \<Rightarrow> dir_entry \<Rightarrow> dir_entry list \<Rightarrow> dir_entry list" where
  "freed pre e post =
     (let (pre', a) = (if pre \<noteq> [] \<and> is_free (last pre) then (butlast pre, rec_len (last pre)) else (pre, 0));
          (post', b) = (if post \<noteq> [] \<and> is_free (hd post) then (tl post, rec_len (hd post)) else (post, 0))
      in pre' @ dir_entry_free (of_nat (a + rec_len e + b)) # post')"

lemma find_prev_last:
  "layout (p1 @ p2 @ e # post) buf \<Longrightarrow> p2 \<noteq> [] \<Longrightarrow>
   find_prev buf block (of_nat (total (p1 @ p2))) (of_nat (total p1)) =
     Ok (of_nat (total (p1 @ butlast p2)), Some (last p2))"
proof (induction p2 arbitrary: p1)
  case Nil
  then show ?case by simp
next
  case (Cons q p2)
  have lay: "layout (p1 @ q # (p2 @ e # post)) buf" using Cons.prems(1) by simp
  note q = layout_slice [OF lay]
  have tot: "total p1 + (rec_len q + (total p2 + (rec_len e + total post))) = 256"
    using layout_total_small [OF lay] by simp
  have len: "9 \<le> rec_len q" using dirent_ok_len [OF q(2)] by simp
  have w: "unat (of_nat n :: u16) = n" if "n \<le> 256" for n using that by (simp add: unat_u16_of_nat)
  have lt: "(of_nat (total p1) :: u16) < of_nat (total (p1 @ q # p2))"
    using tot len w [of "total p1"] w [of "total p1 + (rec_len q + total p2)"] by (simp add: word_less_nat_alt)
  have nx: "addW (of_nat (total p1)) (de_record_len q) = Ok (of_nat (total p1 + rec_len q))"
    using tot w [of "total p1"] by (simp add: addW_def)
  have ne: "(of_nat (total p1 + rec_len q) :: u16) \<noteq> of_nat (total p1)"
    using tot len w [of "total p1"] w [of "total p1 + rec_len q"] by (auto simp: word_unat_eq_iff simp del: of_nat_add)
  have le: "\<not> (of_nat (total (p1 @ q # p2)) :: u16) < of_nat (total p1 + rec_len q)"
    using tot w [of "total p1 + rec_len q"] w [of "total p1 + (rec_len q + total p2)"] by (simp add: word_less_nat_alt)
  have u1: "unat (of_nat (total p1) :: u16) = total p1" using tot w by simp
  show ?case
  proof (cases "p2 = []")
    case True
    then show ?thesis
      using lt nx le q(4) u1 by (subst find_prev.simps) simp
  next
    case False
    then obtain q' p' where p2: "p2 = q' # p'" by (cases p2) auto
    then have "dirent_ok q'" using Cons.prems(1) by (simp add: layout_def)
    then have "9 \<le> rec_len q'" using dirent_ok_len by blast
    then have ne2: "(of_nat (total p1 + rec_len q) :: u16) \<noteq> of_nat (total (p1 @ q # p2))"
      using tot p2 w [of "total p1 + rec_len q"] w [of "total p1 + (rec_len q + total p2)"]
      by (auto simp: word_unat_eq_iff)
    have "find_prev buf block (of_nat (total ((p1 @ [q]) @ p2))) (of_nat (total (p1 @ [q]))) =
        Ok (of_nat (total ((p1 @ [q]) @ butlast p2)), Some (last p2))"
      using Cons.prems(1) False by (intro Cons.IH) simp_all
    then show ?thesis
      using False lt nx le ne ne2 q(4) u1 by (subst find_prev.simps) simp
  qed
qed

lemma freed_layout:
  assumes "layout (pre @ e # post) buf"
  shows "layout (freed pre e post) (image (freed pre e post))"
    "filter (\<lambda>x. \<not> is_free x) (freed pre e post) = filter (\<lambda>x. \<not> is_free x) (pre @ post)"
proof -
  define pre' a where "pre' = (if pre \<noteq> [] \<and> is_free (last pre) then butlast pre else pre)"
    and "a = (if pre \<noteq> [] \<and> is_free (last pre) then [last pre] else [])"
  define post' b where "post' = (if post \<noteq> [] \<and> is_free (hd post) then tl post else post)"
    and "b = (if post \<noteq> [] \<and> is_free (hd post) then [hd post] else [])"
  have split: "pre = pre' @ a" "post = b @ post'" by (auto simp: pre'_def a_def post'_def b_def)
  have fr: "freed pre e post = pre' @ dir_entry_free (of_nat (total (a @ e # b))) # post'"
    by (simp add: freed_def pre'_def a_def post'_def b_def add.assoc)
  have lay: "layout (pre' @ (a @ e # b) @ post') buf" using assms split by simp
  have "total (a @ e # b) \<le> 256" "9 \<le> total (a @ e # b)"
    using layout_total_small [OF lay] layout_slice(2) [OF assms] dirent_ok_len [of e] by simp_all
  then have n: "unat (of_nat (total (a @ e # b)) :: u16) = total (a @ e # b)" "9 \<le> total (a @ e # b)" "total (a @ e # b) \<le> BLOCK_SIZE"
    by (simp_all only: unat_u16_of_nat BLOCK_SIZE_def)
  let ?f = "dir_entry_free (of_nat (total (a @ e # b)))"
  have f: "dirent_ok ?f" "is_free ?f" "rec_len ?f = total (a @ e # b)"
    using dir_entry_free_ok [of "of_nat (total (a @ e # b))"] n by simp_all
  from layout_replace [OF lay, of "[?f]"] f show "layout (freed pre e post) (image (freed pre e post))"
    unfolding fr by simp
  show "filter (\<lambda>x. \<not> is_free x) (freed pre e post) = filter (\<lambda>x. \<not> is_free x) (pre @ post)"
  proof -
    have "filter (\<lambda>x. \<not> is_free x) a = []" "filter (\<lambda>x. \<not> is_free x) b = []" by (simp_all add: a_def b_def)
    then have "filter (\<lambda>x. \<not> is_free x) (pre @ post) = filter (\<lambda>x. \<not> is_free x) (pre' @ post')"
      unfolding split(1) [of] split(2) [of] by simp
    then show ?thesis unfolding fr using f(2) by simp
  qed
qed

context block_device
begin

lemma add_entry_here_execs:
  assumes a: "data_addr h r < length bs" and dh: "dh_data_start dh = ih_data_start h"
    and lay: "layout (pre @ fr # post) (bs ! data_addr h r)"
    and e: "dirent_ok e" "fits e fr"
  shows "execs inv blks (add_entry_here ops dh e r (of_nat (total pre))) bs (Ok ())
    (bs[data_addr h r := image (pre @ insert_at e fr @ post)])"
proof (rule execs_wf)
  assume wf: "wf_blocks bs" and small: "length bs < 4294967296"
  note fr = layout_slice [OF lay]
  have u: "unat (of_nat (total pre) :: u16) = total pre"
    using fr(3) by (simp add: BLOCK_SIZE_def unat_u16_of_nat)
  have free: "is_free fr" and cap: "de_record_len fr \<noteq> de_record_len e \<Longrightarrow> rec_len e + 8 < rec_len fr"
    using e(2) by (auto simp: fits_def)
  have req: "addW (de_record_len e) 8 = Ok (de_record_len e + 8)" "unat (de_record_len e + 8) = rec_len e + 8"
    using dirent_ok_len [OF e(1)] unat_add_small [of "de_record_len e" 8] by (simp_all add: addW_def BLOCK_SIZE_def)
  have guard: "\<not> de_record_len fr < de_record_len e + 8" if "de_record_len fr \<noteq> de_record_len e"
    using cap [OF that] req by (simp add: word_less_nat_alt)
  have sub: "subW (de_record_len fr) (de_record_len e) = Ok (de_record_len fr - de_record_len e)"
    using cap by (cases "de_record_len fr = de_record_len e") (auto simp: subW_def)
  note ins = insert_bytes [OF lay e, unfolded min_free_size_eq]
  have len: "length (image (pre @ insert_at e fr @ post)) = BLOCK_SIZE"
    using insert_at_ok [OF e(1) fr(2) e(2)] lay by (subst length_image) (auto simp: layout_def)
  let ?c = "8 < de_record_len fr - de_record_len e"
  let ?x = "\<lambda>buf. bindR (addW (of_nat (total pre)) (de_record_len e))
    (\<lambda>off. dir_entry_serialize (fr\<lparr>de_record_len := de_record_len fr - de_record_len e\<rparr>) buf (unat off))"
  have pure: "(if ?c
              then bindM (liftM (addW (of_nat (total pre)) (de_record_len e)))
                     (\<lambda>off. liftM (dir_entry_serialize (fr\<lparr>de_record_len := de_record_len fr - de_record_len e\<rparr>) buf (unat off)))
              else returnM buf) = liftM (if ?c then ?x buf else Ok buf)" for buf
    by (cases "addW (of_nat (total pre)) (de_record_len e)") (auto simp: fun_eq_iff io_simps)
  have tail: "bindM (if ?c
              then bindM (liftM (addW (of_nat (total pre)) (de_record_len e)))
                     (\<lambda>off. liftM (dir_entry_serialize (fr\<lparr>de_record_len := de_record_len fr - de_record_len e\<rparr>) (bs ! data_addr h r) (unat off)))
              else returnM (bs ! data_addr h r)) (\<lambda>buf.
       bindM (liftM (dir_entry_serialize e buf (total pre))) W) = W (image (pre @ insert_at e fr @ post))"
    for W :: "bytes \<Rightarrow> ('a, unit) io"
    by (simp only: pure liftM_bindR ins bindM_liftM_Ok)
  show "execs inv blks (add_entry_here ops dh e r (of_nat (total pre))) bs (Ok ())
    (bs[data_addr h r := image (pre @ insert_at e fr @ post)])"
    using read_data_execs [OF a small] write_data_execs [OF a small len] data_addr_word [OF a small]
    unfolding add_entry_here_def dh
    by (auto simp: u fr(4) free req(1) guard sub Let_def tail simp del: image_simps intro!: execs_bind)
qed

lemma add_entry_grow_execs:
  assumes a: "data_addr h r < length bs" and dh: "dh_data_start dh = ih_data_start h"
    and e: "dirent_ok e" "rec_len e + 9 \<le> BLOCK_SIZE"
  shows "execs inv blks (add_entry_grow ops dh e r) bs (Ok ())
    (bs[data_addr h r := image [e, dir_entry_free (of_nat (BLOCK_SIZE - rec_len e))]])"
proof (rule execs_wf)
  assume wf: "wf_blocks bs" and small: "length bs < 4294967296"
  let ?rem = "of_nat (BLOCK_SIZE - rec_len e) :: u16"
  have rem: "unat ?rem = BLOCK_SIZE - rec_len e" by (simp add: BLOCK_SIZE_def unat_u16_of_nat)
  have bsz: "unat (of_nat BLOCK_SIZE :: u16) = BLOCK_SIZE" by (simp add: BLOCK_SIZE_def)
  have "(of_nat BLOCK_SIZE :: u16) - de_record_len e = ?rem"
    using e(2) by (simp add: of_nat_diff)
  then have sub: "subW (of_nat BLOCK_SIZE :: u16) (de_record_len e) = Ok ?rem"
    using e(2) bsz by (simp add: subW_def)
  have pos: "?rem \<noteq> 0" "\<not> ?rem < 8" "0 < ?rem"
    using rem e(2) by (auto simp: word_less_nat_alt word_unat_eq_iff)
  let ?f = "dir_entry_free ?rem"
  have f: "dirent_ok ?f" "rec_len ?f = BLOCK_SIZE - rec_len e" using dir_entry_free_ok [of ?rem] rem e(2) by simp_all
  have s1: "dir_entry_serialize e zero_block 0 = Ok (splice zero_block 0 (encode e))"
    using serialize_encode [OF e(1), of zero_block 0] e(2) by simp
  let ?b = "splice zero_block 0 (encode e)"
  have b: "length ?b = BLOCK_SIZE" using length_encode [OF e(1)] e(2) by simp
  have s2: "dir_entry_serialize ?f ?b (rec_len e) = Ok (splice ?b (rec_len e) (encode ?f))"
    using serialize_encode [OF f(1) b] f(2) e(2) by simp
  have "splice ?b (rec_len e) (encode ?f) = image [e, ?f]"
    using splice_append [of 0 "encode e" "encode ?f" zero_block] length_encode [OF e(1)] length_encode [OF f(1)] f(2) e(2)
    by (simp add: splice_def)
  with s2 have s3: "dir_entry_serialize ?f ?b (rec_len e) = Ok (image [e, ?f])" by simp
  have len: "length (image [e, ?f]) = BLOCK_SIZE" using length_image [of "[e, ?f]"] e f by simp
  show "execs inv blks (add_entry_grow ops dh e r) bs (Ok ()) (bs[data_addr h r := image [e, ?f]])"
    using write_data_execs [OF a small len] data_addr_word [OF a small]
    unfolding add_entry_grow_def dh
    by (auto simp: sub pos s1 s3 simp del: image_simps intro!: execs_bind)
qed

lemma merge_prev:
  assumes lay: "layout (pre @ e # post) buf"
  defines "m \<equiv> pre \<noteq> [] \<and> is_free (last pre)"
  obtains po pe where "find_prev buf r (of_nat (total pre)) 0 = Ok (po, pe)"
    "(case pe of Some e \<Rightarrow> if is_free e then (de_record_len e, po) else (0, of_nat (total pre)) | None \<Rightarrow> (0, of_nat (total pre))) =
      (of_nat (total (if m then [last pre] else [])) :: u16, of_nat (total (if m then butlast pre else pre)) :: u16)"
proof (cases "pre = []")
  case True
  then have "find_prev buf r (of_nat (total pre)) 0 = Ok (0, None)" by (subst find_prev.simps) simp
  from that [OF this] True show thesis by (simp add: m_def)
next
  case False
  with find_prev_last [of "[]" pre e post buf r] lay
  have "find_prev buf r (of_nat (total pre)) 0 = Ok (of_nat (total (butlast pre)), Some (last pre))" by simp
  from that [OF this] False show thesis by (simp add: m_def)
qed

lemma merge_next:
  fixes n :: nat
  assumes lay: "layout (pre @ e # post) buf"
  defines "k \<equiv> total (if post \<noteq> [] \<and> is_free (hd post) then [hd post] else [])" and "nx \<equiv> total pre + rec_len e"
  assumes n: "n + k \<le> 256"
  shows "(if nx < BLOCK_SIZE
      then bindM (liftM (dir_entry_deserialize buf nx)) (\<lambda>next_entry.
           if is_free next_entry then liftM (addW (of_nat n) (de_record_len next_entry)) else returnM (of_nat n))
      else returnM (of_nat n)) = (returnM (of_nat (n + k)) :: ('s, u16) io)"
proof (cases post)
  case Nil
  then show ?thesis using layout_total_small [OF lay] by (simp add: k_def nx_def BLOCK_SIZE_def)
next
  case (Cons z zs)
  then have lz: "layout ((pre @ [e]) @ z # zs) buf" using lay by simp
  have "unat (of_nat n :: u16) = n" using n by (simp add: unat_u16_of_nat)
  then have add: "addW (of_nat n) (de_record_len z) = Ok (of_nat (n + rec_len z))" if "is_free z"
    using n that Cons by (simp add: addW_def k_def)
  have nx: "nx < 256" using layout_slice(3) [OF lz] dirent_ok_len [OF layout_slice(2) [OF lz]] by (simp add: BLOCK_SIZE_def nx_def)
  have "dir_entry_deserialize buf nx = Ok z" using layout_slice(4) [OF lz] by (simp add: nx_def)
  with nx add Cons show ?thesis by (simp add: k_def BLOCK_SIZE_def del: of_nat_add)
qed

lemma free_region_execs:
  assumes a: "data_addr h r < length bs" and dh: "dh_data_start dh = ih_data_start h"
    and lay: "layout (pre @ e # post) (bs ! data_addr h r)"
  shows "execs inv blks (free_region ops dh r (of_nat (total pre))) bs (Ok (de_record_len e))
    (bs[data_addr h r := image (freed pre e post)])"
proof (rule execs_wf)
  assume wf: "wf_blocks bs" and small: "length bs < 4294967296"
  let ?buf = "bs ! data_addr h r"
  define p where "p = (if pre \<noteq> [] \<and> is_free (last pre) then butlast pre else pre)"
  define x where "x = (if pre \<noteq> [] \<and> is_free (last pre) then [last pre] else [])"
  define q where "q = (if post \<noteq> [] \<and> is_free (hd post) then tl post else post)"
  define y where "y = (if post \<noteq> [] \<and> is_free (hd post) then [hd post] else [])"
  have split: "pre = p @ x" "post = y @ q" by (auto simp: p_def x_def q_def y_def)
  note e = layout_slice [OF lay]
  have tot: "total p + (total x + (rec_len e + (total y + total q))) = 256"
    using layout_total_small [OF lay] unfolding split by simp
  have u: "unat (of_nat n :: u16) = n" if "n \<le> 256" for n using that by (simp add: unat_u16_of_nat)
  have tp: "total pre \<le> 256" using tot split(1) by simp
  obtain po pe where pope: "find_prev ?buf r (of_nat (total pre)) 0 = Ok (po, pe)"
    and sel: "(case pe of
          Some e \<Rightarrow> if is_free e then (de_record_len e, po) else (0, of_nat (total pre))
        | None \<Rightarrow> (0, of_nat (total pre))) = (of_nat (total x) :: u16, of_nat (total p) :: u16)"
    unfolding x_def p_def by (rule merge_prev [OF lay])
  have add1: "addW (of_nat (total x)) (de_record_len e) = Ok (of_nat (total x + rec_len e))"
    using tot u [of "total x"] by (simp add: addW_def)
  let ?n = "total x + rec_len e + total y"
  have "total x + rec_len e + total y \<le> 256" using tot by simp
  note nextM = merge_next [OF lay this [unfolded y_def], folded y_def]
  have fr: "freed pre e post = p @ [dir_entry_free (of_nat ?n)] @ q"
    by (simp add: freed_def p_def x_def q_def y_def)
  have lay2: "layout (p @ (x @ e # y) @ q) ?buf" using lay split by simp
  have n: "unat (of_nat ?n :: u16) = ?n" "9 \<le> ?n" "?n \<le> BLOCK_SIZE"
    using tot u [of ?n] dirent_ok_len [OF e(2)] by (simp_all add: BLOCK_SIZE_def)
  then have f: "dirent_ok (dir_entry_free (of_nat ?n))" "rec_len (dir_entry_free (of_nat ?n)) = ?n"
    using dir_entry_free_ok [of "of_nat ?n"] by simp_all
  have ser: "dir_entry_serialize (dir_entry_free (of_nat ?n)) ?buf (total p) = Ok (image (freed pre e post))"
    using serialize_encode [OF f(1) layout_length [OF lay], of "total p"] f tot
      layout_replace(2) [OF lay2, of "[dir_entry_free (of_nat ?n)]"] unfolding fr
    by (simp add: BLOCK_SIZE_def)
  have len: "length (image (freed pre e post)) = BLOCK_SIZE"
    using layout_length [OF freed_layout(1) [OF lay]] .
  show "execs inv blks (free_region ops dh r (of_nat (total pre))) bs (Ok (de_record_len e))
    (bs[data_addr h r := image (freed pre e post)])"
    using read_data_execs [OF a small] write_data_execs [OF a small len] data_addr_word [OF a small]
    unfolding free_region_def dh
    by (auto simp: pope sel u [OF tp] u [of "total p"] e(4) add1 nextM ser Let_def tot [symmetric]
        simp del: image_simps of_nat_add intro!: execs_bind)
qed

end

end
