(* ===== verification/Directory_Update.thy ===== *)
theory Directory_Update
  imports Directory_Handler "HOL-Library.Multiset"
begin

text \<open>
  Updates of directories on the device: writing a whole directory, inserting an entry where
  \<open>can_fit\<close> found room or into a new block, removing the entry \<open>find_entry\<close> found. The contents of
  the directory before and after are related as lists of entries.
\<close>

lemma foldM_append: "foldM f (xs @ ys) a = bindM (foldM f xs a) (foldM f ys)"
proof (induction xs arbitrary: a)
  case (Cons x xs)
  then have "foldM f (xs @ ys) = (\<lambda>a. bindM (foldM f xs a) (foldM f ys))" by blast
  then show ?case by (simp add: bindM_assoc)
qed simp

lemma dir_layout_update:
  assumes dir: "dir_layout h bs i ess" and k: "k < length ess"
    and dis: "distinct (inode_blocks h bs i)" and meta: "data_addr h (inode_blocks h bs i ! k) \<notin> set (meta_blocks h bs i)"
    and lay: "layout es (image es)"
  shows "dir_layout h (bs[data_addr h (inode_blocks h bs i ! k) := image es]) i (ess[k := es])"
    "inode_blocks h (bs[data_addr h (inode_blocks h bs i ! k) := image es]) i = inode_blocks h bs i"
    "meta_blocks h (bs[data_addr h (inode_blocks h bs i ! k) := image es]) i = meta_blocks h bs i"
proof -
  let ?rs = "inode_blocks h bs i" let ?a = "data_addr h (?rs ! k)" let ?bs = "bs[?a := image es]"
  have len: "length ess = length ?rs" using dir by (auto simp: dir_layout_def dest: list_all2_lengthD)
  have eq: "?bs ! a = bs ! a" if "a \<in> set (meta_blocks h bs i)" for a using that meta by (cases "a = ?a") simp_all
  show frame1: "inode_blocks h ?bs i = ?rs" by (rule inode_blocks_frame [OF eq])
  show frame2: "meta_blocks h ?bs i = meta_blocks h bs i" by (rule meta_blocks_frame [OF eq])
  have inj: "data_addr h (?rs ! j) \<noteq> ?a" if "j \<noteq> k" "j < length ess" for j
  proof -
    have "?rs ! j \<noteq> ?rs ! k" using that k dis len by (simp add: nth_eq_iff_index_eq)
    then show ?thesis by (simp add: data_addr_def word_unat_eq_iff)
  qed
  have rel: "data_addr h (?rs ! j) < length bs \<and> layout (ess ! j) (bs ! data_addr h (?rs ! j))" if "j < length ess" for j
    using dir that len by (auto simp: dir_layout_def list_all2_conv_all_nth)
  have "layout (ess[k := es] ! j) (?bs ! data_addr h (?rs ! j))" if "j < length ess" for j
    using rel [OF that] rel [OF k] inj [OF _ that] lay k by (cases "j = k") simp_all
  then have "list_all2 (\<lambda>r es. data_addr h r < length ?bs \<and> layout es (?bs ! data_addr h r)) ?rs (ess[k := es])"
    using rel len by (simp add: list_all2_conv_all_nth)
  then show "dir_layout h ?bs i (ess[k := es])"
    using dir unfolding dir_layout_def frame1 by (simp add: meta_ok_def frame2)
qed


section \<open>Writing a directory\<close>

lemma validate_block:
  "\<forall>e \<in> set es. dirent_ok e \<Longrightarrow> es \<noteq> [] \<Longrightarrow> off + total es = BLOCK_SIZE \<Longrightarrow>
   validate_layout (es @ rest) off n = validate_layout rest 0 (n + 1)"
proof (induction es arbitrary: off)
  case (Cons e es)
  show ?case
  proof (cases "es = []")
    case False
    then obtain x xs where "es = x # xs" by (cases es) auto
    then have "0 < total es" using Cons.prems(1) dirent_ok_len [of x] by auto
    then show ?thesis using Cons False by (auto simp: Let_def add.assoc)
  qed (use Cons.prems in \<open>simp add: Let_def\<close>)
qed simp

lemma layout_nonempty: "layout es buf \<Longrightarrow> es \<noteq> []"
  by (auto simp: layout_def BLOCK_SIZE_def)

lemma validate_blocks:
  "\<forall>es \<in> set ess. layout es (image es) \<Longrightarrow> validate_layout (concat ess) 0 n = Ok (0, n + length ess)"
proof (induction ess arbitrary: n)
  case (Cons es ess)
  then have "validate_layout (es @ concat ess) 0 n = validate_layout (concat ess) 0 (n + 1)"
    by (intro validate_block) (auto simp: layout_def BLOCK_SIZE_def)
  with Cons show ?case by simp
qed simp

context block_device
begin

lemma write_entries_execs:
  assumes i: "inode_wf i" "meta_ok h bs i" and k: "k < unat (in_blocks i)"
    and dh: "dh_data_start dh = ih_data_start h" and a: "data_addr h (inode_blocks h bs i ! k) < length bs"
    and small: "length bs < 4294967296"
  shows "\<forall>e \<in> set es. dirent_ok e \<Longrightarrow> es \<noteq> [] \<Longrightarrow> off + total es = BLOCK_SIZE \<Longrightarrow> length buf = BLOCK_SIZE \<Longrightarrow>
    execs inv blks (foldM (write_entry ops dh i h) es (buf, off, of_nat k)) bs
      (Ok (zero_block, 0, of_nat (Suc k))) (bs[data_addr h (inode_blocks h bs i ! k) := splice buf off (image es)])"
proof (induction es arbitrary: buf off)
  case (Cons e es)
  have e: "dirent_ok e" "off + rec_len e \<le> BLOCK_SIZE" using Cons.prems by auto
  note ser = serialize_encode [OF e(1) Cons.prems(4) e(2)]
  have len: "length (splice buf off (encode e)) = BLOCK_SIZE"
    using length_encode [OF e(1)] e(2) Cons.prems(4) by simp
  have ku: "unat (of_nat k :: u32) = k" using k unat_u32_bound [of "in_blocks i"] by (intro unat_u32_of_nat) linarith
  show ?case
  proof (cases "es = []")
    case True
    then have off: "off + rec_len e = BLOCK_SIZE" using Cons.prems by simp
    have "k + 1 < 4294967296" using k unat_u32_bound [of "in_blocks i"] by linarith
    then have add: "addW (of_nat k :: u32) 1 = Ok (of_nat (Suc k))" using ku by (simp add: addW_def add.commute [of "of_nat k" 1])
    show ?thesis
      using True get_block_execs [OF i, of "of_nat k"] k ku write_data_execs [OF a small len] data_addr_word [OF a small]
      by (auto simp: write_entry_def ser off add dh word_less_nat_alt intro!: execs_bind)
  next
    case False
    then obtain x xs where "es = x # xs" by (cases es) auto
    then have pos: "0 < total es" using Cons.prems(1) dirent_ok_len [of x] by auto
    then have off: "off + rec_len e \<noteq> BLOCK_SIZE" using Cons.prems(3) by simp
    have step: "execs inv blks (write_entry ops dh i h e (buf, off, of_nat k)) bs
        (Ok (splice buf off (encode e), off + rec_len e, of_nat k)) bs"
      using off by (auto simp: write_entry_def ser)
    have "splice (splice buf off (encode e)) (off + rec_len e) (image es) = splice buf off (encode e @ image es)"
      using splice_append [of off "encode e" "image es" buf] length_encode [OF e(1)] length_image [of es] Cons.prems
      by simp
    with Cons.IH [of "off + rec_len e" "splice buf off (encode e)"] Cons.prems False len
    have "execs inv blks (foldM (write_entry ops dh i h) es (splice buf off (encode e), off + rec_len e, of_nat k)) bs
      (Ok (zero_block, 0, of_nat (Suc k)))
      (bs[data_addr h (inode_blocks h bs i ! k) := splice buf off (image (e # es))])" by (simp add: add.assoc)
    with step show ?thesis by (auto intro: execs_bind)
  qed
qed simp

end

text \<open>The blocks of a directory, set one after the other.\<close>

fun put_blocks :: "inode_table_handler \<Rightarrow> bytes list \<Rightarrow> (u32 \<times> dir_entry list) list \<Rightarrow> bytes list" where
  "put_blocks h bs [] = bs"
| "put_blocks h bs ((r, es) # bls) = put_blocks h (bs[data_addr h r := image es]) bls"

lemma length_put_blocks [simp]: "length (put_blocks h bs bls) = length bs"
  by (induction h bs bls rule: put_blocks.induct) auto

lemma put_blocks_other: "a \<notin> data_addr h ` fst ` set bls \<Longrightarrow> put_blocks h bs bls ! a = bs ! a"
  by (induction h bs bls rule: put_blocks.induct) auto

lemma put_blocks_nth:
  "distinct (map fst bls) \<Longrightarrow> (r, es) \<in> set bls \<Longrightarrow> data_addr h r < length bs \<Longrightarrow>
   put_blocks h bs bls ! data_addr h r = image es"
proof (induction h bs bls rule: put_blocks.induct)
  case (2 h bs r' es' bls)
  show ?case
  proof (cases "r = r'")
    case True
    have "(r, es) \<notin> set bls" using True "2.prems"(1) image_eqI [of r fst "(r, es)" "set bls"] by auto
    then have "es = es'" using "2.prems"(2) by simp
    have "data_addr h r \<notin> data_addr h ` fst ` set bls"
      using True "2.prems"(1) by (metis data_addr_inj distinct.simps(2) fst_conv imageE list.simps(9) list.set_map)
    with True \<open>es = es'\<close> "2.prems"(3) show ?thesis by (simp add: put_blocks_other)
  next
    case False
    with 2 show ?thesis by simp
  qed
qed simp

lemma meta_blocks_direct [simp]: "unat (in_blocks i) \<le> 12 \<Longrightarrow> meta_blocks h bs i = []"
  by (simp add: meta_blocks_def)

lemma inode_blocks_direct: "unat (in_blocks i) \<le> 12 \<Longrightarrow> inode_blocks h bs i = take (unat (in_blocks i)) (in_direct i) \<or> \<not> inode_wf i"
  by (auto simp: inode_blocks_def block_at_def inode_wf_def intro!: nth_equalityI)

context block_device
begin

lemma write_blocks_execs:
  assumes i: "inode_wf i" "unat (in_blocks i) \<le> 12" and dh: "dh_data_start dh = ih_data_start h"
    and lay: "\<forall>es \<in> set ess. layout es (image es)"
    and small: "k \<le> unat (in_blocks i)" "length bs < 4294967296"
    and rs: "length ess + k = unat (in_blocks i)" "rs = drop k (inode_blocks h bs i)"
    and a: "\<forall>r \<in> set rs. data_addr h r < length bs"
  shows "execs inv blks (foldM (write_entry ops dh i h) (concat ess) (zero_block, 0, of_nat k)) bs
     (Ok (zero_block, 0, in_blocks i)) (put_blocks h bs (zip rs ess))"
  using lay small rs a
proof (induction ess arbitrary: k bs rs)
  case Nil
  then have "in_blocks i = of_nat k" by (metis add_0 list.size(3) of_nat_unat ucast_id)
  with Nil show ?case by auto
next
  case (Cons es ess)
  have k: "k < unat (in_blocks i)" using Cons.prems by simp
  have same: "inode_blocks h bs' i = inode_blocks h bs i" for bs'
    using i(2) by (intro inode_blocks_frame) simp
  have rs: "rs = inode_blocks h bs i ! k # drop (Suc k) (inode_blocks h bs i)"
    using Cons.prems(5) k by (simp add: Cons_nth_drop_Suc)
  let ?a = "data_addr h (inode_blocks h bs i ! k)"
  have meta: "meta_ok h bs i" using i(2) by (simp add: meta_ok_def)
  have es: "\<forall>e \<in> set es. dirent_ok e" "es \<noteq> []" "0 + total es = BLOCK_SIZE"
    using Cons.prems(1) layout_nonempty by (auto simp: layout_def BLOCK_SIZE_def)
  have "splice zero_block 0 (image es) = image es" using es length_image [OF es(1)] by (simp add: splice_def)
  with write_entries_execs [OF i(1) meta k dh _ Cons.prems(3) es, of zero_block] Cons.prems(6) rs
  have blk: "execs inv blks (foldM (write_entry ops dh i h) es (zero_block, 0, of_nat k)) bs
      (Ok (zero_block, 0, of_nat (Suc k))) (bs[?a := image es])" by simp
  have "execs inv blks (foldM (write_entry ops dh i h) (concat ess) (zero_block, 0, of_nat (Suc k))) (bs[?a := image es])
      (Ok (zero_block, 0, in_blocks i)) (put_blocks h (bs[?a := image es]) (zip (drop (Suc k) (inode_blocks h bs i)) ess))"
  proof (rule Cons.IH)
    show "\<forall>r \<in> set (drop (Suc k) (inode_blocks h bs i)). data_addr h r < length (bs[?a := image es])"
      using Cons.prems(6) unfolding rs by simp
    show "drop (Suc k) (inode_blocks h bs i) = drop (Suc k) (inode_blocks h (bs[?a := image es]) i)"
      by (simp only: same [of "bs[?a := image es]"])
  qed (use Cons.prems k in simp_all)
  with blk show ?case unfolding rs by (auto simp: foldM_append intro: execs_bind)
qed

lemma write_directory_execs:
  assumes i: "inode_wf i" "unat (in_blocks i) = length ess" "length ess \<le> 12" and dh: "dh_data_start dh = ih_data_start h"
    and lay: "\<forall>es \<in> set ess. layout es (image es)"
    and rs: "distinct (inode_blocks h bs i)" "\<forall>r \<in> set (inode_blocks h bs i). data_addr h r < length bs"
  shows "execs inv blks (write_directory_with_inode ops dh \<lparr>dy_inode = n, dy_entries = concat ess\<rparr> i h) bs (Ok ())
      (put_blocks h bs (contents h bs i ess)) \<and> dir_layout h (put_blocks h bs (contents h bs i ess)) i ess"
proof
  show "execs inv blks (write_directory_with_inode ops dh \<lparr>dy_inode = n, dy_entries = concat ess\<rparr> i h) bs (Ok ())
      (put_blocks h bs (contents h bs i ess))"
  proof (rule execs_wf)
    assume "length bs < 4294967296"
    then show "execs inv blks (write_directory_with_inode ops dh \<lparr>dy_inode = n, dy_entries = concat ess\<rparr> i h) bs (Ok ())
      (put_blocks h bs (contents h bs i ess))"
      using write_blocks_execs [OF i(1) _ dh lay, of 0 bs "inode_blocks h bs i"] i validate_blocks [OF lay, of 0] rs
      by (auto simp: write_directory_with_inode_def intro!: execs_bind)
  qed
  let ?bs = "put_blocks h bs (contents h bs i ess)"
  have same: "inode_blocks h ?bs i = inode_blocks h bs i" using i by (intro inode_blocks_frame) simp
  have "?bs ! data_addr h (inode_blocks h bs i ! k) = image (ess ! k)" if "k < length ess" for k
    using that rs i(2) by (intro put_blocks_nth) (auto simp: set_zip)
  then show "dir_layout h ?bs i ess"
    using i lay rs unfolding dir_layout_def same by (auto simp: meta_ok_def list_all2_conv_all_nth)
qed

end


section \<open>New directories\<close>

text \<open>The entries of a new directory, and a directory with one data block on a small memory device.\<close>

definition small_entry :: "u32 \<Rightarrow> file_type \<Rightarrow> bytes \<Rightarrow> u16 \<Rightarrow> dir_entry" where
  "small_entry n t name len =
     \<lparr>de_inode = n, de_file_type = t, de_record_len = len, de_name_len = of_nat (length name),
      de_name = name @ replicate (MAX_NAME - length name) 0\<rparr>"

definition dir_start :: "u32 \<Rightarrow> u32 \<Rightarrow> dir_entry list" where
  "dir_start a p = [small_entry a Directory [46] 12, small_entry p Directory [46, 46] 12, dir_entry_free 232]"

lemma small_entry_ok:
  assumes "n \<noteq> INVALID_ADDRESS" "length name \<le> MAX_NAME" "9 + length name \<le> unat len" "unat len \<le> BLOCK_SIZE"
  shows "dirent_ok (small_entry n t name len)" "\<not> is_free (small_entry n t name len)"
    "name_of (small_entry n t name len) = name" "rec_len (small_entry n t name len) = unat len"
proof -
  have l: "unat (of_nat (length name) :: u16) = length name" using assms(2) by (simp add: unat_u16_of_nat MAX_NAME_def)
  then show nm: "name_of (small_entry n t name len) = name" by (simp add: name_of_def small_entry_def)
  show live: "\<not> is_free (small_entry n t name len)" using assms(1) by (simp add: is_free_def small_entry_def)
  show len: "rec_len (small_entry n t name len) = unat len" by (simp add: small_entry_def)
  have "unat (de_name_len (small_entry n t name len)) = length name"
    "de_name (small_entry n t name len) = name @ replicate (MAX_NAME - length name) 0"
    using l by (simp_all add: small_entry_def)
  with live len nm assms(2-4) show "dirent_ok (small_entry n t name len)" unfolding dirent_ok_def by simp
qed

lemma directory_new_eq: "directory_new a p = Ok \<lparr>dy_inode = a, dy_entries = dir_start a p\<rparr>"
proof -
  have "min_record_len 1 = Ok 12" "min_record_len 2 = Ok 12"
    using min_record_len_eq [of 1] min_record_len_eq [of 2] by (auto simp: word_unat_eq_iff)
  then show ?thesis
    by (simp add: directory_new_def dir_start_def dir_entry_new_def small_entry_def MAX_NAME_def splice_def subW_def BLOCK_SIZE_def)
qed

lemma dir_entry_free_len [simp]: "8 \<le> n \<Longrightarrow> de_record_len (dir_entry_free n) = n"
  by (simp add: dir_entry_free_def max_def)

lemma is_free_dir_entry_free [simp]: "is_free (dir_entry_free n)"
  by (simp add: is_free_def dir_entry_free_def)

lemma layout_dir_start:
  assumes "a \<noteq> INVALID_ADDRESS" "p \<noteq> INVALID_ADDRESS"
  shows "layout (dir_start a p) (image (dir_start a p))"
proof -
  have "dirent_ok (dir_entry_free 232)" using dir_entry_free_ok [of 232] by (simp add: BLOCK_SIZE_def)
  then show ?thesis
    using small_entry_ok [OF assms(1), of "[46]" 12 Directory] small_entry_ok [OF assms(2), of "[46, 46]" 12 Directory]
    by (simp add: layout_def dir_start_def MAX_NAME_def BLOCK_SIZE_def)
qed

abbreviation one_handler :: inode_table_handler where "one_handler \<equiv> inode_table_handler_new 0 0 1"
abbreviation one_dh :: directory_handler where "one_dh \<equiv> directory_handler_new 1 0"
abbreviation one_inode :: inode where
  "one_inode \<equiv> (inode_empty Directory 0 0)\<lparr>in_direct := replicate 12 0, in_blocks := 1\<rparr>"
abbreviation one_device :: "dir_entry list \<Rightarrow> memory_device" where
  "one_device es \<equiv> \<lparr>md_blocks = [zero_block, image es]\<rparr>"

lemma one_directory:
  assumes "layout es (image es)"
  shows "mem_inv (one_device es)" "dir_layout one_handler (md_blocks (one_device es)) one_inode [es]"
    "dh_data_start one_dh = ih_data_start one_handler" "distinct (inode_blocks one_handler (md_blocks (one_device es)) one_inode)"
    "\<forall>r \<in> set (inode_blocks one_handler (md_blocks (one_device es)) one_inode).
       data_addr one_handler r \<notin> set (meta_blocks one_handler (md_blocks (one_device es)) one_inode)"
    "inode_blocks one_handler (md_blocks (one_device es)) one_inode = [0]"
proof -
  show r: "inode_blocks one_handler (md_blocks (one_device es)) one_inode = [0]"
    by (simp add: inode_blocks_def block_at_def)
  show "mem_inv (one_device es)" using layout_length [OF assms] by (simp add: mem_inv_def wf_blocks_def)
  show "dir_layout one_handler (md_blocks (one_device es)) one_inode [es]"
    unfolding dir_layout_def r using assms
    by (simp add: meta_ok_def inode_wf_def data_addr_def inode_table_handler_new_def)
  show "dh_data_start one_dh = ih_data_start one_handler"
    by (simp add: directory_handler_new_def inode_table_handler_new_def)
  show "distinct (inode_blocks one_handler (md_blocks (one_device es)) one_inode)" unfolding r by simp
  show "\<forall>r \<in> set (inode_blocks one_handler (md_blocks (one_device es)) one_inode).
       data_addr one_handler r \<notin> set (meta_blocks one_handler (md_blocks (one_device es)) one_inode)" by simp
qed


section \<open>Properties\<close>

abbreviation live :: "dir_entry list list \<Rightarrow> dir_entry list" where
  "live ess \<equiv> filter (\<lambda>e. \<not> is_free e) (concat ess)"

lemma contents_union: "dir_layout h bs i ess \<Longrightarrow> \<Union> (set ` snd ` set (contents h bs i ess)) = set (concat ess)"
  using dir_layout_contents(1) [of h bs i ess] by (metis list.set_map set_concat)

lemma contents_nth:
  assumes "dir_layout h bs i ess" "(r, es) \<in> set (contents h bs i ess)"
  shows "\<exists>k < length ess. inode_blocks h bs i ! k = r \<and> ess ! k = es \<and> data_addr h r < length bs \<and>
    layout es (bs ! data_addr h r)" "set es \<subseteq> set (concat ess)"
proof -
  show "\<exists>k < length ess. inode_blocks h bs i ! k = r \<and> ess ! k = es \<and> data_addr h r < length bs \<and>
    layout es (bs ! data_addr h r)"
    using assms by (fastforce simp: dir_layout_def list_all2_conv_all_nth set_zip)
  show "set es \<subseteq> set (concat ess)" using set_zip_rightD [OF assms(2)] by auto
qed

lemma concat_update:
  assumes "k < length ess"
  shows "mset (concat (ess[k := es])) + mset (ess ! k) = mset (concat ess) + mset es"
proof -
  have "concat (ess[k := es]) = concat (take k ess) @ es @ concat (drop (Suc k) ess)"
    using assms by (simp add: upd_conv_take_nth_drop)
  moreover have "concat ess = concat (take k ess) @ ess ! k @ concat (drop (Suc k) ess)"
    using assms by (metis concat.simps(2) concat_append id_take_nth_drop)
  ultimately show ?thesis by simp
qed

lemma live_update:
  assumes "k < length ess"
  shows "mset (live (ess[k := es])) + mset (filter (\<lambda>e. \<not> is_free e) (ess ! k)) =
    mset (live ess) + mset (filter (\<lambda>e. \<not> is_free e) es)"
  using arg_cong [OF concat_update [OF assms, of es], of "filter_mset (\<lambda>e. \<not> is_free e)"] by simp

text \<open>
  An entry inserted into the free region a search located, and an entry that a search located removed:
  the new contents of the one block that changes.
\<close>

lemma located_block:
  assumes dir: "dir_layout h bs i ess" and found: "locate_in P (contents h bs i ess) = Some (e, r, off)"
  obtains k pre post where "P e" "off = total pre" "k < length ess" "inode_blocks h bs i ! k = r" "ess ! k = pre @ e # post"
    "data_addr h r < length bs" "layout (pre @ e # post) (bs ! data_addr h r)" "r \<in> set (inode_blocks h bs i)"
    "e \<in> set (concat ess)"
proof -
  from locate_in_SomeD [OF found] obtain pre post where
    p: "(r, pre @ e # post) \<in> set (contents h bs i ess)" "P e" "off = total pre" by blast
  have r: "r \<in> set (inode_blocks h bs i)" using p(1) set_zip_leftD by fastforce
  have e: "e \<in> set (concat ess)" using contents_nth(2) [OF dir p(1)] by simp
  from contents_nth(1) [OF dir p(1)] p r e that show thesis by blast
qed

text \<open>The record at the place a search located.\<close>

lemma located_record:
  assumes dir: "dir_layout h bs i ess" and found: "locate_in P (contents h bs i ess) = Some (e, r, off)"
  shows "dir_entry_deserialize (bs ! data_addr h r) off = Ok e" "unat (of_nat off :: u16) = off"
proof -
  from located_block [OF dir found] obtain k pre post where k: "off = total pre" "layout (pre @ e # post) (bs ! data_addr h r)" by metis
  show "dir_entry_deserialize (bs ! data_addr h r) off = Ok e" using layout_slice(4) [OF k(2)] k(1) by simp
  have "off \<le> BLOCK_SIZE" using k by (auto simp: layout_def)
  then show "unat (of_nat off :: u16) = off" by (simp add: unat_of_nat take_bit_nat_eq_self BLOCK_SIZE_def)
qed

context block_device
begin

lemma insert_located:
  assumes dir: "dir_layout h bs i ess" and dh: "dh_data_start dh = ih_data_start h"
    and dis: "distinct (inode_blocks h bs i)" and meta: "\<forall>r \<in> set (inode_blocks h bs i). data_addr h r \<notin> set (meta_blocks h bs i)"
    and e: "dirent_ok e" "\<not> is_free e"
    and found: "locate_in (takes e) (contents h bs i ess) = Some (fr, r, off)" and eight: "rec_len fr \<noteq> rec_len e + 8"
  shows "\<exists>es ess'. execs inv blks (add_entry_here ops dh e r (of_nat off)) bs (Ok ()) (bs[data_addr h r := image es]) \<and>
    layout es (image es) \<and> dir_layout h (bs[data_addr h r := image es]) i ess' \<and>
    mset (live ess') = add_mset e (mset (live ess)) \<and> r \<in> set (inode_blocks h bs i)"
proof -
  from located_block [OF dir found] obtain k pre post where k: "takes e fr" "off = total pre" "k < length ess"
    "inode_blocks h bs i ! k = r" "ess ! k = pre @ fr # post" "data_addr h r < length bs"
    "layout (pre @ fr # post) (bs ! data_addr h r)" "r \<in> set (inode_blocks h bs i)" "fr \<in> set (concat ess)" .
  with eight have fits: "fits e fr" by (auto simp: takes_def fits_def)
  let ?es = "pre @ insert_at e fr @ post"
  note ins = insert_at_ok [OF e(1) layout_slice(2) [OF k(7)] fits]
  have lay: "layout ?es (image ?es)" using k(7) ins by (auto simp: layout_def)
  have "dir_layout h (bs[data_addr h r := image ?es]) i (ess[k := ?es])"
    using dir_layout_update(1) [OF dir k(3) dis _ lay] meta k(8) unfolding k(4) by blast
  moreover have "mset (live (ess[k := ?es])) = add_mset e (mset (live ess))"
    using live_update [OF k(3), of ?es] ins(3) e(2) k(1) unfolding k(5) by (simp add: takes_def)
  moreover note add_entry_here_execs [OF k(6) dh k(7) e(1) fits]
  ultimately show ?thesis using k(2,8) lay by blast
qed

lemma remove_located:
  assumes dir: "dir_layout h bs i ess" and dh: "dh_data_start dh = ih_data_start h"
    and dis: "distinct (inode_blocks h bs i)" and meta: "\<forall>r \<in> set (inode_blocks h bs i). data_addr h r \<notin> set (meta_blocks h bs i)"
    and found: "locate_in (named name) (contents h bs i ess) = Some (e, r, off)"
  shows "\<exists>es ess'. execs inv blks (free_region ops dh r (of_nat off)) bs (Ok (de_record_len e)) (bs[data_addr h r := image es]) \<and>
    layout es (image es) \<and> dir_layout h (bs[data_addr h r := image es]) i ess' \<and>
    mset (live ess) = add_mset e (mset (live ess')) \<and> r \<in> set (inode_blocks h bs i)"
proof -
  from located_block [OF dir found] obtain k pre post where k: "named name e" "off = total pre" "k < length ess"
    "inode_blocks h bs i ! k = r" "ess ! k = pre @ e # post" "data_addr h r < length bs"
    "layout (pre @ e # post) (bs ! data_addr h r)" "r \<in> set (inode_blocks h bs i)" "e \<in> set (concat ess)" .
  note lay = freed_layout [OF k(7)]
  have "dir_layout h (bs[data_addr h r := image (freed pre e post)]) i (ess[k := freed pre e post])"
    using dir_layout_update(1) [OF dir k(3) dis _ lay(1)] meta k(8) unfolding k(4) by blast
  moreover have "mset (live ess) = add_mset e (mset (live (ess[k := freed pre e post])))"
    using live_update [OF k(3), of "freed pre e post"] lay(2) k(1) unfolding k(5) by (simp add: named_def)
  moreover note free_region_execs [OF k(6) dh k(7)]
  ultimately show ?thesis using k(2,8) lay(1) by blast
qed

end

text \<open>
  On a well-formed directory of any device that satisfies the block-device contract,
  \<open>find_entry\<close> is sound and complete: it returns an entry exactly when some live entry has that name,
  and the entry it returns is live, has that name, and is the one stored at the returned block and
  offset; nothing is written.
\<close>

lemma find_entry_sound_complete:
  assumes dev: "block_device ops blks dinv" and d: "dinv d" and dir: "dir_layout h (blks d) i ess"
    and dh: "dh_data_start dh = ih_data_start h"
  shows "\<exists>res d'. find_entry ops dh i h name d = (Ok res, d') \<and> blks d' = blks d \<and>
    (res = None \<longleftrightarrow> (\<forall>e \<in> set (concat ess). \<not> named name e)) \<and>
    (\<forall>e r off. res = Some (e, r, off) \<longrightarrow> e \<in> set (concat ess) \<and> named name e \<and>
       dir_entry_deserialize (blks d ! data_addr h r) off = Ok e)"
proof -
  let ?res = "locate_in (named name) (contents h (blks d) i ess)"
  from execsD [OF block_device.find_entry_execs [OF dev dir dh] d refl] obtain d' where
    d': "find_entry ops dh i h name d = (Ok ?res, d')" "blks d' = blks d" by blast
  have none: "?res = None \<longleftrightarrow> (\<forall>e \<in> set (concat ess). \<not> named name e)"
    unfolding locate_in_None contents_union [OF dir] ..
  have some: "e \<in> set (concat ess) \<and> named name e \<and> dir_entry_deserialize (blks d ! data_addr h r) off = Ok e"
    if res: "?res = Some (e, r, off)" for e r off
  proof -
    from locate_in_SomeD [OF res] obtain pre post where
      p: "(r, pre @ e # post) \<in> set (contents h (blks d) i ess)" "named name e" "off = total pre" by blast
    from contents_nth(1) [OF dir p(1)] have lay: "layout (pre @ e # post) (blks d ! data_addr h r)" by blast
    have "e \<in> set (concat ess)" using contents_nth(2) [OF dir p(1)] by simp
    with p(2,3) layout_slice(4) [OF lay] show ?thesis by simp
  qed
  show ?thesis using d' none some by (intro exI [of _ ?res] exI [of _ d']) blast
qed

lemma find_entry_sound_complete_witness:
  "\<exists>res d'. find_entry mem_ops one_dh one_inode one_handler [46, 46] (one_device (dir_start 0 0)) = (Ok res, d') \<and>
    res \<noteq> None"
proof -
  have lay: "layout (dir_start 0 0) (image (dir_start 0 0))" by (rule layout_dir_start) (simp_all add: INVALID_ADDRESS_def)
  note one = one_directory [OF lay]
  have e: "small_entry 0 Directory [46, 46] 12 \<in> set (concat [dir_start 0 0])" "named [46, 46] (small_entry 0 Directory [46, 46] 12)"
    using small_entry_ok [of 0 "[46, 46]" 12 Directory]
    by (simp_all add: dir_start_def named_def INVALID_ADDRESS_def MAX_NAME_def BLOCK_SIZE_def)
  from find_entry_sound_complete [OF mem.block_device_axioms one(1-3), of "[46, 46]"] e show ?thesis by blast
qed

text \<open>
  C14. Inserting an entry into the free region that \<open>can_fit\<close> returned, whose record is \<open>fr\<close>, unless it is exactly
  eight bytes longer than the entry: \<open>add_entry_here\<close> succeeds, the directory stays well-formed, its
  live entries are the old ones and the new one, and only that block of the device changes. With
  exactly eight bytes left over the insertion destroys the directory, as is shown below.
\<close>

theorem directory_insert:
  assumes dev: "block_device ops blks dinv" and d: "dinv d" and dir: "dir_layout h (blks d) i ess"
    and dh: "dh_data_start dh = ih_data_start h" and dis: "distinct (inode_blocks h (blks d) i)"
    and meta: "\<forall>r \<in> set (inode_blocks h (blks d) i). data_addr h r \<notin> set (meta_blocks h (blks d) i)"
    and e: "dirent_ok e" "\<not> is_free e" and fit: "fst (can_fit ops dh i h e d) = Ok (Some (r, off))"
    and fr: "dir_entry_deserialize (blks d ! data_addr h r) (unat off) = Ok fr" "rec_len fr \<noteq> rec_len e + 8"
  shows "\<exists>d' ess'. add_entry_here ops dh e r off d = (Ok (), d') \<and> dir_layout h (blks d') i ess' \<and>
    mset (live ess') = add_mset e (mset (live ess)) \<and>
    (\<forall>a. a \<noteq> data_addr h r \<longrightarrow> blks d' ! a = blks d ! a)"
proof -
  have "rec_len e \<le> BLOCK_SIZE" using dirent_ok_len [OF e(1)] by simp
  from execsD [OF block_device.can_fit_execs [OF dev dir dh this] d refl] fit obtain fr' off' where
    found: "locate_in (takes e) (contents h (blks d) i ess) = Some (fr', r, off')" and off: "off = of_nat off'" by auto
  have "rec_len fr' \<noteq> rec_len e + 8" using located_record [OF dir found] fr unfolding off by simp
  from block_device.insert_located [OF dev dir dh dis meta e found this] obtain es ess' where
    x: "execs dinv blks (add_entry_here ops dh e r off) (blks d) (Ok ()) ((blks d)[data_addr h r := image es])"
    and y: "dir_layout h ((blks d)[data_addr h r := image es]) i ess'" "mset (live ess') = add_mset e (mset (live ess))"
    unfolding off by blast
  from execsD [OF x d refl] y show ?thesis by (metis nth_list_update_neq)
qed

theorem directory_insert_witness:
  "\<exists>d' ess'. add_entry_here mem_ops one_dh (small_entry 1 File [97] 12) 0 24 (one_device (dir_start 0 0)) = (Ok (), d') \<and>
    dir_layout one_handler (md_blocks d') one_inode ess' \<and>
    mset (live ess') = add_mset (small_entry 1 File [97] 12) (mset (live [dir_start 0 0]))"
proof -
  have lay: "layout (dir_start 0 0) (image (dir_start 0 0))" by (rule layout_dir_start) (simp_all add: INVALID_ADDRESS_def)
  note one = one_directory [OF lay]
  let ?e = "small_entry 1 File [97] 12"
  have e: "dirent_ok ?e" "\<not> is_free ?e" "rec_len ?e = 12"
    using small_entry_ok [of 1 "[97]" 12 File] by (simp_all add: INVALID_ADDRESS_def MAX_NAME_def BLOCK_SIZE_def)
  have s: "\<not> is_free (small_entry 0 t nm l)" for t nm l by (simp add: is_free_def small_entry_def INVALID_ADDRESS_def)
  have loc: "locate_in (takes ?e) (contents one_handler (md_blocks (one_device (dir_start 0 0))) one_inode [dir_start 0 0]) =
      Some (dir_entry_free 232, 0, 24)"
    unfolding one(6) using s e(3) by (simp add: dir_start_def takes_def) (simp add: small_entry_def)
  with execsD [OF mem.can_fit_execs [OF one(2,3), of ?e] one(1) refl] e(3)
  have fit: "fst (can_fit mem_ops one_dh one_inode one_handler ?e (one_device (dir_start 0 0))) = Ok (Some (0, 24))"
    by (auto simp: BLOCK_SIZE_def)
  from located_record [OF one(2) loc]
  have fr: "dir_entry_deserialize (md_blocks (one_device (dir_start 0 0)) ! data_addr one_handler 0) (unat (24 :: u16)) = Ok (dir_entry_free 232)" by simp
  have "rec_len (dir_entry_free 232) \<noteq> rec_len ?e + 8" using e(3) by simp
  from directory_insert [OF mem.block_device_axioms one(1-5) e(1,2) fit fr this] show ?thesis by blast
qed

text \<open>
  C15. Removing the entry \<open>find_entry\<close> returned: \<open>free_region\<close> succeeds and returns its record length,
  the directory stays well-formed (the freed record is merged with its free neighbours), its live
  entries are the old ones without that entry, and only that block of the device changes.
\<close>

theorem directory_remove:
  assumes dev: "block_device ops blks dinv" and d: "dinv d" and dir: "dir_layout h (blks d) i ess"
    and dh: "dh_data_start dh = ih_data_start h" and dis: "distinct (inode_blocks h (blks d) i)"
    and meta: "\<forall>r \<in> set (inode_blocks h (blks d) i). data_addr h r \<notin> set (meta_blocks h (blks d) i)"
    and found: "fst (find_entry ops dh i h name d) = Ok (Some (e, r, off))"
  shows "\<exists>d' ess'. free_region ops dh r (of_nat off) d = (Ok (de_record_len e), d') \<and> dir_layout h (blks d') i ess' \<and>
    mset (live ess) = add_mset e (mset (live ess')) \<and>
    (\<forall>a. a \<noteq> data_addr h r \<longrightarrow> blks d' ! a = blks d ! a)"
proof -
  from execsD [OF block_device.find_entry_execs [OF dev dir dh, of name] d refl] found have
    loc: "locate_in (named name) (contents h (blks d) i ess) = Some (e, r, off)" by auto
  from block_device.remove_located [OF dev dir dh dis meta loc] obtain es ess' where
    x: "execs dinv blks (free_region ops dh r (of_nat off)) (blks d) (Ok (de_record_len e)) ((blks d)[data_addr h r := image es])"
    and y: "dir_layout h ((blks d)[data_addr h r := image es]) i ess'" "mset (live ess) = add_mset e (mset (live ess'))"
    by blast
  from execsD [OF x d refl] y show ?thesis by (metis nth_list_update_neq)
qed

theorem directory_remove_witness:
  "\<exists>d' ess'. free_region mem_ops one_dh 0 (of_nat 12) (one_device (dir_start 0 0)) = (Ok 12, d') \<and>
    dir_layout one_handler (md_blocks d') one_inode ess' \<and>
    mset (live [dir_start 0 0]) = add_mset (small_entry 0 Directory [46, 46] 12) (mset (live ess'))"
proof -
  have lay: "layout (dir_start 0 0) (image (dir_start 0 0))" by (rule layout_dir_start) (simp_all add: INVALID_ADDRESS_def)
  note one = one_directory [OF lay]
  let ?e = "small_entry 0 Directory [46, 46] 12"
  have "named [46, 46] ?e" "\<not> named [46, 46] (small_entry 0 Directory [46] 12)"
    using small_entry_ok [of 0 "[46, 46]" 12 Directory] small_entry_ok [of 0 "[46]" 12 Directory]
    by (simp_all add: named_def INVALID_ADDRESS_def MAX_NAME_def BLOCK_SIZE_def)
  then have "locate_in (named [46, 46]) (contents one_handler (md_blocks (one_device (dir_start 0 0))) one_inode [dir_start 0 0]) =
      Some (?e, 0, 12)"
    unfolding one(6) by (simp add: dir_start_def) (simp add: small_entry_def)
  with execsD [OF mem.find_entry_execs [OF one(2,3), of "[46, 46]"] one(1) refl]
  have found: "fst (find_entry mem_ops one_dh one_inode one_handler [46, 46] (one_device (dir_start 0 0))) = Ok (Some (?e, 0, 12))"
    by auto
  have "de_record_len ?e = 12" by (simp add: small_entry_def)
  with directory_remove [OF mem.block_device_axioms one(1-5) found] show ?thesis by auto
qed

lemma iter_block_prefix:
  assumes cb: "\<And>e off a. cb e r off a = Ok (False, f e a)"
  shows "\<forall>e \<in> set (p1 @ p2). dirent_ok e \<Longrightarrow> buf = image (p1 @ p2) @ rest \<Longrightarrow> length buf = BLOCK_SIZE \<Longrightarrow>
    iter_block cb buf r (total p1) acc = iter_block cb buf r (total (p1 @ p2)) (fold f p2 acc)"
proof (induction p2 arbitrary: p1 acc)
  case (Cons e p2)
  have e: "dirent_ok e" and tot: "length (image p1) = total p1" "total p1 + rec_len e \<le> BLOCK_SIZE"
    using Cons.prems length_image [of p1] length_image [of "p1 @ e # p2"] by auto
  have "slice buf (total p1) (rec_len e) = encode e"
    using Cons.prems(2) tot length_encode [OF e] by (simp add: slice_def)
  then have des: "dir_entry_deserialize buf (total p1) = Ok e"
    by (intro deserialize_encode [OF e Cons.prems(3) tot(2)])
  have "9 \<le> rec_len e" using dirent_ok_len [OF e] by simp
  then have "iter_block cb buf r (total p1) acc = iter_block cb buf r (total (p1 @ [e])) (f e acc)"
    using des tot(2) by (subst iter_block.simps) (auto simp: cb Let_def)
  also have "\<dots> = iter_block cb buf r (total ((p1 @ [e]) @ p2)) (fold f p2 (f e acc))"
    using Cons.prems by (intro Cons.IH) auto
  finally show ?case by simp
qed simp

lemma zero_record:
  assumes len: "length buf = BLOCK_SIZE" and z: "slice buf off 8 = replicate 8 0" and off: "off + 8 \<le> BLOCK_SIZE"
  shows "dir_entry_deserialize buf off =
     (if off = 248 then Panic
      else Ok \<lparr>de_inode = 0, de_file_type = file_type_from_le [buf ! (off + 8)], de_record_len = 0, de_name_len = 0,
               de_name = replicate MAX_NAME 0\<rparr>)"
proof -
  have part: "slice buf (off + a) n = replicate n 0" if "a + n \<le> 8" for a n
    using slice_slice [OF that, of buf off] that unfolding z by (simp add: slice_def)
  have f: "sliceR buf off 4 = Ok (replicate 4 0)" "sliceR buf (off + 4) 2 = Ok (replicate 2 0)"
    "sliceR buf (off + 4 + 2) 2 = Ok (replicate 2 0)"
    using part [of 0 4] part [of 4 2] part [of 6 2] off len by (simp_all add: sliceR_def add.commute [of _ off])
  have zero: "u32_from_le (replicate 4 0) = 0" "u16_from_le (replicate 2 0) = 0"
    by (simp_all add: u32_from_le_def u16_from_le_def numeral_eq_Suc)
  show ?thesis
  proof (cases "off = 248")
    case True
    then have "sliceR buf (off + 4 + 2 + 2) 1 = Panic" using len by (simp add: sliceR_def BLOCK_SIZE_def)
    then show ?thesis using True f by (simp add: dir_entry_deserialize_def)
  next
    case False
    then have lt: "off + 8 < length buf" using off len by (simp add: BLOCK_SIZE_def)
    then have "slice buf (off + 8) 1 = [buf ! (off + 8)]" by (simp add: slice_def take_Suc_conv_app_nth hd_drop_conv_nth take_Suc)
    then have "sliceR buf (off + 4 + 2 + 2) 1 = Ok [buf ! (off + 8)]" using lt by (simp add: sliceR_def add.commute [of _ off])
    with False f lt len show ?thesis
      by (simp add: dir_entry_deserialize_def zero subN_def sliceR_def slice_def splice_def BLOCK_SIZE_def)
  qed
qed

lemma remainder_bytes:
  assumes lay: "layout (pre @ fr # post) buf" and e: "dirent_ok e" and fr: "is_free fr" "rec_len fr = rec_len e + 8"
  shows "splice buf (total pre) (encode e) = image (pre @ [e]) @ replicate 8 0 @ image post"
proof -
  note f = layout_slice [OF lay]
  have len: "9 \<le> rec_len e" using dirent_ok_len [OF e] by simp
  have "encode fr = (u32_to_le (de_inode fr) @ u16_to_le (de_record_len fr)) @ replicate (rec_len fr - 6) 0"
    using fr(1) by (simp add: encode_def entry_head_def)
  also have "replicate (rec_len fr - 6) (0 :: u8) = replicate (rec_len e - 6) 0 @ replicate 8 0"
    using fr(2) len by (simp add: replicate_add [symmetric])
  finally have "drop (rec_len e) (encode fr) = replicate 8 0" using len by simp
  moreover have "buf = image pre @ encode fr @ image post" "length (image pre) = total pre"
    using lay length_image [of pre] by (auto simp: layout_def)
  ultimately show ?thesis
    using length_encode [OF e] length_encode [OF f(2)] fr(2) by (simp add: splice_def)
qed

context block_device
begin

lemma add_entry_remainder_execs:
  assumes a: "data_addr h r < length bs" and dh: "dh_data_start dh = ih_data_start h"
    and lay: "layout (pre @ fr # post) (bs ! data_addr h r)" and e: "dirent_ok e"
    and fr: "is_free fr" "rec_len fr = rec_len e + 8"
  shows "execs inv blks (add_entry_here ops dh e r (of_nat (total pre))) bs (Ok ())
    (bs[data_addr h r := image (pre @ [e]) @ replicate 8 0 @ image post])"
proof (rule execs_wf)
  assume small: "length bs < 4294967296"
  note f = layout_slice [OF lay]
  have u: "unat (of_nat (total pre) :: u16) = total pre" using f(3) by (simp add: BLOCK_SIZE_def unat_u16_of_nat)
  have req: "addW (de_record_len e) 8 = Ok (de_record_len e + 8)" "unat (de_record_len e + 8) = rec_len e + 8"
    using dirent_ok_len [OF e] unat_add_small [of "de_record_len e" 8] by (simp_all add: addW_def BLOCK_SIZE_def)
  have eq: "de_record_len fr = de_record_len e + 8" using fr(2) req(2) by (simp add: word_unat_eq_iff)
  have sub: "subW (de_record_len e + 8) (de_record_len e) = Ok 8" using req(2) by (simp add: subW_def)
  have ser: "dir_entry_serialize e (bs ! data_addr h r) (total pre) = Ok (image (pre @ [e]) @ replicate 8 0 @ image post)"
    using serialize_encode [OF e layout_length [OF lay], of "total pre"] f(3) fr(2) remainder_bytes [OF lay e fr] by simp
  have len: "length (image (pre @ [e]) @ replicate 8 0 @ image post) = BLOCK_SIZE"
    using length_splice [of "total pre" "encode e" "bs ! data_addr h r"] length_encode [OF e] layout_length [OF lay]
      f(3) fr(2) remainder_bytes [OF lay e fr] by simp
  show "execs inv blks (add_entry_here ops dh e r (of_nat (total pre))) bs (Ok ())
    (bs[data_addr h r := image (pre @ [e]) @ replicate 8 0 @ image post])"
    using read_data_execs [OF a small] write_data_execs [OF a small len] data_addr_word [OF a small]
    unfolding add_entry_here_def dh
    by (auto simp: u f(4) fr(1) eq req(1) sub ser Let_def simp del: image_simps intro!: execs_bind)
qed

end

text \<open>Listing a block in which eight zero bytes follow an entry.\<close>

lemma iter_remainder:
  assumes ok: "\<forall>x \<in> set es. dirent_ok x" "\<forall>x \<in> set post. dirent_ok x"
    and len: "length (image es @ replicate 8 0 @ image post) = BLOCK_SIZE"
  shows "iter_block (\<lambda>entry _ _ entries. Ok (False, entries @ [entry]) :: (bool \<times> dir_entry list) res) (image es @ replicate 8 0 @ image post) r 0 [] =
    (if post = [] then Panic else Err (InvalidDirEntry DE_ZeroLength r (total es)))"
proof -
  let ?cb = "\<lambda>entry _ _ entries. Ok (False, entries @ [entry]) :: (bool \<times> dir_entry list) res"
  let ?new = "image es @ replicate 8 0 @ image post"
  have tot: "length (image es) = total es" "length (image post) = total post" by (rule length_image [OF ok(1)], rule length_image [OF ok(2)])
  then have fin: "total es + 8 + total post = 256" using len by (simp add: BLOCK_SIZE_def)
  have post: "total es = 248 \<longleftrightarrow> post = []" using fin ok(2) dirent_ok_len by (cases post) fastforce+
  have "slice ?new (total es) 8 = replicate 8 0" unfolding tot(1) [symmetric] by (simp add: slice_def)
  note rec = zero_record [OF len this]
  have "iter_block ?cb ?new r 0 [] = iter_block ?cb ?new r (total es) (fold (\<lambda>x xs. xs @ [x]) es [])"
    using iter_block_prefix [of ?cb r "\<lambda>x xs. xs @ [x]" "[]" es ?new] ok(1) len by simp
  also have "\<dots> = (if post = [] then Panic else Err (InvalidDirEntry DE_ZeroLength r (total es)))"
    using rec fin post by (subst iter_block.simps) (auto simp: BLOCK_SIZE_def)
  finally show ?thesis .
qed

text \<open>
  C31. When the free region is exactly eight bytes larger than the entry, \<open>can_fit\<close> accepts it but
  \<open>add_entry_here\<close> writes no record for the remaining eight bytes: it succeeds, and afterwards the
  directory can no longer be listed. The eight zero bytes read as a record of length zero, or, at the
  end of the block, the read of the record runs past the block and panics.
\<close>

theorem insert_exact_remainder:
  assumes dev: "block_device ops blks dinv" and d: "dinv d" and dir: "dir_layout h (blks d) i [pre @ fr # post]"
    and dh: "dh_data_start dh = ih_data_start h"
    and e: "dirent_ok e" and fr: "is_free fr" "rec_len fr = rec_len e + 8"
  shows "\<exists>d'. add_entry_here ops dh e (inode_blocks h (blks d) i ! 0) (of_nat (total pre)) d = (Ok (), d') \<and>
    fst (get_entries ops dh i h True d') =
      (if post = [] then Panic
       else Err (InvalidDirEntry DE_ZeroLength (inode_blocks h (blks d) i ! 0) (total pre + rec_len e)))"
proof -
  let ?r = "inode_blocks h (blks d) i ! 0" and ?new = "image (pre @ [e]) @ replicate 8 0 @ image post"
  have blk: "unat (in_blocks i) = 1" "data_addr h ?r < length (blks d)" "layout (pre @ fr # post) (blks d ! data_addr h ?r)"
    and wf: "inode_wf i"
    using dir by (auto simp: dir_layout_def list_all2_conv_all_nth)
  from execsD [OF block_device.add_entry_remainder_execs [OF dev blk(2) dh blk(3) e fr] d refl] obtain d' where
    d': "add_entry_here ops dh e ?r (of_nat (total pre)) d = (Ok (), d')" "dinv d'" "blks d' = (blks d)[data_addr h ?r := ?new]"
    by blast
  have small: "length (blks d') < 4294967296" by (rule block_device.length_small [OF dev d'(2)])
  have same: "inode_blocks h (blks d') i = inode_blocks h (blks d) i" using blk(1) by (intro inode_blocks_frame) simp
  have len: "length ?new = BLOCK_SIZE"
    using block_device.blocks_wf [OF dev d'(2)] blk(2) unfolding d'(3) by (metis length_list_update nth_list_update_eq wf_blocks_nth)
  have ok: "\<forall>x \<in> set (pre @ [e]). dirent_ok x" "\<forall>x \<in> set post. dirent_ok x" using blk(3) e by (auto simp: layout_def)
  let ?cb = "\<lambda>entry _ _ entries. Ok (False, entries @ [entry]) :: (bool \<times> dir_entry list) res"
  let ?bad = "if post = [] then Panic else Err (InvalidDirEntry DE_ZeroLength ?r (total pre + rec_len e))"
  have iter: "iter_block ?cb ?new ?r 0 [] = ?bad" using iter_remainder [OF ok len] by simp
  have meta: "meta_ok h (blks d') i" using blk(1) by (simp add: meta_ok_def)
  have rd: "execs dinv blks (read_block ops (ih_data_start h + ?r)) (blks d') (Ok ?new) (blks d')"
    using block_device.read_data_execs [OF dev _ small, of h ?r] blk(2) unfolding d'(3) by simp
  have addr: "addW ?r (ih_data_start h) = Ok (ih_data_start h + ?r)"
    using data_addr_word(2) [OF _ small, of h ?r] blk(2) unfolding d'(3) by simp
  have gb: "execs dinv blks (get_block ops h i 0) (blks d') (Ok ?r) (blks d')"
    using block_device.get_block_execs [OF dev wf meta, of 0] blk(1) same by (simp add: word_less_nat_alt)
  have body: "execs dinv blks (bindM (get_block ops h i 0) (\<lambda>rel_block.
       bindM (liftM (addW rel_block (dh_data_start dh))) (\<lambda>absolute_block.
       bindM (read_block ops absolute_block) (\<lambda>buf. liftM (iter_block ?cb buf rel_block 0 [])))))
     (blks d') (iter_block ?cb ?new ?r 0 []) (blks d')"
    by (rule execs_bind [OF gb]) (auto simp: dh addr intro!: execs_bind [OF rd])
  have "execs dinv blks (get_entries ops dh i h True) (blks d') ?bad (blks d')"
    using body unfolding iter
    by (auto simp: get_entries_def iterate_def blk(1) intro!: execs_bind_Panic execs_bind_Err split: if_splits)
  from execsD [OF this d'(2) refl] d'(1) show ?thesis by fastforce
qed

theorem insert_exact_remainder_witness:
  "\<exists>d'. add_entry_here mem_ops one_dh (small_entry 1 File [97] 12) 0 236
      (one_device [small_entry 0 Directory [46] 236, dir_entry_free 20]) = (Ok (), d') \<and>
    fst (get_entries mem_ops one_dh one_inode one_handler True d') = Panic"
proof -
  let ?es = "[small_entry 0 Directory [46] 236, dir_entry_free 20]" let ?e = "small_entry 1 File [97] 12"
  have ok: "dirent_ok (small_entry 0 Directory [46] 236)" "rec_len (small_entry 0 Directory [46] 236) = 236"
    "dirent_ok ?e" "rec_len ?e = 12" "dirent_ok (dir_entry_free 20)"
    using small_entry_ok [of 0 "[46]" 236 Directory] small_entry_ok [of 1 "[97]" 12 File] dir_entry_free_ok [of 20]
    by (simp_all add: INVALID_ADDRESS_def MAX_NAME_def BLOCK_SIZE_def)
  then have lay: "layout ?es (image ?es)" by (simp add: layout_def BLOCK_SIZE_def)
  note one = one_directory [OF lay]
  have "rec_len (dir_entry_free 20) = rec_len ?e + 8" using ok(4) by simp
  with insert_exact_remainder [where pre = "[small_entry 0 Directory [46] 236]" and fr = "dir_entry_free 20" and post = "[]" and i = one_inode,
      OF mem.block_device_axioms one(1) _ one(3) ok(3) is_free_dir_entry_free] one(2,6) ok(2)
  show ?thesis by simp
qed

text \<open>
  C30. Writing a directory whose entries fill up to twelve blocks exactly and listing it gives the
  entries back, in order; in particular a new directory lists \<open>.\<close> and \<open>..\<close>.
\<close>

theorem write_directory_lists:
  assumes dev: "block_device ops blks dinv" and d: "dinv d"
    and i: "inode_wf i" "unat (in_blocks i) = length ess" "length ess \<le> 12" and dh: "dh_data_start dh = ih_data_start h"
    and lay: "\<forall>es \<in> set ess. layout es (image es)"
    and rs: "distinct (inode_blocks h (blks d) i)" "\<forall>r \<in> set (inode_blocks h (blks d) i). data_addr h r < length (blks d)"
  shows "\<exists>d'. write_directory_with_inode ops dh \<lparr>dy_inode = n, dy_entries = concat ess\<rparr> i h d = (Ok (), d') \<and>
    fst (get_entries ops dh i h True d') = Ok (concat ess) \<and> fst (get_entries ops dh i h False d') = Ok (live ess) \<and>
    (\<forall>a. a \<notin> data_addr h ` set (inode_blocks h (blks d) i) \<longrightarrow> blks d' ! a = blks d ! a)"
proof -
  from block_device.write_directory_execs [OF dev i dh lay rs, of n] obtain
    x: "execs dinv blks (write_directory_with_inode ops dh \<lparr>dy_inode = n, dy_entries = concat ess\<rparr> i h) (blks d) (Ok ())
      (put_blocks h (blks d) (contents h (blks d) i ess))"
    and dir: "dir_layout h (put_blocks h (blks d) (contents h (blks d) i ess)) i ess" by blast
  from execsD [OF x d refl] obtain d' where d': "write_directory_with_inode ops dh \<lparr>dy_inode = n, dy_entries = concat ess\<rparr> i h d = (Ok (), d')"
    "dinv d'" "blks d' = put_blocks h (blks d) (contents h (blks d) i ess)" by blast
  have list: "fst (get_entries ops dh i h b d') = Ok (filter (\<lambda>e. b \<or> \<not> is_free e) (concat ess))" for b
    using execsD [OF block_device.get_entries_execs [OF dev dir dh, of b] d'(2,3)] by auto
  have "blks d' ! a = blks d ! a" if "a \<notin> data_addr h ` set (inode_blocks h (blks d) i)" for a
  proof -
    have "fst ` set (contents h (blks d) i ess) \<subseteq> set (inode_blocks h (blks d) i)" by (auto dest: set_zip_leftD)
    with that have "a \<notin> data_addr h ` fst ` set (contents h (blks d) i ess)" by blast
    then show ?thesis unfolding d'(3) by (rule put_blocks_other)
  qed
  with d'(1) list [of True] list [of False] show ?thesis by auto
qed

theorem write_directory_lists_witness:
  "\<exists>d'. write_directory_with_inode mem_ops one_dh \<lparr>dy_inode = 0, dy_entries = concat [dir_start 0 0]\<rparr> one_inode one_handler
      (mem_empty 2) = (Ok (), d') \<and>
    fst (get_entries mem_ops one_dh one_inode one_handler False d') = Ok (live [dir_start 0 0])"
proof -
  have lay: "\<forall>es \<in> set [dir_start 0 0]. layout es (image es)"
    using layout_dir_start [of 0 0] by (simp add: INVALID_ADDRESS_def)
  have r: "inode_blocks one_handler bs one_inode = [0]" for bs by (simp add: inode_blocks_def block_at_def)
  have pre: "mem_inv (mem_empty 2)" "inode_wf one_inode" "unat (in_blocks one_inode) = length [dir_start 0 0]"
    "length [dir_start 0 0] \<le> 12" "dh_data_start one_dh = ih_data_start one_handler"
    by (simp_all add: mem_inv_def mem_empty_def wf_blocks_def inode_wf_def directory_handler_new_def inode_table_handler_new_def)
  have rs: "distinct (inode_blocks one_handler (md_blocks (mem_empty 2)) one_inode)"
    "\<forall>r \<in> set (inode_blocks one_handler (md_blocks (mem_empty 2)) one_inode). data_addr one_handler r < length (md_blocks (mem_empty 2))"
    unfolding r by (simp_all add: mem_empty_def data_addr_def inode_table_handler_new_def)
  from write_directory_lists [OF mem.block_device_axioms pre lay rs, of 0] show ?thesis by blast
qed

end
