(* ===== verification/Format_V1.thy ===== *)
theory Format_V1
  imports Directory_Handler
begin

text \<open>
  \<open>FormatV1\<close> of \<^verbatim>\<open>src/src/formats/v1/format.rs\<close>. A method with \<open>&mut self\<close> and \<open>device\<close> is a
  computation over the pair of the two, so that what it changed before an error stays changed.
  \<open>SystemTime::now()\<close> is the argument \<open>now\<close>, in seconds. The code that \<open>create\<close> and \<open>create_child\<close>,
  \<open>delete\<close> and \<open>delete_child\<close>, \<open>create_hardlink\<close> and \<open>create_child_hardlink\<close> have in common line by
  line is written once. The tables printed by debug builds are left out.
\<close>

record format_v1 =
  fv_superblock :: superblock
  fv_inode_allocator :: bitmap_allocator
  fv_block_allocator :: bitmap_allocator
  fv_inode_handler :: inode_table_handler
  fv_directory_handler :: directory_handler
  fv_next_file_id :: u32
  fv_open_files :: "u32 \<rightharpoonup> file_metadata"

type_synonym ('d, 'a) fs = "(format_v1 \<times> 'd, 'a) io"

definition dev :: "('d, 'a) io \<Rightarrow> ('d, 'a) fs" where
  "dev = zoomM snd (\<lambda>d (f, _). (f, d))"

definition self :: "('d, format_v1) fs" where "self = getM fst"
definition update :: "(format_v1 \<Rightarrow> format_v1) \<Rightarrow> ('d, unit) fs" where
  "update g = modifyM (\<lambda>(f, d). (g f, d))"

abbreviation map_superblock :: "(superblock \<Rightarrow> superblock) \<Rightarrow> format_v1 \<Rightarrow> format_v1" where
  "map_superblock g f \<equiv> f\<lparr>fv_superblock := g (fv_superblock f)\<rparr>"

definition INODE_DENSITY :: u32 where "INODE_DENSITY = 1 * 1024"

text \<open>\<open>self.superblock.serialize(&mut buf); device.write_block(0, &buf)?\<close>, on a zeroed buffer.\<close>

definition write_superblock :: "'d block_ops \<Rightarrow> ('d, unit) fs" where
  "write_superblock ops =
     bindM self (\<lambda>f.
     bindM (liftM (superblock_serialize (fv_superblock f) (replicate BLOCK_SIZE 0))) (\<lambda>buf.
     dev (write_block ops 0 buf)))"


section \<open>Formatting and mounting\<close>

definition format_sizes :: "u32 \<Rightarrow> (u32 \<times> u32 \<times> u32) res" where
  "format_sizes blocks =
     (let bits_per_block = 8 * of_nat BLOCK_SIZE in
      bindR (mulW (of_nat BLOCK_SIZE) blocks) (\<lambda>capacity.
      let inode_count = div_ceilW capacity INODE_DENSITY;
          inode_table_blocks = div_ceilW inode_count inodes_per_block;
          inode_bitmap_blocks = div_ceilW inode_table_blocks bits_per_block;
          block_bitmap_blocks = div_ceilW blocks bits_per_block
      in Ok (inode_table_blocks, inode_bitmap_blocks, block_bitmap_blocks)))"

definition zero_blocks :: "'d block_ops \<Rightarrow> u32 \<Rightarrow> u32 \<Rightarrow> ('d, unit) io" where
  "zero_blocks ops start count =
     bindM (liftM (addW start count)) (\<lambda>stop.
     foldM (\<lambda>i _. write_block ops i (replicate BLOCK_SIZE 0)) (u32_range start stop) ())"

definition format :: "'d block_ops \<Rightarrow> u64 \<Rightarrow> ('d, unit) io" where
  "format ops now =
     bindM (getM (block_count ops)) (\<lambda>blocks.
     bindM (liftM (format_sizes blocks)) (\<lambda>(inode_table_blocks, inode_bitmap_blocks, block_bitmap_blocks).
     bindM (liftM (superblock_new MAGIC 1 (of_nat BLOCK_SIZE) blocks inode_bitmap_blocks
                     block_bitmap_blocks inode_table_blocks 0)) (\<lambda>superblock.
     let ih = inode_table_handler_new (sb_inode_table_start superblock) inode_table_blocks (sb_data_start superblock);
         root_inode = inode_empty Directory 0xFFFF now in
     bindM (liftM (directory_new 0 0)) (\<lambda>root_dir.
     bindM (add_block ops ih root_inode 0 []) (\<lambda>root_inode.
     bindM (liftM (mulW (of_nat BLOCK_SIZE) (ucast (in_blocks root_inode)))) (\<lambda>root_size.
     let root_inode = root_inode\<lparr>in_size := root_size\<rparr>;
         dh = directory_handler_new (sb_data_start superblock) (sb_root_inode superblock) in
     bindM (liftM (addW (sb_inode_bitmap_start superblock) 1)) (\<lambda>start.
     bindM (zero_blocks ops start (sb_inode_bitmap_blocks superblock)) (\<lambda>_.
     bindM (liftM (addW (sb_block_bitmap_start superblock) 1)) (\<lambda>start.
     bindM (zero_blocks ops start (sb_block_bitmap_blocks superblock)) (\<lambda>_.
     let buf = (replicate BLOCK_SIZE 0)[0 := 1] in
     bindM (write_block ops (sb_inode_bitmap_start superblock) buf) (\<lambda>_.
     bindM (write_block ops (sb_block_bitmap_start superblock) buf) (\<lambda>_.
     bindM (liftM (subW (sb_free_data superblock) 1)) (\<lambda>free_data.
     bindM (liftM (subW (sb_free_inodes superblock) 1)) (\<lambda>free_inodes.
     let superblock = superblock\<lparr>sb_free_data := free_data, sb_free_inodes := free_inodes\<rparr> in
     bindM (write_inode ops ih 0 root_inode) (\<lambda>_.
     bindM (write_directory_with_inode ops dh root_dir root_inode ih) (\<lambda>_.
     bindM (liftM (superblock_serialize superblock buf)) (\<lambda>buf.
     write_block ops 0 buf)))))))))))))))))"

definition format_of :: "superblock \<Rightarrow> format_v1 res" where
  "format_of superblock =
     bindR (subW (sb_total_blocks superblock) (sb_inode_bitmap_blocks superblock)) (\<lambda>n.
     bindR (subW n (sb_inode_table_blocks superblock)) (\<lambda>n.
     bindR (subW n (sb_block_bitmap_blocks superblock)) (\<lambda>n.
     bindR (subW n 1) (\<lambda>data_blocks.
     bindR (mulW (sb_inode_table_blocks superblock) inodes_per_block) (\<lambda>inodes.
     Ok \<lparr>fv_superblock = superblock,
         fv_inode_allocator = bitmap_allocator_new (sb_inode_bitmap_start superblock)
           (sb_inode_bitmap_blocks superblock) inodes,
         fv_block_allocator = bitmap_allocator_new (sb_block_bitmap_start superblock)
           (sb_block_bitmap_blocks superblock) data_blocks,
         fv_inode_handler = inode_table_handler_new (sb_inode_table_start superblock)
           (sb_inode_table_blocks superblock) (sb_data_start superblock),
         fv_directory_handler = directory_handler_new (sb_data_start superblock) (sb_root_inode superblock),
         fv_next_file_id = 0, fv_open_files = Map.empty\<rparr>)))))"

definition mount :: "'d block_ops \<Rightarrow> ('d, format_v1) io" where
  "mount ops =
     bindM (read_block ops 0) (\<lambda>buf.
     bindM (liftM (superblock_deserialize buf)) (\<lambda>superblock.
     if sb_magic superblock \<noteq> MAGIC then throwM (InvalidMagic MAGIC (sb_magic superblock))
     else liftM (format_of superblock)))"


section \<open>Allocation\<close>

definition fs_allocate :: "'d block_ops \<Rightarrow> u32 \<Rightarrow> u32 \<Rightarrow> ('d, u32 list \<times> u32 list) fs" where
  "fs_allocate ops inodes data =
     bindM self (\<lambda>f.
     let sb = fv_superblock f in
     if sb_free_inodes sb < inodes
     then throwM (StorageFull SF_INodeTableFull inodes (sb_free_inodes sb))
     else if sb_free_data sb < data
     then throwM (StorageFull SF_DataRegionFull data (sb_free_data sb))
     else
       bindM (dev (find_free ops (fv_inode_allocator f) inodes)) (\<lambda>inode_inds.
       bindM (dev (find_free ops (fv_block_allocator f) data)) (\<lambda>data_inds.
       if length inode_inds < unat inodes
       then
         bindM (update (map_superblock (\<lambda>s. s\<lparr>sb_free_inodes := of_nat (length inode_inds)\<rparr>))) (\<lambda>_.
         throwM (StorageFull SF_INodeTableFull inodes (of_nat (length inode_inds))))
       else if length data_inds < unat data
       then
         bindM (update (map_superblock (\<lambda>s. s\<lparr>sb_free_data := of_nat (length data_inds)\<rparr>))) (\<lambda>_.
         throwM (StorageFull SF_DataRegionFull data (of_nat (length data_inds))))
       else
         bindM (dev (allocate ops (fv_inode_allocator f) inode_inds)) (\<lambda>ia.
         bindM (update (\<lambda>f. f\<lparr>fv_inode_allocator := ia\<rparr>)) (\<lambda>_.
         bindM (dev (allocate ops (fv_block_allocator f) data_inds)) (\<lambda>ba.
         bindM (update (\<lambda>f. f\<lparr>fv_block_allocator := ba\<rparr>)) (\<lambda>_.
         bindM (liftM (subW (sb_free_data sb) data)) (\<lambda>free_data.
         bindM (update (map_superblock (\<lambda>s. s\<lparr>sb_free_data := free_data\<rparr>))) (\<lambda>_.
         bindM (liftM (subW (sb_free_inodes sb) inodes)) (\<lambda>free_inodes.
         bindM (update (map_superblock (\<lambda>s. s\<lparr>sb_free_inodes := free_inodes\<rparr>))) (\<lambda>_.
         bindM (write_superblock ops) (\<lambda>_.
         returnM (inode_inds, data_inds)))))))))))))"

text \<open>Blocks to allocate for a new entry of a directory: none, or a data block and its pointer blocks.\<close>

definition entry_blocks :: "inode \<Rightarrow> (u32 \<times> u16) option \<Rightarrow> u32 \<Rightarrow> u32 res" where
  "entry_blocks parent_inode fit_result file_blocks =
     (if fit_result \<noteq> None then Ok file_blocks
      else bindR (blocks_necessary_to_grow parent_inode) (\<lambda>count. Ok (file_blocks + 1 + count)))"

text \<open>
  The directory entry is written into the free region found, or into a new block of the directory,
  with the pointer blocks the directory inode needs for it; \<open>alloc_data_index\<close> is the position of
  the new block among the allocated ones.
\<close>

definition place_entry ::
  "'d block_ops \<Rightarrow> inode \<Rightarrow> dir_entry \<Rightarrow> (u32 \<times> u16) option \<Rightarrow> u32 list \<Rightarrow> nat \<Rightarrow> ('d, inode) fs" where
  "place_entry ops parent_inode entry fit_result allocated_data alloc_data_index =
     bindM self (\<lambda>f.
     case fit_result of
       None \<Rightarrow>
         bindM (liftM (indexR allocated_data alloc_data_index)) (\<lambda>entry_block.
         bindM (liftM (blocks_necessary_to_grow parent_inode)) (\<lambda>count.
         bindM (foldM (\<lambda>i pool. bindM (liftM (indexR allocated_data (alloc_data_index + 1 + i)))
                  (\<lambda>b. returnM (pool @ [b]))) [0..<unat count] []) (\<lambda>pool.
         bindM (dev (add_block ops (fv_inode_handler f) parent_inode entry_block pool)) (\<lambda>parent_inode.
         bindM (dev (add_entry_grow ops (fv_directory_handler f) entry entry_block)) (\<lambda>_.
         bindM (liftM (addW (in_size parent_inode) (of_nat BLOCK_SIZE))) (\<lambda>sz.
         returnM (parent_inode\<lparr>in_size := sz\<rparr>)))))))
     | Some (entry_block, entry_offset) \<Rightarrow>
         bindM (dev (add_entry_here ops (fv_directory_handler f) entry entry_block entry_offset)) (\<lambda>_.
         returnM parent_inode))"


section \<open>Creation\<close>

definition file_blocks :: "file_type \<Rightarrow> u32 res" where
  "file_blocks file_type =
     (case file_type of Directory \<Rightarrow> Ok 1 | File \<Rightarrow> Ok 0 | Symlink \<Rightarrow> Ok 1 | Unknown \<Rightarrow> Panic)"

definition initial_size :: "file_type \<Rightarrow> inode \<Rightarrow> u64 res" where
  "initial_size file_type inode =
     (case file_type of
        Directory \<Rightarrow> mulW (of_nat BLOCK_SIZE) (ucast (in_blocks inode))
      | File \<Rightarrow> Ok 0 | Symlink \<Rightarrow> Ok 0 | Unknown \<Rightarrow> Panic)"

text \<open>The part of \<open>create\<close> and \<open>create_child\<close> after the check for a name collision.\<close>

definition create_entry ::
  "'d block_ops \<Rightarrow> u64 \<Rightarrow> file_type \<Rightarrow> dir_entry \<Rightarrow> inode \<Rightarrow> u32 \<Rightarrow> ('d, inode \<times> u32) fs" where
  "create_entry ops now file_type entry parent_inode parent_inode_ind =
     bindM (liftM (file_blocks file_type)) (\<lambda>file_blocks.
     bindM self (\<lambda>f.
     bindM (dev (can_fit ops (fv_directory_handler f) parent_inode (fv_inode_handler f) entry)) (\<lambda>fit_result.
     bindM (liftM (entry_blocks parent_inode fit_result file_blocks)) (\<lambda>data_to_alloc.
     bindM (fs_allocate ops 1 data_to_alloc) (\<lambda>(allocated_inodes, allocated_data).
     bindM (liftM (indexR allocated_inodes 0)) (\<lambda>inode_index.
     let inode = inode_empty file_type 0xFFFF now; entry = entry\<lparr>de_inode := inode_index\<rparr> in
     bindM (if file_type = Directory \<or> file_type = Symlink
            then bindM (liftM (indexR allocated_data 0)) (\<lambda>b.
                 bindM (dev (add_block ops (fv_inode_handler f) inode b [])) (\<lambda>inode.
                 returnM (inode, 1)))
            else returnM (inode, 0)) (\<lambda>(inode, alloc_data_index).
     bindM (liftM (initial_size file_type inode)) (\<lambda>sz.
     let inode = inode\<lparr>in_size := sz\<rparr> in
     bindM (dev (write_inode ops (fv_inode_handler f) inode_index inode)) (\<lambda>_.
     bindM (if file_type = Directory
            then bindM (liftM (directory_new inode_index parent_inode_ind)) (\<lambda>new_dir.
                 dev (write_directory_with_inode ops (fv_directory_handler f) new_dir inode (fv_inode_handler f)))
            else returnM ()) (\<lambda>_.
     bindM (place_entry ops parent_inode entry fit_result allocated_data alloc_data_index) (\<lambda>parent_inode.
     bindM (dev (write_inode ops (fv_inode_handler f) parent_inode_ind (parent_inode\<lparr>in_modified := now\<rparr>))) (\<lambda>_.
     returnM (inode, inode_index)))))))))))))"

text \<open>\<open>find_entry\<close> is asked for the whole 64-byte array of the new entry.\<close>

definition name_collision :: "'d block_ops \<Rightarrow> inode \<Rightarrow> dir_entry \<Rightarrow> ('d, (dir_entry \<times> u32 \<times> nat) option) fs" where
  "name_collision ops parent_inode entry =
     bindM self (\<lambda>f.
     dev (find_entry ops (fv_directory_handler f) parent_inode (fv_inode_handler f) (de_name entry)))"

definition resolve_path :: "'d block_ops \<Rightarrow> component list \<Rightarrow> bool \<Rightarrow> ('d, resolution_result) fs" where
  "resolve_path ops path final =
     bindM self (\<lambda>f.
     dev (resolve ops (fv_directory_handler f) path (sb_root_inode (fv_superblock f)) (fv_inode_handler f) final))"

definition create :: "'d block_ops \<Rightarrow> u64 \<Rightarrow> bytes \<Rightarrow> file_type \<Rightarrow> ('d, inode \<times> u32) fs" where
  "create ops now path_str file_type =
     (if file_type = Unknown then throwM (InvalidInput II_UnknownFileType)
      else
        let path = components path_str in
        bindM (liftM (unwrap (path_parent path))) (\<lambda>parent.
        bindM (liftM (unwrap (path_file_name path))) (\<lambda>filename.
        bindM (resolve_path ops parent True) (\<lambda>resolution_result.
        let parent_inode_ind = rr_target_inode_index resolution_result;
            parent_inode = rr_target_inode resolution_result in
        bindM (liftM (dir_entry_new INVALID_ADDRESS file_type filename)) (\<lambda>entry.
        bindM (name_collision ops parent_inode entry) (\<lambda>exists.
        if exists \<noteq> None then throwM (AlreadyExists path_str)
        else create_entry ops now file_type entry parent_inode parent_inode_ind))))))"

definition create_child ::
  "'d block_ops \<Rightarrow> u64 \<Rightarrow> file_type \<Rightarrow> bytes \<Rightarrow> u32 \<Rightarrow> ('d, inode \<times> u32) fs" where
  "create_child ops now file_type filename parent_inode_ind =
     bindM self (\<lambda>f.
     bindM (dev (is_allocated ops (fv_inode_allocator f) parent_inode_ind)) (\<lambda>allocated.
     if \<not> allocated then throwM (DirectoryDoesNotExist (u32_to_string parent_inode_ind))
     else
       bindM (dev (read_inode ops (fv_inode_handler f) parent_inode_ind)) (\<lambda>parent_inode.
       if in_file_type parent_inode \<noteq> Directory
       then throwM (NotADirectory (u32_to_string parent_inode_ind))
       else
         bindM (liftM (dir_entry_new INVALID_ADDRESS file_type filename)) (\<lambda>entry.
         bindM (name_collision ops parent_inode entry) (\<lambda>exists.
         case exists of
           Some (e, _) \<Rightarrow> throwM (AlreadyExists (u32_to_string (de_inode e)))
         | None \<Rightarrow> create_entry ops now file_type entry parent_inode parent_inode_ind)))))"

definition write_symlink :: "'d block_ops \<Rightarrow> u64 \<Rightarrow> inode \<Rightarrow> u32 \<Rightarrow> bytes \<Rightarrow> ('d, inode) fs" where
  "write_symlink ops now inode index path_tgt =
     bindM self (\<lambda>f.
     bindM (liftM (indexR (in_direct inode) 0)) (\<lambda>direct.
     bindM (liftM (addW (sb_data_start (fv_superblock f)) direct)) (\<lambda>data_block.
     bindM (liftM (spliceR (replicate BLOCK_SIZE 0) 0 path_tgt)) (\<lambda>buf.
     bindM (dev (write_block ops data_block buf)) (\<lambda>_.
     let inode = inode\<lparr>in_modified := now, in_size := of_nat (length path_tgt)\<rparr> in
     bindM (dev (write_inode ops (fv_inode_handler f) index inode)) (\<lambda>_.
     returnM inode))))))"

definition create_directory :: "'d block_ops \<Rightarrow> u64 \<Rightarrow> bytes \<Rightarrow> ('d, unit) fs" where
  "create_directory ops now path = bindM (create ops now path Directory) (\<lambda>_. returnM ())"

definition create_file :: "'d block_ops \<Rightarrow> u64 \<Rightarrow> bytes \<Rightarrow> ('d, unit) fs" where
  "create_file ops now path = bindM (create ops now path File) (\<lambda>_. returnM ())"

definition create_symlink :: "'d block_ops \<Rightarrow> u64 \<Rightarrow> u64 \<Rightarrow> bytes \<Rightarrow> bytes \<Rightarrow> ('d, unit) fs" where
  "create_symlink ops now now' path path_tgt =
     bindM (create ops now path Symlink) (\<lambda>(inode, index).
     bindM (write_symlink ops now' inode index path_tgt) (\<lambda>_. returnM ()))"

text \<open>The common part of \<open>create_hardlink\<close> and \<open>create_child_hardlink\<close>.\<close>

definition link_entry ::
  "'d block_ops \<Rightarrow> u64 \<Rightarrow> inode \<Rightarrow> u32 \<Rightarrow> bytes \<Rightarrow> bytes \<Rightarrow> inode \<Rightarrow> u32 \<Rightarrow> ('d, inode \<times> inode) fs" where
  "link_entry ops now inode inode_ind dst dst_filename dst_parent_inode dst_parent_inode_ind =
     bindM self (\<lambda>f.
     bindM (liftM (dir_entry_new inode_ind File dst_filename)) (\<lambda>dst_entry.
     bindM (name_collision ops dst_parent_inode dst_entry) (\<lambda>exists.
     if exists \<noteq> None then throwM (AlreadyExists dst)
     else
       bindM (dev (can_fit ops (fv_directory_handler f) dst_parent_inode (fv_inode_handler f) dst_entry)) (\<lambda>fit_result.
       bindM (liftM (entry_blocks dst_parent_inode fit_result 0)) (\<lambda>data_to_alloc.
       bindM (fs_allocate ops 0 data_to_alloc) (\<lambda>(_, allocated_data).
       bindM (place_entry ops dst_parent_inode dst_entry fit_result allocated_data 0) (\<lambda>dst_parent_inode.
       bindM (liftM (addW (in_links inode) 1)) (\<lambda>links.
       let inode = inode\<lparr>in_links := links\<rparr> in
       bindM (dev (write_inode ops (fv_inode_handler f) inode_ind inode)) (\<lambda>_.
       let dst_parent_inode = dst_parent_inode\<lparr>in_modified := now\<rparr> in
       bindM (dev (write_inode ops (fv_inode_handler f) dst_parent_inode_ind dst_parent_inode)) (\<lambda>_.
       returnM (inode, dst_parent_inode)))))))))))"

definition create_hardlink :: "'d block_ops \<Rightarrow> u64 \<Rightarrow> bytes \<Rightarrow> bytes \<Rightarrow> ('d, unit) fs" where
  "create_hardlink ops now src dst =
     bindM (resolve_path ops (components src) True) (\<lambda>source_resolve.
     let inode = rr_target_inode source_resolve; inode_ind = rr_target_inode_index source_resolve in
     if in_file_type inode \<noteq> File then throwM (NotAFile src)
     else
       let dst_path = components dst in
       bindM (liftM (unwrap (path_parent dst_path))) (\<lambda>dst_parent.
       bindM (liftM (unwrap (path_file_name dst_path))) (\<lambda>dst_filename.
       bindM (resolve_path ops dst_parent True) (\<lambda>destination_resolve.
       bindM (link_entry ops now inode inode_ind dst dst_filename
                (rr_target_inode destination_resolve) (rr_target_inode_index destination_resolve)) (\<lambda>_.
       returnM ())))))"

definition create_child_hardlink ::
  "'d block_ops \<Rightarrow> u64 \<Rightarrow> inode \<Rightarrow> u32 \<Rightarrow> bytes \<Rightarrow> inode \<Rightarrow> u32 \<Rightarrow> ('d, inode \<times> inode) fs" where
  "create_child_hardlink ops now inode inode_ind dst dst_parent_inode dst_parent_inode_ind =
     (let dst_path = components dst in
      bindM (liftM (unwrap (path_parent dst_path))) (\<lambda>_.
      bindM (liftM (unwrap (path_file_name dst_path))) (\<lambda>dst_filename.
      link_entry ops now inode inode_ind dst dst_filename dst_parent_inode dst_parent_inode_ind)))"


section \<open>Deletion\<close>

text \<open>The closure of \<open>delete\<close> and \<open>delete_child\<close>: anything but \<open>.\<close> and \<open>..\<close> makes a directory non-empty.\<close>

definition empty_callback :: "bool callback" where
  "empty_callback entry _ _ is_empty =
     (if is_free entry then Ok (False, is_empty)
      else
        bindR (indexR (de_name entry) 0) (\<lambda>c0.
        bindR (indexR (de_name entry) 1) (\<lambda>c1.
        if 2 < de_name_len entry \<or> c0 \<noteq> dot \<or> (de_name_len entry = 2 \<and> c1 \<noteq> dot)
        then Ok (True, False) else Ok (False, is_empty))))"

definition check_empty :: "'d block_ops \<Rightarrow> inode \<Rightarrow> bytes \<Rightarrow> ('d, unit) fs" where
  "check_empty ops file_inode path =
     (if in_file_type file_inode = Directory
      then
        bindM self (\<lambda>f.
        bindM (dev (iterate ops (fv_directory_handler f) file_inode (fv_inode_handler f) empty_callback True)) (\<lambda>is_empty.
        if \<not> is_empty then throwM (DirectoryNotEmpty path) else returnM ()))
      else returnM ())"

text \<open>The last link of a file is gone: its data blocks and its inode are freed.\<close>

definition free_file :: "'d block_ops \<Rightarrow> inode \<Rightarrow> u32 \<Rightarrow> ('d, unit) fs" where
  "free_file ops file_inode file_inode_ind =
     bindM self (\<lambda>f.
     bindM (dev (foldM (\<lambda>i data. bindM (get_block ops (fv_inode_handler f) file_inode i) (\<lambda>block.
              returnM (data @ [block]))) (u32_range 0 (in_blocks file_inode)) [])) (\<lambda>data_to_dealloc.
     bindM (dev (deallocate ops (fv_block_allocator f) data_to_dealloc)) (\<lambda>ba.
     bindM (update (\<lambda>f. f\<lparr>fv_block_allocator := ba\<rparr>)) (\<lambda>_.
     bindM (dev (deallocate ops (fv_inode_allocator f) [file_inode_ind])) (\<lambda>ia.
     bindM (update (\<lambda>f. f\<lparr>fv_inode_allocator := ia\<rparr>)) (\<lambda>_.
     bindM (liftM (addW (sb_free_data (fv_superblock f)) (of_nat (length data_to_dealloc)))) (\<lambda>free_data.
     bindM (update (map_superblock (\<lambda>s. s\<lparr>sb_free_data := free_data\<rparr>))) (\<lambda>_.
     bindM (liftM (addW (sb_free_inodes (fv_superblock f)) 1)) (\<lambda>free_inodes.
     bindM (update (map_superblock (\<lambda>s. s\<lparr>sb_free_inodes := free_inodes\<rparr>))) (\<lambda>_.
     write_superblock ops))))))))))"

text \<open>The part of \<open>delete\<close> and \<open>delete_child\<close> after the check that a directory is empty.\<close>

definition delete_entry ::
  "'d block_ops \<Rightarrow> u64 \<Rightarrow> inode \<Rightarrow> u32 \<Rightarrow> inode \<Rightarrow> u32 \<Rightarrow> u32 \<Rightarrow> nat \<Rightarrow> ('d, unit) fs" where
  "delete_entry ops now file_inode file_inode_ind parent_inode parent_inode_ind entry_block_ind entry_offset =
     bindM self (\<lambda>f.
     bindM (if 1 < in_links file_inode
            then dev (write_inode ops (fv_inode_handler f) file_inode_ind
                        (file_inode\<lparr>in_links := in_links file_inode - 1\<rparr>))
            else free_file ops file_inode file_inode_ind) (\<lambda>_.
     bindM (dev (free_region ops (fv_directory_handler f) entry_block_ind (of_nat entry_offset))) (\<lambda>_.
     dev (write_inode ops (fv_inode_handler f) parent_inode_ind (parent_inode\<lparr>in_modified := now\<rparr>)))))"

definition delete :: "'d block_ops \<Rightarrow> u64 \<Rightarrow> bytes \<Rightarrow> ('d, unit) fs" where
  "delete ops now path_str =
     bindM self (\<lambda>f.
     bindM (resolve_path ops (components path_str) False) (\<lambda>resolution_result.
     let file_inode_ind = rr_target_inode_index resolution_result;
         file_inode = rr_target_inode resolution_result;
         parent_inode_ind = rr_parent_inode_index resolution_result in
     if file_inode_ind = sb_root_inode (fv_superblock f) then throwM (DeletingRoot path_str)
     else
       bindM (dev (read_inode ops (fv_inode_handler f) parent_inode_ind)) (\<lambda>parent_inode.
       bindM (check_empty ops file_inode path_str) (\<lambda>_.
       delete_entry ops now file_inode file_inode_ind parent_inode parent_inode_ind
         (rr_dir_entry_block_index resolution_result) (rr_dir_entry_offset resolution_result)))))"

definition wrong_type_error :: "file_type \<Rightarrow> bytes \<Rightarrow> fs_error" where
  "wrong_type_error file_type path =
     (case file_type of
        Directory \<Rightarrow> NotADirectory path | File \<Rightarrow> NotAFile path | Symlink \<Rightarrow> NotASymlink path
      | Unknown \<Rightarrow> InvalidInput II_UnknownFileType)"

definition delete_child ::
  "'d block_ops \<Rightarrow> u64 \<Rightarrow> bytes \<Rightarrow> u32 \<Rightarrow> file_type option \<Rightarrow> ('d, unit) fs" where
  "delete_child ops now filename parent_inode_ind file_type =
     (if filename = [dot] \<or> filename = [dot, dot] then throwM (InvalidInput II_FileIsSelfOrParent)
      else
        let parent = u32_to_string parent_inode_ind in
        bindM self (\<lambda>f.
        bindM (dev (is_allocated ops (fv_inode_allocator f) parent_inode_ind)) (\<lambda>allocated.
        if \<not> allocated then throwM (DirectoryDoesNotExist parent)
        else
          bindM (dev (read_inode ops (fv_inode_handler f) parent_inode_ind)) (\<lambda>parent_inode.
          if in_file_type parent_inode \<noteq> Directory then throwM (NotADirectory parent)
          else
            bindM (dev (find_entry ops (fv_directory_handler f) parent_inode (fv_inode_handler f) filename)) (\<lambda>exists.
            case exists of
              None \<Rightarrow> throwM (DoesNotExist parent)
            | Some (dir_entry, entry_block_ind, entry_offset) \<Rightarrow>
                bindM (dev (read_inode ops (fv_inode_handler f) (de_inode dir_entry))) (\<lambda>file_inode.
                bindM (case file_type of
                         Some t \<Rightarrow>
                           if t \<noteq> in_file_type file_inode then throwM (wrong_type_error t parent)
                           else returnM ()
                       | None \<Rightarrow> returnM ()) (\<lambda>_.
                bindM (check_empty ops file_inode parent) (\<lambda>_.
                delete_entry ops now file_inode (de_inode dir_entry) parent_inode parent_inode_ind
                  entry_block_ind entry_offset))))))))"


section \<open>Open files\<close>

definition file_exists :: "'d block_ops \<Rightarrow> bytes \<Rightarrow> ('d, bool \<times> file_type option) fs" where
  "file_exists ops path_str =
     catchM
       (bindM (resolve_path ops (components path_str) True) (\<lambda>r.
        returnM (True, Some (in_file_type (rr_target_inode r)))))
       (\<lambda>e. case e of DoesNotExist _ \<Rightarrow> returnM (False, None) | _ \<Rightarrow> throwM e)"

text \<open>A new handle on an inode: the common end of \<open>open_file\<close> and \<open>open_file_from_inode\<close>.\<close>

definition new_handle :: "u32 \<Rightarrow> ('d, file_handle) fs" where
  "new_handle file_inode_ind =
     bindM self (\<lambda>f.
     let id = fv_next_file_id f in
     bindM (liftM (addW id 1)) (\<lambda>next_id.
     bindM (update (\<lambda>f. f\<lparr>fv_next_file_id := next_id,
              fv_open_files := (fv_open_files f)(id \<mapsto> file_metadata_new file_inode_ind OM_ReadWrite)\<rparr>)) (\<lambda>_.
     returnM \<lparr>fh_id = id\<rparr>)))"

definition open_file :: "'d block_ops \<Rightarrow> bytes \<Rightarrow> ('d, file_handle) fs" where
  "open_file ops path_str =
     bindM (resolve_path ops (components path_str) True) (\<lambda>resolve_result.
     if in_file_type (rr_target_inode resolve_result) \<noteq> File then throwM (NotAFile path_str)
     else new_handle (rr_target_inode_index resolve_result))"

definition close_file :: "file_handle \<Rightarrow> ('d, unit) fs" where
  "close_file file = update (\<lambda>f. f\<lparr>fv_open_files := (fv_open_files f)(fh_id file := None)\<rparr>)"

definition set_offset :: "u32 \<Rightarrow> u64 \<Rightarrow> ('d, unit) fs" where
  "set_offset file_id off =
     update (\<lambda>f. f\<lparr>fv_open_files :=
       (fv_open_files f)(file_id := map_option (\<lambda>m. m\<lparr>fm_offset := off\<rparr>) (fv_open_files f file_id))\<rparr>)"

text \<open>The address check of \<open>read\<close> and \<open>write\<close>: the address of the block on the device.\<close>

definition data_address :: "format_v1 \<Rightarrow> inode \<Rightarrow> u32 \<Rightarrow> u32 \<Rightarrow> u32 res" where
  "data_address f inode block block_ind =
     (if block_ind = INVALID_ADDRESS
      then Err (InvalidINode (IN_InvalidDirect (ucast block) block_ind) (in_size inode) (in_blocks inode))
      else if max_index (fv_block_allocator f) < block_ind
      then Err (InvalidINode (IN_DirectOOB (ucast block) block_ind (max_index (fv_block_allocator f)))
             (in_size inode) (in_blocks inode))
      else addW (sb_data_start (fv_superblock f)) block_ind)"

text \<open>
  The loop of \<open>read\<close>. Every iteration reads at least one byte, so that \<open>Suc (length buf)\<close>
  iterations are enough. The result is the number of bytes read and the buffer; what an error leaves
  in the buffer is not returned.
\<close>

primrec read_loop ::
  "nat \<Rightarrow> 'd block_ops \<Rightarrow> u32 \<Rightarrow> inode \<Rightarrow> bytes \<Rightarrow> nat \<Rightarrow> u32 \<Rightarrow> nat \<Rightarrow> ('d, nat \<times> bytes) fs" where
  "read_loop 0 ops file_id inode buf read block in_block_offset = liftM Diverge"
| "read_loop (Suc fuel) ops file_id inode buf read block in_block_offset =
     bindM self (\<lambda>f.
     bindM (liftM (unwrap (fv_open_files f file_id))) (\<lambda>metadata.
     if read < length buf \<and> fm_offset metadata < in_size inode
     then
       bindM (dev (get_block ops (fv_inode_handler f) inode block)) (\<lambda>block_ind.
       bindM (liftM (data_address f inode block block_ind)) (\<lambda>block_address.
       bindM (dev (read_block ops block_address)) (\<lambda>device_buf.
       bindM (liftM (subN BLOCK_SIZE in_block_offset)) (\<lambda>to_read.
       let to_read = min to_read (length buf - read);
           to_read = min to_read (unat (in_size inode - fm_offset metadata)) in
       bindM (liftM (sliceR device_buf in_block_offset to_read)) (\<lambda>chunk.
       bindM (liftM (spliceR buf read chunk)) (\<lambda>buf.
       bindM (liftM (addW block 1)) (\<lambda>block.
       bindM (liftM (addW (fm_offset metadata) (of_nat to_read))) (\<lambda>offset.
       bindM (set_offset file_id offset) (\<lambda>_.
       read_loop fuel ops file_id inode buf (read + to_read) block 0)))))))))
     else returnM (read, buf)))"

definition fs_read :: "'d block_ops \<Rightarrow> file_handle \<Rightarrow> bytes \<Rightarrow> ('d, nat \<times> bytes) fs" where
  "fs_read ops file buf =
     bindM self (\<lambda>f.
     case fv_open_files f (fh_id file) of
       None \<Rightarrow> throwM (FileNotOpen (fh_id file))
     | Some metadata \<Rightarrow>
         if buf = [] then returnM (0, buf)
         else
           bindM (dev (read_inode ops (fv_inode_handler f) (fm_inode metadata))) (\<lambda>inode.
           if unat (in_blocks inode) * BLOCK_SIZE < unat (in_size inode)
           then throwM (InvalidINode IN_SizeGreaterThanAllocatedRegion (in_size inode) (in_blocks inode))
           else
             read_loop (Suc (length buf)) ops (fh_id file) inode buf 0
               (ucast (fm_offset metadata div of_nat BLOCK_SIZE)) (unat (fm_offset metadata) mod BLOCK_SIZE)))"

text \<open>
  \<open>write\<close>: the blocks needed past the end of the file are allocated, zeroed and added to the inode.
  Fewer data blocks than asked for are accepted.
\<close>

definition grow_file :: "'d block_ops \<Rightarrow> inode \<Rightarrow> u32 \<Rightarrow> ('d, inode) fs" where
  "grow_file ops inode final_block =
     bindM self (\<lambda>f.
     bindM (liftM (addW (final_block - in_blocks inode) 1)) (\<lambda>to_alloc_data.
     bindM (liftM (blocks_necessary_to_grow_n inode to_alloc_data)) (\<lambda>to_alloc_inode_metadata.
     bindM (dev (find_free ops (fv_block_allocator f) to_alloc_inode_metadata)) (\<lambda>metadata_inds.
     if length metadata_inds < unat to_alloc_inode_metadata
     then throwM (StorageFull SF_DataRegionFull to_alloc_inode_metadata (of_nat (length metadata_inds)))
     else
       bindM (dev (allocate ops (fv_block_allocator f) metadata_inds)) (\<lambda>ba.
       bindM (update (\<lambda>f. f\<lparr>fv_block_allocator := ba\<rparr>)) (\<lambda>_.
       bindM (dev (find_free ops ba to_alloc_data)) (\<lambda>data_inds.
       if data_inds = []
       then
         bindM (dev (deallocate ops ba metadata_inds)) (\<lambda>ba.
         bindM (update (\<lambda>f. f\<lparr>fv_block_allocator := ba\<rparr>)) (\<lambda>_.
         throwM (StorageFull SF_DataRegionFull to_alloc_data (of_nat (length data_inds)))))
       else
         bindM (dev (allocate ops ba data_inds)) (\<lambda>ba.
         bindM (update (\<lambda>f. f\<lparr>fv_block_allocator := ba\<rparr>)) (\<lambda>_.
         bindM (dev (foldM (\<lambda>i _.
             bindM (liftM (addW (sb_data_start (fv_superblock f)) i)) (\<lambda>block_address.
             write_block ops block_address (replicate BLOCK_SIZE 0))) data_inds ())) (\<lambda>_.
         bindM (dev (add_blocks ops (fv_inode_handler f) inode data_inds metadata_inds)) (\<lambda>inode.
         bindM (liftM (addW (of_nat (length data_inds)) to_alloc_inode_metadata)) (\<lambda>used.
         bindM (liftM (subW (sb_free_data (fv_superblock f)) used)) (\<lambda>free_data.
         bindM (update (map_superblock (\<lambda>s. s\<lparr>sb_free_data := free_data\<rparr>))) (\<lambda>_.
         returnM inode))))))))))))))"

primrec write_loop ::
  "nat \<Rightarrow> 'd block_ops \<Rightarrow> u32 \<Rightarrow> inode \<Rightarrow> bytes \<Rightarrow> nat \<Rightarrow> u32 \<Rightarrow> nat \<Rightarrow> bytes \<Rightarrow> ('d, nat) fs" where
  "write_loop 0 ops file_id inode buf wrote block in_block_offset device_buf = liftM Diverge"
| "write_loop (Suc fuel) ops file_id inode buf wrote block in_block_offset device_buf =
     (if wrote < length buf \<and> block < in_blocks inode
      then
        bindM self (\<lambda>f.
        bindM (liftM (unwrap (fv_open_files f file_id))) (\<lambda>metadata.
        bindM (dev (get_block ops (fv_inode_handler f) inode block)) (\<lambda>block_ind.
        bindM (liftM (data_address f inode block block_ind)) (\<lambda>block_address.
        bindM (liftM (subN BLOCK_SIZE in_block_offset)) (\<lambda>to_write.
        let to_write = min to_write (length buf - wrote) in
        bindM (if to_write < BLOCK_SIZE then dev (read_block ops block_address)
               else returnM device_buf) (\<lambda>device_buf.
        bindM (liftM (sliceR buf wrote to_write)) (\<lambda>chunk.
        bindM (liftM (spliceR device_buf in_block_offset chunk)) (\<lambda>device_buf.
        bindM (dev (write_block ops block_address device_buf)) (\<lambda>_.
        bindM (liftM (addW block 1)) (\<lambda>block.
        bindM (liftM (addW (fm_offset metadata) (of_nat to_write))) (\<lambda>offset.
        bindM (set_offset file_id offset) (\<lambda>_.
        write_loop fuel ops file_id inode buf (wrote + to_write) block 0 device_buf))))))))))))
      else returnM wrote)"

definition fs_write :: "'d block_ops \<Rightarrow> u64 \<Rightarrow> file_handle \<Rightarrow> bytes \<Rightarrow> ('d, nat) fs" where
  "fs_write ops now file buf =
     bindM self (\<lambda>f.
     case fv_open_files f (fh_id file) of
       None \<Rightarrow> throwM (FileNotOpen (fh_id file))
     | Some metadata \<Rightarrow>
         if buf = [] then returnM 0
         else
           bindM (dev (read_inode ops (fv_inode_handler f) (fm_inode metadata))) (\<lambda>inode.
           let offset = unat (fm_offset metadata) in
           bindM (if offset + length buf < 2 ^ 64 then returnM (offset + length buf - 1) else panicM) (\<lambda>final_byte.
           let final_block = of_nat (final_byte div BLOCK_SIZE); allocated = in_blocks inode \<le> final_block in
           bindM (if allocated then grow_file ops inode final_block else returnM inode) (\<lambda>inode.
           bindM (write_loop (Suc (length buf)) ops (fh_id file) inode buf 0
                    (of_nat (offset div BLOCK_SIZE)) (offset mod BLOCK_SIZE) (replicate BLOCK_SIZE 0)) (\<lambda>wrote.
           bindM self (\<lambda>f.
           bindM (liftM (unwrap (fv_open_files f (fh_id file)))) (\<lambda>metadata.
           let inode = inode\<lparr>in_size := max (in_size inode) (fm_offset metadata), in_modified := now\<rparr> in
           bindM (dev (write_inode ops (fv_inode_handler f) (fm_inode metadata) inode)) (\<lambda>_.
           bindM (if allocated then write_superblock ops else returnM ()) (\<lambda>_.
           returnM wrote)))))))))"

text \<open>\<open>i64\<close> is a 64-bit word read with \<open>sint\<close>.\<close>

type_synonym i64 = "64 word"

datatype seek_from = SeekStart u64 | SeekEnd i64 | SeekCurrent i64

definition add_i64 :: "i64 \<Rightarrow> i64 \<Rightarrow> int res" where
  "add_i64 x y = (let s = sint x + sint y in if - (2 ^ 63) \<le> s \<and> s < 2 ^ 63 then Ok s else Panic)"

definition seek :: "'d block_ops \<Rightarrow> file_handle \<Rightarrow> seek_from \<Rightarrow> ('d, u64) fs" where
  "seek ops file pos =
     bindM self (\<lambda>f.
     case fv_open_files f (fh_id file) of
       None \<Rightarrow> throwM (FileNotOpen (fh_id file))
     | Some metadata \<Rightarrow>
         bindM (case pos of
                  SeekStart offset \<Rightarrow> returnM offset
                | SeekEnd offset \<Rightarrow>
                    bindM (dev (read_inode ops (fv_inode_handler f) (fm_inode metadata))) (\<lambda>inode.
                    bindM (liftM (add_i64 (in_size inode) offset)) (\<lambda>s. returnM (of_int (max s 0))))
                | SeekCurrent offset \<Rightarrow>
                    bindM (liftM (add_i64 (fm_offset metadata) offset)) (\<lambda>s. returnM (of_int (max s 0)))) (\<lambda>offset.
         bindM (set_offset (fh_id file) offset) (\<lambda>_.
         returnM offset)))"

definition truncate :: "'d block_ops \<Rightarrow> u64 \<Rightarrow> file_handle \<Rightarrow> u64 \<Rightarrow> ('d, unit) fs" where
  "truncate ops now file sz =
     bindM self (\<lambda>f.
     case fv_open_files f (fh_id file) of
       None \<Rightarrow> throwM (FileNotOpen (fh_id file))
     | Some metadata \<Rightarrow>
         bindM (dev (read_inode ops (fv_inode_handler f) (fm_inode metadata))) (\<lambda>inode.
         if sz < in_size inode
         then dev (write_inode ops (fv_inode_handler f) (fm_inode metadata) (inode\<lparr>in_modified := now, in_size := sz\<rparr>))
         else returnM ()))"


section \<open>Symbolic links, directories, counters\<close>

definition edit_symlink :: "'d block_ops \<Rightarrow> u64 \<Rightarrow> bytes \<Rightarrow> bytes \<Rightarrow> ('d, unit) fs" where
  "edit_symlink ops now path_str path_tgt =
     bindM (resolve_path ops (components path_str) False) (\<lambda>resolve_result.
     let inode = rr_target_inode resolve_result in
     if in_file_type inode \<noteq> Symlink then throwM (NotASymlink path_str)
     else bindM (write_symlink ops now inode (rr_target_inode_index resolve_result) path_tgt) (\<lambda>_. returnM ()))"

definition get_directory :: "'d block_ops \<Rightarrow> bytes \<Rightarrow> bool \<Rightarrow> ('d, directory) fs" where
  "get_directory ops path_str include_free =
     bindM self (\<lambda>f.
     bindM (resolve_path ops (components path_str) True) (\<lambda>resolve_result.
     let dir_inode = rr_target_inode resolve_result in
     if in_file_type dir_inode \<noteq> Directory then throwM (NotADirectory path_str)
     else
       bindM (dev (get_entries ops (fv_directory_handler f) dir_inode (fv_inode_handler f) include_free)) (\<lambda>entries.
       returnM \<lparr>dy_inode = rr_target_inode_index resolve_result, dy_entries = entries\<rparr>)))"

definition content_entry :: "dir_entry \<Rightarrow> directory_content_entry res" where
  "content_entry e =
     bindR (sliceR (de_name e) 0 (unat (de_name_len e))) (\<lambda>name.
     bindR (unwrap (from_utf8 name)) (\<lambda>filename.
     Ok \<lparr>dc_filename = filename, dc_file_type = de_file_type e\<rparr>))"

definition get_directory_content :: "'d block_ops \<Rightarrow> bytes \<Rightarrow> ('d, directory_content_entry list) fs" where
  "get_directory_content ops path =
     bindM (get_directory ops path False) (\<lambda>dir.
     foldM (\<lambda>e entries. bindM (liftM (content_entry e)) (\<lambda>c. returnM (entries @ [c]))) (dy_entries dir) [])"

definition free_inodes_count :: "format_v1 \<Rightarrow> u32" where
  "free_inodes_count f = sb_free_inodes (fv_superblock f)"

definition free_data_blocks_count :: "format_v1 \<Rightarrow> u32" where
  "free_data_blocks_count f = sb_free_data (fv_superblock f)"

definition used_inodes_count :: "format_v1 \<Rightarrow> u32 res" where
  "used_inodes_count f =
     bindR (mulW (sb_inode_table_blocks (fv_superblock f)) inodes_per_block) (\<lambda>n.
     subW n (sb_free_inodes (fv_superblock f)))"

definition used_data_blocks_count :: "format_v1 \<Rightarrow> u32 res" where
  "used_data_blocks_count f =
     bindR (subW (sb_total_blocks (fv_superblock f)) (sb_data_start (fv_superblock f))) (\<lambda>n.
     subW n (sb_free_data (fv_superblock f)))"

definition free_space :: "('d, nat) fs" where
  "free_space = getM (\<lambda>(f, _). unat (free_data_blocks_count f) * BLOCK_SIZE)"

definition fs_flush :: "'d block_ops \<Rightarrow> ('d, unit) fs" where "fs_flush ops = dev (flush ops)"


section \<open>Access by inode\<close>

definition get_inode :: "'d block_ops \<Rightarrow> u32 \<Rightarrow> ('d, inode) fs" where
  "get_inode ops inode_ind =
     bindM self (\<lambda>f.
     bindM (dev (is_allocated ops (fv_inode_allocator f) inode_ind)) (\<lambda>allocated.
     if \<not> allocated then throwM (DoesNotExist (u32_to_string inode_ind))
     else dev (read_inode ops (fv_inode_handler f) inode_ind)))"

definition fs_write_inode :: "'d block_ops \<Rightarrow> u32 \<Rightarrow> inode \<Rightarrow> ('d, unit) fs" where
  "fs_write_inode ops inode_ind inode =
     bindM self (\<lambda>f.
     bindM (dev (is_allocated ops (fv_inode_allocator f) inode_ind)) (\<lambda>allocated.
     if \<not> allocated then throwM (DoesNotExist (u32_to_string inode_ind))
     else dev (write_inode ops (fv_inode_handler f) inode_ind inode)))"

definition get_directory_from_inode :: "'d block_ops \<Rightarrow> inode \<Rightarrow> u32 \<Rightarrow> ('d, directory) fs" where
  "get_directory_from_inode ops inode inode_ind =
     (if in_file_type inode \<noteq> Directory
      then throwM (NotADirectory [117, 110, 107, 110, 111, 119, 110])
      else
        bindM self (\<lambda>f.
        bindM (dev (get_entries ops (fv_directory_handler f) inode (fv_inode_handler f) False)) (\<lambda>entries.
        returnM \<lparr>dy_inode = inode_ind, dy_entries = entries\<rparr>)))"

definition get_dir_entry_inode :: "'d block_ops \<Rightarrow> u32 \<Rightarrow> bytes \<Rightarrow> ('d, u32 option) fs" where
  "get_dir_entry_inode ops dir_inode_ind name =
     bindM (get_inode ops dir_inode_ind) (\<lambda>dir_inode.
     bindM self (\<lambda>f.
     bindM (dev (find_entry ops (fv_directory_handler f) dir_inode (fv_inode_handler f) name)) (\<lambda>entry.
     returnM (map_option (\<lambda>(e, _). de_inode e) entry))))"

definition read_symlink :: "'d block_ops \<Rightarrow> u32 \<Rightarrow> bytes \<Rightarrow> ('d, nat \<times> bytes) fs" where
  "read_symlink ops inode_ind buf =
     bindM (get_inode ops inode_ind) (\<lambda>inode.
     if in_file_type inode \<noteq> Symlink then throwM (NotASymlink (u32_to_string inode_ind))
     else if in_size inode = 0 then returnM (0, buf)
     else
       bindM (liftM (indexR (in_direct inode) 0)) (\<lambda>direct.
       bindM (dev (read_block ops direct)) (\<lambda>buf.
       returnM (unat (in_size inode), buf))))"

definition open_file_from_inode :: "'d block_ops \<Rightarrow> u32 \<Rightarrow> ('d, file_handle) fs" where
  "open_file_from_inode ops file_inode_ind =
     bindM (get_inode ops file_inode_ind) (\<lambda>file_inode.
     if in_file_type file_inode \<noteq> File then throwM (NotAFile (u32_to_string file_inode_ind))
     else new_handle file_inode_ind)"

end
