(* ===== verification/Volume.thy ===== *)
theory Volume
  imports Format_V1
begin

text \<open>
  The state of a mounted volume. \<open>fs_execs\<close> extends the evaluation judgement to computations over the
  format and the device; \<open>mounted\<close> is the invariant that ties the format to the device: the regions
  of the disk follow each other as \<open>Superblock::new\<close> lays them out, the handlers and allocators
  agree with the superblock, and the bitmaps cover their regions.
\<close>

abbreviation fs_execs ::
  "('d \<Rightarrow> bool) \<Rightarrow> ('d \<Rightarrow> bytes list) \<Rightarrow> ('d, 'a) fs \<Rightarrow> format_v1 \<Rightarrow> bytes list \<Rightarrow> 'a res \<Rightarrow> format_v1 \<Rightarrow> bytes list \<Rightarrow> bool"
  where "fs_execs dinv blks m f bs r f' bs' \<equiv>
    execs (\<lambda>s. dinv (snd s)) (\<lambda>s. (fst s, blks (snd s))) m (f, bs) r (f', bs')"

lemma dev_execs: "execs dinv blks m bs r bs' \<Longrightarrow> fs_execs dinv blks (dev m) f bs r f bs'"
  unfolding execs_def dev_def zoomM_def by (fastforce split: prod.splits)

lemma self_execs: "fs_execs dinv blks self f bs (Ok f) f bs"
  by (auto simp: execs_def self_def getM_def)

lemma update_execs: "fs_execs dinv blks (update g) f bs (Ok ()) (g f) bs"
  by (auto simp: execs_def update_def modifyM_def)

lemma fs_bind_dev:
  "execs dinv blks m bs (Ok v) bs1 \<Longrightarrow> fs_execs dinv blks (g v) f bs1 r f' bs' \<Longrightarrow>
   fs_execs dinv blks (bindM (dev m) g) f bs r f' bs'"
  by (rule execs_bind [OF dev_execs])

lemma fs_bind_self:
  "fs_execs dinv blks (g f) f bs r f' bs' \<Longrightarrow> fs_execs dinv blks (bindM self g) f bs r f' bs'"
  by (rule execs_bind [OF self_execs])

lemma fs_bind_update:
  "fs_execs dinv blks (g ()) (u f) bs r f' bs' \<Longrightarrow> fs_execs dinv blks (bindM (update u) g) f bs r f' bs'"
  by (rule execs_bind [OF update_execs])

lemmas fs_execs_intros = fs_bind_self fs_bind_update fs_bind_dev dev_execs self_execs update_execs

lemma fs_execsD:
  "fs_execs dinv blks m f bs r f' bs' \<Longrightarrow> dinv d \<Longrightarrow> blks d = bs \<Longrightarrow>
   \<exists>d'. m (f, d) = (r, f', d') \<and> dinv d' \<and> blks d' = bs'"
  by (drule execsD [where s = "(f, d)"]) auto

context block_device
begin

lemma fs_execs_wf:
  "(wf_blocks bs \<Longrightarrow> length bs < 4294967296 \<Longrightarrow> fs_execs inv blks m f bs r f' bs') \<Longrightarrow> fs_execs inv blks m f bs r f' bs'"
  using blocks_wf partial.length_blks by (force simp: execs_def)

end


section \<open>The regions of a volume\<close>

definition alloc_on :: "bitmap_allocator \<Rightarrow> u32 \<Rightarrow> u32 \<Rightarrow> nat \<Rightarrow> bool" where
  "alloc_on al start sz n \<longleftrightarrow>
     ba_start al = start \<and> ba_size al = sz \<and> unat (ba_max_index al) = n \<and> n \<le> unat sz * 2048 \<and>
     unat sz \<le> 2097152 \<and> unat (ba_last_alloc al) < unat sz * 2048"

definition mounted :: "format_v1 \<Rightarrow> bytes list \<Rightarrow> bool" where
  "mounted f bs \<longleftrightarrow>
     (let sb = fv_superblock f in
      sb_inode_bitmap_start sb = 1 \<and>
      unat (sb_block_bitmap_start sb) = 1 + unat (sb_inode_bitmap_blocks sb) \<and>
      unat (sb_inode_table_start sb) = unat (sb_block_bitmap_start sb) + unat (sb_block_bitmap_blocks sb) \<and>
      unat (sb_data_start sb) = unat (sb_inode_table_start sb) + unat (sb_inode_table_blocks sb) \<and>
      unat (sb_data_start sb) \<le> unat (sb_total_blocks sb) \<and> unat (sb_total_blocks sb) = length bs \<and>
      alloc_on (fv_inode_allocator f) (sb_inode_bitmap_start sb) (sb_inode_bitmap_blocks sb)
        (unat (sb_inode_table_blocks sb) * 2) \<and>
      alloc_on (fv_block_allocator f) (sb_block_bitmap_start sb) (sb_block_bitmap_blocks sb)
        (length bs - unat (sb_data_start sb)) \<and>
      fv_inode_handler f = inode_table_handler_new (sb_inode_table_start sb) (sb_inode_table_blocks sb) (sb_data_start sb) \<and>
      fv_directory_handler f = directory_handler_new (sb_data_start sb) (sb_root_inode sb))"

lemma alloc_on_bitmap:
  "alloc_on al start sz n \<Longrightarrow> unat start + unat sz \<le> k \<Longrightarrow> bitmap_ok al k"
  by (simp add: alloc_on_def bitmap_ok_def)

lemma alloc_on_last: "alloc_on al s z n \<Longrightarrow> unat l < unat (ba_size al) * 2048 \<Longrightarrow> alloc_on (al\<lparr>ba_last_alloc := l\<rparr>) s z n"
  by (simp add: alloc_on_def)

lemma mounted_fields:
  assumes "mounted f bs"
  shows "alloc_on (fv_inode_allocator f) 1 (sb_inode_bitmap_blocks (fv_superblock f))
      (unat (sb_inode_table_blocks (fv_superblock f)) * 2)"
    "alloc_on (fv_block_allocator f) (sb_block_bitmap_start (fv_superblock f)) (sb_block_bitmap_blocks (fv_superblock f))
      (length bs - unat (sb_data_start (fv_superblock f)))"
    "fv_inode_handler f = \<lparr>ih_inode_table_start = sb_inode_table_start (fv_superblock f),
       ih_inode_table_blocks = sb_inode_table_blocks (fv_superblock f), ih_data_start = sb_data_start (fv_superblock f)\<rparr>"
    "fv_directory_handler f = \<lparr>dh_data_start = sb_data_start (fv_superblock f),
       dh_root_inode_ind = sb_root_inode (fv_superblock f)\<rparr>"
    "unat (sb_block_bitmap_start (fv_superblock f)) = 1 + unat (sb_inode_bitmap_blocks (fv_superblock f))"
    "unat (sb_inode_table_start (fv_superblock f)) =
       unat (sb_block_bitmap_start (fv_superblock f)) + unat (sb_block_bitmap_blocks (fv_superblock f))"
    "unat (sb_data_start (fv_superblock f)) =
       unat (sb_inode_table_start (fv_superblock f)) + unat (sb_inode_table_blocks (fv_superblock f))"
    "unat (sb_data_start (fv_superblock f)) \<le> length bs"
  using assms unfolding mounted_def Let_def inode_table_handler_new_def directory_handler_new_def by metis+

lemma mounted_ok:
  assumes "mounted f bs"
  shows "bitmap_ok (fv_inode_allocator f) (length bs)" "bitmap_ok (fv_block_allocator f) (length bs)"
    "table_ok (fv_inode_handler f) (length bs)"
    "unat (ba_last_alloc (fv_inode_allocator f)) < unat (ba_size (fv_inode_allocator f)) * 2048"
    "unat (ba_last_alloc (fv_block_allocator f)) < unat (ba_size (fv_block_allocator f)) * 2048"
    "sb_data_start (fv_superblock f) = ih_data_start (fv_inode_handler f)"
    "dh_data_start (fv_directory_handler f) = ih_data_start (fv_inode_handler f)"
    "unat (ih_data_start (fv_inode_handler f)) + unat (ba_max_index (fv_block_allocator f)) = length bs"
proof -
  note m = mounted_fields [OF assms]
  show "bitmap_ok (fv_inode_allocator f) (length bs)" by (rule alloc_on_bitmap [OF m(1)]) (use m(5-8) in simp)
  show "bitmap_ok (fv_block_allocator f) (length bs)" by (rule alloc_on_bitmap [OF m(2)]) (use m(5-8) in simp)
  have "unat (sb_inode_table_blocks (fv_superblock f)) * 2 < 4294967296"
    using m(1) unat_u32_bound [of "ba_max_index (fv_inode_allocator f)"] unfolding alloc_on_def by linarith
  with m(7,8) show "table_ok (fv_inode_handler f) (length bs)" by (simp add: table_ok_def m(3))
  show "unat (ba_last_alloc (fv_inode_allocator f)) < unat (ba_size (fv_inode_allocator f)) * 2048"
    "unat (ba_last_alloc (fv_block_allocator f)) < unat (ba_size (fv_block_allocator f)) * 2048"
    using m(1,2) by (simp_all only: alloc_on_def)
  show "sb_data_start (fv_superblock f) = ih_data_start (fv_inode_handler f)"
    "dh_data_start (fv_directory_handler f) = ih_data_start (fv_inode_handler f)" by (simp_all add: m(3,4))
  have "unat (ba_max_index (fv_block_allocator f)) = length bs - unat (sb_data_start (fv_superblock f))"
    using m(2) unfolding alloc_on_def by (elim conjE)
  with m(8) show "unat (ih_data_start (fv_inode_handler f)) + unat (ba_max_index (fv_block_allocator f)) = length bs"
    by (simp add: m(3))
qed

lemma mountedI:
  assumes "mounted f bs" "length bs' = length bs" "fv_inode_handler f' = fv_inode_handler f"
    "fv_directory_handler f' = fv_directory_handler f"
    "\<exists>l. fv_inode_allocator f' = (fv_inode_allocator f)\<lparr>ba_last_alloc := l\<rparr> \<and> unat l < unat (ba_size (fv_inode_allocator f)) * 2048"
    "\<exists>l. fv_block_allocator f' = (fv_block_allocator f)\<lparr>ba_last_alloc := l\<rparr> \<and> unat l < unat (ba_size (fv_block_allocator f)) * 2048"
    "\<exists>x y. fv_superblock f' = (fv_superblock f)\<lparr>sb_free_inodes := x, sb_free_data := y\<rparr>"
  shows "mounted f' bs'"
proof -
  obtain x y where sb: "fv_superblock f' = (fv_superblock f)\<lparr>sb_free_inodes := x, sb_free_data := y\<rparr>" using assms(7) by blast
  have al: "alloc_on (fv_inode_allocator f') s z n" if "alloc_on (fv_inode_allocator f) s z n" for s z n
    using assms(5) alloc_on_last [OF that] by metis
  have bl: "alloc_on (fv_block_allocator f') s z n" if "alloc_on (fv_block_allocator f) s z n" for s z n
    using assms(6) alloc_on_last [OF that] by metis
  have sel: "sb_inode_bitmap_start (fv_superblock f') = sb_inode_bitmap_start (fv_superblock f)"
    "sb_inode_bitmap_blocks (fv_superblock f') = sb_inode_bitmap_blocks (fv_superblock f)"
    "sb_block_bitmap_start (fv_superblock f') = sb_block_bitmap_start (fv_superblock f)"
    "sb_block_bitmap_blocks (fv_superblock f') = sb_block_bitmap_blocks (fv_superblock f)"
    "sb_inode_table_start (fv_superblock f') = sb_inode_table_start (fv_superblock f)"
    "sb_inode_table_blocks (fv_superblock f') = sb_inode_table_blocks (fv_superblock f)"
    "sb_data_start (fv_superblock f') = sb_data_start (fv_superblock f)"
    "sb_root_inode (fv_superblock f') = sb_root_inode (fv_superblock f)"
    "sb_total_blocks (fv_superblock f') = sb_total_blocks (fv_superblock f)" by (simp_all add: sb)
  show ?thesis using assms(1) al bl unfolding mounted_def Let_def sel assms(2-4) by blast
qed

text \<open>The addresses of the four regions are pairwise disjoint.\<close>

definition block_bitmap_area :: "format_v1 \<Rightarrow> nat set" where
  "block_bitmap_area f = {unat (ba_start (fv_block_allocator f)) ..<
     unat (ba_start (fv_block_allocator f)) + unat (ba_size (fv_block_allocator f))}"

definition inode_bitmap_area :: "format_v1 \<Rightarrow> nat set" where
  "inode_bitmap_area f = {unat (ba_start (fv_inode_allocator f)) ..<
     unat (ba_start (fv_inode_allocator f)) + unat (ba_size (fv_inode_allocator f))}"

definition table_area :: "format_v1 \<Rightarrow> nat set" where
  "table_area f = {unat (ih_inode_table_start (fv_inode_handler f)) ..<
     unat (ih_inode_table_start (fv_inode_handler f)) + unat (ih_inode_table_blocks (fv_inode_handler f))}"

definition data_area :: "format_v1 \<Rightarrow> nat set" where
  "data_area f = {a. unat (ih_data_start (fv_inode_handler f)) \<le> a}"

lemma areas_disjoint:
  assumes "mounted f bs"
  shows "0 \<notin> inode_bitmap_area f" "0 \<notin> block_bitmap_area f" "0 \<notin> table_area f" "0 \<notin> data_area f"
    "inode_bitmap_area f \<inter> block_bitmap_area f = {}" "inode_bitmap_area f \<inter> table_area f = {}"
    "inode_bitmap_area f \<inter> data_area f = {}" "block_bitmap_area f \<inter> table_area f = {}"
    "block_bitmap_area f \<inter> data_area f = {}" "table_area f \<inter> data_area f = {}"
proof -
  let ?ib = "fv_inode_allocator f" and ?bb = "fv_block_allocator f" and ?h = "fv_inode_handler f"
  have "1 \<le> unat (ba_start ?ib)" "unat (ba_start ?ib) + unat (ba_size ?ib) \<le> unat (ba_start ?bb)"
    "unat (ba_start ?bb) + unat (ba_size ?bb) \<le> unat (ih_inode_table_start ?h)"
    "unat (ih_inode_table_start ?h) + unat (ih_inode_table_blocks ?h) \<le> unat (ih_data_start ?h)"
    using mounted_fields [OF assms] by (simp_all add: alloc_on_def)
  then show "0 \<notin> inode_bitmap_area f" "0 \<notin> block_bitmap_area f" "0 \<notin> table_area f" "0 \<notin> data_area f"
    "inode_bitmap_area f \<inter> block_bitmap_area f = {}" "inode_bitmap_area f \<inter> table_area f = {}"
    "inode_bitmap_area f \<inter> data_area f = {}" "block_bitmap_area f \<inter> table_area f = {}"
    "block_bitmap_area f \<inter> data_area f = {}" "table_area f \<inter> data_area f = {}"
    unfolding block_bitmap_area_def inode_bitmap_area_def table_area_def data_area_def
    by (simp_all add: disjoint_iff)
qed

lemma in_areas:
  "data_addr (fv_inode_handler f) r \<in> data_area f"
  "unat n < inode_count (fv_inode_handler f) \<Longrightarrow> slot_block (fv_inode_handler f) n \<in> table_area f"
  by (auto simp: data_area_def data_addr_def table_area_def slot_block_def)

lemma bits_frame:
  assumes "\<And>a. a \<in> block_bitmap_area f \<Longrightarrow> bs' ! a = bs ! a" "x < unat (ba_size (fv_block_allocator f)) * 2048"
  shows "bit_at (fv_block_allocator f) bs' x = bit_at (fv_block_allocator f) bs x"
  using assms(1) [of "unat (ba_start (fv_block_allocator f)) + x div 2048"] assms(2)
  by (simp add: bit_at_def block_bitmap_area_def less_mult_imp_div_less)

lemma inode_bits_frame:
  assumes "\<And>a. a \<in> inode_bitmap_area f \<Longrightarrow> bs' ! a = bs ! a" "x < unat (ba_size (fv_inode_allocator f)) * 2048"
  shows "bit_at (fv_inode_allocator f) bs' x = bit_at (fv_inode_allocator f) bs x"
  using assms(1) [of "unat (ba_start (fv_inode_allocator f)) + x div 2048"] assms(2)
  by (simp add: bit_at_def inode_bitmap_area_def less_mult_imp_div_less)

lemma inode_at_frame:
  "bs' ! slot_block h n = bs ! slot_block h n \<Longrightarrow> inode_at h bs' n = inode_at h bs n"
  by (simp add: inode_at_def)


definition super_image :: "superblock \<Rightarrow> bytes" where
  "super_image sb = splice zero_block 0 (concat (superblock_fields sb))"

lemma length_super_image [simp]: "length (super_image sb) = BLOCK_SIZE"
  by (simp add: super_image_def BLOCK_SIZE_def del: length_concat)

lemma mounted_pos: "mounted f bs \<Longrightarrow> 0 < length bs"
  using mounted_fields(5-8) [of f bs] by linarith

lemma mounted_length: "length bs' = length bs \<Longrightarrow> mounted f bs' = mounted f bs"
  by (simp add: mounted_def)

context block_device
begin

lemma write_superblock_execs:
  assumes "0 < length bs"
  shows "fs_execs inv blks (write_superblock ops) f bs (Ok ()) f (bs[0 := super_image (fv_superblock f)])"
  using assms write_execs [of 0 bs "super_image (fv_superblock f)"]
  unfolding write_superblock_def
  by (intro fs_bind_self) (simp add: superblock_serialize_eq super_image_def [symmetric] dev_execs)

end


section \<open>Free blocks ahead of the last allocation\<close>

definition ahead :: "bitmap_allocator \<Rightarrow> bytes list \<Rightarrow> nat list" where
  "ahead al bs = filter (\<lambda>x. x < unat (ba_max_index al) \<and> \<not> bit_at al bs x)
     [8 * (unat (ba_last_alloc al) div 8)..<unat (ba_size al) * 2048]"

lemma in_ahead:
  "x \<in> set (ahead al bs) \<longleftrightarrow> 8 * (unat (ba_last_alloc al) div 8) \<le> x \<and> x < unat (ba_size al) * 2048 \<and>
     x < unat (ba_max_index al) \<and> \<not> bit_at al bs x"
  by (auto simp: ahead_def)

lemma ahead_props:
  "sorted (ahead al bs)" "distinct (ahead al bs)"
  "x \<in> set (ahead al bs) \<Longrightarrow> x < unat (ba_max_index al) \<and> \<not> bit_at al bs x \<and> x < unat (ba_size al) * 2048"
  by (auto simp: ahead_def sorted_wrt_filter)

lemma unat_of_ahead:
  assumes "x \<in> set (ahead al bs)"
  shows "unat (of_nat x :: u32) = x"
  using ahead_props(3) [OF assms] unat_u32_bound [of "ba_max_index al"] by (intro unat_u32_of_nat) linarith

lemma unat_image_ahead:
  "set xs \<subseteq> set (ahead al bs) \<Longrightarrow> map (unat :: u32 \<Rightarrow> nat) (map of_nat xs) = xs"
  by (induction xs) (auto simp: unat_of_ahead)

lemma ahead_allocate:
  assumes wf: "wf_blocks bs" "bitmap_ok al (length bs)" and k: "k \<le> length (ahead al bs)"
  defines "xs \<equiv> map of_nat (take k (ahead al bs)) :: u32 list"
  shows "ahead (if xs = [] then al else al\<lparr>ba_last_alloc := last xs\<rparr>) (foldl (upd_bit al set_op) bs xs) =
    drop k (ahead al bs)"
proof (cases "k = 0")
  case False
  let ?A = "ahead al bs"
  have sub: "set (take k ?A) \<subseteq> set ?A" by (rule set_take_subset)
  have xs: "map unat xs = take k ?A" unfolding xs_def by (rule unat_image_ahead [OF sub])
  have ne: "xs \<noteq> []" "take k ?A \<noteq> []" using False k by (auto simp: xs_def)
  have l: "unat (last xs) = last (take k ?A)" using xs ne by (metis last_map)
  have sz: "\<forall>b \<in> set xs. unat b < unat (ba_size al) * 2048"
    using sub ahead_props(3) by (metis (no_types, lifting) image_eqI list.set_map subset_code(1) xs)
  have bit: "bit_at (al\<lparr>ba_last_alloc := v\<rparr>) b x = bit_at al b x" for v b x by (simp add: bit_at_def)
  let ?bs = "foldl (upd_bit al set_op) bs xs" let ?al = "al\<lparr>ba_last_alloc := last xs\<rparr>"
  have new: "bit_at ?al ?bs x \<longleftrightarrow> x \<in> set (take k ?A) \<or> bit_at al bs x" for x
    using upd_bits_fold(1) [OF wf sz, of x] xs by (metis bit list.set_map)
  have split: "sorted (take k ?A @ drop k ?A)" "distinct (take k ?A @ drop k ?A)" using ahead_props by simp_all
  have "set (ahead ?al ?bs) = set (drop k ?A)"
  proof (intro set_eqI iffI)
    fix x assume "x \<in> set (ahead ?al ?bs)"
    then have x: "8 * (last (take k ?A) div 8) \<le> x" "x < unat (ba_size al) * 2048" "x < unat (ba_max_index al)"
      "x \<notin> set (take k ?A)" "\<not> bit_at al bs x"
      using new l by (simp_all add: in_ahead)
    have "last (take k ?A) \<in> set ?A" using ne sub last_in_set by blast
    then have "8 * (unat (ba_last_alloc al) div 8) \<le> last (take k ?A)"
      unfolding in_ahead by blast
    from div_le_mono [OF this, of 8]
    have "8 * (unat (ba_last_alloc al) div 8) \<le> 8 * (last (take k ?A) div 8)" by simp
    then have "x \<in> set ?A" using x unfolding in_ahead by linarith
    with x(4) show "x \<in> set (drop k ?A)" by (metis Un_iff append_take_drop_id set_append)
  next
    fix x assume x: "x \<in> set (drop k ?A)"
    then have A: "x \<in> set ?A" by (rule in_set_dropD)
    have "x \<notin> set (take k ?A)" using split(2) x unfolding distinct_append by blast
    moreover have "last (take k ?A) \<le> x" using split(1) ne(2) x unfolding sorted_append by (metis last_in_set)
    then have "8 * (last (take k ?A) div 8) \<le> x" by (metis div_mult_mod_eq le_add1 le_trans mult.commute)
    ultimately show "x \<in> set (ahead ?al ?bs)" using ahead_props(3) [OF A] new l by (simp add: in_ahead)
  qed
  moreover have "sorted (drop k ?A)" "distinct (drop k ?A)" using ahead_props by (simp_all add: sorted_wrt_drop)
  ultimately have "ahead ?al ?bs = drop k ?A" by (metis ahead_props(1,2) sorted_distinct_set_unique)
  with ne show ?thesis by simp
qed (simp add: xs_def)

context block_device
begin

lemma find_free_ahead_execs:
  assumes "bitmap_ok al (length bs)" "unat (ba_last_alloc al) < unat (ba_size al) * 2048" "unat n \<le> length (ahead al bs)"
  shows "execs inv blks (find_free ops al n) bs (Ok (map of_nat (take (unat n) (ahead al bs)))) bs"
proof -
  have "take (unat n) (filter (\<lambda>x. x < unat (ba_max_index al) \<and> \<not> bit_at al bs x) (find_order al)) = take (unat n) (ahead al bs)"
    using assms(3) by (simp add: find_order_def ahead_def Let_def)
  then show ?thesis using find_free_execs [OF assms(1,2), of n] by simp
qed

end

end
