(* ===== verification/File_Contents.thy ===== *)
theory File_Contents
  imports Volume
begin

text \<open>
  Reading and writing open files. \<open>file_data\<close> is the sequence of the bytes of the data blocks of an
  inode and \<open>content\<close> its first \<open>size\<close> bytes; \<open>fs_read\<close> and \<open>fs_write\<close> are specified by them.
\<close>

section \<open>The bytes of a file\<close>

definition file_data :: "inode_table_handler \<Rightarrow> bytes list \<Rightarrow> inode \<Rightarrow> bytes" where
  "file_data h bs i = concat (map (\<lambda>r. bs ! data_addr h r) (inode_blocks h bs i))"

definition content :: "inode_table_handler \<Rightarrow> bytes list \<Rightarrow> inode \<Rightarrow> bytes" where
  "content h bs i = take (unat (in_size i)) (file_data h bs i)"

text \<open>An inode whose blocks \<open>read\<close> and \<open>write\<close> accept.\<close>

definition file_ok :: "format_v1 \<Rightarrow> bytes list \<Rightarrow> inode \<Rightarrow> bool" where
  "file_ok f bs i \<longleftrightarrow>
     inode_wf i \<and> meta_ok (fv_inode_handler f) bs i \<and>
     sb_data_start (fv_superblock f) = ih_data_start (fv_inode_handler f) \<and>
     (\<forall>r \<in> set (inode_blocks (fv_inode_handler f) bs i).
        r \<noteq> INVALID_ADDRESS \<and> r \<le> max_index (fv_block_allocator f) \<and>
        data_addr (fv_inode_handler f) r < length bs) \<and>
     unat (in_size i) \<le> unat (in_blocks i) * BLOCK_SIZE"

lemma slice_concat:
  assumes "\<forall>b \<in> set xs. length b = m" "k < length xs" "j + n \<le> m"
  shows "slice (concat xs) (k * m + j) n = slice (xs ! k) j n"
  using assms
proof (induction xs arbitrary: k)
  case (Cons x xs)
  show ?case
  proof (cases k)
    case 0
    then show ?thesis using Cons.prems by (simp add: slice_def)
  next
    case (Suc k')
    have "slice (concat (x # xs)) (k * m + j) n = slice (concat xs) (k' * m + j) n"
      using Cons.prems(1) Suc by (simp add: slice_def)
    also have "\<dots> = slice (xs ! k') j n" using Cons Suc by (intro Cons.IH) auto
    finally show ?thesis using Suc by simp
  qed
qed simp

lemma splice_concat:
  assumes "\<forall>b \<in> set xs. length b = m" "k < length xs" "j + length ys \<le> m"
  shows "splice (concat xs) (k * m + j) ys = concat (xs[k := splice (xs ! k) j ys])"
  using assms
proof (induction xs arbitrary: k)
  case (Cons x xs)
  show ?case
  proof (cases k)
    case 0
    then show ?thesis using Cons.prems by (simp add: splice_def)
  next
    case (Suc k')
    have "splice (concat (x # xs)) (k * m + j) ys = x @ splice (concat xs) (k' * m + j) ys"
      using Cons.prems(1) Suc by (simp add: splice_def add.assoc)
    also have "splice (concat xs) (k' * m + j) ys = concat (xs[k' := splice (xs ! k') j ys])"
      using Cons Suc by (intro Cons.IH) auto
    finally show ?thesis using Suc by simp
  qed
qed simp

lemma slice_append: "slice xs a m @ slice xs (a + m) n = slice xs a (m + n)"
  by (simp add: slice_def take_add add.commute)

lemma length_concat_const: "\<forall>b \<in> set xs. length b = m \<Longrightarrow> length (concat xs) = length xs * m"
  by (induction xs) auto

lemma file_blocks_wf:
  assumes "wf_blocks bs" "\<forall>r \<in> set (inode_blocks h bs i). data_addr h r < length bs"
  shows "\<forall>b \<in> set (map (\<lambda>r. bs ! data_addr h r) (inode_blocks h bs i)). length b = BLOCK_SIZE"
    "length (file_data h bs i) = unat (in_blocks i) * BLOCK_SIZE"
proof -
  show wf: "\<forall>b \<in> set (map (\<lambda>r. bs ! data_addr h r) (inode_blocks h bs i)). length b = BLOCK_SIZE"
    using assms by auto
  show "length (file_data h bs i) = unat (in_blocks i) * BLOCK_SIZE"
    unfolding file_data_def using length_concat_const [OF wf] by simp
qed

lemma data_slice:
  assumes "wf_blocks bs" "\<forall>r \<in> set (inode_blocks h bs i). data_addr h r < length bs"
    and "off div BLOCK_SIZE < unat (in_blocks i)" "off mod BLOCK_SIZE + n \<le> BLOCK_SIZE"
  shows "slice (bs ! data_addr h (inode_blocks h bs i ! (off div BLOCK_SIZE))) (off mod BLOCK_SIZE) n =
    slice (file_data h bs i) off n"
  using slice_concat [OF file_blocks_wf(1) [OF assms(1,2)], of "off div BLOCK_SIZE" "off mod BLOCK_SIZE" n] assms(3,4)
  unfolding file_data_def by simp


section \<open>Reading\<close>

definition with_offset :: "format_v1 \<Rightarrow> u32 \<Rightarrow> file_metadata \<Rightarrow> u64 \<Rightarrow> format_v1" where
  "with_offset f file_id m off = f\<lparr>fv_open_files := (fv_open_files f)(file_id \<mapsto> m\<lparr>fm_offset := off\<rparr>)\<rparr>"

lemma with_offset_simps [simp]:
  "fv_superblock (with_offset f k m o') = fv_superblock f"
  "fv_inode_handler (with_offset f k m o') = fv_inode_handler f"
  "fv_block_allocator (with_offset f k m o') = fv_block_allocator f"
  "fv_open_files (with_offset f k m o') k = Some (m\<lparr>fm_offset := o'\<rparr>)"
  "fv_inode_allocator (with_offset f k m o') = fv_inode_allocator f"
  "fv_directory_handler (with_offset f k m o') = fv_directory_handler f"
  "fv_next_file_id (with_offset f k m o') = fv_next_file_id f"
  by (simp_all add: with_offset_def)

lemma with_offset_same: "fv_open_files f k = Some m \<Longrightarrow> with_offset f k m (fm_offset m) = f"
  by (simp add: with_offset_def map_upd_triv)

lemma set_offset_execs:
  "fs_execs dinv blks (set_offset k o') (with_offset f k m off) bs (Ok ()) (with_offset f k m o') bs"
  using update_execs [of dinv blks "\<lambda>f. f\<lparr>fv_open_files :=
       (fv_open_files f)(k := map_option (\<lambda>m. m\<lparr>fm_offset := o'\<rparr>) (fv_open_files f k))\<rparr>" "with_offset f k m off" bs]
  by (simp add: set_offset_def with_offset_def)

lemma fs_bind_set_offset:
  "fs_execs dinv blks (g ()) (with_offset f k m o') bs r f' bs' \<Longrightarrow>
   fs_execs dinv blks (bindM (set_offset k o') g) (with_offset f k m off) bs r f' bs'"
  by (rule execs_bind [OF set_offset_execs])

lemma data_address_ok:
  assumes "file_ok f bs i" "r \<in> set (inode_blocks (fv_inode_handler f) bs i)" "length bs < 4294967296"
  shows "data_address f i block r = Ok (ih_data_start (fv_inode_handler f) + r)"
  using assms data_addr_word(1) [of "fv_inode_handler f" r "length bs"]
  by (auto simp: data_address_def file_ok_def not_less [symmetric])

lemma unat_of_nat_le: "n \<le> unat (x :: 'a::len word) \<Longrightarrow> unat (of_nat n :: 'a word) = n"
proof -
  assume "n \<le> unat x"
  then have "n < 2 ^ LENGTH('a)" by (rule le_less_trans) (rule unsigned_less)
  then show ?thesis by (simp add: unat_of_nat take_bit_nat_eq_self)
qed

lemma data_address_with_offset [simp]: "data_address (with_offset f k m o') i b r = data_address f i b r"
  by (simp add: data_address_def)

definition opened :: "format_v1 \<Rightarrow> bytes list \<Rightarrow> u32 \<Rightarrow> file_metadata \<Rightarrow> inode \<Rightarrow> bool" where
  "opened f bs k m i \<longleftrightarrow>
     fv_open_files f k = Some m \<and> table_ok (fv_inode_handler f) (length bs) \<and>
     unat (fm_inode m) < inode_count (fv_inode_handler f) \<and>
     inode_at (fv_inode_handler f) bs (fm_inode m) = Ok i \<and> file_ok f bs i"

text \<open>
  A position in a file: the block and the offset in it that the loops keep for \<open>off\<close>. One iteration
  transfers \<open>t\<close> bytes, within the block, and goes on at the start of the next one.
\<close>

definition cursor :: "u64 \<Rightarrow> u32 \<Rightarrow> nat \<Rightarrow> bool" where
  "cursor off block in_off \<longleftrightarrow> unat block = unat off div BLOCK_SIZE \<and> in_off = unat off mod BLOCK_SIZE"

lemma cursor_less: "cursor off block in_off \<Longrightarrow> in_off < BLOCK_SIZE"
  by (simp add: cursor_def BLOCK_SIZE_def)

lemma cursor_step:
  fixes nb :: u32
  assumes c: "cursor off block in_off" and q: "unat off div BLOCK_SIZE < unat nb" and small: "unat off + t < 18446744073709551616"
  shows "addW block 1 = Ok (block + 1)" "addW off (of_nat t) = Ok (off + of_nat t)" "unat (off + of_nat t) = unat off + t"
    "t = BLOCK_SIZE - in_off \<Longrightarrow> cursor (off + of_nat t) (block + 1) 0"
proof -
  have "unat off div BLOCK_SIZE < 4294967295" using q unat_u32_bound [of nb] by linarith
  then have blk: "addW block 1 = Ok (block + 1)" "unat (block + 1) = unat off div BLOCK_SIZE + 1"
    using c unat_add_small [of block 1] by (simp_all add: cursor_def addW_def)
  have "unat (of_nat t :: u64) = t" using small by (intro unat_u64_of_nat) simp
  then show "addW off (of_nat t) = Ok (off + of_nat t)" and off: "unat (off + of_nat t) = unat off + t"
    using small unat_add_small [of off "of_nat t"] by (simp_all add: addW_def)
  show "addW block 1 = Ok (block + 1)" by (rule blk(1))
  show "cursor (off + of_nat t) (block + 1) 0" if "t = BLOCK_SIZE - in_off"
  proof -
    have "unat off + t = unat off div BLOCK_SIZE * BLOCK_SIZE + BLOCK_SIZE"
      using that cursor_less [OF c] c div_mult_mod_eq [of "unat off" BLOCK_SIZE] unfolding cursor_def by linarith
    then show ?thesis using off blk(2) cursor_less [OF c] by (simp add: cursor_def)
  qed
qed

text \<open>Two consecutive pieces are one.\<close>

lemma splice_slices:
  assumes "t \<le> n" "rd + n \<le> length buf" "off + n \<le> length D"
  shows "splice (splice buf rd (slice D off t)) (rd + t) (slice D (off + t) (n - t)) = splice buf rd (slice D off n)"
proof -
  have "length (slice D off t) = t" "length (slice D (off + t) (n - t)) = n - t" using assms by simp_all
  with splice_append [of rd "slice D off t" "slice D (off + t) (n - t)" buf] slice_append [of D off t "n - t"] assms
  show ?thesis by simp
qed

context block_device
begin

text \<open>The block of a file at a position: its address, and that it can be read.\<close>

lemma block_of_file:
  assumes ok: "file_ok f bs i" and wf: "wf_blocks bs" "length bs < 4294967296" and q: "unat block < unat (in_blocks i)"
  defines "h \<equiv> fv_inode_handler f"
  defines "r \<equiv> inode_blocks h bs i ! unat block"
  shows "execs inv blks (get_block ops h i block) bs (Ok r) bs" "data_address f i block r = Ok (ih_data_start h + r)"
    "data_addr h r < length bs" "length (bs ! data_addr h r) = BLOCK_SIZE"
proof -
  have ok': "inode_wf i" "meta_ok h bs i" "\<forall>r \<in> set (inode_blocks h bs i). data_addr h r < length bs"
    using ok by (auto simp: file_ok_def h_def)
  have r: "r \<in> set (inode_blocks h bs i)" using q by (simp add: r_def)
  show "execs inv blks (get_block ops h i block) bs (Ok r) bs"
    using get_block_execs [OF ok'(1,2), of block] q by (simp add: word_less_nat_alt r_def)
  show "data_address f i block r = Ok (ih_data_start h + r)"
    using data_address_ok [OF ok r [unfolded h_def] wf(2), of block] by (simp add: h_def)
  show "data_addr h r < length bs" using r ok'(3) by blast
  then show "length (bs ! data_addr h r) = BLOCK_SIZE" using wf(1) by simp
qed

text \<open>One iteration of the loop of \<open>read\<close>.\<close>

lemma read_step_execs:
  assumes ok: "file_ok f bs i" and wf: "wf_blocks bs" "length bs < 4294967296"
    and rd: "rd < length buf" "off < in_size i" and c: "cursor off block in_off"
  defines "h \<equiv> fv_inode_handler f"
  defines "t \<equiv> min (min (BLOCK_SIZE - in_off) (length buf - rd)) (unat (in_size i) - unat off)"
  assumes step: "fs_execs inv blks (read_loop fuel ops k i (splice buf rd (slice (file_data h bs i) (unat off) t)) (rd + t) (block + 1) 0)
      (with_offset f k m (off + of_nat t)) bs res f' bs'"
  shows "fs_execs inv blks (read_loop (Suc fuel) ops k i buf rd block in_off) (with_offset f k m off) bs res f' bs'"
proof -
  have sz: "\<forall>r \<in> set (inode_blocks h bs i). data_addr h r < length bs" "unat (in_size i) \<le> unat (in_blocks i) * BLOCK_SIZE"
    using ok by (auto simp: file_ok_def h_def)
  have lt: "unat off < unat (in_size i)" using rd(2) by (simp add: word_less_nat_alt)
  have q: "unat off div BLOCK_SIZE < unat (in_blocks i)" using lt sz(2) by (simp add: less_mult_imp_div_less)
  note io = cursor_less [OF c]
  have t: "t \<le> length buf - rd" "t \<le> unat (in_size i) - unat off" "in_off + t \<le> BLOCK_SIZE" using io by (simp_all add: t_def)
  let ?r = "inode_blocks h bs i ! unat block" let ?D = "file_data h bs i"
  have q': "unat block < unat (in_blocks i)" using q c by (simp add: cursor_def)
  note B = block_of_file [OF ok wf q', folded h_def]
  have chunk: "sliceR (bs ! data_addr h ?r) in_off t = Ok (slice ?D (unat off) t)"
    using data_slice [OF wf(1) sz(1) q, of t] t(3) B(4) c by (simp add: sliceR_def cursor_def)
  have "unat off + t \<le> length ?D" using t(2) lt sz(2) file_blocks_wf(2) [OF wf(1) sz(1)] by simp
  then have sp: "spliceR buf rd (slice ?D (unat off) t) = Ok (splice buf rd (slice ?D (unat off) t))"
    using t(1) rd(1) by (simp add: spliceR_def)
  have "unat off + t < 18446744073709551616" using t(2) lt unat_u64_bound [of "in_size i"] by linarith
  note C = cursor_step [OF c q this]
  have subN: "subN BLOCK_SIZE in_off = Ok (BLOCK_SIZE - in_off)" using io by (simp add: subN_def)
  have tt: "min (min (BLOCK_SIZE - in_off) (length buf - rd)) (unat (in_size i - off)) = t"
    using lt by (simp add: t_def unat_sub_small)
  have tail: "fs_execs inv blks (bindM (liftM (sliceR (bs ! data_addr h ?r) in_off t)) (\<lambda>chunk.
       bindM (liftM (spliceR buf rd chunk)) (\<lambda>buf.
       bindM (liftM (addW block 1)) (\<lambda>block.
       bindM (liftM (addW off (of_nat t))) (\<lambda>offset.
       bindM (set_offset k offset) (\<lambda>_.
       read_loop fuel ops k i buf (rd + t) block 0)))))) (with_offset f k m off) bs res f' bs'"
    unfolding chunk sp C(1,2) bindM_liftM_Ok by (rule fs_bind_set_offset [OF step])
  show ?thesis
    unfolding read_loop.simps
    by (rule fs_bind_self, simp add: unwrap_def rd h_def [symmetric], rule fs_bind_dev [OF B(1)], simp add: B(2),
        rule fs_bind_dev [OF read_data_execs [OF B(3) wf(2)]], simp only: subN Let_def tt bindM_liftM_Ok, rule tail)
qed

lemma read_loop_execs:
  assumes ok: "file_ok f bs i" and wf: "wf_blocks bs" "length bs < 4294967296"
  defines "h \<equiv> fv_inode_handler f"
  shows "length buf - rd < fuel \<Longrightarrow> rd \<le> length buf \<Longrightarrow> (rd < length buf \<and> off < in_size i \<longrightarrow> cursor off block in_off) \<Longrightarrow>
    n = min (length buf - rd) (unat (in_size i) - unat off) \<Longrightarrow>
    fs_execs inv blks (read_loop fuel ops k i buf rd block in_off) (with_offset f k m off) bs
      (Ok (rd + n, splice buf rd (slice (file_data h bs i) (unat off) n))) (with_offset f k m (off + of_nat n)) bs"
proof (induction fuel arbitrary: buf rd block in_off off n)
  case (Suc fuel)
  have sz: "\<forall>r \<in> set (inode_blocks h bs i). data_addr h r < length bs" "unat (in_size i) \<le> unat (in_blocks i) * BLOCK_SIZE"
    using ok by (auto simp: file_ok_def h_def)
  show ?case
  proof (cases "rd < length buf \<and> off < in_size i")
    case False
    then have n: "n = 0" using Suc.prems by (auto simp: word_less_nat_alt)
    have "fs_execs inv blks (read_loop (Suc fuel) ops k i buf rd block in_off) (with_offset f k m off) bs
      (Ok (rd, buf)) (with_offset f k m off) bs"
      using False by (auto simp: unwrap_def intro!: fs_execs_intros)
    then show ?thesis using n Suc.prems(2) by (simp add: slice_def)
  next
    case True
    define t where "t = min (min (BLOCK_SIZE - in_off) (length buf - rd)) (unat (in_size i) - unat off)"
    have c: "cursor off block in_off" using True Suc.prems(3) by blast
    have lt: "unat off < unat (in_size i)" using True by (simp add: word_less_nat_alt)
    then have q: "unat off div BLOCK_SIZE < unat (in_blocks i)" using sz(2) by (simp add: less_mult_imp_div_less)
    have t: "0 < t" "t \<le> length buf - rd" "t \<le> unat (in_size i) - unat off" using True lt cursor_less [OF c] by (simp_all add: t_def)
    have "unat off + t < 18446744073709551616" using t(3) lt unat_u64_bound [of "in_size i"] by linarith
    note C = cursor_step [OF c q this]
    let ?D = "file_data h bs i" and ?n = "n - t"
    let ?buf = "splice buf rd (slice ?D (unat off) t)"
    have D: "unat (in_size i) \<le> length ?D" using sz(2) file_blocks_wf(2) [OF wf(1) sz(1)] by simp
    then have lb: "length ?buf = length buf" using t(2,3) Suc.prems(2) lt by simp
    have n: "t \<le> n" "n \<le> length buf - rd" "unat off + n \<le> length ?D" using t(2,3) Suc.prems(4) D lt by simp_all
    have n': "?n = min (length ?buf - (rd + t)) (unat (in_size i) - unat (off + of_nat t))"
      by (simp only: Suc.prems(4) lb C(3) min_diff [symmetric] diff_diff_left)
    have "cursor (off + of_nat t) (block + 1) 0" if "rd + t < length ?buf" "off + of_nat t < in_size i"
      using that lb C(3) by (intro C(4)) (auto simp: t_def word_less_nat_alt min_def split: if_splits)
    then have "fs_execs inv blks (read_loop fuel ops k i ?buf (rd + t) (block + 1) 0) (with_offset f k m (off + of_nat t)) bs
      (Ok (rd + t + ?n, splice ?buf (rd + t) (slice ?D (unat (off + of_nat t)) ?n))) (with_offset f k m (off + of_nat t + of_nat ?n)) bs"
      using Suc.prems(1,2) t(1,2) lb n' by (intro Suc.IH) auto
    moreover have "splice ?buf (rd + t) (slice ?D (unat (off + of_nat t)) ?n) = splice buf rd (slice ?D (unat off) n)"
      unfolding C(3) using n Suc.prems(2) by (intro splice_slices) simp_all
    moreover have "off + of_nat t + of_nat ?n = off + of_nat n" "rd + t + ?n = rd + n" using n(1) by (simp_all add: of_nat_diff)
    ultimately show ?thesis
      by (intro read_step_execs [OF ok wf conjunct1 [OF True] conjunct2 [OF True] c, folded h_def, folded t_def]) (simp only:)
  qed
qed simp

lemma read_opened:
  assumes "opened f bs k m i"
  shows "execs inv blks (read_inode ops (fv_inode_handler f) (fm_inode m)) bs (Ok i) bs"
  using read_inode_execs [of "fv_inode_handler f" bs "fm_inode m"] assms by (auto simp: opened_def)

lemma fs_read_execs:
  assumes op: "opened f bs (fh_id file) m i" and buf: "buf \<noteq> []"
    and n: "n = min (length buf) (unat (in_size i) - unat (fm_offset m))"
  shows "fs_execs inv blks (fs_read ops file buf) f bs
    (Ok (n, splice buf 0 (slice (file_data (fv_inode_handler f) bs i) (unat (fm_offset m)) n)))
    (with_offset f (fh_id file) m (fm_offset m + of_nat n)) bs"
proof (rule fs_execs_wf)
  assume wf: "wf_blocks bs" "length bs < 4294967296"
  have op': "fv_open_files f (fh_id file) = Some m" "file_ok f bs i" using op by (auto simp: opened_def)
  let ?off = "unat (fm_offset m)"
  let ?b = "ucast (fm_offset m div of_nat BLOCK_SIZE) :: u32"
  have pos: "unat ?b = ?off div BLOCK_SIZE" if "fm_offset m < in_size i"
  proof -
    have d: "unat (fm_offset m div of_nat BLOCK_SIZE) = ?off div BLOCK_SIZE" by (simp add: unat_div BLOCK_SIZE_def)
    have "?off < unat (in_size i)" "unat (in_size i) \<le> unat (in_blocks i) * BLOCK_SIZE"
      using that op'(2) by (auto simp: file_ok_def word_less_nat_alt)
    then have "?off div BLOCK_SIZE < unat (in_blocks i)" by (simp add: less_mult_imp_div_less)
    then have "?off div BLOCK_SIZE < 4294967296" using unat_u32_bound [of "in_blocks i"] by linarith
    then show ?thesis using d by (simp add: unsigned_ucast_eq take_bit_nat_eq_self)
  qed
  have loop: "fs_execs inv blks (read_loop (Suc (length buf)) ops (fh_id file) i buf 0 ?b (?off mod BLOCK_SIZE))
     (with_offset f (fh_id file) m (fm_offset m)) bs
     (Ok (0 + n, splice buf 0 (slice (file_data (fv_inode_handler f) bs i) ?off n)))
     (with_offset f (fh_id file) m (fm_offset m + of_nat n)) bs"
    using pos n by (intro read_loop_execs [OF op'(2) wf]) (auto simp: cursor_def)
  have sz: "\<not> unat (in_blocks i) * BLOCK_SIZE < unat (in_size i)" using op'(2) by (simp add: file_ok_def)
  show "fs_execs inv blks (fs_read ops file buf) f bs
    (Ok (n, splice buf 0 (slice (file_data (fv_inode_handler f) bs i) ?off n)))
    (with_offset f (fh_id file) m (fm_offset m + of_nat n)) bs"
    unfolding fs_read_def
    using loop by (intro fs_bind_self) (simp add: op'(1) buf del: read_loop.simps,
      rule fs_bind_dev [OF read_opened [OF op]], simp add: sz with_offset_same [OF op'(1)] del: read_loop.simps)
qed

end


section \<open>Writing\<close>

text \<open>
  \<open>overwrites h bs i bs' off ys\<close>: \<open>bs'\<close> is \<open>bs\<close> with the bytes \<open>ys\<close> at offset \<open>off\<close> of the data of
  \<open>i\<close>, and no block outside that data changed.
\<close>

definition file_sep :: "inode_table_handler \<Rightarrow> bytes list \<Rightarrow> inode \<Rightarrow> bool" where
  "file_sep h bs i \<longleftrightarrow>
     distinct (inode_blocks h bs i) \<and> (\<forall>r \<in> set (inode_blocks h bs i). data_addr h r \<notin> set (meta_blocks h bs i))"

definition overwrites :: "inode_table_handler \<Rightarrow> bytes list \<Rightarrow> inode \<Rightarrow> bytes list \<Rightarrow> nat \<Rightarrow> bytes \<Rightarrow> bool" where
  "overwrites h bs i bs' off ys \<longleftrightarrow>
     length bs' = length bs \<and> wf_blocks bs' \<and> file_data h bs' i = splice (file_data h bs i) off ys \<and>
     inode_blocks h bs' i = inode_blocks h bs i \<and> meta_blocks h bs' i = meta_blocks h bs i \<and>
     (\<forall>a. a \<notin> data_addr h ` set (inode_blocks h bs i) \<longrightarrow> bs' ! a = bs ! a)"

lemma overwrites_ok:
  assumes "overwrites (fv_inode_handler f) bs i bs' off ys"
  shows "file_ok f bs' i = file_ok f bs i" "file_sep (fv_inode_handler f) bs' i = file_sep (fv_inode_handler f) bs i"
  using assms by (simp_all add: overwrites_def file_ok_def file_sep_def meta_ok_def)

lemma overwrites_refl: "wf_blocks bs \<Longrightarrow> off \<le> length (file_data h bs i) \<Longrightarrow> overwrites h bs i bs off []"
  by (simp add: overwrites_def)

lemma overwrites_append:
  assumes "overwrites h bs i bs1 off xs" "overwrites h bs1 i bs2 (off + length xs) ys"
    "off + length xs + length ys \<le> length (file_data h bs i)"
  shows "overwrites h bs i bs2 off (xs @ ys)"
  using assms by (auto simp: overwrites_def splice_append)

lemma overwrites_block:
  assumes wf: "wf_blocks bs" and ok: "\<forall>r \<in> set (inode_blocks h bs i). data_addr h r < length bs" and sep: "file_sep h bs i"
    and q: "off div BLOCK_SIZE < unat (in_blocks i)" and n: "off mod BLOCK_SIZE + length ys \<le> BLOCK_SIZE"
  defines "a \<equiv> data_addr h (inode_blocks h bs i ! (off div BLOCK_SIZE))"
  shows "overwrites h bs i (bs[a := splice (bs ! a) (off mod BLOCK_SIZE) ys]) off ys"
proof -
  let ?rs = "inode_blocks h bs i" let ?q = "off div BLOCK_SIZE"
  let ?bs = "bs[a := splice (bs ! a) (off mod BLOCK_SIZE) ys]"
  have r: "?rs ! ?q \<in> set ?rs" using q by simp
  have meta: "b \<in> set (meta_blocks h bs i) \<Longrightarrow> ?bs ! b = bs ! b" for b
    using sep r by (cases "b = a") (auto simp: file_sep_def a_def)
  have same: "inode_blocks h ?bs i = ?rs" "meta_blocks h ?bs i = meta_blocks h bs i"
    by (rule inode_blocks_frame [OF meta], assumption) (rule meta_blocks_frame [OF meta], assumption)
  have inj: "data_addr h (?rs ! k) = a \<longleftrightarrow> k = ?q" if "k < length ?rs" for k
    using that q sep by (auto simp: a_def data_addr_def file_sep_def nth_eq_iff_index_eq word_unat_eq_iff [symmetric])
  have "a < length bs" using ok r by (auto simp: a_def)
  then have "?bs ! data_addr h (?rs ! k) = (if k = ?q then splice (bs ! a) (off mod BLOCK_SIZE) ys else bs ! data_addr h (?rs ! k))"
    if "k < length ?rs" for k
    using inj [OF that] by (cases "data_addr h (?rs ! k) = a") simp_all
  then have "map (\<lambda>r. ?bs ! data_addr h r) ?rs =
      (map (\<lambda>r. bs ! data_addr h r) ?rs)[?q := splice (map (\<lambda>r. bs ! data_addr h r) ?rs ! ?q) (off mod BLOCK_SIZE) ys]"
    using q by (simp add: list_eq_iff_nth_eq nth_list_update a_def)
  then have "file_data h ?bs i = splice (file_data h bs i) off ys"
    using splice_concat [OF file_blocks_wf(1) [OF wf ok], of ?q "off mod BLOCK_SIZE" ys] q n
    unfolding file_data_def same by simp
  moreover have "a \<in> data_addr h ` set ?rs" using r by (simp add: a_def)
  then have "\<forall>b. b \<notin> data_addr h ` set ?rs \<longrightarrow> ?bs ! b = bs ! b" by (metis nth_list_update_neq)
  moreover have "length (splice (bs ! a) (off mod BLOCK_SIZE) ys) = BLOCK_SIZE"
    using wf ok r n by (simp add: a_def)
  ultimately show ?thesis using same wf by (simp add: overwrites_def)
qed

context block_device
begin

text \<open>The block a write changes: read first, unless all of it is overwritten.\<close>

lemma load_block_execs:
  assumes a: "data_addr h r < length bs" "length bs < 4294967296" and len: "length (bs ! data_addr h r) = BLOCK_SIZE" "length db = BLOCK_SIZE"
    and ch: "in_off + length ch \<le> BLOCK_SIZE"
    and step: "\<And>db'. spliceR db' in_off ch = Ok (splice (bs ! data_addr h r) in_off ch) \<Longrightarrow> fs_execs inv blks (g db') f bs res f' bs'"
  shows "fs_execs inv blks (bindM (if length ch < BLOCK_SIZE then dev (read_block ops (ih_data_start h + r)) else returnM db) g) f bs res f' bs'"
proof (cases "length ch < BLOCK_SIZE")
  case True
  have "spliceR (bs ! data_addr h r) in_off ch = Ok (splice (bs ! data_addr h r) in_off ch)" using len ch by (simp add: spliceR_def)
  then show ?thesis using True by (simp only: if_True) (rule fs_bind_dev [OF read_data_execs [OF a] step])
next
  case False
  then have "in_off = 0" "length ch = BLOCK_SIZE" using ch by simp_all
  then have "spliceR db in_off ch = Ok (splice (bs ! data_addr h r) in_off ch)" using len by (simp add: spliceR_def splice_def)
  then show ?thesis using False step by simp
qed

text \<open>One iteration of the loop of \<open>write\<close>.\<close>

lemma write_step_execs:
  assumes ok: "file_ok f bs i" and wf: "wf_blocks bs" "length bs < 4294967296" and db: "length db = BLOCK_SIZE"
    and wr: "wr < length buf" "block < in_blocks i" and c: "cursor off block in_off"
  defines "h \<equiv> fv_inode_handler f" and "t \<equiv> min (BLOCK_SIZE - in_off) (length buf - wr)"
  defines "a \<equiv> data_addr h (inode_blocks h bs i ! unat block)"
  defines "new \<equiv> splice (bs ! a) in_off (slice buf wr t)"
  assumes small: "unat off + t < 18446744073709551616"
    and step: "fs_execs inv blks (write_loop fuel ops k i buf (wr + t) (block + 1) 0 new) (with_offset f k m (off + of_nat t)) (bs[a := new]) res f' bs'"
  shows "fs_execs inv blks (write_loop (Suc fuel) ops k i buf wr block in_off db) (with_offset f k m off) bs res f' bs'"
proof -
  have q: "unat block < unat (in_blocks i)" using wr(2) by (simp add: word_less_nat_alt)
  note B = block_of_file [OF ok wf q, folded h_def, folded a_def] and io = cursor_less [OF c]
  note C = cursor_step [OF c _ small, of "in_blocks i"]
  have add: "addW block 1 = Ok (block + 1)" "addW off (of_nat t) = Ok (off + of_nat t)" using C(1,2) q c by (simp_all add: cursor_def)
  let ?r = "inode_blocks h bs i ! unat block" and ?ch = "slice buf wr t"
  have cl: "length ?ch = t" using wr(1) by (simp add: t_def)
  have fits: "in_off + length ?ch \<le> BLOCK_SIZE" using io cl by (simp add: t_def)
  have nl: "length new = BLOCK_SIZE" unfolding new_def using B(4) fits by simp
  have sl: "sliceR buf wr t = Ok ?ch" using wr(1) by (simp add: sliceR_def t_def)
  have tail: "fs_execs inv blks (bindM (liftM (sliceR buf wr t)) (\<lambda>chunk.
        bindM (liftM (spliceR db' in_off chunk)) (\<lambda>device_buf.
        bindM (dev (write_block ops (ih_data_start h + ?r) device_buf)) (\<lambda>_.
        bindM (liftM (addW block 1)) (\<lambda>block.
        bindM (liftM (addW off (of_nat t))) (\<lambda>offset.
        bindM (set_offset k offset) (\<lambda>_.
        write_loop fuel ops k i buf (wr + t) block 0 device_buf))))))) (with_offset f k m off) bs res f' bs'"
    if db': "spliceR db' in_off ?ch = Ok new" for db'
    unfolding sl bindM_liftM_Ok db' add
    by (rule fs_bind_dev [OF write_data_execs [OF B(3) [unfolded a_def] wf(2) nl]], fold a_def) (rule fs_bind_set_offset [OF step])
  note load = load_block_execs [OF B(3) [unfolded a_def] wf(2) B(4) [unfolded a_def] db fits, folded a_def, folded new_def, unfolded cl]
  have subN: "subN BLOCK_SIZE in_off = Ok (BLOCK_SIZE - in_off)" using io by (simp add: subN_def)
  have cond: "wr < length buf \<and> block < in_blocks i" using wr by blast
  show ?thesis
    unfolding write_loop.simps if_P [OF cond]
    by (rule fs_bind_self, simp add: unwrap_def h_def [symmetric], rule fs_bind_dev [OF B(1)],
        simp only: B(2) subN Let_def t_def [symmetric] bindM_liftM_Ok data_address_with_offset, rule load, rule tail)
qed

lemma write_loop_execs:
  "file_ok f bs i \<Longrightarrow> file_sep (fv_inode_handler f) bs i \<Longrightarrow> wf_blocks bs \<Longrightarrow> length bs < 4294967296 \<Longrightarrow>
    length buf - wr < fuel \<Longrightarrow> wr \<le> length buf \<Longrightarrow> length db = BLOCK_SIZE \<Longrightarrow> unat off \<le> unat (in_blocks i) * BLOCK_SIZE \<Longrightarrow>
    (cursor off block in_off \<or> wr = length buf) \<Longrightarrow>
    n = min (length buf - wr) (unat (in_blocks i) * BLOCK_SIZE - unat off) \<Longrightarrow>
    \<exists>bs'. fs_execs inv blks (write_loop fuel ops k i buf wr block in_off db) (with_offset f k m off) bs
        (Ok (wr + n)) (with_offset f k m (off + of_nat n)) bs' \<and>
      overwrites (fv_inode_handler f) bs i bs' (unat off) (slice buf wr n)"
proof (induction fuel arbitrary: bs wr block in_off db off n)
  case (Suc fuel)
  let ?h = "fv_inode_handler f" let ?B = "unat (in_blocks i) * BLOCK_SIZE"
  note wf = Suc.prems(3,4)
  have ok: "\<forall>r \<in> set (inode_blocks ?h bs i). data_addr ?h r < length bs" using Suc.prems(1) by (simp add: file_ok_def)
  have dl: "length (file_data ?h bs i) = ?B" by (rule file_blocks_wf(2) [OF wf(1) ok])
  show ?case
  proof (cases "wr < length buf \<and> block < in_blocks i")
    case False
    have "?B \<le> unat off" if "wr < length buf"
    proof -
      have "unat (in_blocks i) \<le> unat off div BLOCK_SIZE" using that False Suc.prems(9) by (simp add: word_less_nat_alt cursor_def)
      then show ?thesis using less_eq_div_iff_mult_less_eq [of BLOCK_SIZE] by (simp add: BLOCK_SIZE_def)
    qed
    then have n: "n = 0" using Suc.prems(10) by (cases "wr < length buf") simp_all
    have "fs_execs inv blks (write_loop (Suc fuel) ops k i buf wr block in_off db) (with_offset f k m off) bs
        (Ok wr) (with_offset f k m off) bs" using False by auto
    then show ?thesis using n overwrites_refl [OF wf(1), of "unat off" ?h i] dl Suc.prems(8) by (auto simp: slice_def)
  next
    case True
    define t where "t = min (BLOCK_SIZE - in_off) (length buf - wr)"
    have c: "cursor off block in_off" using True Suc.prems(9) by auto
    have q: "unat off div BLOCK_SIZE < unat (in_blocks i)" using True c by (simp add: word_less_nat_alt cursor_def)
    have t: "0 < t" "t \<le> length buf - wr" "in_off + t \<le> BLOCK_SIZE" using True cursor_less [OF c] by (simp_all add: t_def)
    have "unat off div BLOCK_SIZE * BLOCK_SIZE + BLOCK_SIZE \<le> ?B" using q by (metis Suc_leI add.commute mult_Suc mult_le_mono1)
    then have tB: "unat off + t \<le> ?B" using t(3) c div_mult_mod_eq [of "unat off" BLOCK_SIZE] unfolding cursor_def by linarith
    have "?B < 18446744073709551616" using unat_u32_bound [of "in_blocks i"] unfolding BLOCK_SIZE_def by linarith
    then have small: "unat off + t < 18446744073709551616" using tB by linarith
    note C = cursor_step [OF c q small]
    let ?a = "data_addr ?h (inode_blocks ?h bs i ! unat block)" let ?ch = "slice buf wr t" and ?n = "n - t"
    let ?new = "splice (bs ! ?a) in_off ?ch"
    have cl: "length ?ch = t" using t(2) Suc.prems(6) by simp
    have q': "unat block < unat (in_blocks i)" using True by (simp add: word_less_nat_alt)
    have nl: "length ?new = BLOCK_SIZE" using block_of_file(4) [OF Suc.prems(1) wf q'] cl t(3) by simp
    have rw: "overwrites ?h bs i (bs[?a := ?new]) (unat off) ?ch"
      using overwrites_block [OF wf(1) ok Suc.prems(2) q, of ?ch] cl t(3) c by (simp add: cursor_def)
    have ok2: "file_ok f (bs[?a := ?new]) i" "file_sep ?h (bs[?a := ?new]) i" "wf_blocks (bs[?a := ?new])" "length (bs[?a := ?new]) < 4294967296"
      using overwrites_ok [OF rw] Suc.prems(1,2) wf nl by auto
    have n: "t \<le> n" "n \<le> length buf - wr" "n \<le> ?B - unat off" using t(2) tB Suc.prems(10) by simp_all
    have n': "?n = min (length buf - (wr + t)) (?B - unat (off + of_nat t))"
      by (simp only: Suc.prems(10) C(3) min_diff [symmetric] diff_diff_left)
    have pos: "cursor (off + of_nat t) (block + 1) 0 \<or> wr + t = length buf"
      using C(4) Suc.prems(6) by (auto simp: t_def min_def split: if_splits)
    have "length buf - (wr + t) < fuel" "wr + t \<le> length buf" "unat (off + of_nat t) \<le> ?B" using Suc.prems(5,6) t(1,2) tB C(3) by linarith+
    from Suc.IH [OF ok2 this(1,2) nl this(3) pos n'] obtain bs' where
      IH: "fs_execs inv blks (write_loop fuel ops k i buf (wr + t) (block + 1) 0 ?new) (with_offset f k m (off + of_nat t)) (bs[?a := ?new])
        (Ok (wr + t + ?n)) (with_offset f k m (off + of_nat t + of_nat ?n)) bs'"
      "overwrites ?h (bs[?a := ?new]) i bs' (unat (off + of_nat t)) (slice buf (wr + t) ?n)" by blast
    have "overwrites ?h bs i bs' (unat off) (?ch @ slice buf (wr + t) ?n)"
      using rw IH(2) cl C(3) n Suc.prems(6,8) dl by (intro overwrites_append [OF rw]) simp_all
    then have fin: "overwrites ?h bs i bs' (unat off) (slice buf wr n)" using slice_append [of buf wr t ?n] n(1) by simp
    have eq: "off + of_nat t + of_nat ?n = off + of_nat n" "wr + t + ?n = wr + n" using n(1) by (simp_all add: of_nat_diff)
    from write_step_execs [OF Suc.prems(1) wf Suc.prems(7) conjunct1 [OF True] conjunct2 [OF True] c, folded t_def, OF small IH(1) [unfolded eq]] fin
    show ?thesis by blast
  qed
qed simp

end

end
