(* ===== verification/File_Write.thy ===== *)
theory File_Write
  imports File_Contents
begin

text \<open>
  Growing and writing open files on a mounted volume. \<open>owned\<close> are the addresses of the data and
  pointer blocks of an inode, \<open>marked\<close> the addresses whose bit is set in the block bitmap; a write
  takes its new blocks from the unmarked ones, so that no other file changes.
\<close>

definition owned :: "inode_table_handler \<Rightarrow> bytes list \<Rightarrow> inode \<Rightarrow> nat set" where
  "owned h bs i = data_addr h ` set (inode_blocks h bs i) \<union> set (meta_blocks h bs i)"

definition marked :: "format_v1 \<Rightarrow> bytes list \<Rightarrow> nat \<Rightarrow> bool" where
  "marked f bs a \<longleftrightarrow>
     (\<exists>x < unat (ba_max_index (fv_block_allocator f)).
        a = unat (ih_data_start (fv_inode_handler f)) + x \<and> bit_at (fv_block_allocator f) bs x)"

lemma owned_attrs [simp]:
  "owned h bs (i\<lparr>in_size := s\<rparr>) = owned h bs i" "owned h bs (i\<lparr>in_modified := t\<rparr>) = owned h bs i"
  by (simp_all add: owned_def)

lemma owned_frame:
  assumes "\<And>a. a \<in> owned h bs i \<Longrightarrow> bs' ! a = bs ! a"
  shows "inode_blocks h bs' i = inode_blocks h bs i" "meta_blocks h bs' i = meta_blocks h bs i"
    "owned h bs' i = owned h bs i" "file_data h bs' i = file_data h bs i"
proof -
  show b: "inode_blocks h bs' i = inode_blocks h bs i" by (rule inode_blocks_frame) (simp add: assms owned_def)
  show m: "meta_blocks h bs' i = meta_blocks h bs i" by (rule meta_blocks_frame) (simp add: assms owned_def)
  show "owned h bs' i = owned h bs i" by (simp add: owned_def b m)
  show "file_data h bs' i = file_data h bs i" using assms by (simp add: file_data_def b owned_def cong: map_cong)
qed

lemma marked_frame:
  assumes "mounted f bs" "\<And>a. a \<in> block_bitmap_area f \<Longrightarrow> bs' ! a = bs ! a"
  shows "marked f bs' a = marked f bs a"
proof -
  have "unat (ba_max_index (fv_block_allocator f)) \<le> unat (ba_size (fv_block_allocator f)) * 2048"
    using mounted_ok(2) [OF assms(1)] by (simp add: bitmap_ok_def)
  then have "bit_at (fv_block_allocator f) bs' x = bit_at (fv_block_allocator f) bs x"
    if "x < unat (ba_max_index (fv_block_allocator f))" for x
    using that by (intro bits_frame [OF assms(2)]) simp_all
  then show ?thesis by (auto simp: marked_def)
qed

lemma marked_data: "marked f bs a \<Longrightarrow> a \<in> data_area f"
  by (auto simp: marked_def data_area_def)

lemma ahead_frame:
  assumes "\<And>a. a \<in> block_bitmap_area f \<Longrightarrow> bs' ! a = bs ! a"
  shows "ahead (fv_block_allocator f) bs' = ahead (fv_block_allocator f) bs"
  unfolding ahead_def by (rule filter_cong) (use bits_frame [of f bs' bs, OF assms] in auto)

lemma marked_kept:
  assumes "mounted f bs" "marked f bs a" "\<forall>r \<in> set rs. \<not> marked f bs (data_addr h r)"
  shows "a \<notin> block_bitmap_area f" "a \<notin> data_addr h ` set rs"
  using assms marked_data [OF assms(2)] areas_disjoint(9) [OF assms(1)] by auto

text \<open>
  \<open>lacking i n\<close>: the data and pointer blocks a file still needs to have \<open>n\<close> blocks. \<open>spare f bs\<close>: the unset
  bits found ahead of the last allocation, as far as the counter of the superblock covers them.
\<close>

definition lacking :: "inode \<Rightarrow> nat \<Rightarrow> nat" where
  "lacking i n = (n - unat (in_blocks i)) + (metadata_blocks n - metadata_blocks (unat (in_blocks i)))"

definition spare :: "format_v1 \<Rightarrow> bytes list \<Rightarrow> nat" where
  "spare f bs = min (length (ahead (fv_block_allocator f) bs)) (unat (sb_free_data (fv_superblock f)))"

definition room :: "format_v1 \<Rightarrow> bytes list \<Rightarrow> inode \<Rightarrow> nat \<Rightarrow> bool" where
  "room f bs i n \<longleftrightarrow> lacking i n \<le> spare f bs"

lemma spare_offset [simp]: "spare (with_offset f k m off) = spare f"
  by (simp add: spare_def fun_eq_iff)

lemma lacking_split:
  assumes "in_blocks i \<le> in_blocks i'" "unat (in_blocks i') \<le> n"
  shows "lacking i (unat (in_blocks i')) + lacking i' n = lacking i n"
  using assms metadata_blocks_mono [of "unat (in_blocks i)" "unat (in_blocks i')"] metadata_blocks_mono [of "unat (in_blocks i')" n]
  by (simp add: lacking_def word_le_nat_alt)

lemma lacking_same [simp]: "lacking i (unat (in_blocks i)) = 0"
  by (simp add: lacking_def)

definition fill :: "inode_table_handler \<Rightarrow> bytes list \<Rightarrow> u32 list \<Rightarrow> bytes list" where
  "fill h = foldl (\<lambda>bs r. bs[data_addr h r := zero_block])"

lemma length_fill [simp]: "length (fill h bs rs) = length bs"
  unfolding fill_def by (induction rs arbitrary: bs) simp_all

lemma wf_fill: "wf_blocks bs \<Longrightarrow> wf_blocks (fill h bs rs)"
  unfolding fill_def by (induction rs arbitrary: bs) (simp_all add: wf_blocks_update)

lemma nth_fill:
  "a < length bs \<Longrightarrow> fill h bs rs ! a = (if a \<in> data_addr h ` set rs then zero_block else bs ! a)"
proof (induction rs arbitrary: bs)
  case (Cons r rs)
  have "fill h bs (r # rs) = fill h (bs[data_addr h r := zero_block]) rs" by (simp add: fill_def)
  with Cons show ?case by (auto simp: nth_list_update)
qed (simp add: fill_def)

lemma nth_fill_other: "a \<notin> data_addr h ` set rs \<Longrightarrow> fill h bs rs ! a = bs ! a"
proof (induction rs arbitrary: bs)
  case (Cons r rs)
  have "fill h bs (r # rs) = fill h (bs[data_addr h r := zero_block]) rs" by (simp add: fill_def)
  with Cons show ?case by simp
qed (simp add: fill_def)

context block_device
begin

lemma fill_execs:
  assumes "\<forall>r \<in> set rs. data_addr h r < length bs" "length bs < 4294967296"
  shows "execs inv blks (foldM (\<lambda>i _. bindM (liftM (addW (ih_data_start h) i)) (\<lambda>block_address.
     write_block ops block_address (replicate BLOCK_SIZE 0))) rs ()) bs (Ok ()) (fill h bs rs)"
  using assms
proof (induction rs arbitrary: bs)
  case (Cons r rs)
  have a: "data_addr h r < length bs" using Cons.prems by simp
  have "execs inv blks (bindM (liftM (addW (ih_data_start h) r)) (\<lambda>block_address.
     write_block ops block_address (replicate BLOCK_SIZE 0))) bs (Ok ()) (bs[data_addr h r := zero_block])"
    using write_data_execs [OF a Cons.prems(2)] data_addr_word(1) [OF a Cons.prems(2)] by simp
  moreover have "fill h bs (r # rs) = fill h (bs[data_addr h r := zero_block]) rs" by (simp add: fill_def)
  ultimately show ?case
    using Cons.IH [of "bs[data_addr h r := zero_block]"] Cons.prems execs_bind by fastforce
qed (auto simp: fill_def)

end


section \<open>Growing a file\<close>

text \<open>
  \<open>grown f bs i f' bs' i' ys xs\<close>: the file \<open>i\<close> grew to \<open>i'\<close> by the zeroed blocks \<open>ys\<close> and the pointer
  blocks \<open>xs\<close>, which were free before and are marked now.
\<close>

definition grown ::
  "format_v1 \<Rightarrow> bytes list \<Rightarrow> inode \<Rightarrow> format_v1 \<Rightarrow> bytes list \<Rightarrow> inode \<Rightarrow> u32 list \<Rightarrow> u32 list \<Rightarrow> bool" where
  "grown f bs i f' bs' i' ys xs \<longleftrightarrow>
     (let h = fv_inode_handler f; ba = fv_block_allocator f in
      (\<exists>l. f' = f\<lparr>fv_block_allocator := ba\<lparr>ba_last_alloc := l\<rparr>,
            fv_superblock := (fv_superblock f)\<lparr>sb_free_data := sb_free_data (fv_superblock f) - of_nat (length ys + length xs)\<rparr>\<rparr> \<and>
          unat l < unat (ba_size ba) * 2048) \<and>
      length bs' = length bs \<and> wf_blocks bs' \<and> inode_wf i' \<and> same_attrs i i' \<and> meta_ok h bs' i' \<and>
      unat (in_blocks i') = unat (in_blocks i) + length ys \<and>
      inode_blocks h bs' i' = inode_blocks h bs i @ ys \<and>
      meta_blocks h bs' i' = meta_blocks h bs i @ map (data_addr h) xs \<and>
      distinct (ys @ xs) \<and>
      (\<forall>r \<in> set (ys @ xs). r < ba_max_index ba \<and> \<not> bit_at ba bs (unat r)) \<and>
      (\<forall>x < unat (ba_size ba) * 2048. bit_at ba bs' x \<longleftrightarrow> x \<in> unat ` set (ys @ xs) \<or> bit_at ba bs x) \<and>
      file_data h bs' i' = file_data h bs i @ replicate (length ys * BLOCK_SIZE) 0 \<and>
      (\<forall>a. a \<notin> block_bitmap_area f \<longrightarrow> a \<notin> data_addr h ` set (ys @ xs) \<longrightarrow> a \<notin> set (meta_blocks h bs i) \<longrightarrow> bs' ! a = bs ! a) \<and>
      length xs = metadata_blocks (unat (in_blocks i')) - metadata_blocks (unat (in_blocks i)) \<and>
      length ys + length xs \<le> unat (sb_free_data (fv_superblock f)) \<and>
      ahead (fv_block_allocator f') bs' = drop (length ys + length xs) (ahead ba bs))"

lemma file_data_owned: "\<forall>a \<in> set (inode_blocks h bs i). bs' ! data_addr h a = bs ! data_addr h a \<Longrightarrow>
  inode_blocks h bs' i' = inode_blocks h bs i @ ys \<Longrightarrow>
  file_data h bs' i' = file_data h bs i @ concat (map (\<lambda>r. bs' ! data_addr h r) ys)"
  by (simp add: file_data_def cong: map_cong)

lemma concat_zero: "\<forall>r \<in> set ys. g r = replicate n 0 \<Longrightarrow> concat (map g ys) = replicate (length ys * n) 0"
  by (induction ys) (simp_all add: replicate_add)

text \<open>The free blocks \<open>grow_file\<close> takes, and the device after it marked them and zeroed the data blocks.\<close>

lemma taken_blocks:
  assumes mt: "mounted f bs" and wf: "wf_blocks bs"
    and sp: "M + N \<le> length (ahead (fv_block_allocator f) bs)"
    and xs: "xs = map of_nat (take M (ahead (fv_block_allocator f) bs))"
    and ys: "ys = map of_nat (take N (drop M (ahead (fv_block_allocator f) bs)))"
  defines "h \<equiv> fv_inode_handler f" and "ba \<equiv> fv_block_allocator f"
  shows "length xs = M" "length ys = N" "distinct (ys @ xs)"
    "\<forall>r \<in> set (ys @ xs). r < ba_max_index ba \<and> \<not> bit_at ba bs (unat r) \<and> unat r < unat (ba_size ba) * 2048 \<and>
       data_addr h r < length bs \<and> \<not> marked f bs (data_addr h r)"
proof -
  let ?A = "ahead ba bs"
  have t: "take M ?A @ take N (drop M ?A) = take (M + N) ?A" by (simp add: take_add)
  have sub: "set (take M ?A @ take N (drop M ?A)) \<subseteq> set ?A" unfolding t by (rule set_take_subset)
  have un: "map unat (xs @ ys) = take (M + N) ?A"
    unfolding xs ys ba_def [symmetric] map_append [symmetric] using unat_image_ahead [OF sub] t by simp
  show "length xs = M" "length ys = N" using sp by (simp_all add: xs ys ba_def)
  have "distinct (map unat (xs @ ys))" unfolding un by (simp add: ahead_props)
  then have "distinct (xs @ ys)" by (simp only: distinct_map)
  then show "distinct (ys @ xs)" by auto
  show "\<forall>r \<in> set (ys @ xs). r < ba_max_index ba \<and> \<not> bit_at ba bs (unat r) \<and> unat r < unat (ba_size ba) * 2048 \<and>
       data_addr h r < length bs \<and> \<not> marked f bs (data_addr h r)"
  proof
    fix r assume "r \<in> set (ys @ xs)"
    then have "unat r \<in> set (map unat (xs @ ys))" by auto
    then have "unat r \<in> set ?A" unfolding un by (rule in_set_takeD)
    from ahead_props(3) [OF this] have r: "unat r < unat (ba_max_index ba)" "\<not> bit_at ba bs (unat r)"
      "unat r < unat (ba_size ba) * 2048" by auto
    then show "r < ba_max_index ba \<and> \<not> bit_at ba bs (unat r) \<and> unat r < unat (ba_size ba) * 2048 \<and>
       data_addr h r < length bs \<and> \<not> marked f bs (data_addr h r)"
      using mounted_ok(8) [OF mt] by (auto simp: word_less_nat_alt data_addr_def h_def ba_def marked_def)
  qed
qed

lemma bits_after:
  assumes mt: "mounted f bs" and wf: "wf_blocks bs"
    and rs: "\<forall>r \<in> set rs. unat r < unat (ba_size (fv_block_allocator f)) * 2048"
    and fr: "\<And>a. a \<in> block_bitmap_area f \<Longrightarrow> bs' ! a = foldl (upd_bit (fv_block_allocator f) set_op) bs rs ! a"
    and x: "x < unat (ba_size (fv_block_allocator f)) * 2048"
  shows "bit_at (fv_block_allocator f) bs' x \<longleftrightarrow> x \<in> unat ` set rs \<or> bit_at (fv_block_allocator f) bs x"
  using bits_frame [of f bs', OF fr x] upd_bits_fold(1) [OF wf mounted_ok(2) [OF mt] rs, of x] by simp

lemma taken_ahead:
  assumes mt: "mounted f bs" and wf: "wf_blocks bs"
    and sp: "M + N \<le> length (ahead (fv_block_allocator f) bs)" and N: "0 < N"
    and xs: "xs = map of_nat (take M (ahead (fv_block_allocator f) bs))"
    and ys: "ys = map of_nat (take N (drop M (ahead (fv_block_allocator f) bs)))"
  defines "ba \<equiv> fv_block_allocator f"
  shows "ys \<noteq> []" "ahead (ba\<lparr>ba_last_alloc := last ys\<rparr>) (foldl (upd_bit ba set_op) bs (xs @ ys)) = drop (M + N) (ahead ba bs)"
proof -
  have all: "xs @ ys = map of_nat (take (M + N) (ahead ba bs))" by (simp add: xs ys take_add ba_def)
  show "ys \<noteq> []" using sp N by (auto simp: ys)
  then show "ahead (ba\<lparr>ba_last_alloc := last ys\<rparr>) (foldl (upd_bit ba set_op) bs (xs @ ys)) = drop (M + N) (ahead ba bs)"
    using ahead_allocate [OF wf mounted_ok(2) [OF mt] sp] unfolding ba_def [symmetric] all [symmetric] by simp
qed

text \<open>Nothing in use changes while the blocks are taken and zeroed.\<close>

lemma taken_frame:
  assumes mt: "mounted f bs" and wf: "wf_blocks bs"
    and sp: "M + N \<le> length (ahead (fv_block_allocator f) bs)"
    and xs: "xs = map of_nat (take M (ahead (fv_block_allocator f) bs))"
    and ys: "ys = map of_nat (take N (drop M (ahead (fv_block_allocator f) bs)))"
  defines "h \<equiv> fv_inode_handler f" and "bs2 \<equiv> foldl (upd_bit (fv_block_allocator f) set_op) bs (xs @ ys)"
  shows "a \<notin> block_bitmap_area f \<Longrightarrow> bs2 ! a = bs ! a" "a \<in> block_bitmap_area f \<Longrightarrow> fill h bs2 ys ! a = bs2 ! a"
    "marked f bs a \<Longrightarrow> fill h bs2 ys ! a = bs ! a"
proof -
  note tk = taken_blocks [OF mt wf sp xs ys, folded h_def]
  have rs: "\<forall>r \<in> set (xs @ ys). unat r < unat (ba_size (fv_block_allocator f)) * 2048" using tk(4) by auto
  show out: "bs2 ! a = bs ! a" if "a \<notin> block_bitmap_area f" for a
    using that upd_bits_other [OF _ rs, of a set_op bs] unfolding bs2_def block_bitmap_area_def by auto
  show "fill h bs2 ys ! a = bs2 ! a" if "a \<in> block_bitmap_area f"
    using that areas_disjoint(9) [OF mt] in_areas(1) [of f] by (intro nth_fill_other) (auto simp: h_def)
  have free: "\<forall>r \<in> set ys. \<not> marked f bs (data_addr h r)" using tk(4) by auto
  show "fill h bs2 ys ! a = bs ! a" if "marked f bs a"
    using marked_kept [OF mt that free] out [of a] nth_fill_other [of a h ys bs2] by simp
qed

text \<open>The contents of the grown file: the old blocks and the zeroed new ones.\<close>

lemma grown_data:
  assumes blk: "inode_blocks h bs' i' = inode_blocks h bs i @ ys"
    and old: "\<forall>r \<in> set (inode_blocks h bs i). bs' ! data_addr h r = bs ! data_addr h r"
    and new: "\<forall>r \<in> set ys. bs' ! data_addr h r = zero_block"
  shows "file_data h bs' i' = file_data h bs i @ replicate (length ys * BLOCK_SIZE) 0"
  using file_data_owned [OF old blk] concat_zero [of ys "\<lambda>r. bs' ! data_addr h r" BLOCK_SIZE] new by simp

lemma grown_intro:
  assumes mt: "mounted f bs" and wf: "wf_blocks bs" and sep: "file_sep (fv_inode_handler f) bs i"
    and own: "\<forall>a \<in> owned (fv_inode_handler f) bs i. marked f bs a"
    and sp: "M + N \<le> length (ahead (fv_block_allocator f) bs)" "M + N \<le> unat (sb_free_data (fv_superblock f))" "0 < N"
    and M: "M = metadata_blocks (unat (in_blocks i) + N) - metadata_blocks (unat (in_blocks i))"
    and xs: "xs = map of_nat (take M (ahead (fv_block_allocator f) bs))"
    and ys: "ys = map of_nat (take N (drop M (ahead (fv_block_allocator f) bs)))"
    and bs2: "bs2 = foldl (upd_bit (fv_block_allocator f) set_op) bs (xs @ ys)"
    and ext: "extends (fv_inode_handler f) (fill (fv_inode_handler f) bs2 ys) i bs' i' ys (map (data_addr (fv_inode_handler f)) xs)"
      "meta_ok (fv_inode_handler f) bs' i'"
    and f': "f' = f\<lparr>fv_block_allocator := (fv_block_allocator f)\<lparr>ba_last_alloc := last ys\<rparr>,
            fv_superblock := (fv_superblock f)\<lparr>sb_free_data := sb_free_data (fv_superblock f) - of_nat (N + M)\<rparr>\<rparr>"
  shows "grown f bs i f' bs' i' ys xs"
proof -
  define h where "h = fv_inode_handler f"
  define ba where "ba = fv_block_allocator f"
  note tk = taken_blocks [OF mt wf sp(1) xs ys, folded h_def ba_def]
  note tf = taken_frame [OF mt wf sp(1) xs ys, folded h_def ba_def, folded bs2 [folded ba_def]]
  note ta = taken_ahead [OF mt wf sp(1,3) xs ys, folded ba_def, folded bs2 [folded ba_def]]
  have rs: "\<forall>r \<in> set (xs @ ys). unat r < unat (ba_size ba) * 2048" using tk(4) by auto
  have da: "data_addr h r \<notin> block_bitmap_area f" for r
    using areas_disjoint(9) [OF mt] in_areas(1) [of f r] by (auto simp: h_def)
  have free: "\<forall>r \<in> set (ys @ xs). \<not> marked f bs (data_addr h r)" using tk(4) by auto
  note mk = marked_kept [OF mt _ free]
  let ?bs3 = "fill h bs2 ys"
  have own3: "?bs3 ! a = bs ! a" if "a \<in> owned h bs i" for a using tf(3) own that by (simp add: h_def)
  note fr = owned_frame [of h bs i ?bs3, OF own3]
  have ex: "inode_wf i'" "same_attrs i i'" "unat (in_blocks i') = unat (in_blocks i) + length ys"
    "inode_blocks h bs' i' = inode_blocks h bs i @ ys" "meta_blocks h bs' i' = meta_blocks h bs i @ map (data_addr h) xs"
    "length bs' = length bs" "wf_blocks bs'" "\<And>a. a \<notin> set (meta_blocks h bs' i') \<Longrightarrow> bs' ! a = ?bs3 ! a"
    using ext(1) fr(1,2) by (auto simp: extends_def h_def bs2)
  have frame: "bs' ! a = bs ! a" if "a \<notin> block_bitmap_area f" "a \<notin> data_addr h ` set (ys @ xs)" "a \<notin> set (meta_blocks h bs i)" for a
    using that ex(5) ex(8) [of a] tf(1) [of a] nth_fill_other [of a h ys bs2] by (auto simp: image_Un)
  have "a \<notin> block_bitmap_area f" if "a \<in> set (meta_blocks h bs' i')" for a
    using that ex(5) own mk(1) da by (auto simp: owned_def h_def)
  then have bm: "bs' ! a = bs2 ! a" if "a \<in> block_bitmap_area f" for a using that ex(8) [of a] tf(2) by auto
  have bits: "bit_at ba bs' x \<longleftrightarrow> x \<in> unat ` set (ys @ xs) \<or> bit_at ba bs x" if "x < unat (ba_size ba) * 2048" for x
    using bits_after [OF mt wf rs [unfolded ba_def] bm [unfolded bs2] that [unfolded ba_def]] by (auto simp: ba_def)
  have old: "\<forall>r \<in> set (inode_blocks h bs i). bs' ! data_addr h r = bs ! data_addr h r"
  proof
    fix r assume r: "r \<in> set (inode_blocks h bs i)"
    then have "marked f bs (data_addr h r)" using own by (auto simp: owned_def h_def)
    from mk [OF this] sep r show "bs' ! data_addr h r = bs ! data_addr h r" by (intro frame) (auto simp: file_sep_def h_def)
  qed
  have new: "\<forall>r \<in> set ys. bs' ! data_addr h r = zero_block"
  proof
    fix r assume r: "r \<in> set ys"
    then have "data_addr h r \<notin> set (meta_blocks h bs' i')"
      using own tk(3,4) ex(5) by (auto simp: owned_def h_def data_addr_inj)
    then show "bs' ! data_addr h r = zero_block" using r tk(4) ex(8) nth_fill [of "data_addr h r" bs2 h ys] by (auto simp: bs2)
  qed
  have "ahead (fv_block_allocator f') bs' = drop (M + N) (ahead ba bs)"
    using ta(2) ahead_frame [of f' bs' bs2] bm by (simp add: f' ba_def block_bitmap_area_def)
  moreover have "unat (last ys) < unat (ba_size ba) * 2048" using rs ta(1) by simp
  ultimately show ?thesis
    unfolding grown_def Let_def h_def [symmetric] ba_def [symmetric]
    using ex tk(1-4) frame f' ext(2) sp(2) M bits grown_data [OF ex(4) old new] by (auto simp: h_def ba_def add.commute)
qed

lemma upd_bit_last [simp]: "upd_bit (al\<lparr>ba_last_alloc := l\<rparr>) = upd_bit al"
  by (intro ext) (simp add: upd_bit_def)

lemma bitmap_ok_last [simp]: "bitmap_ok (al\<lparr>ba_last_alloc := l\<rparr>) = bitmap_ok al"
  by (intro ext) (simp add: bitmap_ok_def)

text \<open>The numbers of blocks \<open>grow_file\<close> computes fit in their types.\<close>

lemma grow_counts:
  assumes fb: "unat (in_blocks i) \<le> unat fb" "unat fb < MAX_BLOCKS"
    and N: "N = unat fb + 1 - unat (in_blocks i)"
    and M: "M = metadata_blocks (unat fb + 1) - metadata_blocks (unat (in_blocks i))"
  shows "unat (of_nat M :: u32) = M" "unat (of_nat N :: u32) = N" "0 < N" "unat (in_blocks i) + N = unat fb + 1"
    "addW (fb - in_blocks i) 1 = Ok (of_nat N)" "blocks_necessary_to_grow_n i (of_nat N) = Ok (of_nat M)"
    "addW (of_nat N) (of_nat M) = Ok (of_nat (N + M) :: u32)" "unat (of_nat (N + M) :: u32) = N + M"
proof -
  let ?k = "unat (in_blocks i)"
  have small: "N \<le> 4172" "M \<le> 66" using N M fb metadata_blocks_le [of "unat fb + 1"] by simp_all
  show "0 < N" and kN: "?k + N = unat fb + 1" using N fb by simp_all
  show uM: "unat (of_nat M :: u32) = M" and uN: "unat (of_nat N :: u32) = N" and uNM: "unat (of_nat (N + M) :: u32) = N + M"
    using small unat_u32_of_nat [of "N + M"] by (simp_all add: unat_u32_of_nat del: of_nat_add)
  have sub: "unat (fb - in_blocks i) = unat fb - ?k" using fb by (simp add: unat_sub_small)
  then have "unat (fb - in_blocks i + 1) = N"
    using fb N unat_add_small [of "fb - in_blocks i" 1] by simp
  then have "fb - in_blocks i + 1 = of_nat N" by (simp add: word_unat_eq_iff uN)
  then show "addW (fb - in_blocks i) 1 = Ok (of_nat N)" using sub fb by (simp add: addW_def)
  show "blocks_necessary_to_grow_n i (of_nat N) = Ok (of_nat M)"
    using metadata_blocks_mono [of ?k "unat fb + 1"] fb kN uN M
    by (simp add: blocks_necessary_to_grow_n_def subN_def Let_def)
  show "addW (of_nat N) (of_nat M) = Ok (of_nat (N + M) :: u32)"
    using small by (simp add: addW_def uN uM)
qed

context block_device
begin

text \<open>The pointer blocks and the data blocks are found and marked, one group after the other.\<close>

lemma take_ahead_execs:
  assumes mt: "mounted f bs" and wf: "wf_blocks bs"
    and sp: "M + N \<le> length (ahead (fv_block_allocator f) bs)" and N: "0 < N"
    and u: "unat (of_nat M :: u32) = M" "unat (of_nat N :: u32) = N"
    and xs: "xs = map of_nat (take M (ahead (fv_block_allocator f) bs))"
    and ys: "ys = map of_nat (take N (drop M (ahead (fv_block_allocator f) bs)))"
  defines "ba \<equiv> fv_block_allocator f"
  shows "execs inv blks (find_free ops ba (of_nat M)) bs (Ok xs) bs"
    "\<exists>ba1 bs1. execs inv blks (allocate ops ba xs) bs (Ok ba1) bs1 \<and> execs inv blks (find_free ops ba1 (of_nat N)) bs1 (Ok ys) bs1 \<and>
      execs inv blks (allocate ops ba1 ys) bs1 (Ok (ba\<lparr>ba_last_alloc := last ys\<rparr>)) (foldl (upd_bit ba set_op) bs (xs @ ys))"
proof -
  note tk = taken_blocks [OF mt wf sp xs ys, folded ba_def]
  note bm = mounted_ok(2,5) [OF mt, folded ba_def]
  have AL: "M \<le> length (ahead ba bs)" "N \<le> length (drop M (ahead ba bs))" using sp by (simp_all add: ba_def)
  let ?ba1 = "if xs = [] then ba else ba\<lparr>ba_last_alloc := last xs\<rparr>" let ?bs1 = "foldl (upd_bit ba set_op) bs xs"
  have r: "\<forall>r \<in> set xs. unat r < unat (ba_size ba) * 2048" "\<forall>r \<in> set ys. unat r < unat (ba_size ba) * 2048"
    using tk(4) by auto
  show "execs inv blks (find_free ops ba (of_nat M)) bs (Ok xs) bs"
    using find_free_ahead_execs [OF bm, of "of_nat M"] AL u(1) by (simp add: xs ba_def)
  have "execs inv blks (allocate ops ba xs) bs (Ok ?ba1) ?bs1" by (rule allocate_execs [OF bm(1) r(1)])
  moreover have ba1: "bitmap_ok ?ba1 (length ?bs1)" "unat (ba_last_alloc ?ba1) < unat (ba_size ?ba1) * 2048"
    "upd_bit ?ba1 = upd_bit ba" "ba_size ?ba1 = ba_size ba" using bm r(1) by auto
  have "ahead ?ba1 ?bs1 = drop M (ahead ba bs)" using ahead_allocate [OF wf bm(1) AL(1)] unfolding xs ba_def .
  with find_free_ahead_execs [OF ba1(1,2), of "of_nat N"] AL(2) u(2)
  have "execs inv blks (find_free ops ?ba1 (of_nat N)) ?bs1 (Ok ys) ?bs1" by (simp add: ys ba_def)
  moreover have "execs inv blks (allocate ops ?ba1 ys) ?bs1 (Ok (ba\<lparr>ba_last_alloc := last ys\<rparr>)) (foldl (upd_bit ba set_op) bs (xs @ ys))"
    using allocate_execs [OF ba1(1), of ys] r(2) taken_ahead(1) [OF mt wf sp N xs ys] ba1(3,4) by (simp split: if_splits)
  ultimately show "\<exists>ba1 bs1. execs inv blks (allocate ops ba xs) bs (Ok ba1) bs1 \<and> execs inv blks (find_free ops ba1 (of_nat N)) bs1 (Ok ys) bs1 \<and>
      execs inv blks (allocate ops ba1 ys) bs1 (Ok (ba\<lparr>ba_last_alloc := last ys\<rparr>)) (foldl (upd_bit ba set_op) bs (xs @ ys))" by blast
qed

text \<open>The new blocks are zeroed and added to the inode.\<close>

lemma add_taken_execs:
  assumes mt: "mounted f bs" and ok: "file_ok f bs i" and own: "\<forall>a \<in> owned (fv_inode_handler f) bs i. marked f bs a"
    and wf: "wf_blocks bs" "length bs < 4294967296" and sp: "M + N \<le> length (ahead (fv_block_allocator f) bs)"
    and M: "M = metadata_blocks (unat (in_blocks i) + N) - metadata_blocks (unat (in_blocks i))" "unat (in_blocks i) + N \<le> MAX_BLOCKS"
    and xs: "xs = map of_nat (take M (ahead (fv_block_allocator f) bs))"
    and ys: "ys = map of_nat (take N (drop M (ahead (fv_block_allocator f) bs)))"
  defines "h \<equiv> fv_inode_handler f" and "bs2 \<equiv> foldl (upd_bit (fv_block_allocator f) set_op) bs (xs @ ys)"
  shows "\<exists>i' bs'. execs inv blks (add_blocks ops h i ys xs) (fill h bs2 ys) (Ok i') bs' \<and>
    extends h (fill h bs2 ys) i bs' i' ys (map (data_addr h) xs) \<and> meta_ok h bs' i'"
proof -
  let ?bs3 = "fill h bs2 ys"
  note tk = taken_blocks [OF mt wf(1) sp xs ys, folded h_def]
  have "?bs3 ! a = bs ! a" if "a \<in> owned h bs i" for a
    using taken_frame(3) [OF mt wf(1) sp xs ys, folded h_def bs2_def] own that by (simp add: h_def)
  note fr = owned_frame [of h bs i ?bs3, OF this]
  have mok: "meta_ok h ?bs3 i" using ok fr(2) by (simp add: file_ok_def meta_ok_def h_def bs2_def)
  have "distinct (map (data_addr h) xs)" using tk(3) by (simp add: distinct_map inj_on_def data_addr_inj)
  moreover have "data_addr h ` set xs \<inter> set (meta_blocks h bs i) = {}"
    using tk(4) own by (auto simp: owned_def h_def)
  ultimately have dis: "distinct (meta_blocks h ?bs3 i @ map (data_addr h) (take M xs))"
    using mok tk(1) fr(2) by (auto simp: meta_ok_def)
  have iwf: "inode_wf i" using ok by (simp add: file_ok_def)
  have "take M xs = xs" using tk(1) by simp
  then show ?thesis
    using add_blocks_execs [OF iwf mok, of ys M xs] tk wf M dis by (auto simp: wf_fill bs2_def)
qed

lemma grow_file_execs:
  assumes mt: "mounted f bs" and ok: "file_ok f bs i" "file_sep (fv_inode_handler f) bs i"
    and own: "\<forall>a \<in> owned (fv_inode_handler f) bs i. marked f bs a"
    and fb: "unat (in_blocks i) \<le> unat fb" "unat fb < MAX_BLOCKS"
    and N: "N = unat fb + 1 - unat (in_blocks i)"
    and M: "M = metadata_blocks (unat fb + 1) - metadata_blocks (unat (in_blocks i))"
    and wf: "wf_blocks bs" "length bs < 4294967296"
    and sp: "M + N \<le> length (ahead (fv_block_allocator f) bs)" "M + N \<le> unat (sb_free_data (fv_superblock f))"
  shows "\<exists>f' bs' i' ys xs. fs_execs inv blks (grow_file ops i fb) f bs (Ok i') f' bs' \<and>
    grown f bs i f' bs' i' ys xs \<and> length ys = N \<and> length xs = M"
proof -
  define h where "h = fv_inode_handler f"
  define ba where "ba = fv_block_allocator f"
  define xs where "xs = (map of_nat (take M (ahead ba bs)) :: u32 list)"
  define ys where "ys = (map of_nat (take N (drop M (ahead ba bs))) :: u32 list)"
  note XY = xs_def [unfolded ba_def] ys_def [unfolded ba_def]
  note tk = taken_blocks [OF mt wf(1) sp(1) XY, folded h_def ba_def]
  note C = grow_counts [OF fb N M]
  have M': "M = metadata_blocks (unat (in_blocks i) + N) - metadata_blocks (unat (in_blocks i))" using M C(4) by simp
  note e1 = take_ahead_execs(1) [OF mt wf(1) sp(1) C(3,1,2) XY, folded ba_def]
  from take_ahead_execs(2) [OF mt wf(1) sp(1) C(3,1,2) XY, folded ba_def] obtain ba1 bs1 where
    e2: "execs inv blks (allocate ops ba xs) bs (Ok ba1) bs1" and e3: "execs inv blks (find_free ops ba1 (of_nat N)) bs1 (Ok ys) bs1"
    and e4: "execs inv blks (allocate ops ba1 ys) bs1 (Ok (ba\<lparr>ba_last_alloc := last ys\<rparr>)) (foldl (upd_bit ba set_op) bs (xs @ ys))"
    by blast
  let ?bs2 = "foldl (upd_bit ba set_op) bs (xs @ ys)"
  have e5: "execs inv blks (foldM (\<lambda>i _. bindM (liftM (addW (ih_data_start h) i)) (\<lambda>block_address.
      write_block ops block_address (replicate BLOCK_SIZE 0))) ys ()) ?bs2 (Ok ()) (fill h ?bs2 ys)"
    using tk(4) wf(2) by (intro fill_execs) auto
  from add_taken_execs [OF mt ok(1) own wf sp(1) M' _ XY, folded h_def ba_def] C(4) fb(2) obtain i' bs' where
    e6: "execs inv blks (add_blocks ops h i ys xs) (fill h ?bs2 ys) (Ok i') bs'"
    and ext: "extends h (fill h ?bs2 ys) i bs' i' ys (map (data_addr h) xs)" "meta_ok h bs' i'" by auto
  have sub: "subW (sb_free_data (fv_superblock f)) (of_nat (N + M)) = Ok (sb_free_data (fv_superblock f) - of_nat (N + M))"
    using sp(2) C(8) by (intro subW_Ok) simp
  define f' where "f' = f\<lparr>fv_block_allocator := ba\<lparr>ba_last_alloc := last ys\<rparr>,
    fv_superblock := (fv_superblock f)\<lparr>sb_free_data := sb_free_data (fv_superblock f) - of_nat (N + M)\<rparr>\<rparr>"
  have ds: "sb_data_start (fv_superblock f) = ih_data_start h" by (simp add: mounted_ok(6) [OF mt] h_def)
  have c: "\<not> length xs < unat (of_nat M :: u32)" "ys \<noteq> []" using tk(1,2) C(1,3) by auto
  have step: "fs_execs inv blks (grow_file ops i fb) f bs (Ok i') f' bs'"
    unfolding grow_file_def
    apply (rule fs_bind_self)
    apply (simp only: C(5,6) bindM_liftM_Ok ba_def [symmetric] h_def [symmetric] ds)
    apply (rule fs_bind_dev [OF e1], simp only: c(1) if_False)
    apply (rule fs_bind_dev [OF e2], rule fs_bind_update, rule fs_bind_dev [OF e3], simp only: c(2) if_False)
    apply (rule fs_bind_dev [OF e4], rule fs_bind_update, rule fs_bind_dev [OF e5], rule fs_bind_dev [OF e6])
    apply (simp only: tk(2) C(7) sub bindM_liftM_Ok)
    apply (rule fs_bind_update)
    apply (simp add: f'_def execs_return)
    done
  have "grown f bs i f' bs' i' ys xs"
    using grown_intro [OF mt wf(1) ok(2) own sp C(3) M' XY refl
        ext(1) [unfolded h_def ba_def] ext(2) [unfolded h_def] f'_def [unfolded ba_def]] .
  with step tk(1,2) show ?thesis by blast
qed

end


section \<open>Writing a file\<close>

text \<open>Storing an inode, and the superblock when blocks were allocated, touches no other inode and no other area.\<close>

definition stored :: "format_v1 \<Rightarrow> bytes list \<Rightarrow> u32 \<Rightarrow> inode \<Rightarrow> bool \<Rightarrow> bytes list" where
  "stored f bs n i super =
     (let bs' = put_inode (fv_inode_handler f) bs n i in
      if super then bs'[0 := super_image (fv_superblock f)] else bs')"

lemma length_stored [simp]: "length (stored f bs n i super) = length bs"
  by (simp add: stored_def Let_def)

lemma stored_frame:
  assumes mt: "mounted f bs" and n: "unat n < inode_count (fv_inode_handler f)"
    and a: "a \<in> data_area f \<or> a \<in> inode_bitmap_area f \<or> a \<in> block_bitmap_area f"
  shows "stored f bs1 n i super ! a = bs1 ! a"
proof -
  have "slot_block (fv_inode_handler f) n \<in> table_area f" by (rule in_areas(2) [OF n])
  then have "a \<noteq> 0" "a \<noteq> slot_block (fv_inode_handler f) n" using a areas_disjoint [OF mt] by auto
  then show ?thesis by (simp add: stored_def put_inode_def Let_def)
qed

lemma stored_inode:
  assumes mt: "mounted f bs" and bs1: "wf_blocks bs1" "length bs1 = length bs" and iwf: "inode_wf i"
    and n: "unat n < inode_count (fv_inode_handler f)" "unat n' < inode_count (fv_inode_handler f)"
  shows "inode_at (fv_inode_handler f) (stored f bs1 n i super) n' =
    (if n' = n then Ok i else inode_at (fv_inode_handler f) bs1 n')"
proof -
  let ?h = "fv_inode_handler f"
  have lt: "slot_block ?h n < length bs1" "slot_block ?h n' < length bs1"
    using mounted_ok(3) [OF mt] slot_bounds(2) [OF n(1)] slot_bounds(2) [OF n(2)] bs1(2) by (simp_all add: table_ok_def)
  have "slot_block ?h n' \<noteq> 0" using areas_disjoint(3) [OF mt] in_areas(2) [OF n(2)] by metis
  then have "inode_at ?h (stored f bs1 n i super) n' = inode_at ?h (put_inode ?h bs1 n i) n'"
    by (intro inode_at_frame) (simp add: stored_def Let_def)
  then show ?thesis
    using inode_at_put_same [OF bs1(1) lt(1) iwf] inode_at_put_other [OF bs1(1) lt iwf] by auto
qed

text \<open>
  \<open>written f bs m i f' bs' i' k off ys\<close>: the state after \<open>ys\<close> was written at \<open>off\<close> to the open file
  \<open>k\<close>, whose inode was \<open>i\<close> and is now \<open>i'\<close>.
\<close>

definition written ::
  "format_v1 \<Rightarrow> bytes list \<Rightarrow> file_metadata \<Rightarrow> inode \<Rightarrow> format_v1 \<Rightarrow> bytes list \<Rightarrow> inode \<Rightarrow> u32 \<Rightarrow> bytes \<Rightarrow> bool" where
  "written f bs m i f' bs' i' k ys \<longleftrightarrow>
     (let h = fv_inode_handler f; m' = m\<lparr>fm_offset := fm_offset m + of_nat (length ys)\<rparr> in
      length bs' = length bs \<and> mounted f' bs' \<and> fv_inode_handler f' = h \<and> opened f' bs' k m' i' \<and> file_sep h bs' i' \<and>
      (\<forall>a \<in> owned h bs' i'. marked f' bs' a) \<and>
      fv_open_files f' = (fv_open_files f)(k \<mapsto> m') \<and>
      unat (in_size i') = max (unat (in_size i)) (unat (fm_offset m) + length ys) \<and>
      (\<exists>z. file_data h bs' i' = splice (file_data h bs i @ replicate z 0) (unat (fm_offset m)) ys) \<and>
      (\<forall>a. marked f bs a \<longrightarrow> marked f' bs' a) \<and>
      (\<forall>a. marked f bs a \<longrightarrow> a \<notin> owned h bs i \<longrightarrow> bs' ! a = bs ! a) \<and>
      (\<forall>n. n \<noteq> fm_inode m \<longrightarrow> unat n < inode_count h \<longrightarrow> inode_at h bs' n = inode_at h bs n) \<and>
      (\<forall>a. a \<in> inode_bitmap_area f \<longrightarrow> bs' ! a = bs ! a) \<and>
      (\<forall>a \<in> owned h bs' i'. a \<in> owned h bs i \<or> \<not> marked f bs a) \<and>
      in_blocks i \<le> in_blocks i' \<and>
      unat (in_blocks i') \<le> max (unat (in_blocks i)) ((unat (fm_offset m) + length ys + 255) div BLOCK_SIZE) \<and>
      spare f' bs' = spare f bs - lacking i (unat (in_blocks i')))"

lemma written_stored:
  assumes mt: "mounted f bs" and op: "fv_open_files f k = Some m" "unat (fm_inode m) < inode_count (fv_inode_handler f)"
    and ok: "file_ok f bs i" "file_sep (fv_inode_handler f) bs i" and own: "\<forall>a \<in> owned (fv_inode_handler f) bs i. marked f bs a"
    and ow: "overwrites (fv_inode_handler f) bs i bs1 (unat (fm_offset m)) buf"
    and off: "unat (fm_offset m + of_nat (length buf)) = unat (fm_offset m) + length buf"
      "unat (fm_offset m) + length buf \<le> unat (in_blocks i) * BLOCK_SIZE"
    and i': "i' = i\<lparr>in_size := max (in_size i) (fm_offset m + of_nat (length buf)), in_modified := now\<rparr>"
  shows "written f bs m i (with_offset f k m (fm_offset m + of_nat (length buf))) (stored f bs1 (fm_inode m) i' super) i' k buf"
proof -
  define h where "h = fv_inode_handler f"
  let ?off' = "fm_offset m + of_nat (length buf)"
  let ?f = "with_offset f k m ?off'" let ?m = "m\<lparr>fm_offset := ?off'\<rparr>" let ?bs = "stored f bs1 (fm_inode m) i' super"
  have ow': "length bs1 = length bs" "wf_blocks bs1" "file_data h bs1 i = splice (file_data h bs i) (unat (fm_offset m)) buf"
    "inode_blocks h bs1 i = inode_blocks h bs i" "meta_blocks h bs1 i = meta_blocks h bs i"
    "\<And>a. a \<notin> owned h bs i \<Longrightarrow> bs1 ! a = bs ! a"
    using ow by (auto simp: overwrites_def owned_def h_def)
  have iwf: "inode_wf i'" using ok(1) by (simp add: file_ok_def i')
  have own_d: "a \<in> data_area f" if "a \<in> owned h bs i" for a using own that marked_data by (auto simp: h_def)
  note st = stored_frame [OF mt op(2), of _ bs1 i' super] stored_inode [OF mt ow'(2,1) iwf op(2), of _ super, folded h_def]
  have area: "?bs ! a = bs ! a" if "a \<in> block_bitmap_area f \<or> a \<in> inode_bitmap_area f" for a
  proof -
    have "a \<notin> owned h bs i" using own_d [of a] that areas_disjoint(7,9) [OF mt] by auto
    then show ?thesis using st(1) that ow'(6) by auto
  qed
  have own1: "owned h bs1 i = owned h bs i" using ow'(4,5) by (simp add: owned_def)
  have "?bs ! a = bs1 ! a" if "a \<in> owned h bs1 i" for a using st(1) own_d that own1 by auto
  note fr = owned_frame [of h bs1 i ?bs, OF this]
  have mk: "marked ?f ?bs a = marked f bs a" for a
    using marked_frame [OF mt area, of a] by (simp add: marked_def)
  have ah: "ahead (fv_block_allocator f) ?bs = ahead (fv_block_allocator f) bs" using area by (intro ahead_frame) simp
  have others: "inode_at h ?bs n = inode_at h bs n" if "n \<noteq> fm_inode m" "unat n < inode_count h" for n
  proof -
    have "slot_block h n \<notin> owned h bs i"
      using own_d areas_disjoint(10) [OF mt] in_areas(2) [of n f] that(2) by (auto simp: h_def)
    then show ?thesis using st(2) [of n] that ow'(6) by (simp add: inode_at_def h_def)
  qed
  have fok: "file_ok ?f ?bs i'"
    using ok(1) fr(1,2) ow'(1,4,5) off by (auto simp: file_ok_def meta_ok_def h_def max_def i')
  have data: "file_data h ?bs i' = splice (file_data h bs i @ replicate 0 0) (unat (fm_offset m)) buf"
    using fr(4) ow'(3) by (simp add: file_data_def i')
  show ?thesis
    unfolding written_def Let_def with_offset_simps h_def [symmetric]
  proof (intro conjI allI impI)
    show "mounted ?f ?bs" using mt by (simp add: mounted_def ow'(1))
    show "opened ?f ?bs k ?m i'"
      using op(2) fok st(2) [of "fm_inode m"] mounted_ok(3) [OF mt] ow'(1) by (simp add: opened_def h_def)
    show "file_sep h ?bs i'" using ok(2) fr(1,2) ow'(4,5) by (simp add: file_sep_def h_def i')
    show "\<forall>a \<in> owned h ?bs i'. marked ?f ?bs a" "\<forall>a \<in> owned h ?bs i'. a \<in> owned h bs i \<or> \<not> marked f bs a"
      using own fr(3) own1 mk by (simp_all add: h_def i')
    show "fv_open_files ?f = (fv_open_files f)(k \<mapsto> ?m)" by (simp add: with_offset_def)
    show "unat (in_size i') = max (unat (in_size i)) (unat (fm_offset m) + length buf)"
      using off(1) by (simp add: max_def word_le_nat_alt i')
    show "\<exists>z. file_data h ?bs i' = splice (file_data h bs i @ replicate z 0) (unat (fm_offset m)) buf" using data by blast
    show "?bs ! a = bs ! a" if "marked f bs a" "a \<notin> owned h bs i" for a
      using st(1) marked_data [OF that(1)] ow'(6) [OF that(2)] by simp
    show "spare ?f ?bs = spare f bs - lacking i (unat (in_blocks i'))" using ah by (simp add: spare_def i')
  qed (use mk others area ow'(1) in \<open>auto simp: i'\<close>)
qed

text \<open>\<open>write_tail\<close>: what \<open>fs_write\<close> does once the file has its blocks.\<close>

definition write_tail :: "'d block_ops \<Rightarrow> u64 \<Rightarrow> u32 \<Rightarrow> bytes \<Rightarrow> nat \<Rightarrow> bool \<Rightarrow> inode \<Rightarrow> ('d, nat) fs" where
  "write_tail ops now k buf off allocated i =
     bindM (write_loop (Suc (length buf)) ops k i buf 0 (of_nat (off div BLOCK_SIZE)) (off mod BLOCK_SIZE)
       (replicate BLOCK_SIZE 0)) (\<lambda>wrote.
     bindM self (\<lambda>f.
     bindM (liftM (unwrap (fv_open_files f k))) (\<lambda>metadata.
     let inode = i\<lparr>in_size := max (in_size i) (fm_offset metadata), in_modified := now\<rparr> in
     bindM (dev (write_inode ops (fv_inode_handler f) (fm_inode metadata) inode)) (\<lambda>_.
     bindM (if allocated then write_superblock ops else returnM ()) (\<lambda>_.
     returnM wrote)))))"

context block_device
begin

lemma write_tail_execs:
  assumes mt: "mounted f bs" and op: "fv_open_files f k = Some m" "unat (fm_inode m) < inode_count (fv_inode_handler f)"
    and ok: "file_ok f bs i" "file_sep (fv_inode_handler f) bs i" and own: "\<forall>a \<in> owned (fv_inode_handler f) bs i. marked f bs a"
    and buf: "buf \<noteq> []" "unat (fm_offset m) + length buf \<le> unat (in_blocks i) * BLOCK_SIZE"
    and wf: "wf_blocks bs" "length bs < 4294967296"
  shows "\<exists>f' bs' i'. fs_execs inv blks (write_tail ops now k buf (unat (fm_offset m)) allocated i) f bs (Ok (length buf)) f' bs' \<and>
    written f bs m i f' bs' i' k buf"
proof -
  define h where "h = fv_inode_handler f"
  let ?off = "unat (fm_offset m)" let ?off' = "fm_offset m + of_nat (length buf)"
  let ?f = "with_offset f k m ?off'" let ?m = "m\<lparr>fm_offset := ?off'\<rparr>"
  let ?i = "i\<lparr>in_size := max (in_size i) ?off', in_modified := now\<rparr>"
  have B: "unat (in_blocks i) * BLOCK_SIZE < 18446744073709551616"
    using unat_u32_bound [of "in_blocks i"] unfolding BLOCK_SIZE_def by linarith
  have lb: "unat (of_nat (length buf) :: u64) = length buf" using buf(2) B by (intro unat_u64_of_nat) linarith
  have off': "unat ?off' = ?off + length buf" using unat_add_small [of "fm_offset m" "of_nat (length buf)"] buf(2) B lb by simp
  have "?off < unat (in_blocks i) * BLOCK_SIZE" using buf by (cases buf) auto
  then have q: "?off div BLOCK_SIZE < unat (in_blocks i)" by (simp add: less_mult_imp_div_less)
  then have "unat (of_nat (?off div BLOCK_SIZE) :: u32) = ?off div BLOCK_SIZE" by (intro unat_of_nat_le [of _ "in_blocks i"]) simp
  moreover have "length buf = min (length buf - 0) (unat (in_blocks i) * BLOCK_SIZE - ?off)" using buf(2) by simp
  ultimately obtain bs1 where e1: "fs_execs inv blks
      (write_loop (Suc (length buf)) ops k i buf 0 (of_nat (?off div BLOCK_SIZE)) (?off mod BLOCK_SIZE) (replicate BLOCK_SIZE 0))
      f bs (Ok (length buf)) ?f bs1" and ow: "overwrites h bs i bs1 ?off buf"
    using write_loop_execs [OF ok wf, of buf 0 "Suc (length buf)" "replicate BLOCK_SIZE 0" "fm_offset m"
        "of_nat (?off div BLOCK_SIZE)" "?off mod BLOCK_SIZE" "length buf" k m] buf(2)
    by (auto simp: with_offset_same [OF op(1)] h_def slice_def cursor_def)
  have len: "length bs1 = length bs" using ow by (simp add: overwrites_def)
  have iwf: "inode_wf ?i" using ok(1) by (simp add: file_ok_def)
  have e2: "execs inv blks (write_inode ops h (fm_inode m) ?i) bs1 (Ok ()) (put_inode h bs1 (fm_inode m) ?i)"
    using op(2) mounted_ok(3) [OF mt] len by (intro write_inode_execs [OF _ _ iwf]) (simp_all add: h_def)
  have e3: "fs_execs inv blks (if allocated then write_superblock ops else returnM ()) ?f (put_inode h bs1 (fm_inode m) ?i) (Ok ()) ?f
      (stored f bs1 (fm_inode m) ?i allocated)"
    using write_superblock_execs [of "put_inode h bs1 (fm_inode m) ?i" ?f] mounted_pos [OF mt] len by (auto simp: stored_def h_def)
  have mm: "fm_inode ?m = fm_inode m" "fm_offset ?m = ?off'" by simp_all
  have "fs_execs inv blks (write_tail ops now k buf ?off allocated i) f bs (Ok (length buf)) ?f (stored f bs1 (fm_inode m) ?i allocated)"
    unfolding write_tail_def
    by (rule execs_bind [OF e1], rule fs_bind_self)
      (simp only: unwrap_def Let_def h_def [symmetric] with_offset_simps option.case bindM_liftM_Ok mm,
        rule fs_bind_dev [OF e2], rule execs_bind [OF e3], rule execs_return)
  with written_stored [OF mt op ok own ow [unfolded h_def] off' buf(2) refl] show ?thesis by blast
qed

end

definition file_state :: "format_v1 \<Rightarrow> bytes list \<Rightarrow> u32 \<Rightarrow> file_metadata \<Rightarrow> inode \<Rightarrow> bool" where
  "file_state f bs k m i \<longleftrightarrow>
     mounted f bs \<and> opened f bs k m i \<and> file_sep (fv_inode_handler f) bs i \<and>
     (\<forall>a \<in> owned (fv_inode_handler f) bs i. marked f bs a)"

text \<open>The bits after a file grew: the new blocks were free and are marked, the others are as before.\<close>

lemma grown_marks:
  assumes mt: "mounted f bs" and g: "grown f bs i f1 bs1 i1 ys xs"
  defines "h \<equiv> fv_inode_handler f"
  shows "marked f bs a \<Longrightarrow> marked f1 bs1 a"
    "r \<in> set (ys @ xs) \<Longrightarrow> \<not> marked f bs (data_addr h r) \<and> marked f1 bs1 (data_addr h r)"
    "owned h bs1 i1 = owned h bs i \<union> data_addr h ` set (ys @ xs)"
    "r \<in> set (ys @ xs) \<Longrightarrow> r \<noteq> INVALID_ADDRESS \<and> r \<le> ba_max_index (fv_block_allocator f) \<and> data_addr h r < length bs"
proof -
  define ba where "ba = fv_block_allocator f"
  note G = g [unfolded grown_def Let_def, folded h_def ba_def]
  from G obtain l where f1: "fv_block_allocator f1 = ba\<lparr>ba_last_alloc := l\<rparr>" "fv_inode_handler f1 = h" by (auto simp: h_def)
  have new: "\<And>r. r \<in> set (ys @ xs) \<Longrightarrow> r < ba_max_index ba \<and> \<not> bit_at ba bs (unat r)"
    and bits: "\<And>x. x < unat (ba_size ba) * 2048 \<Longrightarrow> bit_at ba bs1 x \<longleftrightarrow> x \<in> unat ` set (ys @ xs) \<or> bit_at ba bs x"
    using G by auto
  have mx: "unat (ba_max_index ba) \<le> unat (ba_size ba) * 2048" using mounted_ok(2) [OF mt] by (simp add: bitmap_ok_def ba_def)
  have b1: "bit_at (fv_block_allocator f1) bs1 x = bit_at ba bs1 x" "ba_max_index (fv_block_allocator f1) = ba_max_index ba" for x
    by (simp_all add: f1 bit_at_def)
  show "marked f1 bs1 a" if "marked f bs a"
    using that bits mx unfolding marked_def f1(2) b1 by (auto simp: ba_def h_def)
  show "\<not> marked f bs (data_addr h r) \<and> marked f1 bs1 (data_addr h r)" if "r \<in> set (ys @ xs)"
  proof -
    have "unat r < unat (ba_max_index ba)" "\<not> bit_at ba bs (unat r)" using new [OF that] by (simp_all add: word_less_nat_alt)
    moreover have "bit_at ba bs1 (unat r)" using that bits [of "unat r"] calculation mx by auto
    ultimately show ?thesis unfolding marked_def f1(2) b1 by (auto simp: data_addr_def h_def ba_def)
  qed
  show "owned h bs1 i1 = owned h bs i \<union> data_addr h ` set (ys @ xs)" using G by (auto simp: owned_def)
  show "r \<noteq> INVALID_ADDRESS \<and> r \<le> ba_max_index (fv_block_allocator f) \<and> data_addr h r < length bs" if "r \<in> set (ys @ xs)"
  proof -
    have lt: "unat r < unat (ba_max_index ba)" using new [OF that] by (simp add: word_less_nat_alt)
    then have "unat r \<noteq> 4294967295" using unat_u32_bound [of "ba_max_index ba"] by linarith
    then have "r \<noteq> INVALID_ADDRESS" using unat_INVALID_ADDRESS by metis
    with lt mounted_ok(8) [OF mt] show ?thesis by (simp add: word_le_nat_alt data_addr_def h_def ba_def)
  qed
qed

text \<open>Growing a file takes what it needs from the spare blocks, and no more.\<close>

lemma grown_spare:
  assumes g: "grown f bs i f1 bs1 i1 ys xs"
  shows "spare f1 bs1 = spare f bs - lacking i (unat (in_blocks i1))" "in_blocks i \<le> in_blocks i1"
proof -
  let ?k = "unat (in_blocks i)" and ?k1 = "unat (in_blocks i1)" and ?free = "sb_free_data (fv_superblock f)"
  let ?A = "ahead (fv_block_allocator f) bs"
  from g have f1: "fv_superblock f1 = (fv_superblock f)\<lparr>sb_free_data := ?free - of_nat (length ys + length xs)\<rparr>"
    and k1: "?k1 = ?k + length ys" and xs: "length xs = metadata_blocks ?k1 - metadata_blocks ?k"
    and le: "length ys + length xs \<le> unat ?free" and A: "ahead (fv_block_allocator f1) bs1 = drop (length ys + length xs) ?A"
    by (auto simp: grown_def Let_def)
  have "unat (of_nat (length ys + length xs) :: u32) = length ys + length xs"
    using le unat_u32_bound [of ?free] by (intro unat_u32_of_nat) linarith
  then have free: "unat (?free - of_nat (length ys + length xs)) = unat ?free - (length ys + length xs)"
    using le unat_sub_small [of "of_nat (length ys + length xs)" ?free] by simp
  have "lacking i ?k1 = length ys + length xs" using k1 xs by (simp add: lacking_def)
  then show "spare f1 bs1 = spare f bs - lacking i ?k1" unfolding spare_def A f1 by (simp add: free del: of_nat_add)
  show "in_blocks i \<le> in_blocks i1" using k1 by (simp add: word_le_nat_alt)
qed

lemma grown_state:
  assumes st: "file_state f bs k m i" and g: "grown f bs i f1 bs1 i1 ys xs"
  shows "mounted f1 bs1" "fv_inode_handler f1 = fv_inode_handler f" "fv_open_files f1 = fv_open_files f"
    "file_ok f1 bs1 i1" "file_sep (fv_inode_handler f1) bs1 i1" "\<forall>a \<in> owned (fv_inode_handler f1) bs1 i1. marked f1 bs1 a"
    "in_size i1 = in_size i"
    "marked f bs a \<Longrightarrow> a \<notin> owned (fv_inode_handler f) bs i \<Longrightarrow> a \<notin> owned (fv_inode_handler f) bs1 i1 \<and> bs1 ! a = bs ! a"
    "a \<in> table_area f \<or> a \<in> inode_bitmap_area f \<Longrightarrow> bs1 ! a = bs ! a"
proof -
  define h where "h = fv_inode_handler f"
  define ba where "ba = fv_block_allocator f"
  note G = g [unfolded grown_def Let_def, folded h_def ba_def]
  from G obtain l where f1: "f1 = f\<lparr>fv_block_allocator := ba\<lparr>ba_last_alloc := l\<rparr>,
      fv_superblock := (fv_superblock f)\<lparr>sb_free_data := sb_free_data (fv_superblock f) - of_nat (length ys + length xs)\<rparr>\<rparr>"
    "unat l < unat (ba_size ba) * 2048" by blast
  have len: "length bs1 = length bs" and blk: "inode_blocks h bs1 i1 = inode_blocks h bs i @ ys"
    and meta: "meta_blocks h bs1 i1 = meta_blocks h bs i @ map (data_addr h) xs" and dis: "distinct (ys @ xs)"
    and frame: "\<And>a. a \<notin> block_bitmap_area f \<Longrightarrow> a \<notin> data_addr h ` set (ys @ xs) \<Longrightarrow> a \<notin> set (meta_blocks h bs i) \<Longrightarrow> bs1 ! a = bs ! a"
    and i1: "inode_wf i1" "same_attrs i i1" "meta_ok h bs1 i1" "unat (in_blocks i1) = unat (in_blocks i) + length ys"
    using G by auto
  have mt: "mounted f bs" and fo: "file_ok f bs i" and sep: "file_sep h bs i" and own: "\<And>a. a \<in> owned h bs i \<Longrightarrow> marked f bs a"
    using st by (auto simp: file_state_def opened_def h_def)
  note mk = grown_marks [OF mt g, folded h_def]
  show "mounted f1 bs1"
  proof (rule mountedI [OF mt len])
    have "fv_superblock f1 = (fv_superblock f)\<lparr>sb_free_inodes := sb_free_inodes (fv_superblock f),
      sb_free_data := sb_free_data (fv_superblock f) - of_nat (length ys + length xs)\<rparr>" by (simp add: f1(1))
    then show "\<exists>x y. fv_superblock f1 = (fv_superblock f)\<lparr>sb_free_inodes := x, sb_free_data := y\<rparr>" by blast
    show "\<exists>l. fv_inode_allocator f1 = (fv_inode_allocator f)\<lparr>ba_last_alloc := l\<rparr> \<and>
        unat l < unat (ba_size (fv_inode_allocator f)) * 2048"
      by (rule exI [of _ "ba_last_alloc (fv_inode_allocator f)"]) (simp add: f1(1) mounted_ok(4) [OF mt])
  qed (use f1(2) in \<open>auto simp: f1(1) ba_def\<close>)
  show hh: "fv_inode_handler f1 = fv_inode_handler f" "fv_open_files f1 = fv_open_files f" by (simp_all add: f1(1))
  show sz: "in_size i1 = in_size i" using i1(2) by (simp add: same_attrs_def)
  show "\<forall>a \<in> owned (fv_inode_handler f1) bs1 i1. marked f1 bs1 a"
    unfolding hh h_def [symmetric] mk(3) using own mk(1,2) by auto
  have free: "\<forall>r \<in> set (ys @ xs). \<not> marked f bs (data_addr h r)" using mk(2) by blast
  show "a \<notin> owned (fv_inode_handler f) bs1 i1 \<and> bs1 ! a = bs ! a" if "marked f bs a" "a \<notin> owned (fv_inode_handler f) bs i" for a
    using marked_kept [OF mt that(1) free] that(2) frame [of a] mk(3) by (auto simp: h_def owned_def)
  show "bs1 ! a = bs ! a" if "a \<in> table_area f \<or> a \<in> inode_bitmap_area f" for a
  proof (rule frame)
    show "a \<notin> block_bitmap_area f" using that areas_disjoint(5,8) [OF mt] by auto
    have "a \<notin> data_area f" using that areas_disjoint(7,10) [OF mt] by auto
    then show "a \<notin> data_addr h ` set (ys @ xs)" "a \<notin> set (meta_blocks h bs i)"
      using in_areas(1) [of f] own [of a] marked_data [of f bs a] by (auto simp: h_def owned_def)
  qed
  show "file_ok f1 bs1 i1"
    unfolding file_ok_def hh h_def [symmetric] blk
    using fo i1 mk(4) sz len by (auto simp: file_ok_def h_def f1(1) ba_def max_index_def algebra_simps)
  have nin: "data_addr h r \<notin> set (meta_blocks h bs i) \<and> r \<notin> set (inode_blocks h bs i)" if "r \<in> set (ys @ xs)" for r
    using own [of "data_addr h r"] mk(2) [OF that] by (auto simp: owned_def)
  show "file_sep (fv_inode_handler f1) bs1 i1"
    unfolding file_sep_def hh h_def [symmetric] blk meta
    using sep dis nin by (auto simp: file_sep_def data_addr_inj)
qed

lemma written_grown:
  assumes st: "file_state f bs k m i" and g: "grown f bs i f1 bs1 i1 ys xs" and w: "written f1 bs1 m i1 f' bs' i' k buf"
    and n: "unat (in_blocks i1) \<le> (unat (fm_offset m) + length buf + 255) div BLOCK_SIZE"
  shows "written f bs m i f' bs' i' k buf"
proof -
  note G = grown_state [OF st g]
  define h where "h = fv_inode_handler f"
  have mt: "mounted f bs" using st by (simp add: file_state_def)
  note mk = grown_marks [OF mt g, folded h_def]
  have ar: "table_area f1 = table_area f" "inode_bitmap_area f1 = inode_bitmap_area f"
    using g by (auto simp: grown_def Let_def table_area_def inode_bitmap_area_def)
  have fd: "file_data h bs1 i1 = file_data h bs i @ replicate (length ys * BLOCK_SIZE) 0"
    using g by (simp add: grown_def Let_def h_def)
  have len: "length bs1 = length bs" using g by (simp add: grown_def Let_def)
  note W = w [unfolded written_def Let_def G(2,3,7) h_def [symmetric] ar fd len]
  from W obtain z where z: "file_data h bs' i' =
      splice ((file_data h bs i @ replicate (length ys * BLOCK_SIZE) 0) @ replicate z 0) (unat (fm_offset m)) buf" by blast
  then have "file_data h bs' i' = splice (file_data h bs i @ replicate (length ys * BLOCK_SIZE + z) 0) (unat (fm_offset m)) buf"
    by (simp add: replicate_add)
  moreover have "inode_at h bs' n = inode_at h bs n" if "n \<noteq> fm_inode m" "unat n < inode_count h" for n
  proof -
    have "inode_at h bs' n = inode_at h bs1 n" using W that by blast
    moreover have "bs1 ! slot_block h n = bs ! slot_block h n"
      using G(9) in_areas(2) [of n f] that(2) by (auto simp: h_def)
    ultimately show ?thesis by (simp add: inode_at_def)
  qed
  moreover have "bs' ! a = bs ! a" if "marked f bs a" "a \<notin> owned h bs i" for a
    using W mk(1) [OF that(1)] G(8) [OF that(1)] that(2) by (auto simp: h_def)
  moreover have "bs' ! a = bs ! a" if "a \<in> inode_bitmap_area f" for a using W G(9) that by auto
  moreover have "a \<in> owned h bs i \<or> \<not> marked f bs a" if "a \<in> owned h bs' i'" for a
    using W that mk(1) [of a] mk(2,3) by blast
  moreover have "spare f' bs' = spare f bs - lacking i (unat (in_blocks i'))" "in_blocks i \<le> in_blocks i'"
    "unat (in_blocks i') \<le> max (unat (in_blocks i)) ((unat (fm_offset m) + length buf + 255) div BLOCK_SIZE)"
    using W grown_spare [OF g] lacking_split [of i i1 "unat (in_blocks i')"] n by (auto simp: word_le_nat_alt)
  ultimately show ?thesis
    unfolding written_def Let_def h_def [symmetric] using W mk(1) by blast
qed

text \<open>The last block a write touches, and how many blocks the file has then.\<close>

lemma final_block:
  assumes "buf \<noteq> []" "off + length buf \<le> MAX_BLOCKS * BLOCK_SIZE" "n = (off + length buf + 255) div BLOCK_SIZE"
  shows "unat (of_nat ((off + length buf - 1) div BLOCK_SIZE) :: u32) + 1 = n" "n \<le> MAX_BLOCKS"
    "off + length buf \<le> n * BLOCK_SIZE" "off + length buf < 2 ^ 64"
proof -
  have "0 < length buf" using assms(1) by simp
  then have "off + length buf + 255 = (off + length buf - 1) + 256" by linarith
  then have fbn: "(off + length buf - 1) div BLOCK_SIZE + 1 = n" unfolding assms(3) BLOCK_SIZE_def by simp
  show n_le: "n \<le> MAX_BLOCKS" using assms(2,3) by (simp add: BLOCK_SIZE_def less_mult_imp_div_less)
  then show "unat (of_nat ((off + length buf - 1) div BLOCK_SIZE) :: u32) + 1 = n"
    using fbn unat_u32_of_nat [of "(off + length buf - 1) div BLOCK_SIZE"] by simp
  show "off + length buf \<le> n * BLOCK_SIZE" unfolding assms(3) BLOCK_SIZE_def by linarith
  show "off + length buf < 2 ^ 64" using assms(2) by (simp add: BLOCK_SIZE_def)
qed

context block_device
begin

lemma fs_write_starts:
  assumes op: "opened f bs (fh_id file) m i" and buf: "buf \<noteq> []" "unat (fm_offset m) + length buf < 2 ^ 64"
  defines "fb \<equiv> of_nat ((unat (fm_offset m) + length buf - 1) div BLOCK_SIZE) :: u32"
  assumes e: "fs_execs inv blks (bindM (if in_blocks i \<le> fb then grow_file ops i fb else returnM i)
    (write_tail ops now (fh_id file) buf (unat (fm_offset m)) (in_blocks i \<le> fb))) f bs r f' bs'"
  shows "fs_execs inv blks (fs_write ops now file buf) f bs r f' bs'"
proof -
  have m: "fv_open_files f (fh_id file) = Some m" using op by (simp add: opened_def)
  show ?thesis
    unfolding fs_write_def
    by (rule fs_bind_self, simp only: m option.case buf(1) if_False, rule fs_bind_dev [OF read_opened [OF op]],
        simp only: Let_def buf(2) if_True bindM_returnM) (rule e [unfolded write_tail_def [abs_def] fb_def Let_def])
qed

lemma fs_write_execs:
  assumes st: "file_state f bs (fh_id file) m i"
    and buf: "buf \<noteq> []" "unat (fm_offset m) + length buf \<le> MAX_BLOCKS * BLOCK_SIZE"
    and n: "n = (unat (fm_offset m) + length buf + 255) div BLOCK_SIZE" and sp: "room f bs i n"
    and wf: "wf_blocks bs" "length bs < 4294967296"
  shows "\<exists>f' bs' i'. fs_execs inv blks (fs_write ops now file buf) f bs (Ok (length buf)) f' bs' \<and>
    written f bs m i f' bs' i' (fh_id file) buf"
proof -
  define h where "h = fv_inode_handler f"
  let ?off = "unat (fm_offset m)" let ?fb = "of_nat ((?off + length buf - 1) div BLOCK_SIZE) :: u32" let ?k = "unat (in_blocks i)"
  note FB = final_block [OF buf n]
  have mt: "mounted f bs" and op: "opened f bs (fh_id file) m i" and sep: "file_sep (fv_inode_handler f) bs i"
    and own: "\<forall>a \<in> owned (fv_inode_handler f) bs i. marked f bs a" using st by (auto simp: file_state_def)
  have op': "fv_open_files f (fh_id file) = Some m" "unat (fm_inode m) < inode_count (fv_inode_handler f)" "file_ok f bs i"
    using op by (auto simp: opened_def)
  note start = fs_write_starts [OF op buf(1) FB(4)]
  show ?thesis
  proof (cases "in_blocks i \<le> ?fb")
    case False
    then have "n \<le> ?k" using FB(1) by (simp add: word_le_nat_alt)
    then have "?off + length buf \<le> ?k * BLOCK_SIZE" using FB(3) mult_le_mono1 [of n ?k BLOCK_SIZE] by linarith
    from write_tail_execs [OF mt op' sep own buf(1) this wf, of now False] obtain f' bs' i' where
      e: "fs_execs inv blks (write_tail ops now (fh_id file) buf ?off False i) f bs (Ok (length buf)) f' bs'"
      and w: "written f bs m i f' bs' i' (fh_id file) buf" by blast
    have c: "(in_blocks i \<le> ?fb) = False" using False by simp
    from start [unfolded c if_False bindM_returnM, OF e] w show ?thesis by blast
  next
    case True
    then have kn: "?k \<le> unat ?fb" "unat ?fb < MAX_BLOCKS" using FB(1,2) by (simp_all add: word_le_nat_alt)
    have spM: "(metadata_blocks (unat ?fb + 1) - metadata_blocks ?k) + (unat ?fb + 1 - ?k) \<le> length (ahead (fv_block_allocator f) bs)"
      "(metadata_blocks (unat ?fb + 1) - metadata_blocks ?k) + (unat ?fb + 1 - ?k) \<le> unat (sb_free_data (fv_superblock f))"
      using sp unfolding FB(1) by (simp_all add: room_def lacking_def spare_def add.commute)
    from grow_file_execs [OF mt op'(3) sep own kn refl refl wf spM]
    obtain f1 bs1 i1 ys xs where e1: "fs_execs inv blks (grow_file ops i ?fb) f bs (Ok i1) f1 bs1"
      and g: "grown f bs i f1 bs1 i1 ys xs" and ly: "length ys = unat ?fb + 1 - ?k" by blast
    note G = grown_state [OF st g]
    have g': "length bs1 = length bs" "wf_blocks bs1" "unat (in_blocks i1) = n"
      using g ly kn(1) FB(1) by (auto simp: grown_def Let_def)
    from write_tail_execs [OF G(1) _ _ G(4-6) buf(1), of "fh_id file" m now True] op' FB(3) g' wf G(2,3)
    obtain f' bs' i' where e2: "fs_execs inv blks (write_tail ops now (fh_id file) buf ?off True i1) f1 bs1 (Ok (length buf)) f' bs'"
      and w: "written f1 bs1 m i1 f' bs' i' (fh_id file) buf" by auto
    have "fs_execs inv blks (fs_write ops now file buf) f bs (Ok (length buf)) f' bs'"
      by (rule start [unfolded eqTrueI [OF True] if_True]) (rule execs_bind [OF e1], rule e2)
    moreover have "unat (in_blocks i1) \<le> (unat (fm_offset m) + length buf + 255) div BLOCK_SIZE" using g'(3) n by simp
    ultimately show ?thesis using written_grown [OF st g w] by blast
  qed
qed

end

lemma splice_content:
  assumes "s \<le> length D" "off \<le> s"
  shows "take (max s (off + length ys)) (splice (D @ Z) off ys) = take off (take s D) @ ys @ drop (off + length ys) (take s D)"
proof (cases "s \<le> off + length ys")
  case True
  then show ?thesis using assms by (simp add: splice_def max_def)
next
  case False
  then have "take (s - off - length ys) (drop (off + length ys) (D @ Z)) = drop (off + length ys) (take s D)"
    using assms by (simp add: drop_take)
  with False assms show ?thesis by (simp add: splice_def max_def)
qed

lemma file_state_small:
  "file_state f bs k m i \<Longrightarrow> wf_blocks bs \<Longrightarrow> unat (in_size i) \<le> length (file_data (fv_inode_handler f) bs i)"
  using file_blocks_wf(2) [of bs "fv_inode_handler f" i] by (auto simp: file_state_def opened_def file_ok_def)

lemma written_content:
  assumes st: "file_state f bs k m i" and wf: "wf_blocks bs" and off: "fm_offset m \<le> in_size i"
    and w: "written f bs m i f' bs' i' k ys"
  defines "h \<equiv> fv_inode_handler f"
  shows "content h bs' i' = take (unat (fm_offset m)) (content h bs i) @ ys @ drop (unat (fm_offset m) + length ys) (content h bs i)"
    "file_state f' bs' k (m\<lparr>fm_offset := fm_offset m + of_nat (length ys)\<rparr>) i'" "fv_inode_handler f' = h"
proof -
  note W = w [unfolded written_def Let_def, folded h_def]
  from W obtain z where "file_data h bs' i' = splice (file_data h bs i @ replicate z 0) (unat (fm_offset m)) ys" by blast
  then show "content h bs' i' = take (unat (fm_offset m)) (content h bs i) @ ys @ drop (unat (fm_offset m) + length ys) (content h bs i)"
    using W splice_content [OF file_state_small [OF st wf], of "unat (fm_offset m)" ys "replicate z 0"] off
    by (simp add: content_def h_def word_le_nat_alt)
  show "fv_inode_handler f' = h" using W by blast
  then show "file_state f' bs' k (m\<lparr>fm_offset := fm_offset m + of_nat (length ys)\<rparr>) i'" using W by (simp add: file_state_def)
qed

text \<open>A file is as it was when its handle, its inode and its blocks are, and no mark is lost.\<close>

lemma file_state_frame:
  assumes st: "file_state f bs k m i" and mt': "mounted f' bs'" "length bs' = length bs"
    and h': "fv_inode_handler f' = fv_inode_handler f" and op': "fv_open_files f' k = fv_open_files f k"
    and at: "inode_at (fv_inode_handler f) bs' (fm_inode m) = inode_at (fv_inode_handler f) bs (fm_inode m)"
    and mk: "\<And>a. marked f bs a \<Longrightarrow> marked f' bs' a"
    and same: "\<And>a. a \<in> owned (fv_inode_handler f) bs i \<Longrightarrow> bs' ! a = bs ! a"
  shows "file_state f' bs' k m i \<and> content (fv_inode_handler f) bs' i = content (fv_inode_handler f) bs i \<and>
    file_data (fv_inode_handler f) bs' i = file_data (fv_inode_handler f) bs i \<and>
    owned (fv_inode_handler f) bs' i = owned (fv_inode_handler f) bs i"
proof -
  define h where "h = fv_inode_handler f"
  have own: "\<And>a. a \<in> owned h bs i \<Longrightarrow> marked f bs a" and op: "opened f bs k m i" and sep: "file_sep h bs i" and mt: "mounted f bs"
    using st by (auto simp: file_state_def h_def)
  note fr = owned_frame [of h bs i bs', OF same [folded h_def]]
  have c: "content (fv_inode_handler f) bs' i = content (fv_inode_handler f) bs i" using fr(4) by (simp add: content_def h_def)
  have mx: "max_index (fv_block_allocator f') = max_index (fv_block_allocator f)"
    using mounted_ok(8) [OF mt] mounted_ok(8) [OF mt'(1)] mt'(2) h' by (simp add: max_index_def word_unat_eq_iff)
  have hh: "fv_inode_handler f' = h" using h' by (simp add: h_def)
  have "file_ok f bs i" using op by (simp add: opened_def)
  then have "file_ok f' bs' i"
    using mounted_ok(6) [OF mt'(1)] by (simp add: file_ok_def meta_ok_def hh mx mt'(2) h_def [symmetric] fr(1,2))
  then have "opened f' bs' k m i" using op at op' mt'(2) h' by (simp add: opened_def)
  then have "file_state f' bs' k m i"
    using mt'(1) sep own mk by (simp add: file_state_def file_sep_def hh fr(1-3))
  with c fr(3,4) show ?thesis by (simp add: h_def)
qed

text \<open>Another file whose blocks are marked and disjoint from the written one.\<close>

lemma written_other:
  assumes st: "file_state f bs k' m' j" and w: "written f bs m i f' bs' i' k ys"
    and k: "k' \<noteq> k" "fm_inode m' \<noteq> fm_inode m" and dis: "owned (fv_inode_handler f) bs i \<inter> owned (fv_inode_handler f) bs j = {}"
  shows "file_state f' bs' k' m' j" "content (fv_inode_handler f) bs' j = content (fv_inode_handler f) bs j"
    "owned (fv_inode_handler f) bs' j = owned (fv_inode_handler f) bs j"
    "owned (fv_inode_handler f) bs' i' \<inter> owned (fv_inode_handler f) bs' j = {}"
    "file_data (fv_inode_handler f) bs' j = file_data (fv_inode_handler f) bs j"
proof -
  note W = w [unfolded written_def Let_def]
  have own: "\<And>a. a \<in> owned (fv_inode_handler f) bs j \<Longrightarrow> marked f bs a" and op: "opened f bs k' m' j"
    using st by (auto simp: file_state_def)
  have same: "bs' ! a = bs ! a" if "a \<in> owned (fv_inode_handler f) bs j" for a using own [OF that] that dis W by blast
  have at: "inode_at (fv_inode_handler f) bs' (fm_inode m') = inode_at (fv_inode_handler f) bs (fm_inode m')"
    using W k(2) op by (simp add: opened_def)
  have W': "mounted f' bs'" "length bs' = length bs" "fv_inode_handler f' = fv_inode_handler f"
    "fv_open_files f' k' = fv_open_files f k'" "\<And>a. marked f bs a \<Longrightarrow> marked f' bs' a" using W k(1) by simp_all
  note F = file_state_frame [OF st W'(1-4) at W'(5) same]
  then show "file_state f' bs' k' m' j" "content (fv_inode_handler f) bs' j = content (fv_inode_handler f) bs j"
    "file_data (fv_inode_handler f) bs' j = file_data (fv_inode_handler f) bs j"
    and o: "owned (fv_inode_handler f) bs' j = owned (fv_inode_handler f) bs j" by blast+
  show "owned (fv_inode_handler f) bs' i' \<inter> owned (fv_inode_handler f) bs' j = {}"
    unfolding o using W own dis by blast
qed

text \<open>The file after its size was cut down.\<close>

lemma truncated_state:
  fixes now :: u64
  assumes st: "file_state f bs k m i" and wf: "wf_blocks bs" and sz: "sz < in_size i"
  defines "h \<equiv> fv_inode_handler f" and "i' \<equiv> i\<lparr>in_modified := now, in_size := sz\<rparr>"
  defines "bs' \<equiv> stored f bs (fm_inode m) i' False"
  shows "file_state f bs' k m i'" "content h bs' i' = take (unat sz) (content h bs i)" "owned h bs' i' = owned h bs i"
    "spare f bs' = spare f bs" "marked f bs' a = marked f bs a" "a \<in> data_area f \<Longrightarrow> bs' ! a = bs ! a"
    "n \<noteq> fm_inode m \<Longrightarrow> unat n < inode_count h \<Longrightarrow> inode_at h bs' n = inode_at h bs n"
    "file_data h bs' i' = file_data h bs i"
proof -
  have mt: "mounted f bs" and op: "opened f bs k m i" and own: "\<And>a. a \<in> owned h bs i \<Longrightarrow> marked f bs a"
    using st by (auto simp: file_state_def h_def)
  have n: "unat (fm_inode m) < inode_count (fv_inode_handler f)" and iwf: "inode_wf i'"
    using op by (auto simp: opened_def file_ok_def i'_def)
  note fr = stored_frame [OF mt n, of _ bs i' False, folded bs'_def]
  note at = stored_inode [OF mt wf refl iwf n, of _ False, folded bs'_def h_def]
  show mk: "marked f bs' a = marked f bs a" for a using fr by (intro marked_frame [OF mt]) blast
  show "spare f bs' = spare f bs" using fr ahead_frame [of f bs' bs] by (simp add: spare_def)
  show data: "bs' ! a = bs ! a" if "a \<in> data_area f" for a using fr that by blast
  show "inode_at h bs' n = inode_at h bs n" if "n \<noteq> fm_inode m" "unat n < inode_count h" using at [of n] that by (simp add: h_def)
  have "bs' ! a = bs ! a" if "a \<in> owned h bs i" for a using data marked_data [OF own [OF that]] by blast
  note own' = owned_frame [of h bs i bs', OF this]
  show "owned h bs' i' = owned h bs i" using own'(3) by (simp add: i'_def)
  show "file_data h bs' i' = file_data h bs i" using own'(4) by (simp add: i'_def file_data_def)
  show "content h bs' i' = take (unat sz) (content h bs i)"
    using own'(4) sz by (simp add: content_def i'_def file_data_def word_less_nat_alt min_def)
  have len: "length bs' = length bs" by (simp add: bs'_def)
  have "file_ok f bs' i'"
    using op sz own'(1,2) len by (simp add: opened_def file_ok_def meta_ok_def h_def i'_def word_less_nat_alt)
  then show "file_state f bs' k m i'"
    using op at [of "fm_inode m"] n own' mk own st len mounted_length [OF len, of f]
    by (simp add: file_state_def opened_def h_def file_sep_def) (simp add: i'_def)
qed

end
