(* ===== verification/File_Operations.thy ===== *)
theory File_Operations
  imports File_Write
begin

text \<open>
  Properties of reading, writing and seeking in open files, and an example volume with two files on
  which they apply.
\<close>


section \<open>An example volume\<close>

text \<open>
  Eight blocks: the superblock, the two bitmaps, one block of inodes, four data blocks. The files of
  inode 0 and 1 have one data block each and are open with the handles 7 and 8.
\<close>

definition demo_superblock :: superblock where
  "demo_superblock =
     \<lparr>sb_magic = MAGIC, sb_version = 1, sb_block_size = 256, sb_total_blocks = 8,
      sb_inode_bitmap_start = 1, sb_inode_bitmap_blocks = 1, sb_block_bitmap_start = 2, sb_block_bitmap_blocks = 1,
      sb_inode_table_start = 3, sb_inode_table_blocks = 1, sb_data_start = 4, sb_root_inode = 0,
      sb_free_inodes = 0, sb_free_data = 2\<rparr>"

definition demo_handler :: inode_table_handler where "demo_handler = inode_table_handler_new 3 1 4"

definition demo_format :: format_v1 where
  "demo_format =
     \<lparr>fv_superblock = demo_superblock, fv_inode_allocator = bitmap_allocator_new 1 1 2,
      fv_block_allocator = bitmap_allocator_new 2 1 4, fv_inode_handler = demo_handler,
      fv_directory_handler = directory_handler_new 4 0, fv_next_file_id = 9,
      fv_open_files = [7 \<mapsto> \<lparr>fm_inode = 0, fm_offset = 1, fm_mode = OM_ReadWrite\<rparr>,
                       8 \<mapsto> \<lparr>fm_inode = 1, fm_offset = 0, fm_mode = OM_ReadWrite\<rparr>]\<rparr>"

definition demo_inode :: "u32 \<Rightarrow> u64 \<Rightarrow> inode" where
  "demo_inode b sz = (inode_empty File 0 0)\<lparr>in_direct := replicate 12 b, in_blocks := 1, in_size := sz\<rparr>"

definition demo_start :: "bytes list" where
  "demo_start = [zero_block, 3 # replicate 255 0, 3 # replicate 255 0, zero_block,
     [1, 2, 3] @ replicate 253 0, [9, 9] @ replicate 254 0, zero_block, zero_block]"

definition demo_blocks :: "bytes list" where
  "demo_blocks = put_inode demo_handler (put_inode demo_handler demo_start 0 (demo_inode 0 3)) 1 (demo_inode 1 2)"

abbreviation demo_device :: memory_device where "demo_device \<equiv> \<lparr>md_blocks = demo_blocks\<rparr>"

lemma demo_inode_wf [simp]: "inode_wf (demo_inode b s)"
  by (simp add: demo_inode_def inode_wf_def)

lemma demo_slots:
  "slot_block demo_handler 0 = 3" "slot_block demo_handler 1 = 3"
  by (simp_all add: slot_block_def demo_handler_def inode_table_handler_new_def)

lemma demo_start_wf: "wf_blocks demo_start" "length demo_start = 8"
  by (simp_all add: demo_start_def wf_blocks_def BLOCK_SIZE_def)

lemma demo_wf: "wf_blocks demo_blocks" "length demo_blocks = 8"
  unfolding demo_blocks_def by (simp_all add: wf_put_inode demo_start_wf demo_slots)

lemma demo_inv: "mem_inv demo_device"
  using demo_wf by (simp add: mem_inv_def)

lemma demo_nth: "a \<noteq> 3 \<Longrightarrow> demo_blocks ! a = demo_start ! a"
  by (simp add: demo_blocks_def put_inode_def demo_slots)

lemma demo_at:
  "inode_at demo_handler demo_blocks 0 = Ok (demo_inode 0 3)" "inode_at demo_handler demo_blocks 1 = Ok (demo_inode 1 2)"
  by (simp_all add: demo_blocks_def inode_at_put_other inode_at_put_same wf_put_inode demo_start_wf demo_slots)

lemma demo_file:
  assumes "b \<le> 3"
  shows "inode_blocks demo_handler demo_blocks (demo_inode b s) = [b]" "meta_blocks demo_handler demo_blocks (demo_inode b s) = []"
    "owned demo_handler demo_blocks (demo_inode b s) = {4 + unat b}"
  by (simp_all add: inode_blocks_def block_at_def demo_inode_def meta_blocks_def owned_def data_addr_def demo_handler_def
      inode_table_handler_new_def)

lemma demo_mounted: "mounted demo_format demo_blocks"
  by (simp add: mounted_def demo_format_def demo_superblock_def alloc_on_def bitmap_allocator_new_def demo_handler_def demo_wf)

lemma demo_bit: "x < 8 \<Longrightarrow> bit_at (fv_block_allocator demo_format) demo_blocks x \<longleftrightarrow> x < 2"
proof -
  assume "x < 8"
  moreover have "(3 :: u8) = mask 2" by (simp add: mask_eq_exp_minus_1)
  then have "x < 8 \<Longrightarrow> bit (3 :: u8) x \<longleftrightarrow> x < 2" for x by (simp only: bit_mask_iff) simp
  ultimately show ?thesis by (simp add: bit_at_def demo_format_def bitmap_allocator_new_def demo_nth demo_start_def)
qed

lemma demo_marked: "b < 2 \<Longrightarrow> marked demo_format demo_blocks (4 + b)"
  unfolding marked_def using demo_bit [of b]
  by (intro exI [of _ b]) (simp add: demo_format_def demo_handler_def inode_table_handler_new_def bitmap_allocator_new_def)

lemma demo_state:
  "file_state demo_format demo_blocks 7 \<lparr>fm_inode = 0, fm_offset = 1, fm_mode = OM_ReadWrite\<rparr> (demo_inode 0 3)"
  "file_state demo_format demo_blocks 8 \<lparr>fm_inode = 1, fm_offset = 0, fm_mode = OM_ReadWrite\<rparr> (demo_inode 1 2)"
proof -
  have h: "fv_inode_handler demo_format = demo_handler" by (simp add: demo_format_def)
  have ok: "file_ok demo_format demo_blocks (demo_inode b s) \<and> file_sep demo_handler demo_blocks (demo_inode b s)"
    if "b \<le> 3" "s \<le> 3" for b s
  proof -
    have "unat b \<le> 3" "unat s \<le> 3" using that by (simp_all add: word_le_nat_alt)
    moreover from this have "b \<noteq> INVALID_ADDRESS" by auto
    moreover have "meta_ok demo_handler demo_blocks (demo_inode b s)"
      unfolding meta_ok_def demo_file [OF that(1)] by (simp add: demo_inode_def)
    ultimately show ?thesis
      unfolding file_ok_def file_sep_def h demo_file [OF that(1)] using demo_wf
      by (simp add: demo_file [OF that(1)] demo_format_def demo_superblock_def demo_handler_def inode_table_handler_new_def
          data_addr_def max_index_def bitmap_allocator_new_def word_le_nat_alt) (simp add: demo_inode_def BLOCK_SIZE_def)
  qed
  have tab: "table_ok demo_handler 8" "inode_count demo_handler = 2"
    by (simp_all add: table_ok_def demo_handler_def inode_table_handler_new_def)
  have mk: "\<forall>a \<in> owned demo_handler demo_blocks (demo_inode b s). marked demo_format demo_blocks a" if "unat b < 2" for b s
    using demo_file(3) [of b s] demo_marked [OF that] that by (simp add: word_le_nat_alt)
  show "file_state demo_format demo_blocks 7 \<lparr>fm_inode = 0, fm_offset = 1, fm_mode = OM_ReadWrite\<rparr> (demo_inode 0 3)"
    "file_state demo_format demo_blocks 8 \<lparr>fm_inode = 1, fm_offset = 0, fm_mode = OM_ReadWrite\<rparr> (demo_inode 1 2)"
    unfolding file_state_def opened_def h
    using demo_mounted ok [of 0 3] ok [of 1 2] mk [of 0 3] mk [of 1 2] demo_at tab demo_wf by (simp_all add: demo_format_def)
qed

lemma demo_ahead: "1 \<le> length (ahead (fv_block_allocator demo_format) demo_blocks)"
proof -
  have "2 \<in> set (ahead (fv_block_allocator demo_format) demo_blocks)"
    unfolding in_ahead using demo_bit [of 2] by (simp add: demo_format_def bitmap_allocator_new_def)
  then show ?thesis by (cases "ahead (fv_block_allocator demo_format) demo_blocks") auto
qed

lemma demo_room: "room demo_format demo_blocks (demo_inode 0 3) 2"
  using demo_ahead by (simp add: room_def lacking_def spare_def metadata_blocks_def demo_inode_def demo_format_def demo_superblock_def)

lemma demo_content: "content demo_handler demo_blocks (demo_inode 0 3) = [1, 2, 3]" "content demo_handler demo_blocks (demo_inode 1 2) = [9, 9]"
proof -
  have "data_addr demo_handler 0 = 4" "data_addr demo_handler 1 = 5"
    by (simp_all add: data_addr_def demo_handler_def inode_table_handler_new_def)
  then show "content demo_handler demo_blocks (demo_inode 0 3) = [1, 2, 3]" "content demo_handler demo_blocks (demo_inode 1 2) = [9, 9]"
    using demo_file(1) [of 0 3] demo_file(1) [of 1 2]
    by (simp_all add: content_def file_data_def demo_nth demo_start_def) (simp_all add: demo_inode_def)
qed


lemma write_runs:
  assumes dev: "block_device ops blks dinv" and d: "dinv d" and st: "file_state f (blks d) (fh_id file) m i"
    and buf: "buf \<noteq> []" "unat (fm_offset m) + length buf \<le> MAX_SIZE"
    and room: "room f (blks d) i ((unat (fm_offset m) + length buf + 255) div BLOCK_SIZE)"
  shows "\<exists>f' d' i'. fs_write ops now file buf (f, d) = (Ok (length buf), f', d') \<and> dinv d' \<and>
    written f (blks d) m i f' (blks d') i' (fh_id file) buf"
proof -
  have wf: "wf_blocks (blks d)" "length (blks d) < 4294967296"
    using block_device.blocks_wf [OF dev d] block_device.count_ok [OF dev d] unat_u32_bound [of "block_count ops d"] by simp_all
  from block_device.fs_write_execs [OF dev st buf(1) _ refl room wf, of now] buf(2)
  obtain f' bs' i' where e: "fs_execs dinv blks (fs_write ops now file buf) f (blks d) (Ok (length buf)) f' bs'"
    and w: "written f (blks d) m i f' bs' i' (fh_id file) buf" by (auto simp: MAX_SIZE_def)
  from fs_execsD [OF e d refl] w show ?thesis by blast
qed


lemma read_runs:
  assumes dev: "block_device ops blks dinv" and d: "dinv d"
    and op: "opened f (blks d) (fh_id file) m i" and buf: "buf \<noteq> []"
  defines "C \<equiv> content (fv_inode_handler f) (blks d) i" and "off \<equiv> unat (fm_offset m)"
  defines "n \<equiv> min (length buf) (length C - off)"
  shows "\<exists>d'. fs_read ops file buf (f, d) =
      (Ok (n, slice C off n @ drop n buf), with_offset f (fh_id file) m (fm_offset m + of_nat n), d') \<and>
    blks d' = blks d \<and> dinv d'"
proof -
  have ok: "file_ok f (blks d) i" using op by (simp add: opened_def)
  have wf: "wf_blocks (blks d)" by (rule block_device.blocks_wf [OF dev d])
  let ?D = "file_data (fv_inode_handler f) (blks d) i"
  have sz: "unat (in_size i) \<le> length ?D"
    using file_blocks_wf(2) [OF wf, of "fv_inode_handler f" i] ok by (auto simp: file_ok_def)
  then have lc: "length C = unat (in_size i)" by (simp add: C_def content_def)
  have "slice ?D off n = slice C off n"
    using sz by (simp add: C_def content_def slice_def n_def lc [unfolded C_def content_def] drop_take min_def)
  moreover have "length (slice C off n) = n" by (auto simp: slice_def n_def)
  ultimately have res: "splice buf 0 (slice ?D off n) = slice C off n @ drop n buf" by (simp add: splice_def)
  have n: "n = min (length buf) (unat (in_size i) - off)" by (simp add: n_def lc)
  show ?thesis
    using fs_execsD [OF block_device.fs_read_execs [OF dev op buf n [unfolded off_def]] d refl] res
    by (auto simp: off_def)
qed


lemma truncate_runs:
  assumes dev: "block_device ops blks dinv" and d: "dinv d" and st: "file_state f (blks d) (fh_id file) m i"
  shows "\<not> sz < in_size i \<Longrightarrow> \<exists>d'. truncate ops now file sz (f, d) = (Ok (), f, d') \<and> dinv d' \<and> blks d' = blks d"
    "sz < in_size i \<Longrightarrow> \<exists>d'. truncate ops now file sz (f, d) = (Ok (), f, d') \<and> dinv d' \<and>
      blks d' = stored f (blks d) (fm_inode m) (i\<lparr>in_modified := now, in_size := sz\<rparr>) False"
proof -
  have op: "opened f (blks d) (fh_id file) m i" and mt: "mounted f (blks d)" using st by (auto simp: file_state_def)
  have op': "fv_open_files f (fh_id file) = Some m" "unat (fm_inode m) < inode_count (fv_inode_handler f)" "inode_wf i"
    using op by (auto simp: opened_def file_ok_def)
  have start: "fs_execs dinv blks (truncate ops now file sz) f (blks d) r f bs'"
    if "fs_execs dinv blks (if sz < in_size i
         then dev (write_inode ops (fv_inode_handler f) (fm_inode m) (i\<lparr>in_modified := now, in_size := sz\<rparr>)) else returnM ())
       f (blks d) r f bs'" for r bs'
    unfolding truncate_def
    by (rule fs_bind_self, simp only: op'(1) option.case, rule fs_bind_dev [OF block_device.read_opened [OF dev op]]) (rule that)
  show "\<exists>d'. truncate ops now file sz (f, d) = (Ok (), f, d') \<and> dinv d' \<and> blks d' = blks d" if c: "\<not> sz < in_size i"
    using fs_execsD [OF start d refl, of "Ok ()" "blks d"] c by auto
  let ?i = "i\<lparr>in_modified := now, in_size := sz\<rparr>"
  have "execs dinv blks (write_inode ops (fv_inode_handler f) (fm_inode m) ?i) (blks d) (Ok ()) (stored f (blks d) (fm_inode m) ?i False)"
    using block_device.write_inode_execs [OF dev mounted_ok(3) [OF mt] op'(2), of ?i] op'(3) by (simp add: stored_def)
  then show "\<exists>d'. truncate ops now file sz (f, d) = (Ok (), f, d') \<and> dinv d' \<and> blks d' = stored f (blks d) (fm_inode m) ?i False"
    if c: "sz < in_size i"
    using fs_execsD [OF start d refl, of "Ok ()" "stored f (blks d) (fm_inode m) ?i False"] c by (simp add: dev_execs)
qed


section \<open>Properties\<close>

text \<open>
  C18. Reading an open file on any device that satisfies the block-device contract: \<open>read\<close> returns the
  bytes of the file from the offset of the handle on, as many as the buffer holds and the file has,
  in the front of the buffer; the rest of the buffer is unchanged, the offset advances by that
  number, and nothing is written to the device.
\<close>

theorem fs_read_content:
  assumes dev: "block_device ops blks dinv" and d: "dinv d"
    and op: "opened f (blks d) (fh_id file) m i" and buf: "buf \<noteq> []"
  defines "C \<equiv> content (fv_inode_handler f) (blks d) i" and "off \<equiv> unat (fm_offset m)"
  defines "n \<equiv> min (length buf) (length C - off)"
  shows "\<exists>d'. fs_read ops file buf (f, d) =
      (Ok (n, slice C off n @ drop n buf), with_offset f (fh_id file) m (fm_offset m + of_nat n), d') \<and>
    blks d' = blks d"
  using read_runs [OF dev d op buf] unfolding n_def C_def off_def by blast

theorem fs_read_content_witness:
  "\<exists>d'. fs_read mem_ops \<lparr>fh_id = 7\<rparr> [0, 0, 0, 0] (demo_format, demo_device) =
    (Ok (2, [2, 3, 0, 0]), with_offset demo_format 7 \<lparr>fm_inode = 0, fm_offset = 1, fm_mode = OM_ReadWrite\<rparr> 3, d')"
proof -
  have h: "fv_inode_handler demo_format = demo_handler" by (simp add: demo_format_def)
  have op: "opened demo_format (md_blocks demo_device) (fh_id \<lparr>fh_id = 7\<rparr>) \<lparr>fm_inode = 0, fm_offset = 1, fm_mode = OM_ReadWrite\<rparr> (demo_inode 0 3)"
    using demo_state(1) by (simp add: file_state_def)
  from fs_read_content [OF mem.block_device_axioms demo_inv op, of "[0, 0, 0, 0]"]
  show ?thesis by (auto simp: h demo_content slice_def)
qed

text \<open>
  C1. Writing an open file on a mounted volume, at an offset inside the file or at its end: when there
  are enough free blocks, \<open>write\<close> writes the whole buffer, growing the file through its direct,
  indirect and double-indirect blocks where necessary; the new contents of the file are the old ones
  with the buffer at the offset, the offset advances by its length, and the volume, the file and its
  blocks stay well-formed and marked in the bitmap.
\<close>

theorem fs_write_content:
  assumes dev: "block_device ops blks dinv" and d: "dinv d" and st: "file_state f (blks d) (fh_id file) m i"
    and buf: "buf \<noteq> []" "unat (fm_offset m) + length buf \<le> MAX_SIZE" and off: "fm_offset m \<le> in_size i"
    and room: "room f (blks d) i ((unat (fm_offset m) + length buf + 255) div BLOCK_SIZE)"
  defines "C \<equiv> content (fv_inode_handler f) (blks d) i"
  shows "\<exists>f' d' i'. fs_write ops now file buf (f, d) = (Ok (length buf), f', d') \<and>
    file_state f' (blks d') (fh_id file) (m\<lparr>fm_offset := fm_offset m + of_nat (length buf)\<rparr>) i' \<and>
    content (fv_inode_handler f') (blks d') i' =
      take (unat (fm_offset m)) C @ buf @ drop (unat (fm_offset m) + length buf) C"
proof -
  from write_runs [OF dev d st buf room, of now] obtain f' d' i' where
    run: "fs_write ops now file buf (f, d) = (Ok (length buf), f', d')"
    and w: "written f (blks d) m i f' (blks d') i' (fh_id file) buf" by blast
  note c = written_content [OF st block_device.blocks_wf [OF dev d] off w]
  with run show ?thesis by (auto simp: C_def)
qed

theorem fs_write_content_witness:
  "\<exists>f' d' i'. fs_write mem_ops 5 \<lparr>fh_id = 7\<rparr> (replicate 300 6) (demo_format, demo_device) = (Ok 300, f', d') \<and>
    content (fv_inode_handler f') (md_blocks d') i' = 1 # replicate 300 6"
proof -
  have h: "fv_inode_handler demo_format = demo_handler" by (simp add: demo_format_def)
  from fs_write_content [OF mem.block_device_axioms demo_inv, of demo_format "\<lparr>fh_id = 7\<rparr>"
      "\<lparr>fm_inode = 0, fm_offset = 1, fm_mode = OM_ReadWrite\<rparr>" "demo_inode 0 3" "replicate 300 6" 5] demo_state(1) demo_room
  show ?thesis by (simp add: h demo_content MAX_SIZE_def BLOCK_SIZE_def) (auto simp: demo_inode_def word_le_nat_alt)
qed

text \<open>
  Writing to one open file does not disturb another: any other open file of the volume whose
  blocks are marked in the bitmap and disjoint from those of the written file keeps its contents,
  its inode and its handle, even when the written file grows.
\<close>

lemma fs_write_isolated:
  assumes dev: "block_device ops blks dinv" and d: "dinv d" and st: "file_state f (blks d) (fh_id file) m i"
    and buf: "buf \<noteq> []" "unat (fm_offset m) + length buf \<le> MAX_SIZE"
    and room: "room f (blks d) i ((unat (fm_offset m) + length buf + 255) div BLOCK_SIZE)"
    and other: "file_state f (blks d) k' m' j" "k' \<noteq> fh_id file" "fm_inode m' \<noteq> fm_inode m"
      "owned (fv_inode_handler f) (blks d) i \<inter> owned (fv_inode_handler f) (blks d) j = {}"
  shows "\<exists>f' d'. fs_write ops now file buf (f, d) = (Ok (length buf), f', d') \<and> file_state f' (blks d') k' m' j \<and>
    content (fv_inode_handler f') (blks d') j = content (fv_inode_handler f) (blks d) j"
proof -
  from write_runs [OF dev d st buf room, of now] obtain f' d' i' where
    run: "fs_write ops now file buf (f, d) = (Ok (length buf), f', d')"
    and w: "written f (blks d) m i f' (blks d') i' (fh_id file) buf" by blast
  have "fv_inode_handler f' = fv_inode_handler f" using w by (simp add: written_def Let_def)
  with run written_other [OF other(1) w other(2-4)] show ?thesis by auto
qed

lemma seek_start: "fv_open_files f (fh_id file) = Some m \<Longrightarrow>
  seek ops file (SeekStart off) (f, d) = (Ok off, with_offset f (fh_id file) m off, d)"
  by (simp add: seek_def self_def set_offset_def update_def with_offset_def io_simps)

text \<open>
  Truncating an open file to fewer bytes than it has keeps exactly that prefix of its contents and
  leaves the handle where it was; a size that is not smaller changes nothing. The blocks of the file
  stay allocated in both cases.
\<close>

lemma truncate_prefix:
  assumes dev: "block_device ops blks dinv" and d: "dinv d" and st: "file_state f (blks d) (fh_id file) m i"
  defines "h \<equiv> fv_inode_handler f"
  shows "\<exists>d' i'. truncate ops now file sz (f, d) = (Ok (), f, d') \<and> file_state f (blks d') (fh_id file) m i' \<and>
    content h (blks d') i' = take (unat sz) (content h (blks d) i) \<and> owned h (blks d') i' = owned h (blks d) i \<and>
    (in_size i \<le> sz \<longrightarrow> blks d' = blks d)"
proof (cases "sz < in_size i")
  case False
  from truncate_runs(1) [OF dev d st False] obtain d' where
    "truncate ops now file sz (f, d) = (Ok (), f, d')" "blks d' = blks d" by blast
  moreover have "take (unat sz) (content h (blks d) i) = content h (blks d) i"
    using False by (simp add: content_def word_less_nat_alt)
  ultimately show ?thesis using st by (intro exI [of _ d'] exI [of _ i]) simp
next
  case True
  from truncate_runs(2) [OF dev d st True] obtain d' where run: "truncate ops now file sz (f, d) = (Ok (), f, d')"
    "blks d' = stored f (blks d) (fm_inode m) (i\<lparr>in_modified := now, in_size := sz\<rparr>) False" by blast
  with truncated_state(1-3) [OF st block_device.blocks_wf [OF dev d] True, where now = now] True show ?thesis
    unfolding h_def run(2) [symmetric] by (metis not_le)
qed

lemma truncate_prefix_witness:
  "\<exists>d' i'. truncate mem_ops 5 \<lparr>fh_id = 7\<rparr> 2 (demo_format, demo_device) = (Ok (), demo_format, d') \<and>
    content demo_handler (md_blocks d') i' = [1, 2]"
proof -
  have h: "fv_inode_handler demo_format = demo_handler" by (simp add: demo_format_def)
  from truncate_prefix [OF mem.block_device_axioms demo_inv, of demo_format "\<lparr>fh_id = 7\<rparr>"
      "\<lparr>fm_inode = 0, fm_offset = 1, fm_mode = OM_ReadWrite\<rparr>" "demo_inode 0 3" 5 2] demo_state(1)
  show ?thesis by (auto simp: h demo_content)
qed

lemma sint_small: "unat (x :: u64) < 2 ^ 63 \<Longrightarrow> sint x = int (unat x)"
proof -
  assume "unat x < 2 ^ 63"
  then have "int (unat x) < 2 ^ 63" by (metis of_nat_less_numeral_power_cancel_iff)
  moreover have "- (2 ^ 63) \<le> int (unat x)" by (rule order_trans [of _ 0]) (simp, rule of_nat_0_le_iff)
  ultimately have "signed_take_bit 63 (int (unat x)) = int (unat x)" by (intro signed_take_bit_int_eq_self)
  then show ?thesis by (simp add: sint_uint)
qed

lemma seek_current: "fv_open_files f (fh_id file) = Some m \<Longrightarrow>
  seek ops file (SeekCurrent k) (f, d) =
    (case add_i64 (fm_offset m) k of Ok s \<Rightarrow> (Ok (of_int (max s 0)), with_offset f (fh_id file) m (of_int (max s 0)), d)
     | Err e \<Rightarrow> (Err e, f, d) | Panic \<Rightarrow> (Panic, f, d) | Diverge \<Rightarrow> (Diverge, f, d))"
  by (simp add: seek_def self_def set_offset_def update_def with_offset_def io_simps split: res.splits)

lemma add_i64_small:
  fixes k :: i64
  assumes "unat x < 2 ^ 63"
  shows "add_i64 x k = (if int (unat x) + sint k < 2 ^ 63 then Ok (int (unat x) + sint k) else Panic)"
proof -
  have "- (2 ^ 63) \<le> sint k" using sint_ge [of k] by simp
  then have "- (2 ^ 63) \<le> int (unat x) + sint k" by linarith
  then show ?thesis by (simp add: add_i64_def sint_small [OF assms] Let_def)
qed

lemma of_int_max: "(of_int (max s 0) :: u64) = of_nat (nat s)"
  by (cases "0 \<le> s") (simp_all add: max_def)

text \<open>
  C28. A relative seek of an offset below \<open>2 ^ 63\<close> moves it by the signed displacement and stops at zero;
  it goes past the end of the file without complaint. When the sum does not fit in an \<open>i64\<close> the
  addition overflows and the program panics, with the offset unchanged.
\<close>

theorem seek_current_bounds:
  fixes k :: i64
  assumes op: "fv_open_files f (fh_id file) = Some m" and off: "unat (fm_offset m) < 2 ^ 63"
  defines "s \<equiv> int (unat (fm_offset m)) + sint k"
  shows "seek ops file (SeekCurrent k) (f, d) =
    (if s < 2 ^ 63 then (Ok (of_nat (nat s)), with_offset f (fh_id file) m (of_nat (nat s)), d) else (Panic, f, d))"
  unfolding seek_current [OF op] add_i64_small [OF off] s_def by (simp add: of_int_max)

theorem seek_current_bounds_witness:
  "seek mem_ops \<lparr>fh_id = 7\<rparr> (SeekCurrent (- 5)) (demo_format, demo_device) =
    (Ok 0, with_offset demo_format 7 \<lparr>fm_inode = 0, fm_offset = 1, fm_mode = OM_ReadWrite\<rparr> 0, demo_device)"
proof -
  have "fv_open_files demo_format (fh_id \<lparr>fh_id = 7\<rparr>) = Some \<lparr>fm_inode = 0, fm_offset = 1, fm_mode = OM_ReadWrite\<rparr>"
    by (simp add: demo_format_def)
  from seek_current_bounds [OF this, of mem_ops "- 5" demo_device] show ?thesis by simp
qed

text \<open>
  C29. After a handle was closed, reading, writing, seeking and truncating through it are refused with
  \<open>FileNotOpen\<close>, and neither the format nor the device changes; the other handles stay open.
\<close>

theorem closed_handle_rejected:
  "\<exists>f'. close_file file (f, d) = (Ok (), f', d) \<and>
    fs_read ops file buf (f', d) = (Err (FileNotOpen (fh_id file)), f', d) \<and>
    fs_write ops now file buf (f', d) = (Err (FileNotOpen (fh_id file)), f', d) \<and>
    seek ops file pos (f', d) = (Err (FileNotOpen (fh_id file)), f', d) \<and>
    truncate ops now file sz (f', d) = (Err (FileNotOpen (fh_id file)), f', d) \<and>
    (\<forall>k. k = fh_id file \<or> fv_open_files f' k = fv_open_files f k)"
  by (simp add: close_file_def fs_read_def fs_write_def seek_def truncate_def self_def update_def io_simps)

end
