(* ===== verification/Format_Mount.thy ===== *)
theory Format_Mount
  imports Directory_Update Volume
begin

text \<open>
  Formatting a device and mounting it. The sizes of the regions are those of \<open>FormatV1::format\<close> for a
  device of \<open>n\<close> blocks, with \<open>5 \<le> n \<le> 8192\<close>: five blocks hold one block of each region, and above 8192
  blocks the one-block inode bitmap that \<open>format\<close> reserves no longer covers the inode table.
\<close>

definition table_size :: "nat \<Rightarrow> nat" where "table_size n = ((256 * n + 1023) div 1024 + 1) div 2"
definition bitmap_size :: "nat \<Rightarrow> nat" where "bitmap_size n = (n + 2047) div 2048"

definition fresh_superblock :: "nat \<Rightarrow> superblock" where
  "fresh_superblock n =
     \<lparr>sb_magic = MAGIC, sb_version = 1, sb_block_size = 256, sb_total_blocks = of_nat n,
      sb_inode_bitmap_start = 1, sb_inode_bitmap_blocks = 1,
      sb_block_bitmap_start = 2, sb_block_bitmap_blocks = of_nat (bitmap_size n),
      sb_inode_table_start = of_nat (2 + bitmap_size n), sb_inode_table_blocks = of_nat (table_size n),
      sb_data_start = of_nat (2 + bitmap_size n + table_size n), sb_root_inode = 0,
      sb_free_inodes = of_nat (table_size n * 2 - 1),
      sb_free_data = of_nat (n - (2 + bitmap_size n + table_size n) - 1)\<rparr>"

definition fresh_format :: "nat \<Rightarrow> format_v1" where
  "fresh_format n =
     \<lparr>fv_superblock = fresh_superblock n,
      fv_inode_allocator = bitmap_allocator_new 1 1 (of_nat (table_size n * 2)),
      fv_block_allocator = bitmap_allocator_new 2 (of_nat (bitmap_size n)) (of_nat (n - (2 + bitmap_size n + table_size n))),
      fv_inode_handler = inode_table_handler_new (of_nat (2 + bitmap_size n)) (of_nat (table_size n))
        (of_nat (2 + bitmap_size n + table_size n)),
      fv_directory_handler = directory_handler_new (of_nat (2 + bitmap_size n + table_size n)) 0,
      fv_next_file_id = 0, fv_open_files = Map.empty\<rparr>"

definition root_inode :: "u64 \<Rightarrow> inode" where
  "root_inode now = (inode_empty Directory 0xFFFF now)\<lparr>in_direct := (replicate 12 INVALID_ADDRESS)[0 := 0],
     in_blocks := 1, in_size := 256\<rparr>"

lemma sizes:
  assumes "5 \<le> n" "n \<le> 8192"
  shows "1 \<le> table_size n" "table_size n \<le> 1024" "1 \<le> bitmap_size n" "bitmap_size n \<le> 4"
    "2 + bitmap_size n + table_size n < n" "n \<le> bitmap_size n * 2048"
proof -
  have t: "(256 * n + 1023) div 1024 = (n + 3) div 4"
  proof -
    have "256 * n + 1023 = (n + 3) * 256 + 255" by simp
    then have "(256 * n + 1023) div 256 = n + 3" by (simp only: div_mult_self3)
    then show ?thesis using div_mult2_eq [of "256 * n + 1023" 256 4] by simp
  qed
  show "1 \<le> table_size n" "table_size n \<le> 1024" using assms unfolding table_size_def t by linarith+
  show b: "1 \<le> bitmap_size n" "bitmap_size n \<le> 4" "n \<le> bitmap_size n * 2048" using assms unfolding bitmap_size_def by linarith+
  show "2 + bitmap_size n + table_size n < n" using assms unfolding table_size_def t bitmap_size_def by linarith
qed

lemma format_sizes_eq:
  assumes "5 \<le> n" "n \<le> 8192"
  shows "format_sizes (of_nat n) = Ok (of_nat (table_size n), 1, of_nat (bitmap_size n))"
proof -
  have u: "unat (of_nat n :: u32) = n" using assms by (simp add: unat_u32_of_nat)
  define cap where "cap = (of_nat (256 * n) :: u32)"
  have m: "mulW (of_nat BLOCK_SIZE) (of_nat n :: u32) = Ok cap" using assms by (simp add: mulW_def u BLOCK_SIZE_def cap_def)
  have c: "unat cap = 256 * n" unfolding cap_def using assms by (intro unat_u32_of_nat) simp
  define ic where "ic = div_ceilW cap INODE_DENSITY"
  have ic: "unat ic = (256 * n + 1023) div 1024"
    using unat_div_ceilW [of INODE_DENSITY cap] c by (simp add: INODE_DENSITY_def ic_def)
  have tb: "unat (div_ceilW ic 2) = table_size n"
    using unat_div_ceilW [of 2 ic] by (simp add: ic table_size_def)
  note s = sizes [OF assms]
  have t: "div_ceilW ic 2 = of_nat (table_size n)" using tb s(2) by (simp add: word_unat_eq_iff unat_u32_of_nat)
  have "unat (div_ceilW (of_nat (table_size n) :: u32) 2048) = (table_size n + 2047) div 2048"
    using unat_div_ceilW [of 2048 "of_nat (table_size n) :: u32"] s(2) by (simp add: unat_u32_of_nat)
  moreover have "(table_size n + 2047) div 2048 = 1" using s(1,2) by simp
  ultimately have i: "div_ceilW (of_nat (table_size n) :: u32) 2048 = 1" by (simp add: word_unat_eq_iff)
  have "unat (div_ceilW (of_nat n :: u32) 2048) = bitmap_size n"
    using unat_div_ceilW [of 2048 "of_nat n :: u32"] by (simp add: u bitmap_size_def)
  then have b: "div_ceilW (of_nat n :: u32) 2048 = of_nat (bitmap_size n)"
    using s(4) by (simp add: word_unat_eq_iff unat_u32_of_nat)
  have bits: "8 * of_nat BLOCK_SIZE = (2048 :: u32)" by (simp add: BLOCK_SIZE_def)
  show ?thesis unfolding format_sizes_def Let_def bits by (simp add: m ic_def [symmetric] t i b)
qed

lemma u32_arith:
  "x + y < 4294967296 \<Longrightarrow> addW (of_nat x :: u32) (of_nat y) = Ok (of_nat (x + y))"
  "y \<le> x \<Longrightarrow> x < 4294967296 \<Longrightarrow> subW (of_nat x :: u32) (of_nat y) = Ok (of_nat (x - y))"
  "x * y < 4294967296 \<Longrightarrow> x < 4294967296 \<Longrightarrow> y < 4294967296 \<Longrightarrow> mulW (of_nat x :: u32) (of_nat y) = Ok (of_nat (x * y))"
  by (simp_all add: addW_def subW_def mulW_def unat_u32_of_nat of_nat_diff)

lemma superblock_new_eq:
  assumes "5 \<le> n" "n \<le> 8192"
  shows "superblock_new MAGIC 1 (of_nat BLOCK_SIZE) (of_nat n) 1 (of_nat (bitmap_size n)) (of_nat (table_size n)) 0 =
    Ok ((fresh_superblock n)\<lparr>sb_free_inodes := of_nat (table_size n * 2),
      sb_free_data := of_nat (n - (2 + bitmap_size n + table_size n))\<rparr>)"
proof -
  note s = sizes [OF assms]
  have "addW 2 (of_nat (bitmap_size n)) = Ok (of_nat (2 + bitmap_size n) :: u32)"
    using u32_arith(1) [of 2 "bitmap_size n"] s(4) by simp
  moreover have "addW (of_nat (2 + bitmap_size n)) (of_nat (table_size n)) = Ok (of_nat (2 + bitmap_size n + table_size n) :: u32)"
    by (rule u32_arith(1)) (use s(2,4) in simp)
  moreover have "mulW (of_nat (table_size n)) 2 = Ok (of_nat (table_size n * 2) :: u32)"
    using u32_arith(3) [of "table_size n" 2] s(2) by simp
  moreover have "subW (of_nat n) (of_nat (2 + bitmap_size n + table_size n)) = Ok (of_nat (n - (2 + bitmap_size n + table_size n)) :: u32)"
    by (rule u32_arith(2)) (use s(5) assms in simp_all)
  moreover have "addW 1 1 = Ok (2 :: u32)" by (simp add: addW_def)
  ultimately show ?thesis
    unfolding superblock_new_def Let_def inodes_per_block_eq
    by (simp only: bindR.simps) (simp add: fresh_superblock_def BLOCK_SIZE_def)
qed

lemma format_of_eq:
  assumes "5 \<le> n" "n \<le> 8192"
  shows "format_of (fresh_superblock n) = Ok (fresh_format n)"
proof -
  note s = sizes [OF assms]
  have a: "subW (of_nat n) 1 = Ok (of_nat (n - 1) :: u32)"
    "subW (of_nat (n - 1)) (of_nat (table_size n)) = Ok (of_nat (n - 1 - table_size n) :: u32)"
    "subW (of_nat (n - 1 - table_size n)) (of_nat (bitmap_size n)) = Ok (of_nat (n - 1 - table_size n - bitmap_size n) :: u32)"
    "subW (of_nat (n - 1 - table_size n - bitmap_size n)) 1 = Ok (of_nat (n - 1 - table_size n - bitmap_size n - 1) :: u32)"
    using u32_arith(2) [of 1 n] u32_arith(2) [of "table_size n" "n - 1"] u32_arith(2) [of "bitmap_size n" "n - 1 - table_size n"]
      u32_arith(2) [of 1 "n - 1 - table_size n - bitmap_size n"] s(5) assms(2) by simp_all
  have m: "mulW (of_nat (table_size n)) 2 = Ok (of_nat (table_size n * 2) :: u32)"
    using u32_arith(3) [of "table_size n" 2] s(2) by simp
  have e: "n - 1 - table_size n - bitmap_size n - 1 = n - (2 + bitmap_size n + table_size n)" by simp
  have sb: "sb_total_blocks (fresh_superblock n) = of_nat n" "sb_inode_bitmap_blocks (fresh_superblock n) = 1"
    "sb_inode_table_blocks (fresh_superblock n) = of_nat (table_size n)"
    "sb_block_bitmap_blocks (fresh_superblock n) = of_nat (bitmap_size n)" by (simp_all add: fresh_superblock_def)
  show ?thesis
    unfolding format_of_def sb a bindR.simps inodes_per_block_eq m e
    by (simp add: fresh_format_def fresh_superblock_def)
qed

lemma fresh_mounted:
  assumes "5 \<le> n" "n \<le> 8192" "length bs = n"
  shows "mounted (fresh_format n) bs"
proof -
  note s = sizes [OF assms(1,2)]
  have u: "unat (of_nat (2 + bitmap_size n) :: u32) = 2 + bitmap_size n" "unat (of_nat (table_size n) :: u32) = table_size n"
    "unat (of_nat (2 + bitmap_size n + table_size n) :: u32) = 2 + bitmap_size n + table_size n"
    "unat (of_nat (bitmap_size n) :: u32) = bitmap_size n" "unat (of_nat n :: u32) = n"
    "unat (of_nat (table_size n * 2) :: u32) = table_size n * 2"
    "unat (of_nat (n - (2 + bitmap_size n + table_size n)) :: u32) = n - (2 + bitmap_size n + table_size n)"
    using s(2,4,5) assms(2) by (intro unat_u32_of_nat; linarith)+
  show ?thesis
    unfolding mounted_def Let_def fresh_format_def fresh_superblock_def alloc_on_def bitmap_allocator_new_def
    using s assms by (simp only: format_v1.simps superblock.simps bitmap_allocator.simps u) (simp add: assms(3))
qed

context block_device
begin

lemma block_count_execs: "execs inv blks (getM (block_count ops)) bs (Ok (of_nat (length bs))) bs"
proof -
  have "block_count ops d = of_nat (length (blks d))" if "inv d" for d
    using count_ok [OF that] by (metis of_nat_unat ucast_id)
  then show ?thesis by (auto simp: execs_def getM_def)
qed

lemma zero_loop_execs:
  "m \<le> length bs \<Longrightarrow> length bs < 4294967296 \<Longrightarrow>
   \<exists>bs'. execs inv blks (foldM (\<lambda>i _. write_block ops i (replicate BLOCK_SIZE 0)) (map of_nat [k..<m]) ()) bs (Ok ()) bs' \<and>
     length bs' = length bs \<and> (\<forall>a. bs' ! a = (if k \<le> a \<and> a < m then zero_block else bs ! a))"
proof (induction "m - k" arbitrary: k bs)
  case 0
  then show ?case by (auto intro!: exI [of _ bs])
next
  case (Suc n)
  then have k: "k < m" and u: "unat (of_nat k :: u32) = k" by (simp_all add: unat_u32_of_nat)
  have w: "execs inv blks (write_block ops (of_nat k) (replicate BLOCK_SIZE 0)) bs (Ok ()) (bs[k := zero_block])"
    using write_execs [of "of_nat k" bs "replicate BLOCK_SIZE 0"] Suc.prems k u by simp
  have n: "n = m - Suc k" using Suc.hyps(2) by simp
  from Suc.hyps(1) [OF n, of "bs[k := zero_block]"] Suc.prems obtain bs' where
    r: "execs inv blks (foldM (\<lambda>i _. write_block ops i (replicate BLOCK_SIZE 0)) (map of_nat [Suc k..<m]) ()) (bs[k := zero_block]) (Ok ()) bs'"
      "length bs' = length bs" "\<forall>a. bs' ! a = (if Suc k \<le> a \<and> a < m then zero_block else bs[k := zero_block] ! a)" by auto
  have "bs' ! a = (if k \<le> a \<and> a < m then zero_block else bs ! a)" for a
    using r(3) k Suc.prems by (cases "a = k") (auto simp: Suc_le_eq)
  with r(2) execs_bind [OF w, of "\<lambda>_. foldM (\<lambda>i _. write_block ops i (replicate BLOCK_SIZE 0)) (map of_nat [Suc k..<m]) ()", OF r(1)] k
  show ?case by (auto simp: upt_conv_Cons)
qed

lemma zero_blocks_execs:
  assumes "unat start + unat cnt \<le> length bs" "length bs < 4294967296"
  shows "\<exists>bs'. execs inv blks (zero_blocks ops start cnt) bs (Ok ()) bs' \<and> length bs' = length bs \<and>
    (\<forall>a. bs' ! a = (if unat start \<le> a \<and> a < unat start + unat cnt then zero_block else bs ! a))"
proof -
  have add: "addW start cnt = Ok (start + cnt)" "unat (start + cnt) = unat start + unat cnt"
    using assms unat_add_small [of start cnt] by (simp_all add: addW_def)
  show ?thesis
    using zero_loop_execs [of "unat start + unat cnt" bs "unat start"] assms by (simp add: zero_blocks_def add)
qed

end


abbreviation first_bit :: bytes where "first_bit \<equiv> (replicate BLOCK_SIZE 0)[0 := 1]"

lemma bit_first: "k < BLOCK_SIZE \<Longrightarrow> bit (first_bit ! k) j \<longleftrightarrow> k = 0 \<and> j = 0"
  by (cases "k = 0") (auto simp: BLOCK_SIZE_def bit_1_iff)

abbreviation fresh_handler :: "nat \<Rightarrow> inode_table_handler" where "fresh_handler n \<equiv> fv_inode_handler (fresh_format n)"

lemma wf_by_nth:
  assumes "wf_blocks bs" "\<forall>a. bs' ! a = (if P a then zero_block else bs ! a)" "length bs' = length bs"
  shows "wf_blocks bs'"
  using assms by (auto simp: wf_blocks_def all_set_conv_all_nth)

text \<open>The device after \<open>format\<close>.\<close>

definition formatted :: "u64 \<Rightarrow> bytes list \<Rightarrow> bool" where
  "formatted now bs \<longleftrightarrow>
     (let n = length bs; f = fresh_format n in
      5 \<le> n \<and> n \<le> 8192 \<and>
      bs ! 0 = splice first_bit 0 (concat (superblock_fields (fresh_superblock n))) \<and>
      (\<forall>x < 2048. bit_at (fv_inode_allocator f) bs x \<longleftrightarrow> x = 0) \<and>
      (\<forall>x < bitmap_size n * 2048. bit_at (fv_block_allocator f) bs x \<longleftrightarrow> x = 0) \<and>
      inode_at (fv_inode_handler f) bs 0 = Ok (root_inode now) \<and>
      dir_layout (fv_inode_handler f) bs (root_inode now) [dir_start 0 0])"

lemma root_inode_simps [simp]:
  "inode_wf (root_inode now)" "in_blocks (root_inode now) = 1" "in_file_type (root_inode now) = Directory"
  "inode_blocks h bs (root_inode now) = [0]" "meta_blocks h bs (root_inode now) = []"
  by (simp_all add: root_inode_def inode_wf_def inode_empty_def inode_blocks_def block_at_def meta_blocks_def)

lemma root_add_block: "add_block ops h (inode_empty Directory 0xFFFF now) 0 [] =
   returnM ((inode_empty Directory 0xFFFF now)\<lparr>in_direct := (replicate 12 INVALID_ADDRESS)[0 := 0], in_blocks := 1\<rparr>)"
  by (simp add: add_block_def place_block_def inode_empty_def updateR_def addW_def Let_def)

text \<open>The two bitmaps after the first bit of each was set.\<close>

lemma fresh_bits:
  assumes b: "bs ! 1 = first_bit" "bs ! 2 = first_bit" "\<forall>k. 0 < k \<and> k < bitmap_size n \<longrightarrow> bs ! (2 + k) = zero_block"
  shows "\<forall>x < 2048. bit_at (fv_inode_allocator (fresh_format n)) bs x \<longleftrightarrow> x = 0"
    "\<forall>x < bitmap_size n * 2048. bit_at (fv_block_allocator (fresh_format n)) bs x \<longleftrightarrow> x = 0"
proof -
  have md: "x mod 2048 div 8 < BLOCK_SIZE" for x :: nat
    using less_mult_imp_div_less [of "x mod 2048" 256 8] by (simp add: BLOCK_SIZE_def)
  have zero: "x mod 2048 div 8 = 0 \<and> x mod 8 = 0 \<longleftrightarrow> x = 0" if "x div 2048 = 0" for x :: nat
    using that same_bit [of x 0] by auto
  have "bit_at (fv_inode_allocator (fresh_format n)) bs x \<longleftrightarrow> x = 0" if "x < 2048" for x
    using that b(1) bit_first [OF md [of x], of "x mod 8"] zero [of x] by (simp add: bit_at_def fresh_format_def bitmap_allocator_new_def)
  then show "\<forall>x < 2048. bit_at (fv_inode_allocator (fresh_format n)) bs x \<longleftrightarrow> x = 0" by blast
  have "bit_at (fv_block_allocator (fresh_format n)) bs x \<longleftrightarrow> x = 0" if "x < bitmap_size n * 2048" for x
  proof (cases "x div 2048 = 0")
    case True
    then show ?thesis using b(2) bit_first [OF md [of x], of "x mod 8"] zero [of x]
      by (simp add: bit_at_def fresh_format_def bitmap_allocator_new_def)
  next
    case False
    moreover have "x div 2048 < bitmap_size n" using that by (simp add: less_mult_imp_div_less)
    ultimately show ?thesis using b(3) md [of x] by (auto simp: bit_at_def fresh_format_def bitmap_allocator_new_def)
  qed
  then show "\<forall>x < bitmap_size n * 2048. bit_at (fv_block_allocator (fresh_format n)) bs x \<longleftrightarrow> x = 0" by blast
qed

text \<open>The handler of the new inode table and the blocks the root directory is written to.\<close>

lemma fresh_layout:
  assumes n: "5 \<le> n" "n \<le> 8192"
  shows "table_ok (fresh_handler n) n" "unat (0 :: u32) < inode_count (fresh_handler n)"
    "slot_block (fresh_handler n) 0 = 2 + bitmap_size n" "data_addr (fresh_handler n) 0 = 2 + bitmap_size n + table_size n"
proof -
  note s = sizes [OF n]
  let ?h = "fresh_handler n" let ?B = "bitmap_size n" let ?T = "table_size n"
  have hf: "unat (ih_inode_table_start ?h) = 2 + ?B" "unat (ih_inode_table_blocks ?h) = ?T" "unat (ih_data_start ?h) = 2 + ?B + ?T"
    using s(2,4) unat_u32_of_nat [of "2 + ?B"] unat_u32_of_nat [of ?T] unat_u32_of_nat [of "2 + ?B + ?T"]
    by (simp_all add: fresh_format_def inode_table_handler_new_def)
  show "table_ok ?h n" using mounted_ok(3) [OF fresh_mounted [OF n, of "replicate n zero_block"]] by simp
  show "unat (0 :: u32) < inode_count ?h" using s(1) hf(2) by simp
  show "slot_block ?h 0 = 2 + ?B" "data_addr ?h 0 = 2 + ?B + ?T" by (simp_all add: slot_block_def data_addr_def hf)
qed

lemma formatted_image:
  assumes n: "5 \<le> n" "n \<le> 8192" "length bs = n"
    and bits: "bs ! 1 = first_bit" "bs ! 2 = first_bit" "\<forall>k. 0 < k \<and> k < bitmap_size n \<longrightarrow> bs ! (2 + k) = zero_block"
    and root: "inode_at (fresh_handler n) bs 0 = Ok (root_inode now)" "dir_layout (fresh_handler n) bs (root_inode now) [dir_start 0 0]"
  defines "bs' \<equiv> bs[0 := splice first_bit 0 (concat (superblock_fields (fresh_superblock n)))]"
  shows "formatted now bs'" "length bs' = n"
proof -
  let ?h = "fresh_handler n"
  note L = fresh_layout [OF n(1,2)]
  have fr: "bs' ! a = bs ! a" if "a \<noteq> 0" for a using that by (simp add: bs'_def)
  show len: "length bs' = n" by (simp add: bs'_def n)
  have b: "bs' ! 1 = first_bit" "bs' ! 2 = first_bit" "\<forall>k. 0 < k \<and> k < bitmap_size n \<longrightarrow> bs' ! (2 + k) = zero_block"
    "bs' ! 0 = splice first_bit 0 (concat (superblock_fields (fresh_superblock n)))"
    using bits n by (simp_all add: bs'_def)
  have "inode_at ?h bs' 0 = Ok (root_inode now)" using root(1) fr [of "slot_block ?h 0"] L(3) by (simp add: inode_at_def)
  moreover have "dir_layout ?h bs' (root_inode now) [dir_start 0 0]"
    using root(2) fr [of "data_addr ?h 0"] L(4) n(3) len by (simp add: dir_layout_def meta_ok_def)
  ultimately show "formatted now bs'" unfolding formatted_def Let_def len using n(1,2) b(4) fresh_bits [OF b(1-3)] by simp
qed

context block_device
begin

lemma fresh_bitmaps_execs:
  assumes n: "5 \<le> length bs" "length bs \<le> 8192" and wf: "wf_blocks bs"
  defines "B \<equiv> bitmap_size (length bs)"
  shows "\<exists>bs1 bs2 bs3 bs4. execs inv blks (zero_blocks ops 2 1) bs (Ok ()) bs1 \<and> execs inv blks (zero_blocks ops 3 (of_nat B)) bs1 (Ok ()) bs2 \<and>
    execs inv blks (write_block ops 1 first_bit) bs2 (Ok ()) bs3 \<and> execs inv blks (write_block ops 2 first_bit) bs3 (Ok ()) bs4 \<and>
    length bs4 = length bs \<and> wf_blocks bs4 \<and> bs4 ! 1 = first_bit \<and> bs4 ! 2 = first_bit \<and> (\<forall>k. 0 < k \<and> k < B \<longrightarrow> bs4 ! (2 + k) = zero_block)"
proof -
  note s = sizes [OF n]
  have uB: "unat (of_nat B :: u32) = B" using s(4) by (simp add: unat_u32_of_nat B_def)
  have l: "length bs < 4294967296" using n by simp
  from zero_blocks_execs [of 2 1 bs] n l obtain bs1 where e1: "execs inv blks (zero_blocks ops 2 1) bs (Ok ()) bs1"
    "length bs1 = length bs" "\<forall>a. bs1 ! a = (if 2 \<le> a \<and> a < 3 then zero_block else bs ! a)" by auto
  have "3 + B \<le> length bs" using s(1,5) by (simp add: B_def)
  with zero_blocks_execs [of 3 "of_nat B" bs1] l e1(2) obtain bs2 where
    e2: "execs inv blks (zero_blocks ops 3 (of_nat B)) bs1 (Ok ()) bs2" "length bs2 = length bs"
      "\<forall>a. bs2 ! a = (if 3 \<le> a \<and> a < 3 + B then zero_block else bs1 ! a)" by (auto simp: uB)
  have "wf_blocks bs1" by (rule wf_by_nth [OF _ e1(3)]) (simp_all add: wf e1(2))
  then have wf2: "wf_blocks bs2" by (rule wf_by_nth [OF _ e2(3)]) (simp add: e1(2) e2(2))
  let ?bs3 = "bs2[1 := first_bit]" let ?bs4 = "?bs3[2 := first_bit]"
  have "execs inv blks (write_block ops 1 first_bit) bs2 (Ok ()) ?bs3" "execs inv blks (write_block ops 2 first_bit) ?bs3 (Ok ()) ?bs4"
    using write_execs [of 1 bs2 first_bit] write_execs [of 2 ?bs3 first_bit] e2(2) n by simp_all
  moreover have "\<forall>k. 0 < k \<and> k < B \<longrightarrow> ?bs4 ! (2 + k) = zero_block" using e2(3) by simp
  moreover have "length ?bs4 = length bs" "wf_blocks ?bs4" "?bs4 ! 1 = first_bit" "?bs4 ! 2 = first_bit"
    using e2(2) n wf2 by simp_all
  ultimately show ?thesis using e1(1) e2(1) by blast
qed

lemma fresh_root_execs:
  assumes n: "5 \<le> length bs" "length bs \<le> 8192" and wf: "wf_blocks bs"
  defines "h \<equiv> fresh_handler (length bs)"
  shows "\<exists>bs1 bs2. execs inv blks (write_inode ops h 0 (root_inode now)) bs (Ok ()) bs1 \<and>
    execs inv blks (write_directory_with_inode ops (directory_handler_new (ih_data_start h) 0)
        \<lparr>dy_inode = 0, dy_entries = dir_start 0 0\<rparr> (root_inode now) h) bs1 (Ok ()) bs2 \<and>
    length bs2 = length bs \<and> (\<forall>a < 2 + bitmap_size (length bs). bs2 ! a = bs ! a) \<and>
    inode_at h bs2 0 = Ok (root_inode now) \<and> dir_layout h bs2 (root_inode now) [dir_start 0 0]"
proof -
  note s = sizes [OF n] and L = fresh_layout [OF n, folded h_def]
  let ?bs1 = "put_inode h bs 0 (root_inode now)"
  let ?bs2 = "put_blocks h ?bs1 (contents h ?bs1 (root_inode now) [dir_start 0 0])"
  have slot: "slot_block h 0 < length bs" using L(3) s(5) by simp
  have "execs inv blks (write_inode ops h 0 (root_inode now)) bs (Ok ()) ?bs1" by (rule write_inode_execs [OF L(1,2)]) simp
  moreover have "\<forall>es \<in> set [dir_start 0 0]. layout es (image es)" using layout_dir_start [of 0 0] by (simp add: INVALID_ADDRESS_def)
  then have "execs inv blks (write_directory_with_inode ops (directory_handler_new (ih_data_start h) 0)
        \<lparr>dy_inode = 0, dy_entries = dir_start 0 0\<rparr> (root_inode now) h) ?bs1 (Ok ()) ?bs2"
    and dir: "dir_layout h ?bs2 (root_inode now) [dir_start 0 0]"
    using write_directory_execs [of "root_inode now" "[dir_start 0 0]" "directory_handler_new (ih_data_start h) 0" h ?bs1 0] L(4) s(5)
    by (auto simp: directory_handler_new_def)
  moreover have fr: "?bs2 ! a = ?bs1 ! a" if "a \<noteq> data_addr h 0" for a
    using that by (intro put_blocks_other) simp
  have "?bs2 ! a = bs ! a" if "a < 2 + bitmap_size (length bs)" for a
    using that fr [of a] L(3,4) by (simp add: put_inode_def)
  moreover have "inode_at h ?bs2 0 = Ok (root_inode now)"
    using fr [of "slot_block h 0"] L(3,4) s(1) inode_at_put_same [OF wf slot, of "root_inode now"] by (simp add: inode_at_def)
  ultimately show ?thesis by fastforce
qed

lemma format_execs:
  assumes bs: "5 \<le> length bs" "length bs \<le> 8192" "wf_blocks bs"
  shows "\<exists>bs'. execs inv blks (format ops now) bs (Ok ()) bs' \<and> formatted now bs' \<and> length bs' = length bs"
proof -
  define n where "n = length bs"
  define h where "h = fresh_handler n"
  let ?B = "bitmap_size n" let ?T = "table_size n" let ?image = "splice first_bit 0 (concat (superblock_fields (fresh_superblock n)))"
  let ?sb = "(fresh_superblock n)\<lparr>sb_free_inodes := of_nat (?T * 2), sb_free_data := of_nat (n - (2 + ?B + ?T))\<rparr>"
  have n: "5 \<le> n" "n \<le> 8192" "length bs = n" using bs by (simp_all add: n_def)
  note s = sizes [OF n(1,2)]
  from fresh_bitmaps_execs [OF bs, folded n_def] obtain bs1 bs2 bs3 bs4 where
    e: "execs inv blks (zero_blocks ops 2 1) bs (Ok ()) bs1" "execs inv blks (zero_blocks ops 3 (of_nat ?B)) bs1 (Ok ()) bs2"
      "execs inv blks (write_block ops 1 first_bit) bs2 (Ok ()) bs3" "execs inv blks (write_block ops 2 first_bit) bs3 (Ok ()) bs4"
    and b4: "length bs4 = n" "wf_blocks bs4" "bs4 ! 1 = first_bit" "bs4 ! 2 = first_bit" "\<forall>k. 0 < k \<and> k < ?B \<longrightarrow> bs4 ! (2 + k) = zero_block"
    by blast
  from fresh_root_execs [of bs4 now, unfolded b4(1), OF n(1,2) b4(2), folded h_def] obtain bs5 bs6 where
    e': "execs inv blks (write_inode ops h 0 (root_inode now)) bs4 (Ok ()) bs5"
      "execs inv blks (write_directory_with_inode ops (directory_handler_new (ih_data_start h) 0)
        \<lparr>dy_inode = 0, dy_entries = dir_start 0 0\<rparr> (root_inode now) h) bs5 (Ok ()) bs6"
    and b6: "length bs6 = n" "\<forall>a < 2 + ?B. bs6 ! a = bs4 ! a" "inode_at h bs6 0 = Ok (root_inode now)"
      "dir_layout h bs6 (root_inode now) [dir_start 0 0]" by blast
  define bs7 where "bs7 = bs6[0 := ?image]"
  have lf: "length (splice first_bit 0 (concat (superblock_fields sb))) = BLOCK_SIZE" for sb
    by (simp add: BLOCK_SIZE_def del: length_concat)
  have e7: "execs inv blks (write_block ops 0 ?image) bs6 (Ok ()) bs7"
    unfolding bs7_def using write_execs [of 0 bs6, OF _ lf] b6(1) n by simp
  have sub: "subW (of_nat (n - (2 + ?B + ?T))) 1 = Ok (sb_free_data (fresh_superblock n))"
    "subW (of_nat (?T * 2)) 1 = Ok (sb_free_inodes (fresh_superblock n))"
    using u32_arith(2) [of 1 "n - (2 + ?B + ?T)"] u32_arith(2) [of 1 "?T * 2"] s(1,2,5) n(2) by (simp_all add: fresh_superblock_def)
  have ih: "inode_table_handler_new (sb_inode_table_start ?sb) (of_nat ?T) (sb_data_start ?sb) = h"
    by (simp add: h_def fresh_format_def fresh_superblock_def)
  have dh: "directory_handler_new (sb_data_start ?sb) (sb_root_inode ?sb) = directory_handler_new (ih_data_start h) 0"
    by (simp add: h_def fresh_format_def fresh_superblock_def inode_table_handler_new_def)
  have sbs: "sb_inode_bitmap_start ?sb = 1" "sb_inode_bitmap_blocks ?sb = 1" "sb_block_bitmap_start ?sb = 2"
    "sb_block_bitmap_blocks ?sb = of_nat ?B" "sb_free_data ?sb = of_nat (n - (2 + ?B + ?T))" "sb_free_inodes ?sb = of_nat (?T * 2)"
    "?sb\<lparr>sb_free_data := sb_free_data (fresh_superblock n), sb_free_inodes := sb_free_inodes (fresh_superblock n)\<rparr> = fresh_superblock n"
    by (simp_all add: fresh_superblock_def)
  have add: "addW 1 1 = Ok (2 :: u32)" "addW 2 1 = Ok (3 :: u32)" by (simp_all add: addW_def)
  have root: "mulW (of_nat BLOCK_SIZE) (ucast (in_blocks ((inode_empty Directory 65535 now)
      \<lparr>in_direct := (replicate 12 INVALID_ADDRESS)[0 := 0], in_blocks := 1\<rparr>))) = Ok (256 :: u64)"
    "(inode_empty Directory 65535 now)\<lparr>in_direct := (replicate 12 INVALID_ADDRESS)[0 := 0], in_blocks := 1, in_size := 256\<rparr> = root_inode now"
    by (simp_all add: mulW_def BLOCK_SIZE_def root_inode_def)
  have ser: "superblock_serialize (fresh_superblock n) first_bit = Ok ?image" by (rule superblock_serialize_eq) simp
  have run: "execs inv blks (format ops now) bs (Ok ()) bs7"
    unfolding format_def
    apply (rule execs_bind [OF block_count_execs])
    apply (simp only: n(3) format_sizes_eq [OF n(1,2)] bindM_liftM_Ok prod.case superblock_new_eq [OF n(1,2)] Let_def ih dh directory_new_eq
        root_add_block bindM_returnM root)
    apply (simp only: sbs add bindM_liftM_Ok)
    apply (rule execs_bind [OF e(1)], rule execs_bind [OF e(2)], rule execs_bind [OF e(3)], rule execs_bind [OF e(4)])
    apply (simp only: sub bindM_liftM_Ok sbs)
    apply (rule execs_bind [OF e'(1)], rule execs_bind [OF e'(2)])
    apply (simp only: ser bindM_liftM_Ok)
    apply (rule e7)
    done
  have "bs6 ! 1 = first_bit" "bs6 ! 2 = first_bit" "\<forall>k. 0 < k \<and> k < ?B \<longrightarrow> bs6 ! (2 + k) = zero_block" using b4(3-5) b6(2) s(3) by simp_all
  note F = formatted_image [OF n(1,2) b6(1) this b6(3,4) [unfolded h_def], folded bs7_def]
  show ?thesis by (rule exI [of _ bs7]) (simp only: run F n(3) simp_thms)
qed

lemma mount_execs:
  assumes "formatted now bs"
  shows "execs inv blks (mount ops) bs (Ok (fresh_format (length bs))) bs"
proof -
  let ?n = "length bs" let ?b = "splice first_bit 0 (concat (superblock_fields (fresh_superblock ?n)))"
  have F: "5 \<le> ?n" "?n \<le> 8192" "bs ! 0 = ?b" using assms by (simp_all add: formatted_def Let_def)
  have rd: "execs inv blks (read_block ops 0) bs (Ok ?b) bs" using read_execs [of 0 bs] F by fastforce
  have "length (concat (superblock_fields (fresh_superblock ?n))) = 60" by simp
  then have "superblock_deserialize ?b = Ok (fresh_superblock ?n)"
    by (intro superblock_deserialize_fields) (simp_all add: BLOCK_SIZE_def del: length_concat)
  moreover have "sb_magic (fresh_superblock ?n) = MAGIC" by (simp add: fresh_superblock_def)
  ultimately show ?thesis
    unfolding mount_def by (intro execs_bind [OF rd]) (simp add: format_of_eq [OF F(1,2)] execs_return)
qed

lemma root_entries_execs:
  assumes "formatted now bs"
  shows "fs_execs inv blks (get_directory ops [slash] False) (fresh_format (length bs)) bs
    (Ok \<lparr>dy_inode = 0, dy_entries = [small_entry 0 Directory [46] 12, small_entry 0 Directory [46, 46] 12]\<rparr>)
    (fresh_format (length bs)) bs"
proof -
  let ?n = "length bs" let ?f = "fresh_format ?n" let ?h = "fv_inode_handler ?f" let ?dh = "fv_directory_handler ?f"
  have F: "5 \<le> ?n" "?n \<le> 8192" "inode_at ?h bs 0 = Ok (root_inode now)" "dir_layout ?h bs (root_inode now) [dir_start 0 0]"
    using assms by (simp_all add: formatted_def Let_def)
  have mt: "mounted ?f bs" by (rule fresh_mounted [OF F(1,2)]) simp
  have z: "unat (0 :: u32) < inode_count ?h" "sb_root_inode (fv_superblock ?f) = 0" "dh_root_inode_ind ?dh = 0"
    using sizes(1,2) [OF F(1,2)]
    by (simp_all add: fresh_format_def inode_table_handler_new_def fresh_superblock_def directory_handler_new_def unat_u32_of_nat)
  have rd: "execs inv blks (read_inode ops ?h 0) bs (Ok (root_inode now)) bs"
    using read_inode_execs [OF mounted_ok(3) [OF mt] z(1)] F(3) by simp
  define st where "st = \<lparr>rr_target_inode = root_inode now, rr_target_inode_index = 0, rr_parent_inode_index = 0,
      rr_dir_entry = dir_entry_free 0, rr_dir_entry_block_index = 0, rr_dir_entry_offset = 0\<rparr>"
  have res: "execs inv blks (resolve ops ?dh [RootDir] 0 ?h True) bs (Ok st) bs"
    unfolding resolve_def resolve_at.simps Let_def
    by (rule execs_bind [OF rd], simp only: list.simps component.simps simp_thms if_True if_False z(3), rule execs_bind [OF rd])
      (simp add: st_def execs_return)
  have live: "\<not> is_free (small_entry 0 t nm l)" for t nm l by (simp add: small_entry_def is_free_def INVALID_ADDRESS_def)
  have ent: "execs inv blks (get_entries ops ?dh (root_inode now) ?h False) bs
      (Ok [small_entry 0 Directory [46] 12, small_entry 0 Directory [46, 46] 12]) bs"
    using get_entries_execs [OF F(4) mounted_ok(7) [OF mt], of False]
    by (simp add: dir_start_def live)
  have c: "components [slash] = [RootDir]" by (simp add: components_def)
  show ?thesis
    unfolding get_directory_def resolve_path_def c
    by (rule fs_bind_self, rule execs_bind, rule fs_bind_self, simp only: z(2), rule dev_execs [OF res])
      (simp add: st_def, rule fs_bind_dev [OF ent], rule execs_return)
qed

end

text \<open>
  C19. Formatting and mounting, on any device with 5 to 8192 blocks that satisfies the block-device
  contract: both succeed, the mounted volume is well-formed, exactly the first inode and the first
  data block are marked in the bitmaps and the free counters agree with them, and the root directory
  lists \<open>.\<close> and \<open>..\<close>.
\<close>

theorem format_mount_root:
  assumes dev: "block_device ops blks dinv" and d: "dinv d" and n: "5 \<le> length (blks d)" "length (blks d) \<le> 8192"
  shows "\<exists>f d1 d2. format ops now d = (Ok (), d1) \<and> mount ops d1 = (Ok f, d2) \<and> mounted f (blks d2) \<and>
    (\<forall>x < inode_count (fv_inode_handler f). bit_at (fv_inode_allocator f) (blks d2) x \<longleftrightarrow> x = 0) \<and>
    (\<forall>x < unat (ba_max_index (fv_block_allocator f)). bit_at (fv_block_allocator f) (blks d2) x \<longleftrightarrow> x = 0) \<and>
    unat (free_inodes_count f) + 1 = unat (ba_max_index (fv_inode_allocator f)) \<and>
    unat (free_data_blocks_count f) + 1 = unat (ba_max_index (fv_block_allocator f)) \<and>
    fst (get_directory_content ops [slash] (f, d2)) =
      Ok [\<lparr>dc_filename = [46], dc_file_type = Directory\<rparr>, \<lparr>dc_filename = [46, 46], dc_file_type = Directory\<rparr>]"
proof -
  from block_device.format_execs [OF dev n block_device.blocks_wf [OF dev d], of now] obtain bs' where
    e: "execs dinv blks (format ops now) (blks d) (Ok ()) bs'" and F: "formatted now bs'" and l: "length bs' = length (blks d)" by blast
  from execsD [OF e d refl] obtain d1 where d1: "format ops now d = (Ok (), d1)" "dinv d1" "blks d1 = bs'" by blast
  let ?n = "length bs'" let ?f = "fresh_format ?n"
  from execsD [OF block_device.mount_execs [OF dev F] d1(2,3)] obtain d2 where
    d2: "mount ops d1 = (Ok ?f, d2)" "dinv d2" "blks d2 = bs'" by blast
  have n': "5 \<le> ?n" "?n \<le> 8192" using n l by simp_all
  note s = sizes [OF n']
  from fs_execsD [OF block_device.root_entries_execs [OF dev F] d2(2,3)] obtain d3 where
    "get_directory ops [slash] False (?f, d2) = (Ok \<lparr>dy_inode = 0,
       dy_entries = [small_entry 0 Directory [46] 12, small_entry 0 Directory [46, 46] 12]\<rparr>, ?f, d3)" by blast
  moreover have "content_entry (small_entry 0 Directory nm 12) = Ok \<lparr>dc_filename = nm, dc_file_type = Directory\<rparr>"
    if "nm = [46] \<or> nm = [46, 46]" for nm
  proof -
    have "utf8_valid nm" using that by (intro ascii_valid) auto
    moreover have "unat (of_nat (length nm) :: u16) = length nm" using that by auto
    ultimately show ?thesis using that
      by (auto simp: content_entry_def small_entry_def sliceR_def slice_def from_utf8_def unwrap_def MAX_NAME_def)
  qed
  ultimately have list: "fst (get_directory_content ops [slash] (?f, d2)) =
      Ok [\<lparr>dc_filename = [46], dc_file_type = Directory\<rparr>, \<lparr>dc_filename = [46, 46], dc_file_type = Directory\<rparr>]"
    by (simp add: get_directory_content_def bindM_Ok io_simps)
  have u: "unat (of_nat (table_size ?n * 2) :: u32) = table_size ?n * 2" "unat (of_nat (table_size ?n) :: u32) = table_size ?n"
    "unat (of_nat (table_size ?n * 2 - 1) :: u32) = table_size ?n * 2 - 1"
    "unat (of_nat (?n - (2 + bitmap_size ?n + table_size ?n)) :: u32) = ?n - (2 + bitmap_size ?n + table_size ?n)"
    "unat (of_nat (?n - (2 + bitmap_size ?n + table_size ?n) - 1) :: u32) = ?n - (2 + bitmap_size ?n + table_size ?n) - 1"
    using s(2,5) n' by (intro unat_u32_of_nat; linarith)+
  have cnt: "unat (free_inodes_count ?f) + 1 = unat (ba_max_index (fv_inode_allocator ?f))"
    "unat (free_data_blocks_count ?f) + 1 = unat (ba_max_index (fv_block_allocator ?f))"
    "inode_count (fv_inode_handler ?f) \<le> 2048" "unat (ba_max_index (fv_block_allocator ?f)) \<le> bitmap_size ?n * 2048"
    unfolding free_inodes_count_def free_data_blocks_count_def fresh_format_def fresh_superblock_def bitmap_allocator_new_def
      inode_table_handler_new_def
    using s(1,2,5,6) by (simp_all only: format_v1.simps superblock.simps bitmap_allocator.simps inode_table_handler.simps u)
  have "(\<forall>x < 2048. bit_at (fv_inode_allocator ?f) bs' x \<longleftrightarrow> x = 0) \<and> (\<forall>x < bitmap_size ?n * 2048. bit_at (fv_block_allocator ?f) bs' x \<longleftrightarrow> x = 0)"
    using F by (simp add: formatted_def Let_def)
  then show ?thesis
    using d1(1) d2 fresh_mounted [OF n' refl] cnt list
    by (intro exI [of _ ?f] exI [of _ d1] exI [of _ d2]) auto
qed

theorem format_mount_root_witness:
  "\<exists>f d1 d2. format mem_ops 9 (mem_empty 16) = (Ok (), d1) \<and> mount mem_ops d1 = (Ok f, d2) \<and>
    fst (get_directory_content mem_ops [slash] (f, d2)) =
      Ok [\<lparr>dc_filename = [46], dc_file_type = Directory\<rparr>, \<lparr>dc_filename = [46, 46], dc_file_type = Directory\<rparr>]"
proof -
  have "mem_inv (mem_empty 16)" "5 \<le> length (md_blocks (mem_empty 16))" "length (md_blocks (mem_empty 16)) \<le> 8192"
    by (simp_all add: mem_empty_def mem_inv_def wf_blocks_def)
  from format_mount_root [OF mem.block_device_axioms this, of 9] show ?thesis by blast
qed

text \<open>A formatted and mounted device of sixteen blocks, for concrete instances.\<close>

lemma fresh_device:
  assumes dev: "block_device ops blks dinv" and d: "dinv d" "length (blks d) = 16"
  obtains d1 d2 where "format ops 9 d = (Ok (), d1)" "mount ops d1 = (Ok (fresh_format 16), d2)"
    "dinv d2" "formatted 9 (blks d2)" "length (blks d2) = 16" "mounted (fresh_format 16) (blks d2)"
proof -
  from block_device.format_execs [OF dev _ _ block_device.blocks_wf [OF dev d(1)], of 9] d(2) obtain bs where
    r: "execs dinv blks (format ops 9) (blks d) (Ok ()) bs" and F: "formatted 9 bs" and n: "length bs = 16" by auto
  from execsD [OF r d(1) refl] obtain d1 where d1: "format ops 9 d = (Ok (), d1)" "dinv d1" "blks d1 = bs" by blast
  from execsD [OF block_device.mount_execs [OF dev F] d1(2,3)] n obtain d2 where
    d2: "mount ops d1 = (Ok (fresh_format 16), d2)" "dinv d2" "blks d2 = bs" by auto
  have "mounted (fresh_format 16) bs" by (rule fresh_mounted) (simp_all add: n)
  with d1(1) d2 F n that show thesis by blast
qed

lemma fresh_mem:
  obtains d1 d2 where "format mem_ops 9 (mem_empty 16) = (Ok (), d1)" "mount mem_ops d1 = (Ok (fresh_format 16), d2)"
    "mem_inv d2" "formatted 9 (md_blocks d2)" "length (md_blocks d2) = 16" "mounted (fresh_format 16) (md_blocks d2)"
proof -
  have "mem_inv (mem_empty 16)" "length (md_blocks (mem_empty 16)) = 16" by (simp_all add: mem_empty_def mem_inv_def wf_blocks_def)
  from fresh_device [OF mem.block_device_axioms this] that show thesis by blast
qed

end
