(* ===== verification/Integrity.thy ===== *)
theory Integrity
  imports Format_V1
begin

text \<open>
  The integrity checker: \<^verbatim>\<open>src/src/formats/v1/integrity_checker_errors.rs\<close>, \<open>IntegrityResult\<close> of
  \<^verbatim>\<open>src/src/common.rs\<close> and \<open>check_integrity\<close> of \<^verbatim>\<open>src/src/formats/v1/format.rs\<close> with the functions
  it calls. \<open>FormatV1\<close> is only read, so it is an argument and the state is the device; the two bitmaps of
  visited inodes and blocks are passed along. The recursion over directories takes as fuel one more
  than the number of inodes: a chain of nested directories longer than that repeats an inode, and on
  a device that only reads the program then descends for ever.
\<close>

datatype unallocated_data = UA_INode u32 | UA_Data u32 u32

datatype invalid_directory_entry =
    IDE_FileTypeUnknown u32 u32 u32 u16
  | IDE_Overflow u32 u32 u32 u16
  | IDE_NameOverflow u32 u32 u32 u16 u16
  | IDE_AdjacentFree u32 u32 u16 u16 u16
  | IDE_InvalidAddress
  | IDE_OutOfBoundsAddress

datatype invalid_directory_structure = MissingSelf | MissingParent

datatype unreachable_data = UR_INode u32 | UR_Data u32

datatype inconsistent_metadata = FreeInodes u32 u32 | FreeData u32 u32

datatype invalid_inode_data =
    ID_FileTypeUnknown u32
  | ID_InvalidAddress u32 u16
  | ID_OutOfBoundsAddress u32 u16

datatype integrity_error =
    IE_Ok
  | UnallocatedData unallocated_data
  | DoubleReference u32
  | InvalidDirectoryEntry invalid_directory_entry
  | InvalidDirectoryStructure invalid_directory_structure
  | UnreachableData unreachable_data
  | InconsistentMetadata inconsistent_metadata
  | InvalidInode invalid_inode_data
  | MismatchedFileType file_type file_type u32

fun integrity_error_is_ok :: "integrity_error \<Rightarrow> bool" where
  "integrity_error_is_ok IE_Ok = True"
| "integrity_error_is_ok _ = False"

definition error_is_recoverable :: "integrity_error \<Rightarrow> bool" where
  "error_is_recoverable e = True"

record integrity_result =
  ir_errors :: "integrity_error list"

definition result_is_ok :: "integrity_result \<Rightarrow> bool" where
  "result_is_ok r = (length (ir_errors r) = 0)"

definition result_is_recoverable :: "integrity_result \<Rightarrow> bool" where
  "result_is_recoverable r = (\<forall>e \<in> set (ir_errors r). error_is_recoverable e)"


section \<open>Visited inodes and blocks\<close>

record checker_bitmap =
  cb_bitmap :: bytes
  cb_count :: u32

definition checker_bitmap_new :: "u32 \<Rightarrow> checker_bitmap" where
  "checker_bitmap_new bits = \<lparr>cb_bitmap = replicate (unat (div_ceilW bits 8)) 0, cb_count = 0\<rparr>"

definition visited :: "checker_bitmap \<Rightarrow> u32 \<Rightarrow> bool res" where
  "visited bm bt =
     bindR (indexR (cb_bitmap bm) (unat (bt div 8))) (\<lambda>byte.
     Ok (byte AND push_bit (unat (bt mod 8)) 1 \<noteq> 0))"

definition visit :: "checker_bitmap \<Rightarrow> u32 \<Rightarrow> (bool \<times> checker_bitmap) res" where
  "visit bm bt =
     bindR (visited bm bt) (\<lambda>v.
     if \<not> v
     then
       bindR (indexR (cb_bitmap bm) (unat (bt div 8))) (\<lambda>byte.
       bindR (updateR (cb_bitmap bm) (unat (bt div 8)) (byte OR push_bit (unat (bt mod 8)) 1)) (\<lambda>bitmap.
       bindR (addW (cb_count bm) 1) (\<lambda>count.
       Ok (False, \<lparr>cb_bitmap = bitmap, cb_count = count\<rparr>))))
     else Ok (True, bm))"


section \<open>Entries of a directory block\<close>

record entry_scan =
  sc_result :: "integrity_error list"
  sc_child_dirs :: "u32 list"
  sc_child_others :: "u32 list"
  sc_last_entry_size :: nat
  sc_last_entry_offset :: nat
  sc_last_entry_free :: bool
  sc_count :: nat

abbreviation report :: "integrity_error \<Rightarrow> entry_scan \<Rightarrow> entry_scan" where
  "report e s \<equiv> s\<lparr>sc_result := sc_result s @ [e]\<rparr>"

definition is_name :: "dir_entry \<Rightarrow> bytes \<Rightarrow> bool res" where
  "is_name entry name =
     (if unat (de_name_len entry) \<noteq> length name then Ok False
      else bindR (sliceR (de_name entry) 0 (length name)) (\<lambda>n. Ok (n = name)))"

definition check_dots :: "bool \<Rightarrow> dir_entry \<Rightarrow> entry_scan \<Rightarrow> entry_scan res" where
  "check_dots is_first entry s =
     (if is_first
      then
        if sc_count s = 0
        then bindR (is_name entry [46]) (\<lambda>self.
             Ok (if self then s else report (InvalidDirectoryStructure MissingSelf) s))
        else if sc_count s = 1
        then bindR (is_name entry [46, 46]) (\<lambda>parent.
             Ok (if parent then s else report (InvalidDirectoryStructure MissingParent) s))
        else Ok s
      else Ok s)"

definition check_entry ::
  "format_v1 \<Rightarrow> bool \<Rightarrow> u32 \<Rightarrow> dir_entry \<Rightarrow> u32 \<Rightarrow> nat \<Rightarrow> entry_scan \<Rightarrow> (bool \<times> entry_scan) res" where
  "check_entry f is_first dir_inode entry block offset s =
     (let s = (if de_file_type entry = Unknown
               then report (InvalidDirectoryEntry (IDE_FileTypeUnknown dir_inode (de_inode entry) block (of_nat offset))) s
               else s) in
      bindR (check_dots is_first entry s) (\<lambda>s.
      let (valid_enough, s) =
            (if \<not> is_free entry
             then if de_inode entry = INVALID_ADDRESS
                  then (False, report (InvalidDirectoryEntry IDE_InvalidAddress) s)
                  else if max_index (fv_inode_allocator f) < de_inode entry
                  then (False, report (InvalidDirectoryEntry IDE_OutOfBoundsAddress) s)
                  else (True, s)
             else (True, s));
          (should_stop, s) =
            (if BLOCK_SIZE < rec_len entry + offset
             then (True, report (InvalidDirectoryEntry (IDE_Overflow dir_inode (de_inode entry) block (of_nat offset))) s)
             else (False, s)) in
      bindR (if \<not> is_free entry
             then bindR (min_record_len (de_name_len entry)) (\<lambda>len.
                  if de_record_len entry \<noteq> len
                  then Ok (True, report (InvalidDirectoryEntry (IDE_NameOverflow dir_inode (de_inode entry) block
                                   (of_nat offset) (de_name_len entry))) s)
                  else Ok (should_stop, s))
             else if sc_last_entry_free s
             then Ok (should_stop, report (InvalidDirectoryEntry (IDE_AdjacentFree dir_inode block
                        (of_nat (sc_last_entry_offset s)) (of_nat (sc_last_entry_size s)) (de_record_len entry))) s)
             else Ok (should_stop, s)) (\<lambda>(should_stop, s).
      let s = (if MAX_NAME < unat (de_name_len entry)
               then report (InvalidDirectoryEntry (IDE_NameOverflow dir_inode (de_inode entry) block
                              (of_nat offset) (de_name_len entry))) s
               else s);
          s = (if \<not> is_free entry \<and> valid_enough
               then if de_file_type entry = Directory
                    then if \<not> (is_first \<and> (sc_count s = 0 \<or> sc_count s = 1))
                         then s\<lparr>sc_child_dirs := sc_child_dirs s @ [de_inode entry]\<rparr> else s
                    else s\<lparr>sc_child_others := sc_child_others s @ [de_inode entry]\<rparr>
               else s)
      in Ok (should_stop, s\<lparr>sc_count := sc_count s + 1, sc_last_entry_free := is_free entry,
                            sc_last_entry_offset := offset, sc_last_entry_size := rec_len entry\<rparr>))))"

text \<open>A record of length zero that does not stop the walk is met again for ever.\<close>

definition check_integrity_entries_in_block ::
  "'d block_ops \<Rightarrow> format_v1 \<Rightarrow> u32 \<Rightarrow> bool \<Rightarrow> u32 \<Rightarrow> u32 list \<Rightarrow> u32 list \<Rightarrow>
   ('d, integrity_error list \<times> u32 list \<times> u32 list) io" where
  "check_integrity_entries_in_block ops f block_ind is_first dir_inode child_dirs child_others =
     bindM (iterate_block_unchecked ops (fv_directory_handler f) (Suc BLOCK_SIZE) block_ind
              (check_entry f is_first dir_inode)
              \<lparr>sc_result = [], sc_child_dirs = child_dirs, sc_child_others = child_others,
               sc_last_entry_size = BLOCK_SIZE, sc_last_entry_offset = 0, sc_last_entry_free = False,
               sc_count = 0\<rparr>) (\<lambda>s.
     returnM (sc_result s, sc_child_dirs s, sc_child_others s))"


section \<open>Inodes\<close>

definition check_integrity_inode_allocation ::
  "'d block_ops \<Rightarrow> format_v1 \<Rightarrow> u32 \<Rightarrow> checker_bitmap \<Rightarrow> ('d, integrity_error list \<times> checker_bitmap) io" where
  "check_integrity_inode_allocation ops f inode_ind visited_inodes =
     bindM (is_allocated ops (fv_inode_allocator f) inode_ind) (\<lambda>allocated.
     if \<not> allocated then returnM ([UnallocatedData (UA_INode inode_ind)], visited_inodes)
     else bindM (liftM (visit visited_inodes inode_ind)) (\<lambda>(_, visited_inodes). returnM ([], visited_inodes)))"

definition check_address :: "format_v1 \<Rightarrow> u32 \<Rightarrow> u32 \<Rightarrow> u32 \<Rightarrow> integrity_error list" where
  "check_address f inode_ind i block_ind =
     (if block_ind = INVALID_ADDRESS then [InvalidInode (ID_InvalidAddress inode_ind (ucast i))]
      else if max_index (fv_block_allocator f) < block_ind
      then [InvalidInode (ID_OutOfBoundsAddress inode_ind (ucast i))]
      else [])"

definition check_inode_block ::
  "'d block_ops \<Rightarrow> format_v1 \<Rightarrow> u32 \<Rightarrow> inode \<Rightarrow> u32 \<Rightarrow> integrity_error list \<times> checker_bitmap \<Rightarrow>
   ('d, integrity_error list \<times> checker_bitmap) io" where
  "check_inode_block ops f inode_ind inode i = (\<lambda>(result, visited_blocks).
     bindM (get_block ops (fv_inode_handler f) inode i) (\<lambda>block_ind.
     let result = result @ check_address f inode_ind i block_ind in
     bindM (is_allocated ops (fv_block_allocator f) block_ind) (\<lambda>allocated.
     let result = (if \<not> allocated then result @ [UnallocatedData (UA_Data block_ind inode_ind)] else result) in
     bindM (liftM (visit visited_blocks block_ind)) (\<lambda>(again, visited_blocks).
     returnM (if again then result @ [DoubleReference block_ind] else result, visited_blocks)))))"

definition check_integrity_inode ::
  "'d block_ops \<Rightarrow> format_v1 \<Rightarrow> u32 \<Rightarrow> checker_bitmap \<Rightarrow> file_type \<Rightarrow>
   ('d, integrity_error list \<times> checker_bitmap) io" where
  "check_integrity_inode ops f inode_ind visited_blocks expected_type =
     bindM (read_inode ops (fv_inode_handler f) inode_ind) (\<lambda>inode.
     let result = (if in_file_type inode = Unknown then [InvalidInode (ID_FileTypeUnknown inode_ind)] else []);
         result = (if in_file_type inode \<noteq> expected_type
                   then result @ [MismatchedFileType (in_file_type inode) Directory inode_ind] else result) in
     foldM (check_inode_block ops f inode_ind inode) (u32_range 0 (in_blocks inode)) (result, visited_blocks))"


section \<open>Directories\<close>

type_synonym dir_walk = "integrity_error list \<times> checker_bitmap \<times> u32 list \<times> u32 list"

definition check_dir_block ::
  "'d block_ops \<Rightarrow> format_v1 \<Rightarrow> u32 \<Rightarrow> inode \<Rightarrow> u32 \<Rightarrow> dir_walk \<Rightarrow> ('d, dir_walk) io" where
  "check_dir_block ops f dir_inode_ind dir_inode i = (\<lambda>(result, visited_blocks, child_dirs, child_others).
     bindM (get_block ops (fv_inode_handler f) dir_inode i) (\<lambda>block_ind.
     let result = result @ check_address f dir_inode_ind i block_ind in
     bindM (is_allocated ops (fv_block_allocator f) block_ind) (\<lambda>allocated.
     if \<not> allocated
     then returnM (result @ [UnallocatedData (UA_Data block_ind dir_inode_ind)], visited_blocks, child_dirs, child_others)
     else
       bindM (liftM (visit visited_blocks block_ind)) (\<lambda>(again, visited_blocks).
       let result = (if again then result @ [DoubleReference block_ind] else result) in
       bindM (check_integrity_entries_in_block ops f block_ind (i = 0) dir_inode_ind child_dirs child_others)
         (\<lambda>(res, child_dirs, child_others).
       returnM (result @ res, visited_blocks, child_dirs, child_others))))))"

definition check_other ::
  "'d block_ops \<Rightarrow> format_v1 \<Rightarrow> u32 \<Rightarrow> integrity_error list \<times> checker_bitmap \<times> checker_bitmap \<Rightarrow>
   ('d, integrity_error list \<times> checker_bitmap \<times> checker_bitmap) io" where
  "check_other ops f inode_ind = (\<lambda>(result, visited_inodes, visited_blocks).
     bindM (check_integrity_inode_allocation ops f inode_ind visited_inodes) (\<lambda>(res, visited_inodes).
     let result = result @ res in
     bindM (check_integrity_inode ops f inode_ind visited_blocks File) (\<lambda>(res, visited_blocks).
     returnM (result @ res, visited_inodes, visited_blocks))))"

primrec check_integrity_recursive ::
  "nat \<Rightarrow> 'd block_ops \<Rightarrow> format_v1 \<Rightarrow> u32 \<Rightarrow> checker_bitmap \<Rightarrow> checker_bitmap \<Rightarrow>
   ('d, integrity_error list \<times> checker_bitmap \<times> checker_bitmap) io" where
  "check_integrity_recursive 0 ops f dir_inode_ind visited_inodes visited_blocks = liftM Diverge"
| "check_integrity_recursive (Suc fuel) ops f dir_inode_ind visited_inodes visited_blocks =
     bindM (check_integrity_inode_allocation ops f dir_inode_ind visited_inodes) (\<lambda>(result, visited_inodes).
     bindM (read_inode ops (fv_inode_handler f) dir_inode_ind) (\<lambda>dir_inode.
     let result = (if in_file_type dir_inode = Unknown
                   then result @ [InvalidInode (ID_FileTypeUnknown dir_inode_ind)]
                   else if in_file_type dir_inode \<noteq> Directory
                   then result @ [MismatchedFileType (in_file_type dir_inode) Directory dir_inode_ind]
                   else result) in
     bindM (foldM (check_dir_block ops f dir_inode_ind dir_inode) (u32_range 0 (in_blocks dir_inode))
              (result, visited_blocks, [], [])) (\<lambda>(result, visited_blocks, child_dirs, child_others).
     bindM (foldM (check_other ops f) child_others (result, visited_inodes, visited_blocks))
       (\<lambda>(result, visited_inodes, visited_blocks).
     foldM (\<lambda>inode_ind (result, visited_inodes, visited_blocks).
         bindM (check_integrity_recursive fuel ops f inode_ind visited_inodes visited_blocks)
           (\<lambda>(res, visited_inodes, visited_blocks).
         returnM (result @ res, visited_inodes, visited_blocks)))
       child_dirs (result, visited_inodes, visited_blocks)))))"


section \<open>The check\<close>

definition unreachable ::
  "'d block_ops \<Rightarrow> bitmap_allocator \<Rightarrow> checker_bitmap \<Rightarrow> (u32 \<Rightarrow> unreachable_data) \<Rightarrow> u32 \<Rightarrow>
   integrity_error list \<Rightarrow> ('d, integrity_error list) io" where
  "unreachable ops al bm mk i errors =
     bindM (is_allocated ops al i) (\<lambda>allocated.
     if allocated
     then bindM (liftM (visited bm i)) (\<lambda>v.
          returnM (if \<not> v then errors @ [UnreachableData (mk i)] else errors))
     else returnM errors)"

definition check_integrity :: "'d block_ops \<Rightarrow> format_v1 \<Rightarrow> ('d, integrity_result) io" where
  "check_integrity ops f =
     (let sb = fv_superblock f in
      bindM (count_allocated ops (fv_inode_allocator f)) (\<lambda>allocated_inodes.
      bindM (count_allocated ops (fv_block_allocator f)) (\<lambda>allocated_blocks.
      bindM (liftM (mulW (sb_inode_table_blocks sb) inodes_per_block)) (\<lambda>inodes.
      bindM (liftM (subW inodes allocated_inodes)) (\<lambda>free_inodes.
      bindM (liftM (subW (sb_total_blocks sb) (sb_data_start sb))) (\<lambda>blocks.
      bindM (liftM (subW blocks allocated_blocks)) (\<lambda>free_blocks.
      let errors = (if sb_free_inodes sb \<noteq> free_inodes
                    then [InconsistentMetadata (FreeInodes (sb_free_inodes sb) free_inodes)] else []);
          errors = (if sb_free_data sb \<noteq> free_blocks
                    then errors @ [InconsistentMetadata (FreeData (sb_free_data sb) free_blocks)] else errors) in
      bindM (check_integrity_recursive (Suc (unat inodes)) ops f (sb_root_inode sb)
               (checker_bitmap_new (max_index (fv_inode_allocator f)))
               (checker_bitmap_new (max_index (fv_block_allocator f))))
        (\<lambda>(res, visited_inodes, visited_blocks).
      let errors = errors @ res in
      bindM (if cb_count visited_inodes < allocated_inodes
             then foldM (unreachable ops (fv_inode_allocator f) visited_inodes UR_INode) (u32_range 0 inodes) errors
             else returnM errors) (\<lambda>errors.
      bindM (if allocated_blocks \<noteq> cb_count visited_blocks
             then foldM (unreachable ops (fv_block_allocator f) visited_blocks UR_Data) (u32_range 0 blocks) errors
             else returnM errors) (\<lambda>errors.
      returnM \<lparr>ir_errors = errors\<rparr>))))))))))"

end
