(* ===== verification/Bitmap_Count.thy ===== *)
theory Bitmap_Count
  imports Bitmap_Allocator
begin

text \<open>
  \<open>count_allocated\<close> counts the bits set below \<open>max_index\<close>. \<open>counted mx S c X a\<close>: covering the indices
  \<open>X\<close> adds to the count \<open>a\<close> the members of \<open>S\<close> below \<open>mx\<close>, and breaks off only at an index that is not
  below \<open>mx\<close>.
\<close>

definition counted :: "nat \<Rightarrow> (nat \<Rightarrow> bool) \<Rightarrow> (u32, u32) ctl \<Rightarrow> nat list \<Rightarrow> u32 \<Rightarrow> bool" where
  "counted mx S c X a \<longleftrightarrow>
     (\<exists>n. unat n = unat a + length (filter (\<lambda>x. x < mx \<and> S x) X) \<and>
      (c = Cont n \<or> c = Brk n \<and> (\<exists>x \<in> set X. mx \<le> x)))"

lemma counted_Brk: "counted mx S (Brk n) X a \<Longrightarrow> sorted (X @ Y) \<Longrightarrow> counted mx S (Brk n) (X @ Y) a"
proof -
  assume c: "counted mx S (Brk n) X a" and s: "sorted (X @ Y)"
  then obtain x where "x \<in> set X" "mx \<le> x" by (auto simp: counted_def)
  with s have "filter (\<lambda>x. x < mx \<and> S x) Y = []" by (force simp: filter_empty_conv sorted_append)
  with c show ?thesis by (auto simp: counted_def)
qed

lemma counted_Cont:
  assumes "counted mx S (Cont n) X a" "counted mx S c Y n"
  shows "counted mx S c (X @ Y) a"
  using assms by (auto simp: counted_def add.assoc)

lemma count_loop:
  assumes "\<And>x a. x \<in> set xs \<Longrightarrow> unat a + length (filter (\<lambda>x. x < mx \<and> S x) (X x)) < 4294967296 \<Longrightarrow>
      \<exists>c. execs I A (f x a) b (Ok c) b \<and> counted mx S c (X x) a"
    and "sorted (concat (map X xs))" "unat a + length (filter (\<lambda>x. x < mx \<and> S x) (concat (map X xs))) < 4294967296"
  shows "\<exists>c. execs I A (loopM f xs a) b (Ok c) b \<and> counted mx S c (concat (map X xs)) a"
  using assms
proof (induction xs arbitrary: a)
  case Nil
  then show ?case by (intro exI [of _ "Cont a"]) (auto simp: counted_def)
next
  case (Cons x xs)
  let ?len = "\<lambda>X. length (filter (\<lambda>x. x < mx \<and> S x) X)"
  have small: "unat a + ?len (X x) < 4294967296" using Cons.prems(3) by simp
  from Cons.prems(1) [of x a] small obtain c where c: "execs I A (f x a) b (Ok c) b" "counted mx S c (X x) a" by auto
  show ?case
  proof (cases c)
    case (Cont n)
    then have n: "unat n = unat a + ?len (X x)" using c(2) by (auto simp: counted_def)
    have "\<exists>c. execs I A (loopM f xs n) b (Ok c) b \<and> counted mx S c (concat (map X xs)) n"
      using Cons.prems n by (intro Cons.IH) (auto simp: sorted_append)
    with c Cont show ?thesis by (fastforce intro: counted_Cont execs_bind)
  next
    case (Brk n)
    have "counted mx S (Brk n) (X x @ concat (map X xs)) a" using c(2) Brk Cons.prems(2) by (intro counted_Brk) auto
    with c Brk show ?thesis by (auto intro!: exI [of _ "Brk n"] execs_bind)
  next
    case (Ret r)
    then show ?thesis using c(2) by (auto simp: counted_def)
  qed
qed

lemma count_bits_execs:
  fixes I :: "'s \<Rightarrow> bool"
  assumes off: "unat offset + 8 \<le> 4294967296" and set: "\<And>p. p < 8 \<Longrightarrow> S (unat offset + p) = bit el p"
    and n: "unat count + length (filter (\<lambda>x. x < unat (ba_max_index al) \<and> S x) [unat offset..<unat offset + 8]) < 4294967296"
  shows "\<exists>c. execs I A (loopM (count_bit al offset) (map of_nat [0..<8]) (el, count)) b (Ok c) b \<and>
    counted (unat (ba_max_index al)) S (drop_el c) [unat offset..<unat offset + 8] count"
proof -
  let ?mx = "unat (ba_max_index al)" let ?len = "\<lambda>X. length (filter (\<lambda>x. x < ?mx \<and> S x) X)"
  have "unat count + ?len [unat offset + p..<unat offset + 8] < 4294967296 \<Longrightarrow>
      \<exists>c. execs I A (loopM (count_bit al offset) (map of_nat [p..<8]) (drop_bit p el, count)) b (Ok c) b \<and>
        counted ?mx S (drop_el c) [unat offset + p..<unat offset + 8] count" if "p \<le> 8" for p count
    using that
  proof (induction p arbitrary: count rule: inc_induct)
    case base
    then show ?case by (intro exI [of _ "Cont (drop_bit 8 el, count)"]) (auto simp: counted_def)
  next
    case (step p)
    let ?x = "unat offset + p"
    have x: "addW offset (of_nat p) = Ok (of_nat ?x)" "unat (of_nat ?x :: u32) = ?x"
      using off step(2) by (simp_all add: addW_def unat_u32_of_nat del: of_nat_add) simp
    have rng: "[p..<8] = p # [Suc p..<8]" "[?x..<unat offset + 8] = [?x] @ [unat offset + Suc p..<unat offset + 8]"
      using step(2) by (simp_all add: upt_conv_Cons)
    have st: "(drop_bit p el AND 1 \<noteq> 0) = S ?x"
      using set [of p] step(2) by (simp add: and_one_eq even_drop_bit_iff_not_bit flip: even_iff_mod_2_eq_zero)
    have le: "(ba_max_index al \<le> of_nat ?x) = (?mx \<le> ?x)" using x(2) by (simp add: word_le_nat_alt)
    have sft: "drop_bit (Suc 0) (drop_bit p el) = drop_bit (Suc p) el" by simp
    show ?case
    proof (cases "?mx \<le> ?x")
      case True
      have "counted ?mx S (Brk count) ([?x] @ [unat offset + Suc p..<unat offset + 8]) count"
        using True by (intro counted_Brk) (auto simp: counted_def)
      moreover have "(count_bit al offset (of_nat p) (drop_bit p el, count) :: ('s, (u8 \<times> u32, u32) ctl) io) = returnM (Brk (drop_bit p el, count))"
        unfolding count_bit_def split_conv x(1) bindM_liftM_Ok le using True by simp
      ultimately show ?thesis unfolding rng by (intro exI [of _ "Brk (drop_bit p el, count)"]) auto
    next
      case False
      define n where "n = (if S ?x then count + 1 else count)"
      have small: "unat count + ?len [?x] + ?len [unat offset + Suc p..<unat offset + 8] < 4294967296"
        using step(4) unfolding rng filter_append length_append by simp
      have add: "S ?x \<Longrightarrow> addW count 1 = Ok (count + 1)" using small False by (simp add: addW_def)
      have un: "unat n = unat count + ?len [?x]"
        using small False unat_add_small [of count 1] by (auto simp: n_def)
      have body: "(count_bit al offset (of_nat p) (drop_bit p el, count) :: ('s, (u8 \<times> u32, u32) ctl) io) = returnM (Cont (drop_bit (Suc p) el, n))"
        unfolding count_bit_def split_conv x(1) bindM_liftM_Ok le st using False add by (simp add: sft n_def del: drop_bit_drop_bit)
      have c1: "counted ?mx S (Cont n) [?x] count" using un by (simp add: counted_def)
      from step.IH [of n] un small obtain c where
        "execs I A (loopM (count_bit al offset) (map of_nat [Suc p..<8]) (drop_bit (Suc p) el, n)) b (Ok c) b"
        "counted ?mx S (drop_el c) [unat offset + Suc p..<unat offset + 8] n" by auto
      with counted_Cont [OF c1] show ?thesis unfolding rng by (intro exI [of _ c]) (simp add: body)
    qed
  qed
  from this [of 0 count] n show ?thesis by auto
qed

lemma count_block_execs:
  fixes I :: "'s \<Rightarrow> bool"
  assumes i: "unat i < 2097152" and buf: "length buf = 256" "buf = bs ! (unat (ba_start al) + unat i)"
    and n: "unat count + length (filter (\<lambda>x. x < unat (ba_max_index al) \<and> bit_at al bs x)
      [unat i * 2048..<Suc (unat i) * 2048]) < 4294967296"
  shows "\<exists>c. execs I A (count_block al i buf count) b (Ok c) b \<and>
    counted (unat (ba_max_index al)) (bit_at al bs) c [unat i * 2048..<Suc (unat i) * 2048] count"
proof -
  let ?f = "\<lambda>j. (j + unat i * 256) * 8" let ?mx = "unat (ba_max_index al)"
  have seg: "concat (map (\<lambda>j. [?f j..<?f (Suc j)]) [0..<256]) = [unat i * 2048..<Suc (unat i) * 2048]"
    using concat_map_upt [of ?f 0 256] by (simp add: algebra_simps)
  have "\<exists>c. execs I A (count_block al i buf count) b (Ok c) b \<and>
    counted ?mx (bit_at al bs) c (concat (map (\<lambda>j. [?f j..<?f (Suc j)]) [0..<256])) count"
    unfolding count_block_def BLOCK_SIZE_def
  proof (rule count_loop)
    fix j and a :: u32 assume "j \<in> set [0..<256 :: nat]" and a: "unat a + length (filter (\<lambda>x. x < ?mx \<and> bit_at al bs x) [?f j..<?f (Suc j)]) < 4294967296"
    then have j: "j < 256" by simp
    have st: "bit_at al bs (?f j + p) = bit (buf ! j) p" if "p < 8" for p
      using bit_at_byte [OF j that] buf by simp
    have rng: "[?f j..<?f (Suc j)] = [?f j..<?f j + 8]" by (simp add: algebra_simps)
    define off :: u32 where "off = of_nat (?f j)"
    have u: "unat off = ?f j" and g: "get_index i (of_nat j) 0 = Ok off"
      unfolding off_def using get_index_Ok [OF i j, of 0] by simp_all
    have lim: "?f j + 8 \<le> 4294967296"
      using get_index_Ok(2) [OF i j, of 7] unat_u32_bound [of "of_nat (?f j + 7)"] by simp
    show "\<exists>c. execs I A (bindM (liftM (indexR buf j)) (\<lambda>el. if el = 0 then returnM (Cont a)
         else bindM (liftM (get_index i (of_nat j) 0)) (\<lambda>offset.
              bindM (loopM (count_bit al offset) (map of_nat [0..<8]) (el, a)) (\<lambda>c. returnM (drop_el c))))) b (Ok c) b \<and>
        counted ?mx (bit_at al bs) c [?f j..<?f (Suc j)] a"
    proof (cases "buf ! j = 0")
      case True
      have "\<not> bit_at al bs x" if "?f j \<le> x" "x < ?f j + 8" for x
        using st [of "x - ?f j"] that True by simp
      then have "filter (\<lambda>x. x < ?mx \<and> bit_at al bs x) [?f j..<?f (Suc j)] = []"
        unfolding rng by (auto simp: filter_empty_conv)
      with True j buf show ?thesis by (intro exI [of _ "Cont a"]) (auto simp: counted_def indexR_def)
    next
      case False
      have "\<exists>c. execs I A (loopM (count_bit al off) (map of_nat [0..<8]) (buf ! j, a)) b (Ok c) b \<and>
        counted ?mx (bit_at al bs) (drop_el c) [unat off..<unat off + 8] a"
        using st lim a rng by (intro count_bits_execs) (simp_all only: u)
      then obtain c where "execs I A (loopM (count_bit al off) (map of_nat [0..<8]) (buf ! j, a)) b (Ok c) b"
        "counted ?mx (bit_at al bs) (drop_el c) [?f j..<?f (Suc j)] a" unfolding rng u by blast
      then show ?thesis using False j buf g by (intro exI [of _ "drop_el c"]) (auto simp: indexR_def intro: execs_bind)
    qed
  qed (use seg n in simp_all)
  with seg show ?thesis by simp
qed

context block_device
begin

lemma count_allocated_execs:
  assumes ok: "bitmap_ok al (length bs)"
  shows "execs inv blks (count_allocated ops al) bs
    (Ok (of_nat (card {x. x < unat (ba_max_index al) \<and> bit_at al bs x}))) bs"
proof (rule execs_wf)
  assume wf: "wf_blocks bs" and small: "length bs < 4294967296"
  let ?mx = "unat (ba_max_index al)" let ?S = "\<lambda>x. x < ?mx \<and> bit_at al bs x" let ?sz = "unat (ba_size al)"
  let ?X = "\<lambda>i :: u32. [unat i * 2048..<Suc (unat i) * 2048]"
  have seg: "concat (map ?X (u32_range 0 (ba_size al))) = [0..<?sz * 2048]"
    using concat_u32_range [of "\<lambda>j. j * 2048" 0 "ba_size al" ?X] by simp
  have set: "set (filter ?S [0..<?sz * 2048]) = {x. ?S x}" using ok by (auto simp: bitmap_ok_def)
  have "length (filter ?S [0..<?sz * 2048]) = card (set (filter ?S [0..<?sz * 2048]))"
    by (intro distinct_card [symmetric]) simp
  then have len: "length (filter ?S [0..<?sz * 2048]) = card {x. ?S x}" unfolding set .
  have "card {x. ?S x} \<le> card {..<?mx}" by (intro card_mono) auto
  then have c: "card {x. ?S x} < 4294967296" using unat_u32_bound [of "ba_max_index al"] unfolding card_lessThan by linarith
  have "\<exists>c. execs inv blks (loopM (\<lambda>i count.
       bindM (liftM (addW i (ba_start al))) (\<lambda>bitmap_addr.
       bindM (read_block ops bitmap_addr) (\<lambda>buf. count_block al i buf count))) (u32_range 0 (ba_size al)) 0) bs (Ok c) bs \<and>
      counted ?mx (bit_at al bs) c (concat (map ?X (u32_range 0 (ba_size al)))) 0"
  proof (rule count_loop)
    fix i and a :: u32 assume mem: "i \<in> set (u32_range 0 (ba_size al))" and a: "unat a + length (filter ?S (?X i)) < 4294967296"
    from mem [unfolded in_u32_range] have i: "unat i < ?sz" "unat i < 2097152" using ok by (auto simp: bitmap_ok_def)
    note rd = read_bitmap_execs [OF ok i(1) small]
    have l: "length (bs ! (unat (ba_start al) + unat i)) = 256" using ok i wf by (simp add: bitmap_ok_def BLOCK_SIZE_def)
    from count_block_execs [OF i(2) l refl a, of inv blks bs] rd(1,4)
    show "\<exists>c. execs inv blks (bindM (liftM (addW i (ba_start al))) (\<lambda>bitmap_addr.
       bindM (read_block ops bitmap_addr) (\<lambda>buf. count_block al i buf a))) bs (Ok c) bs \<and> counted ?mx (bit_at al bs) c (?X i) a"
      by (auto intro!: execs_bind)
  qed (use seg len c in simp_all)
  then obtain c where e: "execs inv blks (loopM (\<lambda>i count.
       bindM (liftM (addW i (ba_start al))) (\<lambda>bitmap_addr.
       bindM (read_block ops bitmap_addr) (\<lambda>buf. count_block al i buf count))) (u32_range 0 (ba_size al)) 0) bs (Ok c) bs"
    and "counted ?mx (bit_at al bs) c [0..<?sz * 2048] 0" unfolding seg by blast
  then obtain n where n: "unat n = card {x. ?S x}" "c = Cont n \<or> c = Brk n" unfolding counted_def len by auto
  then have "n = of_nat (card {x. ?S x})" using c by (simp add: word_unat_eq_iff unat_u32_of_nat)
  with n show "execs inv blks (count_allocated ops al) bs (Ok (of_nat (card {x. ?S x}))) bs"
    unfolding count_allocated_def by (intro execs_bind [OF e]) auto
qed

end

text \<open>
  \<open>count_allocated\<close>, the full scan behind the integrity check, returns the number of bits set
  below \<open>max_index\<close>, whatever the bits past it are, and changes nothing.
\<close>

lemma count_allocated_exact:
  assumes dev: "block_device ops blks dinv" and d: "dinv d" and ok: "bitmap_ok al (length (blks d))"
  shows "\<exists>n d'. count_allocated ops al d = (Ok n, d') \<and> blks d' = blks d \<and>
    unat n = card {x. x < unat (ba_max_index al) \<and> bit_at al (blks d) x}"
proof -
  let ?S = "{x. x < unat (ba_max_index al) \<and> bit_at al (blks d) x}"
  have "card ?S \<le> card {..<unat (ba_max_index al)}" by (intro card_mono) auto
  then have "card ?S < 4294967296" using unat_u32_bound [of "ba_max_index al"] unfolding card_lessThan by linarith
  then show ?thesis
    using execsD [OF block_device.count_allocated_execs [OF dev ok] d refl] by (auto simp: unat_u32_of_nat)
qed

end
