(* ===== verification/Integrity_Fresh.thy ===== *)
theory Integrity_Fresh
  imports Integrity Bitmap_Count Format_Mount
begin

text \<open>
  The integrity checker on a freshly formatted volume, and the bitmap of visited indices it keeps.
\<close>


section \<open>The bitmap of visited indices\<close>

definition bm_bit :: "checker_bitmap \<Rightarrow> nat \<Rightarrow> bool" where
  "bm_bit bm x \<longleftrightarrow> bit (cb_bitmap bm ! (x div 8)) (x mod 8)"

text \<open>The count is the number of bits set.\<close>

definition bm_ok :: "checker_bitmap \<Rightarrow> bool" where
  "bm_ok bm \<longleftrightarrow>
     length (cb_bitmap bm) * 8 < 4294967296 \<and>
     unat (cb_count bm) = card {x. x < length (cb_bitmap bm) * 8 \<and> bm_bit bm x}"

lemma bm_new:
  assumes "unat n \<le> 4294967280"
  shows "bm_ok (checker_bitmap_new n)" "unat n \<le> length (cb_bitmap (checker_bitmap_new n)) * 8"
    "\<And>x. x < length (cb_bitmap (checker_bitmap_new n)) * 8 \<Longrightarrow> \<not> bm_bit (checker_bitmap_new n) x"
proof -
  have l: "length (cb_bitmap (checker_bitmap_new n)) = (unat n + 7) div 8"
    using unat_div_ceilW [of 8 n] by (simp add: checker_bitmap_new_def)
  then show "unat n \<le> length (cb_bitmap (checker_bitmap_new n)) * 8" by simp
  have small: "(unat n + 7) div 8 * 8 < 4294967296"
    using assms div_times_less_eq_dividend [of "unat n + 7" 8] by linarith
  show no: "\<not> bm_bit (checker_bitmap_new n) x" if "x < length (cb_bitmap (checker_bitmap_new n)) * 8" for x
    using that by (simp add: bm_bit_def checker_bitmap_new_def less_mult_imp_div_less)
  then have "{x. x < length (cb_bitmap (checker_bitmap_new n)) * 8 \<and> bm_bit (checker_bitmap_new n) x} = {}" by blast
  then show "bm_ok (checker_bitmap_new n)" using small l by (simp add: bm_ok_def) (simp add: checker_bitmap_new_def)
qed

lemma visited_eq: "unat x < length (cb_bitmap bm) * 8 \<Longrightarrow> visited bm x = Ok (bm_bit bm (unat x))"
  by (simp add: visited_def bm_bit_def indexR_def unat_div unat_mod less_mult_imp_div_less bit_iff_and_push_bit_not_eq_0)

lemma visit_cases:
  assumes ok: "bm_ok bm" and x: "unat x < length (cb_bitmap bm) * 8"
  shows "\<exists>bm'. visit bm x = Ok (bm_bit bm (unat x), bm') \<and> bm_ok bm' \<and> length (cb_bitmap bm') = length (cb_bitmap bm) \<and>
    (\<forall>y. bm_bit bm' y \<longleftrightarrow> y = unat x \<or> bm_bit bm y)"
proof (cases "bm_bit bm (unat x)")
  case True
  then show ?thesis using visited_eq [OF x] ok by (auto simp: visit_def)
next
  case False
  let ?k = "unat x div 8" let ?b = "cb_bitmap bm" let ?set = "{y. y < length ?b * 8 \<and> bm_bit bm y}"
  have k: "?k < length ?b" using x by (simp add: less_mult_imp_div_less)
  have ux: "unat (x div 8) = ?k" "unat (x mod 8) = unat x mod 8" by (simp_all add: unat_div unat_mod)
  have "unat x \<notin> ?set" using False by simp
  then have "?set \<subset> {..<length ?b * 8}" using x by auto
  then have "card ?set < length ?b * 8" using psubset_card_mono [of "{..<length ?b * 8}" ?set] by simp
  then have cnt: "unat (cb_count bm) + 1 < 4294967296" using ok by (auto simp: bm_ok_def)
  define bm' where "bm' = \<lparr>cb_bitmap = ?b[?k := ?b ! ?k OR push_bit (unat x mod 8) 1], cb_count = cb_count bm + 1\<rparr>"
  have vis: "visit bm x = Ok (False, bm')"
    unfolding visit_def visited_eq [OF x] using False k cnt
    by (simp add: ux indexR_def updateR_def addW_def bm'_def)
  have bit: "bm_bit bm' y \<longleftrightarrow> y = unat x \<or> bm_bit bm y" for y
  proof (cases "y div 8 = ?k")
    case True
    have "bm_bit bm' y \<longleftrightarrow> bit (?b ! ?k) (y mod 8) \<or> y mod 8 = unat x mod 8"
      using True k by (auto simp: bm_bit_def bm'_def bit_or_iff bit_push_bit_iff bit_1_iff simp del: push_bit_of_1)
    moreover have "y mod 8 = unat x mod 8 \<longleftrightarrow> y = unat x" using True by (metis div_mult_mod_eq)
    ultimately show ?thesis using True by (auto simp: bm_bit_def)
  next
    case False
    then have "y \<noteq> unat x" by auto
    with False show ?thesis by (simp add: bm_bit_def bm'_def)
  qed
  have "{y. y < length (cb_bitmap bm') * 8 \<and> bm_bit bm' y} = insert (unat x) ?set" using bit x by (auto simp: bm'_def)
  then have "bm_ok bm'"
    using ok \<open>unat x \<notin> ?set\<close> cnt unat_add_small [of "cb_count bm" 1] by (simp add: bm_ok_def) (simp add: bm'_def)
  with vis bit False show ?thesis by (auto simp: bm'_def)
qed


section \<open>The entries of a directory block\<close>

text \<open>
  What the checker expects of an entry and of the list of entries of a block: no unknown type, an
  inode in range and the minimal record for every live entry, no two free regions in a row, and
  \<open>.\<close> and \<open>..\<close> at the head of the first block.
\<close>

definition entry_fine :: "format_v1 \<Rightarrow> dir_entry \<Rightarrow> bool" where
  "entry_fine f e \<longleftrightarrow>
     de_file_type e \<noteq> Unknown \<and>
     (\<not> is_free e \<longrightarrow>
        de_inode e \<le> max_index (fv_inode_allocator f) \<and> min_record_len (de_name_len e) = Ok (de_record_len e))"

definition merged :: "dir_entry list \<Rightarrow> bool" where
  "merged es \<longleftrightarrow> (\<forall>k. Suc k < length es \<longrightarrow> \<not> (is_free (es ! k) \<and> is_free (es ! Suc k)))"

definition dots_first :: "dir_entry list \<Rightarrow> bool" where
  "dots_first es \<longleftrightarrow>
     (es \<noteq> [] \<longrightarrow> is_name (hd es) [46] = Ok True) \<and>
     (1 < length es \<longrightarrow> is_name (es ! 1) [46, 46] = Ok True)"

definition sub_dirs :: "bool \<Rightarrow> nat \<Rightarrow> dir_entry list \<Rightarrow> u32 list" where
  "sub_dirs is_first n es =
     map (\<lambda>(k, e). de_inode e) (filter (\<lambda>(k, e). \<not> is_free e \<and> de_file_type e = Directory \<and>
       \<not> (is_first \<and> (k = 0 \<or> k = 1))) (enumerate n es))"

definition sub_others :: "dir_entry list \<Rightarrow> u32 list" where
  "sub_others es = map de_inode (filter (\<lambda>e. \<not> is_free e \<and> de_file_type e \<noteq> Directory) es)"

lemma check_entry_fine:
  assumes "entry_fine f e" "dirent_ok e" "off + rec_len e \<le> BLOCK_SIZE"
    and "\<not> (sc_last_entry_free s \<and> is_free e)"
    and "is_first \<Longrightarrow> sc_count s = 0 \<Longrightarrow> is_name e [46] = Ok True"
    and "is_first \<Longrightarrow> sc_count s = 1 \<Longrightarrow> is_name e [46, 46] = Ok True"
  shows "check_entry f is_first dir e block off s =
    Ok (False, s\<lparr>sc_child_dirs := sc_child_dirs s @ sub_dirs is_first (sc_count s) [e],
      sc_child_others := sc_child_others s @ sub_others [e],
      sc_count := sc_count s + 1, sc_last_entry_free := is_free e,
      sc_last_entry_offset := off, sc_last_entry_size := rec_len e\<rparr>)"
proof -
  have dots: "check_dots is_first e s = Ok s" using assms(5,6) by (simp add: check_dots_def)
  have nm: "\<not> MAX_NAME < unat (de_name_len e)"
  proof (cases "is_free e")
    case True
    then have "e = dir_entry_free (de_record_len e)" using assms(2) by (simp add: dirent_ok_def)
    then have "de_name_len e = 0" by (metis dir_entry_free_def dir_entry.select_convs(4))
    then show ?thesis by simp
  qed (use assms(2) in \<open>simp add: dirent_ok_def\<close>)
  have ty: "de_file_type e \<noteq> Unknown" using assms(1) by (simp add: entry_fine_def)
  have ov: "\<not> BLOCK_SIZE < rec_len e + off" using assms(3) by simp
  show ?thesis
  proof (cases "is_free e")
    case True
    then show ?thesis using nm ty ov dots assms(4)
      by (simp add: check_entry_def sub_dirs_def sub_others_def)
  next
    case False
    then have fine: "\<not> max_index (fv_inode_allocator f) < de_inode e" "min_record_len (de_name_len e) = Ok (de_record_len e)"
      "de_inode e \<noteq> INVALID_ADDRESS"
      using assms(1) by (auto simp: entry_fine_def is_free_def)
    show ?thesis using nm ty ov dots False fine
      by (simp add: check_entry_def sub_dirs_def sub_others_def)
  qed
qed

lemma iter_check_fine:
  assumes "layout (pre @ es) buf" "length es < fuel" "\<forall>e \<in> set es. entry_fine f e" "merged (pre @ es)"
    and "is_first \<Longrightarrow> dots_first (pre @ es)"
    and "sc_count s = length pre" "sc_last_entry_free s \<longleftrightarrow> pre \<noteq> [] \<and> is_free (last pre)"
  shows "\<exists>s'. iter_unchecked fuel (check_entry f is_first dir) buf block (total pre) s = Ok s' \<and>
    sc_result s' = sc_result s \<and> sc_child_dirs s' = sc_child_dirs s @ sub_dirs is_first (length pre) es \<and>
    sc_child_others s' = sc_child_others s @ sub_others es"
  using assms
proof (induction es arbitrary: pre s fuel)
  case Nil
  then have "total pre = BLOCK_SIZE" by (simp add: layout_def)
  moreover obtain m where "fuel = Suc m" using Nil.prems(2) by (cases fuel) auto
  ultimately show ?case by (simp add: sub_dirs_def sub_others_def)
next
  case (Cons e es)
  obtain m where m: "fuel = Suc m" using Cons.prems(2) by (cases fuel) auto
  note sl = layout_slice [OF Cons.prems(1)]
  have lt: "total pre < BLOCK_SIZE" using sl(3) dirent_ok_len [OF sl(2)] by linarith
  have adj: "\<not> (sc_last_entry_free s \<and> is_free e)"
  proof
    assume "sc_last_entry_free s \<and> is_free e"
    then have pre: "pre \<noteq> []" "is_free (last pre)" "is_free e" using Cons.prems(7) by auto
    then have "(pre @ e # es) ! (length pre - 1) = last pre" by (simp add: nth_append last_conv_nth)
    moreover have "(pre @ e # es) ! Suc (length pre - 1) = e" using pre(1) by (simp add: nth_append)
    moreover have "Suc (length pre - 1) < length (pre @ e # es)" using pre(1) by simp
    ultimately show False using Cons.prems(4) pre unfolding merged_def by metis
  qed
  define t where "t = s\<lparr>sc_child_dirs := sc_child_dirs s @ sub_dirs is_first (sc_count s) [e],
      sc_child_others := sc_child_others s @ sub_others [e],
      sc_count := sc_count s + 1, sc_last_entry_free := is_free e,
      sc_last_entry_offset := total pre, sc_last_entry_size := rec_len e\<rparr>"
  have dot: "is_name e [46] = Ok True" if "is_first" "sc_count s = 0"
    using Cons.prems(5) [OF that(1)] Cons.prems(6) that(2) by (simp add: dots_first_def)
  have dot2: "is_name e [46, 46] = Ok True" if "is_first" "sc_count s = 1"
    using Cons.prems(5) [OF that(1)] Cons.prems(6) that(2) by (auto simp: dots_first_def nth_append)
  have step: "check_entry f is_first dir e block (total pre) s = Ok (False, t)"
    unfolding t_def by (rule check_entry_fine) (use Cons.prems(3) sl adj dot dot2 in simp_all)
  have run: "iter_unchecked fuel (check_entry f is_first dir) buf block (total pre) s =
      iter_unchecked m (check_entry f is_first dir) buf block (total (pre @ [e])) t"
    using lt by (simp add: m sl(4) step Let_def)
  have "\<exists>s'. iter_unchecked m (check_entry f is_first dir) buf block (total (pre @ [e])) t = Ok s' \<and>
    sc_result s' = sc_result t \<and> sc_child_dirs s' = sc_child_dirs t @ sub_dirs is_first (length (pre @ [e])) es \<and>
    sc_child_others s' = sc_child_others t @ sub_others es"
    by (rule Cons.IH) (use Cons.prems m in \<open>simp_all add: t_def\<close>)
  then show ?case unfolding run using Cons.prems(6) by (auto simp: t_def sub_dirs_def sub_others_def)
qed

lemma entries_le_total: "\<forall>e \<in> set es. dirent_ok e \<Longrightarrow> length es \<le> total es"
  by (induction es) (auto dest: dirent_ok_len)

context block_device
begin

lemma entries_in_block_execs:
  assumes lay: "layout es (bs ! (unat (dh_data_start (fv_directory_handler f)) + unat block))"
    and adr: "unat (dh_data_start (fv_directory_handler f)) + unat block < length bs"
    and fine: "\<forall>e \<in> set es. entry_fine f e" "merged es" "is_first \<Longrightarrow> dots_first es"
  shows "execs inv blks (check_integrity_entries_in_block ops f block is_first dir dirs others) bs
    (Ok ([], dirs @ sub_dirs is_first 0 es, others @ sub_others es)) bs"
proof (rule execs_wf)
  assume small: "length bs < 4294967296"
  let ?dh = "fv_directory_handler f" let ?a = "unat (dh_data_start ?dh) + unat block"
  have add: "addW block (dh_data_start ?dh) = Ok (block + dh_data_start ?dh)" "unat (block + dh_data_start ?dh) = ?a"
    using adr small unat_add_small [of block "dh_data_start ?dh"] by (simp_all add: addW_def)
  have rd: "execs inv blks (read_block ops (block + dh_data_start ?dh)) bs (Ok (bs ! ?a)) bs"
    using read_execs [of "block + dh_data_start ?dh" bs] add adr by simp
  define s0 where "s0 = \<lparr>sc_result = [], sc_child_dirs = dirs, sc_child_others = others,
     sc_last_entry_size = BLOCK_SIZE, sc_last_entry_offset = 0, sc_last_entry_free = False, sc_count = 0\<rparr>"
  have "length es < Suc BLOCK_SIZE" using lay entries_le_total [of es] by (auto simp: layout_def)
  then obtain s where s: "iter_unchecked (Suc BLOCK_SIZE) (check_entry f is_first dir) (bs ! ?a) block 0 s0 = Ok s"
    "sc_result s = []" "sc_child_dirs s = dirs @ sub_dirs is_first 0 es" "sc_child_others s = others @ sub_others es"
    using iter_check_fine [of "[]" es "bs ! ?a" "Suc BLOCK_SIZE" f is_first s0 dir block] lay fine by (auto simp: s0_def)
  show "execs inv blks (check_integrity_entries_in_block ops f block is_first dir dirs others) bs
    (Ok ([], dirs @ sub_dirs is_first 0 es, others @ sub_others es)) bs"
    unfolding check_integrity_entries_in_block_def iterate_block_unchecked_def s0_def [symmetric] add(1) bindM_liftM_Ok
    by (rule execs_bind, rule execs_bind [OF rd], subst s(1)) (auto simp: s)
qed

end


section \<open>A freshly formatted volume\<close>

lemma visit_first:
  assumes "0 < unat n" "unat n \<le> 4294967280"
  shows "\<exists>bm. visit (checker_bitmap_new n) 0 = Ok (False, bm) \<and> cb_count bm = 1"
proof -
  let ?b = "checker_bitmap_new n"
  note new = bm_new [OF assms(2)]
  have z: "unat (0 :: u32) < length (cb_bitmap ?b) * 8" using new(2) assms(1) by (simp del: length_greater_0_conv length_0_conv; linarith)
  from visit_cases [OF new(1) z] new(3) z obtain bm where
    bm: "visit ?b 0 = Ok (False, bm)" "bm_ok bm" "length (cb_bitmap bm) = length (cb_bitmap ?b)" "\<forall>y. bm_bit bm y \<longleftrightarrow> y = 0 \<or> bm_bit ?b y"
    by auto
  have "{x. x < length (cb_bitmap bm) * 8 \<and> bm_bit bm x} = {0}" using bm(3,4) new(3) z by auto
  then have "unat (cb_count bm) = 1" using bm(2) by (simp add: bm_ok_def)
  then have "cb_count bm = 1" by (simp add: word_unat_eq_iff)
  with bm(1) show ?thesis by blast
qed

lemma dir_start_fine:
  assumes "a \<noteq> INVALID_ADDRESS" "p \<noteq> INVALID_ADDRESS"
    "a \<le> max_index (fv_inode_allocator f)" "p \<le> max_index (fv_inode_allocator f)"
  shows "\<forall>e \<in> set (dir_start a p). entry_fine f e" "merged (dir_start a p)" "dots_first (dir_start a p)"
    "sub_dirs True 0 (dir_start a p) = []" "sub_others (dir_start a p) = []"
proof -
  have len: "min_record_len 1 = Ok 12" "min_record_len 2 = Ok 12"
    using min_record_len_eq [of 1] min_record_len_eq [of 2] by (auto simp: word_unat_eq_iff)
  have live: "\<not> is_free (small_entry a Directory nm l)" "\<not> is_free (small_entry p Directory nm l)" for nm l
    using assms by (simp_all add: is_free_def small_entry_def)
  have free: "de_file_type (dir_entry_free 232) = File" by (simp add: dir_entry_free_def)
  show "\<forall>e \<in> set (dir_start a p). entry_fine f e"
    using assms len free by (simp add: dir_start_def entry_fine_def) (simp add: small_entry_def)
  show "merged (dir_start a p)" using live by (auto simp: merged_def dir_start_def less_Suc_eq)
  show "dots_first (dir_start a p)"
    by (simp add: dots_first_def dir_start_def is_name_def small_entry_def sliceR_def slice_def MAX_NAME_def)
  show "sub_dirs True 0 (dir_start a p) = []" "sub_others (dir_start a p) = []"
    by (simp_all add: sub_dirs_def sub_others_def dir_start_def) (simp add: small_entry_def)
qed

context block_device
begin

lemma root_check_execs:
  assumes F: "formatted now bs"
  shows "\<exists>vi vb. execs inv blks (check_integrity_recursive (Suc k) ops (fresh_format (length bs)) 0
      (checker_bitmap_new (max_index (fv_inode_allocator (fresh_format (length bs)))))
      (checker_bitmap_new (max_index (fv_block_allocator (fresh_format (length bs)))))) bs (Ok ([], vi, vb)) bs \<and>
    cb_count vi = 1 \<and> cb_count vb = 1"
proof -
  let ?n = "length bs" let ?f = "fresh_format ?n" let ?h = "fv_inode_handler ?f" let ?ia = "fv_inode_allocator ?f"
  let ?ba = "fv_block_allocator ?f" let ?i = "root_inode now"
  have G: "5 \<le> ?n" "?n \<le> 8192" "inode_at ?h bs 0 = Ok ?i" "dir_layout ?h bs ?i [dir_start 0 0]"
    "bit_at ?ia bs 0" "bit_at ?ba bs 0"
    using F sizes [of ?n] by (auto simp: formatted_def Let_def)
  note s = sizes [OF G(1,2)]
  have mt: "mounted ?f bs" by (rule fresh_mounted [OF G(1,2)]) simp
  have mx: "unat (max_index ?ia) = table_size ?n * 2" "unat (max_index ?ba) = ?n - (2 + bitmap_size ?n + table_size ?n)"
    using s G(2) by (simp_all add: fresh_format_def bitmap_allocator_new_def max_index_def unat_u32_of_nat del: of_nat_add of_nat_mult of_nat_diff)
  have pos: "0 < unat (max_index ?ia)" "unat (max_index ?ia) \<le> 4294967280" "0 < unat (max_index ?ba)" "unat (max_index ?ba) \<le> 4294967280"
    unfolding mx using s G(2) by linarith+
  from visit_first [OF pos(1,2)] visit_first [OF pos(3,4)] obtain vi vb where
    v: "visit (checker_bitmap_new (max_index ?ia)) 0 = Ok (False, vi)" "cb_count vi = 1"
       "visit (checker_bitmap_new (max_index ?ba)) 0 = Ok (False, vb)" "cb_count vb = 1" by blast
  have sz: "0 < unat (ba_size ?ia)" "0 < unat (ba_size ?ba)"
    using s by (simp_all add: fresh_format_def bitmap_allocator_new_def unat_u32_of_nat)
  have al: "execs inv blks (is_allocated ops ?ia 0) bs (Ok True) bs" "execs inv blks (is_allocated ops ?ba 0) bs (Ok True) bs"
    using is_allocated_execs [OF mounted_ok(1) [OF mt], of 0] is_allocated_execs [OF mounted_ok(2) [OF mt], of 0] sz G(5,6) by auto
  have z: "unat (0 :: u32) < inode_count ?h"
    using s by (simp add: fresh_format_def inode_table_handler_new_def unat_u32_of_nat)
  have rd: "execs inv blks (read_inode ops ?h 0) bs (Ok ?i) bs"
    using read_inode_execs [OF mounted_ok(3) [OF mt] z] G(3) by simp
  have gb: "execs inv blks (get_block ops ?h ?i 0) bs (Ok 0) bs"
    using get_block_execs [of ?i ?h bs 0] G(4) by (simp add: dir_layout_def)
  have lay: "layout (dir_start 0 0) (bs ! (unat (dh_data_start (fv_directory_handler ?f)) + unat 0))"
    "unat (dh_data_start (fv_directory_handler ?f)) + unat (0 :: u32) < length bs"
    using G(4) mounted_ok(7) [OF mt] by (simp_all add: dir_layout_def data_addr_def)
  have z0: "(0 :: u32) \<noteq> INVALID_ADDRESS" "0 \<le> max_index ?ia" by (simp_all add: INVALID_ADDRESS_def)
  note fine = dir_start_fine [OF z0(1) z0(1) z0(2) z0(2)]
  have en: "execs inv blks (check_integrity_entries_in_block ops ?f 0 True 0 [] []) bs (Ok ([], [], [])) bs"
    using entries_in_block_execs [OF lay fine(1,2), of True 0 "[]" "[]"] fine by simp
  have adr: "check_address ?f 0 0 0 = []" using z0 by (simp add: check_address_def)
  have blk: "execs inv blks (check_dir_block ops ?f 0 ?i 0 ([], checker_bitmap_new (max_index ?ba), [], [])) bs
      (Ok ([], vb, [], [])) bs"
    unfolding check_dir_block_def split_conv
    by (rule execs_bind [OF gb], unfold Let_def adr, rule execs_bind [OF al(2)]) (auto simp: v intro!: execs_bind [OF en])
  have ino: "execs inv blks (check_integrity_inode_allocation ops ?f 0 (checker_bitmap_new (max_index ?ia))) bs (Ok ([], vi)) bs"
    unfolding check_integrity_inode_allocation_def by (rule execs_bind [OF al(1)]) (auto simp: v)
  have one: "u32_range 0 1 = [0]" by simp
  have "execs inv blks (check_integrity_recursive (Suc k) ops ?f 0 (checker_bitmap_new (max_index ?ia))
      (checker_bitmap_new (max_index ?ba))) bs (Ok ([], vi, vb)) bs"
    unfolding check_integrity_recursive.simps
    by (rule execs_bind [OF ino], unfold split_conv, rule execs_bind [OF rd])
      (auto simp: one bindM_assoc intro!: execs_bind [OF blk])
  with v show ?thesis by blast
qed

lemma check_fresh_execs:
  assumes F: "formatted now bs"
  shows "execs inv blks (check_integrity ops (fresh_format (length bs))) bs (Ok \<lparr>ir_errors = []\<rparr>) bs"
proof -
  let ?n = "length bs" let ?f = "fresh_format ?n" let ?ia = "fv_inode_allocator ?f" let ?ba = "fv_block_allocator ?f"
  let ?sb = "fv_superblock ?f" let ?ds = "2 + bitmap_size ?n + table_size ?n"
  have G: "5 \<le> ?n" "?n \<le> 8192" "\<forall>x < 2048. bit_at ?ia bs x \<longleftrightarrow> x = 0" "\<forall>x < bitmap_size ?n * 2048. bit_at ?ba bs x \<longleftrightarrow> x = 0"
    using F by (auto simp: formatted_def Let_def)
  note s = sizes [OF G(1,2)]
  have mt: "mounted ?f bs" by (rule fresh_mounted [OF G(1,2)]) simp
  have mx: "unat (ba_max_index ?ia) = table_size ?n * 2" "unat (ba_max_index ?ba) = ?n - ?ds"
    using s G(2) by (simp_all add: fresh_format_def bitmap_allocator_new_def unat_u32_of_nat del: of_nat_add of_nat_mult of_nat_diff)
  have "{x. x < unat (ba_max_index ?ia) \<and> bit_at ?ia bs x} = {0}" "{x. x < unat (ba_max_index ?ba) \<and> bit_at ?ba bs x} = {0}"
    unfolding mx using G(3,4) s by auto
  then have cnt: "execs inv blks (count_allocated ops ?ia) bs (Ok 1) bs" "execs inv blks (count_allocated ops ?ba) bs (Ok 1) bs"
    using count_allocated_execs [OF mounted_ok(1) [OF mt]] count_allocated_execs [OF mounted_ok(2) [OF mt]] by simp_all
  have sb: "sb_inode_table_blocks ?sb = of_nat (table_size ?n)" "sb_total_blocks ?sb = of_nat ?n" "sb_data_start ?sb = of_nat ?ds"
    "sb_free_inodes ?sb = of_nat (table_size ?n * 2 - 1)" "sb_free_data ?sb = of_nat (?n - ?ds - 1)" "sb_root_inode ?sb = 0"
    by (simp_all add: fresh_format_def fresh_superblock_def)
  have ar: "mulW (of_nat (table_size ?n)) 2 = Ok (of_nat (table_size ?n * 2) :: u32)"
    "subW (of_nat (table_size ?n * 2)) 1 = Ok (of_nat (table_size ?n * 2 - 1) :: u32)"
    "subW (of_nat ?n) (of_nat ?ds) = Ok (of_nat (?n - ?ds) :: u32)" "subW (of_nat (?n - ?ds)) 1 = Ok (of_nat (?n - ?ds - 1) :: u32)"
    using u32_arith(3) [of "table_size ?n" 2] u32_arith(2) [of 1 "table_size ?n * 2"] u32_arith(2) [of ?ds ?n]
      u32_arith(2) [of 1 "?n - ?ds"] s G(2) by simp_all
  from root_check_execs [OF F] obtain vi vb where
    rec: "execs inv blks (check_integrity_recursive (Suc (unat (of_nat (table_size ?n * 2) :: u32))) ops ?f 0
      (checker_bitmap_new (max_index ?ia)) (checker_bitmap_new (max_index ?ba))) bs (Ok ([], vi, vb)) bs"
      and v: "cb_count vi = 1" "cb_count vb = 1" by blast
  show ?thesis
    unfolding check_integrity_def Let_def sb inodes_per_block_eq
    apply (rule execs_bind [OF cnt(1)], rule execs_bind [OF cnt(2)])
    apply (simp only: ar bindM_liftM_Ok)
    apply (rule execs_bind [OF rec])
    apply (simp add: v execs_return del: of_nat_mult of_nat_diff)
    done
qed

end

text \<open>
  C21. The integrity check accepts what \<open>format\<close> writes: on every device of 5 to 8192 blocks, formatting,
  mounting and checking succeed and the list of errors is empty.
\<close>

theorem check_integrity_fresh:
  assumes dev: "block_device ops blks dinv" and d: "dinv d" and n: "5 \<le> length (blks d)" "length (blks d) \<le> 8192"
  shows "\<exists>f d1 d2 d3. format ops now d = (Ok (), d1) \<and> mount ops d1 = (Ok f, d2) \<and>
    check_integrity ops f d2 = (Ok \<lparr>ir_errors = []\<rparr>, d3) \<and> blks d3 = blks d2"
proof -
  from block_device.format_execs [OF dev n block_device.blocks_wf [OF dev d], of now] obtain bs where
    e: "execs dinv blks (format ops now) (blks d) (Ok ()) bs" and F: "formatted now bs" by blast
  from execsD [OF e d refl] obtain d1 where d1: "format ops now d = (Ok (), d1)" "dinv d1" "blks d1 = bs" by blast
  from execsD [OF block_device.mount_execs [OF dev F] d1(2,3)] obtain d2 where
    d2: "mount ops d1 = (Ok (fresh_format (length bs)), d2)" "dinv d2" "blks d2 = bs" by blast
  from execsD [OF block_device.check_fresh_execs [OF dev F] d2(2,3)] d1 d2 show ?thesis by auto
qed

theorem check_integrity_fresh_witness:
  "\<exists>f d1 d2 d3. format mem_ops 9 (mem_empty 16) = (Ok (), d1) \<and> mount mem_ops d1 = (Ok f, d2) \<and>
    check_integrity mem_ops f d2 = (Ok \<lparr>ir_errors = []\<rparr>, d3)"
proof -
  have "mem_inv (mem_empty 16)" "5 \<le> length (md_blocks (mem_empty 16))" "length (md_blocks (mem_empty 16)) \<le> 8192"
    by (simp_all add: mem_empty_def mem_inv_def wf_blocks_def)
  from check_integrity_fresh [OF mem.block_device_axioms this, of 9] show ?thesis by blast
qed

end
