(* ===== verification/Integrity_Report.thy ===== *)
theory Integrity_Report
  imports Integrity_Fresh File_Operations
begin

text \<open>
  What the integrity checker reports of the blocks of one inode: exactly the blocks that are not
  allocated and those met before, and the inode's type when it is not a regular file.
\<close>

fun blocks_report :: "(nat \<Rightarrow> bool) \<Rightarrow> u32 \<Rightarrow> nat set \<Rightarrow> u32 list \<Rightarrow> integrity_error list" where
  "blocks_report allocated ino seen [] = []"
| "blocks_report allocated ino seen (r # rs) =
     (if allocated (unat r) then [] else [UnallocatedData (UA_Data r ino)]) @
     (if unat r \<in> seen then [DoubleReference r] else []) @
     blocks_report allocated ino (insert (unat r) seen) rs"

definition type_report :: "file_type \<Rightarrow> u32 \<Rightarrow> integrity_error list" where
  "type_report t ino =
     (if t = Unknown then [InvalidInode (ID_FileTypeUnknown ino)] else []) @
     (if t \<noteq> File then [MismatchedFileType t Directory ino] else [])"

lemma report_double:
  "DoubleReference r \<in> set (blocks_report al ino seen rs) \<longleftrightarrow>
     r \<in> set rs \<and> (unat r \<in> seen \<or> 1 < count_list rs r)"
proof (induction rs arbitrary: seen)
  case (Cons a rs)
  have "r \<in> set rs \<longleftrightarrow> 0 < count_list rs r" using count_notin [of r rs] count_list_0_iff [of rs r] by (cases "r \<in> set rs") auto
  then show ?case using Cons.IH by (auto simp: word_unat_eq_iff)
qed simp

lemma report_unallocated:
  "UnallocatedData (UA_Data r n) \<in> set (blocks_report al ino seen rs) \<longleftrightarrow> n = ino \<and> r \<in> set rs \<and> \<not> al (unat r)"
  by (induction rs arbitrary: seen) auto

lemma report_seen:
  "\<forall>r \<in> set rs. al (unat r) \<and> unat r \<in> seen \<Longrightarrow> blocks_report al ino seen rs = map DoubleReference rs"
  by (induction rs) (simp_all add: insert_absorb)

lemma report_kinds:
  "e \<in> set (blocks_report al ino seen rs) \<Longrightarrow> (\<exists>r. e = DoubleReference r) \<or> (\<exists>r. e = UnallocatedData (UA_Data r ino))"
  by (induction rs arbitrary: seen) (auto split: if_splits)

lemma report_empty:
  "blocks_report al ino seen rs = [] \<longleftrightarrow> distinct rs \<and> (\<forall>r \<in> set rs. al (unat r) \<and> unat r \<notin> seen)"
proof (induction rs arbitrary: seen)
  case (Cons a rs)
  have "unat r = unat a \<longleftrightarrow> r = a" for r by (simp add: word_unat_eq_iff)
  with Cons.IH show ?case by auto
qed simp

context block_device
begin

lemma check_block_execs:
  assumes mt: "mounted f bs" and i: "inode_wf i" "meta_ok (fv_inode_handler f) bs i" and k: "k < unat (in_blocks i)"
    and r: "r = inode_blocks (fv_inode_handler f) bs i ! k" "unat r < unat (max_index (fv_block_allocator f))"
    and v: "visit bm r = Ok (old, bm')"
  shows "execs inv blks (check_inode_block ops f ino i (of_nat k) (res, bm)) bs
    (Ok (res @ (if bit_at (fv_block_allocator f) bs (unat r) then [] else [UnallocatedData (UA_Data r ino)]) @
      (if old then [DoubleReference r] else []), bm')) bs"
proof -
  let ?ba = "fv_block_allocator f"
  have ku: "unat (of_nat k :: u32) = k" using k unat_u32_bound [of "in_blocks i"] by (intro unat_u32_of_nat) linarith
  have gb: "execs inv blks (get_block ops (fv_inode_handler f) i (of_nat k)) bs (Ok r) bs"
    using get_block_execs [OF i, of "of_nat k"] k ku r(1) by (simp add: word_less_nat_alt)
  have sz: "unat r < unat (ba_size ?ba) * 2048"
    using r(2) mounted_ok(2) [OF mt] by (simp add: bitmap_ok_def max_index_def)
  have al: "execs inv blks (is_allocated ops ?ba r) bs (Ok (bit_at ?ba bs (unat r))) bs"
    using is_allocated_execs [OF mounted_ok(2) [OF mt] sz] r(2) by (simp add: max_index_def word_le_nat_alt)
  have "r \<noteq> INVALID_ADDRESS"
  proof
    assume "r = INVALID_ADDRESS"
    then have "4294967295 < unat (max_index ?ba)" using r(2) by (simp add: INVALID_ADDRESS_def)
    then show False using unat_u32_bound [of "max_index ?ba"] by linarith
  qed
  then have ad: "check_address f ino (of_nat k) r = []" using r(2) by (simp add: check_address_def word_less_nat_alt)
  show ?thesis
    unfolding check_inode_block_def split_conv
    by (rule execs_bind [OF gb], unfold Let_def ad append_Nil2, rule execs_bind [OF al]) (auto simp: v)
qed

lemma check_blocks_execs:
  assumes mt: "mounted f bs" and i: "inode_wf i" "meta_ok (fv_inode_handler f) bs i"
    and rs: "\<forall>r \<in> set (inode_blocks (fv_inode_handler f) bs i). unat r < unat (max_index (fv_block_allocator f))"
    and bm: "bm_ok bm" "unat (max_index (fv_block_allocator f)) \<le> length (cb_bitmap bm) * 8"
  shows "\<exists>bm'. execs inv blks (foldM (check_inode_block ops f ino i) (map of_nat [k..<unat (in_blocks i)]) (res, bm)) bs
      (Ok (res @ blocks_report (bit_at (fv_block_allocator f) bs) ino {x. bm_bit bm x}
        (drop k (inode_blocks (fv_inode_handler f) bs i)), bm')) bs \<and>
    bm_ok bm' \<and> length (cb_bitmap bm') = length (cb_bitmap bm) \<and>
    (\<forall>y. bm_bit bm' y \<longleftrightarrow> bm_bit bm y \<or> y \<in> unat ` set (drop k (inode_blocks (fv_inode_handler f) bs i)))"
  using bm
proof (induction "unat (in_blocks i) - k" arbitrary: k res bm)
  case 0
  then show ?case by (auto simp: inode_blocks_def intro!: exI [of _ bm])
next
  case (Suc n)
  let ?h = "fv_inode_handler f" let ?ba = "fv_block_allocator f" let ?rs = "inode_blocks ?h bs i" let ?r = "?rs ! k"
  have k: "k < unat (in_blocks i)" and n: "n = unat (in_blocks i) - Suc k" using Suc.hyps(2) by linarith+
  have len: "length ?rs = unat (in_blocks i)" by (simp add: inode_blocks_def)
  have r: "unat ?r < unat (max_index ?ba)" using rs k len by simp
  have d: "drop k ?rs = ?r # drop (Suc k) ?rs" using k len by (simp add: Cons_nth_drop_Suc)
  from visit_cases [OF Suc.prems(1), of ?r] r Suc.prems(2) obtain b1 where
    b1: "visit bm ?r = Ok (bm_bit bm (unat ?r), b1)" "bm_ok b1" "length (cb_bitmap b1) = length (cb_bitmap bm)"
      "\<forall>y. bm_bit b1 y \<longleftrightarrow> y = unat ?r \<or> bm_bit bm y" by (meson less_le_trans)
  let ?res = "res @ (if bit_at ?ba bs (unat ?r) then [] else [UnallocatedData (UA_Data ?r ino)]) @
    (if bm_bit bm (unat ?r) then [DoubleReference ?r] else [])"
  have body: "execs inv blks (check_inode_block ops f ino i (of_nat k) (res, bm)) bs (Ok (?res, b1)) bs"
    by (rule check_block_execs [OF mt i k refl r b1(1)])
  have set: "{x. bm_bit b1 x} = insert (unat ?r) {x. bm_bit bm x}" using b1(4) by auto
  have p: "unat (max_index ?ba) \<le> length (cb_bitmap b1) * 8" using Suc.prems(2) b1(3) by simp
  obtain b2 where
    b2: "execs inv blks (foldM (check_inode_block ops f ino i) (map of_nat [Suc k..<unat (in_blocks i)]) (?res, b1)) bs
      (Ok (?res @ blocks_report (bit_at ?ba bs) ino {x. bm_bit b1 x} (drop (Suc k) ?rs), b2)) bs"
      "bm_ok b2" "length (cb_bitmap b2) = length (cb_bitmap b1)"
      "\<forall>y. bm_bit b2 y \<longleftrightarrow> bm_bit b1 y \<or> y \<in> unat ` set (drop (Suc k) ?rs)"
    using Suc.hyps(1) [OF n b1(2) p, of ?res] by blast
  have "execs inv blks (foldM (check_inode_block ops f ino i) (map of_nat [k..<unat (in_blocks i)]) (res, bm)) bs
      (Ok (res @ blocks_report (bit_at ?ba bs) ino {x. bm_bit bm x} (drop k ?rs), b2)) bs"
  proof -
    have rng: "map of_nat [k..<unat (in_blocks i)] = (of_nat k :: u32) # map of_nat [Suc k..<unat (in_blocks i)]"
      using k by (simp add: upt_conv_Cons)
    have eq: "res @ blocks_report (bit_at ?ba bs) ino {x. bm_bit bm x} (drop k ?rs) =
        ?res @ blocks_report (bit_at ?ba bs) ino {x. bm_bit b1 x} (drop (Suc k) ?rs)" unfolding d set by simp
    show ?thesis unfolding rng foldM.simps eq by (rule execs_bind [OF body]) (rule b2(1))
  qed
  moreover have "bm_bit b2 y \<longleftrightarrow> bm_bit bm y \<or> y \<in> unat ` set (drop k ?rs)" for y using b2(4) b1(4) unfolding d by auto
  ultimately show ?case using b2(2,3) b1(3) by auto
qed

lemma check_inode_execs:
  assumes mt: "mounted f bs" and at: "inode_at (fv_inode_handler f) bs ino = Ok i" "unat ino < inode_count (fv_inode_handler f)"
    and i: "inode_wf i" "meta_ok (fv_inode_handler f) bs i"
    and rs: "\<forall>r \<in> set (inode_blocks (fv_inode_handler f) bs i). unat r < unat (max_index (fv_block_allocator f))"
    and bm: "bm_ok bm" "unat (max_index (fv_block_allocator f)) \<le> length (cb_bitmap bm) * 8"
  shows "\<exists>bm'. execs inv blks (check_integrity_inode ops f ino bm File) bs
      (Ok (type_report (in_file_type i) ino @ blocks_report (bit_at (fv_block_allocator f) bs) ino {x. bm_bit bm x}
        (inode_blocks (fv_inode_handler f) bs i), bm')) bs \<and>
    bm_ok bm' \<and> length (cb_bitmap bm') = length (cb_bitmap bm) \<and>
    (\<forall>y. bm_bit bm' y \<longleftrightarrow> bm_bit bm y \<or> y \<in> unat ` set (inode_blocks (fv_inode_handler f) bs i))"
proof -
  have rd: "execs inv blks (read_inode ops (fv_inode_handler f) ino) bs (Ok i) bs"
    using read_inode_execs [OF mounted_ok(3) [OF mt] at(2)] at(1) by simp
  have t: "(let result = (if in_file_type i = Unknown then [InvalidInode (ID_FileTypeUnknown ino)] else []);
         result = (if in_file_type i \<noteq> File then result @ [MismatchedFileType (in_file_type i) Directory ino] else result)
     in result) = type_report (in_file_type i) ino" by (simp add: type_report_def)
  from check_blocks_execs [OF mt i rs bm, of ino 0 "type_report (in_file_type i) ino"] show ?thesis
    unfolding check_integrity_inode_def Let_def t [unfolded Let_def, symmetric]
    by (fastforce intro: execs_bind [OF rd])
qed

end


section \<open>Properties\<close>

text \<open>
  C32. The check of one inode is exact. On a mounted volume, for an inode whose block addresses are in
  range: a block is reported as doubly referenced exactly when it was visited before or occurs twice
  in the inode, and as unallocated exactly when its bit is clear; the report is empty exactly for a
  regular file whose blocks are distinct, allocated and new; afterwards the blocks of the inode are
  the ones added to the visited ones, and the device is unchanged.
\<close>

theorem check_inode_exact:
  fixes f :: format_v1 and bm :: checker_bitmap
  assumes dev: "block_device ops blks dinv" and d: "dinv d" and mt: "mounted f (blks d)"
    and at: "inode_at (fv_inode_handler f) (blks d) ino = Ok i" "unat ino < inode_count (fv_inode_handler f)"
    and i: "inode_wf i" "meta_ok (fv_inode_handler f) (blks d) i"
    and rs: "\<forall>r \<in> set (inode_blocks (fv_inode_handler f) (blks d) i). unat r < unat (max_index (fv_block_allocator f))"
    and bm: "bm_ok bm" "unat (max_index (fv_block_allocator f)) \<le> length (cb_bitmap bm) * 8"
  defines "rs \<equiv> inode_blocks (fv_inode_handler f) (blks d) i"
    and "allocated \<equiv> \<lambda>r. bit_at (fv_block_allocator f) (blks d) (unat r)"
  shows "\<exists>errs bm' d'. check_integrity_inode ops f ino bm File d = (Ok (errs, bm'), d') \<and> blks d' = blks d \<and> bm_ok bm' \<and>
    (\<forall>r. DoubleReference r \<in> set errs \<longleftrightarrow> r \<in> set rs \<and> (bm_bit bm (unat r) \<or> 1 < count_list rs r)) \<and>
    (\<forall>r. UnallocatedData (UA_Data r ino) \<in> set errs \<longleftrightarrow> r \<in> set rs \<and> \<not> allocated r) \<and>
    (errs = [] \<longleftrightarrow> in_file_type i = File \<and> distinct rs \<and> (\<forall>r \<in> set rs. allocated r \<and> \<not> bm_bit bm (unat r))) \<and>
    (\<forall>y. bm_bit bm' y \<longleftrightarrow> bm_bit bm y \<or> y \<in> unat ` set rs)"
proof -
  let ?b = "blocks_report (bit_at (fv_block_allocator f) (blks d)) ino {x. bm_bit bm x} rs"
  let ?errs = "type_report (in_file_type i) ino @ ?b"
  from block_device.check_inode_execs [OF dev mt at i assms(8) bm] obtain bm' where
    e: "execs dinv blks (check_integrity_inode ops f ino bm File) (blks d) (Ok (?errs, bm')) (blks d)"
    and bm': "bm_ok bm'" "\<forall>y. bm_bit bm' y \<longleftrightarrow> bm_bit bm y \<or> y \<in> unat ` set rs" unfolding rs_def by blast
  from execsD [OF e d refl] obtain d' where d': "check_integrity_inode ops f ino bm File d = (Ok (?errs, bm'), d')" "blks d' = blks d" by blast
  have ty: "type_report (in_file_type i) ino = [] \<longleftrightarrow> in_file_type i = File"
    "DoubleReference r \<notin> set (type_report (in_file_type i) ino)"
    "UnallocatedData u \<notin> set (type_report (in_file_type i) ino)" for r u by (auto simp: type_report_def)
  show ?thesis
    using d' bm' ty report_double [of _ _ ino "{x. bm_bit bm x}" rs] report_unallocated [of _ ino _ ino "{x. bm_bit bm x}" rs]
      report_empty [of _ ino "{x. bm_bit bm x}" rs]
    by (intro exI [of _ ?errs] exI [of _ bm'] exI [of _ d']) (auto simp: allocated_def)
qed

theorem check_inode_exact_witness:
  "\<exists>bm' d'. check_integrity_inode mem_ops demo_format 0 (checker_bitmap_new 4) File demo_device = (Ok ([], bm'), d') \<and>
    bm_bit bm' 0"
proof -
  have h: "fv_inode_handler demo_format = demo_handler" "inode_count demo_handler = 2"
    "max_index (fv_block_allocator demo_format) = 4"
    by (simp_all add: demo_format_def demo_handler_def inode_table_handler_new_def max_index_def bitmap_allocator_new_def)
  have bl: "inode_blocks demo_handler demo_blocks (demo_inode 0 3) = [0]" using demo_file(1) [of 0 3] by simp
  have mk: "meta_ok demo_handler demo_blocks (demo_inode 0 3)"
    using demo_file(2) [of 0 3] by (simp add: meta_ok_def) (simp add: demo_inode_def)
  have new: "bm_ok (checker_bitmap_new 4)" "4 \<le> length (cb_bitmap (checker_bitmap_new 4)) * 8" "\<not> bm_bit (checker_bitmap_new 4) 0"
    using bm_new(1,2) [of 4] bm_new(3) [of 4 0] by fastforce+
  have pre: "mounted demo_format (md_blocks demo_device)" "inode_at (fv_inode_handler demo_format) (md_blocks demo_device) 0 = Ok (demo_inode 0 3)"
    "unat 0 < inode_count (fv_inode_handler demo_format)" "inode_wf (demo_inode 0 3)"
    "meta_ok (fv_inode_handler demo_format) (md_blocks demo_device) (demo_inode 0 3)"
    "\<forall>r \<in> set (inode_blocks (fv_inode_handler demo_format) (md_blocks demo_device) (demo_inode 0 3)). unat r < unat (max_index (fv_block_allocator demo_format))"
    "unat (max_index (fv_block_allocator demo_format)) \<le> length (cb_bitmap (checker_bitmap_new 4)) * 8"
    using demo_mounted demo_at(1) h mk bl new by simp_all
  have fine: "in_file_type (demo_inode 0 3) = File" by (simp add: demo_inode_def inode_empty_def)
  from check_inode_exact [OF mem.block_device_axioms demo_inv pre(1-6) new(1) pre(7)] show ?thesis
    using bl h fine new(3) demo_bit [of 0] by auto
qed

text \<open>
  The check of a directory block reports nothing for a block in which every record is well formed
  and minimal, free regions are merged and, in the first block, \<open>.\<close> and \<open>..\<close> come first; and it then
  collects exactly the live entries for the recursion, in order: the subdirectories other than \<open>.\<close>
  and \<open>..\<close>, and the other children.
\<close>

lemma check_entries_exact:
  assumes dev: "block_device ops blks dinv" and d: "dinv d"
    and adr: "unat (dh_data_start (fv_directory_handler f)) + unat block < length (blks d)"
    and lay: "layout es (blks d ! (unat (dh_data_start (fv_directory_handler f)) + unat block))"
    and fine: "\<forall>e \<in> set es. entry_fine f e" "merged es" "is_first \<Longrightarrow> dots_first es"
  shows "\<exists>d'. check_integrity_entries_in_block ops f block is_first dir [] [] d = (Ok ([], sub_dirs is_first 0 es, sub_others es), d') \<and>
    blks d' = blks d"
  using execsD [OF block_device.entries_in_block_execs [OF dev lay adr fine, of is_first dir "[]" "[]"] d refl] by auto

fun visit_all :: "checker_bitmap \<Rightarrow> u32 list \<Rightarrow> (bool list \<times> checker_bitmap) res" where
  "visit_all bm [] = Ok ([], bm)"
| "visit_all bm (x # xs) =
     bindR (visit bm x) (\<lambda>(again, bm). bindR (visit_all bm xs) (\<lambda>(flags, bm). Ok (again # flags, bm)))"

lemma visit_all_flags:
  assumes "bm_ok bm" "\<forall>x \<in> set xs. unat x < length (cb_bitmap bm) * 8"
  shows "\<exists>bm'. visit_all bm xs = Ok (map (\<lambda>k. bm_bit bm (unat (xs ! k)) \<or> xs ! k \<in> set (take k xs)) [0..<length xs], bm') \<and>
    bm_ok bm' \<and> length (cb_bitmap bm') = length (cb_bitmap bm) \<and> (\<forall>y. bm_bit bm' y \<longleftrightarrow> bm_bit bm y \<or> y \<in> unat ` set xs)"
  using assms
proof (induction xs arbitrary: bm)
  case (Cons x xs)
  from visit_cases [OF Cons.prems(1), of x] Cons.prems(2) obtain b1 where
    b1: "visit bm x = Ok (bm_bit bm (unat x), b1)" "bm_ok b1" "length (cb_bitmap b1) = length (cb_bitmap bm)"
      "\<forall>y. bm_bit b1 y \<longleftrightarrow> y = unat x \<or> bm_bit bm y" by auto
  from Cons.IH [OF b1(2)] Cons.prems(2) b1(3) obtain b2 where
    b2: "visit_all b1 xs = Ok (map (\<lambda>k. bm_bit b1 (unat (xs ! k)) \<or> xs ! k \<in> set (take k xs)) [0..<length xs], b2)" "bm_ok b2"
      "length (cb_bitmap b2) = length (cb_bitmap bm)" "\<forall>y. bm_bit b2 y \<longleftrightarrow> bm_bit b1 y \<or> y \<in> unat ` set xs" by auto
  have "map (\<lambda>k. bm_bit bm (unat ((x # xs) ! k)) \<or> (x # xs) ! k \<in> set (take k (x # xs))) [0..<length (x # xs)] =
      bm_bit bm (unat x) # map (\<lambda>k. bm_bit b1 (unat (xs ! k)) \<or> xs ! k \<in> set (take k xs)) [0..<length xs]"
    using b1(4) by (auto simp: upt_conv_Cons map_Suc_upt [symmetric] word_unat_eq_iff simp del: upt_Suc)
  then show ?case using b1 b2 by (intro exI [of _ b2]) auto
qed simp

text \<open>
  The bitmap of visited indices is a set. From a new bitmap of \<open>n\<close> bits, any sequence of visits
  of indices below \<open>n\<close> succeeds, answers each time whether the index came before, and leaves a bitmap
  whose counter is the number of different indices and which contains exactly them.
\<close>

lemma checker_bitmap_is_set:
  assumes n: "unat n \<le> 4294967280" and xs: "\<forall>x \<in> set xs. unat x < unat n"
  shows "\<exists>bm. visit_all (checker_bitmap_new n) xs = Ok (map (\<lambda>k. xs ! k \<in> set (take k xs)) [0..<length xs], bm) \<and>
    unat (cb_count bm) = card (set xs) \<and> (\<forall>x. unat x < unat n \<longrightarrow> visited bm x = Ok (x \<in> set xs))"
proof -
  let ?b = "checker_bitmap_new n"
  note new = bm_new [OF n]
  have lt: "\<forall>x \<in> set xs. unat x < length (cb_bitmap ?b) * 8" using xs new(2) by auto
  then have old: "\<forall>x \<in> set xs. \<not> bm_bit ?b (unat x)" using new(3) by blast
  from visit_all_flags [OF new(1) lt] obtain bm where
    bm: "visit_all ?b xs = Ok (map (\<lambda>k. bm_bit ?b (unat (xs ! k)) \<or> xs ! k \<in> set (take k xs)) [0..<length xs], bm)" "bm_ok bm"
      "length (cb_bitmap bm) = length (cb_bitmap ?b)" "\<forall>y. bm_bit bm y \<longleftrightarrow> bm_bit ?b y \<or> y \<in> unat ` set xs" by blast
  have flags: "map (\<lambda>k. bm_bit ?b (unat (xs ! k)) \<or> xs ! k \<in> set (take k xs)) [0..<length xs] =
      map (\<lambda>k. xs ! k \<in> set (take k xs)) [0..<length xs]" using old by simp
  have "{x. x < length (cb_bitmap bm) * 8 \<and> bm_bit bm x} = unat ` set xs" using bm(3,4) lt new(3) by auto
  moreover have "inj_on unat (set xs)" by (auto simp: inj_on_def word_unat_eq_iff)
  ultimately have cnt: "unat (cb_count bm) = card (set xs)" using bm(2) by (simp add: bm_ok_def card_image)
  have "visited bm x = Ok (x \<in> set xs)" if "unat x < unat n" for x
  proof -
    have b: "unat x < length (cb_bitmap bm) * 8" using that new(2) bm(3) by simp
    then have "bm_bit bm (unat x) \<longleftrightarrow> x \<in> set xs"
      using bm(3,4) new(3) [of "unat x"] by (auto simp: image_iff) (metis word_unat_eq_iff)
    then show ?thesis using visited_eq [OF b] by simp
  qed
  with bm(1) flags cnt show ?thesis by auto
qed

end
