(* ===== verification/Fuse_V1.thy ===== *)
theory Fuse_V1
  imports Format_V1
begin

text \<open>
  The FUSE callbacks of format V1: \<^verbatim>\<open>src/src/fuse/formats/fuse_format_v1.rs\<close> and the conversions of
  \<^verbatim>\<open>src/src/fuse/fuse_utils.rs\<close>. A callback answers through a reply object of the \<open>fuser\<close> crate; here
  it returns the call it makes on that object. The constants of \<open>libc\<close> and \<open>fuser\<close> that the callbacks
  compare with, and whether the kernel's directory buffer takes another entry, are fields of
  \<open>fuse_env\<close>. A \<open>SystemTime\<close> is a number of nanoseconds since the epoch. Arguments that a callback
  does not use are left out; \<open>println!\<close> is left out.
\<close>

datatype fuse_file_type = FT_RegularFile | FT_Directory | FT_Symlink | FT_Other nat

fun my_to_fuse_file_type :: "file_type \<Rightarrow> fuse_file_type" where
  "my_to_fuse_file_type File = FT_RegularFile"
| "my_to_fuse_file_type Directory = FT_Directory"
| "my_to_fuse_file_type Symlink = FT_Symlink"
| "my_to_fuse_file_type _ = FT_RegularFile"

fun fuse_to_my_file_type :: "fuse_file_type \<Rightarrow> file_type" where
  "fuse_to_my_file_type FT_RegularFile = File"
| "fuse_to_my_file_type FT_Directory = Directory"
| "fuse_to_my_file_type FT_Symlink = Symlink"
| "fuse_to_my_file_type _ = Unknown"

type_synonym system_time = int

record file_attr =
  fa_ino :: u64
  fa_size :: u64
  fa_blocks :: u64
  fa_atime :: system_time
  fa_mtime :: system_time
  fa_ctime :: system_time
  fa_crtime :: system_time
  fa_kind :: fuse_file_type
  fa_perm :: u16
  fa_nlink :: u32
  fa_uid :: u32
  fa_gid :: u32
  fa_rdev :: u32
  fa_blksize :: u32
  fa_flags :: u32

datatype errno = ENOENT | ENOTDIR | EIO | ENOSYS | EPERM | EINVAL

record fuse_dirent =
  fd_ino :: u64
  fd_offset :: u64
  fd_kind :: fuse_file_type
  fd_name :: bytes

text \<open>The call on the reply object; a \<open>Generation\<close> is always 0 and open flags are always empty.\<close>

datatype fuse_reply =
    R_error errno
  | R_ok
  | R_attr file_attr
  | R_entry file_attr
  | R_opened u64
  | R_created file_attr u64
  | R_data bytes
  | R_written u32
  | R_directory "fuse_dirent list"
  | R_none

text \<open>
  \<open>fe_dir_full added e\<close>: \<open>ReplyDirectory::add\<close> returns true for \<open>e\<close>, after the entries \<open>added\<close>; the
  entry is then not part of the reply.
\<close>

record fuse_env =
  fe_S_IFMT :: u32
  fe_S_IFREG :: u32
  fe_RENAME_EXCHANGE :: u32
  fe_RENAME_NOREPLACE :: u32
  fe_dir_full :: "fuse_dirent list \<Rightarrow> fuse_dirent \<Rightarrow> bool"

datatype time_or_now = TN_Now | TN_SpecificTime system_time

abbreviation nanos :: int where "nanos \<equiv> 1000000000"

text \<open>\<open>UNIX_EPOCH + Duration::from_secs(s)\<close>: seconds are an \<open>i64\<close> on Unix, and the addition panics beyond.\<close>

definition epoch_plus :: "u64 \<Rightarrow> system_time res" where
  "epoch_plus s = (if unat s < 2 ^ 63 then Ok (int (unat s) * nanos) else Panic)"

text \<open>\<open>t.duration_since(UNIX_EPOCH).unwrap().as_secs()\<close>\<close>

definition secs_since_epoch :: "system_time \<Rightarrow> u64 res" where
  "secs_since_epoch t = (if 0 \<le> t then Ok (word_of_int (t div nanos)) else Panic)"

definition to_v1_inode_number :: "u64 \<Rightarrow> u32 res" where
  "to_v1_inode_number ino = bindR (subW ino 1) (\<lambda>n. Ok (ucast n))"

definition from_v1_inode_number :: "u32 \<Rightarrow> u64 res" where
  "from_v1_inode_number inode = bindR (addW inode 1) (\<lambda>n. Ok (ucast n))"

definition file_attr_from_inode :: "inode \<Rightarrow> u64 \<Rightarrow> file_attr res" where
  "file_attr_from_inode inode ino =
     bindR (epoch_plus (in_modified inode)) (\<lambda>modified.
     bindR (epoch_plus (in_created inode)) (\<lambda>created.
     Ok \<lparr>fa_ino = ino, fa_size = in_size inode, fa_blocks = in_size inode div 512,
         fa_atime = modified, fa_mtime = modified, fa_ctime = created, fa_crtime = created,
         fa_kind = my_to_fuse_file_type (in_file_type inode), fa_perm = 0x1ED,
         fa_nlink = ucast (in_links inode), fa_uid = 1, fa_gid = 2, fa_rdev = 0,
         fa_blksize = of_nat BLOCK_SIZE, fa_flags = 0\<rparr>))"

text \<open>
  \<open>let r = m; if r.is_err() { reply.error(e); return; } let v = r.unwrap();\<close> followed by the rest of
  the callback.
\<close>

definition or_reply :: "('s, 'a) io \<Rightarrow> errno \<Rightarrow> ('a \<Rightarrow> ('s, fuse_reply) io) \<Rightarrow> ('s, fuse_reply) io" where
  "or_reply m e k s =
     (case m s of
        (Ok v, s') \<Rightarrow> k v s'
      | (Err _, s') \<Rightarrow> (Ok (R_error e), s')
      | (Panic, s') \<Rightarrow> (Panic, s')
      | (Diverge, s') \<Rightarrow> (Diverge, s'))"

abbreviation reply :: "fuse_reply \<Rightarrow> ('s, fuse_reply) io" where "reply r \<equiv> returnM r"

text \<open>\<open>name.to_str()\<close>, answering \<open>EIO\<close> when the name is not UTF-8.\<close>

definition with_name :: "bytes \<Rightarrow> (bytes \<Rightarrow> ('s, fuse_reply) io) \<Rightarrow> ('s, fuse_reply) io" where
  "with_name name k = (case from_utf8 name of None \<Rightarrow> reply (R_error EIO) | Some n \<Rightarrow> k n)"

text \<open>The tail of \<open>mkdir\<close>, \<open>mknod\<close>, \<open>symlink\<close>: the attributes of the new inode.\<close>

definition reply_entry :: "inode \<Rightarrow> u32 \<Rightarrow> ('s, fuse_reply) io" where
  "reply_entry inode entry_inode_number =
     bindM (liftM (from_v1_inode_number entry_inode_number)) (\<lambda>entry_ino.
     bindM (liftM (file_attr_from_inode inode entry_ino)) (\<lambda>attr.
     reply (R_entry attr)))"


section \<open>Attributes\<close>

definition fuse_getattr :: "'d block_ops \<Rightarrow> u64 \<Rightarrow> ('d, fuse_reply) fs" where
  "fuse_getattr ops ino =
     bindM (liftM (to_v1_inode_number ino)) (\<lambda>inode_ind.
     or_reply (get_inode ops inode_ind) ENOENT (\<lambda>inode.
     bindM (liftM (file_attr_from_inode inode ino)) (\<lambda>attr.
     reply (R_attr attr))))"

text \<open>The updates of \<open>setattr\<close> to the inode; \<open>None\<close> when the size of something else than a file is set.\<close>

definition set_size :: "u64 option \<Rightarrow> inode \<Rightarrow> inode option" where
  "set_size sz inode =
     (case sz of
        None \<Rightarrow> Some inode
      | Some s \<Rightarrow> if in_file_type inode \<noteq> File then None else Some (inode\<lparr>in_size := s\<rparr>))"

definition set_times :: "system_time \<Rightarrow> time_or_now option \<Rightarrow> system_time option \<Rightarrow> inode \<Rightarrow> inode res" where
  "set_times now mtime ctime inode =
     bindR (case mtime of
              None \<Rightarrow> Ok inode
            | Some t \<Rightarrow> bindR (secs_since_epoch (case t of TN_Now \<Rightarrow> now | TN_SpecificTime time \<Rightarrow> time))
                          (\<lambda>s. Ok (inode\<lparr>in_modified := s\<rparr>))) (\<lambda>inode.
     case ctime of
       None \<Rightarrow> Ok inode
     | Some t \<Rightarrow> bindR (secs_since_epoch t) (\<lambda>s. Ok (inode\<lparr>in_created := s\<rparr>)))"

definition fuse_setattr ::
  "'d block_ops \<Rightarrow> system_time \<Rightarrow> u64 \<Rightarrow> u32 option \<Rightarrow> u64 option \<Rightarrow> time_or_now option \<Rightarrow> system_time option \<Rightarrow>
   ('d, fuse_reply) fs" where
  "fuse_setattr ops now ino mode sz mtime ctime =
     bindM (liftM (to_v1_inode_number ino)) (\<lambda>inode_ind.
     or_reply (get_inode ops inode_ind) ENOENT (\<lambda>inode.
     let inode = (case mode of None \<Rightarrow> inode | Some m \<Rightarrow> inode\<lparr>in_permissions := ucast (m AND 0xFFFF)\<rparr>) in
     case set_size sz inode of
       None \<Rightarrow> reply (R_error ENOENT)
     | Some inode \<Rightarrow>
         bindM (liftM (set_times now mtime ctime inode)) (\<lambda>inode.
         or_reply (fs_write_inode ops inode_ind inode) ENOENT (\<lambda>_.
         bindM (liftM (file_attr_from_inode inode ino)) (\<lambda>attr.
         reply (R_attr attr))))))"


section \<open>Directories\<close>

definition fuse_opendir :: "'d block_ops \<Rightarrow> u64 \<Rightarrow> ('d, fuse_reply) fs" where
  "fuse_opendir ops ino =
     bindM (liftM (to_v1_inode_number ino)) (\<lambda>inode_ind.
     or_reply (get_inode ops inode_ind) ENOENT (\<lambda>inode.
     if in_file_type inode \<noteq> Directory then reply (R_error ENOTDIR)
     else reply (R_opened (ucast inode_ind))))"

text \<open>The loop of \<open>readdir\<close>; the name of an entry is the whole 64-byte field.\<close>

fun readdir_loop ::
  "fuse_env \<Rightarrow> u64 \<Rightarrow> dir_entry list \<Rightarrow> fuse_dirent list \<Rightarrow> fuse_dirent list res" where
  "readdir_loop env i [] added = Ok added"
| "readdir_loop env i (entry # rest) added =
     bindR (from_v1_inode_number (de_inode entry)) (\<lambda>ino.
     bindR (addW i 1) (\<lambda>next_offset.
     let e = \<lparr>fd_ino = ino, fd_offset = next_offset, fd_kind = my_to_fuse_file_type (de_file_type entry),
              fd_name = de_name entry\<rparr> in
     if fe_dir_full env added e then Ok added
     else readdir_loop env next_offset rest (added @ [e])))"

definition fuse_readdir :: "fuse_env \<Rightarrow> 'd block_ops \<Rightarrow> u64 \<Rightarrow> u64 \<Rightarrow> ('d, fuse_reply) fs" where
  "fuse_readdir env ops ino offset =
     bindM (liftM (to_v1_inode_number ino)) (\<lambda>inode_ind.
     or_reply (get_inode ops inode_ind) ENOENT (\<lambda>inode.
     if in_file_type inode \<noteq> Directory then reply (R_error ENOTDIR)
     else
       or_reply (get_directory_from_inode ops inode inode_ind) ENOENT (\<lambda>dir.
       bindM (liftM (readdir_loop env offset (drop (unat offset) (dy_entries dir)) [])) (\<lambda>added.
       reply (R_directory added)))))"

definition fuse_mkdir :: "'d block_ops \<Rightarrow> u64 \<Rightarrow> u64 \<Rightarrow> bytes \<Rightarrow> ('d, fuse_reply) fs" where
  "fuse_mkdir ops now parent name =
     bindM (liftM (to_v1_inode_number parent)) (\<lambda>parent_inode_ind.
     with_name name (\<lambda>name_str.
     or_reply (create_child ops now Directory name_str parent_inode_ind) EIO (\<lambda>(inode, entry_inode_number).
     reply_entry inode entry_inode_number)))"

definition fuse_lookup :: "'d block_ops \<Rightarrow> u64 \<Rightarrow> bytes \<Rightarrow> ('d, fuse_reply) fs" where
  "fuse_lookup ops parent name =
     bindM (liftM (to_v1_inode_number parent)) (\<lambda>parent_inode_ind.
     or_reply (get_dir_entry_inode ops parent_inode_ind name) ENOENT (\<lambda>entry.
     case entry of
       None \<Rightarrow> reply (R_error ENOENT)
     | Some entry_inode_ind \<Rightarrow>
         or_reply (get_inode ops entry_inode_ind) ENOENT (\<lambda>inode.
         reply_entry inode entry_inode_ind)))"

definition fuse_rmdir :: "'d block_ops \<Rightarrow> u64 \<Rightarrow> u64 \<Rightarrow> bytes \<Rightarrow> ('d, fuse_reply) fs" where
  "fuse_rmdir ops now parent name =
     bindM (liftM (to_v1_inode_number parent)) (\<lambda>parent_inode_ind.
     with_name name (\<lambda>name_str.
     or_reply (delete_child ops now name_str parent_inode_ind (Some Directory)) EIO (\<lambda>_. reply R_ok)))"

definition fuse_fsyncdir :: "'d block_ops \<Rightarrow> ('d, fuse_reply) fs" where
  "fuse_fsyncdir ops = or_reply (fs_flush ops) EIO (\<lambda>_. reply R_ok)"

definition fuse_releasedir :: "('d, fuse_reply) fs" where "fuse_releasedir = reply R_ok"


section \<open>Links\<close>

definition fuse_readlink :: "'d block_ops \<Rightarrow> u64 \<Rightarrow> ('d, fuse_reply) fs" where
  "fuse_readlink ops ino =
     bindM (liftM (to_v1_inode_number ino)) (\<lambda>inode_ind.
     or_reply (read_symlink ops inode_ind (replicate BLOCK_SIZE 0)) ENOENT (\<lambda>(read, buf).
     bindM (liftM (sliceR buf 0 read)) (\<lambda>data.
     reply (R_data data))))"

definition fuse_symlink :: "'d block_ops \<Rightarrow> u64 \<Rightarrow> u64 \<Rightarrow> u64 \<Rightarrow> bytes \<Rightarrow> bytes \<Rightarrow> ('d, fuse_reply) fs" where
  "fuse_symlink ops now now' parent link_name target =
     bindM (liftM (to_v1_inode_number parent)) (\<lambda>parent_inode_ind.
     with_name link_name (\<lambda>name_str.
     or_reply (create_child ops now Symlink name_str parent_inode_ind) EIO (\<lambda>(inode, entry_inode_number).
     bindM (liftM (from_v1_inode_number entry_inode_number)) (\<lambda>entry_ino.
     bindM (liftM (unwrap (from_utf8 target))) (\<lambda>tgt.
     or_reply (write_symlink ops now' inode entry_inode_number tgt) EIO (\<lambda>inode.
     bindM (liftM (file_attr_from_inode inode entry_ino)) (\<lambda>attr.
     reply (R_entry attr))))))))"

definition fuse_access :: "('d, fuse_reply) fs" where "fuse_access = reply R_ok"


section \<open>Files\<close>

definition fuse_mknod :: "fuse_env \<Rightarrow> 'd block_ops \<Rightarrow> u64 \<Rightarrow> u64 \<Rightarrow> bytes \<Rightarrow> u32 \<Rightarrow> ('d, fuse_reply) fs" where
  "fuse_mknod env ops now parent name mode =
     bindM (liftM (to_v1_inode_number parent)) (\<lambda>parent_inode_ind.
     with_name name (\<lambda>name_str.
     if mode AND fe_S_IFMT env \<noteq> fe_S_IFREG env then reply (R_error ENOSYS)
     else
       or_reply (create_child ops now File name_str parent_inode_ind) EIO (\<lambda>(inode, entry_inode_number).
       reply_entry inode entry_inode_number)))"

definition fuse_unlink :: "'d block_ops \<Rightarrow> u64 \<Rightarrow> u64 \<Rightarrow> bytes \<Rightarrow> ('d, fuse_reply) fs" where
  "fuse_unlink ops now parent name =
     bindM (liftM (to_v1_inode_number parent)) (\<lambda>parent_inode_ind.
     with_name name (\<lambda>name_str.
     or_reply (delete_child ops now name_str parent_inode_ind (Some File)) EIO (\<lambda>_. reply R_ok)))"

definition fuse_link :: "'d block_ops \<Rightarrow> u64 \<Rightarrow> u64 \<Rightarrow> u64 \<Rightarrow> bytes \<Rightarrow> ('d, fuse_reply) fs" where
  "fuse_link ops now ino newparent newname =
     bindM (liftM (to_v1_inode_number newparent)) (\<lambda>dst_parent_inode_ind.
     bindM (liftM (to_v1_inode_number ino)) (\<lambda>tgt_inode_ind.
     or_reply (get_inode ops tgt_inode_ind) ENOENT (\<lambda>tgt_inode.
     if in_file_type tgt_inode = Directory then reply (R_error EPERM)
     else
       or_reply (get_inode ops dst_parent_inode_ind) ENOENT (\<lambda>dst_parent_inode.
       if in_file_type dst_parent_inode \<noteq> Directory then reply (R_error ENOTDIR)
       else
         bindM (liftM (unwrap (from_utf8 newname))) (\<lambda>name.
         or_reply (create_child_hardlink ops now tgt_inode tgt_inode_ind name dst_parent_inode dst_parent_inode_ind)
           EIO (\<lambda>(tgt_inode, _).
         bindM (liftM (file_attr_from_inode tgt_inode ino)) (\<lambda>attr.
         reply (R_entry attr))))))))"

definition fuse_rename ::
  "fuse_env \<Rightarrow> 'd block_ops \<Rightarrow> u64 \<Rightarrow> u64 \<Rightarrow> u64 \<Rightarrow> bytes \<Rightarrow> u64 \<Rightarrow> bytes \<Rightarrow> u32 \<Rightarrow> ('d, fuse_reply) fs" where
  "fuse_rename env ops now now' parent name newparent newname flags =
     (if flags = fe_RENAME_EXCHANGE env then reply (R_error EINVAL)
      else if flags \<noteq> fe_RENAME_NOREPLACE env then reply (R_error EINVAL)
      else
        bindM (liftM (to_v1_inode_number parent)) (\<lambda>src_parent_inode_ind.
        bindM (liftM (to_v1_inode_number newparent)) (\<lambda>dst_parent_inode_ind.
        or_reply (get_dir_entry_inode ops src_parent_inode_ind name) ENOENT (\<lambda>entry.
        case entry of
          None \<Rightarrow> reply (R_error ENOENT)
        | Some src_inode_ind \<Rightarrow>
            or_reply (get_inode ops src_inode_ind) ENOENT (\<lambda>src_inode.
            or_reply (get_inode ops dst_parent_inode_ind) ENOENT (\<lambda>dst_parent_inode.
            if in_file_type dst_parent_inode \<noteq> Directory then reply (R_error ENOTDIR)
            else
              bindM (liftM (unwrap (from_utf8 newname))) (\<lambda>new_name.
              or_reply (create_child_hardlink ops now src_inode src_inode_ind new_name dst_parent_inode
                          dst_parent_inode_ind) EIO (\<lambda>_.
              with_name name (\<lambda>name_str.
              or_reply (delete_child ops now' name_str src_parent_inode_ind None) EIO (\<lambda>_.
              reply R_ok))))))))))"

definition fuse_create :: "fuse_env \<Rightarrow> 'd block_ops \<Rightarrow> u64 \<Rightarrow> u64 \<Rightarrow> bytes \<Rightarrow> u32 \<Rightarrow> ('d, fuse_reply) fs" where
  "fuse_create env ops now parent name mode =
     bindM (liftM (to_v1_inode_number parent)) (\<lambda>parent_inode_ind.
     with_name name (\<lambda>name_str.
     if mode AND fe_S_IFMT env \<noteq> fe_S_IFREG env then reply (R_error ENOSYS)
     else
       or_reply (create_child ops now File name_str parent_inode_ind) EIO (\<lambda>(inode, inode_ind).
       bindM (liftM (from_v1_inode_number inode_ind)) (\<lambda>entry_ino.
       bindM (liftM (file_attr_from_inode inode entry_ino)) (\<lambda>attr.
       or_reply (open_file_from_inode ops inode_ind) ENOENT (\<lambda>opened.
       reply (R_created attr (ucast (fh_id opened)))))))))"


section \<open>Input and output\<close>

definition fuse_open :: "'d block_ops \<Rightarrow> u64 \<Rightarrow> ('d, fuse_reply) fs" where
  "fuse_open ops ino =
     bindM (liftM (to_v1_inode_number ino)) (\<lambda>inode_ind.
     or_reply (open_file_from_inode ops inode_ind) ENOENT (\<lambda>opened.
     reply (R_opened (ucast (fh_id opened)))))"

definition fuse_read :: "'d block_ops \<Rightarrow> u64 \<Rightarrow> u64 \<Rightarrow> u32 \<Rightarrow> ('d, fuse_reply) fs" where
  "fuse_read ops fh offset sz =
     (let buf = replicate (unat sz) 0; file = \<lparr>fh_id = ucast fh\<rparr> in
      or_reply (seek ops file (SeekStart offset)) ENOENT (\<lambda>_.
      or_reply (fs_read ops file buf) ENOENT (\<lambda>(read, buf).
      bindM (liftM (sliceR buf 0 read)) (\<lambda>data.
      reply (R_data data)))))"

definition fuse_write :: "'d block_ops \<Rightarrow> u64 \<Rightarrow> u64 \<Rightarrow> u64 \<Rightarrow> bytes \<Rightarrow> ('d, fuse_reply) fs" where
  "fuse_write ops now fh offset data =
     (let file = \<lparr>fh_id = ucast fh\<rparr> in
      or_reply (seek ops file (SeekStart offset)) ENOENT (\<lambda>_.
      or_reply (fs_write ops now file data) ENOENT (\<lambda>wrote.
      reply (R_written (of_nat wrote)))))"

definition fuse_flush :: "('d, fuse_reply) fs" where "fuse_flush = reply R_ok"

definition fuse_release :: "u64 \<Rightarrow> ('d, fuse_reply) fs" where
  "fuse_release fh = or_reply (close_file \<lparr>fh_id = ucast fh\<rparr>) EIO (\<lambda>_. reply R_ok)"

definition fuse_fsync :: "'d block_ops \<Rightarrow> ('d, fuse_reply) fs" where
  "fuse_fsync ops = or_reply (fs_flush ops) EIO (\<lambda>_. reply R_ok)"

end
