(* ===== verification/Ffs.thy ===== *)
theory Ffs
  imports Integrity Cached_Device
begin

text \<open>
  The front end \<open>FFS\<close> of \<^verbatim>\<open>src/src/ffs.rs\<close>. The trait object \<open>Box<dyn FsFormat<D>>\<close> of
  \<^verbatim>\<open>src/src/formats/format.rs\<close> is a table of the methods of the trait, over the format's state and the
  device; \<open>format_v1_methods\<close> is the implementation for \<open>FormatV1\<close>. Every call of \<open>SystemTime::now\<close>
  inside a method is an argument of the table.
\<close>

record ('f, 'd) fs_format =
  ff_create_file :: "bytes \<Rightarrow> ('f \<times> 'd, unit) io"
  ff_create_directory :: "bytes \<Rightarrow> ('f \<times> 'd, unit) io"
  ff_create_symlink :: "bytes \<Rightarrow> bytes \<Rightarrow> ('f \<times> 'd, unit) io"
  ff_create_hardlink :: "bytes \<Rightarrow> bytes \<Rightarrow> ('f \<times> 'd, unit) io"
  ff_delete :: "bytes \<Rightarrow> ('f \<times> 'd, unit) io"
  ff_file_exists :: "bytes \<Rightarrow> ('f \<times> 'd, bool \<times> file_type option) io"
  ff_open_file :: "bytes \<Rightarrow> ('f \<times> 'd, file_handle) io"
  ff_close_file :: "file_handle \<Rightarrow> ('f \<times> 'd, unit) io"
  ff_read :: "file_handle \<Rightarrow> bytes \<Rightarrow> ('f \<times> 'd, nat \<times> bytes) io"
  ff_write :: "file_handle \<Rightarrow> bytes \<Rightarrow> ('f \<times> 'd, nat) io"
  ff_seek :: "file_handle \<Rightarrow> seek_from \<Rightarrow> ('f \<times> 'd, u64) io"
  ff_truncate :: "file_handle \<Rightarrow> u64 \<Rightarrow> ('f \<times> 'd, unit) io"
  ff_edit_symlink :: "bytes \<Rightarrow> bytes \<Rightarrow> ('f \<times> 'd, unit) io"
  ff_get_directory_content :: "bytes \<Rightarrow> ('f \<times> 'd, directory_content_entry list) io"
  ff_free_space :: "('f \<times> 'd, nat) io"
  ff_flush :: "('f \<times> 'd, unit) io"
  ff_check_integrity :: "('f \<times> 'd, integrity_result) io"

definition format_v1_methods :: "'d block_ops \<Rightarrow> u64 \<Rightarrow> u64 \<Rightarrow> (format_v1, 'd) fs_format" where
  "format_v1_methods ops now now' =
     \<lparr>ff_create_file = create_file ops now,
      ff_create_directory = create_directory ops now,
      ff_create_symlink = create_symlink ops now now',
      ff_create_hardlink = create_hardlink ops now,
      ff_delete = delete ops now,
      ff_file_exists = file_exists ops,
      ff_open_file = open_file ops,
      ff_close_file = close_file,
      ff_read = fs_read ops,
      ff_write = fs_write ops now,
      ff_seek = seek ops,
      ff_truncate = Format_V1.truncate ops now,
      ff_edit_symlink = edit_symlink ops now,
      ff_get_directory_content = get_directory_content ops,
      ff_free_space = free_space,
      ff_flush = fs_flush ops,
      ff_check_integrity = bindM self (\<lambda>f. dev (check_integrity ops f))\<rparr>"

text \<open>\<open>FFS::format\<close>, \<open>FFS::mount\<close>: the version in the superblock chooses the format.\<close>

definition ffs_format :: "'d block_ops \<Rightarrow> u64 \<Rightarrow> version \<Rightarrow> ('d, unit) io" where
  "ffs_format ops now v = (case v of V1 \<Rightarrow> format ops now)"

definition ffs_mount :: "'d block_ops \<Rightarrow> ('d, format_v1) io" where
  "ffs_mount ops =
     bindM (read_block ops 0) (\<lambda>buf.
     bindM (liftM (read_version buf)) (\<lambda>v.
     case v of V1 \<Rightarrow> mount ops))"

text \<open>The public methods, as calls through the table.\<close>

datatype ffs_call =
    C_create_file bytes
  | C_create_directory bytes
  | C_create_symlink bytes bytes
  | C_create_hardlink bytes bytes
  | C_delete bytes
  | C_file_exists bytes
  | C_open_file bytes
  | C_close_file file_handle
  | C_read file_handle bytes
  | C_write file_handle bytes
  | C_seek file_handle seek_from
  | C_get_directory_content bytes
  | C_free_space
  | C_flush
  | C_check_integrity

datatype ffs_value =
    V_unit
  | V_exists bool "file_type option"
  | V_file file_handle
  | V_read nat bytes
  | V_wrote nat
  | V_position u64
  | V_content "directory_content_entry list"
  | V_space nat
  | V_integrity integrity_result

definition mapM :: "('a \<Rightarrow> 'b) \<Rightarrow> ('s, 'a) io \<Rightarrow> ('s, 'b) io" where
  "mapM g m = bindM m (\<lambda>v. returnM (g v))"

fun ffs_call_method :: "('f, 'd) fs_format \<Rightarrow> ffs_call \<Rightarrow> ('f \<times> 'd, ffs_value) io" where
  "ffs_call_method fmt (C_create_file path) = mapM (\<lambda>_. V_unit) (ff_create_file fmt path)"
| "ffs_call_method fmt (C_create_directory path) = mapM (\<lambda>_. V_unit) (ff_create_directory fmt path)"
| "ffs_call_method fmt (C_create_symlink path tgt) = mapM (\<lambda>_. V_unit) (ff_create_symlink fmt path tgt)"
| "ffs_call_method fmt (C_create_hardlink src dst) = mapM (\<lambda>_. V_unit) (ff_create_hardlink fmt src dst)"
| "ffs_call_method fmt (C_delete path) = mapM (\<lambda>_. V_unit) (ff_delete fmt path)"
| "ffs_call_method fmt (C_file_exists path) = mapM (\<lambda>(e, t). V_exists e t) (ff_file_exists fmt path)"
| "ffs_call_method fmt (C_open_file path) = mapM V_file (ff_open_file fmt path)"
| "ffs_call_method fmt (C_close_file h) = mapM (\<lambda>_. V_unit) (ff_close_file fmt h)"
| "ffs_call_method fmt (C_read h buf) = mapM (\<lambda>(n, buf). V_read n buf) (ff_read fmt h buf)"
| "ffs_call_method fmt (C_write h buf) = mapM V_wrote (ff_write fmt h buf)"
| "ffs_call_method fmt (C_seek h pos) = mapM V_position (ff_seek fmt h pos)"
| "ffs_call_method fmt (C_get_directory_content path) = mapM V_content (ff_get_directory_content fmt path)"
| "ffs_call_method fmt C_free_space = mapM V_space (ff_free_space fmt)"
| "ffs_call_method fmt C_flush = mapM (\<lambda>_. V_unit) (ff_flush fmt)"
| "ffs_call_method fmt C_check_integrity = mapM V_integrity (ff_check_integrity fmt)"

text \<open>\<open>Drop\<close>: a flush whose error is ignored.\<close>

definition ffs_drop :: "('f, 'd) fs_format \<Rightarrow> ('f \<times> 'd, unit) io" where
  "ffs_drop fmt = catchM (ff_flush fmt) (\<lambda>_. returnM ())"

text \<open>\<open>save\<close>, on a memory device and on a cached one: the file \<open>old\<close> after the call.\<close>

definition ffs_save :: "'f \<times> memory_device \<Rightarrow> bytes \<Rightarrow> bytes" where
  "ffs_save s old = mem_save (snd s) old"

definition ffs_save_cached :: "'f \<times> memory_device cached_device \<Rightarrow> bytes \<Rightarrow> bytes" where
  "ffs_save_cached s old = cached_save (snd s) old"

end
