(* ===== verification/Fuse_FFS.thy ===== *)
theory Fuse_FFS
  imports Fuse_V1 Ffs
begin

text \<open>
  \<open>FuseFFS\<close> of \<^verbatim>\<open>src/src/fuse/fuse_ffs.rs\<close> and its \<open>Filesystem\<close> implementation of
  \<^verbatim>\<open>src/src/fuse/fuse_impl.rs\<close>. The format and the device sit behind a \<open>Mutex\<close>: a callback that panics
  leaves the mutex poisoned, and \<open>lock().unwrap()\<close> then panics in every later callback. Callbacks run
  one after the other, as the mutex makes them.
\<close>

record 'd fuse_ffs =
  ff_format :: format_v1
  ff_device :: 'd
  ff_poisoned :: bool

definition fuse_ffs_mount :: "'d block_ops \<Rightarrow> ('d, 'd fuse_ffs) io" where
  "fuse_ffs_mount ops =
     bindM (read_block ops 0) (\<lambda>buf.
     bindM (liftM (read_version buf)) (\<lambda>v.
     if \<not> version_supports_fuse v then panicM
     else
       bindM (case v of V1 \<Rightarrow> mount ops) (\<lambda>f.
       bindM (getM id) (\<lambda>d.
       returnM \<lparr>ff_format = f, ff_device = d, ff_poisoned = False\<rparr>))))"

text \<open>\<open>let mut inner = self.inner.lock().unwrap();\<close> and the callback on what it guards.\<close>

definition with_lock :: "('d, fuse_reply) fs \<Rightarrow> ('d fuse_ffs, fuse_reply) io" where
  "with_lock m s =
     (if ff_poisoned s then (Panic, s)
      else
        case m (ff_format s, ff_device s) of
          (r, f, d) \<Rightarrow> (r, s\<lparr>ff_format := f, ff_device := d, ff_poisoned := (r = Panic)\<rparr>))"

text \<open>
  The callbacks the kernel makes, with the arguments that are used; the time arguments are the values
  \<open>SystemTime::now\<close> returns during the callback.
\<close>

datatype fuse_request =
    Q_init
  | Q_destroy
  | Q_statfs
  | Q_getattr u64
  | Q_setattr system_time u64 "u32 option" "u64 option" "time_or_now option" "system_time option"
  | Q_opendir u64
  | Q_readdir u64 u64
  | Q_mkdir u64 u64 bytes
  | Q_lookup u64 bytes
  | Q_rmdir u64 u64 bytes
  | Q_fsyncdir
  | Q_releasedir
  | Q_readlink u64
  | Q_symlink u64 u64 u64 bytes bytes
  | Q_access
  | Q_mknod u64 u64 bytes u32
  | Q_unlink u64 u64 bytes
  | Q_link u64 u64 u64 bytes
  | Q_rename u64 u64 u64 bytes u64 bytes u32
  | Q_create u64 u64 bytes u32
  | Q_open u64
  | Q_read u64 u64 u32
  | Q_write u64 u64 u64 bytes
  | Q_flush
  | Q_release u64
  | Q_fsync

text \<open>The methods of \<open>FuseFFSInner\<close>'s format, as \<open>FuseFFS\<close> calls them.\<close>

fun fuse_inner :: "fuse_env \<Rightarrow> 'd block_ops \<Rightarrow> fuse_request \<Rightarrow> ('d, fuse_reply) fs" where
  "fuse_inner env ops (Q_getattr ino) = fuse_getattr ops ino"
| "fuse_inner env ops (Q_setattr now ino mode sz mtime ctime) = fuse_setattr ops now ino mode sz mtime ctime"
| "fuse_inner env ops (Q_opendir ino) = fuse_opendir ops ino"
| "fuse_inner env ops (Q_readdir ino offset) = fuse_readdir env ops ino offset"
| "fuse_inner env ops (Q_mkdir now parent name) = fuse_mkdir ops now parent name"
| "fuse_inner env ops (Q_lookup parent name) = fuse_lookup ops parent name"
| "fuse_inner env ops (Q_rmdir now parent name) = fuse_rmdir ops now parent name"
| "fuse_inner env ops Q_fsyncdir = fuse_fsyncdir ops"
| "fuse_inner env ops Q_releasedir = fuse_releasedir"
| "fuse_inner env ops (Q_readlink ino) = fuse_readlink ops ino"
| "fuse_inner env ops (Q_symlink now now' parent link_name target) = fuse_symlink ops now now' parent link_name target"
| "fuse_inner env ops Q_access = fuse_access"
| "fuse_inner env ops (Q_mknod now parent name mode) = fuse_mknod env ops now parent name mode"
| "fuse_inner env ops (Q_unlink now parent name) = fuse_unlink ops now parent name"
| "fuse_inner env ops (Q_link now ino newparent newname) = fuse_link ops now ino newparent newname"
| "fuse_inner env ops (Q_rename now now' parent name newparent newname flags) =
     fuse_rename env ops now now' parent name newparent newname flags"
| "fuse_inner env ops (Q_create now parent name mode) = fuse_create env ops now parent name mode"
| "fuse_inner env ops (Q_open ino) = fuse_open ops ino"
| "fuse_inner env ops (Q_read fh offset sz) = fuse_read ops fh offset sz"
| "fuse_inner env ops (Q_write now fh offset data) = fuse_write ops now fh offset data"
| "fuse_inner env ops Q_flush = fuse_flush"
| "fuse_inner env ops (Q_release fh) = fuse_release fh"
| "fuse_inner env ops Q_fsync = fuse_fsync ops"
| "fuse_inner env ops _ = returnM R_none"

text \<open>
  \<open>init\<close>, \<open>destroy\<close> and \<open>statfs\<close> take no lock; the reply object of \<open>statfs\<close> is dropped without a call.
\<close>

definition takes_lock :: "fuse_request \<Rightarrow> bool" where
  "takes_lock q \<longleftrightarrow> (case q of Q_init \<Rightarrow> False | Q_destroy \<Rightarrow> False | Q_statfs \<Rightarrow> False | _ \<Rightarrow> True)"

definition fuse_serve :: "fuse_env \<Rightarrow> 'd block_ops \<Rightarrow> fuse_request \<Rightarrow> ('d fuse_ffs, fuse_reply) io" where
  "fuse_serve env ops q =
     (if takes_lock q then with_lock (fuse_inner env ops q)
      else case q of Q_init \<Rightarrow> returnM R_ok | _ \<Rightarrow> returnM R_none)"

text \<open>A sequence of requests, served one after the other.\<close>

fun fuse_session ::
  "fuse_env \<Rightarrow> 'd block_ops \<Rightarrow> fuse_request list \<Rightarrow> 'd fuse_ffs \<Rightarrow> fuse_reply res list \<times> 'd fuse_ffs" where
  "fuse_session env ops [] s = ([], s)"
| "fuse_session env ops (q # qs) s =
     (let (r, s1) = fuse_serve env ops q s; (rs, s2) = fuse_session env ops qs s1 in (r # rs, s2))"

end
