(* ===== verification/Fuse_Operations.thy ===== *)
theory Fuse_Operations
  imports Fuse_FFS File_Operations Format_Mount
begin

text \<open>
  Properties of the FUSE adapter: inode numbers, reading and writing through a handle, listing a
  directory page by page, and callbacks that do not do what they should: one of them leaves the mutex
  poisoned, after which nothing is served.
\<close>


section \<open>Rules\<close>

lemma or_reply_Ok: "m s = (Ok v, s') \<Longrightarrow> or_reply m e k s = k v s'"
  by (simp add: or_reply_def)

lemma or_reply_execs:
  "execs I A m b (Ok v) b1 \<Longrightarrow> execs I A (k v) b1 r b2 \<Longrightarrow> execs I A (or_reply m e k) b r b2"
  unfolding execs_def by (metis or_reply_Ok)

lemma or_reply_Err:
  "execs I A m b (Err x) b1 \<Longrightarrow> execs I A (or_reply m e k) b (Ok (R_error e)) b1"
  by (fastforce simp: execs_def or_reply_def)

text \<open>The constants of Linux, with a directory buffer of one entry.\<close>

abbreviation linux_env :: fuse_env where
  "linux_env \<equiv> \<lparr>fe_S_IFMT = 0xF000, fe_S_IFREG = 0x8000, fe_RENAME_EXCHANGE = 2, fe_RENAME_NOREPLACE = 1,
     fe_dir_full = (\<lambda>added _. 0 < length added)\<rparr>"

text \<open>An allocated inode and its contents.\<close>

definition live_inode :: "format_v1 \<Rightarrow> bytes list \<Rightarrow> u32 \<Rightarrow> inode \<Rightarrow> bool" where
  "live_inode f bs ino i \<longleftrightarrow>
     unat ino < inode_count (fv_inode_handler f) \<and> bit_at (fv_inode_allocator f) bs (unat ino) \<and>
     inode_at (fv_inode_handler f) bs ino = Ok i"

context block_device
begin

lemma live_allocated_execs:
  assumes mt: "mounted f bs" and live: "live_inode f bs ino i"
  shows "execs inv blks (is_allocated ops (fv_inode_allocator f) ino) bs (Ok True) bs"
    "execs inv blks (read_inode ops (fv_inode_handler f) ino) bs (Ok i) bs"
proof -
  have lt: "unat ino < unat (ba_max_index (fv_inode_allocator f))"
    using live mounted_fields(1,3) [OF mt] by (auto simp: live_inode_def alloc_on_def)
  then have "unat ino < unat (ba_size (fv_inode_allocator f)) * 2048"
    using mounted_ok(1) [OF mt] by (simp add: bitmap_ok_def)
  from is_allocated_execs [OF mounted_ok(1) [OF mt] this] lt live
  show "execs inv blks (is_allocated ops (fv_inode_allocator f) ino) bs (Ok True) bs"
    by (simp add: live_inode_def word_le_nat_alt)
  show "execs inv blks (read_inode ops (fv_inode_handler f) ino) bs (Ok i) bs"
    using read_inode_execs [OF mounted_ok(3) [OF mt], of ino] live by (simp add: live_inode_def)
qed

lemma get_inode_execs:
  assumes mt: "mounted f bs" and live: "live_inode f bs ino i"
  shows "fs_execs inv blks (get_inode ops ino) f bs (Ok i) f bs"
  unfolding get_inode_def
  by (rule fs_bind_self, rule fs_bind_dev [OF live_allocated_execs(1) [OF mt live]])
    (simp add: dev_execs live_allocated_execs(2) [OF mt live])

end


section \<open>Inode numbers\<close>

text \<open>
  Inode numbers: the root inode 0 has the FUSE number 1; every inode number but \<open>INVALID_ADDRESS\<close>,
  for which the conversion panics, gets a FUSE number that converts back to it; the reverse
  conversion panics on 0 only, and it keeps the low 32 bits, so that FUSE numbers that differ by
  \<open>2 ^ 32\<close> name the same inode.
\<close>

lemma inode_number_roundtrip:
  "from_v1_inode_number 0 = Ok 1 \<and>
   (\<forall>n. if n = INVALID_ADDRESS then from_v1_inode_number n = Panic
        else \<exists>ino. from_v1_inode_number n = Ok ino \<and> to_v1_inode_number ino = Ok n) \<and>
   (\<forall>ino. to_v1_inode_number ino = (if ino = 0 then Panic else Ok (of_nat (unat ino - 1))))"
proof -
  have to: "to_v1_inode_number ino = (if ino = 0 then Panic else Ok (of_nat (unat ino - 1)))" for ino
  proof (cases "ino = 0")
    case False
    then have pos: "1 \<le> unat ino" using unat_eq_0 [of ino] by linarith
    then have "unat (ino - 1) = unat ino - 1" using unat_sub_small [of 1 ino] by simp
    then have "(ucast (ino - 1) :: u32) = of_nat (unat ino - 1)" by (metis of_nat_unat)
    with pos False show ?thesis by (simp add: to_v1_inode_number_def subW_def)
  qed (simp add: to_v1_inode_number_def subW_def)
  have "if n = INVALID_ADDRESS then from_v1_inode_number n = Panic
        else \<exists>ino. from_v1_inode_number n = Ok ino \<and> to_v1_inode_number ino = Ok n" for n
  proof (cases "n = INVALID_ADDRESS")
    case False
    have "unat n \<noteq> 4294967295" using False by (auto simp: INVALID_ADDRESS_def word_unat_eq_iff)
    then have lt: "unat n + 1 < 4294967296" using unat_u32_bound [of n] by linarith
    let ?ino = "ucast (n + 1) :: u64"
    have "unat (n + 1) = unat n + 1" using unat_add_small [of n 1] lt by simp
    then have u: "unat ?ino = unat n + 1" using lt by (simp add: unsigned_ucast_eq take_bit_nat_eq_self)
    then have "?ino \<noteq> 0" by (metis add_is_0 one_neq_zero unat_0)
    then have "to_v1_inode_number ?ino = Ok n" using u by (simp add: to)
    with False lt show ?thesis by (simp add: from_v1_inode_number_def addW_def)
  qed (simp add: from_v1_inode_number_def addW_def INVALID_ADDRESS_def)
  moreover have "from_v1_inode_number 0 = Ok 1" by (simp add: from_v1_inode_number_def addW_def)
  ultimately show ?thesis using to by blast
qed


section \<open>Reading and writing\<close>

lemma file_state_at:
  assumes "file_state f bs k m i"
  shows "file_state (with_offset f k m off) bs k (m\<lparr>fm_offset := off\<rparr>) i"
proof -
  let ?f = "with_offset f k m off"
  have "mounted ?f bs" using assms by (simp add: file_state_def mounted_def)
  moreover have "opened ?f bs k (m\<lparr>fm_offset := off\<rparr>) i" using assms by (simp add: file_state_def opened_def file_ok_def)
  moreover have "marked ?f bs a = marked f bs a" for a by (simp add: marked_def)
  ultimately show ?thesis using assms by (simp add: file_state_def)
qed

text \<open>
  C23. A write through FUSE is read back through FUSE: on a mounted volume, for the handle of an open
  file, an offset inside the file or at its end and room for the new blocks, \<open>write\<close> answers with the
  number of bytes, and a \<open>read\<close> of as many bytes from the same offset then answers with the same
  bytes, wherever the handle stood before.
\<close>

theorem fuse_write_read:
  assumes dev: "block_device ops blks dinv" and d: "dinv d" and st: "file_state f (blks d) (ucast fh) m i"
    and data: "data \<noteq> []" "unat off + length data \<le> MAX_SIZE" and off: "off \<le> in_size i"
    and room: "room f (blks d) i ((unat off + length data + 255) div BLOCK_SIZE)"
  shows "\<exists>s1 s2. fuse_write ops now fh off data (f, d) = (Ok (R_written (of_nat (length data))), s1) \<and>
    fuse_read ops fh off (of_nat (length data)) s1 = (Ok (R_data data), s2)"
proof -
  let ?k = "ucast fh :: u32" let ?file = "\<lparr>fh_id = ?k\<rparr>" let ?m = "m\<lparr>fm_offset := off\<rparr>" let ?f = "with_offset f ?k m off"
  have st': "file_state ?f (blks d) (fh_id ?file) ?m i" using file_state_at [OF st] by simp
  have op: "fv_open_files f ?k = Some m" using st by (simp add: file_state_def opened_def)
  have room': "room ?f (blks d) i ((unat (fm_offset ?m) + length data + 255) div BLOCK_SIZE)"
    using room by (simp add: room_def)
  from write_runs [OF dev d st' data(1) _ room', of now] data(2) obtain f' d' i' where
    run: "fs_write ops now ?file data (?f, d) = (Ok (length data), f', d')" "dinv d'"
    and w: "written ?f (blks d) ?m i f' (blks d') i' (fh_id ?file) data" by auto
  have off': "fm_offset ?m \<le> in_size i" using off by simp
  note c = written_content [OF st' block_device.blocks_wf [OF dev d] off' w]
  have wr: "fuse_write ops now fh off data (f, d) = (Ok (R_written (of_nat (length data))), f', d')"
    using seek_start [of f ?file m ops off d] op run(1)
    by (simp add: fuse_write_def Let_def or_reply_Ok returnM_def)
  let ?m' = "?m\<lparr>fm_offset := fm_offset ?m + of_nat (length data)\<rparr>" let ?f' = "with_offset f' ?k ?m' off"
  have st2: "file_state ?f' (blks d') ?k (?m'\<lparr>fm_offset := off\<rparr>) i'" using file_state_at [OF c(2)] by simp
  have op2: "opened ?f' (blks d') (fh_id ?file) (?m'\<lparr>fm_offset := off\<rparr>) i'" using st2 by (simp add: file_state_def)
  have o': "fv_open_files f' ?k = Some ?m'" using c(2) by (simp add: file_state_def opened_def)
  have len: "unat (of_nat (length data) :: u32) = length data"
    using data(2) by (intro unat_u32_of_nat) (simp add: MAX_SIZE_def BLOCK_SIZE_def)
  let ?C = "content (fv_inode_handler f) (blks d) i" let ?C' = "content (fv_inode_handler f') (blks d') i'"
  have lc: "unat off \<le> length ?C"
    using off file_state_small [OF st block_device.blocks_wf [OF dev d]] by (simp add: content_def word_le_nat_alt)
  have C': "?C' = take (unat off) ?C @ data @ drop (unat off + length data) ?C" using c(1,3) by simp
  have ne: "replicate (length data) (0 :: u8) \<noteq> []" using data(1) by simp
  from read_runs [OF dev run(2) op2 ne] obtain d2 n where rd:
    "fs_read ops ?file (replicate (length data) 0) (?f', d') =
      (Ok (n, slice ?C' (unat off) n @ drop n (replicate (length data) 0)), with_offset ?f' ?k (?m'\<lparr>fm_offset := off\<rparr>) (off + of_nat n), d2)"
    "n = min (length data) (length ?C' - unat off)" by auto
  have n: "n = length data" "slice ?C' (unat off) n = data" using rd(2) lc unfolding C' by (simp_all add: slice_def)
  have self: "slice data 0 (length data) = data" by (simp add: slice_def)
  have "fuse_read ops fh off (of_nat (length data)) (f', d') =
      (Ok (R_data data), with_offset ?f' ?k (?m'\<lparr>fm_offset := off\<rparr>) (off + of_nat n), d2)"
    using seek_start [of f' ?file ?m' ops off d'] o' rd(1) n len self
    by (simp add: fuse_read_def Let_def or_reply_Ok returnM_def sliceR_def)
  with wr show ?thesis by blast
qed

theorem fuse_write_read_witness:
  "\<exists>s1 s2. fuse_write mem_ops 5 7 3 (replicate 300 6) (demo_format, demo_device) = (Ok (R_written 300), s1) \<and>
    fuse_read mem_ops 7 3 300 s1 = (Ok (R_data (replicate 300 6)), s2)"
proof -
  note r = demo_room
  have off: "(3 :: u64) \<le> in_size (demo_inode 0 3)" by (simp add: demo_inode_def)
  from fuse_write_read [OF mem.block_device_axioms demo_inv, of demo_format 7
      "\<lparr>fm_inode = 0, fm_offset = 1, fm_mode = OM_ReadWrite\<rparr>" "demo_inode 0 3" "replicate 300 6" 3 5] demo_state(1) r off
  show ?thesis by (simp add: MAX_SIZE_def BLOCK_SIZE_def del: replicate.simps)
qed


section \<open>The poisoned mutex\<close>

lemma poisoned_session:
  assumes "ff_poisoned s"
  shows "fuse_session env ops qs s = (map (\<lambda>q. fst (fuse_serve env ops q s)) qs, s)"
proof (induction qs)
  case (Cons q qs)
  have st: "snd (fuse_serve env ops q s) = s"
    using assms by (cases q) (simp_all add: fuse_serve_def takes_lock_def with_lock_def returnM_def)
  with Cons show ?case by (simp add: Let_def split_beta)
qed simp


section \<open>Listing a directory\<close>

definition item :: "nat \<Rightarrow> dir_entry \<Rightarrow> fuse_dirent" where
  "item k e = \<lparr>fd_ino = ucast (de_inode e + 1), fd_offset = of_nat (Suc k),
     fd_kind = my_to_fuse_file_type (de_file_type e), fd_name = de_name e\<rparr>"

definition listing :: "dir_entry list \<Rightarrow> fuse_dirent list" where
  "listing es = map2 item [0..<length es] es"

text \<open>
  The kernel's side of a listing: ask from offset 0, go on from the offset of the last entry received,
  until an empty page.
\<close>

fun dir_pages :: "nat \<Rightarrow> fuse_env \<Rightarrow> 'd block_ops \<Rightarrow> u64 \<Rightarrow> u64 \<Rightarrow> ('d, fuse_dirent list) fs" where
  "dir_pages 0 env ops ino off = liftM Diverge"
| "dir_pages (Suc n) env ops ino off =
     bindM (fuse_readdir env ops ino off) (\<lambda>r.
     case r of
       R_directory es \<Rightarrow>
         if es = [] then returnM []
         else bindM (dir_pages n env ops ino (fd_offset (last es))) (\<lambda>rest. returnM (es @ rest))
     | _ \<Rightarrow> panicM)"

lemma readdir_loop_page:
  assumes "\<forall>e \<in> set es. \<not> is_free e" "k + length es < 2 ^ 64"
  shows "\<exists>n \<le> length es. readdir_loop env (of_nat k) es added = Ok (added @ take n (map2 item [k..<k + length es] es)) \<and>
    (es \<noteq> [] \<longrightarrow> \<not> fe_dir_full env added (item k (hd es)) \<longrightarrow> 0 < n)"
  using assms
proof (induction es arbitrary: k added)
  case (Cons e es)
  have "unat (de_inode e) \<noteq> 4294967295" using Cons.prems(1) by (auto simp: is_free_def INVALID_ADDRESS_def word_unat_eq_iff)
  then have lt: "unat (de_inode e) + 1 < 4294967296" using unat_u32_bound [of "de_inode e"] by linarith
  have ino: "from_v1_inode_number (de_inode e) = Ok (ucast (de_inode e + 1))"
    using lt by (simp add: from_v1_inode_number_def addW_def)
  have "unat (of_nat k :: u64) = k" using Cons.prems(2) by (simp add: unat_of_nat take_bit_nat_eq_self)
  then have off: "addW (of_nat k :: u64) 1 = Ok (of_nat (Suc k))" using Cons.prems(2) by (simp add: addW_def)
  have rng: "map2 item [k..<k + length (e # es)] (e # es) = item k e # map2 item [Suc k..<Suc k + length es] es"
    by (simp add: upt_conv_Cons del: upt_Suc)
  have step: "readdir_loop env (of_nat k) (e # es) added =
      (if fe_dir_full env added (item k e) then Ok added else readdir_loop env (of_nat (Suc k)) es (added @ [item k e]))"
    by (simp only: readdir_loop.simps ino off bindR.simps Let_def item_def)
  show ?case
  proof (cases "fe_dir_full env added (item k e)")
    case True
    then show ?thesis unfolding step by (intro exI [of _ 0]) simp
  next
    case False
    from Cons.IH [of "Suc k" "added @ [item k e]"] Cons.prems obtain n where
      "n \<le> length es" "readdir_loop env (of_nat (Suc k)) es (added @ [item k e]) =
         Ok ((added @ [item k e]) @ take n (map2 item [Suc k..<Suc k + length es] es))" by auto
    then show ?thesis unfolding step rng using False by (intro exI [of _ "Suc n"]) simp
  qed
qed simp

lemma listing_drop: "k \<le> length es \<Longrightarrow> map2 item [k..<length es] (drop k es) = drop k (listing es)"
  by (simp add: listing_def drop_map drop_zip)

lemma listing_nth: "k < length es \<Longrightarrow> listing es ! k = item k (es ! k)"
  by (simp add: listing_def)

lemma length_listing [simp]: "length (listing es) = length es"
  by (simp add: listing_def)

context block_device
begin

lemma readdir_execs:
  assumes mt: "mounted f bs" and ino: "to_v1_inode_number ino = Ok n" and live: "live_inode f bs n i"
    and dir: "in_file_type i = Directory" "dir_layout (fv_inode_handler f) bs i ess"
    and k: "k \<le> length (filter (\<lambda>e. \<not> is_free e) (concat ess))" "length (filter (\<lambda>e. \<not> is_free e) (concat ess)) < 2 ^ 64"
    and env: "\<forall>e. \<not> fe_dir_full env [] e"
  shows "\<exists>p. fs_execs inv blks (fuse_readdir env ops ino (of_nat k)) f bs
      (Ok (R_directory (take p (drop k (listing (filter (\<lambda>e. \<not> is_free e) (concat ess))))))) f bs \<and>
    (k < length (filter (\<lambda>e. \<not> is_free e) (concat ess)) \<longrightarrow> 0 < p)"
proof -
  let ?L = "filter (\<lambda>e. \<not> is_free e) (concat ess)"
  have u: "unat (of_nat k :: u64) = k" using k by (simp add: unat_of_nat take_bit_nat_eq_self)
  obtain p where p: "readdir_loop env (of_nat k) (drop k ?L) [] = Ok (take p (drop k (listing ?L)))"
    "k < length ?L \<longrightarrow> 0 < p"
  proof -
    have "\<forall>e \<in> set (drop k ?L). \<not> is_free e" by (auto dest: in_set_dropD)
    from readdir_loop_page [OF this, of k env "[]"] k env that show ?thesis by (force simp: listing_drop)
  qed
  have ent: "execs inv blks (get_entries ops (fv_directory_handler f) i (fv_inode_handler f) False) bs (Ok ?L) bs"
    using get_entries_execs [OF dir(2) mounted_ok(7) [OF mt], of False] by simp
  have gd: "fs_execs inv blks (get_directory_from_inode ops i n) f bs (Ok \<lparr>dy_inode = n, dy_entries = ?L\<rparr>) f bs"
    unfolding get_directory_from_inode_def using dir(1)
    by simp (rule fs_bind_self, rule fs_bind_dev [OF ent], rule execs_return)
  have "fs_execs inv blks (fuse_readdir env ops ino (of_nat k)) f bs (Ok (R_directory (take p (drop k (listing ?L))))) f bs"
    unfolding fuse_readdir_def ino bindM_liftM_Ok
    by (rule or_reply_execs [OF get_inode_execs [OF mt live]])
      (simp add: dir(1), rule or_reply_execs [OF gd], simp add: u p(1) execs_return)
  with p(2) show ?thesis by blast
qed

lemma dir_pages_execs:
  assumes mt: "mounted f bs" and ino: "to_v1_inode_number ino = Ok n" and live: "live_inode f bs n i"
    and dir: "in_file_type i = Directory" "dir_layout (fv_inode_handler f) bs i ess"
    and env: "\<forall>e. \<not> fe_dir_full env [] e" and len: "length (filter (\<lambda>e. \<not> is_free e) (concat ess)) < 2 ^ 64"
  shows "k \<le> length (filter (\<lambda>e. \<not> is_free e) (concat ess)) \<Longrightarrow>
    length (filter (\<lambda>e. \<not> is_free e) (concat ess)) - k < fuel \<Longrightarrow>
    fs_execs inv blks (dir_pages fuel env ops ino (of_nat k)) f bs
      (Ok (drop k (listing (filter (\<lambda>e. \<not> is_free e) (concat ess))))) f bs"
proof (induction fuel arbitrary: k)
  case (Suc fuel)
  let ?L = "filter (\<lambda>e. \<not> is_free e) (concat ess)"
  from readdir_execs [OF mt ino live dir Suc.prems(1) len env] obtain p where
    p: "fs_execs inv blks (fuse_readdir env ops ino (of_nat k)) f bs (Ok (R_directory (take p (drop k (listing ?L))))) f bs"
      "k < length ?L \<Longrightarrow> 0 < p" by blast
  let ?page = "take p (drop k (listing ?L))"
  show ?case
  proof (cases "k = length ?L")
    case True
    then have "?page = []" by simp
    with p(1) True show ?thesis by (auto intro!: execs_bind)
  next
    case False
    then have k: "k < length ?L" using Suc.prems(1) by simp
    define q where "q = min p (length ?L - k)"
    have q: "0 < q" "k + q \<le> length ?L" "?page = take q (drop k (listing ?L))" "length ?page = q"
      using p(2) [OF k] k by (auto simp: q_def min_def)
    then have ne: "?page \<noteq> []" by auto
    have "last ?page = listing ?L ! (k + q - 1)" using q ne by (simp add: last_conv_nth)
    then have off: "fd_offset (last ?page) = of_nat (k + q)" using q k by (simp add: listing_nth item_def)
    have rest: "fs_execs inv blks (dir_pages fuel env ops ino (of_nat (k + q))) f bs (Ok (drop (k + q) (listing ?L))) f bs"
      using q Suc.prems(2) k by (intro Suc.IH) linarith+
    define page where "page = ?page"
    have all: "drop k (listing ?L) = page @ drop (k + q) (listing ?L)"
      unfolding page_def q(3) by (metis append_take_drop_id drop_drop add.commute)
    have "fs_execs inv blks (bindM (dir_pages fuel env ops ino (fd_offset (last page))) (\<lambda>rest. returnM (page @ rest))) f bs
        (Ok (drop k (listing ?L))) f bs"
      unfolding off [folded page_def] all by (rule execs_bind [OF rest]) (rule execs_return)
    with ne show ?thesis unfolding dir_pages.simps
      by (intro execs_bind [OF p(1) [folded page_def]]) (simp add: page_def [symmetric])
  qed
qed simp

end

text \<open>
  C22. Listing a directory through FUSE ends and is complete, for any sizes of the kernel's buffer that
  hold at least one entry: asking page by page, each time from the offset received last, gives every
  live entry of the directory once and in order, in at most one call more than there are entries.
  The inode numbers and types are those of the entries; the names are the 64-byte name fields of the
  entries, padded with zeros.
\<close>

theorem fuse_listing_complete:
  assumes dev: "block_device ops blks dinv" and d: "dinv d" and mt: "mounted f (blks d)"
    and ino: "to_v1_inode_number ino = Ok n" and live: "live_inode f (blks d) n i"
    and dir: "in_file_type i = Directory" "dir_layout (fv_inode_handler f) (blks d) i ess"
    and env: "\<forall>e. \<not> fe_dir_full env [] e"
  defines "L \<equiv> filter (\<lambda>e. \<not> is_free e) (concat ess)"
  assumes len: "length L < 2 ^ 64"
  shows "\<exists>es d'. dir_pages (length L + 1) env ops ino 0 (f, d) = (Ok es, f, d') \<and> blks d' = blks d \<and>
    length es = length L \<and>
    (\<forall>k < length L. from_v1_inode_number (de_inode (L ! k)) = Ok (fd_ino (es ! k)) \<and>
       fd_kind (es ! k) = my_to_fuse_file_type (de_file_type (L ! k)) \<and>
       fd_name (es ! k) = name_of (L ! k) @ replicate (64 - length (name_of (L ! k))) 0)"
proof -
  have e: "fs_execs dinv blks (dir_pages (length L + 1) env ops ino 0) f (blks d) (Ok (listing L)) f (blks d)"
    using block_device.dir_pages_execs [OF dev mt ino live dir env, of 0 "length L + 1"] len by (simp add: L_def)
  have "from_v1_inode_number (de_inode (L ! k)) = Ok (fd_ino (listing L ! k)) \<and>
       fd_kind (listing L ! k) = my_to_fuse_file_type (de_file_type (L ! k)) \<and>
       fd_name (listing L ! k) = name_of (L ! k) @ replicate (64 - length (name_of (L ! k))) 0" if "k < length L" for k
  proof -
    have mem: "L ! k \<in> set L" using that by simp
    then have fr: "\<not> is_free (L ! k)" by (auto simp: L_def)
    obtain es where "es \<in> set ess" "L ! k \<in> set es" using mem by (auto simp: L_def)
    then have ok: "dirent_ok (L ! k)" using dir(2) by (fastforce simp: dir_layout_def layout_def in_set_conv_nth list_all2_conv_all_nth)
    have "unat (de_inode (L ! k)) \<noteq> 4294967295" using fr by (auto simp: is_free_def INVALID_ADDRESS_def word_unat_eq_iff)
    then have "unat (de_inode (L ! k)) + 1 < 4294967296" using unat_u32_bound [of "de_inode (L ! k)"] by linarith
    then have "from_v1_inode_number (de_inode (L ! k)) = Ok (ucast (de_inode (L ! k) + 1))"
      by (simp add: from_v1_inode_number_def addW_def)
    moreover have "de_name (L ! k) = name_of (L ! k) @ replicate (64 - length (name_of (L ! k))) 0"
      using ok fr length_name_of [OF ok fr] by (simp add: dirent_ok_def MAX_NAME_def)
    ultimately show ?thesis using that by (simp add: listing_nth item_def)
  qed
  with fs_execsD [OF e d refl] show ?thesis by (metis length_listing)
qed

theorem fuse_listing_complete_witness:
  "\<exists>f d1 d2 es s. format mem_ops 9 (mem_empty 16) = (Ok (), d1) \<and> mount mem_ops d1 = (Ok f, d2) \<and>
    dir_pages 3 linux_env mem_ops 1 0 (f, d2) = (Ok es, s) \<and> length es = 2"
proof -
  obtain d1 d2 where d1: "format mem_ops 9 (mem_empty 16) = (Ok (), d1)" and d2: "mount mem_ops d1 = (Ok (fresh_format 16), d2)" "mem_inv d2"
    and F: "formatted 9 (md_blocks d2)" and l: "length (md_blocks d2) = 16" and mt: "mounted (fresh_format 16) (md_blocks d2)"
    by (rule fresh_mem)
  let ?f = "fresh_format 16"
  have ino: "to_v1_inode_number 1 = Ok 0" by (simp add: to_v1_inode_number_def subW_def)
  have live: "live_inode ?f (md_blocks d2) 0 (root_inode 9)"
    using F l by (simp add: live_inode_def formatted_def Let_def) (simp add: fresh_format_def inode_table_handler_new_def table_size_def)
  have dir: "in_file_type (root_inode 9) = Directory" "dir_layout (fv_inode_handler ?f) (md_blocks d2) (root_inode 9) [dir_start 0 0]"
    using F l by (simp_all add: formatted_def Let_def)
  let ?L = "filter (\<lambda>e. \<not> is_free e) (concat [dir_start 0 0])"
  have L: "length ?L = 2" "length ?L + 1 = 3"
    by (simp_all add: dir_start_def) (simp_all add: small_entry_def is_free_def INVALID_ADDRESS_def)
  have "\<exists>es d'. dir_pages (length ?L + 1) linux_env mem_ops 1 0 (?f, d2) = (Ok es, ?f, d') \<and> length es = length ?L"
    using fuse_listing_complete [OF mem.block_device_axioms d2(2) mt ino live dir, of linux_env] L(1) by fastforce
  then obtain es d' where "dir_pages 3 linux_env mem_ops 1 0 (?f, d2) = (Ok es, ?f, d')" "length es = 2" unfolding L(2) unfolding L(1) by blast
  with d1 d2(1) show ?thesis by blast
qed


section \<open>Symbolic links\<close>

text \<open>
  \<open>unlink\<close> refuses to remove a symbolic link: it asks \<open>delete_child\<close> for a regular file, and answers
  \<open>EIO\<close> when the name belongs to a link; the volume is unchanged.
\<close>

lemma fuse_unlink_symlink:
  assumes dev: "block_device ops blks dinv" and d: "dinv d" and mt: "mounted f (blks d)"
    and ino: "to_v1_inode_number parent = Ok n" and live: "live_inode f (blks d) n i"
    and dir: "in_file_type i = Directory" "dir_layout (fv_inode_handler f) (blks d) i ess"
    and name: "utf8_valid name" "name \<noteq> [dot]" "name \<noteq> [dot, dot]"
    and e: "e \<in> set (concat ess)" "named name e"
    and link: "\<forall>e \<in> set (concat ess). named name e \<longrightarrow> (\<exists>j. live_inode f (blks d) (de_inode e) j \<and> in_file_type j = Symlink)"
  shows "\<exists>d'. fuse_unlink ops now parent name (f, d) = (Ok (R_error EIO), f, d') \<and> blks d' = blks d"
proof -
  let ?h = "fv_inode_handler f"
  note run = block_device.live_allocated_execs [OF dev mt]
  let ?res = "locate_in (named name) (contents ?h (blks d) i ess)"
  have find: "execs dinv blks (find_entry ops (fv_directory_handler f) i ?h name) (blks d) (Ok ?res) (blks d)"
    by (rule block_device.find_entry_execs [OF dev dir(2) mounted_ok(7) [OF mt]])
  have "?res \<noteq> None" unfolding locate_in_None contents_union [OF dir(2)] using e by blast
  then obtain x r off where x: "?res = Some (x, r, off)" by auto
  from locate_in_SomeD [OF x] have "named name x" "x \<in> set (concat ess)"
    using contents_union [OF dir(2)] by fastforce+
  then obtain j where j: "live_inode f (blks d) (de_inode x) j" "in_file_type j = Symlink" using link by blast
  have del: "fs_execs dinv blks (delete_child ops now name n (Some File)) f (blks d) (Err (NotAFile (u32_to_string n))) f (blks d)"
    unfolding delete_child_def Let_def
    by (simp only: name simp_thms if_False, rule fs_bind_self, rule fs_bind_dev [OF run(1) [OF live]],
        simp only: simp_thms if_False, rule fs_bind_dev [OF run(2) [OF live]])
      (simp add: dir(1), rule fs_bind_dev [OF find], simp add: x, rule fs_bind_dev [OF run(2) [OF j(1)]],
        simp add: j(2) wrong_type_error_def execs_throw)
  have "fs_execs dinv blks (fuse_unlink ops now parent name) f (blks d) (Ok (R_error EIO)) f (blks d)"
    unfolding fuse_unlink_def ino bindM_liftM_Ok with_name_def from_utf8_def
    by (simp add: name(1)) (rule or_reply_Err [OF del])
  from fs_execsD [OF this d refl] show ?thesis by blast
qed

text \<open>A volume whose root directory holds the link \<open>a\<close>, inode 1.\<close>

definition link_entries :: "dir_entry list" where
  "link_entries = [small_entry 1 Symlink [97] 12, dir_entry_free 244]"

definition link_inodes :: "u32 \<Rightarrow> inode" where
  "link_inodes n = (if n = 0 then (demo_inode 0 256)\<lparr>in_file_type := Directory\<rparr> else (demo_inode 1 3)\<lparr>in_file_type := Symlink\<rparr>)"

definition link_blocks :: "bytes list" where
  "link_blocks = put_inode demo_handler (put_inode demo_handler (demo_start[4 := image link_entries]) 0 (link_inodes 0)) 1 (link_inodes 1)"

lemma link_layout: "layout link_entries (image link_entries)"
proof -
  have "dirent_ok (dir_entry_free 244)" using dir_entry_free_ok [of 244] by (simp add: BLOCK_SIZE_def)
  then show ?thesis
    using small_entry_ok [of 1 "[97]" 12 Symlink]
    by (simp add: layout_def link_entries_def MAX_NAME_def BLOCK_SIZE_def INVALID_ADDRESS_def)
qed

lemma link_volume:
  shows "mem_inv \<lparr>md_blocks = link_blocks\<rparr>" "mounted demo_format link_blocks" "length link_blocks = 8"
    "live_inode demo_format link_blocks 0 (link_inodes 0)" "live_inode demo_format link_blocks 1 (link_inodes 1)"
    "dir_layout demo_handler link_blocks (link_inodes 0) [link_entries]" "link_blocks ! 1 = 3 # replicate 255 0"
proof -
  let ?bs = "demo_start[4 := image link_entries]"
  have iwf: "inode_wf (link_inodes n)" for n
    using demo_inode_wf by (simp add: link_inodes_def inode_wf_def)
  have wf: "wf_blocks ?bs" "length ?bs = 8"
    using demo_start_wf layout_length [OF link_layout] by (auto simp: wf_blocks_def dest!: set_update_subset_insert [THEN subsetD])
  have w: "wf_blocks link_blocks" "length link_blocks = 8"
    unfolding link_blocks_def by (simp_all add: wf_put_inode wf demo_slots iwf demo_start_wf)
  have nth: "link_blocks ! a = ?bs ! a" if "a \<noteq> 3" for a
    using that by (simp add: link_blocks_def put_inode_def demo_slots)
  show "mem_inv \<lparr>md_blocks = link_blocks\<rparr>" "length link_blocks = 8" using w by (simp_all add: mem_inv_def)
  show "mounted demo_format link_blocks" using demo_mounted w demo_wf by (simp add: mounted_def)
  show one: "link_blocks ! 1 = 3 # replicate 255 0" using nth [of 1] by (simp add: demo_start_def)
  have "(3 :: u8) = mask 2" by (simp add: mask_eq_exp_minus_1)
  then have "bit (3 :: u8) k \<longleftrightarrow> k < 2" for k by (simp only: bit_mask_iff) (auto simp: less_2_cases_iff)
  from this have bit3: "k < 2 \<Longrightarrow> bit (3 :: u8) k" for k by blast
  have bit: "bit_at (fv_inode_allocator demo_format) link_blocks k" if "k < 2" for k
    using one that bit3 [of k] by (simp add: bit_at_def demo_format_def bitmap_allocator_new_def)
  have at: "inode_at demo_handler link_blocks 0 = Ok (link_inodes 0)" "inode_at demo_handler link_blocks 1 = Ok (link_inodes 1)"
    by (simp_all add: link_blocks_def inode_at_put_other inode_at_put_same wf_put_inode wf demo_slots iwf demo_start_wf)
  have h: "fv_inode_handler demo_format = demo_handler" "inode_count demo_handler = 2"
    by (simp_all add: demo_format_def demo_handler_def inode_table_handler_new_def)
  show "live_inode demo_format link_blocks 0 (link_inodes 0)" "live_inode demo_format link_blocks 1 (link_inodes 1)"
    using at h bit [of 0] bit [of 1] by (simp_all add: live_inode_def)
  have "inode_blocks demo_handler link_blocks (link_inodes 0) = [0]" "meta_blocks demo_handler link_blocks (link_inodes 0) = []"
    by (simp_all add: inode_blocks_def block_at_def meta_blocks_def link_inodes_def demo_inode_def)
  moreover have "data_addr demo_handler 0 = 4" by (simp add: data_addr_def demo_handler_def inode_table_handler_new_def)
  moreover have "link_blocks ! 4 = image link_entries" using nth [of 4] demo_start_wf by simp
  moreover have "unat (in_blocks (link_inodes 0)) \<le> 4172" by (simp add: link_inodes_def demo_inode_def)
  ultimately show "dir_layout demo_handler link_blocks (link_inodes 0) [link_entries]"
    using link_layout w iwf by (simp add: dir_layout_def meta_ok_def)
qed

lemma fuse_unlink_symlink_witness:
  "\<exists>d'. fuse_unlink mem_ops 5 1 [97] (demo_format, \<lparr>md_blocks = link_blocks\<rparr>) = (Ok (R_error EIO), demo_format, d') \<and>
    md_blocks d' = link_blocks"
proof -
  have h: "fv_inode_handler demo_format = demo_handler" by (simp add: demo_format_def)
  let ?e = "small_entry 1 Symlink [97] 12"
  have e: "\<not> is_free ?e" "name_of ?e = [97]" "de_inode ?e = 1"
    using small_entry_ok [of 1 "[97]" 12 Symlink] by (simp_all add: MAX_NAME_def BLOCK_SIZE_def INVALID_ADDRESS_def) (simp add: small_entry_def)
  have nm: "\<forall>x \<in> set (concat [link_entries]). named [97] x \<longrightarrow> x = ?e" "?e \<in> set (concat [link_entries])" "named [97] ?e"
    using e by (auto simp: link_entries_def named_def)
  have ty: "in_file_type (link_inodes 0) = Directory" "in_file_type (link_inodes 1) = Symlink" by (simp_all add: link_inodes_def)
  have ino: "to_v1_inode_number 1 = Ok 0" by (simp add: to_v1_inode_number_def subW_def)
  have u: "utf8_valid [97]" "[97] \<noteq> [dot]" "[97] \<noteq> [dot, dot]" by (rule ascii_valid) simp_all
  have link: "\<forall>x \<in> set (concat [link_entries]). named [97] x \<longrightarrow>
      (\<exists>j. live_inode demo_format link_blocks (de_inode x) j \<and> in_file_type j = Symlink)"
    using nm(1) link_volume(5) e(3) ty(2) by metis
  have vol: "mounted demo_format (md_blocks \<lparr>md_blocks = link_blocks\<rparr>)" "live_inode demo_format (md_blocks \<lparr>md_blocks = link_blocks\<rparr>) 0 (link_inodes 0)"
    "dir_layout (fv_inode_handler demo_format) (md_blocks \<lparr>md_blocks = link_blocks\<rparr>) (link_inodes 0) [link_entries]"
    "\<forall>x \<in> set (concat [link_entries]). named [97] x \<longrightarrow>
      (\<exists>j. live_inode demo_format (md_blocks \<lparr>md_blocks = link_blocks\<rparr>) (de_inode x) j \<and> in_file_type j = Symlink)"
    using link_volume link h by simp_all
  from fuse_unlink_symlink [OF mem.block_device_axioms link_volume(1) vol(1) ino vol(2) ty(1) vol(3) u nm(2,3) vol(4), of 5]
  show ?thesis by simp
qed

text \<open>
  C35. A name that is not UTF-8 takes a mounted file system down. \<open>mkdir\<close> answers \<open>EIO\<close> for it and changes
  nothing, but \<open>link\<close> unwraps it: linking a file that exists into a directory that exists panics, with
  the mutex held. The volume is as before, but whatever requests follow, every one that needs the lock
  panics, and the volume is not changed again.
\<close>

theorem fuse_link_bad_name:
  assumes dev: "block_device ops blks dinv" and s: "dinv (ff_device s)" "mounted (ff_format s) (blks (ff_device s))" "\<not> ff_poisoned s"
    and tgt: "to_v1_inode_number ino = Ok n" "live_inode (ff_format s) (blks (ff_device s)) n i" "in_file_type i \<noteq> Directory"
    and dst: "to_v1_inode_number parent = Ok p" "live_inode (ff_format s) (blks (ff_device s)) p j" "in_file_type j = Directory"
    and name: "from_utf8 name = None"
  shows "fuse_serve env ops (Q_mkdir now parent name) s = (Ok (R_error EIO), s) \<and>
    (\<exists>s'. fuse_serve env ops (Q_link now ino parent name) s = (Panic, s') \<and>
      ff_format s' = ff_format s \<and> blks (ff_device s') = blks (ff_device s) \<and>
      (\<forall>qs. \<exists>rs. fuse_session env ops qs s' = (rs, s') \<and> length rs = length qs \<and>
         (\<forall>k < length qs. takes_lock (qs ! k) \<longrightarrow> rs ! k = Panic)))"
proof (rule conjI)
  show "fuse_serve env ops (Q_mkdir now parent name) s = (Ok (R_error EIO), s)"
    using s(3) by (simp add: fuse_serve_def takes_lock_def with_lock_def fuse_mkdir_def dst(1) with_name_def name bindM_liftM_Ok returnM_def)
  let ?f = "ff_format s" and ?d = "ff_device s"
  have un: "liftM (unwrap (from_utf8 name)) = (liftM Panic :: (format_v1 \<times> 'a, bytes) io)" by (simp add: name unwrap_def)
  have "fs_execs dinv blks (fuse_link ops now ino parent name) ?f (blks ?d) Panic ?f (blks ?d)"
    unfolding fuse_link_def tgt(1) dst(1) bindM_liftM_Ok un
    by (rule or_reply_execs [OF block_device.get_inode_execs [OF dev s(2) tgt(2)]], simp only: tgt(3) if_False,
        rule or_reply_execs [OF block_device.get_inode_execs [OF dev s(2) dst(2)]], simp only: dst(3) simp_thms if_False)
      (rule execs_bind_Panic, rule execs_lift)
  from fs_execsD [OF this s(1) refl] obtain d' where d': "fuse_link ops now ino parent name (?f, ?d) = (Panic, ?f, d')" "blks d' = blks ?d" by blast
  let ?s = "s\<lparr>ff_format := ?f, ff_device := d', ff_poisoned := True\<rparr>"
  have "fuse_serve env ops (Q_link now ino parent name) s = (Panic, ?s)"
    using s(3) d'(1) by (simp add: fuse_serve_def takes_lock_def with_lock_def)
  moreover have p: "ff_poisoned ?s" by simp
  then have "fst (fuse_serve env ops x ?s) = Panic" if "takes_lock x" for x using that by (simp add: fuse_serve_def with_lock_def)
  with poisoned_session [OF p] have "\<forall>qs. \<exists>rs. fuse_session env ops qs ?s = (rs, ?s) \<and> length rs = length qs \<and>
      (\<forall>k < length qs. takes_lock (qs ! k) \<longrightarrow> rs ! k = Panic)" by auto
  ultimately show "\<exists>s'. fuse_serve env ops (Q_link now ino parent name) s = (Panic, s') \<and>
      ff_format s' = ff_format s \<and> blks (ff_device s') = blks (ff_device s) \<and>
      (\<forall>qs. \<exists>rs. fuse_session env ops qs s' = (rs, s') \<and> length rs = length qs \<and>
         (\<forall>k < length qs. takes_lock (qs ! k) \<longrightarrow> rs ! k = Panic))" using d'(2) by (intro exI [of _ ?s]) simp
qed

theorem fuse_link_bad_name_witness:
  "\<exists>s' rs. fuse_serve linux_env mem_ops (Q_mkdir 5 1 [255]) \<lparr>ff_format = demo_format, ff_device = \<lparr>md_blocks = link_blocks\<rparr>, ff_poisoned = False\<rparr> =
      (Ok (R_error EIO), \<lparr>ff_format = demo_format, ff_device = \<lparr>md_blocks = link_blocks\<rparr>, ff_poisoned = False\<rparr>) \<and>
    fuse_serve linux_env mem_ops (Q_link 5 2 1 [255]) \<lparr>ff_format = demo_format, ff_device = \<lparr>md_blocks = link_blocks\<rparr>, ff_poisoned = False\<rparr> = (Panic, s') \<and>
    fuse_session linux_env mem_ops [Q_statfs, Q_getattr 1] s' = (rs, s') \<and> rs ! 1 = Panic"
proof -
  let ?s = "\<lparr>ff_format = demo_format, ff_device = \<lparr>md_blocks = link_blocks\<rparr>, ff_poisoned = False\<rparr>"
  have ino: "to_v1_inode_number 2 = Ok 1" "to_v1_inode_number 1 = Ok 0" by (simp_all add: to_v1_inode_number_def subW_def)
  have ty: "in_file_type (link_inodes 1) \<noteq> Directory" "in_file_type (link_inodes 0) = Directory" by (simp_all add: link_inodes_def)
  have s: "mem_inv (ff_device ?s)" "mounted (ff_format ?s) (md_blocks (ff_device ?s))" "\<not> ff_poisoned ?s"
    "live_inode (ff_format ?s) (md_blocks (ff_device ?s)) 1 (link_inodes 1)" "live_inode (ff_format ?s) (md_blocks (ff_device ?s)) 0 (link_inodes 0)"
    using link_volume by simp_all
  have bad: "from_utf8 [255] = None" by code_simp
  from fuse_link_bad_name [OF mem.block_device_axioms s(1-3) ino(1) s(4) ty(1) ino(2) s(5) ty(2) bad, of linux_env 5]
  obtain s' where s': "fuse_serve linux_env mem_ops (Q_mkdir 5 1 [255]) ?s = (Ok (R_error EIO), ?s)"
    "fuse_serve linux_env mem_ops (Q_link 5 2 1 [255]) ?s = (Panic, s')"
    "\<And>qs. \<exists>rs. fuse_session linux_env mem_ops qs s' = (rs, s') \<and> length rs = length qs \<and>
         (\<forall>k < length qs. takes_lock (qs ! k) \<longrightarrow> rs ! k = Panic)" by blast
  from s'(3) [of "[Q_statfs, Q_getattr 1]"] obtain rs where
    "fuse_session linux_env mem_ops [Q_statfs, Q_getattr 1] s' = (rs, s')" "rs ! 1 = Panic" by (auto simp: takes_lock_def less_Suc_eq)
  with s'(1,2) show ?thesis by blast
qed

text \<open>
  C36. \<open>readlink\<close> reads the wrong block: the target of a link is stored in the data block its first
  direct address names, which \<open>write_symlink\<close> finds at \<open>data_start\<close> plus that address; \<open>readlink\<close>
  answers with the bytes of the block at that address from the start of the device.
\<close>

theorem fuse_readlink_block:
  assumes dev: "block_device ops blks dinv" and d: "dinv d" and mt: "mounted f (blks d)"
    and ino: "to_v1_inode_number ino = Ok n" and live: "live_inode f (blks d) n i"
    and link: "in_file_type i = Symlink" "inode_wf i" "0 < in_size i" "unat (in_size i) \<le> BLOCK_SIZE"
    and a: "unat (in_direct i ! 0) < length (blks d)"
  shows "\<exists>d'. fuse_readlink ops ino (f, d) = (Ok (R_data (take (unat (in_size i)) (blks d ! unat (in_direct i ! 0)))), f, d') \<and>
    blks d' = blks d"
proof -
  let ?a = "in_direct i ! 0"
  have idx: "indexR (in_direct i) 0 = Ok ?a" using link(2) by (simp add: inode_wf_def indexR_def)
  have rd: "execs dinv blks (read_block ops ?a) (blks d) (Ok (blks d ! unat ?a)) (blks d)"
    by (rule block_device.read_execs [OF dev a])
  have len: "length (blks d ! unat ?a) = BLOCK_SIZE" using block_device.blocks_wf [OF dev d] a by (simp add: wf_blocks_def)
  have nz: "in_size i \<noteq> 0" using link(3) by auto
  have rs: "fs_execs dinv blks (read_symlink ops n (replicate BLOCK_SIZE 0)) f (blks d)
      (Ok (unat (in_size i), blks d ! unat ?a)) f (blks d)"
    unfolding read_symlink_def
    by (rule execs_bind [OF block_device.get_inode_execs [OF dev mt live]])
      (simp add: link(1) nz idx, rule fs_bind_dev [OF rd], rule execs_return)
  have sl: "sliceR (blks d ! unat ?a) 0 (unat (in_size i)) = Ok (take (unat (in_size i)) (blks d ! unat ?a))"
    using link(4) len by (simp add: sliceR_def slice_def)
  have "fs_execs dinv blks (fuse_readlink ops ino) f (blks d) (Ok (R_data (take (unat (in_size i)) (blks d ! unat ?a)))) f (blks d)"
    unfolding fuse_readlink_def ino bindM_liftM_Ok
    by (rule or_reply_execs [OF rs]) (simp add: sl execs_return)
  from fs_execsD [OF this d refl] show ?thesis by blast
qed

theorem fuse_readlink_block_witness:
  "\<exists>d'. fuse_readlink mem_ops 2 (demo_format, \<lparr>md_blocks = link_blocks\<rparr>) = (Ok (R_data [3, 0, 0]), demo_format, d') \<and>
    md_blocks d' = link_blocks"
proof -
  have ino: "to_v1_inode_number 2 = Ok 1" by (simp add: to_v1_inode_number_def subW_def)
  have i: "in_file_type (link_inodes 1) = Symlink" "in_size (link_inodes 1) = 3" "in_direct (link_inodes 1) = replicate 12 1" "inode_wf (link_inodes 1)"
    by (simp_all add: link_inodes_def demo_inode_def inode_wf_def)
  have "take 3 (3 # replicate 255 (0 :: u8)) = [3, 0, 0]" by (simp add: numeral_eq_Suc)
  then show ?thesis
    using fuse_readlink_block [OF mem.block_device_axioms link_volume(1), of demo_format 2 1 "link_inodes 1"]
      link_volume ino i by (simp add: BLOCK_SIZE_def)
qed

end
