(* ===== verification/Session.thy ===== *)
theory Session
  imports Fuse_Operations
begin

text \<open>
  Sessions: what holds of the in-memory state of a mounted volume whatever sequence of calls, through
  the front end or through FUSE, and whatever the device answers. \<open>keeps I m\<close> says that \<open>m\<close> preserves
  \<open>I\<close> on the state of the format, on every outcome; the rules follow the structure of the code.
\<close>

named_theorems keeps_intros \<open>rules for preservation of an invariant of the format's state\<close>

definition keeps :: "('f \<Rightarrow> bool) \<Rightarrow> ('f \<times> 'd, 'a) io \<Rightarrow> bool" where
  "keeps I m \<longleftrightarrow> (\<forall>f d r f' d'. I f \<longrightarrow> m (f, d) = (r, f', d') \<longrightarrow> I f')"

lemma keepsI: "(\<And>f d r f' d'. I f \<Longrightarrow> m (f, d) = (r, f', d') \<Longrightarrow> I f') \<Longrightarrow> keeps I m"
  by (auto simp: keeps_def)

lemma keepsD: "keeps I m \<Longrightarrow> I f \<Longrightarrow> m (f, d) = (r, f', d') \<Longrightarrow> I f'"
  unfolding keeps_def by blast

lemma keeps_bind [keeps_intros]:
  assumes "keeps I m" "\<And>v. keeps I (k v)"
  shows "keeps I (bindM m k)"
proof (rule keepsI)
  fix f d r f' d' assume I: "I f" and run: "bindM m k (f, d) = (r, f', d')"
  obtain r1 f1 d1 where m: "m (f, d) = (r1, f1, d1)" by (metis surj_pair)
  have I1: "I f1" using assms(1) I m by (rule keepsD)
  show "I f'"
  proof (cases r1)
    case (Ok v)
    then have "k v (f1, d1) = (r, f', d')" using run m by (simp add: bindM_def)
    with assms(2) I1 show ?thesis by (rule keepsD)
  qed (use run m I1 in \<open>simp_all add: bindM_def\<close>)
qed

lemma keeps_self: "(\<And>f. I f \<Longrightarrow> keeps I (k f)) \<Longrightarrow> keeps I (bindM self k)"
  by (rule keepsI) (auto simp: bindM_def self_def getM_def dest: keepsD)

lemma keeps_dev [keeps_intros]: "keeps I (dev m)"
  by (rule keepsI) (auto simp: dev_def zoomM_def split: prod.splits)

lemma keeps_update [keeps_intros]: "(\<And>f. I f \<Longrightarrow> I (g f)) \<Longrightarrow> keeps I (update g)"
  by (rule keepsI) (auto simp: update_def modifyM_def)

lemma keeps_prims [keeps_intros]:
  "keeps I (returnM v)" "keeps I (throwM e)" "keeps I panicM" "keeps I (liftM x)" "keeps I (getM g)"
  by (auto simp: keeps_def io_simps)

lemma keeps_if [keeps_intros]: "(c \<Longrightarrow> keeps I m) \<Longrightarrow> (\<not> c \<Longrightarrow> keeps I n) \<Longrightarrow> keeps I (if c then m else n)"
  by simp

lemma keeps_Let [keeps_intros]: "(\<And>x. keeps I (k x)) \<Longrightarrow> keeps I (Let v k)"
  by simp

lemma keeps_option [keeps_intros]:
  "keeps I m \<Longrightarrow> (\<And>v. keeps I (k v)) \<Longrightarrow> keeps I (case x of None \<Rightarrow> m | Some v \<Rightarrow> k v)"
  by (cases x) simp_all

lemma keeps_prod [keeps_intros]: "(\<And>a b. keeps I (k a b)) \<Longrightarrow> keeps I (case x of (a, b) \<Rightarrow> k a b)"
  by (cases x) simp

lemma keeps_foldM [keeps_intros]: "(\<And>x a. keeps I (g x a)) \<Longrightarrow> keeps I (foldM g xs a)"
  by (induction xs arbitrary: a) (auto intro: keeps_prims keeps_bind)

lemma keeps_catch [keeps_intros]:
  assumes "keeps I m" "\<And>e. keeps I (h e)"
  shows "keeps I (catchM m h)"
proof (rule keepsI)
  fix f d r f' d' assume I: "I f" and run: "catchM m h (f, d) = (r, f', d')"
  obtain r1 f1 d1 where m: "m (f, d) = (r1, f1, d1)" by (metis surj_pair)
  have I1: "I f1" using assms(1) I m by (rule keepsD)
  show "I f'"
  proof (cases r1)
    case (Err e)
    then have "h e (f1, d1) = (r, f', d')" using run m by (simp add: catchM_def)
    with assms(2) I1 show ?thesis by (rule keepsD)
  qed (use run m I1 in \<open>simp_all add: catchM_def\<close>)
qed

lemma keeps_or_reply [keeps_intros]:
  assumes "keeps I m" "\<And>v. keeps I (k v)"
  shows "keeps I (or_reply m e k)"
proof (rule keepsI)
  fix f d r f' d' assume I: "I f" and run: "or_reply m e k (f, d) = (r, f', d')"
  obtain r1 f1 d1 where m: "m (f, d) = (r1, f1, d1)" by (metis surj_pair)
  have I1: "I f1" using assms(1) I m by (rule keepsD)
  show "I f'"
  proof (cases r1)
    case (Ok v)
    then have "k v (f1, d1) = (r, f', d')" using run m by (simp add: or_reply_def)
    with assms(2) I1 show ?thesis by (rule keepsD)
  qed (use run m I1 in \<open>simp_all add: or_reply_def\<close>)
qed


section \<open>The invariant\<close>

text \<open>Two states of the same volume: they differ at most in counters, allocation hints and handles.\<close>

definition same_volume :: "format_v1 \<Rightarrow> format_v1 \<Rightarrow> bool" where
  "same_volume f g \<longleftrightarrow>
     fv_inode_handler g = fv_inode_handler f \<and> fv_directory_handler g = fv_directory_handler f \<and>
     (fv_superblock g)\<lparr>sb_free_inodes := 0, sb_free_data := 0\<rparr> = (fv_superblock f)\<lparr>sb_free_inodes := 0, sb_free_data := 0\<rparr> \<and>
     (fv_inode_allocator g)\<lparr>ba_last_alloc := 0\<rparr> = (fv_inode_allocator f)\<lparr>ba_last_alloc := 0\<rparr> \<and>
     (fv_block_allocator g)\<lparr>ba_last_alloc := 0\<rparr> = (fv_block_allocator f)\<lparr>ba_last_alloc := 0\<rparr>"

definition handles_ok :: "format_v1 \<Rightarrow> bool" where
  "handles_ok f \<longleftrightarrow> (\<forall>k m. fv_open_files f k = Some m \<longrightarrow> k < fv_next_file_id f)"

text \<open>
  What may have happened to the handles between two states: ids are given out in increasing order, a
  closed handle does not come back, and an open one keeps its inode and its mode.
\<close>

definition evolves :: "format_v1 \<Rightarrow> format_v1 \<Rightarrow> bool" where
  "evolves f g \<longleftrightarrow>
     same_volume f g \<and> handles_ok f \<and> handles_ok g \<and> fv_next_file_id f \<le> fv_next_file_id g \<and>
     (\<forall>k m'. fv_open_files g k = Some m' \<longrightarrow> k < fv_next_file_id f \<longrightarrow>
        (\<exists>m. fv_open_files f k = Some m \<and> fm_inode m' = fm_inode m \<and> fm_mode m' = fm_mode m))"

lemma evolves_refl: "handles_ok f \<Longrightarrow> evolves f f"
  by (simp add: evolves_def same_volume_def)

lemma evolves_trans:
  assumes "evolves f g" "evolves g h"
  shows "evolves f h"
proof -
  have "same_volume f h" using assms by (simp add: evolves_def same_volume_def)
  moreover have "fv_next_file_id f \<le> fv_next_file_id h" using assms unfolding evolves_def by (blast intro: order_trans)
  moreover have "\<exists>m. fv_open_files f k = Some m \<and> fm_inode m' = fm_inode m \<and> fm_mode m' = fm_mode m"
    if op: "fv_open_files h k = Some m'" and lt: "k < fv_next_file_id f" for k m'
  proof -
    have "k < fv_next_file_id g" using assms(1) lt unfolding evolves_def by (blast intro: order_less_le_trans)
    then obtain m1 where m1: "fv_open_files g k = Some m1" "fm_inode m' = fm_inode m1" "fm_mode m' = fm_mode m1"
      using assms(2) op unfolding evolves_def by blast
    then obtain m where "fv_open_files f k = Some m" "fm_inode m1 = fm_inode m" "fm_mode m1 = fm_mode m"
      using assms(1) lt unfolding evolves_def by blast
    with m1 show ?thesis by simp
  qed
  ultimately show ?thesis using assms unfolding evolves_def by blast
qed

lemma evolves_counts:
  "evolves f g \<Longrightarrow> evolves f (map_superblock (sb_free_data_update (\<lambda>_. x)) g)"
  "evolves f g \<Longrightarrow> evolves f (map_superblock (sb_free_inodes_update (\<lambda>_. x)) g)"
  by (simp_all add: evolves_def same_volume_def handles_ok_def)

lemma evolves_allocators:
  "al\<lparr>ba_last_alloc := 0\<rparr> = (fv_inode_allocator f1)\<lparr>ba_last_alloc := 0\<rparr> \<Longrightarrow> evolves f f1 \<Longrightarrow> evolves f g \<Longrightarrow>
   evolves f (g\<lparr>fv_inode_allocator := al\<rparr>)"
  "al\<lparr>ba_last_alloc := 0\<rparr> = (fv_block_allocator f1)\<lparr>ba_last_alloc := 0\<rparr> \<Longrightarrow> evolves f f1 \<Longrightarrow> evolves f g \<Longrightarrow>
   evolves f (g\<lparr>fv_block_allocator := al\<rparr>)"
  by (simp_all add: evolves_def same_volume_def handles_ok_def)

lemma allocate_same: "allocate ops al xs d = (Ok al', d') \<Longrightarrow> al'\<lparr>ba_last_alloc := 0\<rparr> = al\<lparr>ba_last_alloc := 0\<rparr>"
  by (auto simp: allocate_def bindM_eq_Ok returnM_def split: if_splits)

lemma deallocate_same: "deallocate ops al xs d = (Ok al', d') \<Longrightarrow> al'\<lparr>ba_last_alloc := 0\<rparr> = al\<lparr>ba_last_alloc := 0\<rparr>"
  by (auto simp: deallocate_def bindM_eq_Ok returnM_def)

lemma keeps_bind_dev:
  assumes "\<And>d v d'. m d = (Ok v, d') \<Longrightarrow> keeps I (k v)"
  shows "keeps I (bindM (dev m) k)"
proof (rule keepsI)
  fix f d r f' d' assume I: "I f" and run: "bindM (dev m) k (f, d) = (r, f', d')"
  obtain r1 d1 where m: "m d = (r1, d1)" by (metis surj_pair)
  then have dev: "dev m (f, d) = (r1, f, d1)" by (simp add: dev_def zoomM_def)
  show "I f'"
  proof (cases r1)
    case (Ok v)
    then have "k v (f, d1) = (r, f', d')" using run dev by (simp add: bindM_def)
    with assms m Ok I show ?thesis by (metis keepsD)
  qed (use run dev I in \<open>simp_all add: bindM_def\<close>)
qed

lemma keeps_allocate:
  "(\<And>al'. al'\<lparr>ba_last_alloc := 0\<rparr> = al\<lparr>ba_last_alloc := 0\<rparr> \<Longrightarrow> keeps I (k al')) \<Longrightarrow> keeps I (bindM (dev (allocate ops al xs)) k)"
  "(\<And>al'. al'\<lparr>ba_last_alloc := 0\<rparr> = al\<lparr>ba_last_alloc := 0\<rparr> \<Longrightarrow> keeps I (k al')) \<Longrightarrow> keeps I (bindM (dev (deallocate ops al xs)) k)"
  by (rule keeps_bind_dev, auto dest: allocate_same deallocate_same)+

lemmas keeps_first = keeps_self keeps_allocate evolves_counts evolves_allocators



section \<open>Every operation\<close>

text \<open>The state of one operation: \<open>evolves f0\<close>, for a fixed earlier state \<open>f0\<close>.\<close>

lemma keeps_set_offset [keeps_intros]: "keeps (evolves f0) (set_offset k off)"
  unfolding set_offset_def by (rule keeps_update) (auto simp: evolves_def same_volume_def handles_ok_def)

lemma keeps_close [keeps_intros]: "keeps (evolves f0) (close_file h)"
  unfolding close_file_def by (rule keeps_update) (auto simp: evolves_def same_volume_def handles_ok_def)

lemma evolves_open:
  assumes "evolves f0 f" "addW (fv_next_file_id f) 1 = Ok n"
  shows "evolves f0 (f\<lparr>fv_next_file_id := n, fv_open_files := (fv_open_files f)(fv_next_file_id f \<mapsto> m)\<rparr>)"
proof -
  have n: "unat n = unat (fv_next_file_id f) + 1" using assms(2) unfolding addW_eq_Ok by (metis unsigned_1)
  then have lt: "fv_next_file_id f < n" by (simp add: word_less_nat_alt)
  have "fv_next_file_id f0 \<le> fv_next_file_id f" using assms(1) by (simp add: evolves_def)
  then have le: "fv_next_file_id f0 \<le> n" using lt by simp
  show ?thesis
    using assms(1) lt le unfolding evolves_def same_volume_def handles_ok_def
    by (auto split: if_splits intro: order_less_trans)
qed

lemma new_handle_runs:
  "new_handle i (f, d) = (r, f', d') \<Longrightarrow>
   (\<exists>n. addW (fv_next_file_id f) 1 = Ok n \<and> r = Ok \<lparr>fh_id = fv_next_file_id f\<rparr> \<and> d' = d \<and>
     f' = f\<lparr>fv_next_file_id := n, fv_open_files := (fv_open_files f)(fv_next_file_id f \<mapsto> file_metadata_new i OM_ReadWrite)\<rparr>) \<or>
   (r = Panic \<and> f' = f \<and> d' = d)"
  by (cases "addW (fv_next_file_id f) 1")
    (auto simp: new_handle_def self_def update_def io_simps Let_def addW_def split: if_splits)

lemma keeps_new_handle [keeps_intros]: "keeps (evolves f0) (new_handle i)"
  by (rule keepsI) (auto dest!: new_handle_runs intro: evolves_open)

lemma keeps_write_superblock [keeps_intros]: "keeps I (write_superblock ops)"
  unfolding write_superblock_def by (intro keeps_first keeps_intros)

lemma keeps_fs_allocate [keeps_intros]: "keeps (evolves f0) (fs_allocate ops n k)"
  unfolding fs_allocate_def by (intro keeps_first keeps_intros)

lemma keeps_grow_file [keeps_intros]: "keeps (evolves f0) (grow_file ops i b)"
  unfolding grow_file_def by (intro keeps_first keeps_intros; simp)

lemma keeps_place_entry [keeps_intros]: "keeps I (place_entry ops i e fit xs n)"
  unfolding place_entry_def by (intro keeps_first keeps_intros)

lemma keeps_create_entry [keeps_intros]: "keeps (evolves f0) (create_entry ops now t e i n)"
  unfolding create_entry_def by (intro keeps_first keeps_intros)

lemma keeps_resolution [keeps_intros]:
  "keeps I (name_collision ops i e)" "keeps I (resolve_path ops path final)" "keeps I (get_inode ops n)"
  "keeps I (fs_write_inode ops n i)" "keeps I (get_directory_from_inode ops i n)" "keeps I (check_empty ops i p)"
  unfolding name_collision_def resolve_path_def get_inode_def fs_write_inode_def get_directory_from_inode_def check_empty_def
  by (intro keeps_first keeps_intros)+

lemma keeps_create [keeps_intros]:
  "keeps (evolves f0) (create ops now path t)" "keeps (evolves f0) (create_child ops now t name n)"
  unfolding create_def create_child_def by (intro keeps_first keeps_intros)+

lemma keeps_symlink [keeps_intros]:
  "keeps I (write_symlink ops now i n tgt)" "keeps I (read_symlink ops n buf)" "keeps I (edit_symlink ops now path tgt)"
  unfolding write_symlink_def read_symlink_def edit_symlink_def by (intro keeps_first keeps_intros)+

lemma keeps_link [keeps_intros]:
  "keeps (evolves f0) (link_entry ops now i n dst name p k)"
  unfolding link_entry_def by (intro keeps_first keeps_intros)

lemma keeps_hardlink [keeps_intros]:
  "keeps (evolves f0) (create_hardlink ops now src dst)" "keeps (evolves f0) (create_child_hardlink ops now i n dst p k)"
  unfolding create_hardlink_def create_child_hardlink_def by (intro keeps_first keeps_intros)+

lemma keeps_free_file [keeps_intros]: "keeps (evolves f0) (free_file ops i n)"
  unfolding free_file_def by (intro keeps_first keeps_intros)

lemma keeps_delete_entry [keeps_intros]: "keeps (evolves f0) (delete_entry ops now i n p k b off)"
  unfolding delete_entry_def by (intro keeps_first keeps_intros)

lemma keeps_delete [keeps_intros]:
  "keeps (evolves f0) (delete ops now path)" "keeps (evolves f0) (delete_child ops now name n t)"
  unfolding delete_def delete_child_def by (intro keeps_first keeps_intros)+

lemma keeps_read_loop [keeps_intros]: "keeps (evolves f0) (read_loop fuel ops k i buf n b off)"
proof (induction fuel arbitrary: buf n b off)
  case 0
  show ?case unfolding read_loop.simps by (rule keeps_prims)
next
  case (Suc fuel)
  show ?case unfolding read_loop.simps by (intro keeps_first keeps_intros Suc)
qed

lemma keeps_write_loop [keeps_intros]: "keeps (evolves f0) (write_loop fuel ops k i buf n b off dbuf)"
proof (induction fuel arbitrary: buf n b off dbuf)
  case 0
  show ?case unfolding write_loop.simps by (rule keeps_prims)
next
  case (Suc fuel)
  show ?case unfolding write_loop.simps by (intro keeps_first keeps_intros Suc)
qed

lemma keeps_seek_from [keeps_intros]:
  "(\<And>x. keeps I (a x)) \<Longrightarrow> (\<And>x. keeps I (b x)) \<Longrightarrow> (\<And>x. keeps I (c x)) \<Longrightarrow>
   keeps I (case pos of SeekStart x \<Rightarrow> a x | SeekEnd x \<Rightarrow> b x | SeekCurrent x \<Rightarrow> c x)"
  by (cases pos) simp_all

lemma keeps_file_exists [keeps_intros]: "keeps I (file_exists ops path)"
  unfolding file_exists_def by (intro keeps_first keeps_intros) (simp split: fs_error.split add: keeps_prims)

lemma keeps_files [keeps_intros]:
  "keeps (evolves f0) (open_file ops path)"
  "keeps (evolves f0) (open_file_from_inode ops n)" "keeps (evolves f0) (fs_read ops h buf)"
  "keeps (evolves f0) (fs_write ops now h buf)" "keeps (evolves f0) (seek ops h pos)"
  "keeps (evolves f0) (Format_V1.truncate ops now h sz)"
  unfolding open_file_def open_file_from_inode_def fs_read_def fs_write_def seek_def Format_V1.truncate_def
  by (intro keeps_first keeps_intros)+

lemma keeps_others [keeps_intros]:
  "keeps I (get_directory ops path b)" "keeps I (get_dir_entry_inode ops n name)" "keeps I free_space" "keeps I (fs_flush ops)"
  unfolding get_directory_def get_dir_entry_inode_def free_space_def fs_flush_def by (intro keeps_first keeps_intros)+

lemma keeps_content [keeps_intros]: "keeps I (get_directory_content ops path)"
  unfolding get_directory_content_def by (intro keeps_first keeps_intros)

lemma keeps_mapM [keeps_intros]: "keeps I m \<Longrightarrow> keeps I (mapM g m)"
  unfolding mapM_def by (intro keeps_intros)

lemma keeps_call: "keeps (evolves f0) (ffs_call_method (format_v1_methods ops now now') c)"
  by (cases c; simp only: ffs_call_method.simps format_v1_methods_def fs_format.simps create_file_def create_directory_def create_symlink_def;
      intro keeps_first keeps_intros)

lemma keeps_replies [keeps_intros]:
  "keeps I (reply_entry i n)" "(\<And>x. keeps I (k x)) \<Longrightarrow> keeps I (with_name name k)"
  unfolding reply_entry_def with_name_def by (intro keeps_intros; assumption)+

lemmas fuse_defs = fuse_getattr_def fuse_setattr_def fuse_opendir_def fuse_readdir_def fuse_mkdir_def fuse_lookup_def
  fuse_rmdir_def fuse_fsyncdir_def fuse_releasedir_def fuse_readlink_def fuse_symlink_def fuse_access_def fuse_mknod_def
  fuse_unlink_def fuse_link_def fuse_rename_def fuse_create_def fuse_open_def fuse_read_def fuse_write_def fuse_flush_def
  fuse_release_def fuse_fsync_def

lemma keeps_request: "keeps (evolves f0) (fuse_inner env ops q)"
  by (cases q; simp only: fuse_inner.simps fuse_defs; intro keeps_first keeps_intros)



section \<open>Sessions\<close>

text \<open>One call of the front end or one callback of FUSE, on any outcome.\<close>

inductive step :: "fuse_env \<Rightarrow> 'd block_ops \<Rightarrow> format_v1 \<times> 'd \<Rightarrow> format_v1 \<times> 'd \<Rightarrow> bool" for env ops where
  call: "ffs_call_method (format_v1_methods ops now now') c s = (r, s') \<Longrightarrow> step env ops s s'"
| request: "fuse_inner env ops q s = (r, s') \<Longrightarrow> step env ops s s'"

inductive_cases stepE: "step env ops (f, d) (f', d')"

lemma step_evolves: "step env ops (f, d) (f', d') \<Longrightarrow> handles_ok f \<Longrightarrow> evolves f f'"
  by (erule stepE) (auto intro: keepsD [OF keeps_call] keepsD [OF keeps_request] evolves_refl)

lemma steps_evolve:
  assumes "(step env ops)\<^sup>*\<^sup>* s s'" "handles_ok (fst s)"
  shows "evolves (fst s) (fst s')"
  using assms
proof (induction rule: rtranclp_induct)
  case base
  then show ?case by (rule evolves_refl)
next
  case (step y z)
  obtain f d f' d' where yz: "y = (f, d)" "z = (f', d')" by force
  have y: "evolves (fst s) f" using step yz by simp
  then have "handles_ok f" by (simp add: evolves_def)
  then have "evolves f f'" using step.hyps(2) yz by (auto intro: step_evolves)
  with y yz show ?case by (auto intro: evolves_trans)
qed

lemma mount_handles:
  assumes "mount ops d = (Ok f, d')"
  shows "handles_ok f"
proof -
  from assms obtain sb where "format_of sb = Ok f"
    by (auto simp: mount_def bindM_eq_Ok liftM_def throwM_def split: if_splits)
  then show ?thesis by (auto simp: format_of_def bindR_eq_Ok handles_ok_def)
qed

lemma open_file_fresh: "open_file ops path (f, d) = (Ok h, s) \<Longrightarrow> fh_id h = fv_next_file_id f"
  by (cases s, auto simp: open_file_def resolve_path_def bindM_eq_Ok self_def getM_def dev_def zoomM_def throwM_def
      split: if_splits prod.splits dest!: new_handle_runs)

text \<open>
  C12. Whatever is called after a mount, through the front end or through FUSE, in whatever order and
  with whatever outcome: the geometry of the volume in memory never changes; every open handle is
  below the counter of ids; a handle that was closed does not come back and one that stayed open
  keeps its inode and mode; and a file that is opened gets a handle that no open file has or had at
  any earlier point of the session.
\<close>

theorem session_invariant:
  assumes mnt: "mount ops d = (Ok f0, d0)"
    and pre: "(step env ops)\<^sup>*\<^sup>* (f0, d0) (f, d1)" and post: "(step env ops)\<^sup>*\<^sup>* (f, d1) (f', d2)"
  shows "same_volume f0 f' \<and> handles_ok f' \<and>
    (\<forall>k m'. fv_open_files f' k = Some m' \<longrightarrow> k < fv_next_file_id f \<longrightarrow>
       (\<exists>m. fv_open_files f k = Some m \<and> fm_inode m' = fm_inode m \<and> fm_mode m' = fm_mode m)) \<and>
    (\<forall>path h s. open_file ops path (f', d2) = (Ok h, s) \<longrightarrow>
       fv_open_files f (fh_id h) = None \<and> fv_open_files f' (fh_id h) = None)"
proof -
  have e0: "evolves f0 f" using steps_evolve [OF pre] mount_handles [OF mnt] by simp
  then have h: "handles_ok f" by (simp add: evolves_def)
  have e1: "evolves f f'" using steps_evolve [OF post] h by simp
  have e2: "evolves f0 f'" using e0 e1 by (rule evolves_trans)
  have "fv_open_files f (fh_id x) = None \<and> fv_open_files f' (fh_id x) = None"
    if "open_file ops path (f', d2) = (Ok x, s)" for path x s
  proof -
    have id: "fh_id x = fv_next_file_id f'" by (rule open_file_fresh [OF that])
    have "\<not> fh_id x < fv_next_file_id f'" "\<not> fh_id x < fv_next_file_id f"
      using e1 unfolding id evolves_def by auto
    then show ?thesis using e1 unfolding evolves_def handles_ok_def by (metis not_Some_eq)
  qed
  with e1 e2 show ?thesis unfolding evolves_def by blast
qed

theorem session_invariant_witness:
  "\<exists>d1 f0 d0 f. format mem_ops 9 (mem_empty 16) = (Ok (), d1) \<and> mount mem_ops d1 = (Ok f0, d0) \<and>
    (step linux_env mem_ops)\<^sup>*\<^sup>* (f0, d0) (f, d0) \<and> handles_ok f"
proof -
  obtain d1 f0 d0 where d1: "format mem_ops 9 (mem_empty 16) = (Ok (), d1)" and m: "mount mem_ops d1 = (Ok f0, d0)"
    using fresh_mem by metis
  let ?f = "f0\<lparr>fv_open_files := (fv_open_files f0)(3 := None)\<rparr>"
  have "ffs_call_method (format_v1_methods mem_ops 1 2) (C_close_file \<lparr>fh_id = 3\<rparr>) (f0, d0) = (Ok V_unit, ?f, d0)"
    by (simp add: format_v1_methods_def mapM_def close_file_def update_def io_simps)
  then have "(step linux_env mem_ops)\<^sup>*\<^sup>* (f0, d0) (?f, d0)" by (blast intro: step.call)
  from session_invariant [OF m this rtranclp.rtrancl_refl] this d1 m show ?thesis by blast
qed

end
