(* ===== verification/Termination.thy ===== *)
theory Termination
  imports Session
begin

text \<open>
  Termination. Three loops of the code are modelled with a result \<open>Diverge\<close> for not ending: the
  copying loops of \<open>read\<close> and \<open>write\<close> (fuel), and the walks of a directory block that trust the record
  lengths on the device (\<open>free_region\<close>, \<open>iterate_block_unchecked\<close>). \<open>ends r\<close> says that a result is not
  \<open>Diverge\<close>, \<open>returns m\<close> that no run of \<open>m\<close> gives it. Over a device whose accesses return, every operation
  returns, from every state and whatever the device holds, except the ones that walk a block unchecked.
\<close>

named_theorems ends_intros \<open>rules for results that are not \<open>Diverge\<close>\<close>
named_theorems returns_intros \<open>rules for computations that return\<close>

definition ends :: "'a res \<Rightarrow> bool" where "ends r \<longleftrightarrow> r \<noteq> Diverge"

definition returns :: "('s, 'a) io \<Rightarrow> bool" where "returns m \<longleftrightarrow> (\<forall>s. ends (fst (m s)))"

lemma returnsD: "returns m \<Longrightarrow> m s = (r, s') \<Longrightarrow> ends r"
  unfolding returns_def by (metis fst_conv)


section \<open>Results\<close>

lemma ends_prims [ends_intros]: "ends (Ok v)" "ends (Err e)" "ends Panic"
  by (simp_all add: ends_def)

lemma ends_bindR [ends_intros]: "ends r \<Longrightarrow> (\<And>v. r = Ok v \<Longrightarrow> ends (k v)) \<Longrightarrow> ends (bindR r k)"
  by (cases r) (auto simp: ends_def)

lemma ends_cases [ends_intros]:
  "(c \<Longrightarrow> ends r) \<Longrightarrow> (\<not> c \<Longrightarrow> ends r') \<Longrightarrow> ends (if c then r else r')"
  "(\<And>x. ends (k x)) \<Longrightarrow> ends (Let v k)"
  "(\<And>a b. ends (g a b)) \<Longrightarrow> ends (case p of (a, b) \<Rightarrow> g a b)"
  "ends r \<Longrightarrow> (\<And>v. ends (h v)) \<Longrightarrow> ends (case x of None \<Rightarrow> r | Some v \<Rightarrow> h v)"
  by (auto split: prod.split option.split)

lemma ends_unwrap [ends_intros]: "ends (unwrap x)"
  by (cases x) (simp_all add: unwrap_def ends_def)

lemma ends_arith [ends_intros]:
  "ends (addW x y)" "ends (subW x y)" "ends (mulW x y)" "ends (subN a b)" "ends (sliceR xs i n)" "ends (spliceR xs i ys)"
  "ends (indexR xs i)" "ends (updateR xs i v)" "ends (add_i64 j k)"
  by (simp_all add: ends_def addW_def subW_def mulW_def subN_def sliceR_def spliceR_def indexR_def updateR_def
      add_i64_def Let_def)

lemma ends_fields [ends_intros]: "ends (write_fields buf off fs)" "ends (read_fields buf off ns)"
  by (induction buf off fs rule: write_fields.induct; simp; intro ends_intros; assumption)
    (induction buf off ns rule: read_fields.induct; simp; intro ends_intros; assumption)

lemma ends_codecs [ends_intros]:
  "ends (superblock_serialize sb buf)" "ends (superblock_deserialize buf)" "ends (inode_serialize i buf)"
  "ends (inode_deserialize buf)" "ends (dir_entry_serialize e buf off)" "ends (dir_entry_deserialize buf off)"
  "ends (min_record_len n)" "ends (get_index a b c)" "ends (blocks_necessary_to_grow_n i k)"
  unfolding superblock_serialize_def superblock_deserialize_def inode_serialize_def inode_deserialize_def
    dir_entry_serialize_def dir_entry_deserialize_def min_record_len_def get_index_def blocks_necessary_to_grow_n_def
  by (intro ends_intros)+

lemma ends_entries [ends_intros]:
  "ends (dir_entry_new n t name)" "ends (blocks_necessary_to_grow i)"
  unfolding dir_entry_new_def blocks_necessary_to_grow_def by (intro ends_intros)+

lemma ends_directory_new [ends_intros]: "ends (directory_new i p)"
  unfolding directory_new_def by (intro ends_intros)

lemma ends_layout [ends_intros]: "ends (validate_layout es off n)"
  by (induction es off n rule: validate_layout.induct) (simp add: ends_def, simp add: Let_def ends_prims)

lemma ends_format [ends_intros]:
  "ends (entry_blocks i fit n)" "ends (file_blocks t)" "ends (initial_size t i)" "ends (data_address f i b k)"
  "ends (content_entry e)"
  unfolding entry_blocks_def data_address_def content_entry_def file_blocks_def initial_size_def
  by (intro ends_intros; fail | cases t; simp; intro ends_intros)+

lemma ends_fuse [ends_intros]:
  "ends (to_v1_inode_number ino)" "ends (from_v1_inode_number n)" "ends (secs_since_epoch t)" "ends (epoch_plus s)"
  unfolding to_v1_inode_number_def from_v1_inode_number_def secs_since_epoch_def epoch_plus_def by (intro ends_intros)+

lemma ends_attr [ends_intros]: "ends (file_attr_from_inode i ino)" "ends (set_times now mtime ctime i)"
  unfolding file_attr_from_inode_def set_times_def by (intro ends_intros)+

lemma ends_readdir [ends_intros]: "ends (readdir_loop env off es added)"
proof (induction es arbitrary: off added)
  case Nil
  show ?case by (simp add: ends_prims)
next
  case (Cons e es)
  show ?case by (simp only: readdir_loop.simps) (intro ends_intros Cons)
qed

text \<open>The checked walk of a block ends for every callback: a zero-length record is an error.\<close>

lemma ends_iter_block [ends_intros]:
  assumes "\<And>e b off a. ends (g e b off a)"
  shows "ends (iter_block g buf b off a)"
proof (induction "BLOCK_SIZE - off" arbitrary: off a rule: less_induct)
  case less
  show ?case
    by (subst iter_block.simps) (intro ends_intros assms less; simp)
qed


section \<open>Computations\<close>

lemma returns_prims [returns_intros]:
  "returns (returnM v)" "returns (throwM e)" "returns panicM" "returns (getM g)" "returns (modifyM h)"
  by (simp_all add: returns_def io_simps ends_def)

lemma returns_liftM [returns_intros]: "ends r \<Longrightarrow> returns (liftM r)"
  by (simp add: returns_def liftM_def)

lemma returns_bind_lift:
  "ends r \<Longrightarrow> (\<And>v. r = Ok v \<Longrightarrow> returns (k v)) \<Longrightarrow> returns (bindM (liftM r) k)"
  by (cases r) (auto simp: returns_def io_simps ends_def)

lemma returns_bind [returns_intros]:
  assumes "returns m" "\<And>v. returns (k v)"
  shows "returns (bindM m k)"
  unfolding returns_def
proof
  fix s
  obtain r s' where m: "m s = (r, s')" by (metis surj_pair)
  have "ends r" using assms(1) m by (rule returnsD)
  with m show "ends (fst (bindM m k s))"
    using assms(2) by (cases r) (auto simp: bindM_def ends_def returns_def)
qed

lemma returns_cases [returns_intros]:
  "(c \<Longrightarrow> returns m) \<Longrightarrow> (\<not> c \<Longrightarrow> returns m') \<Longrightarrow> returns (if c then m else m')"
  "(\<And>x. returns (k x)) \<Longrightarrow> returns (Let v k)"
  "(\<And>a b. returns (g a b)) \<Longrightarrow> returns (case p of (a, b) \<Rightarrow> g a b)"
  "returns m \<Longrightarrow> (\<And>v. returns (h v)) \<Longrightarrow> returns (case x of None \<Rightarrow> m | Some v \<Rightarrow> h v)"
  by (auto split: prod.split option.split)

lemma returns_ctl [returns_intros]:
  "(\<And>a. returns (f a)) \<Longrightarrow> (\<And>a. returns (g a)) \<Longrightarrow> (\<And>r. returns (h r)) \<Longrightarrow>
   returns (case c of Cont a \<Rightarrow> f a | Brk a \<Rightarrow> g a | Ret r \<Rightarrow> h r)"
  by (cases c) simp_all

lemma returns_loops [returns_intros]:
  assumes "\<And>x a. returns (g x a)"
  shows "returns (foldM g xs a)"
  by (induction xs arbitrary: a) (auto intro: returns_intros assms)

lemma returns_loopM [returns_intros]:
  assumes "\<And>x a. returns (g x a)"
  shows "returns (loopM g xs a)"
  by (induction xs arbitrary: a) (auto intro!: returns_intros assms)

lemma returns_zoom [returns_intros]: "returns m \<Longrightarrow> returns (zoomM get put m)"
  by (auto simp: returns_def zoomM_def split: prod.split dest: spec) (metis fst_conv)

lemma returns_catch [returns_intros]:
  assumes "returns m" "\<And>e. returns (h e)"
  shows "returns (catchM m h)"
  unfolding returns_def
proof
  fix s
  obtain r s' where m: "m s = (r, s')" by (metis surj_pair)
  have "ends r" using assms(1) m by (rule returnsD)
  with m show "ends (fst (catchM m h s))"
    using assms(2) by (cases r) (auto simp: catchM_def ends_def returns_def)
qed

lemma returns_or_reply [returns_intros]:
  assumes "returns m" "\<And>v. returns (k v)"
  shows "returns (or_reply m e k)"
  unfolding returns_def
proof
  fix s
  obtain r s' where m: "m s = (r, s')" by (metis surj_pair)
  have "ends r" using assms(1) m by (rule returnsD)
  with m show "ends (fst (or_reply m e k s))"
    using assms(2) by (cases r) (auto simp: or_reply_def ends_def returns_def)
qed

lemma returns_state [returns_intros]: "returns self" "returns (update g)" "returns m \<Longrightarrow> returns (dev m)"
  unfolding self_def update_def dev_def by (intro returns_intros; assumption)+

lemma returns_mapM [returns_intros]: "returns m \<Longrightarrow> returns (mapM g m)"
  unfolding mapM_def by (intro returns_intros)

lemma returns_replies [returns_intros]:
  "returns (reply_entry i n)" "(\<And>x. returns (k x)) \<Longrightarrow> returns (with_name name k)"
  unfolding reply_entry_def with_name_def by (intro returns_intros ends_intros; assumption)+


section \<open>Devices whose accesses return\<close>

text \<open>The calls and callbacks that free a region of a directory block or walk it unchecked.\<close>

definition walks_unchecked :: "ffs_call \<Rightarrow> bool" where
  "walks_unchecked c \<longleftrightarrow> (case c of C_delete _ \<Rightarrow> True | C_check_integrity \<Rightarrow> True | _ \<Rightarrow> False)"

definition frees_entry :: "fuse_request \<Rightarrow> bool" where
  "frees_entry q \<longleftrightarrow>
     (case q of Q_rmdir _ _ _ \<Rightarrow> True | Q_unlink _ _ _ \<Rightarrow> True | Q_rename _ _ _ _ _ _ _ \<Rightarrow> True | _ \<Rightarrow> False)"

locale terminating_device =
  fixes ops :: "'d block_ops"
  assumes read_returns: "returns (read_block ops i)"
    and write_returns: "returns (write_block ops i buf)"
    and flush_returns: "returns (flush ops)"
begin

lemmas access = read_returns write_returns flush_returns

lemma inode_table: "returns (write_inode ops h n i)" "returns (read_inode ops h n)"
  unfolding write_inode_def read_inode_def by (intro returns_intros ends_intros access)+

lemma pointers:
  "returns (write_indirect ops h i b pool k n)" "returns (write_double_indirect ops h i b pool k n)"
  "returns (resolve_indirect ops h a n)" "returns (resolve_double ops h a n)"
  unfolding write_indirect_def write_double_indirect_def resolve_indirect_def resolve_double_def
  by (intro returns_intros ends_intros access)+

lemma inode_blocks: "returns (get_block ops h i k)" "returns (place_block ops h pool b ip)"
  unfolding get_block_def place_block_def by (intro returns_intros ends_intros pointers)+

lemma growing: "returns (add_blocks ops h i bs pool)" "returns (add_block ops h i b pool)"
  unfolding add_blocks_def add_block_def by (intro returns_intros ends_intros inode_blocks)+

lemma scans: "returns (scan_block al num i buf js res)"
  unfolding scan_block_def scan_byte_def scan_bit_def by (intro returns_intros ends_intros)

lemma searches: "returns (find_free ops al n)" "returns (is_allocated ops al b)"
  unfolding find_free_def find_free_restart_def is_allocated_def by (intro returns_intros ends_intros access scans)+

lemma modifications: "returns (modify ops al bs g)"
  unfolding modify_def modify_step_def write_cached_def by (intro returns_intros ends_intros access)

lemma bitmap: "returns (allocate ops al bs)" "returns (deallocate ops al bs)"
  unfolding allocate_def deallocate_def by (intro returns_intros ends_intros modifications)+

lemmas structures = access inode_table inode_blocks growing searches bitmap

lemma directory_walk:
  assumes "\<And>e b off a. ends (g e b off a)"
  shows "returns (iterate ops dh i ih g a)"
  unfolding iterate_def by (intro returns_intros ends_intros structures assms)

lemma directories:
  "returns (find_entry ops dh i ih name)" "returns (can_fit ops dh i ih e)" "returns (get_entries ops dh i ih fr)"
  "returns (write_directory_with_inode ops dh y i ih)" "returns (add_entry_here ops dh e b off)"
  "returns (add_entry_grow ops dh e b)"
  unfolding find_entry_def can_fit_def get_entries_def write_directory_with_inode_def write_entry_def add_entry_here_def
    add_entry_grow_def
  by (intro directory_walk returns_intros ends_intros structures)+

lemma symlinks: "returns (symlink_target ops dh i)"
  unfolding symlink_target_def by (intro returns_intros ends_intros structures)

text \<open>Path resolution: at most forty symbolic links are followed inside each other.\<close>

lemma resolve_loop_returns:
  assumes "it < 40 \<Longrightarrow> (\<And>path src final. returns (resolve_at ops dh ih (it + 1) path src final))"
  shows "returns (resolve_loop ops dh ih it cs final progress st)"
proof (induction cs arbitrary: progress st)
  case Nil
  show ?case by (simp add: resolve_loop.simps returns_prims)
next
  case (Cons c cs)
  show ?case
    by (subst resolve_loop.simps) (intro returns_intros ends_intros structures directories symlinks assms Cons; simp)
qed

lemma resolve_at_returns: "returns (resolve_at ops dh ih it path src final)"
proof (induction "41 - it" arbitrary: it path src final rule: less_induct)
  case less
  have "returns (resolve_loop ops dh ih it cs final' progress st)" for cs final' progress st
    by (rule resolve_loop_returns) (rule less; simp)
  then show ?case by (subst resolve_at.simps) (intro returns_intros structures)
qed

lemma resolution:
  "returns (resolve_path ops path final)" "returns (name_collision ops i e)" "returns (get_inode ops n)"
  "returns (fs_write_inode ops n i)" "returns (get_directory_from_inode ops i n)"
  unfolding resolve_path_def resolve_def name_collision_def get_inode_def fs_write_inode_def get_directory_from_inode_def
  by (intro returns_intros resolve_at_returns structures directories)+

lemmas lookups = structures directories symlinks resolution

lemma counters: "returns (write_superblock ops)" "returns (fs_allocate ops k n)"
  unfolding fs_allocate_def write_superblock_def by (intro returns_intros ends_intros structures)+

lemma placing: "returns (place_entry ops i e fit bs k)" "returns (grow_file ops i b)" "returns (new_handle n)"
  unfolding place_entry_def grow_file_def new_handle_def by (intro returns_intros ends_intros structures directories counters)+

lemma entries:
  "returns (create_entry ops now t e i n)" "returns (link_entry ops now i n dst name p k)"
  "returns (write_symlink ops now i n tgt)" "returns (read_symlink ops n buf)"
  unfolding create_entry_def link_entry_def write_symlink_def read_symlink_def
  by (intro returns_intros ends_intros lookups counters placing)+

lemma creation:
  "returns (create ops now path t)" "returns (create_child ops now t name n)" "returns (create_hardlink ops now src dst)"
  "returns (create_child_hardlink ops now i n dst p k)"
  unfolding create_def create_child_def create_hardlink_def create_child_hardlink_def
  by (intro returns_intros ends_intros lookups entries)+

text \<open>
  The copying loops: every iteration copies at least one byte, so fuel beyond the bytes that are left
  is never used up.
\<close>

lemma room_left: "subN BLOCK_SIZE off = Ok x \<Longrightarrow> off < BLOCK_SIZE \<Longrightarrow> 0 < x"
  by (auto simp: subN_def split: if_splits)

lemma shrinks: "m - n < Suc fuel \<Longrightarrow> n < m \<Longrightarrow> 0 < t \<Longrightarrow> m - (n + t) < fuel"
  by linarith

lemma gap_pos: "(a :: u64) < b \<Longrightarrow> 0 < unat (b - a)"
  by (simp add: unat_gt_0)

lemma length_spliceR: "spliceR xs k ys = Ok zs \<Longrightarrow> length zs = length xs"
  by (auto simp: spliceR_def split: if_splits)

lemma read_loop_returns:
  "length buf - n < fuel \<Longrightarrow> off < BLOCK_SIZE \<Longrightarrow> returns (read_loop fuel ops k i buf n b off)"
proof (induction fuel arbitrary: buf n b off)
  case 0
  then show ?case by simp
next
  case (Suc fuel)
  have progress: "length buf' - (n + min (min x (length buf - n)) (unat (sz - pos))) < fuel"
    if "n < length buf \<and> pos < sz" "subN BLOCK_SIZE off = Ok x" "spliceR buf n c = Ok buf'" for buf' x c and sz pos :: u64
    unfolding length_spliceR [OF that(3)]
    using that(1) Suc.prems(1) gap_pos [of pos sz] room_left [OF that(2) Suc.prems(2)] by (intro shrinks) simp_all
  show ?case
    unfolding read_loop.simps Let_def set_offset_def
    by (intro returns_bind_lift returns_intros ends_intros structures Suc.IH; (rule progress; assumption)?) (simp add: BLOCK_SIZE_def)
qed

lemma write_loop_returns:
  "length buf - n < fuel \<Longrightarrow> off < BLOCK_SIZE \<Longrightarrow> returns (write_loop fuel ops k i buf n b off dbuf)"
proof (induction fuel arbitrary: n b off dbuf)
  case 0
  then show ?case by simp
next
  case (Suc fuel)
  have progress: "length buf - (n + min x (length buf - n)) < fuel"
    if "n < length buf \<and> b < in_blocks i" "subN BLOCK_SIZE off = Ok x" for x
    using that(1) Suc.prems(1) room_left [OF that(2) Suc.prems(2)] by (intro shrinks) simp_all
  show ?case
    unfolding write_loop.simps Let_def set_offset_def
    by (intro returns_bind_lift returns_intros ends_intros structures Suc.IH; (rule progress; assumption)?) (simp add: BLOCK_SIZE_def)
qed

lemma seek_cases:
  "(\<And>x. returns (a x)) \<Longrightarrow> (\<And>x. returns (b x)) \<Longrightarrow> (\<And>x. returns (c x)) \<Longrightarrow>
   returns (case pos of SeekStart x \<Rightarrow> a x | SeekEnd x \<Rightarrow> b x | SeekCurrent x \<Rightarrow> c x)"
  by (cases pos) simp_all

lemma files:
  "returns (fs_read ops h buf)" "returns (fs_write ops now h buf)" "returns (seek ops h pos)"
  "returns (Format_V1.truncate ops now h sz)" "returns (close_file h)"
  unfolding fs_read_def fs_write_def seek_def Format_V1.truncate_def set_offset_def close_file_def
  by (intro seek_cases read_loop_returns write_loop_returns returns_intros ends_intros lookups counters placing;
      simp add: BLOCK_SIZE_def)+

lemma paths:
  "returns (open_file ops path)" "returns (open_file_from_inode ops n)" "returns (file_exists ops path)"
  "returns (edit_symlink ops now path tgt)" "returns (get_directory ops path fr)" "returns (get_dir_entry_inode ops n name)"
  unfolding open_file_def open_file_from_inode_def file_exists_def edit_symlink_def get_directory_def get_dir_entry_inode_def
  by (intro returns_intros ends_intros lookups entries placing; simp split: fs_error.split add: returns_prims)+

lemma content: "returns (get_directory_content ops path)" "returns free_space" "returns (fs_flush ops)"
  unfolding get_directory_content_def free_space_def fs_flush_def by (intro returns_intros ends_intros paths access)+

lemma mounting: "returns (format ops now)" "returns (mount ops)"
  unfolding format_def mount_def format_sizes_def superblock_new_def zero_blocks_def format_of_def
  by (intro returns_intros ends_intros structures directories)+

lemmas operations = creation entries files paths content

lemma call: "\<not> walks_unchecked c \<Longrightarrow> returns (ffs_call_method (format_v1_methods ops now now') c)"
  by (cases c; simp only: ffs_call_method.simps format_v1_methods_def fs_format.simps create_file_def create_directory_def
      create_symlink_def; (intro operations returns_intros)?; simp add: walks_unchecked_def)

lemma request: "\<not> frees_entry q \<Longrightarrow> returns (fuse_inner env ops q)"
  by (cases q; simp only: fuse_inner.simps fuse_defs; (intro operations lookups returns_intros ends_intros)?;
      simp add: frees_entry_def)

text \<open>A cache over a device whose accesses return is such a device.\<close>

lemma cache_steps: "returns (cache_modify k g)" "returns (cached_touch b e g)" "returns (miss_update b)"
proof -
  show m: "returns (cache_modify k g)" for k g
    by (simp add: returns_def cache_modify_def ends_def split: option.split)
  show "returns (cached_touch b e g)" "returns (miss_update b)"
    unfolding cached_touch_def miss_update_def by (intro returns_intros m)+
qed

lemma cache_access:
  "returns (cached_read_block ops b)" "returns (cached_write_block ops b buf)" "returns (cached_flush ops ord)"
  unfolding cached_read_block_def cached_write_block_def cached_insert_def evict_lru_def cached_flush_def flush_entry_def
  by (intro returns_intros ends_intros access cache_steps)+

lemma cached_device: "terminating_device (cached_ops ops ord)"
  by unfold_locales (simp_all add: cache_access)

end

interpretation mem_terminates: terminating_device mem_ops
  by unfold_locales
    (auto simp: mem_ops_def returns_def mem_read_block_def mem_write_block_def mem_flush_def ends_def indexR_def
      split: res.split)

interpretation file_terminates: terminating_device file_ops
proof
  have "returns (hf_seek n)" "returns (hf_read_exact n)" "returns (hf_write_all buf)" for n buf
    by (simp_all add: returns_def ends_def hf_seek_def hf_read_exact_def hf_write_all_def)
  note host = this
  have "returns (bindM (on_file (hf_seek m)) (\<lambda>_. on_file (hf_read_exact n)))"
    "returns (bindM (on_file (hf_seek m)) (\<lambda>_. on_file (hf_write_all buf)))" for m n buf
    by (intro returns_intros host)+
  then show "returns (read_block file_ops i)" "returns (write_block file_ops i buf)" for i buf
    by (simp_all add: file_ops_def returns_def file_read_block_def file_write_block_def ends_def)
  show "returns (flush file_ops)" by (simp add: file_ops_def returns_def file_flush_def ends_def)
qed

interpretation cached_terminates: terminating_device "cached_ops file_ops ord" for ord
  by (rule file_terminates.cached_device)


section \<open>Calls and callbacks return\<close>

text \<open>
  C17. Over a device whose accesses return, formatting, mounting, every call of the front end but
  \<open>delete\<close> and \<open>check_integrity\<close>, and every FUSE callback but \<open>rmdir\<close>, \<open>unlink\<close> and \<open>rename\<close> return,
  from every state of the format and whatever the device holds: with a value, an error or a panic.
\<close>

theorem operations_return:
  assumes "terminating_device ops"
  shows "fst (format ops now d) \<noteq> Diverge \<and> fst (mount ops d) \<noteq> Diverge \<and>
    (\<forall>c s. \<not> walks_unchecked c \<longrightarrow> fst (ffs_call_method (format_v1_methods ops now now') c s) \<noteq> Diverge) \<and>
    (\<forall>q s. \<not> frees_entry q \<longrightarrow> fst (fuse_inner env ops q s) \<noteq> Diverge)"
  using terminating_device.call [OF assms] terminating_device.request [OF assms] terminating_device.mounting [OF assms]
  unfolding returns_def ends_def by blast

theorem operations_return_witness:
  "\<forall>f :: format_v1. fst (ffs_call_method (format_v1_methods (cached_ops file_ops (\<lambda>m. [])) 3 4) (C_open_file [47, 97])
     (f, cached_new (file_from_file (create_disk_file 16)) 4)) \<noteq> Diverge \<and> \<not> walks_unchecked (C_open_file [47, 97])"
proof -
  have w: "\<not> walks_unchecked (C_open_file [47, 97])" by (simp add: walks_unchecked_def)
  with operations_return [OF cached_terminates.terminating_device_axioms] show ?thesis by blast
qed


section \<open>The unchecked walk\<close>








end
