(* ===== verification/Allocation.thy ===== *)
theory Allocation
  imports File_Write
begin

text \<open>
  \<open>allocate\<close> of the format: inodes and data blocks are taken from the two bitmaps, the counters of the
  superblock go down by as many, and the superblock is written. \<open>reserve_format\<close> and \<open>reserve_blocks\<close>
  are the state of the format and the contents of the device afterwards.
\<close>

definition take_alloc :: "bitmap_allocator \<Rightarrow> u32 list \<Rightarrow> bitmap_allocator" where
  "take_alloc al xs = (if xs = [] then al else al\<lparr>ba_last_alloc := last xs\<rparr>)"

definition reserve_format :: "format_v1 \<Rightarrow> u32 list \<Rightarrow> u32 list \<Rightarrow> format_v1" where
  "reserve_format f xs ys =
     f\<lparr>fv_inode_allocator := take_alloc (fv_inode_allocator f) xs,
       fv_block_allocator := take_alloc (fv_block_allocator f) ys,
       fv_superblock := (fv_superblock f)\<lparr>sb_free_data := sb_free_data (fv_superblock f) - of_nat (length ys),
         sb_free_inodes := sb_free_inodes (fv_superblock f) - of_nat (length xs)\<rparr>\<rparr>"

definition reserve_blocks :: "format_v1 \<Rightarrow> bytes list \<Rightarrow> u32 list \<Rightarrow> u32 list \<Rightarrow> bytes list" where
  "reserve_blocks f bs xs ys =
     (foldl (upd_bit (fv_block_allocator f) set_op) (foldl (upd_bit (fv_inode_allocator f) set_op) bs xs) ys)
       [0 := super_image (fv_superblock (reserve_format f xs ys))]"

text \<open>The first free inodes and blocks ahead of the last allocation.\<close>

definition first_free :: "bitmap_allocator \<Rightarrow> bytes list \<Rightarrow> nat \<Rightarrow> u32 list" where
  "first_free al bs k = map of_nat (take k (ahead al bs))"

lemma first_free_props:
  assumes "x \<in> set (first_free al bs k)"
  shows "unat x < unat (ba_max_index al)" "\<not> bit_at al bs (unat x)" "unat x < unat (ba_size al) * 2048"
proof -
  from assms obtain y where y: "y \<in> set (ahead al bs)" "x = of_nat y"
    unfolding first_free_def by (auto dest: in_set_takeD)
  with ahead_props(3) [OF y(1)] show "unat x < unat (ba_max_index al)" "\<not> bit_at al bs (unat x)"
    "unat x < unat (ba_size al) * 2048" by (simp_all add: unat_of_ahead)
qed

lemma length_first_free: "k \<le> length (ahead al bs) \<Longrightarrow> length (first_free al bs k) = k"
  by (simp add: first_free_def)

lemma distinct_first_free: "distinct (first_free al bs k)"
proof -
  have "map unat (first_free al bs k) = take k (ahead al bs)"
    unfolding first_free_def by (rule unat_image_ahead) (rule set_take_subset)
  then show ?thesis using ahead_props(2) [of al bs] by (metis distinct_map distinct_take)
qed

lemma reserve_format_simps [simp]:
  "fv_inode_handler (reserve_format f xs ys) = fv_inode_handler f"
  "fv_directory_handler (reserve_format f xs ys) = fv_directory_handler f"
  "fv_open_files (reserve_format f xs ys) = fv_open_files f"
  "fv_next_file_id (reserve_format f xs ys) = fv_next_file_id f"
  "bit_at (fv_inode_allocator (reserve_format f xs ys)) = bit_at (fv_inode_allocator f)"
  "bit_at (fv_block_allocator (reserve_format f xs ys)) = bit_at (fv_block_allocator f)"
  by (auto simp: reserve_format_def take_alloc_def bit_at_def fun_eq_iff)

lemma length_reserve_blocks [simp]: "length (reserve_blocks f bs xs ys) = length bs"
  by (simp add: reserve_blocks_def)

lemma wf_reserve_blocks: "wf_blocks bs \<Longrightarrow> wf_blocks (reserve_blocks f bs xs ys)"
  by (simp add: reserve_blocks_def)

abbreviation in_range :: "bitmap_allocator \<Rightarrow> u32 list \<Rightarrow> bool" where
  "in_range al xs \<equiv> \<forall>x \<in> set xs. unat x < unat (ba_size al) * 2048"

lemma reserve_mounted:
  assumes "mounted f bs" "in_range (fv_inode_allocator f) xs" "in_range (fv_block_allocator f) ys"
  shows "mounted (reserve_format f xs ys) (reserve_blocks f bs xs ys)"
proof (rule mountedI [OF assms(1)])
  show "\<exists>l. fv_inode_allocator (reserve_format f xs ys) = (fv_inode_allocator f)\<lparr>ba_last_alloc := l\<rparr> \<and>
      unat l < unat (ba_size (fv_inode_allocator f)) * 2048"
    using mounted_ok(4) [OF assms(1)] assms(2)
    by (cases "xs = []") (auto simp: reserve_format_def take_alloc_def intro: exI [of _ "ba_last_alloc (fv_inode_allocator f)"])
  show "\<exists>l. fv_block_allocator (reserve_format f xs ys) = (fv_block_allocator f)\<lparr>ba_last_alloc := l\<rparr> \<and>
      unat l < unat (ba_size (fv_block_allocator f)) * 2048"
    using mounted_ok(5) [OF assms(1)] assms(3)
    by (cases "ys = []") (auto simp: reserve_format_def take_alloc_def intro: exI [of _ "ba_last_alloc (fv_block_allocator f)"])
  show "\<exists>x y. fv_superblock (reserve_format f xs ys) = (fv_superblock f)\<lparr>sb_free_inodes := x, sb_free_data := y\<rparr>"
    by (rule exI, rule exI, rule superblock.equality) (simp_all add: reserve_format_def)
qed simp_all

lemma reserve_frame:
  assumes mt: "mounted f bs" and xs: "in_range (fv_inode_allocator f) xs" and ys: "in_range (fv_block_allocator f) ys"
    and a: "a \<in> table_area f \<union> data_area f"
  shows "reserve_blocks f bs xs ys ! a = bs ! a"
proof -
  note dis = areas_disjoint [OF mt]
  have "a \<noteq> 0" "a \<notin> inode_bitmap_area f" "a \<notin> block_bitmap_area f" using a dis by auto
  then show ?thesis
    using xs ys upd_bits_other [of a "fv_inode_allocator f" xs set_op] upd_bits_other [of a "fv_block_allocator f" ys set_op]
    by (simp add: reserve_blocks_def inode_bitmap_area_def block_bitmap_area_def not_le not_less)
qed

text \<open>Exactly the bits of the taken indices are set.\<close>

lemma reserve_bits:
  assumes mt: "mounted f bs" and wf: "wf_blocks bs"
    and xs: "in_range (fv_inode_allocator f) xs" and ys: "in_range (fv_block_allocator f) ys"
  shows "x < unat (ba_size (fv_inode_allocator f)) * 2048 \<Longrightarrow>
      bit_at (fv_inode_allocator f) (reserve_blocks f bs xs ys) x \<longleftrightarrow> x \<in> unat ` set xs \<or> bit_at (fv_inode_allocator f) bs x"
    "x < unat (ba_size (fv_block_allocator f)) * 2048 \<Longrightarrow>
      bit_at (fv_block_allocator f) (reserve_blocks f bs xs ys) x \<longleftrightarrow> x \<in> unat ` set ys \<or> bit_at (fv_block_allocator f) bs x"
proof -
  note dis = areas_disjoint [OF mt] and ok = mounted_ok [OF mt]
  let ?b1 = "foldl (upd_bit (fv_inode_allocator f) set_op) bs xs"
  let ?b2 = "foldl (upd_bit (fv_block_allocator f) set_op) ?b1 ys"
  have z: "?b2[0 := v] ! a = ?b2 ! a" if "a \<in> inode_bitmap_area f \<union> block_bitmap_area f" for a v
    using that dis(1,2) by (metis Un_iff nth_list_update_neq)
  have o2: "?b2 ! a = ?b1 ! a" if "a \<in> inode_bitmap_area f" for a
    using that dis(5) ys by (intro upd_bits_other) (auto simp: block_bitmap_area_def disjoint_iff not_le not_less)
  have o1: "?b1 ! a = bs ! a" if "a \<in> block_bitmap_area f" for a
    using that dis(5) xs by (intro upd_bits_other) (auto simp: inode_bitmap_area_def disjoint_iff not_le not_less)
  show "bit_at (fv_inode_allocator f) (reserve_blocks f bs xs ys) x \<longleftrightarrow> x \<in> unat ` set xs \<or> bit_at (fv_inode_allocator f) bs x"
    if "x < unat (ba_size (fv_inode_allocator f)) * 2048"
  proof -
    have "bit_at (fv_inode_allocator f) (reserve_blocks f bs xs ys) x = bit_at (fv_inode_allocator f) ?b1 x"
      unfolding reserve_blocks_def by (rule inode_bits_frame [OF _ that]) (simp add: z o2)
    then show ?thesis using upd_bits_fold(1) [OF wf ok(1) xs] by simp
  qed
  show "bit_at (fv_block_allocator f) (reserve_blocks f bs xs ys) x \<longleftrightarrow> x \<in> unat ` set ys \<or> bit_at (fv_block_allocator f) bs x"
    if "x < unat (ba_size (fv_block_allocator f)) * 2048"
  proof -
    have "bit_at (fv_block_allocator f) (reserve_blocks f bs xs ys) x = bit_at (fv_block_allocator f) ?b2 x"
      unfolding reserve_blocks_def by (rule bits_frame [OF _ that]) (simp add: z)
    also have "\<dots> \<longleftrightarrow> x \<in> unat ` set ys \<or> bit_at (fv_block_allocator f) ?b1 x"
      using upd_bits_fold(1) [of ?b1 "fv_block_allocator f" ys] wf ok(2) ys by simp
    also have "bit_at (fv_block_allocator f) ?b1 x = bit_at (fv_block_allocator f) bs x"
      by (rule bits_frame [OF o1 that])
    finally show ?thesis .
  qed
qed

context block_device
begin

lemma fs_allocate_execs:
  assumes mt: "mounted f bs"
    and k: "unat k \<le> length (ahead (fv_inode_allocator f) bs)" "k \<le> sb_free_inodes (fv_superblock f)"
    and n: "unat n \<le> length (ahead (fv_block_allocator f) bs)" "n \<le> sb_free_data (fv_superblock f)"
  defines "xs \<equiv> first_free (fv_inode_allocator f) bs (unat k)" and "ys \<equiv> first_free (fv_block_allocator f) bs (unat n)"
  shows "fs_execs inv blks (fs_allocate ops k n) f bs (Ok (xs, ys)) (reserve_format f xs ys) (reserve_blocks f bs xs ys)"
proof -
  note ok = mounted_ok [OF mt]
  have len: "length xs = unat k" "length ys = unat n"
    using k(1) n(1) by (simp_all add: xs_def ys_def length_first_free)
  have xs: "in_range (fv_inode_allocator f) xs" and ys: "in_range (fv_block_allocator f) ys"
    unfolding xs_def ys_def using first_free_props(3) by blast+
  have ff: "execs inv blks (find_free ops (fv_inode_allocator f) k) bs (Ok xs) bs"
    "execs inv blks (find_free ops (fv_block_allocator f) n) bs (Ok ys) bs"
    unfolding xs_def ys_def first_free_def
    by (rule find_free_ahead_execs [OF ok(1,4) k(1)], rule find_free_ahead_execs [OF ok(2,5) n(1)])
  let ?b1 = "foldl (upd_bit (fv_inode_allocator f) set_op) bs xs"
  have ok2: "bitmap_ok (fv_block_allocator f) (length ?b1)" using ok(2) by simp
  note al = allocate_execs [OF ok(1) xs, folded take_alloc_def] allocate_execs [OF ok2 ys, folded take_alloc_def]
  have sub: "subW (sb_free_data (fv_superblock f)) n = Ok (sb_free_data (fv_superblock f) - of_nat (length ys))"
    "subW (sb_free_inodes (fv_superblock f)) k = Ok (sb_free_inodes (fv_superblock f) - of_nat (length xs))"
    using k(2) n(2) by (simp_all add: subW_def len word_le_nat_alt)
  have pos: "0 < length (foldl (upd_bit (fv_block_allocator f) set_op) ?b1 ys)" using mounted_pos [OF mt] by simp
  note ws = write_superblock_execs [OF pos, of "reserve_format f xs ys"]
  have lt: "\<not> sb_free_inodes (fv_superblock f) < k" "\<not> sb_free_data (fv_superblock f) < n" using k(2) n(2) by simp_all
  show ?thesis
    unfolding fs_allocate_def Let_def
  proof (rule fs_bind_self, simp only: if_not_P [OF lt(1)] if_not_P [OF lt(2)],
      rule fs_bind_dev [OF ff(1)], rule fs_bind_dev [OF ff(2)], simp only: len less_irrefl if_False,
      rule fs_bind_dev [OF al(1)], rule fs_bind_update, rule fs_bind_dev [OF al(2)], rule fs_bind_update,
      simp only: sub bindM_liftM_Ok, rule fs_bind_update, rule fs_bind_update, rule execs_bind [OF _ execs_return])
  qed (use ws in \<open>simp add: reserve_format_def reserve_blocks_def\<close>)
qed

end

end
