(* ===== verification/Creation.thy ===== *)
theory Creation
  imports Allocation Fuse_Operations
begin

text \<open>
  Creating a child of a directory: \<open>create_child\<close> as FUSE calls it, on a mounted volume whose directory
  has room for the entry. The new inode, the new block of a directory or a symbolic link, the entry in
  the parent and the parent's inode are written, and nothing else that is in use changes. The check
  for an entry of the same name compares with the padded name, so that it does not see it.
\<close>

definition new_entry :: "u32 \<Rightarrow> file_type \<Rightarrow> bytes \<Rightarrow> dir_entry" where
  "new_entry n t name = small_entry n t name (of_nat ((length name + 12) div 4 * 4))"

definition nblocks :: "file_type \<Rightarrow> nat" where "nblocks t = (if t = File then 0 else 1)"

definition fresh_inode :: "u64 \<Rightarrow> file_type \<Rightarrow> u32 list \<Rightarrow> inode" where
  "fresh_inode now t ys =
     (case ys of
        [] \<Rightarrow> inode_empty t 0xFFFF now
      | b # _ \<Rightarrow> (inode_empty t 0xFFFF now)\<lparr>in_direct := (replicate 12 INVALID_ADDRESS)[0 := b], in_blocks := 1,
          in_size := (if t = Directory then 256 else 0)\<rparr>)"

lemma new_entry_eq:
  assumes "length name \<le> MAX_NAME"
  shows "dir_entry_new n t name = Ok (new_entry n t name)"
proof -
  have l: "unat (of_nat (length name) :: u16) = length name" using assms by (simp add: unat_u16_of_nat MAX_NAME_def)
  obtain r where r: "min_record_len (of_nat (length name)) = Ok r" "unat r = (length name + 12) div 4 * 4"
    using min_record_len_eq [of "of_nat (length name)"] assms by (auto simp: l MAX_NAME_def)
  then have "r = of_nat ((length name + 12) div 4 * 4)" by (metis of_nat_unat ucast_id)
  with r assms show ?thesis
    by (simp add: dir_entry_new_def new_entry_def small_entry_def Let_def splice_def)
qed

lemma new_entry_simps [simp]:
  "(new_entry n t name)\<lparr>de_inode := m\<rparr> = new_entry m t name" "de_record_len (new_entry n t name) = of_nat ((length name + 12) div 4 * 4)"
  "de_name (new_entry n t name) = name @ replicate (MAX_NAME - length name) 0" "de_inode (new_entry n t name) = n"
  by (simp_all add: new_entry_def small_entry_def)

lemma new_entry_ok:
  assumes "length name \<le> MAX_NAME"
  shows "rec_len (new_entry n t name) = (length name + 12) div 4 * 4" "rec_len (new_entry n t name) \<le> BLOCK_SIZE"
    "n \<noteq> INVALID_ADDRESS \<Longrightarrow> dirent_ok (new_entry n t name)" "n \<noteq> INVALID_ADDRESS \<Longrightarrow> \<not> is_free (new_entry n t name)"
    "n \<noteq> INVALID_ADDRESS \<Longrightarrow> name_of (new_entry n t name) = name"
proof -
  let ?l = "(length name + 12) div 4 * 4"
  have bounds: "9 + length name \<le> ?l" "?l \<le> 76" using assms by (simp_all add: MAX_NAME_def)
  then have u: "unat (of_nat ?l :: u16) = ?l" by (intro unat_u16_of_nat) simp
  then show "rec_len (new_entry n t name) = ?l" by simp
  with bounds show "rec_len (new_entry n t name) \<le> BLOCK_SIZE" by (simp add: BLOCK_SIZE_def)
  show "n \<noteq> INVALID_ADDRESS \<Longrightarrow> dirent_ok (new_entry n t name)" "n \<noteq> INVALID_ADDRESS \<Longrightarrow> \<not> is_free (new_entry n t name)"
    "n \<noteq> INVALID_ADDRESS \<Longrightarrow> name_of (new_entry n t name) = name"
    using small_entry_ok [of n name "of_nat ?l" t] assms bounds u unfolding new_entry_def BLOCK_SIZE_def by simp_all
qed

lemma takes_new_entry: "takes (new_entry n t name) = takes (new_entry m t name)"
  by (simp add: takes_def fun_eq_iff)

lemma fresh_inode_wf [simp]: "inode_wf (fresh_inode now t ys)"
  by (simp add: fresh_inode_def inode_wf_def inode_empty_def split: list.split)

lemma fresh_inode_type [simp]: "in_file_type (fresh_inode now t ys) = t"
  by (simp add: fresh_inode_def inode_empty_def split: list.split)

lemma fresh_inode_blocks:
  "inode_blocks h bs (fresh_inode now t []) = []" "inode_blocks h bs (fresh_inode now t [b]) = [b]"
  "meta_blocks h bs (fresh_inode now t ys) = []" "in_blocks (fresh_inode now t [b]) = 1"
  by (simp_all add: fresh_inode_def inode_empty_def inode_blocks_def block_at_def meta_blocks_def split: list.split)

lemma add_first_block: "add_block ops h (inode_empty t 0xFFFF now) b [] =
   returnM ((inode_empty t 0xFFFF now)\<lparr>in_direct := (replicate 12 INVALID_ADDRESS)[0 := b], in_blocks := 1\<rparr>)"
  by (simp add: add_block_def place_block_def inode_empty_def updateR_def addW_def Let_def)

lemma dev_returnM [simp]: "dev (returnM v) = returnM v"
  by (rule ext) (simp add: dev_def zoomM_def returnM_def split: prod.split)


section \<open>Frames\<close>

lemma put_inode_other: "a \<noteq> slot_block h n \<Longrightarrow> put_inode h bs n i ! a = bs ! a"
  by (simp add: put_inode_def)

lemma meta_in_data: "a \<in> set (meta_blocks h bs i) \<Longrightarrow> unat (ih_data_start h) \<le> a"
  by (auto simp: meta_blocks_def data_addr_def split: if_splits)

lemma dir_frame:
  assumes "\<And>a. a \<in> owned h bs i \<Longrightarrow> bs' ! a = bs ! a" "length bs' = length bs"
  shows "dir_layout h bs' i ess = dir_layout h bs i ess" "inode_blocks h bs' i = inode_blocks h bs i"
    "meta_blocks h bs' i = meta_blocks h bs i"
proof -
  note fr = owned_frame [OF assms(1), of h i]
  show b: "inode_blocks h bs' i = inode_blocks h bs i" and m: "meta_blocks h bs' i = meta_blocks h bs i"
    using fr(1,2) by blast+
  have "bs' ! data_addr h r = bs ! data_addr h r" if "r \<in> set (inode_blocks h bs i)" for r
    using assms(1) that by (simp add: owned_def)
  then show "dir_layout h bs' i ess = dir_layout h bs i ess"
    unfolding dir_layout_def b meta_ok_def m assms(2) by (auto simp: list_all2_conv_all_nth)
qed

lemma dir_layout_modified [simp]: "dir_layout h bs (i\<lparr>in_modified := t\<rparr>) ess = dir_layout h bs i ess"
  by (simp add: dir_layout_def inode_wf_def meta_ok_def)

lemma inode_limit:
  assumes "mounted f bs" "unat n < inode_count (fv_inode_handler f)"
  shows "n \<noteq> INVALID_ADDRESS" "slot_block (fv_inode_handler f) n < length bs" "slot_block (fv_inode_handler f) n \<in> table_area f"
    "unat n < unat (ba_size (fv_inode_allocator f)) * 2048"
proof -
  note m = mounted_fields [OF assms(1)]
  have max: "unat (ba_max_index (fv_inode_allocator f)) = inode_count (fv_inode_handler f)"
    "inode_count (fv_inode_handler f) \<le> unat (ba_size (fv_inode_allocator f)) * 2048"
    using m(1,3) by (simp_all add: alloc_on_def)
  then show "unat n < unat (ba_size (fv_inode_allocator f)) * 2048" using assms(2) by linarith
  show "n \<noteq> INVALID_ADDRESS"
    using assms(2) max(1) unat_u32_bound [of "ba_max_index (fv_inode_allocator f)"] by auto
  show "slot_block (fv_inode_handler f) n \<in> table_area f" by (rule in_areas(2) [OF assms(2)])
  then show "slot_block (fv_inode_handler f) n < length bs"
    using mounted_ok(3) [OF assms(1)] by (simp add: table_area_def table_ok_def)
qed



text \<open>A block \<open>r\<close> of the directory \<open>p\<close> and its inode are written.\<close>

definition touch_dir :: "format_v1 \<Rightarrow> bytes list \<Rightarrow> u64 \<Rightarrow> u32 \<Rightarrow> inode \<Rightarrow> u32 \<Rightarrow> dir_entry list \<Rightarrow> bytes list" where
  "touch_dir f bs now p pi r es =
     put_inode (fv_inode_handler f) (bs[data_addr (fv_inode_handler f) r := image es]) p (pi\<lparr>in_modified := now\<rparr>)"

lemma length_touch_dir [simp]: "length (touch_dir f bs now p pi r es) = length bs"
  by (simp add: touch_dir_def)

lemma touch_frame:
  assumes mt: "mounted f bs" and p: "unat p < inode_count (fv_inode_handler f)"
  shows "a \<in> data_area f \<Longrightarrow> touch_dir f bs now p pi r es ! a = bs[data_addr (fv_inode_handler f) r := image es] ! a"
    "a \<in> inode_bitmap_area f \<union> block_bitmap_area f \<Longrightarrow> touch_dir f bs now p pi r es ! a = bs ! a"
proof -
  note dis = areas_disjoint [OF mt]
  have slot: "slot_block (fv_inode_handler f) p \<in> table_area f" by (rule inode_limit(3) [OF mt p])
  show "touch_dir f bs now p pi r es ! a = bs[data_addr (fv_inode_handler f) r := image es] ! a" if "a \<in> data_area f"
    unfolding touch_dir_def using that slot dis(10) by (intro put_inode_other) auto
  show "touch_dir f bs now p pi r es ! a = bs ! a" if a: "a \<in> inode_bitmap_area f \<union> block_bitmap_area f"
  proof -
    have "a \<noteq> slot_block (fv_inode_handler f) p" "data_addr (fv_inode_handler f) r \<noteq> a"
      using a slot in_areas(1) [of f r] dis(6-9) by auto
    then show ?thesis by (simp add: touch_dir_def put_inode_other)
  qed
qed

lemma touch_bits:
  assumes mt: "mounted f bs" and p: "unat p < inode_count (fv_inode_handler f)"
  shows "x < unat (ba_size (fv_inode_allocator f)) * 2048 \<Longrightarrow>
      bit_at (fv_inode_allocator f) (touch_dir f bs now p pi r es) x = bit_at (fv_inode_allocator f) bs x"
    "x < unat (ba_size (fv_block_allocator f)) * 2048 \<Longrightarrow>
      bit_at (fv_block_allocator f) (touch_dir f bs now p pi r es) x = bit_at (fv_block_allocator f) bs x"
  by (rule inode_bits_frame, use touch_frame(2) [OF assms] in blast, assumption,
      rule bits_frame, use touch_frame(2) [OF assms] in blast, assumption)

lemma touch_inodes:
  assumes mt: "mounted f bs" and p: "unat p < inode_count (fv_inode_handler f)" and wf: "wf_blocks bs"
    and pi: "inode_wf pi" and lay: "layout es (image es)"
  shows "inode_at (fv_inode_handler f) (touch_dir f bs now p pi r es) p = Ok (pi\<lparr>in_modified := now\<rparr>)"
    "unat m < inode_count (fv_inode_handler f) \<Longrightarrow> m \<noteq> p \<Longrightarrow>
      inode_at (fv_inode_handler f) (touch_dir f bs now p pi r es) m = inode_at (fv_inode_handler f) bs m"
proof -
  let ?h = "fv_inode_handler f" let ?bs = "bs[data_addr ?h r := image es]"
  note lim = inode_limit [OF mt]
  have w: "wf_blocks ?bs" using wf layout_length [OF lay] by simp
  have i: "inode_wf (pi\<lparr>in_modified := now\<rparr>)" using pi by (simp add: inode_wf_def)
  show "inode_at ?h (touch_dir f bs now p pi r es) p = Ok (pi\<lparr>in_modified := now\<rparr>)"
    unfolding touch_dir_def using lim(2) [OF p] by (intro inode_at_put_same w i) simp
  show "inode_at ?h (touch_dir f bs now p pi r es) m = inode_at ?h bs m" if m: "unat m < inode_count ?h" "m \<noteq> p"
  proof -
    have d: "data_addr ?h r \<noteq> slot_block ?h m" using lim(3) [OF m(1)] in_areas(1) [of f r] areas_disjoint(10) [OF mt] by auto
    have "inode_at ?h (touch_dir f bs now p pi r es) m = inode_at ?h ?bs m"
      unfolding touch_dir_def using lim(2) m p by (intro inode_at_put_other w i) simp_all
    also have "\<dots> = inode_at ?h bs m" using d by (intro inode_at_frame) simp
    finally show ?thesis .
  qed
qed

lemma touch_layout:
  assumes mt: "mounted f bs" and p: "unat p < inode_count (fv_inode_handler f)"
    and dir: "dir_layout (fv_inode_handler f) (bs[data_addr (fv_inode_handler f) r := image es]) pi ess"
  shows "dir_layout (fv_inode_handler f) (touch_dir f bs now p pi r es) (pi\<lparr>in_modified := now\<rparr>) ess"
proof -
  let ?h = "fv_inode_handler f" let ?bs = "bs[data_addr ?h r := image es]"
  have "touch_dir f bs now p pi r es ! a = ?bs ! a" if "a \<in> owned ?h ?bs pi" for a
    using that by (intro touch_frame(1) [OF mt p]) (auto simp: owned_def data_area_def data_addr_def dest: meta_in_data)
  then show ?thesis using dir dir_frame(1) [of ?h ?bs pi "touch_dir f bs now p pi r es"] by simp
qed

context block_device
begin

lemma touch_inode_execs:
  assumes mt: "mounted f bs" and p: "unat p < inode_count (fv_inode_handler f)" and pi: "inode_wf pi"
  shows "execs inv blks (write_inode ops (fv_inode_handler f) p (pi\<lparr>in_modified := now\<rparr>))
    (bs[data_addr (fv_inode_handler f) r := image es]) (Ok ()) (touch_dir f bs now p pi r es)"
  using write_inode_execs [of "fv_inode_handler f" "bs[data_addr (fv_inode_handler f) r := image es]" p "pi\<lparr>in_modified := now\<rparr>"]
    mounted_ok(3) [OF mt] p pi by (simp add: inode_wf_def touch_dir_def)

end


section \<open>The writes of a creation\<close>

text \<open>The volume and its parent directory before a creation.\<close>

definition parent_ready :: "format_v1 \<Rightarrow> bytes list \<Rightarrow> u32 \<Rightarrow> inode \<Rightarrow> dir_entry list list \<Rightarrow> bool" where
  "parent_ready f bs p pi ess \<longleftrightarrow>
     mounted f bs \<and> live_inode f bs p pi \<and> in_file_type pi = Directory \<and>
     dir_layout (fv_inode_handler f) bs pi ess \<and> file_sep (fv_inode_handler f) bs pi \<and>
     (\<forall>a \<in> owned (fv_inode_handler f) bs pi. marked f bs a)"

text \<open>Free inodes and blocks for a child of type \<open>t\<close>.\<close>

definition can_allocate :: "format_v1 \<Rightarrow> bytes list \<Rightarrow> file_type \<Rightarrow> bool" where
  "can_allocate f bs t \<longleftrightarrow>
     1 \<le> length (ahead (fv_inode_allocator f) bs) \<and> 1 \<le> sb_free_inodes (fv_superblock f) \<and>
     nblocks t \<le> length (ahead (fv_block_allocator f) bs) \<and> nblocks t \<le> unat (sb_free_data (fv_superblock f))"

definition child_number :: "format_v1 \<Rightarrow> bytes list \<Rightarrow> u32" where
  "child_number f bs = hd (first_free (fv_inode_allocator f) bs 1)"

definition child_data :: "format_v1 \<Rightarrow> bytes list \<Rightarrow> file_type \<Rightarrow> u32 list" where
  "child_data f bs t = first_free (fv_block_allocator f) bs (nblocks t)"

definition child_format :: "format_v1 \<Rightarrow> bytes list \<Rightarrow> file_type \<Rightarrow> format_v1" where
  "child_format f bs t = reserve_format f [child_number f bs] (child_data f bs t)"

definition child_inode :: "format_v1 \<Rightarrow> bytes list \<Rightarrow> u64 \<Rightarrow> file_type \<Rightarrow> inode" where
  "child_inode f bs now t = fresh_inode now t (child_data f bs t)"

text \<open>The device after the allocation, the new inode and the new directory block.\<close>

definition child_blocks :: "format_v1 \<Rightarrow> bytes list \<Rightarrow> u64 \<Rightarrow> file_type \<Rightarrow> u32 \<Rightarrow> bytes list" where
  "child_blocks f bs now t p =
     (let h = fv_inode_handler f; n = child_number f bs; ys = child_data f bs t;
          bs' = put_inode h (reserve_blocks f bs [n] ys) n (child_inode f bs now t)
      in if t = Directory then bs'[data_addr h (hd ys) := image (dir_start n p)] else bs')"

lemma child_number_props:
  assumes mt: "mounted f bs" and al: "can_allocate f bs t"
  shows "first_free (fv_inode_allocator f) bs 1 = [child_number f bs]"
    "unat (child_number f bs) < inode_count (fv_inode_handler f)" "\<not> bit_at (fv_inode_allocator f) bs (unat (child_number f bs))"
proof -
  have "length (first_free (fv_inode_allocator f) bs 1) = 1"
    using al by (intro length_first_free) (simp add: can_allocate_def)
  then obtain x where x: "first_free (fv_inode_allocator f) bs 1 = [x]" by (auto simp: length_Suc_conv)
  then show l: "first_free (fv_inode_allocator f) bs 1 = [child_number f bs]" by (simp add: child_number_def)
  have "child_number f bs \<in> set (first_free (fv_inode_allocator f) bs 1)" unfolding l by simp
  note p = first_free_props [OF this]
  show "\<not> bit_at (fv_inode_allocator f) bs (unat (child_number f bs))" by (rule p(2))
  show "unat (child_number f bs) < inode_count (fv_inode_handler f)"
    using p(1) mounted_fields(1,3) [OF mt] by (simp add: alloc_on_def)
qed

lemma child_data_props:
  assumes mt: "mounted f bs" and al: "can_allocate f bs t"
  shows "t = File \<Longrightarrow> child_data f bs t = []" "t \<noteq> File \<Longrightarrow> child_data f bs t = [hd (child_data f bs t)]"
    "r \<in> set (child_data f bs t) \<Longrightarrow> \<not> marked f bs (data_addr (fv_inode_handler f) r)"
    "r \<in> set (child_data f bs t) \<Longrightarrow> data_addr (fv_inode_handler f) r < length bs"
    "in_range (fv_block_allocator f) (child_data f bs t)"
proof -
  have "length (child_data f bs t) = nblocks t"
    unfolding child_data_def using al by (intro length_first_free) (simp add: can_allocate_def)
  then show "t = File \<Longrightarrow> child_data f bs t = []" "t \<noteq> File \<Longrightarrow> child_data f bs t = [hd (child_data f bs t)]"
    by (auto simp: nblocks_def length_Suc_conv)
  note p = first_free_props [of _ "fv_block_allocator f" bs "nblocks t", folded child_data_def]
  show "in_range (fv_block_allocator f) (child_data f bs t)" using p(3) by blast
  show "\<not> marked f bs (data_addr (fv_inode_handler f) r)" if "r \<in> set (child_data f bs t)"
    using p(2) [OF that] by (simp add: marked_def data_addr_def)
  show "data_addr (fv_inode_handler f) r < length bs" if "r \<in> set (child_data f bs t)"
    using p(1) [OF that] mounted_ok(8) [OF mt] by (simp add: data_addr_def)
qed

lemma length_child_blocks [simp]: "length (child_blocks f bs now t p) = length bs"
  by (simp add: child_blocks_def Let_def)

lemma child_mounted: "mounted f bs \<Longrightarrow> mounted f (child_blocks f bs now t p)"
  by (simp add: mounted_length [of "child_blocks f bs now t p" bs])

lemma child_range: "mounted f bs \<Longrightarrow> can_allocate f bs t \<Longrightarrow> in_range (fv_inode_allocator f) [child_number f bs]"
  using inode_limit(4) child_number_props(2) by simp

lemma child_blocks_frame:
  assumes mt: "mounted f bs" and al: "can_allocate f bs t"
  shows "a \<in> data_area f \<Longrightarrow> a \<notin> data_addr (fv_inode_handler f) ` set (child_data f bs t) \<Longrightarrow>
      child_blocks f bs now t p ! a = bs ! a"
    "a \<in> inode_bitmap_area f \<union> block_bitmap_area f \<Longrightarrow>
      child_blocks f bs now t p ! a = reserve_blocks f bs [child_number f bs] (child_data f bs t) ! a"
proof -
  let ?h = "fv_inode_handler f" let ?b1 = "reserve_blocks f bs [child_number f bs] (child_data f bs t)"
  note n = child_number_props [OF mt al] and y = child_data_props [OF mt al] and dis = areas_disjoint [OF mt]
  have slot: "slot_block ?h (child_number f bs) \<in> table_area f" by (rule inode_limit(3) [OF mt n(2)])
  have hd: "t = Directory \<Longrightarrow> hd (child_data f bs t) \<in> set (child_data f bs t)"
    using y(2) by (metis file_type.distinct(1) list.set_intros(1))
  show "child_blocks f bs now t p ! a = bs ! a"
    if a: "a \<in> data_area f" "a \<notin> data_addr ?h ` set (child_data f bs t)"
  proof -
    have "a \<noteq> slot_block ?h (child_number f bs)" using a(1) slot dis(10) by auto
    moreover have "t = Directory \<Longrightarrow> a \<noteq> data_addr ?h (hd (child_data f bs t))" using a(2) hd by blast
    ultimately show ?thesis
      using reserve_frame [OF mt child_range [OF mt al] y(5)] a(1) by (auto simp: child_blocks_def Let_def put_inode_other)
  qed
  show "child_blocks f bs now t p ! a = ?b1 ! a" if a: "a \<in> inode_bitmap_area f \<union> block_bitmap_area f"
  proof -
    have "a \<noteq> slot_block ?h (child_number f bs)" using a slot dis(6,8) by auto
    moreover have "data_addr ?h r \<noteq> a" for r using a in_areas(1) [of f r] dis(7,9) by auto
    ultimately show ?thesis by (auto simp: child_blocks_def Let_def put_inode_other)
  qed
qed

lemma parent_readyD:
  assumes "parent_ready f bs p pi ess"
  shows "mounted f bs" "unat p < inode_count (fv_inode_handler f)" "inode_wf pi" "dir_layout (fv_inode_handler f) bs pi ess"
    "distinct (inode_blocks (fv_inode_handler f) bs pi)"
    "\<forall>r \<in> set (inode_blocks (fv_inode_handler f) bs pi). data_addr (fv_inode_handler f) r \<notin> set (meta_blocks (fv_inode_handler f) bs pi)"
    "a \<in> owned (fv_inode_handler f) bs pi \<Longrightarrow> marked f bs a" "dh_data_start (fv_directory_handler f) = ih_data_start (fv_inode_handler f)"
    "bit_at (fv_inode_allocator f) bs (unat p)" "inode_at (fv_inode_handler f) bs p = Ok pi"
  using assms mounted_ok(7) by (auto simp: parent_ready_def live_inode_def file_sep_def dir_layout_def)

text \<open>Writing one block of a directory and its inode keeps its block list.\<close>

lemma touch_parent:
  assumes pr: "parent_ready f bs p pi ess" and kept: "\<And>a. a \<in> owned (fv_inode_handler f) bs pi \<Longrightarrow> bs1 ! a = bs ! a"
    and len: "length bs1 = length bs" and r: "r \<in> set (inode_blocks (fv_inode_handler f) bs pi)"
    and dir: "dir_layout (fv_inode_handler f) (bs1[data_addr (fv_inode_handler f) r := image es]) pi ess'"
    and handler: "fv_inode_handler f' = fv_inode_handler f" and mt: "mounted f' bs1"
    and live: "live_inode f' (touch_dir f bs1 now p pi r es) p (pi\<lparr>in_modified := now\<rparr>)"
    and marks: "\<And>a. a \<in> owned (fv_inode_handler f) bs pi \<Longrightarrow> marked f' (touch_dir f bs1 now p pi r es) a"
  shows "parent_ready f' (touch_dir f bs1 now p pi r es) p (pi\<lparr>in_modified := now\<rparr>) ess'"
    "owned (fv_inode_handler f) (touch_dir f bs1 now p pi r es) pi = owned (fv_inode_handler f) bs pi"
proof -
  let ?h = "fv_inode_handler f" let ?bs = "touch_dir f bs1 now p pi r es"
  note P = parent_readyD [OF pr]
  have mt1: "mounted f bs1" using P(1) mounted_length [of bs1 bs f] len by simp
  have eq: "?bs ! a = bs ! a" if a: "a \<in> set (meta_blocks ?h bs pi)" for a
  proof -
    have "a \<noteq> data_addr ?h r" using a r P(6) by auto
    moreover have "a \<in> data_area f" using meta_in_data [OF a] by (simp add: data_area_def)
    ultimately show ?thesis using touch_frame(1) [OF mt1 P(2), of a] kept [of a] a by (simp add: owned_def)
  qed
  note b = inode_blocks_frame [OF eq] meta_blocks_frame [OF eq]
  then show own: "owned ?h ?bs pi = owned ?h bs pi" by (simp add: owned_def)
  have "mounted f' ?bs" using mt mounted_length [of ?bs bs1 f'] by simp
  moreover have "file_sep ?h ?bs pi" using P(5,6) by (simp add: file_sep_def b)
  then have "file_sep ?h ?bs (pi\<lparr>in_modified := now\<rparr>)" by (simp add: file_sep_def)
  moreover have "in_file_type (pi\<lparr>in_modified := now\<rparr>) = Directory" using pr by (simp add: parent_ready_def)
  ultimately show "parent_ready f' ?bs p (pi\<lparr>in_modified := now\<rparr>) ess'"
    using live touch_layout [OF mt1 P(2) dir] marks own by (simp add: parent_ready_def handler)
qed

lemma parent_kept:
  assumes pr: "parent_ready f bs p pi ess" and al: "can_allocate f bs t"
  shows "a \<in> owned (fv_inode_handler f) bs pi \<Longrightarrow> child_blocks f bs now t p ! a = bs ! a"
proof -
  note P = parent_readyD [OF pr]
  assume a: "a \<in> owned (fv_inode_handler f) bs pi"
  then have "marked f bs a" by (rule P(7))
  then show ?thesis
    using child_data_props(3) [OF P(1) al] by (intro child_blocks_frame(1) [OF P(1) al]) (auto simp: marked_data)
qed

text \<open>The steps of \<open>create_entry\<close> up to the entry in the parent.\<close>

lemma make_inode:
  assumes "t \<noteq> Unknown" "t = File \<and> ys = [] \<or> t \<noteq> File \<and> ys = [b]"
  shows "bindM (if t = Directory \<or> t = Symlink
      then bindM (liftM (indexR ys 0)) (\<lambda>b.
           bindM (dev (add_block ops h (inode_empty t 0xFFFF now) b [])) (\<lambda>inode. returnM (inode, 1)))
      else returnM (inode_empty t 0xFFFF now, 0)) (\<lambda>(inode, k).
    bindM (liftM (initial_size t inode)) (\<lambda>sz. g inode sz k)) =
    g ((fresh_inode now t ys)\<lparr>in_size := 0\<rparr>) (in_size (fresh_inode now t ys)) (nblocks t)"
proof -
  have e: "(fresh_inode now t [b])\<lparr>in_size := 0\<rparr> =
      (inode_empty t 0xFFFF now)\<lparr>in_direct := (replicate 12 INVALID_ADDRESS)[0 := b], in_blocks := 1\<rparr>"
    "in_size (fresh_inode now t [b]) = (if t = Directory then 256 else 0)"
    by (simp_all add: fresh_inode_def inode_empty_def)
  show ?thesis
  proof (cases t)
    case File
    with assms show ?thesis by (simp add: initial_size_def fresh_inode_def nblocks_def inode_empty_def)
  qed (use assms e in \<open>simp_all add: indexR_def add_first_block initial_size_def nblocks_def BLOCK_SIZE_def mulW_def\<close>)
qed

lemma fresh_inode_size [simp]: "(fresh_inode now t ys)\<lparr>in_size := in_size (fresh_inode now t ys)\<rparr> = fresh_inode now t ys"
  by (rule inode.equality) simp_all

context block_device
begin

lemma write_new_directory:
  assumes n: "n \<noteq> INVALID_ADDRESS" "p \<noteq> INVALID_ADDRESS" and dh: "dh_data_start dh = ih_data_start h" and b: "data_addr h b < length bs"
  shows "execs inv blks (write_directory_with_inode ops dh \<lparr>dy_inode = n, dy_entries = dir_start n p\<rparr>
      (fresh_inode now Directory [b]) h) bs (Ok ()) (bs[data_addr h b := image (dir_start n p)])"
    "dir_layout h (bs[data_addr h b := image (dir_start n p)]) (fresh_inode now Directory [b]) [dir_start n p]"
  using write_directory_execs [of "fresh_inode now Directory [b]" "[dir_start n p]" dh h bs n] layout_dir_start [OF n] dh b
  by (simp_all add: fresh_inode_blocks)

lemma insert_entry_execs:
  assumes pr: "parent_ready f bs p pi ess" and kept: "\<forall>a \<in> owned (fv_inode_handler f) bs pi. bs1 ! a = bs ! a" and len: "length bs1 = length bs"
    and name: "length name \<le> MAX_NAME" and n: "n \<noteq> INVALID_ADDRESS"
    and found: "locate_in (takes (new_entry m t name)) (contents (fv_inode_handler f) bs pi ess) = Some (fr, r, off)"
    and eight: "\<forall>fr \<in> set (concat ess). is_free fr \<longrightarrow> rec_len fr \<noteq> (length name + 12) div 4 * 4 + 8"
  defines "h \<equiv> fv_inode_handler f"
  shows "\<exists>es ess'. execs inv blks (add_entry_here ops (fv_directory_handler f) (new_entry n t name) r (of_nat off)) bs1 (Ok ())
      (bs1[data_addr h r := image es]) \<and> layout es (image es) \<and> dir_layout h (bs1[data_addr h r := image es]) pi ess' \<and>
    mset (live ess') = add_mset (new_entry n t name) (mset (live ess)) \<and> r \<in> set (inode_blocks h bs pi)"
proof -
  note P = parent_readyD [OF pr, folded h_def] and ok = new_entry_ok [OF name, of n t]
  have fr: "dir_layout h bs1 pi ess" "inode_blocks h bs1 pi = inode_blocks h bs pi" "meta_blocks h bs1 pi = meta_blocks h bs pi"
    using dir_frame [of h bs pi bs1] kept len P(4) by (simp_all add: h_def)
  have found1: "locate_in (takes (new_entry n t name)) (contents h bs1 pi ess) = Some (fr, r, off)"
    using found [folded h_def] unfolding fr(2) takes_new_entry [of n t name m] .
  from located_block [OF fr(1) found1] have "takes (new_entry n t name) fr" "fr \<in> set (concat ess)" by metis+
  then have "rec_len fr \<noteq> rec_len (new_entry n t name) + 8" using eight unfolding ok(1) takes_def by blast
  from insert_located [OF fr(1) P(8) _ _ ok(3) [OF n] ok(4) [OF n] found1 this] P(5,6) fr(2,3) show ?thesis by simp
qed

lemma find_room_execs:
  assumes pr: "parent_ready f bs p pi ess" and name: "length name \<le> MAX_NAME"
    and found: "locate_in (takes (new_entry m t name)) (contents (fv_inode_handler f) bs pi ess) = Some (fr, r, off)"
  shows "execs inv blks (can_fit ops (fv_directory_handler f) pi (fv_inode_handler f) (new_entry m t name)) bs (Ok (Some (r, of_nat off))) bs"
  using can_fit_execs [OF parent_readyD(4,8) [OF pr], of "new_entry m t name"] new_entry_ok(2) [OF name] found by simp

lemma place_found_execs:
  assumes "execs inv blks (add_entry_here ops (fv_directory_handler f) e r off) bs (Ok ()) bs'"
  shows "fs_execs inv blks (place_entry ops pi e (Some (r, off)) ys k) f bs (Ok pi) f bs'"
  unfolding place_entry_def by (rule fs_bind_self, simp only: option.case prod.case, rule fs_bind_dev [OF assms], rule execs_return)

lemma child_alloc_execs:
  assumes mt: "mounted f bs" and al: "can_allocate f bs t"
  shows "fs_execs inv blks (fs_allocate ops 1 (of_nat (nblocks t))) f bs (Ok ([child_number f bs], child_data f bs t)) (child_format f bs t)
    (reserve_blocks f bs [child_number f bs] (child_data f bs t))"
proof -
  have u: "unat (of_nat (nblocks t) :: u32) = nblocks t" by (simp add: nblocks_def)
  show ?thesis
    using fs_allocate_execs [OF mt, of 1 "of_nat (nblocks t)"] al child_number_props(1) [OF mt al] u
    by (simp add: can_allocate_def child_format_def child_data_def word_le_nat_alt)
qed

lemma child_content_execs:
  fixes now :: u64
  assumes mt: "mounted f bs" and al: "can_allocate f bs t" and p: "unat p < inode_count (fv_inode_handler f)"
  defines "h \<equiv> fv_inode_handler f" and "n \<equiv> child_number f bs"
  shows "fs_execs inv blks (if t = Directory
      then dev (write_directory_with_inode ops (fv_directory_handler f) \<lparr>dy_inode = n, dy_entries = dir_start n p\<rparr> (child_inode f bs now t) h) else returnM ())
    f' (put_inode h (reserve_blocks f bs [n] (child_data f bs t)) n (child_inode f bs now t)) (Ok ()) f' (child_blocks f bs now t p)"
proof (cases "t = Directory")
  case True
  note Y = child_data_props [OF mt al, folded h_def] and N = child_number_props(2) [OF mt al, folded h_def n_def]
  have n: "n \<noteq> INVALID_ADDRESS" "p \<noteq> INVALID_ADDRESS" using inode_limit(1) [OF mt] N p by (simp_all add: h_def)
  let ?ys = "child_data f bs t" let ?b2 = "put_inode h (reserve_blocks f bs [n] ?ys) n (child_inode f bs now t)"
  have ys: "?ys = [hd ?ys]" using Y(2) True by simp
  then have "data_addr h (hd ?ys) < length ?b2" using Y(4) by (metis length_put_inode length_reserve_blocks list.set_intros(1))
  from write_new_directory(1) [OF n mounted_ok(7) [OF mt, folded h_def] this] True ys show ?thesis
    by (simp add: child_blocks_def Let_def child_inode_def h_def n_def dev_execs)
next
  case False
  then show ?thesis by (auto simp: child_blocks_def Let_def h_def n_def)
qed

lemma create_entry_execs:
  fixes now :: u64
  assumes pr: "parent_ready f bs p pi ess" and al: "can_allocate f bs t" and t: "t \<noteq> Unknown"
    and name: "length name \<le> MAX_NAME"
    and found: "locate_in (takes (new_entry m t name)) (contents (fv_inode_handler f) bs pi ess) = Some (fr, r, off)"
    and eight: "\<forall>fr \<in> set (concat ess). is_free fr \<longrightarrow> rec_len fr \<noteq> (length name + 12) div 4 * 4 + 8"
  defines "h \<equiv> fv_inode_handler f" and "n \<equiv> child_number f bs" and "bs3 \<equiv> child_blocks f bs now t p"
  shows "\<exists>es ess'. layout es (image es) \<and> r \<in> set (inode_blocks h bs pi) \<and>
    dir_layout h (bs3[data_addr h r := image es]) pi ess' \<and> mset (live ess') = add_mset (new_entry n t name) (mset (live ess)) \<and>
    fs_execs inv blks (create_entry ops now t (new_entry m t name) pi p) f bs (Ok (child_inode f bs now t, n))
      (child_format f bs t) (touch_dir f bs3 now p pi r es)"
proof -
  note P = parent_readyD [OF pr] and N = child_number_props(2) [OF parent_readyD(1) [OF pr] al, folded n_def]
  let ?i = "child_inode f bs now t" and ?ys = "child_data f bs t"
  have "\<forall>a \<in> owned h bs pi. bs3 ! a = bs ! a" using parent_kept [OF pr al] by (simp add: h_def bs3_def)
  from insert_entry_execs [OF pr this [unfolded h_def] _ name inode_limit(1) [OF P(1) N] found eight] obtain es ess' where
    ins: "execs inv blks (add_entry_here ops (fv_directory_handler f) (new_entry n t name) r (of_nat off)) bs3 (Ok ()) (bs3[data_addr h r := image es])"
    and x: "layout es (image es)" "dir_layout h (bs3[data_addr h r := image es]) pi ess'"
      "mset (live ess') = add_mset (new_entry n t name) (mset (live ess))" "r \<in> set (inode_blocks h bs pi)"
    by (auto simp: h_def bs3_def)
  note fit = find_room_execs [OF pr name found, folded h_def] and alloc = child_alloc_execs [OF P(1) al, folded n_def]
    and wd = child_content_execs [OF P(1) al P(2), where now = now, folded h_def n_def bs3_def]
  have wi: "execs inv blks (write_inode ops h n ?i) (reserve_blocks f bs [n] ?ys) (Ok ()) (put_inode h (reserve_blocks f bs [n] ?ys) n ?i)"
    using write_inode_execs [of h "reserve_blocks f bs [n] ?ys" n ?i] mounted_ok(3) [OF P(1)] N by (simp add: child_inode_def h_def)
  have wp: "execs inv blks (write_inode ops h p (pi\<lparr>in_modified := now\<rparr>)) (bs3[data_addr h r := image es]) (Ok ()) (touch_dir f bs3 now p pi r es)"
    unfolding h_def bs3_def by (rule touch_inode_execs [OF child_mounted [OF P(1)] P(2,3)])
  have fb: "file_blocks t = Ok (of_nat (nblocks t))" using t by (cases t) (simp_all add: file_blocks_def nblocks_def)
  have eb: "entry_blocks pi (Some (r, of_nat off)) k = Ok k" for k by (simp add: entry_blocks_def)
  have sz: "(fresh_inode now t ?ys)\<lparr>in_size := 0, in_size := in_size (fresh_inode now t ?ys)\<rparr> = ?i" by (simp add: child_inode_def)
  have "execs inv blks (add_entry_here ops (fv_directory_handler (child_format f bs t)) (new_entry n t name) r (of_nat off)) bs3 (Ok ()) (bs3[data_addr h r := image es])"
    using ins by (simp add: child_format_def)
  note place = place_found_execs [OF this]
  have idx: "indexR [n] 0 = Ok n" by (simp add: indexR_def)
  have ys: "t = File \<and> ?ys = [] \<or> t \<noteq> File \<and> ?ys = [hd ?ys]" using child_data_props(1,2) [OF P(1) al] by blast
  have "fs_execs inv blks (create_entry ops now t (new_entry m t name) pi p) f bs (Ok (?i, n))
      (child_format f bs t) (touch_dir f bs3 now p pi r es)"
    unfolding create_entry_def Let_def
    by (simp only: fb eb bindM_liftM_Ok, rule fs_bind_self, rule fs_bind_dev, rule fit [unfolded h_def],
        simp only: eb bindM_liftM_Ok, rule execs_bind [OF alloc],
        simp only: prod.case idx bindM_liftM_Ok make_inode [OF t ys] sz new_entry_simps directory_new_eq h_def [symmetric],
        rule fs_bind_dev [OF wi], rule execs_bind [OF wd], rule execs_bind [OF place], rule fs_bind_dev [OF wp], rule execs_return)
  with x show ?thesis by blast
qed

end



section \<open>The volume after a creation\<close>

text \<open>
  \<open>child_added f bs p pi ess now n i e f' bs'\<close>: the inode \<open>n\<close> was free and is now the inode \<open>i\<close>; the
  entries of the directory \<open>p\<close> are the old ones and \<open>e\<close>; every other inode is as it was; and of the
  blocks in use only the blocks of \<open>p\<close> have changed. The blocks of \<open>i\<close> were free.
\<close>

definition child_added ::
  "format_v1 \<Rightarrow> bytes list \<Rightarrow> u32 \<Rightarrow> inode \<Rightarrow> dir_entry list list \<Rightarrow> u64 \<Rightarrow> u32 \<Rightarrow> inode \<Rightarrow> dir_entry \<Rightarrow>
   format_v1 \<Rightarrow> bytes list \<Rightarrow> bool" where
  "child_added f bs p pi ess now n i e f' bs' \<longleftrightarrow>
     fv_inode_handler f' = fv_inode_handler f \<and> fv_open_files f' = fv_open_files f \<and> fv_next_file_id f' = fv_next_file_id f \<and>
     sb_root_inode (fv_superblock f') = sb_root_inode (fv_superblock f) \<and> length bs' = length bs \<and>
     (in_blocks i = 0 \<longrightarrow> fv_block_allocator f' = fv_block_allocator f) \<and>
     sb_free_inodes (fv_superblock f') = sb_free_inodes (fv_superblock f) - 1 \<and>
     sb_free_data (fv_superblock f') = sb_free_data (fv_superblock f) - in_blocks i \<and>
     \<not> bit_at (fv_inode_allocator f) bs (unat n) \<and> live_inode f' bs' n i \<and>
     (\<forall>x < unat (ba_max_index (fv_inode_allocator f)).
        bit_at (fv_inode_allocator f') bs' x \<longleftrightarrow> x = unat n \<or> bit_at (fv_inode_allocator f) bs x) \<and>
     (\<exists>ess'. parent_ready f' bs' p (pi\<lparr>in_modified := now\<rparr>) ess' \<and> mset (live ess') = add_mset e (mset (live ess))) \<and>
     owned (fv_inode_handler f) bs' pi = owned (fv_inode_handler f) bs pi \<and>
     (\<forall>m j. m \<noteq> p \<longrightarrow> live_inode f bs m j \<longrightarrow> live_inode f' bs' m j) \<and>
     (\<forall>a. marked f' bs' a \<longleftrightarrow> marked f bs a \<or> a \<in> owned (fv_inode_handler f) bs' i) \<and>
     (\<forall>a \<in> owned (fv_inode_handler f) bs' i. \<not> marked f bs a) \<and>
     (\<forall>a. marked f bs a \<longrightarrow> a \<notin> owned (fv_inode_handler f) bs pi \<longrightarrow> bs' ! a = bs ! a)"

lemma child_addedD:
  assumes "child_added f bs p pi ess now n i e f' bs'"
  shows "fv_inode_handler f' = fv_inode_handler f" "sb_root_inode (fv_superblock f') = sb_root_inode (fv_superblock f)" "length bs' = length bs"
    "owned (fv_inode_handler f) bs' pi = owned (fv_inode_handler f) bs pi" "\<not> bit_at (fv_inode_allocator f) bs (unat n)" "live_inode f' bs' n i"
    "m \<noteq> p \<Longrightarrow> live_inode f bs m j \<Longrightarrow> live_inode f' bs' m j"
    "marked f' bs' a \<longleftrightarrow> marked f bs a \<or> a \<in> owned (fv_inode_handler f) bs' i" "a \<in> owned (fv_inode_handler f) bs' i \<Longrightarrow> \<not> marked f bs a"
    "marked f bs a \<Longrightarrow> a \<notin> owned (fv_inode_handler f) bs pi \<Longrightarrow> bs' ! a = bs ! a"
    "\<exists>ess'. parent_ready f' bs' p (pi\<lparr>in_modified := now\<rparr>) ess' \<and> mset (live ess') = add_mset e (mset (live ess))"
  using assms unfolding child_added_def by simp_all

text \<open>Without blocks for the child, the free blocks ahead stay the same.\<close>

lemma created_ahead:
  assumes add: "child_added f bs p pi ess now n i e f' bs'" and i: "in_blocks i = 0"
  shows "ahead (fv_block_allocator f') bs' = ahead (fv_block_allocator f) bs"
proof -
  note A = child_addedD [OF add]
  have ow: "owned (fv_inode_handler f) bs' i = {}" using i by (simp add: owned_def inode_blocks_def meta_blocks_def)
  have f': "fv_block_allocator f' = fv_block_allocator f" using add i by (simp add: child_added_def)
  have "bit_at (fv_block_allocator f) bs' x = bit_at (fv_block_allocator f) bs x"
    if "x < unat (ba_max_index (fv_block_allocator f))" for x
    using A(8) [of "unat (ih_data_start (fv_inode_handler f)) + x"] that ow by (simp add: marked_def f' A(1))
  then show ?thesis unfolding ahead_def f' by (intro filter_cong) auto
qed

abbreviation child_done ::
  "format_v1 \<Rightarrow> bytes list \<Rightarrow> u64 \<Rightarrow> file_type \<Rightarrow> u32 \<Rightarrow> inode \<Rightarrow> u32 \<Rightarrow> dir_entry list \<Rightarrow> bytes list" where
  "child_done f bs now t p pi r es \<equiv> touch_dir f (child_blocks f bs now t p) now p pi r es"

lemma wf_child_blocks:
  assumes pr: "parent_ready f bs p pi ess" and al: "can_allocate f bs t" and wf: "wf_blocks bs"
  shows "wf_blocks (child_blocks f bs now t p)"
    "wf_blocks (put_inode (fv_inode_handler f) (reserve_blocks f bs [child_number f bs] (child_data f bs t))
       (child_number f bs) (child_inode f bs now t))"
proof -
  note P = parent_readyD [OF pr] and lim = inode_limit [OF parent_readyD(1) [OF pr]]
  note N = child_number_props [OF P(1) al]
  have "length (image (dir_start (child_number f bs) p)) = BLOCK_SIZE"
    using layout_length [OF layout_dir_start] lim(1) N(2) P(2) by blast
  moreover show w: "wf_blocks (put_inode (fv_inode_handler f) (reserve_blocks f bs [child_number f bs] (child_data f bs t))
       (child_number f bs) (child_inode f bs now t))"
    using lim(2) [OF N(2)] by (intro wf_put_inode wf_reserve_blocks wf) (simp_all add: child_inode_def)
  ultimately show "wf_blocks (child_blocks f bs now t p)"
    by (cases "t = Directory") (simp_all add: child_blocks_def Let_def)
qed

lemma child_done_inodes:
  assumes pr: "parent_ready f bs p pi ess" and al: "can_allocate f bs t" and wf: "wf_blocks bs" and lay: "layout es (image es)"
  shows "inode_at (fv_inode_handler f) (child_done f bs now t p pi r es) p = Ok (pi\<lparr>in_modified := now\<rparr>)"
    "inode_at (fv_inode_handler f) (child_done f bs now t p pi r es) (child_number f bs) = Ok (child_inode f bs now t)"
    "unat m < inode_count (fv_inode_handler f) \<Longrightarrow> m \<noteq> p \<Longrightarrow> m \<noteq> child_number f bs \<Longrightarrow>
      inode_at (fv_inode_handler f) (child_done f bs now t p pi r es) m = inode_at (fv_inode_handler f) bs m"
proof -
  define h where "h = fv_inode_handler f"
  define n where "n = child_number f bs"
  note P = parent_readyD [OF pr, folded h_def] and N = child_number_props [OF parent_readyD(1) [OF pr] al, folded h_def n_def]
  note Y = child_data_props [OF P(1) al, folded h_def] and lim = inode_limit [OF P(1), folded h_def]
  note T = touch_inodes [OF child_mounted [OF P(1)] P(2) [unfolded h_def] wf_child_blocks(1) [OF pr al wf] P(3) lay, folded h_def]
  let ?b1 = "reserve_blocks f bs [n] (child_data f bs t)" let ?b2 = "put_inode h ?b1 n (child_inode f bs now t)"
  have w1: "wf_blocks ?b1" by (rule wf_reserve_blocks [OF wf])
  have neq: "n \<noteq> p" using P(9) N(3) by auto
  show "inode_at (fv_inode_handler f) (child_done f bs now t p pi r es) p = Ok (pi\<lparr>in_modified := now\<rparr>)"
    using T(1) by (simp add: h_def)
  have rest: "inode_at h (child_done f bs now t p pi r es) m = inode_at h ?b2 m" if m: "unat m < inode_count h" "m \<noteq> p" for m
  proof -
    have "data_addr h x \<noteq> slot_block h m" for x
      using lim(3) [OF m(1)] in_areas(1) [of f x] areas_disjoint(10) [OF P(1)] by (auto simp: h_def)
    then have "inode_at h (child_blocks f bs now t p) m = inode_at h ?b2 m"
      by (intro inode_at_frame) (simp add: child_blocks_def Let_def h_def n_def)
    then show ?thesis using T(2) [OF m] by simp
  qed
  show "inode_at (fv_inode_handler f) (child_done f bs now t p pi r es) (child_number f bs) = Ok (child_inode f bs now t)"
    using rest [OF N(2) neq] lim(2) [OF N(2)] inode_at_put_same [OF w1, of h n "child_inode f bs now t"]
    by (simp add: h_def n_def child_inode_def)
  show "inode_at (fv_inode_handler f) (child_done f bs now t p pi r es) m = inode_at (fv_inode_handler f) bs m"
    if m: "unat m < inode_count (fv_inode_handler f)" "m \<noteq> p" "m \<noteq> child_number f bs"
  proof -
    have m': "unat m < inode_count h" using m(1) by (simp add: h_def)
    have "inode_at h ?b2 m = inode_at h ?b1 m"
      using lim(2) [OF m'] lim(2) [OF N(2)] m(3) by (intro inode_at_put_other w1) (simp_all add: child_inode_def n_def)
    also have "\<dots> = inode_at h bs m"
      using reserve_frame [OF P(1) child_range [OF P(1) al] Y(5)] lim(3) [OF m'] by (intro inode_at_frame) (simp add: n_def)
    finally show ?thesis using rest [OF m' m(2)] by (simp add: h_def)
  qed
qed

lemma child_done_bits:
  assumes pr: "parent_ready f bs p pi ess" and al: "can_allocate f bs t" and wf: "wf_blocks bs"
  shows "x < unat (ba_size (fv_inode_allocator f)) * 2048 \<Longrightarrow>
      bit_at (fv_inode_allocator f) (child_done f bs now t p pi r es) x \<longleftrightarrow>
      x = unat (child_number f bs) \<or> bit_at (fv_inode_allocator f) bs x"
    "x < unat (ba_size (fv_block_allocator f)) * 2048 \<Longrightarrow>
      bit_at (fv_block_allocator f) (child_done f bs now t p pi r es) x \<longleftrightarrow>
      x \<in> unat ` set (child_data f bs t) \<or> bit_at (fv_block_allocator f) bs x"
proof -
  note P = parent_readyD [OF pr]
  note R = reserve_bits [OF P(1) wf child_range [OF P(1) al] child_data_props(5) [OF P(1) al]]
  note T = touch_bits [OF child_mounted [OF P(1)] P(2)] and fr = child_blocks_frame(2) [OF P(1) al]
  show "bit_at (fv_inode_allocator f) (child_done f bs now t p pi r es) x \<longleftrightarrow>
      x = unat (child_number f bs) \<or> bit_at (fv_inode_allocator f) bs x" if "x < unat (ba_size (fv_inode_allocator f)) * 2048"
    using T(1) [OF that] inode_bits_frame [OF fr that] R(1) [OF that] by simp
  show "bit_at (fv_block_allocator f) (child_done f bs now t p pi r es) x \<longleftrightarrow>
      x \<in> unat ` set (child_data f bs t) \<or> bit_at (fv_block_allocator f) bs x" if "x < unat (ba_size (fv_block_allocator f)) * 2048"
    using T(2) [OF that] bits_frame [OF fr that] R(2) [OF that] by simp
qed

lemma marked_child:
  assumes pr: "parent_ready f bs p pi ess" and al: "can_allocate f bs t" and wf: "wf_blocks bs"
  shows "marked (child_format f bs t) (child_done f bs now t p pi r es) a \<longleftrightarrow>
    a \<in> data_addr (fv_inode_handler f) ` set (child_data f bs t) \<or> marked f bs a"
proof -
  note P = parent_readyD [OF pr] and B = child_done_bits(2) [OF pr al wf]
  have max: "unat (ba_max_index (fv_block_allocator f)) \<le> unat (ba_size (fv_block_allocator f)) * 2048"
    using mounted_ok(2) [OF P(1)] by (simp add: bitmap_ok_def)
  have new: "unat y < unat (ba_max_index (fv_block_allocator f))" if "y \<in> set (child_data f bs t)" for y
    using that first_free_props(1) by (auto simp: child_data_def)
  have al: "ba_max_index (fv_block_allocator (child_format f bs t)) = ba_max_index (fv_block_allocator f)"
    "bit_at (fv_block_allocator (child_format f bs t)) = bit_at (fv_block_allocator f)"
    by (simp_all add: child_format_def reserve_format_def take_alloc_def bit_at_def fun_eq_iff)
  show ?thesis
    unfolding marked_def al using B [OF less_le_trans [OF _ max]] new by (auto simp: child_format_def data_addr_def)
qed

lemma child_format_counts:
  assumes mt: "mounted f bs" and al: "can_allocate f bs t"
  shows "sb_free_inodes (fv_superblock (child_format f bs t)) = sb_free_inodes (fv_superblock f) - 1"
    "sb_free_data (fv_superblock (child_format f bs t)) = sb_free_data (fv_superblock f) - in_blocks (child_inode f bs now t)"
    "fv_next_file_id (child_format f bs t) = fv_next_file_id f"
    "sb_root_inode (fv_superblock (child_format f bs t)) = sb_root_inode (fv_superblock f)"
    "in_blocks (child_inode f bs now t) = 0 \<longrightarrow> fv_block_allocator (child_format f bs t) = fv_block_allocator f"
    "owned (fv_inode_handler f) bs' (child_inode f bs now t) = data_addr (fv_inode_handler f) ` set (child_data f bs t)"
proof -
  have ys: "child_data f bs t = [] \<or> (\<exists>b. child_data f bs t = [b])" using child_data_props(1,2) [OF mt al] by blast
  from ys show "sb_free_inodes (fv_superblock (child_format f bs t)) = sb_free_inodes (fv_superblock f) - 1"
    "sb_free_data (fv_superblock (child_format f bs t)) = sb_free_data (fv_superblock f) - in_blocks (child_inode f bs now t)"
    "fv_next_file_id (child_format f bs t) = fv_next_file_id f"
    "sb_root_inode (fv_superblock (child_format f bs t)) = sb_root_inode (fv_superblock f)"
    "in_blocks (child_inode f bs now t) = 0 \<longrightarrow> fv_block_allocator (child_format f bs t) = fv_block_allocator f"
    by (elim disjE exE; simp add: child_format_def reserve_format_def take_alloc_def child_inode_def fresh_inode_def inode_empty_def)+
  from ys show "owned (fv_inode_handler f) bs' (child_inode f bs now t) = data_addr (fv_inode_handler f) ` set (child_data f bs t)"
    by (elim disjE exE) (simp_all add: owned_def child_inode_def fresh_inode_blocks)
qed

lemma child_blocks_mounted:
  assumes "mounted f bs" "can_allocate f bs t"
  shows "mounted (child_format f bs t) (child_blocks f bs now t p)"
  using reserve_mounted [OF assms(1) child_range [OF assms] child_data_props(5) [OF assms]]
    mounted_length [of "child_blocks f bs now t p" "reserve_blocks f bs [child_number f bs] (child_data f bs t)" "child_format f bs t"]
  by (simp add: child_format_def)

lemma child_doneI:
  assumes pr: "parent_ready f bs p pi ess" and al: "can_allocate f bs t" and wf: "wf_blocks bs"
    and r: "r \<in> set (inode_blocks (fv_inode_handler f) bs pi)" and lay: "layout es (image es)"
    and dir: "dir_layout (fv_inode_handler f) ((child_blocks f bs now t p)[data_addr (fv_inode_handler f) r := image es]) pi ess'"
    and live: "mset (live ess') = add_mset e (mset (live ess))"
  shows "child_added f bs p pi ess now (child_number f bs) (child_inode f bs now t) e (child_format f bs t)
    (child_done f bs now t p pi r es)"
proof -
  define h where "h = fv_inode_handler f"
  define n where "n = child_number f bs"
  note P = parent_readyD [OF pr, folded h_def] and N = child_number_props [OF parent_readyD(1) [OF pr] al, folded h_def n_def]
  note Y = child_data_props [OF P(1) al, folded h_def] and lim = inode_limit [OF P(1), folded h_def]
  note I = child_done_inodes [OF pr al wf lay, folded h_def n_def] and M = marked_child [OF pr al wf, folded h_def]
  note B = child_done_bits(1) [OF pr al wf, folded n_def] and F = touch_frame(1) [OF child_mounted [OF P(1)] P(2) [unfolded h_def], folded h_def]
  let ?f' = "child_format f bs t" let ?bs' = "child_done f bs now t p pi r es" let ?i = "child_inode f bs now t"
  have f': "fv_inode_handler ?f' = h" "fv_open_files ?f' = fv_open_files f" "bit_at (fv_inode_allocator ?f') = bit_at (fv_inode_allocator f)"
    by (simp_all add: child_format_def h_def)
  note counts = child_format_counts(1,3,4) [OF P(1) al] child_format_counts(2,5,6) [OF P(1) al, where now = now, folded h_def]
    and mounted = child_blocks_mounted [OF P(1) al, of now p]
  have "unat (ba_max_index (fv_inode_allocator f)) \<le> unat (ba_size (fv_inode_allocator f)) * 2048"
    using mounted_ok(1) [OF P(1)] by (simp add: bitmap_ok_def)
  then have bits: "\<forall>x < unat (ba_max_index (fv_inode_allocator f)).
      bit_at (fv_inode_allocator ?f') ?bs' x \<longleftrightarrow> x = unat n \<or> bit_at (fv_inode_allocator f) bs x"
    using B by (auto simp: f'(3))
  have live_n: "live_inode ?f' ?bs' n ?i"
    using N(2) I(2) B [OF lim(4) [OF N(2)]] by (simp add: live_inode_def f')
  have live_p: "live_inode ?f' ?bs' p (pi\<lparr>in_modified := now\<rparr>)"
    using P(2,9) I(1) B [OF lim(4) [OF P(2)]] by (simp add: live_inode_def f')
  have live_m: "live_inode ?f' ?bs' m j" if "m \<noteq> p" "live_inode f bs m j" for m j
  proof -
    have m: "unat m < inode_count h" "bit_at (fv_inode_allocator f) bs (unat m)" "inode_at h bs m = Ok j"
      using that(2) by (simp_all add: live_inode_def h_def)
    then have "m \<noteq> n" using N(3) by auto
    with m that(1) I(3) B [OF lim(4) [OF m(1)]] show ?thesis by (simp add: live_inode_def f')
  qed
  have kept: "?bs' ! a = bs ! a" if "marked f bs a" "a \<notin> owned h bs pi" for a
  proof -
    have "a \<noteq> data_addr h r" using that(2) r by (auto simp: owned_def h_def)
    moreover have "child_blocks f bs now t p ! a = bs ! a"
      using that(1) Y(3) by (intro child_blocks_frame(1) [OF P(1) al]) (auto simp: marked_data h_def)
    ultimately show ?thesis using F [OF marked_data [OF that(1)]] by simp
  qed
  have ready: "parent_ready ?f' ?bs' p (pi\<lparr>in_modified := now\<rparr>) ess'"
    using f'(1) live_p M P(7) unfolding h_def
    by (intro touch_parent(1) [OF pr parent_kept [OF pr al] _ r dir _ mounted]) simp_all
  have same: "owned h ?bs' pi = owned h bs pi"
    using f'(1) live_p M P(7) unfolding h_def
    by (intro touch_parent(2) [OF pr parent_kept [OF pr al] _ r dir _ mounted]) simp_all
  show ?thesis
    unfolding child_added_def
    using f' counts N(3) live_n live_m M kept same Y(3) ready live bits
    by (auto simp: h_def n_def)
qed


section \<open>Creating a child\<close>

text \<open>The directory has a free region for an entry with this name, and none exactly eight bytes larger.\<close>

definition entry_room :: "bytes \<Rightarrow> dir_entry list list \<Rightarrow> bool" where
  "entry_room name ess \<longleftrightarrow>
     (\<exists>fr \<in> set (concat ess). takes (new_entry 0 File name) fr) \<and>
     (\<forall>fr \<in> set (concat ess). is_free fr \<longrightarrow> rec_len fr \<noteq> (length name + 12) div 4 * 4 + 8)"

lemma entry_room_found:
  assumes dir: "dir_layout h bs i ess" and room: "entry_room name ess"
  obtains fr r off where "locate_in (takes (new_entry m t name)) (contents h bs i ess) = Some (fr, r, off)"
proof -
  have tk: "takes (new_entry m t name) = takes (new_entry 0 File name)" by (simp add: takes_def fun_eq_iff)
  have "locate_in (takes (new_entry m t name)) (contents h bs i ess) \<noteq> None"
    using room unfolding locate_in_None contents_union [OF dir] tk entry_room_def by blast
  with that show thesis by (metis not_None_eq prod_cases3)
qed

definition short_names :: "dir_entry list list \<Rightarrow> bool" where
  "short_names ess \<longleftrightarrow> (\<forall>e \<in> set (concat ess). \<not> is_free e \<longrightarrow> unat (de_name_len e) < MAX_NAME)"

lemma padded_name_absent:
  assumes dir: "dir_layout h bs i ess" and short: "short_names ess" and name: "length name \<le> MAX_NAME"
  shows "locate_in (named (name @ replicate (MAX_NAME - length name) 0)) (contents h bs i ess) = None"
  unfolding locate_in_None contents_union [OF dir]
proof
  fix e assume e: "e \<in> set (concat ess)"
  have ok: "dirent_ok e" using dir_layout_ok [OF dir] e unfolding contents_union [OF dir] by blast
  show "\<not> named (name @ replicate (MAX_NAME - length name) 0) e"
  proof
    assume "named (name @ replicate (MAX_NAME - length name) 0) e"
    then have live: "\<not> is_free e" and nm: "name_of e = name @ replicate (MAX_NAME - length name) 0" by (auto simp: named_def)
    have "unat (de_name_len e) < MAX_NAME" using short e live by (auto simp: short_names_def)
    then show False using length_name_of [OF ok live] name unfolding nm by simp
  qed
qed

lemma child_directory:
  assumes pr: "parent_ready f bs p pi ess" and al: "can_allocate f bs Directory"
    and r: "r \<in> set (inode_blocks (fv_inode_handler f) bs pi)"
  shows "dir_layout (fv_inode_handler f) (child_done f bs now Directory p pi r es) (child_inode f bs now Directory)
    [dir_start (child_number f bs) p]"
proof -
  define h where "h = fv_inode_handler f"
  define n where "n = child_number f bs"
  note P = parent_readyD [OF pr, folded h_def] and N = child_number_props [OF parent_readyD(1) [OF pr] al, folded h_def n_def]
  note Y = child_data_props [OF P(1) al, folded h_def]
  obtain b where b: "child_data f bs Directory = [b]" using Y(2) by blast
  have blk: "data_addr h b < length bs" "\<not> marked f bs (data_addr h b)" using Y(3,4) b by simp_all
  have "marked f bs (data_addr h r)" using P(7) r by (simp add: owned_def h_def)
  with blk(2) have neq: "data_addr h b \<noteq> data_addr h r" by auto
  have "child_done f bs now Directory p pi r es ! data_addr h b =
      (child_blocks f bs now Directory p)[data_addr h r := image es] ! data_addr h b"
    using in_areas(1) [of f b] unfolding h_def by (rule touch_frame(1) [OF child_mounted [OF P(1)] P(2) [unfolded h_def]])
  also have "\<dots> = image (dir_start n p)" using neq blk(1) b by (simp add: child_blocks_def Let_def h_def n_def)
  finally have "child_done f bs now Directory p pi r es ! data_addr h b = image (dir_start n p)" .
  moreover have "layout (dir_start n p) (image (dir_start n p))"
    using inode_limit(1) [OF P(1)] N(2) P(2) by (intro layout_dir_start) (simp_all add: h_def)
  ultimately show ?thesis
    unfolding h_def [symmetric] n_def [symmetric] child_inode_def b dir_layout_def
    using blk(1) by (simp add: fresh_inode_blocks meta_ok_def)
qed

context block_device
begin

lemma no_collision_execs:
  assumes pr: "parent_ready f bs p pi ess" and name: "length name \<le> MAX_NAME" and short: "short_names ess"
  shows "fs_execs inv blks (name_collision ops pi (new_entry m t name)) f bs (Ok None) f bs"
  unfolding name_collision_def
  using find_entry_execs [OF parent_readyD(4,8) [OF pr], of "de_name (new_entry m t name)"] padded_name_absent [OF parent_readyD(4) [OF pr] short name]
  by (intro fs_bind_self dev_execs) simp

lemma create_entry_adds:
  assumes pr: "parent_ready f bs p pi ess" and al: "can_allocate f bs t" and t: "t \<noteq> Unknown" and wf: "wf_blocks bs"
    and name: "length name \<le> MAX_NAME" and room: "entry_room name ess"
  shows "\<exists>bs'. fs_execs inv blks (create_entry ops now t (new_entry m t name) pi p) f bs (Ok (child_inode f bs now t, child_number f bs))
      (child_format f bs t) bs' \<and>
    child_added f bs p pi ess now (child_number f bs) (child_inode f bs now t) (new_entry (child_number f bs) t name)
      (child_format f bs t) bs' \<and>
    (t = Directory \<longrightarrow> dir_layout (fv_inode_handler f) bs' (child_inode f bs now t) [dir_start (child_number f bs) p])"
proof -
  note P = parent_readyD [OF pr]
  let ?e = "new_entry m t name" let ?h = "fv_inode_handler f"
  obtain fr r off where found: "locate_in (takes ?e) (contents ?h bs pi ess) = Some (fr, r, off)" by (rule entry_room_found [OF P(4) room])
  from create_entry_execs [OF pr al t name found] room obtain es ess' where
    x: "layout es (image es)" "r \<in> set (inode_blocks ?h bs pi)"
      "dir_layout ?h ((child_blocks f bs now t p)[data_addr ?h r := image es]) pi ess'"
      "mset (live ess') = add_mset (new_entry (child_number f bs) t name) (mset (live ess))"
    and run: "fs_execs inv blks (create_entry ops now t ?e pi p) f bs (Ok (child_inode f bs now t, child_number f bs))
      (child_format f bs t) (child_done f bs now t p pi r es)"
    unfolding entry_room_def by blast
  with child_doneI [OF pr al wf x(2,1,3,4)] child_directory [OF pr _ x(2)] al show ?thesis by blast
qed

lemma create_child_execs:
  assumes pr: "parent_ready f bs p pi ess" and al: "can_allocate f bs t" and t: "t \<noteq> Unknown" and wf: "wf_blocks bs"
    and name: "length name \<le> MAX_NAME" and short: "short_names ess" and room: "entry_room name ess"
  shows "\<exists>bs'. fs_execs inv blks (create_child ops now t name p) f bs (Ok (child_inode f bs now t, child_number f bs))
      (child_format f bs t) bs' \<and>
    child_added f bs p pi ess now (child_number f bs) (child_inode f bs now t) (new_entry (child_number f bs) t name)
      (child_format f bs t) bs' \<and>
    (t = Directory \<longrightarrow> dir_layout (fv_inode_handler f) bs' (child_inode f bs now t) [dir_start (child_number f bs) p])"
proof -
  have live: "mounted f bs" "live_inode f bs p pi" and type: "in_file_type pi = Directory" using pr by (simp_all add: parent_ready_def)
  from create_entry_adds [OF pr al t wf name room] obtain bs' where
    run: "fs_execs inv blks (create_entry ops now t (new_entry INVALID_ADDRESS t name) pi p) f bs
      (Ok (child_inode f bs now t, child_number f bs)) (child_format f bs t) bs'"
    and x: "child_added f bs p pi ess now (child_number f bs) (child_inode f bs now t) (new_entry (child_number f bs) t name)
        (child_format f bs t) bs'"
      "t = Directory \<longrightarrow> dir_layout (fv_inode_handler f) bs' (child_inode f bs now t) [dir_start (child_number f bs) p]" by blast
  have "fs_execs inv blks (create_child ops now t name p) f bs (Ok (child_inode f bs now t, child_number f bs))
      (child_format f bs t) bs'"
    unfolding create_child_def
    by (rule fs_bind_self, rule fs_bind_dev [OF live_allocated_execs(1) [OF live]], simp only: not_True_eq_False if_False,
        rule fs_bind_dev [OF live_allocated_execs(2) [OF live]],
        simp only: type new_entry_eq [OF name] bindM_liftM_Ok not_True_eq_False if_False simp_thms,
        rule execs_bind [OF no_collision_execs [OF pr name short]], simp only: option.case run)
  with x show ?thesis by blast
qed

end

text \<open>The root directory of a new volume of sixteen blocks.\<close>

lemma fresh_parent:
  assumes F: "formatted now bs" and l: "length bs = 16"
  shows "parent_ready (fresh_format 16) bs 0 (root_inode now) [dir_start 0 0]" "can_allocate (fresh_format 16) bs t"
proof -
  let ?f = "fresh_format 16"
  have mt: "mounted ?f bs" by (rule fresh_mounted) (simp_all add: l)
  have bits: "\<forall>x < 2048. bit_at (fv_inode_allocator ?f) bs x \<longleftrightarrow> x = 0" "\<forall>x < 2048. bit_at (fv_block_allocator ?f) bs x \<longleftrightarrow> x = 0"
    and at: "inode_at (fv_inode_handler ?f) bs 0 = Ok (root_inode now)"
    and dir: "dir_layout (fv_inode_handler ?f) bs (root_inode now) [dir_start 0 0]"
    using F l by (simp_all add: formatted_def Let_def bitmap_size_def)
  have sz: "unat (ba_size (fv_inode_allocator ?f)) = 1" "unat (ba_max_index (fv_inode_allocator ?f)) = 4" "ba_last_alloc (fv_inode_allocator ?f) = 0"
    "unat (ba_size (fv_block_allocator ?f)) = 1" "unat (ba_max_index (fv_block_allocator ?f)) = 11" "ba_last_alloc (fv_block_allocator ?f) = 0"
    "inode_count (fv_inode_handler ?f) = 4" "sb_free_inodes (fv_superblock ?f) = 3" "sb_free_data (fv_superblock ?f) = 10"
    by (simp_all add: fresh_format_def bitmap_allocator_new_def inode_table_handler_new_def fresh_superblock_def table_size_def bitmap_size_def)
  have "live_inode ?f bs 0 (root_inode now)" using bits(1) at sz by (simp add: live_inode_def)
  moreover have "marked ?f bs a" if "a \<in> owned (fv_inode_handler ?f) bs (root_inode now)" for a
    using that bits(2) sz by (auto simp: marked_def owned_def data_addr_def intro: exI [of _ 0])
  ultimately show "parent_ready ?f bs 0 (root_inode now) [dir_start 0 0]"
    using mt dir by (simp add: parent_ready_def file_sep_def)
  have "1 \<in> set (ahead (fv_inode_allocator ?f) bs)" "1 \<in> set (ahead (fv_block_allocator ?f) bs)"
    using bits sz by (simp_all add: in_ahead)
  then have "1 \<le> length (ahead (fv_inode_allocator ?f) bs)" "1 \<le> length (ahead (fv_block_allocator ?f) bs)"
    by (metis One_nat_def Suc_leI length_pos_if_in_set)+
  with sz show "can_allocate ?f bs t" by (simp add: can_allocate_def nblocks_def word_le_nat_alt)
qed

lemma dir_start_room: "short_names [dir_start 0 0]" "length name \<le> 2 \<Longrightarrow> entry_room name [dir_start 0 0]"
proof -
  have live: "\<not> is_free (small_entry 0 u nm l)" for u nm l by (simp add: small_entry_def is_free_def INVALID_ADDRESS_def)
  show "short_names [dir_start 0 0]" by (simp add: short_names_def dir_start_def live) (simp add: small_entry_def MAX_NAME_def)
  assume "length name \<le> 2"
  then have "rec_len (new_entry 0 File name) = 12" "(length name + 12) div 4 * 4 = 12" using new_entry_ok(1) [of name 0 File] by (simp_all add: MAX_NAME_def)
  then show "entry_room name [dir_start 0 0]" by (simp add: entry_room_def dir_start_def takes_def live del: new_entry_simps)
qed

text \<open>
  C2. \<open>create_child\<close> on a mounted volume, for a file, a directory or a symbolic link, with a name of at
  most 64 bytes and room in the directory: it succeeds; the new inode was free and is now an inode of
  that type with one link; the entries of the parent are the old ones and the new one; a new directory
  holds \<open>.\<close> and \<open>..\<close>; the free counters go down by what was taken; every other inode and every block in
  use outside the parent directory is as it was, and the volume stays well-formed.
\<close>

theorem create_child_adds:
  assumes dev: "block_device ops blks dinv" and d: "dinv d" and pr: "parent_ready f (blks d) p pi ess"
    and al: "can_allocate f (blks d) t" and t: "t \<noteq> Unknown"
    and name: "length name \<le> MAX_NAME" and short: "short_names ess" and room: "entry_room name ess"
  shows "\<exists>n i f' d'. create_child ops now t name p (f, d) = (Ok (i, n), f', d') \<and> dinv d' \<and>
    in_file_type i = t \<and> in_links i = 1 \<and>
    child_added f (blks d) p pi ess now n i (new_entry n t name) f' (blks d') \<and>
    (t = Directory \<longrightarrow> dir_layout (fv_inode_handler f) (blks d') i [dir_start n p])"
proof -
  from block_device.create_child_execs [OF dev pr al t block_device.blocks_wf [OF dev d] name short room, of now] obtain bs' where
    run: "fs_execs dinv blks (create_child ops now t name p) f (blks d)
      (Ok (child_inode f (blks d) now t, child_number f (blks d))) (child_format f (blks d) t) bs'"
    and x: "child_added f (blks d) p pi ess now (child_number f (blks d)) (child_inode f (blks d) now t)
      (new_entry (child_number f (blks d)) t name) (child_format f (blks d) t) bs'"
      "t = Directory \<longrightarrow> dir_layout (fv_inode_handler f) bs' (child_inode f (blks d) now t) [dir_start (child_number f (blks d)) p]"
    by blast
  have "in_links (child_inode f (blks d) now t) = 1" "in_file_type (child_inode f (blks d) now t) = t"
    by (simp_all add: child_inode_def) (simp add: fresh_inode_def inode_empty_def split: list.split)
  with fs_execsD [OF run d refl] x show ?thesis by blast
qed

theorem create_child_adds_witness:
  "\<exists>d1 d2 n i f' d'. format mem_ops 9 (mem_empty 16) = (Ok (), d1) \<and> mount mem_ops d1 = (Ok (fresh_format 16), d2) \<and>
    create_child mem_ops 7 Directory [97] 0 (fresh_format 16, d2) = (Ok (i, n), f', d') \<and>
    child_added (fresh_format 16) (md_blocks d2) 0 (root_inode 9) [dir_start 0 0] 7 n i (new_entry n Directory [97]) f' (md_blocks d') \<and>
    dir_layout (fv_inode_handler (fresh_format 16)) (md_blocks d') i [dir_start n 0]"
proof -
  obtain d1 d2 where d: "format mem_ops 9 (mem_empty 16) = (Ok (), d1)" "mount mem_ops d1 = (Ok (fresh_format 16), d2)"
    "mem_inv d2" "formatted 9 (md_blocks d2)" "length (md_blocks d2) = 16" "mounted (fresh_format 16) (md_blocks d2)" by (rule fresh_mem)
  have h: "Directory \<noteq> Unknown" "length [97 :: u8] \<le> MAX_NAME" "entry_room [97] [dir_start 0 0]"
    by (simp_all add: MAX_NAME_def dir_start_room)
  from create_child_adds [OF mem.block_device_axioms d(3) fresh_parent [OF d(4,5)] h(1,2) dir_start_room(1) h(3), of 7] d(1,2)
  show ?thesis by blast
qed

text \<open>
  C39. The check for an existing entry does not work: \<open>create_child\<close> asks for the name padded to 64 bytes,
  so that it creates a second entry with a name the directory already has, and returns \<open>Ok\<close> instead of
  \<open>AlreadyExists\<close>.
\<close>

theorem create_child_duplicates:
  assumes dev: "block_device ops blks dinv" and d: "dinv d" and pr: "parent_ready f (blks d) p pi ess"
    and al: "can_allocate f (blks d) t" and t: "t \<noteq> Unknown"
    and name: "length name \<le> MAX_NAME" and short: "short_names ess" and room: "entry_room name ess"
    and dup: "e0 \<in> set (live ess)" "name_of e0 = name"
  shows "\<exists>n i f' d' ess'. create_child ops now t name p (f, d) = (Ok (i, n), f', d') \<and>
    parent_ready f' (blks d') p (pi\<lparr>in_modified := now\<rparr>) ess' \<and>
    2 \<le> length (filter (\<lambda>e. name_of e = name) (live ess'))"
proof -
  from block_device.create_child_execs [OF dev pr al t block_device.blocks_wf [OF dev d] name short room, of now] obtain bs' where
    run: "fs_execs dinv blks (create_child ops now t name p) f (blks d)
      (Ok (child_inode f (blks d) now t, child_number f (blks d))) (child_format f (blks d) t) bs'"
    and x: "child_added f (blks d) p pi ess now (child_number f (blks d)) (child_inode f (blks d) now t)
      (new_entry (child_number f (blks d)) t name) (child_format f (blks d) t) bs'"
    by blast
  let ?e = "new_entry (child_number f (blks d)) t name"
  from x obtain ess' where dir: "parent_ready (child_format f (blks d) t) bs' p (pi\<lparr>in_modified := now\<rparr>) ess'"
    and live: "mset (live ess') = add_mset ?e (mset (live ess))" by (auto simp: child_added_def)
  have "child_number f (blks d) \<noteq> INVALID_ADDRESS"
    using inode_limit(1) child_number_props(2) [OF parent_readyD(1) [OF pr] al] parent_readyD(1) [OF pr] by blast
  then have nm: "name_of ?e = name" by (rule new_entry_ok(5) [OF name])
  have "mset (filter (\<lambda>e. name_of e = name) (live ess')) = add_mset ?e (mset (filter (\<lambda>e. name_of e = name) (live ess)))"
    unfolding mset_filter [of "\<lambda>e. name_of e = name"] live using nm by simp
  then have "length (filter (\<lambda>e. name_of e = name) (live ess')) = Suc (length (filter (\<lambda>e. name_of e = name) (live ess)))"
    by (metis size_add_mset size_mset)
  moreover have "filter (\<lambda>e. name_of e = name) (live ess) \<noteq> []" using dup by (auto simp: filter_empty_conv)
  then have "0 < length (filter (\<lambda>e. name_of e = name) (live ess))" by simp
  ultimately have "2 \<le> length (filter (\<lambda>e. name_of e = name) (live ess'))" by linarith
  with fs_execsD [OF run d refl] dir show ?thesis by blast
qed

theorem create_child_duplicates_witness:
  "\<exists>d1 d2 n i f' d' ess'. format mem_ops 9 (mem_empty 16) = (Ok (), d1) \<and> mount mem_ops d1 = (Ok (fresh_format 16), d2) \<and>
    create_child mem_ops 7 File [46, 46] 0 (fresh_format 16, d2) = (Ok (i, n), f', d') \<and>
    parent_ready f' (md_blocks d') 0 ((root_inode 9)\<lparr>in_modified := 7\<rparr>) ess' \<and>
    2 \<le> length (filter (\<lambda>e. name_of e = [46, 46]) (live ess'))"
proof -
  obtain d1 d2 where d: "format mem_ops 9 (mem_empty 16) = (Ok (), d1)" "mount mem_ops d1 = (Ok (fresh_format 16), d2)"
    "mem_inv d2" "formatted 9 (md_blocks d2)" "length (md_blocks d2) = 16" "mounted (fresh_format 16) (md_blocks d2)" by (rule fresh_mem)
  have h: "File \<noteq> Unknown" "length [46, 46 :: u8] \<le> MAX_NAME" "entry_room [46, 46] [dir_start 0 0]"
    by (simp_all add: MAX_NAME_def dir_start_room)
  let ?e = "small_entry 0 Directory [46, 46] 12"
  have e: "?e \<in> set (live [dir_start 0 0])" "name_of ?e = [46, 46]"
    using small_entry_ok [of 0 "[46, 46]" 12 Directory] by (simp_all add: dir_start_def INVALID_ADDRESS_def MAX_NAME_def BLOCK_SIZE_def)
  from create_child_duplicates [OF mem.block_device_axioms d(3) fresh_parent [OF d(4,5)] h(1,2) dir_start_room(1) h(3) e, of 7] d(1,2)
  show ?thesis by blast
qed

end
