(* ===== verification/Deletion.thy ===== *)
theory Deletion
  imports Creation
begin

text \<open>
  Deleting a child of a directory: \<open>delete_child\<close> as FUSE calls it. When the last link of an inode goes,
  its data blocks and the inode are freed; its pointer blocks stay marked. \<open>release_format\<close> and
  \<open>release_blocks\<close> are the format and the device after \<open>free_file\<close>.
\<close>

definition release_format :: "format_v1 \<Rightarrow> u32 list \<Rightarrow> format_v1" where
  "release_format f rs =
     f\<lparr>fv_superblock := (fv_superblock f)\<lparr>sb_free_data := sb_free_data (fv_superblock f) + of_nat (length rs),
         sb_free_inodes := sb_free_inodes (fv_superblock f) + 1\<rparr>\<rparr>"

definition release_blocks :: "format_v1 \<Rightarrow> bytes list \<Rightarrow> u32 list \<Rightarrow> u32 \<Rightarrow> bytes list" where
  "release_blocks f bs rs c =
     (foldl (upd_bit (fv_inode_allocator f) clear_op) (foldl (upd_bit (fv_block_allocator f) clear_op) bs rs) [c])
       [0 := super_image (fv_superblock (release_format f rs))]"

lemma release_format_simps [simp]:
  "fv_inode_handler (release_format f rs) = fv_inode_handler f" "fv_directory_handler (release_format f rs) = fv_directory_handler f"
  "fv_open_files (release_format f rs) = fv_open_files f" "fv_inode_allocator (release_format f rs) = fv_inode_allocator f"
  "fv_block_allocator (release_format f rs) = fv_block_allocator f"
  by (simp_all add: release_format_def)

lemma length_release_blocks [simp]: "length (release_blocks f bs rs c) = length bs"
  by (simp add: release_blocks_def)

lemma wf_release_blocks: "wf_blocks bs \<Longrightarrow> wf_blocks (release_blocks f bs rs c)"
  by (simp add: release_blocks_def)

lemma release_mounted:
  assumes "mounted f bs"
  shows "mounted (release_format f rs) bs"
proof (rule mountedI [OF assms])
  show "\<exists>l. fv_inode_allocator (release_format f rs) = (fv_inode_allocator f)\<lparr>ba_last_alloc := l\<rparr> \<and>
      unat l < unat (ba_size (fv_inode_allocator f)) * 2048"
    using mounted_ok(4) [OF assms] by (intro exI [of _ "ba_last_alloc (fv_inode_allocator f)"]) simp
  show "\<exists>l. fv_block_allocator (release_format f rs) = (fv_block_allocator f)\<lparr>ba_last_alloc := l\<rparr> \<and>
      unat l < unat (ba_size (fv_block_allocator f)) * 2048"
    using mounted_ok(5) [OF assms] by (intro exI [of _ "ba_last_alloc (fv_block_allocator f)"]) simp
  show "\<exists>x y. fv_superblock (release_format f rs) = (fv_superblock f)\<lparr>sb_free_inodes := x, sb_free_data := y\<rparr>"
    by (rule exI, rule exI, rule superblock.equality) (simp_all add: release_format_def)
qed simp_all

lemma release_frame:
  assumes mt: "mounted f bs" and rs: "in_range (fv_block_allocator f) rs" and c: "in_range (fv_inode_allocator f) [c]"
    and a: "a \<in> table_area f \<union> data_area f"
  shows "release_blocks f bs rs c ! a = bs ! a"
proof -
  note dis = areas_disjoint [OF mt]
  have "a \<noteq> 0" "a \<notin> inode_bitmap_area f" "a \<notin> block_bitmap_area f" using a dis by auto
  then show ?thesis
    unfolding release_blocks_def
    using rs c upd_bits_other [of a "fv_inode_allocator f" "[c]" clear_op] upd_bits_other [of a "fv_block_allocator f" rs clear_op]
    by (simp add: inode_bitmap_area_def block_bitmap_area_def not_le not_less del: foldl_Cons)
qed

lemma release_bits:
  assumes mt: "mounted f bs" and wf: "wf_blocks bs"
    and rs: "in_range (fv_block_allocator f) rs" and c: "in_range (fv_inode_allocator f) [c]"
  shows "x < unat (ba_size (fv_inode_allocator f)) * 2048 \<Longrightarrow>
      bit_at (fv_inode_allocator f) (release_blocks f bs rs c) x \<longleftrightarrow> x \<noteq> unat c \<and> bit_at (fv_inode_allocator f) bs x"
    "x < unat (ba_size (fv_block_allocator f)) * 2048 \<Longrightarrow>
      bit_at (fv_block_allocator f) (release_blocks f bs rs c) x \<longleftrightarrow> x \<notin> unat ` set rs \<and> bit_at (fv_block_allocator f) bs x"
proof -
  note dis = areas_disjoint [OF mt] and ok = mounted_ok [OF mt]
  let ?b1 = "foldl (upd_bit (fv_block_allocator f) clear_op) bs rs"
  let ?b2 = "foldl (upd_bit (fv_inode_allocator f) clear_op) ?b1 [c]"
  have z: "?b2[0 := v] ! a = ?b2 ! a" if "a \<in> inode_bitmap_area f \<union> block_bitmap_area f" for a v
    using that dis(1,2) by (metis Un_iff nth_list_update_neq)
  have o2: "?b2 ! a = ?b1 ! a" if "a \<in> block_bitmap_area f" for a
    using that dis(5) c by (intro upd_bits_other) (auto simp: inode_bitmap_area_def disjoint_iff not_le not_less)
  have o1: "?b1 ! a = bs ! a" if "a \<in> inode_bitmap_area f" for a
    using that dis(5) rs by (intro upd_bits_other) (auto simp: block_bitmap_area_def disjoint_iff not_le not_less)
  show "bit_at (fv_inode_allocator f) (release_blocks f bs rs c) x \<longleftrightarrow> x \<noteq> unat c \<and> bit_at (fv_inode_allocator f) bs x"
    if "x < unat (ba_size (fv_inode_allocator f)) * 2048"
  proof -
    have "bit_at (fv_inode_allocator f) (release_blocks f bs rs c) x = bit_at (fv_inode_allocator f) ?b2 x"
      unfolding release_blocks_def by (rule inode_bits_frame [OF _ that]) (simp add: z del: foldl_Cons)
    also have "\<dots> \<longleftrightarrow> x \<notin> unat ` set [c] \<and> bit_at (fv_inode_allocator f) ?b1 x"
      using wf ok(1) c by (intro upd_bits_fold(2)) simp_all
    also have "bit_at (fv_inode_allocator f) ?b1 x = bit_at (fv_inode_allocator f) bs x"
      by (rule inode_bits_frame [OF o1 that])
    finally show ?thesis by simp
  qed
  show "bit_at (fv_block_allocator f) (release_blocks f bs rs c) x \<longleftrightarrow> x \<notin> unat ` set rs \<and> bit_at (fv_block_allocator f) bs x"
    if "x < unat (ba_size (fv_block_allocator f)) * 2048"
  proof -
    have "bit_at (fv_block_allocator f) (release_blocks f bs rs c) x = bit_at (fv_block_allocator f) ?b1 x"
      unfolding release_blocks_def by (rule bits_frame [OF _ that]) (simp add: z o2 del: foldl_Cons)
    then show ?thesis using upd_bits_fold(2) [OF wf ok(2) rs] by simp
  qed
qed

context block_device
begin

lemma free_file_execs:
  assumes mt: "mounted f bs" and i: "inode_wf i" "meta_ok (fv_inode_handler f) bs i"
    and rs: "in_range (fv_block_allocator f) (inode_blocks (fv_inode_handler f) bs i)" and c: "in_range (fv_inode_allocator f) [c]"
    and fit: "unat (sb_free_data (fv_superblock f)) + unat (in_blocks i) < 2 ^ 32" "unat (sb_free_inodes (fv_superblock f)) + 1 < 2 ^ 32"
  defines "xs \<equiv> inode_blocks (fv_inode_handler f) bs i"
  shows "fs_execs inv blks (free_file ops i c) f bs (Ok ()) (release_format f xs) (release_blocks f bs xs c)"
proof -
  note ok = mounted_ok [OF mt]
  let ?h = "fv_inode_handler f"
  have len: "length xs = unat (in_blocks i)" by (simp add: xs_def inode_blocks_def)
  have "execs inv blks (foldM (\<lambda>k data. bindM (get_block ops ?h i k) (\<lambda>block. returnM (data @ [block])))
      (u32_range 0 (in_blocks i)) (take 0 xs)) bs (Ok (take (length (u32_range 0 (in_blocks i))) xs)) bs"
  proof (rule execs_foldM [where b = "\<lambda>_. bs" and acc = "\<lambda>k. take k xs"])
    fix k assume "k < length (u32_range 0 (in_blocks i))"
    then have k: "k < unat (in_blocks i)" by simp
    then have w: "unat (of_nat k :: u32) = k" by (intro unat_of_nat_le less_imp_le)
    then have "(of_nat k :: u32) < in_blocks i" using k by (simp add: word_less_nat_alt)
    from get_block_execs [OF i this] w
    show "execs inv blks (bindM (get_block ops ?h i (u32_range 0 (in_blocks i) ! k)) (\<lambda>block. returnM (take k xs @ [block]))) bs
        (Ok (take (Suc k) xs)) bs"
      using k len by (auto simp: xs_def take_Suc_conv_app_nth intro!: execs_bind)
  qed
  then have get: "execs inv blks (foldM (\<lambda>k data. bindM (get_block ops ?h i k) (\<lambda>block. returnM (data @ [block])))
      (u32_range 0 (in_blocks i)) []) bs (Ok xs) bs" using len by simp
  let ?b1 = "foldl (upd_bit (fv_block_allocator f) clear_op) bs xs"
  have ok1: "bitmap_ok (fv_inode_allocator f) (length ?b1)" using ok(1) by simp
  note de = deallocate_execs [OF ok(2) rs [folded xs_def]] deallocate_execs [OF ok1 c]
  have add: "addW (sb_free_data (fv_superblock f)) (of_nat (length xs)) = Ok (sb_free_data (fv_superblock f) + of_nat (length xs))"
    "addW (sb_free_inodes (fv_superblock f)) 1 = Ok (sb_free_inodes (fv_superblock f) + 1)"
    using fit by (simp_all add: addW_def len)
  have pos: "0 < length (foldl (upd_bit (fv_inode_allocator f) clear_op) ?b1 [c])" using mounted_pos [OF mt] by simp
  note ws = write_superblock_execs [OF pos, of "release_format f xs"]
  show ?thesis
    unfolding free_file_def
  proof (rule fs_bind_self, rule fs_bind_dev [OF get], rule fs_bind_dev [OF de(1)], rule fs_bind_update,
      rule fs_bind_dev [OF de(2)], rule fs_bind_update, simp only: add bindM_liftM_Ok, rule fs_bind_update,
      rule fs_bind_update)
  qed (use ws in \<open>simp add: release_format_def release_blocks_def\<close>)
qed

end



section \<open>Deleting a child\<close>

text \<open>
  The child \<open>c\<close> of a directory, with its inode: nothing but itself uses its blocks, and the counters of
  the superblock can take what it gives back.
\<close>

definition child_ready :: "format_v1 \<Rightarrow> bytes list \<Rightarrow> u32 \<Rightarrow> inode \<Rightarrow> u32 \<Rightarrow> inode \<Rightarrow> bool" where
  "child_ready f bs p pi c ci \<longleftrightarrow>
     live_inode f bs c ci \<and> c \<noteq> p \<and> inode_wf ci \<and> meta_ok (fv_inode_handler f) bs ci \<and> file_sep (fv_inode_handler f) bs ci \<and>
     (\<forall>a \<in> owned (fv_inode_handler f) bs ci. marked f bs a) \<and>
     owned (fv_inode_handler f) bs ci \<inter> owned (fv_inode_handler f) bs pi = {} \<and>
     unat (sb_free_data (fv_superblock f)) + unat (in_blocks ci) < 2 ^ 32 \<and> unat (sb_free_inodes (fv_superblock f)) + 1 < 2 ^ 32"

text \<open>A directory that holds only \<open>.\<close> and \<open>..\<close>.\<close>

definition empty_dir :: "format_v1 \<Rightarrow> bytes list \<Rightarrow> inode \<Rightarrow> bool" where
  "empty_dir f bs i \<longleftrightarrow>
     (\<exists>ess. dir_layout (fv_inode_handler f) bs i ess \<and> (\<forall>e \<in> set (live ess). name_of e = [dot] \<or> name_of e = [dot, dot]))"

text \<open>
  \<open>child_removed f bs p pi ess now c ci e f' bs'\<close>: the entry \<open>e\<close> of the directory \<open>p\<close> is gone, and with it
  the inode \<open>c\<close> and its data blocks, which are free now; every other inode is as it was, and of the
  blocks in use only the blocks of \<open>p\<close> have changed.
\<close>

definition child_removed ::
  "format_v1 \<Rightarrow> bytes list \<Rightarrow> u32 \<Rightarrow> inode \<Rightarrow> dir_entry list list \<Rightarrow> u64 \<Rightarrow> u32 \<Rightarrow> inode \<Rightarrow> dir_entry \<Rightarrow>
   format_v1 \<Rightarrow> bytes list \<Rightarrow> bool" where
  "child_removed f bs p pi ess now c ci e f' bs' \<longleftrightarrow>
     fv_inode_handler f' = fv_inode_handler f \<and> fv_open_files f' = fv_open_files f \<and>
     sb_root_inode (fv_superblock f') = sb_root_inode (fv_superblock f) \<and> length bs' = length bs \<and>
     sb_free_inodes (fv_superblock f') = sb_free_inodes (fv_superblock f) + 1 \<and>
     sb_free_data (fv_superblock f') = sb_free_data (fv_superblock f) + in_blocks ci \<and>
     (\<forall>x < unat (ba_max_index (fv_inode_allocator f)).
        bit_at (fv_inode_allocator f') bs' x \<longleftrightarrow> x \<noteq> unat c \<and> bit_at (fv_inode_allocator f) bs x) \<and>
     (\<exists>ess'. parent_ready f' bs' p (pi\<lparr>in_modified := now\<rparr>) ess' \<and> mset (live ess) = add_mset e (mset (live ess'))) \<and>
     owned (fv_inode_handler f) bs' pi = owned (fv_inode_handler f) bs pi \<and>
     (\<forall>m j. m \<noteq> p \<longrightarrow> m \<noteq> c \<longrightarrow> live_inode f bs m j \<longrightarrow> live_inode f' bs' m j) \<and>
     (\<forall>a. marked f' bs' a \<longleftrightarrow> marked f bs a \<and> a \<notin> data_addr (fv_inode_handler f) ` set (inode_blocks (fv_inode_handler f) bs ci)) \<and>
     (\<forall>a. marked f bs a \<longrightarrow> a \<notin> owned (fv_inode_handler f) bs pi \<longrightarrow> bs' ! a = bs ! a)"

lemma child_removedD:
  assumes "child_removed f bs p pi ess now c ci e f' bs'"
  shows "fv_inode_handler f' = fv_inode_handler f" "sb_root_inode (fv_superblock f') = sb_root_inode (fv_superblock f)" "length bs' = length bs"
    "owned (fv_inode_handler f) bs' pi = owned (fv_inode_handler f) bs pi"
    "m \<noteq> p \<Longrightarrow> m \<noteq> c \<Longrightarrow> live_inode f bs m j \<Longrightarrow> live_inode f' bs' m j"
    "marked f' bs' a \<longleftrightarrow> marked f bs a \<and> a \<notin> data_addr (fv_inode_handler f) ` set (inode_blocks (fv_inode_handler f) bs ci)"
    "marked f bs a \<Longrightarrow> a \<notin> owned (fv_inode_handler f) bs pi \<Longrightarrow> bs' ! a = bs ! a"
    "\<exists>ess'. parent_ready f' bs' p (pi\<lparr>in_modified := now\<rparr>) ess' \<and> mset (live ess) = add_mset e (mset (live ess'))"
  using assms unfolding child_removed_def by simp_all

lemma child_readyD:
  assumes mt: "mounted f bs" and cr: "child_ready f bs p pi c ci"
  shows "unat c < inode_count (fv_inode_handler f)" "in_range (fv_inode_allocator f) [c]"
    "in_range (fv_block_allocator f) (inode_blocks (fv_inode_handler f) bs ci)"
    "r \<in> set (inode_blocks (fv_inode_handler f) bs ci) \<Longrightarrow> unat r < unat (ba_max_index (fv_block_allocator f))"
proof -
  show c: "unat c < inode_count (fv_inode_handler f)" using cr by (simp add: child_ready_def live_inode_def)
  show "in_range (fv_inode_allocator f) [c]" using inode_limit(4) [OF mt c] by simp
  show lt: "unat r < unat (ba_max_index (fv_block_allocator f))" if "r \<in> set (inode_blocks (fv_inode_handler f) bs ci)" for r
  proof -
    have "marked f bs (data_addr (fv_inode_handler f) r)" using cr that by (auto simp: child_ready_def owned_def)
    then show ?thesis by (auto simp: marked_def data_addr_def)
  qed
  have "unat (ba_max_index (fv_block_allocator f)) \<le> unat (ba_size (fv_block_allocator f)) * 2048"
    using mounted_ok(2) [OF mt] by (simp add: bitmap_ok_def)
  with lt show "in_range (fv_block_allocator f) (inode_blocks (fv_inode_handler f) bs ci)" by fastforce
qed

lemma empty_callback_dots:
  assumes "dirent_ok e" "is_free e \<or> name_of e = [dot] \<or> name_of e = [dot, dot]"
  shows "empty_callback e r off a = Ok (False, a)"
proof (cases "is_free e")
  case False
  have len: "length (de_name e) = 64" "unat (de_name_len e) = length (name_of e)"
    using assms(1) False length_name_of [OF assms(1) False] by (auto simp: dirent_ok_def MAX_NAME_def)
  have tk: "name_of e = take (length (name_of e)) (de_name e)" using len(2) by (simp add: name_of_def)
  from assms(2) False consider "name_of e = [dot]" | "name_of e = [dot, dot]" by blast
  then show ?thesis
  proof cases
    case 1
    with tk have "de_name e ! 0 = dot" by (metis length_Cons list.size(3) nth_Cons_0 nth_take zero_less_one One_nat_def)
    moreover have "de_name_len e = 1" using len(2) 1 by (simp add: word_unat_eq_iff)
    ultimately show ?thesis using False len(1) by (simp add: empty_callback_def indexR_def)
  next
    case 2
    then have "de_name e ! 0 = [dot, dot] ! 0" "de_name e ! 1 = [dot, dot] ! 1" using tk by (metis length_Cons list.size(3) nth_take lessI zero_less_Suc One_nat_def)+
    moreover have "de_name_len e = 2" using len(2) 2 by (simp add: word_unat_eq_iff)
    ultimately show ?thesis using False len(1) by (simp add: empty_callback_def indexR_def)
  qed
qed (simp add: empty_callback_def)

text \<open>The device after the deletion of the last link.\<close>

abbreviation freed_child :: "format_v1 \<Rightarrow> bytes list \<Rightarrow> u32 \<Rightarrow> inode \<Rightarrow> bytes list" where
  "freed_child f bs c ci \<equiv> release_blocks f bs (inode_blocks (fv_inode_handler f) bs ci) c"

lemma owned_data: "a \<in> owned (fv_inode_handler f) bs i \<Longrightarrow> a \<in> data_area f"
  by (auto simp: owned_def data_area_def data_addr_def dest: meta_in_data)

context block_device
begin

lemma check_empty_execs:
  assumes mt: "mounted f bs" and e: "in_file_type ci = Directory \<Longrightarrow> empty_dir f bs ci"
  shows "fs_execs inv blks (check_empty ops ci path) f bs (Ok ()) f bs"
proof (cases "in_file_type ci = Directory")
  case True
  from e [OF True] obtain ess where dir: "dir_layout (fv_inode_handler f) bs ci ess"
    and dots: "\<forall>e \<in> set (live ess). name_of e = [dot] \<or> name_of e = [dot, dot]" by (auto simp: empty_dir_def)
  have "visit_blocks empty_callback (contents (fv_inode_handler f) bs ci ess) True =
      visit_blocks (\<lambda>e _ _ acc. Ok (False, acc)) (contents (fv_inode_handler f) bs ci ess) True"
  proof (rule visit_blocks_cong)
    fix e r off a assume m: "e \<in> \<Union> (set ` snd ` set (contents (fv_inode_handler f) bs ci ess))"
    then have "e \<in> set (concat ess)" unfolding contents_union [OF dir] .
    with dots show "empty_callback e r off a = Ok (False, a)"
      by (intro empty_callback_dots dir_layout_ok [OF dir m]) auto
  qed
  also have "\<dots> = Ok (Cont True)"
  proof -
    have "fold (\<lambda>_ a. a) xs b = b" for xs :: "dir_entry list" and b :: bool by (induction xs) simp_all
    then show ?thesis using visit_blocks_collect [of "\<lambda>_ a. a" "contents (fv_inode_handler f) bs ci ess" True] by simp
  qed
  finally have "execs inv blks (iterate ops (fv_directory_handler f) ci (fv_inode_handler f) empty_callback True) bs (Ok True) bs"
    using iterate_execs [OF dir mounted_ok(7) [OF mt]] by fastforce
  from fs_bind_dev [OF this] True show ?thesis
    unfolding check_empty_def by (simp, intro fs_bind_self) (fastforce intro: execs_return)
next
  case False
  then show ?thesis by (simp add: check_empty_def execs_return)
qed

lemma delete_entry_execs:
  assumes pr: "parent_ready f bs p pi ess" and cr: "child_ready f bs p pi c ci" and last: "\<not> 1 < in_links ci"
    and found: "locate_in (named name) (contents (fv_inode_handler f) bs pi ess) = Some (e, r, off)"
  defines "h \<equiv> fv_inode_handler f" and "bs1 \<equiv> freed_child f bs c ci"
  shows "\<exists>es ess'. layout es (image es) \<and> r \<in> set (inode_blocks h bs pi) \<and>
    dir_layout h (bs1[data_addr h r := image es]) pi ess' \<and> mset (live ess) = add_mset e (mset (live ess')) \<and>
    fs_execs inv blks (delete_entry ops now ci c pi p r off) f bs (Ok ())
      (release_format f (inode_blocks h bs ci)) (touch_dir f bs1 now p pi r es)"
proof -
  note P = parent_readyD [OF pr, folded h_def] and C = child_readyD [OF parent_readyD(1) [OF pr] cr, folded h_def]
  have mt1: "mounted f bs1" using P(1) mounted_length [of bs1 bs f] by (simp add: bs1_def)
  have kept: "bs1 ! a = bs ! a" if "a \<in> owned h bs pi" for a
    using that release_frame [OF P(1) C(3) [unfolded h_def] C(2)] owned_data [of a f bs pi] by (simp add: h_def bs1_def)
  have fr: "dir_layout h bs1 pi ess" "inode_blocks h bs1 pi = inode_blocks h bs pi" "meta_blocks h bs1 pi = meta_blocks h bs pi"
    using dir_frame [OF kept] P(4) by (simp_all add: bs1_def)
  have found1: "locate_in (named name) (contents h bs1 pi ess) = Some (e, r, off)"
    using found [folded h_def] unfolding fr(2) .
  from remove_located [OF fr(1) P(8) _ _ found1] P(5,6) fr(2,3) obtain es ess' where
    rem: "execs inv blks (free_region ops (fv_directory_handler f) r (of_nat off)) bs1 (Ok (de_record_len e)) (bs1[data_addr h r := image es])"
    and x: "layout es (image es)" "dir_layout h (bs1[data_addr h r := image es]) pi ess'"
      "mset (live ess) = add_mset e (mset (live ess'))" "r \<in> set (inode_blocks h bs pi)" by auto
  have ff: "fs_execs inv blks (free_file ops ci c) f bs (Ok ()) (release_format f (inode_blocks h bs ci)) bs1"
    using cr C(2,3) unfolding h_def bs1_def by (intro free_file_execs [OF P(1)]) (simp_all add: child_ready_def)
  note wp = touch_inode_execs [OF mt1 P(2) [unfolded h_def] P(3), folded h_def]
  have "fs_execs inv blks (delete_entry ops now ci c pi p r off) f bs (Ok ())
      (release_format f (inode_blocks h bs ci)) (touch_dir f bs1 now p pi r es)"
    unfolding delete_entry_def
    by (rule fs_bind_self, simp only: if_not_P [OF last], rule execs_bind [OF ff], rule fs_bind_dev [OF rem],
        rule dev_execs, simp only: h_def [symmetric], rule wp)
  with x show ?thesis by blast
qed

end

text \<open>What the writes of a deletion change: the bitmaps, the inodes, the blocks in use.\<close>

lemma removed_frame:
  fixes now :: u64
  assumes pr: "parent_ready f bs p pi ess" and cr: "child_ready f bs p pi c ci" and wf: "wf_blocks bs"
    and r: "r \<in> set (inode_blocks (fv_inode_handler f) bs pi)" and lay: "layout es (image es)"
  defines "h \<equiv> fv_inode_handler f" and "bs' \<equiv> touch_dir f (freed_child f bs c ci) now p pi r es"
  shows "x < unat (ba_size (fv_inode_allocator f)) * 2048 \<Longrightarrow>
      bit_at (fv_inode_allocator f) bs' x \<longleftrightarrow> x \<noteq> unat c \<and> bit_at (fv_inode_allocator f) bs x"
    "x < unat (ba_max_index (fv_block_allocator f)) \<Longrightarrow>
      bit_at (fv_block_allocator f) bs' x \<longleftrightarrow> x \<notin> unat ` set (inode_blocks h bs ci) \<and> bit_at (fv_block_allocator f) bs x"
    "inode_at h bs' p = Ok (pi\<lparr>in_modified := now\<rparr>)"
    "unat m < inode_count h \<Longrightarrow> m \<noteq> p \<Longrightarrow> inode_at h bs' m = inode_at h bs m"
    "marked f bs a \<Longrightarrow> a \<notin> owned h bs pi \<Longrightarrow> bs' ! a = bs ! a"
    "a \<in> owned h bs pi \<Longrightarrow> freed_child f bs c ci ! a = bs ! a"
proof -
  define bs1 where "bs1 = freed_child f bs c ci"
  note P = parent_readyD [OF pr, folded h_def] and C = child_readyD [OF parent_readyD(1) [OF pr] cr, folded h_def]
  have mt1: "mounted f bs1" using P(1) mounted_length [of bs1 bs f] by (simp add: bs1_def)
  have p: "unat p < inode_count (fv_inode_handler f)" using P(2) by (simp add: h_def)
  have w1: "wf_blocks bs1" using wf by (simp add: bs1_def wf_release_blocks)
  note T = touch_inodes [OF mt1 p w1 P(3) lay, folded h_def] and TB = touch_bits [OF mt1 p] and TF = touch_frame(1) [OF mt1 p, folded h_def]
  note B = release_bits [OF P(1) wf C(3) [unfolded h_def] C(2), folded bs1_def h_def] and F = release_frame [OF P(1) C(3) [unfolded h_def] C(2), folded h_def]
  have bs': "bs' = touch_dir f bs1 now p pi r es" by (simp add: bs'_def bs1_def)
  show "bit_at (fv_inode_allocator f) bs' x \<longleftrightarrow> x \<noteq> unat c \<and> bit_at (fv_inode_allocator f) bs x"
    if "x < unat (ba_size (fv_inode_allocator f)) * 2048" for x
    using TB(1) [OF that] B(1) [OF that] by (simp add: bs')
  have "unat (ba_max_index (fv_block_allocator f)) \<le> unat (ba_size (fv_block_allocator f)) * 2048"
    using mounted_ok(2) [OF P(1)] by (simp add: bitmap_ok_def)
  then show "bit_at (fv_block_allocator f) bs' x \<longleftrightarrow> x \<notin> unat ` set (inode_blocks h bs ci) \<and> bit_at (fv_block_allocator f) bs x"
    if "x < unat (ba_max_index (fv_block_allocator f))" for x
    using TB(2) [of x] B(2) [of x] that by (simp add: bs' h_def)
  show "inode_at h bs' p = Ok (pi\<lparr>in_modified := now\<rparr>)" using T(1) by (simp add: bs')
  show "inode_at h bs' m = inode_at h bs m" if "unat m < inode_count h" "m \<noteq> p" for m
  proof -
    have "inode_at h bs1 m = inode_at h bs m"
      using inode_limit(3) [OF P(1), folded h_def, OF that(1)] by (intro inode_at_frame) (simp add: F [unfolded h_def] bs1_def h_def)
    with T(2) [OF that] show ?thesis by (simp add: bs')
  qed
  show "bs' ! a = bs ! a" if "marked f bs a" "a \<notin> owned h bs pi" for a
  proof -
    have "a \<noteq> data_addr h r" using that(2) r by (auto simp: owned_def h_def)
    then show ?thesis using TF [OF marked_data [OF that(1)]] F [of a] marked_data [OF that(1)] by (simp add: bs' bs1_def h_def)
  qed
  show "freed_child f bs c ci ! a = bs ! a" if "a \<in> owned h bs pi" for a
    using that F [of a] owned_data [of a f bs pi] by (simp add: h_def)
qed

lemma child_removedI:
  assumes pr: "parent_ready f bs p pi ess" and cr: "child_ready f bs p pi c ci" and wf: "wf_blocks bs"
    and r: "r \<in> set (inode_blocks (fv_inode_handler f) bs pi)" and lay: "layout es (image es)"
    and dir: "dir_layout (fv_inode_handler f) ((freed_child f bs c ci)[data_addr (fv_inode_handler f) r := image es]) pi ess'"
    and live: "mset (live ess) = add_mset e (mset (live ess'))"
  shows "child_removed f bs p pi ess now c ci e (release_format f (inode_blocks (fv_inode_handler f) bs ci))
    (touch_dir f (freed_child f bs c ci) now p pi r es)"
proof -
  define h where "h = fv_inode_handler f"
  define xs where "xs = inode_blocks h bs ci"
  note P = parent_readyD [OF pr, folded h_def] and C = child_readyD [OF parent_readyD(1) [OF pr] cr, folded h_def xs_def]
  note R = removed_frame(1-5) [OF pr cr wf r lay, where now = now, folded h_def, folded xs_def] and K = removed_frame(6) [OF pr cr wf r lay, folded h_def, folded xs_def]
    and dir' = dir [folded h_def, folded xs_def]
  note lim = inode_limit [OF P(1), folded h_def]
  let ?f' = "release_format f xs" let ?bs' = "touch_dir f (release_blocks f bs xs c) now p pi r es"
  have mounted: "mounted ?f' (release_blocks f bs xs c)"
    using release_mounted [OF P(1), of xs] mounted_length [of "release_blocks f bs xs c" bs ?f'] by simp
  have "unat p \<noteq> unat c" using cr by (auto simp: child_ready_def word_unat_eq_iff)
  then have live_p: "live_inode ?f' ?bs' p (pi\<lparr>in_modified := now\<rparr>)"
    using P(2,9) R(3) R(1) [OF lim(4) [OF P(2)]] by (simp add: live_inode_def h_def)
  have live_m: "live_inode ?f' ?bs' m j" if "m \<noteq> p" "m \<noteq> c" "live_inode f bs m j" for m j
  proof -
    have m: "unat m < inode_count h" "bit_at (fv_inode_allocator f) bs (unat m)" "inode_at h bs m = Ok j"
      using that(3) by (simp_all add: live_inode_def h_def)
    have "unat m \<noteq> unat c" using that(2) by (simp add: word_unat_eq_iff)
    with m that(1) R(4) [OF m(1)] R(1) [OF lim(4) [OF m(1)]] show ?thesis by (simp add: live_inode_def h_def)
  qed
  have marks: "marked ?f' ?bs' a \<longleftrightarrow> marked f bs a \<and> a \<notin> data_addr h ` set xs" for a
    unfolding marked_def using R(2) by (auto simp: h_def data_addr_def image_iff)
  have disj: "a \<notin> data_addr h ` set xs" if "a \<in> owned h bs pi" for a
    using that cr unfolding child_ready_def owned_def by (auto simp: h_def xs_def)
  have ready: "parent_ready ?f' ?bs' p (pi\<lparr>in_modified := now\<rparr>) ess'"
    using live_p marks disj P(7) dir' K unfolding h_def
    by (intro touch_parent(1) [OF pr _ _ r _ _ mounted]) simp_all
  have own: "owned h ?bs' pi = owned h bs pi"
    using live_p marks disj P(7) dir' K unfolding h_def
    by (intro touch_parent(2) [OF pr _ _ r _ _ mounted]) simp_all
  have counts: "sb_free_inodes (fv_superblock ?f') = sb_free_inodes (fv_superblock f) + 1"
    "sb_free_data (fv_superblock ?f') = sb_free_data (fv_superblock f) + in_blocks ci"
    "sb_root_inode (fv_superblock ?f') = sb_root_inode (fv_superblock f)" "length ?bs' = length bs"
    by (simp_all add: release_format_def xs_def inode_blocks_def)
  have same: "fv_inode_handler ?f' = h" "fv_open_files ?f' = fv_open_files f" by (simp_all add: h_def)
  have "unat (ba_max_index (fv_inode_allocator f)) \<le> unat (ba_size (fv_inode_allocator f)) * 2048"
    using mounted_ok(1) [OF P(1)] by (simp add: bitmap_ok_def)
  then have bits: "\<forall>x < unat (ba_max_index (fv_inode_allocator f)).
      bit_at (fv_inode_allocator ?f') ?bs' x \<longleftrightarrow> x \<noteq> unat c \<and> bit_at (fv_inode_allocator f) bs x"
    using R(1) by simp
  show ?thesis
    unfolding child_removed_def unfolding h_def [symmetric] unfolding xs_def [symmetric]
    using same counts live_m marks R(5) ready own live bits by blast
qed

context block_device
begin

lemma delete_entry_removes:
  assumes pr: "parent_ready f bs p pi ess" and cr: "child_ready f bs p pi c ci" and wf: "wf_blocks bs"
    and last: "\<not> 1 < in_links ci" and found: "locate_in (named name) (contents (fv_inode_handler f) bs pi ess) = Some (e, r, off)"
  shows "\<exists>f' bs'. fs_execs inv blks (delete_entry ops now ci c pi p r off) f bs (Ok ()) f' bs' \<and>
    child_removed f bs p pi ess now c ci e f' bs'"
  using delete_entry_execs [OF pr cr last found, of now] child_removedI [OF pr cr wf] by blast

lemma delete_child_execs:
  assumes pr: "parent_ready f bs p pi ess" and cr: "child_ready f bs p pi (de_inode e) ci" and wf: "wf_blocks bs"
    and last: "\<not> 1 < in_links ci" and name: "name \<noteq> [dot]" "name \<noteq> [dot, dot]"
    and e: "e \<in> set (concat ess)" "named name e" "\<forall>x \<in> set (concat ess). named name x \<longrightarrow> x = e"
    and type: "tt = None \<or> tt = Some (in_file_type ci)" and empty: "in_file_type ci = Directory \<Longrightarrow> empty_dir f bs ci"
  shows "\<exists>f' bs'. fs_execs inv blks (delete_child ops now name p tt) f bs (Ok ()) f' bs' \<and>
    child_removed f bs p pi ess now (de_inode e) ci e f' bs'"
proof -
  note P = parent_readyD [OF pr]
  have lp: "live_inode f bs p pi" and lc: "live_inode f bs (de_inode e) ci" and type_p: "in_file_type pi = Directory"
    using pr cr by (simp_all add: parent_ready_def child_ready_def)
  let ?h = "fv_inode_handler f"
  have "locate_in (named name) (contents ?h bs pi ess) \<noteq> None"
    unfolding locate_in_None contents_union [OF P(4)] using e(1,2) by blast
  then obtain x r off where "locate_in (named name) (contents ?h bs pi ess) = Some (x, r, off)" by (metis not_None_eq prod_cases3)
  moreover from located_block [OF P(4) this] e(3) have "x = e" by metis
  ultimately have found: "locate_in (named name) (contents ?h bs pi ess) = Some (e, r, off)" by simp
  note find = find_entry_execs [OF P(4,8), of name, unfolded found]
  from delete_entry_removes [OF pr cr wf last found, of now] obtain f' bs' where
    x: "child_removed f bs p pi ess now (de_inode e) ci e f' bs'"
    and run: "fs_execs inv blks (delete_entry ops now ci (de_inode e) pi p r off) f bs (Ok ()) f' bs'" by blast
  have tt: "fs_execs inv blks (case tt of Some t \<Rightarrow> if t \<noteq> in_file_type ci then throwM (wrong_type_error t path) else returnM ()
      | None \<Rightarrow> returnM ()) f bs (Ok ()) f bs" for path using type by (auto simp: execs_return)
  have "fs_execs inv blks (delete_child ops now name p tt) f bs (Ok ()) f' bs'"
    unfolding delete_child_def Let_def
    by (simp only: name simp_thms if_False, rule fs_bind_self, rule fs_bind_dev [OF live_allocated_execs(1) [OF P(1) lp]],
        simp only: simp_thms if_False, rule fs_bind_dev [OF live_allocated_execs(2) [OF P(1) lp]],
        simp only: type_p simp_thms if_False, rule fs_bind_dev [OF find], simp only: option.case prod.case,
        rule fs_bind_dev [OF live_allocated_execs(2) [OF P(1) lc]], rule execs_bind [OF tt],
        rule execs_bind [OF check_empty_execs [OF P(1) empty]], assumption, rule run)
  with x show ?thesis by blast
qed

end

text \<open>
  C3. \<open>delete_child\<close> on a mounted volume, for the only entry with that name, whose inode has one link,
  has the type asked for, and is an empty directory if it is one: it succeeds; the entry is gone from
  the parent, the inode and its data blocks are free, the counters go up by what was freed, every other
  inode and every block in use outside the parent directory is as it was, and the volume stays
  well-formed. The pointer blocks of the inode stay marked.
\<close>

theorem delete_child_removes:
  assumes dev: "block_device ops blks dinv" and d: "dinv d" and pr: "parent_ready f (blks d) p pi ess"
    and cr: "child_ready f (blks d) p pi (de_inode e) ci" and last: "\<not> 1 < in_links ci"
    and name: "name \<noteq> [dot]" "name \<noteq> [dot, dot]"
    and e: "e \<in> set (concat ess)" "named name e" "\<forall>x \<in> set (concat ess). named name x \<longrightarrow> x = e"
    and type: "tt = None \<or> tt = Some (in_file_type ci)" and empty: "in_file_type ci = Directory \<longrightarrow> empty_dir f (blks d) ci"
  shows "\<exists>f' d'. delete_child ops now name p tt (f, d) = (Ok (), f', d') \<and> dinv d' \<and>
    child_removed f (blks d) p pi ess now (de_inode e) ci e f' (blks d') \<and>
    (\<forall>a \<in> set (meta_blocks (fv_inode_handler f) (blks d) ci). marked f' (blks d') a)"
proof -
  from block_device.delete_child_execs [OF dev pr cr block_device.blocks_wf [OF dev d] last name e type] empty obtain f' bs' where
    run: "fs_execs dinv blks (delete_child ops now name p tt) f (blks d) (Ok ()) f' bs'"
    and x: "child_removed f (blks d) p pi ess now (de_inode e) ci e f' bs'" by blast
  have "marked f' bs' a" if a: "a \<in> set (meta_blocks (fv_inode_handler f) (blks d) ci)" for a
  proof -
    have "marked f (blks d) a" using cr a by (simp add: child_ready_def owned_def)
    moreover have "a \<notin> data_addr (fv_inode_handler f) ` set (inode_blocks (fv_inode_handler f) (blks d) ci)"
      using cr a by (auto simp: child_ready_def file_sep_def)
    ultimately show ?thesis using x unfolding child_removed_def by metis
  qed
  with fs_execsD [OF run d refl] x show ?thesis by blast
qed

lemma link_ready:
  "parent_ready demo_format link_blocks 0 (link_inodes 0) [link_entries]"
  "child_ready demo_format link_blocks 0 (link_inodes 0) 1 (link_inodes 1)"
proof -
  note V = link_volume
  have h: "fv_inode_handler demo_format = demo_handler" by (simp add: demo_format_def)
  have blk: "inode_blocks demo_handler link_blocks (link_inodes 0) = [0]" "inode_blocks demo_handler link_blocks (link_inodes 1) = [1]"
    "meta_blocks demo_handler link_blocks (link_inodes n) = []" "in_blocks (link_inodes n) = 1" for n
    by (simp_all add: inode_blocks_def block_at_def meta_blocks_def link_inodes_def demo_inode_def)
  have own: "owned demo_handler link_blocks (link_inodes 0) = {4}" "owned demo_handler link_blocks (link_inodes 1) = {5}"
    unfolding owned_def blk by (simp_all add: data_addr_def demo_handler_def inode_table_handler_new_def)
  have "link_blocks ! 2 = demo_blocks ! 2" by (simp add: link_blocks_def demo_blocks_def put_inode_def demo_slots)
  then have "bit_at (fv_block_allocator demo_format) link_blocks x = bit_at (fv_block_allocator demo_format) demo_blocks x" if "x < 8" for x
    using that by (simp add: bit_at_def demo_format_def bitmap_allocator_new_def)
  then have mk: "marked demo_format link_blocks a = marked demo_format demo_blocks a" for a
    unfolding marked_def by (intro ex_cong1 conj_cong) (auto simp: demo_format_def bitmap_allocator_new_def)
  have marks: "marked demo_format link_blocks 4" "marked demo_format link_blocks 5" using mk demo_marked [of 0] demo_marked [of 1] by simp_all
  show "parent_ready demo_format link_blocks 0 (link_inodes 0) [link_entries]"
    using V(2,4,6) marks(1) by (simp add: parent_ready_def h own file_sep_def blk) (simp add: link_inodes_def)
  have "inode_wf (link_inodes 1)" by (simp add: link_inodes_def inode_wf_def demo_inode_def)
  then show "child_ready demo_format link_blocks 0 (link_inodes 0) 1 (link_inodes 1)"
    using V(5) marks(2) by (simp add: child_ready_def h own file_sep_def blk meta_ok_def) (simp add: demo_format_def demo_superblock_def)
qed

theorem delete_child_removes_witness:
  "\<exists>f' d'. delete_child mem_ops 5 [97] 0 (Some Symlink) (demo_format, \<lparr>md_blocks = link_blocks\<rparr>) = (Ok (), f', d') \<and>
    child_removed demo_format link_blocks 0 (link_inodes 0) [link_entries] 5 1 (link_inodes 1) (small_entry 1 Symlink [97] 12) f' (md_blocks d')"
proof -
  let ?e = "small_entry 1 Symlink [97] 12" let ?d = "\<lparr>md_blocks = link_blocks\<rparr>"
  have e: "\<not> is_free ?e" "name_of ?e = [97]" "de_inode ?e = 1"
    using small_entry_ok [of 1 "[97]" 12 Symlink] by (simp_all add: MAX_NAME_def BLOCK_SIZE_def INVALID_ADDRESS_def) (simp add: small_entry_def)
  have nm: "?e \<in> set (concat [link_entries])" "named [97] ?e" "\<forall>x \<in> set (concat [link_entries]). named [97] x \<longrightarrow> x = ?e"
    using e by (auto simp: link_entries_def named_def)
  have pr: "parent_ready demo_format (md_blocks ?d) 0 (link_inodes 0) [link_entries]"
    and cr: "child_ready demo_format (md_blocks ?d) 0 (link_inodes 0) (de_inode ?e) (link_inodes 1)" using link_ready e(3) by simp_all
  have i: "\<not> 1 < in_links (link_inodes 1)" "Some Symlink = None \<or> Some Symlink = Some (in_file_type (link_inodes 1))"
    "in_file_type (link_inodes 1) = Directory \<longrightarrow> empty_dir demo_format (md_blocks ?d) (link_inodes 1)"
    by (simp_all add: link_inodes_def demo_inode_def inode_empty_def)
  have u: "[97] \<noteq> [dot]" "[97] \<noteq> [dot, dot]" by simp_all
  from delete_child_removes [OF mem.block_device_axioms link_volume(1) pr cr i(1) u nm i(2,3), of 5] e(3) show ?thesis by auto
qed


section \<open>Creating and deleting\<close>

text \<open>A new child can be deleted again.\<close>

lemma created_ready:
  assumes pr: "parent_ready f bs p pi ess" and al: "can_allocate f bs t" and wf: "inode_wf i"
    and i: "i = child_inode f bs now t" and add: "child_added f bs p pi ess now n i e f' bs'"
  shows "child_ready f' bs' p (pi\<lparr>in_modified := now\<rparr>) n i"
proof -
  let ?h = "fv_inode_handler f"
  note P = parent_readyD [OF pr]
  have ys: "child_data f bs t = [] \<or> (\<exists>b. child_data f bs t = [b])" using child_data_props(1,2) [OF P(1) al] by blast
  have len: "unat (in_blocks i) = nblocks t"
    using ys child_data_props(1,2) [OF P(1) al] unfolding i child_inode_def
    by (cases "t = File") (auto simp: fresh_inode_def inode_empty_def nblocks_def)
  have "distinct (inode_blocks ?h bs' i)" "meta_blocks ?h bs' i = []"
    using ys by (auto simp: i child_inode_def fresh_inode_blocks)
  then have blk: "file_sep ?h bs' i" "meta_ok ?h bs' i" using len by (simp_all add: file_sep_def meta_ok_def nblocks_def)
  have h: "fv_inode_handler f' = ?h" and live: "live_inode f' bs' n i"
    and marks: "\<And>a. marked f' bs' a \<longleftrightarrow> marked f bs a \<or> a \<in> owned ?h bs' i" "\<And>a. a \<in> owned ?h bs' i \<Longrightarrow> \<not> marked f bs a"
    and own: "owned ?h bs' pi = owned ?h bs pi" and new: "\<not> bit_at (fv_inode_allocator f) bs (unat n)"
    and cnt: "sb_free_inodes (fv_superblock f') = sb_free_inodes (fv_superblock f) - 1"
      "sb_free_data (fv_superblock f') = sb_free_data (fv_superblock f) - in_blocks i"
    using add unfolding child_added_def by blast+
  have "n \<noteq> p" using new P(9) by auto
  moreover have "owned ?h bs' i \<inter> owned ?h bs' (pi\<lparr>in_modified := now\<rparr>) = {}" using marks(2) P(7) own by auto
  moreover have le: "unat (in_blocks i) \<le> unat (sb_free_data (fv_superblock f))" "1 \<le> unat (sb_free_inodes (fv_superblock f))"
    using al len by (simp_all add: can_allocate_def word_le_nat_alt)
  moreover have "unat (sb_free_data (fv_superblock f) - in_blocks i) = unat (sb_free_data (fv_superblock f)) - unat (in_blocks i)"
    "unat (sb_free_inodes (fv_superblock f) - 1) = unat (sb_free_inodes (fv_superblock f)) - 1"
    using unat_sub_small [OF le(1)] unat_sub_small [of 1 "sb_free_inodes (fv_superblock f)"] le(2) by simp_all
  ultimately show ?thesis
    unfolding child_ready_def h cnt
    using live wf blk marks(1) unat_u32_bound [of "sb_free_data (fv_superblock f)"] unat_u32_bound [of "sb_free_inodes (fv_superblock f)"]
    by simp
qed

lemma added_removed:
  assumes add: "child_added f bs p pi ess now n i e f1 bs1" and live1: "mset (live ess1) = add_mset e (mset (live ess))"
    and rem: "child_removed f1 bs1 p (pi\<lparr>in_modified := now\<rparr>) ess1 now' n i e f2 bs2"
    and meta: "meta_blocks (fv_inode_handler f) bs1 i = []"
  shows "\<exists>ess2. parent_ready f2 bs2 p (pi\<lparr>in_modified := now'\<rparr>) ess2 \<and> mset (live ess2) = mset (live ess)"
    "free_inodes_count f2 = free_inodes_count f" "free_data_blocks_count f2 = free_data_blocks_count f"
    "marked f2 bs2 a \<longleftrightarrow> marked f bs a"
    "m \<noteq> p \<Longrightarrow> live_inode f bs m j \<Longrightarrow> live_inode f2 bs2 m j"
    "marked f bs a \<Longrightarrow> a \<notin> owned (fv_inode_handler f) bs pi \<Longrightarrow> bs2 ! a = bs ! a"
proof -
  let ?h = "fv_inode_handler f"
  note A = child_addedD [OF add] and R = child_removedD [OF rem, unfolded A(1) owned_attrs]
  from R(8) obtain ess2 where "parent_ready f2 bs2 p (pi\<lparr>in_modified := now, in_modified := now'\<rparr>) ess2"
    "mset (live ess1) = add_mset e (mset (live ess2))" by blast
  then show "\<exists>ess2. parent_ready f2 bs2 p (pi\<lparr>in_modified := now'\<rparr>) ess2 \<and> mset (live ess2) = mset (live ess)"
    using live1 by (intro exI [of _ ess2]) simp
  show "free_inodes_count f2 = free_inodes_count f" "free_data_blocks_count f2 = free_data_blocks_count f"
    using add rem by (simp_all add: child_added_def child_removed_def free_inodes_count_def free_data_blocks_count_def)
  have "data_addr ?h ` set (inode_blocks ?h bs1 i) = owned ?h bs1 i" using meta by (simp add: owned_def)
  then show "marked f2 bs2 a \<longleftrightarrow> marked f bs a" using R(6) [of a] A(8,9) [of a] by blast
  show "live_inode f2 bs2 m j" if m: "m \<noteq> p" "live_inode f bs m j"
  proof -
    have "m \<noteq> n" using A(5) m(2) by (auto simp: live_inode_def)
    then show ?thesis using R(5) [OF m(1) _ A(7) [OF m]] by blast
  qed
  show "bs2 ! a = bs ! a" if a: "marked f bs a" "a \<notin> owned ?h bs pi"
    using R(7) [of a] A(10) [OF a] A(8) [of a] a by (simp add: A(4))
qed

context block_device
begin

lemma delete_created_execs:
  fixes f :: format_v1 and bs :: "bytes list" and now :: u64 and t :: file_type and name :: bytes
  defines "n \<equiv> child_number f bs" and "i \<equiv> child_inode f bs now t" and "f1 \<equiv> child_format f bs t" and "e \<equiv> new_entry (child_number f bs) t name"
  assumes pr: "parent_ready f bs p pi ess" and al: "can_allocate f bs t"
    and name: "length name \<le> MAX_NAME" "name \<noteq> [dot]" "name \<noteq> [dot, dot]" "\<forall>e \<in> set (live ess). name_of e \<noteq> name"
    and add: "child_added f bs p pi ess now n i e f1 bs1" and wf: "wf_blocks bs1"
    and sub: "t = Directory \<longrightarrow> dir_layout (fv_inode_handler f) bs1 i [dir_start n p]"
    and pr1: "parent_ready f1 bs1 p (pi\<lparr>in_modified := now\<rparr>) ess1" and live1: "mset (live ess1) = add_mset e (mset (live ess))"
  shows "\<exists>f2 bs2. fs_execs inv blks (delete_child ops now' name p (Some t)) f1 bs1 (Ok ()) f2 bs2 \<and>
    child_removed f1 bs1 p (pi\<lparr>in_modified := now\<rparr>) ess1 now' n i e f2 bs2"
proof -
  note P = parent_readyD [OF pr]
  have cr: "child_ready f1 bs1 p (pi\<lparr>in_modified := now\<rparr>) (de_inode e) i"
    using created_ready [OF pr al _ refl add [unfolded i_def]] by (simp add: child_inode_def e_def i_def n_def)
  have n: "n \<noteq> INVALID_ADDRESS" "p \<noteq> INVALID_ADDRESS"
    using inode_limit(1) [OF P(1)] child_number_props(2) [OF P(1) al] P(2) unfolding n_def by blast+
  note ok = new_entry_ok [OF name(1), of "child_number f bs" t, folded e_def n_def]
  have mem: "x \<in> set (live ess1) \<longleftrightarrow> x = e \<or> x \<in> set (live ess)" for x
    using live1 by (metis insert_iff set_mset_add_mset_insert set_mset_mset)
  have e: "e \<in> set (concat ess1)" "named name e" "\<forall>x \<in> set (concat ess1). named name x \<longrightarrow> x = e"
    using mem [of e] mem ok n(1) name(4) by (auto simp: named_def)
  have i: "\<not> 1 < in_links i" "Some t = None \<or> Some t = Some (in_file_type i)"
    unfolding i_def by (simp_all add: child_inode_def) (simp add: fresh_inode_def inode_empty_def split: list.split)
  have "empty_dir f1 bs1 i" if "in_file_type i = Directory"
  proof -
    have "name_of x = [dot] \<or> name_of x = [dot, dot]" if "x \<in> set (live [dir_start n p])" for x
      using that small_entry_ok [OF n(1), of "[46]" 12 Directory] small_entry_ok [OF n(2), of "[46, 46]" 12 Directory]
      by (auto simp: dir_start_def MAX_NAME_def BLOCK_SIZE_def)
    moreover have "t = Directory" using that by (simp add: child_inode_def i_def)
    ultimately show ?thesis using sub unfolding empty_dir_def f1_def child_format_def reserve_format_simps by blast
  qed
  from delete_child_execs [OF pr1 cr wf i(1) name(2,3) e i(2) this, of now'] show ?thesis by (simp only: e_def new_entry_simps n_def)
qed

end

text \<open>
  C16. A child that \<open>create_child\<close> made is removed by \<open>delete_child\<close>, and the volume is as before: the
  entries of the parent, the free counters, the blocks in use and every other inode are the old ones,
  and no block in use outside the parent directory has changed; for a file, a symbolic link, or a
  directory, with a name the parent does not have yet.
\<close>

theorem create_delete_restores:
  assumes dev: "block_device ops blks dinv" and d: "dinv d" and pr: "parent_ready f (blks d) p pi ess"
    and al: "can_allocate f (blks d) t" and t: "t \<noteq> Unknown"
    and name: "length name \<le> MAX_NAME" "name \<noteq> [dot]" "name \<noteq> [dot, dot]" "\<forall>e \<in> set (live ess). name_of e \<noteq> name"
    and short: "short_names ess" and room: "entry_room name ess"
  shows "\<exists>n i f1 d1 f2 d2 ess2. create_child ops now t name p (f, d) = (Ok (i, n), f1, d1) \<and>
    delete_child ops now' name p (Some t) (f1, d1) = (Ok (), f2, d2) \<and>
    parent_ready f2 (blks d2) p (pi\<lparr>in_modified := now'\<rparr>) ess2 \<and> mset (live ess2) = mset (live ess) \<and>
    free_inodes_count f2 = free_inodes_count f \<and> free_data_blocks_count f2 = free_data_blocks_count f \<and>
    (\<forall>a. marked f2 (blks d2) a \<longleftrightarrow> marked f (blks d) a) \<and>
    (\<forall>m j. m \<noteq> p \<longrightarrow> live_inode f (blks d) m j \<longrightarrow> live_inode f2 (blks d2) m j) \<and>
    (\<forall>a. marked f (blks d) a \<longrightarrow> a \<notin> owned (fv_inode_handler f) (blks d) pi \<longrightarrow> blks d2 ! a = blks d ! a)"
proof -
  let ?h = "fv_inode_handler f" let ?n = "child_number f (blks d)" let ?i = "child_inode f (blks d) now t"
  let ?f1 = "child_format f (blks d) t" let ?e = "new_entry ?n t name"
  from block_device.create_child_execs [OF dev pr al t block_device.blocks_wf [OF dev d] name(1) short room, of now] obtain bs1 where
    run: "fs_execs dinv blks (create_child ops now t name p) f (blks d) (Ok (?i, ?n)) ?f1 bs1"
    and add: "child_added f (blks d) p pi ess now ?n ?i ?e ?f1 bs1" and sub: "t = Directory \<longrightarrow> dir_layout ?h bs1 ?i [dir_start ?n p]" by blast
  from fs_execsD [OF run d refl] obtain d1 where d1: "create_child ops now t name p (f, d) = (Ok (?i, ?n), ?f1, d1)" "dinv d1" "blks d1 = bs1" by blast
  from add obtain ess1 where pr1: "parent_ready ?f1 bs1 p (pi\<lparr>in_modified := now\<rparr>) ess1" and live1: "mset (live ess1) = add_mset ?e (mset (live ess))"
    unfolding child_added_def by blast
  from block_device.delete_created_execs [OF dev pr al name add block_device.blocks_wf [OF dev d1(2), unfolded d1(3)] sub pr1 live1, of now']
  obtain f2 bs2 where run2: "fs_execs dinv blks (delete_child ops now' name p (Some t)) ?f1 bs1 (Ok ()) f2 bs2"
    and rem: "child_removed ?f1 bs1 p (pi\<lparr>in_modified := now\<rparr>) ess1 now' ?n ?i ?e f2 bs2" by blast
  from fs_execsD [OF run2 d1(2,3)] obtain d2 where d2: "delete_child ops now' name p (Some t) (?f1, d1) = (Ok (), f2, d2)" "dinv d2" "blks d2 = bs2" by blast
  have meta: "meta_blocks ?h bs1 ?i = []" by (simp add: child_inode_def fresh_inode_blocks)
  note R = added_removed [OF add live1 rem meta, folded d2(3)]
  from R(1) d1(1) d2(1) R(2-6) show ?thesis by blast
qed

theorem create_delete_restores_witness:
  "\<exists>d0 d n i f1 d1 f2 d2 ess2. format mem_ops 9 (mem_empty 16) = (Ok (), d0) \<and> mount mem_ops d0 = (Ok (fresh_format 16), d) \<and>
    create_child mem_ops 7 Directory [97] 0 (fresh_format 16, d) = (Ok (i, n), f1, d1) \<and>
    delete_child mem_ops 8 [97] 0 (Some Directory) (f1, d1) = (Ok (), f2, d2) \<and>
    parent_ready f2 (md_blocks d2) 0 ((root_inode 9)\<lparr>in_modified := 8\<rparr>) ess2 \<and> mset (live ess2) = mset (live [dir_start 0 0])"
proof -
  obtain d0 d where d: "format mem_ops 9 (mem_empty 16) = (Ok (), d0)" "mount mem_ops d0 = (Ok (fresh_format 16), d)"
    "mem_inv d" "formatted 9 (md_blocks d)" "length (md_blocks d) = 16" "mounted (fresh_format 16) (md_blocks d)" by (rule fresh_mem)
  have h: "Directory \<noteq> Unknown" "length [97 :: u8] \<le> MAX_NAME" "[97] \<noteq> [dot]" "[97] \<noteq> [dot, dot]" "entry_room [97] [dir_start 0 0]"
    by (simp_all add: MAX_NAME_def dir_start_room)
  have "\<forall>e \<in> set (live [dir_start 0 0]). name_of e \<noteq> [97]"
    using small_entry_ok [of 0 "[46]" 12 Directory] small_entry_ok [of 0 "[46, 46]" 12 Directory]
    by (simp add: dir_start_def MAX_NAME_def BLOCK_SIZE_def INVALID_ADDRESS_def)
  from create_delete_restores [OF mem.block_device_axioms d(3) fresh_parent [OF d(4,5)] h(1-4) this dir_start_room(1) h(5), of 7 8] d(1,2)
  show ?thesis by blast
qed

end
