(* ===== verification/Namespace.thy ===== *)
theory Namespace
  imports Deletion
begin

text \<open>
  The tree of names of a volume. A namespace maps the number of an inode to what a path can see of it: a
  file, a directory as a map from names to numbers, or a symbolic link with its target. \<open>follow\<close> is path
  resolution on a namespace; \<open>tree_at\<close> relates a namespace to a volume. Path resolution of the program
  implements \<open>follow\<close>, and the calls that create and delete by path are updates of the namespace.
\<close>


section \<open>Namespaces\<close>

datatype node = Leaf | Folder "bytes \<rightharpoonup> u32" | Link bytes

type_synonym namespace = "u32 \<rightharpoonup> node"

text \<open>The end of a walk: the number reached, the directory it was found in, and under which name.\<close>

record place =
  pl_target :: u32
  pl_parent :: u32
  pl_name :: "bytes option"

abbreviation start :: "u32 \<Rightarrow> place" where
  "start n \<equiv> \<lparr>pl_target = n, pl_parent = n, pl_name = None\<rparr>"

definition child_of :: "namespace \<Rightarrow> u32 \<Rightarrow> bytes \<Rightarrow> u32 option" where
  "child_of ns n name = (case ns n of Some (Folder m) \<Rightarrow> m name | _ \<Rightarrow> None)"

definition is_folder :: "namespace \<Rightarrow> u32 \<Rightarrow> bool" where
  "is_folder ns n \<longleftrightarrow> (case ns n of Some (Folder _) \<Rightarrow> True | _ \<Rightarrow> False)"

definition link_of :: "namespace \<Rightarrow> u32 \<Rightarrow> bytes option" where
  "link_of ns n = (case ns n of Some (Link t) \<Rightarrow> Some t | _ \<Rightarrow> None)"

text \<open>
  A link is followed unless it is the last component and \<open>final\<close> is off, from the root or from the
  directory that holds it; everything but the end of the path must be a directory. Links are nested at
  most 40 deep: \<open>it\<close> is the depth, as in \<open>_resolve\<close>, and links one after the other are not counted.
\<close>

function follow :: "namespace \<Rightarrow> u32 \<Rightarrow> nat \<Rightarrow> component list \<Rightarrow> bool \<Rightarrow> bytes \<Rightarrow> place \<Rightarrow> place res" where
  "follow ns root it [] final progress pl = Ok pl"
| "follow ns root it (c # rest) final progress pl =
     (if c = CurDir \<or> c = RootDir then follow ns root it rest final progress pl
      else
        let progress = join progress c; cur = pl_target pl; name = path_component_bytes c in
        case child_of ns cur name of
          None \<Rightarrow> Err (DoesNotExist progress)
        | Some n \<Rightarrow>
            if link_of ns n \<noteq> None \<and> (rest \<noteq> [] \<or> final)
            then
              let tgt = the (link_of ns n) in
              if 40 \<le> it then Err (MaximumSymlinkDepthReached progress 40)
              else if tgt = [] then Err (EmptySymlink progress)
              else
                bindR (follow ns root (it + 1) (components tgt) True [] (start (if hd tgt = slash then root else cur)))
                  (\<lambda>pl'. if rest \<noteq> [] \<and> \<not> is_folder ns (pl_target pl') then Err (NotADirectory progress)
                         else follow ns root it rest final progress pl')
            else if rest \<noteq> [] \<and> \<not> is_folder ns n then Err (NotADirectory progress)
            else follow ns root it rest final progress \<lparr>pl_target = n, pl_parent = cur, pl_name = Some name\<rparr>)"
  by pat_completeness auto
termination
  by (relation "measures [\<lambda>(_, _, it, _). 41 - it, \<lambda>(_, _, _, comps, _). length comps]") auto

declare follow.simps [simp del]


text \<open>A path one component longer, and a larger namespace.\<close>

lemma follow_snoc:
  assumes "follow ns root it xs True progress pl = Ok pl'" "is_folder ns (pl_target pl')"
  shows "\<exists>q. follow ns root it (xs @ [c]) final progress pl = follow ns root it [c] final q pl'"
  using assms(1)
proof (induction xs arbitrary: progress pl)
  case Nil
  then show ?case by (auto simp: follow.simps(1))
next
  case (Cons x xs)
  show ?case
  proof (cases "x = CurDir \<or> x = RootDir")
    case True
    with Cons show ?thesis by (simp add: follow.simps(2) [of _ _ _ x])
  next
    case False
    let ?p = "join progress x"
    from Cons.prems False obtain n where n: "child_of ns (pl_target pl) (path_component_bytes x) = Some n"
      by (auto simp: follow.simps(2) Let_def split: option.splits)
    have fin: "xs = [] \<Longrightarrow> follow ns root it xs True q pl1 = Ok pl' \<Longrightarrow> is_folder ns (pl_target pl1)" for q pl1
      using assms(2) by (simp add: follow.simps(1))
    show ?thesis
    proof (cases "link_of ns n")
      case None
      let ?pl = "\<lparr>pl_target = n, pl_parent = pl_target pl, pl_name = Some (path_component_bytes x)\<rparr>"
      from Cons.prems False n None have rest: "follow ns root it xs True ?p ?pl = Ok pl'" and f: "xs \<noteq> [] \<longrightarrow> is_folder ns n"
        by (auto simp: follow.simps(2) Let_def split: if_splits)
      with fin [OF _ rest] have "is_folder ns n" by auto
      with False n None Cons.IH [OF rest] show ?thesis by (simp add: follow.simps(2) [of _ _ _ x] Let_def)
    next
      case (Some t)
      from Cons.prems False n Some obtain pl1 where
        t: "it < 40" "t \<noteq> []" "follow ns root (it + 1) (components t) True [] (start (if hd t = slash then root else pl_target pl)) = Ok pl1"
          "xs \<noteq> [] \<longrightarrow> is_folder ns (pl_target pl1)" and rest: "follow ns root it xs True ?p pl1 = Ok pl'"
        by (auto simp: follow.simps(2) Let_def bindR_eq_Ok split: if_splits)
      with fin [OF _ rest] have "is_folder ns (pl_target pl1)" by auto
      with False n Some t(1-3) Cons.IH [OF rest] show ?thesis by (simp add: follow.simps(2) [of _ _ _ x] Let_def)
    qed
  qed
qed

definition extends :: "namespace \<Rightarrow> namespace \<Rightarrow> bool" where
  "extends ns ns' \<longleftrightarrow>
     (\<forall>n name k. child_of ns n name = Some k \<longrightarrow> child_of ns' n name = Some k \<and> link_of ns' k = link_of ns k) \<and>
     (\<forall>n. is_folder ns n \<longrightarrow> is_folder ns' n)"

lemma follow_mono:
  "extends ns ns' \<Longrightarrow> follow ns root it xs final progress pl = Ok pl' \<Longrightarrow> follow ns' root it xs final progress pl = Ok pl'"
proof (induction ns root it xs final progress pl arbitrary: pl' rule: follow.induct)
  case (1 ns root it final progress pl)
  then show ?case by (simp add: follow.simps)
next
  case (2 ns root it x xs final progress pl)
  show ?case
  proof (cases "x = CurDir \<or> x = RootDir")
    case True
    with 2(1) [OF True 2(5)] 2(6) show ?thesis by (simp add: follow.simps(2))
  next
    case False
    from 2(6) False obtain n where n: "child_of ns (pl_target pl) (path_component_bytes x) = Some n"
      by (auto simp: follow.simps(2) Let_def split: option.splits)
    then have n': "child_of ns' (pl_target pl) (path_component_bytes x) = Some n" "link_of ns' n = link_of ns n"
      using 2(5) by (auto simp: extends_def)
    have fold: "is_folder ns k \<Longrightarrow> is_folder ns' k" for k using 2(5) by (simp add: extends_def)
    show ?thesis
    proof (cases "link_of ns n \<noteq> None \<and> (xs \<noteq> [] \<or> final)")
      case True
      then obtain t where t: "link_of ns n = Some t" by blast
      from 2(6) False n True t obtain pl1 where
        f: "\<not> 40 \<le> it" "t \<noteq> []" "follow ns root (it + 1) (components t) True [] (start (if hd t = slash then root else pl_target pl)) = Ok pl1"
          "\<not> (xs \<noteq> [] \<and> \<not> is_folder ns (pl_target pl1))" and rest: "follow ns root it xs final (join progress x) pl1 = Ok pl'"
        by (auto simp: follow.simps(2) Let_def bindR_eq_Ok split: if_splits)
      have tt: "t = the (link_of ns n)" using t by simp
      note inner = 2(2) [OF False refl refl refl n True tt f(1,2) 2(5) f(3)]
      note rest' = 2(3) [OF False refl refl refl n True tt f(1-4) 2(5) rest]
      from False n' True t f(1,2,4) inner rest' fold show ?thesis by (subst follow.simps) (auto simp: Let_def)
    next
      case plain: False
      from 2(6) False n plain have
        f: "\<not> (xs \<noteq> [] \<and> \<not> is_folder ns n)" and rest: "follow ns root it xs final (join progress x)
          \<lparr>pl_target = n, pl_parent = pl_target pl, pl_name = Some (path_component_bytes x)\<rparr> = Ok pl'"
        by (auto simp: follow.simps(2) Let_def split: if_splits)
      from 2(4) [OF False refl refl refl n plain f 2(5) rest] False n' plain f fold show ?thesis by (subst follow.simps) (auto simp: Let_def)
    qed
  qed
qed


section \<open>The namespace of a volume\<close>

definition entry_map :: "dir_entry list list \<Rightarrow> bytes \<rightharpoonup> u32" where
  "entry_map ess = map_of (map (\<lambda>e. (name_of e, de_inode e)) (live ess))"

definition link_at :: "inode_table_handler \<Rightarrow> bytes list \<Rightarrow> inode \<Rightarrow> bytes \<Rightarrow> bool" where
  "link_at h bs i t \<longleftrightarrow>
     unat (in_size i) = length t \<and>
     (t \<noteq> [] \<longrightarrow> in_blocks i \<noteq> 0 \<and> length t \<le> BLOCK_SIZE \<and> data_addr h (in_direct i ! 0) < length bs \<and>
        take (length t) (bs ! data_addr h (in_direct i ! 0)) = t \<and> utf8_valid t)"

fun node_at :: "inode_table_handler \<Rightarrow> bytes list \<Rightarrow> inode \<Rightarrow> node \<Rightarrow> bool" where
  "node_at h bs i Leaf \<longleftrightarrow> in_file_type i = File"
| "node_at h bs i (Folder m) \<longleftrightarrow>
     in_file_type i = Directory \<and>
     (\<exists>ess. dir_layout h bs i ess \<and> distinct (map name_of (live ess)) \<and> m = entry_map ess)"
| "node_at h bs i (Link t) \<longleftrightarrow> in_file_type i = Symlink \<and> link_at h bs i t"

text \<open>An inode in use with blocks of its own, and what it shows to paths.\<close>

definition holds :: "format_v1 \<Rightarrow> bytes list \<Rightarrow> u32 \<Rightarrow> inode \<Rightarrow> node \<Rightarrow> bool" where
  "holds f bs n i x \<longleftrightarrow>
     live_inode f bs n i \<and> inode_wf i \<and> meta_ok (fv_inode_handler f) bs i \<and> file_sep (fv_inode_handler f) bs i \<and>
     (\<forall>a \<in> owned (fv_inode_handler f) bs i. marked f bs a) \<and> node_at (fv_inode_handler f) bs i x"

definition tree_at :: "format_v1 \<Rightarrow> bytes list \<Rightarrow> (u32 \<Rightarrow> inode) \<Rightarrow> namespace \<Rightarrow> bool" where
  "tree_at f bs I ns \<longleftrightarrow>
     mounted f bs \<and> is_folder ns (sb_root_inode (fv_superblock f)) \<and>
     (\<forall>n x. ns n = Some x \<longrightarrow> holds f bs n (I n) x) \<and>
     (\<forall>n k. n \<in> dom ns \<longrightarrow> k \<in> dom ns \<longrightarrow> n \<noteq> k \<longrightarrow>
        owned (fv_inode_handler f) bs (I n) \<inter> owned (fv_inode_handler f) bs (I k) = {}) \<and>
     (\<forall>n m. ns n = Some (Folder m) \<longrightarrow> ran m \<subseteq> dom ns)"

lemma tree_atD:
  assumes "tree_at f bs I ns"
  shows "mounted f bs" "dh_root_inode_ind (fv_directory_handler f) = sb_root_inode (fv_superblock f)"
    "is_folder ns (sb_root_inode (fv_superblock f))" "ns n = Some x \<Longrightarrow> holds f bs n (I n) x"
    "n \<in> dom ns \<Longrightarrow> k \<in> dom ns \<Longrightarrow> n \<noteq> k \<Longrightarrow> owned (fv_inode_handler f) bs (I n) \<inter> owned (fv_inode_handler f) bs (I k) = {}"
    "child_of ns n name = Some k \<Longrightarrow> k \<in> dom ns"
proof -
  show "child_of ns n name = Some k \<Longrightarrow> k \<in> dom ns"
    using assms ranI [of _ name k] unfolding tree_at_def child_of_def by (fastforce split: option.splits node.splits)
  show "dh_root_inode_ind (fv_directory_handler f) = sb_root_inode (fv_superblock f)"
    using assms mounted_fields(4) [of f bs] by (simp add: tree_at_def)
qed (use assms in \<open>auto simp: tree_at_def\<close>)

text \<open>A search for a name is a lookup in the map of the directory.\<close>

lemma locate_map_of:
  "map_option (\<lambda>(e, r, off). de_inode e) (locate_in (named name) bls) =
   map_of (map (\<lambda>e. (name_of e, de_inode e)) (live (map snd bls))) name"
proof (induction bls)
  case (Cons b bls)
  obtain r es where b: "b = (r, es)" by force
  have "map_option (de_inode \<circ> fst) (locate (named name) off es) =
      map_of (map (\<lambda>e. (name_of e, de_inode e)) (filter (\<lambda>e. \<not> is_free e) es)) name" for off
    by (induction es arbitrary: off) (auto simp: named_def)
  from this [of 0] show ?case
    using Cons by (auto simp: b map_add_def split: option.splits)
qed simp

lemma folder_search:
  assumes "dir_layout h bs i ess"
  shows "entry_map ess name = map_option (\<lambda>(e, r, off). de_inode e) (locate_in (named name) (contents h bs i ess))"
  unfolding locate_map_of dir_layout_contents [OF assms] entry_map_def ..

text \<open>The result of a resolution that has reached \<open>pl\<close>.\<close>

definition reached :: "format_v1 \<Rightarrow> bytes list \<Rightarrow> (u32 \<Rightarrow> inode) \<Rightarrow> namespace \<Rightarrow> place \<Rightarrow> resolution_result \<Rightarrow> bool" where
  "reached f bs I ns pl st \<longleftrightarrow>
     pl_target pl \<in> dom ns \<and> rr_target_inode_index st = pl_target pl \<and> rr_target_inode st = I (pl_target pl) \<and>
     rr_parent_inode_index st = pl_parent pl \<and>
     (\<forall>name. pl_name pl = Some name \<longrightarrow>
        (\<exists>ess e. parent_ready f bs (pl_parent pl) (I (pl_parent pl)) ess \<and> distinct (map name_of (live ess)) \<and>
           ns (pl_parent pl) = Some (Folder (entry_map ess)) \<and> de_inode e = pl_target pl \<and>
           locate_in (named name) (contents (fv_inode_handler f) bs (I (pl_parent pl)) ess) =
             Some (e, rr_dir_entry_block_index st, rr_dir_entry_offset st)))"

definition answers :: "format_v1 \<Rightarrow> bytes list \<Rightarrow> (u32 \<Rightarrow> inode) \<Rightarrow> namespace \<Rightarrow> place res \<Rightarrow> resolution_result res \<Rightarrow> bool" where
  "answers f bs I ns s r \<longleftrightarrow>
     (case s of Ok pl \<Rightarrow> (\<exists>st. r = Ok st \<and> reached f bs I ns pl st) | Err e \<Rightarrow> r = Err e | _ \<Rightarrow> False)"


section \<open>Path resolution\<close>

lemma follow_link:
  assumes c: "c \<noteq> CurDir" "c \<noteq> RootDir" and n: "child_of ns (pl_target pl) (path_component_bytes c) = Some n"
    and t: "link_of ns n = Some t" "rest \<noteq> [] \<or> final"
  shows "follow ns root it (c # rest) final progress pl =
    (if 40 \<le> it then Err (MaximumSymlinkDepthReached (join progress c) 40) else if t = [] then Err (EmptySymlink (join progress c))
     else bindR (follow ns root (it + 1) (components t) True [] (start (if hd t = slash then root else pl_target pl)))
       (\<lambda>pl'. if rest \<noteq> [] \<and> \<not> is_folder ns (pl_target pl') then Err (NotADirectory (join progress c))
             else follow ns root it rest final (join progress c) pl'))"
  using c n t by (subst follow.simps) (simp only: simp_thms if_False if_True option.case option.sel Let_def option.distinct)

context block_device
begin

lemma symlink_target_execs:
  assumes h: "dh_data_start dh = ih_data_start h" and wf: "inode_wf i" and l: "link_at h bs i t" "t \<noteq> []"
  shows "execs inv blks (symlink_target ops dh i) bs (Ok t) bs"
proof (rule execs_wf)
  assume bs: "wf_blocks bs" "length bs < 4294967296"
  let ?r = "in_direct i ! 0"
  have a: "data_addr h ?r < length bs" "length t \<le> BLOCK_SIZE" "unat (in_size i) = length t"
    "take (length t) (bs ! data_addr h ?r) = t" "utf8_valid t" using l by (simp_all add: link_at_def)
  have idx: "indexR (in_direct i) 0 = Ok ?r" using wf by (simp add: indexR_def inode_wf_def)
  note add = data_addr_word [OF a(1) bs(2), folded h]
  have len: "length (bs ! data_addr h ?r) = BLOCK_SIZE" using bs(1) a(1) by (simp add: wf_blocks_def)
  have "sliceR (bs ! data_addr h ?r) 0 (unat (in_size i)) = Ok t" using a len by (simp add: sliceR_def slice_def)
  with idx add(1) read_execs [of "dh_data_start dh + ?r" bs] a show ?thesis
    unfolding symlink_target_def add(3) by (auto simp: from_utf8_def unwrap_def intro!: execs_bind)
qed

lemma child_search:
  assumes tree: "tree_at f bs I ns" and cur: "is_folder ns c"
  shows "child_of ns c name = None \<and>
      execs inv blks (find_entry ops (fv_directory_handler f) (I c) (fv_inode_handler f) name) bs (Ok None) bs \<or>
    (\<exists>e r off ess. child_of ns c name = Some (de_inode e) \<and>
      execs inv blks (find_entry ops (fv_directory_handler f) (I c) (fv_inode_handler f) name) bs (Ok (Some (e, r, off))) bs \<and>
      parent_ready f bs c (I c) ess \<and> distinct (map name_of (live ess)) \<and> ns c = Some (Folder (entry_map ess)) \<and>
      locate_in (named name) (contents (fv_inode_handler f) bs (I c) ess) = Some (e, r, off))"
proof -
  from cur obtain m where m: "ns c = Some (Folder m)" by (auto simp: is_folder_def split: option.splits node.splits)
  with tree_atD(4) [OF tree m] obtain ess where pr: "parent_ready f bs c (I c) ess"
    and ess: "distinct (map name_of (live ess))" "m = entry_map ess"
    using tree_atD(1) [OF tree] by (auto simp: holds_def parent_ready_def)
  note P = parent_readyD [OF pr]
  have "child_of ns c name = map_option (\<lambda>(e, r, off). de_inode e) (locate_in (named name) (contents (fv_inode_handler f) bs (I c) ess))"
    by (simp add: child_of_def m ess(2) folder_search [OF P(4)])
  with find_entry_execs [OF P(4,8), of name] pr ess m show ?thesis
    by (cases "locate_in (named name) (contents (fv_inode_handler f) bs (I c) ess)") auto
qed

lemma node_read:
  assumes tree: "tree_at f bs I ns" and n: "n \<in> dom ns"
  shows "execs inv blks (read_inode ops (fv_inode_handler f) n) bs (Ok (I n)) bs" "n \<noteq> INVALID_ADDRESS"
    "in_file_type (I n) = Symlink \<longleftrightarrow> link_of ns n \<noteq> None" "in_file_type (I n) = Directory \<longleftrightarrow> is_folder ns n"
    "link_of ns n = Some t \<Longrightarrow> inode_wf (I n) \<and> link_at (fv_inode_handler f) bs (I n) t"
proof -
  from n obtain x where x: "ns n = Some x" by auto
  note H = tree_atD(4) [OF tree x]
  then have live: "live_inode f bs n (I n)" by (simp add: holds_def)
  show "execs inv blks (read_inode ops (fv_inode_handler f) n) bs (Ok (I n)) bs"
    by (rule live_allocated_execs(2) [OF tree_atD(1) [OF tree] live])
  show "n \<noteq> INVALID_ADDRESS" using inode_limit(1) [OF tree_atD(1) [OF tree]] live by (simp add: live_inode_def)
  show "in_file_type (I n) = Symlink \<longleftrightarrow> link_of ns n \<noteq> None" "in_file_type (I n) = Directory \<longleftrightarrow> is_folder ns n"
    "link_of ns n = Some t \<Longrightarrow> inode_wf (I n) \<and> link_at (fv_inode_handler f) bs (I n) t"
    using H x by (cases x; auto simp: holds_def link_of_def is_folder_def)+
qed

lemma reached_start:
  "n \<in> dom ns \<Longrightarrow> reached f bs I ns (start n)
     \<lparr>rr_target_inode = I n, rr_target_inode_index = n, rr_parent_inode_index = n,
      rr_dir_entry = e, rr_dir_entry_block_index = r, rr_dir_entry_offset = off\<rparr>"
  by (simp add: reached_def)

lemma resolve_at_loop:
  assumes tree: "tree_at f bs I ns" and src: "src \<in> dom ns" "path = [RootDir] \<Longrightarrow> src = root"
    and root: "root = sb_root_inode (fv_superblock f)"
    and loop: "\<And>st. reached f bs I ns (start src) st \<Longrightarrow>
      \<exists>r. execs inv blks (resolve_loop ops (fv_directory_handler f) (fv_inode_handler f) it path final [] st) bs r bs \<and>
        answers f bs I ns (follow ns root it path final [] (start src)) r"
  shows "\<exists>r. execs inv blks (resolve_at ops (fv_directory_handler f) (fv_inode_handler f) it path src final) bs r bs \<and>
    answers f bs I ns (follow ns root it path final [] (start src)) r"
proof -
  let ?st = "\<lparr>rr_target_inode = I src, rr_target_inode_index = src, rr_parent_inode_index = src,
     rr_dir_entry = dir_entry_free 0, rr_dir_entry_block_index = 0, rr_dir_entry_offset = 0\<rparr>"
  note rd = node_read(1) [OF tree src(1)]
  have here: "answers f bs I ns (Ok (start src)) (Ok ?st)" using reached_start [OF src(1)] by (auto simp: answers_def)
  consider "path = [] \<or> path = [CurDir]" | "path = [RootDir]" | "path \<noteq> []" "path \<noteq> [CurDir]" "path \<noteq> [RootDir]" by blast
  then show ?thesis
  proof cases
    case 1
    then have "follow ns root it path final [] (start src) = Ok (start src)" by (auto simp: follow.simps)
    with 1 here show ?thesis
      unfolding resolve_at.simps Let_def by (intro exI [of _ "Ok ?st"] conjI execs_bind [OF rd]) auto
  next
    case 2
    then have "follow ns root it path final [] (start src) = Ok (start src)" by (simp add: follow.simps)
    moreover have "src = dh_root_inode_ind (fv_directory_handler f)" using src(2) [OF 2] root tree_atD(2) [OF tree] by simp
    ultimately show ?thesis
      using 2 here rd unfolding resolve_at.simps Let_def
      by (intro exI [of _ "Ok ?st"] conjI execs_bind [OF rd]) (auto intro!: execs_bind)
  next
    case 3
    from loop [OF reached_start [OF src(1), of f bs I "dir_entry_free 0" 0 0]] obtain r where
      "execs inv blks (resolve_loop ops (fv_directory_handler f) (fv_inode_handler f) it path final [] ?st) bs r bs"
      "answers f bs I ns (follow ns root it path final [] (start src)) r" by blast
    with 3 show ?thesis unfolding resolve_at.simps Let_def by (intro exI [of _ r] conjI execs_bind [OF rd]) simp_all
  qed
qed

text \<open>One component of the path that is found: entered, or a symbolic link that is followed.\<close>

lemma enter_plain:
  assumes c: "c \<noteq> CurDir" "c \<noteq> RootDir"
    and find: "execs inv blks (find_entry ops dh (rr_target_inode st) h (path_component_bytes c)) bs (Ok (Some (e, r, off))) bs"
    and n: "de_inode e \<noteq> INVALID_ADDRESS" "execs inv blks (read_inode ops h (de_inode e)) bs (Ok i) bs"
    and plain: "\<not> (in_file_type i = Symlink \<and> (rest \<noteq> [] \<or> final))"
    and x: "rest \<noteq> [] \<and> in_file_type i \<noteq> Directory \<Longrightarrow> x = Err (NotADirectory (join progress c))"
      "\<not> (rest \<noteq> [] \<and> in_file_type i \<noteq> Directory) \<Longrightarrow>
         execs inv blks (resolve_loop ops dh h it rest final (join progress c)
           (st\<lparr>rr_parent_inode_index := rr_target_inode_index st, rr_target_inode := i, rr_target_inode_index := de_inode e,
               rr_dir_entry := e, rr_dir_entry_block_index := r, rr_dir_entry_offset := off\<rparr>)) bs x bs"
  shows "execs inv blks (resolve_loop ops dh h it (c # rest) final progress st) bs x bs"
  unfolding resolve_loop.simps Let_def using c n(1) plain x
  by (auto intro!: execs_bind [OF find] execs_bind [OF n(2)] execs_throw)

lemma enter_link:
  assumes c: "c \<noteq> CurDir" "c \<noteq> RootDir"
    and find: "execs inv blks (find_entry ops dh (rr_target_inode st) h (path_component_bytes c)) bs (Ok (Some (e, r, off))) bs"
    and n: "de_inode e \<noteq> INVALID_ADDRESS" "execs inv blks (read_inode ops h (de_inode e)) bs (Ok i) bs"
    and link: "in_file_type i = Symlink" "rest \<noteq> [] \<or> final"
    and deep: "40 \<le> it \<Longrightarrow> x = Err (MaximumSymlinkDepthReached (join progress c) 40)"
    and empty: "it < 40 \<Longrightarrow> in_size i = 0 \<or> in_blocks i = 0 \<Longrightarrow> x = Err (EmptySymlink (join progress c))"
    and target: "it < 40 \<Longrightarrow> \<not> (in_size i = 0 \<or> in_blocks i = 0) \<Longrightarrow>
      execs inv blks (symlink_target ops dh i) bs (Ok t) bs \<and>
      execs inv blks (resolve_at ops dh h (it + 1) (components t)
        (if hd t = slash then dh_root_inode_ind dh else rr_target_inode_index st) True) bs y bs \<and>
      (case y of
         Ok res \<Rightarrow> if in_file_type (rr_target_inode res) \<noteq> Directory \<and> rest \<noteq> [] then x = Err (NotADirectory (join progress c))
           else execs inv blks (resolve_loop ops dh h it rest final (join progress c) (res\<lparr>rr_dir_entry := e\<rparr>)) bs x bs
       | Err er \<Rightarrow> x = Err er | _ \<Rightarrow> False)"
  shows "execs inv blks (resolve_loop ops dh h it (c # rest) final progress st) bs x bs"
proof (cases "40 \<le> it \<or> in_size i = 0 \<or> in_blocks i = 0")
  case True
  then show ?thesis unfolding resolve_loop.simps Let_def using c n(1) link deep empty
    by (auto intro!: execs_bind [OF find] execs_bind [OF n(2)] execs_throw)
next
  case False
  with target have T: "execs inv blks (symlink_target ops dh i) bs (Ok t) bs"
    "execs inv blks (resolve_at ops dh h (it + 1) (components t)
        (if hd t = slash then dh_root_inode_ind dh else rr_target_inode_index st) True) bs y bs" by auto
  have via: "execs inv blks (resolve_loop ops dh h it (c # rest) final progress st) bs x bs"
    if "execs inv blks (bindM (resolve_at ops dh h (it + 1) (components t)
        (if hd t = slash then dh_root_inode_ind dh else rr_target_inode_index st) True) (\<lambda>res.
      if in_file_type (rr_target_inode res) \<noteq> Directory \<and> rest \<noteq> [] then throwM (NotADirectory (join progress c))
      else resolve_loop ops dh h it rest final (join progress c) (res\<lparr>rr_dir_entry := e\<rparr>))) bs x bs"
    unfolding resolve_loop.simps Let_def using c n(1) link False
    by (simp only: simp_thms if_False if_True,
        intro execs_bind [OF find], simp only: option.case prod.case simp_thms if_False if_True,
        intro execs_bind [OF n(2)], simp only: simp_thms if_False if_True de_Morgan_disj,
        intro execs_bind [OF T(1)] that)
  show ?thesis
  proof (cases y)
    case (Ok res)
    with target False show ?thesis
      by (intro via execs_bind [OF T(2) [unfolded Ok]]) (auto split: if_splits)
  next
    case (Err er)
    with target False have "x = Err er" by auto
    then show ?thesis by (intro via) (simp only: execs_bind_Err [OF T(2) [unfolded Err]])
  qed (use target False in auto)
qed

lemma reached_entry: "reached f bs I ns pl (st\<lparr>rr_dir_entry := e\<rparr>) = reached f bs I ns pl st"
  by (simp add: reached_def)

lemma root_components: "components t = [RootDir] \<Longrightarrow> hd t = slash"
  by (cases t) (auto simp: components_def split: list.splits if_splits)

text \<open>Following a link, given the walks along its target and along the rest of the path.\<close>

lemma link_step:
  assumes tree: "tree_at f bs I ns" and c: "c \<noteq> CurDir" "c \<noteq> RootDir" and st: "reached f bs I ns pl st"
    and find: "execs inv blks (find_entry ops (fv_directory_handler f) (I (pl_target pl)) (fv_inode_handler f) (path_component_bytes c)) bs
      (Ok (Some (e, r, off))) bs" "child_of ns (pl_target pl) (path_component_bytes c) = Some (de_inode e)"
    and t: "link_of ns (de_inode e) = Some t" "rest \<noteq> [] \<or> final" and root: "root = sb_root_inode (fv_superblock f)"
    and src: "src = (if hd t = slash then root else pl_target pl)"
    and inner: "it < 40 \<Longrightarrow> t \<noteq> [] \<Longrightarrow>
      \<exists>y. execs inv blks (resolve_at ops (fv_directory_handler f) (fv_inode_handler f) (it + 1) (components t) src True) bs y bs \<and>
        answers f bs I ns (follow ns root (it + 1) (components t) True [] (start src)) y"
    and rest: "\<And>pl' st'. it < 40 \<Longrightarrow> t \<noteq> [] \<Longrightarrow> follow ns root (it + 1) (components t) True [] (start src) = Ok pl' \<Longrightarrow>
      \<not> (rest \<noteq> [] \<and> \<not> is_folder ns (pl_target pl')) \<Longrightarrow> reached f bs I ns pl' st' \<Longrightarrow>
      \<exists>x. execs inv blks (resolve_loop ops (fv_directory_handler f) (fv_inode_handler f) it rest final (join progress c) st') bs x bs \<and>
        answers f bs I ns (follow ns root it rest final (join progress c) pl') x"
  shows "\<exists>x. execs inv blks (resolve_loop ops (fv_directory_handler f) (fv_inode_handler f) it (c # rest) final progress st) bs x bs \<and>
    answers f bs I ns (follow ns root it (c # rest) final progress pl) x"
proof -
  have at: "rr_target_inode st = I (pl_target pl)" "rr_target_inode_index st = pl_target pl" using st by (simp_all add: reached_def)
  note N = node_read [OF tree tree_atD(6) [OF tree find(2)]] and L = node_read(5) [OF tree tree_atD(6) [OF tree find(2)] t(1)]
  note enter = enter_link [OF c find(1) [folded at(1)] N(2,1) _ t(2)]
  have sym: "in_file_type (I (de_inode e)) = Symlink" using N(3) t(1) by simp
  have src': "(if hd t = slash then dh_root_inode_ind (fv_directory_handler f) else rr_target_inode_index st) = src"
    using tree_atD(2) [OF tree] by (simp add: src root at(2))
  have none: "in_size (I (de_inode e)) = 0 \<or> in_blocks (I (de_inode e)) = 0 \<longleftrightarrow> t = []"
    using L by (auto simp: link_at_def unat_eq_zero)
  note spec = follow_link [OF c find(2) t, of root it progress, folded src]
  show ?thesis
  proof (cases "40 \<le> it \<or> t = []")
    case True
    then show ?thesis unfolding spec
      by (intro exI [of _ "if 40 \<le> it then Err (MaximumSymlinkDepthReached (join progress c) 40) else Err (EmptySymlink (join progress c))"] conjI enter sym)
        (auto simp: none answers_def)
  next
    case False
    then have f: "it < 40" "t \<noteq> []" by auto
    from inner [OF f] obtain y where
      y: "execs inv blks (resolve_at ops (fv_directory_handler f) (fv_inode_handler f) (it + 1) (components t) src True) bs y bs"
        "answers f bs I ns (follow ns root (it + 1) (components t) True [] (start src)) y" by blast
    have tgt: "execs inv blks (symlink_target ops (fv_directory_handler f) (I (de_inode e))) bs (Ok t) bs"
      using symlink_target_execs [of "fv_directory_handler f" "fv_inode_handler f"] mounted_ok(7) [OF tree_atD(1) [OF tree]] L f(2) by blast
    have via: "execs inv blks (resolve_loop ops (fv_directory_handler f) (fv_inode_handler f) it (c # rest) final progress st) bs x bs"
      if "case y of
         Ok res \<Rightarrow> if in_file_type (rr_target_inode res) \<noteq> Directory \<and> rest \<noteq> [] then x = Err (NotADirectory (join progress c))
           else execs inv blks (resolve_loop ops (fv_directory_handler f) (fv_inode_handler f) it rest final (join progress c) (res\<lparr>rr_dir_entry := e\<rparr>)) bs x bs
       | Err er \<Rightarrow> x = Err er | _ \<Rightarrow> False" for x
      by (rule enter [of it x progress t y, unfolded src' none]) (use sym f that tgt y(1) in auto)
    show ?thesis
    proof (cases "follow ns root (it + 1) (components t) True [] (start src)")
      case (Ok pl')
      with y(2) obtain res where res: "y = Ok res" "reached f bs I ns pl' res" by (auto simp: answers_def)
      then have dir: "in_file_type (rr_target_inode res) = Directory \<longleftrightarrow> is_folder ns (pl_target pl')"
        using node_read(4) [OF tree, of "pl_target pl'"] by (simp add: reached_def)
      show ?thesis
      proof (cases "rest \<noteq> [] \<and> \<not> is_folder ns (pl_target pl')")
        case True
        with f Ok res dir show ?thesis unfolding spec
          by (intro exI [of _ "Err (NotADirectory (join progress c))"] conjI via) (auto simp: answers_def)
      next
        case go: False
        from rest [OF f Ok go] res(2) obtain x where
          "execs inv blks (resolve_loop ops (fv_directory_handler f) (fv_inode_handler f) it rest final (join progress c) (res\<lparr>rr_dir_entry := e\<rparr>)) bs x bs"
          "answers f bs I ns (follow ns root it rest final (join progress c) pl') x"
          by (metis reached_entry)
        with f Ok res dir go show ?thesis unfolding spec by (intro exI [of _ x] conjI via) auto
      qed
    next
      case (Err er)
      with y(2) f show ?thesis unfolding spec by (intro exI [of _ "Err er"] conjI via) (auto simp: answers_def)
    qed (use y(2) in \<open>auto simp: answers_def\<close>)
  qed
qed

text \<open>Entering a file, a directory, or a link that is not followed, given the walk along the rest.\<close>

lemma plain_step:
  assumes tree: "tree_at f bs I ns" and c: "c \<noteq> CurDir" "c \<noteq> RootDir" and st: "reached f bs I ns pl st"
    and find: "execs inv blks (find_entry ops (fv_directory_handler f) (I (pl_target pl)) (fv_inode_handler f) (path_component_bytes c)) bs
      (Ok (Some (e, r, off))) bs" "child_of ns (pl_target pl) (path_component_bytes c) = Some (de_inode e)"
    and dir: "parent_ready f bs (pl_target pl) (I (pl_target pl)) ess" "distinct (map name_of (live ess))"
      "ns (pl_target pl) = Some (Folder (entry_map ess))"
      "locate_in (named (path_component_bytes c)) (contents (fv_inode_handler f) bs (I (pl_target pl)) ess) = Some (e, r, off)"
    and plain: "\<not> (link_of ns (de_inode e) \<noteq> None \<and> (rest \<noteq> [] \<or> final))"
    and pl': "pl' = \<lparr>pl_target = de_inode e, pl_parent = pl_target pl, pl_name = Some (path_component_bytes c)\<rparr>"
    and rest: "\<And>st'. \<not> (rest \<noteq> [] \<and> \<not> is_folder ns (de_inode e)) \<Longrightarrow> reached f bs I ns pl' st' \<Longrightarrow>
      \<exists>x. execs inv blks (resolve_loop ops (fv_directory_handler f) (fv_inode_handler f) it rest final (join progress c) st') bs x bs \<and>
        answers f bs I ns (follow ns root it rest final (join progress c) pl') x"
  shows "\<exists>x. execs inv blks (resolve_loop ops (fv_directory_handler f) (fv_inode_handler f) it (c # rest) final progress st) bs x bs \<and>
    answers f bs I ns (follow ns root it (c # rest) final progress pl) x"
proof -
  let ?n = "de_inode e" let ?p = "join progress c"
  let ?st = "st\<lparr>rr_parent_inode_index := pl_target pl, rr_target_inode := I ?n, rr_target_inode_index := ?n,
    rr_dir_entry := e, rr_dir_entry_block_index := r, rr_dir_entry_offset := off\<rparr>"
  have at: "rr_target_inode st = I (pl_target pl)" "rr_target_inode_index st = pl_target pl" using st by (simp_all add: reached_def)
  have mem: "?n \<in> dom ns" by (rule tree_atD(6) [OF tree find(2)])
  note N = node_read [OF tree mem]
  note enter = enter_plain [OF c find(1) [folded at(1)] N(2,1), unfolded at]
  have spec: "follow ns root it (c # rest) final progress pl =
    (if rest \<noteq> [] \<and> \<not> is_folder ns ?n then Err (NotADirectory ?p) else follow ns root it rest final ?p pl')"
    using c plain find(2) by (subst follow.simps) (auto simp: Let_def pl')
  show ?thesis
  proof (cases "rest \<noteq> [] \<and> \<not> is_folder ns ?n")
    case True
    with plain N(3,4) show ?thesis unfolding spec
      by (intro exI [of _ "Err (NotADirectory ?p)"] conjI enter) (auto simp: answers_def)
  next
    case False
    have "reached f bs I ns pl' ?st" using mem dir by (auto simp: reached_def pl')
    from rest [OF False this] obtain x where
      "execs inv blks (resolve_loop ops (fv_directory_handler f) (fv_inode_handler f) it rest final ?p ?st) bs x bs"
      "answers f bs I ns (follow ns root it rest final ?p pl') x" by blast
    with False plain N(3,4) show ?thesis unfolding spec by (intro exI [of _ x] conjI enter) auto
  qed
qed

lemma resolve_loop_follows:
  assumes tree: "tree_at f bs I ns" and root: "root = sb_root_inode (fv_superblock f)"
    and st: "reached f bs I ns pl st" "comps \<noteq> [] \<Longrightarrow> is_folder ns (pl_target pl)"
  shows "\<exists>r. execs inv blks (resolve_loop ops (fv_directory_handler f) (fv_inode_handler f) it comps final progress st) bs r bs \<and>
    answers f bs I ns (follow ns root it comps final progress pl) r"
  using tree root st
proof (induction ns root it comps final progress pl arbitrary: st rule: follow.induct)
  case (1 ns root it final progress pl)
  then show ?case by (auto simp: follow.simps resolve_loop.simps answers_def)
next
  case (2 ns root it c rest final progress pl)
  note tree = 2(5) and root = 2(6) and st = 2(7) and fold = 2(8) [OF list.distinct(2)]
  let ?dh = "fv_directory_handler f" let ?h = "fv_inode_handler f"
  show ?case
  proof (cases "c = CurDir \<or> c = RootDir")
    case True
    with 2(1) [OF True tree root st fold] show ?thesis by (simp add: follow.simps resolve_loop.simps)
  next
    case False
    let ?p = "join progress c" let ?name = "path_component_bytes c"
    have at: "rr_target_inode st = I (pl_target pl)" "rr_target_inode_index st = pl_target pl" using st by (simp_all add: reached_def)
    from child_search [OF tree fold, of ?name] show ?thesis
    proof (elim disjE conjE exE)
      assume "child_of ns (pl_target pl) ?name = None"
        "execs inv blks (find_entry ops ?dh (I (pl_target pl)) ?h ?name) bs (Ok None) bs"
      with False at(1) show ?thesis
        by (intro exI [of _ "Err (DoesNotExist ?p)"])
          (auto simp: follow.simps resolve_loop.simps answers_def Let_def intro!: execs_bind)
    next
      fix e r off ess
      assume n: "child_of ns (pl_target pl) ?name = Some (de_inode e)"
        and find: "execs inv blks (find_entry ops ?dh (I (pl_target pl)) ?h ?name) bs (Ok (Some (e, r, off))) bs"
        and dir: "parent_ready f bs (pl_target pl) (I (pl_target pl)) ess" "distinct (map name_of (live ess))"
          "ns (pl_target pl) = Some (Folder (entry_map ess))"
          "locate_in (named ?name) (contents ?h bs (I (pl_target pl)) ess) = Some (e, r, off)"
      let ?n = "de_inode e"
      show ?thesis
      proof (cases "link_of ns ?n \<noteq> None \<and> (rest \<noteq> [] \<or> final)")
        case True
        then obtain t where t: "link_of ns ?n = Some t" by blast
        then have the: "t = the (link_of ns ?n)" by simp
        let ?src = "if hd t = slash then root else pl_target pl"
        have src: "is_folder ns ?src" using fold tree_atD(3) [OF tree] root by simp
        then have "?src \<in> dom ns" by (auto simp: is_folder_def split: option.splits)
        note inner = resolve_at_loop [OF tree this _ root, OF _ 2(2) [OF False refl refl refl n True the _ _ tree root]]
        show ?thesis
          by (rule link_step [OF tree _ _ st find n t conjunct2 [OF True] root refl inner 2(3) [OF False refl refl refl n True the _ _ _ _ tree root]])
            (use False src root_components in \<open>auto split: if_splits\<close>)
      next
        case plain: False
        show ?thesis
          by (rule plain_step [OF tree _ _ st find n dir plain refl 2(4) [OF False refl refl refl n plain _ tree root]]) (use False in auto)
      qed
    qed
  qed
qed

text \<open>Resolution from the root.\<close>

lemma resolve_path_execs:
  assumes tree: "tree_at f bs I ns"
  shows "\<exists>r. fs_execs inv blks (resolve_path ops path final) f bs r f bs \<and>
    answers f bs I ns (follow ns (sb_root_inode (fv_superblock f)) 0 path final [] (start (sb_root_inode (fv_superblock f)))) r"
proof -
  let ?root = "sb_root_inode (fv_superblock f)"
  have root: "?root \<in> dom ns" using tree_atD(3) [OF tree] by (auto simp: is_folder_def split: option.splits)
  have "\<exists>r. execs inv blks (resolve_at ops (fv_directory_handler f) (fv_inode_handler f) 0 path ?root final) bs r bs \<and>
    answers f bs I ns (follow ns ?root 0 path final [] (start ?root)) r"
    by (rule resolve_at_loop [OF tree root refl refl resolve_loop_follows [OF tree refl]]) (use tree_atD(3) [OF tree] in simp_all)
  then show ?thesis
    unfolding resolve_path_def resolve_def by (auto intro!: fs_bind_self dev_execs)
qed

end

lemma parent_holds:
  assumes "parent_ready f bs p pi ess" "distinct (map name_of (live ess))" "m = entry_map ess"
  shows "holds f bs p pi (Folder m)"
  using assms parent_readyD(3,4) [OF assms(1)] by (auto simp: holds_def parent_ready_def dir_layout_def)

text \<open>A root directory with one symbolic link, to a name that does not exist.\<close>

definition link_names :: namespace where
  "link_names = [0 \<mapsto> Folder [[97] \<mapsto> 1], 1 \<mapsto> Link [9, 9, 0]]"

lemma link_tree: "tree_at demo_format link_blocks link_inodes link_names"
proof -
  note R = link_ready and V = link_volume
  have h: "fv_inode_handler demo_format = demo_handler" "sb_root_inode (fv_superblock demo_format) = 0"
    by (simp_all add: demo_format_def demo_superblock_def)
  note ok = small_entry_ok [of 1 "[97]" 12 Symlink]
  have l: "live [link_entries] = [small_entry 1 Symlink [97] 12]" "name_of (small_entry 1 Symlink [97] 12) = [97]"
    using ok by (simp_all add: link_entries_def MAX_NAME_def BLOCK_SIZE_def INVALID_ADDRESS_def)
  then have root: "holds demo_format link_blocks 0 (link_inodes 0) (Folder [[97] \<mapsto> 1])"
    by (intro parent_holds [OF R(1)]) (simp_all add: entry_map_def small_entry_def)
  have b5: "link_blocks ! 5 = [9, 9] @ replicate 254 0"
    by (simp add: link_blocks_def put_inode_def demo_slots demo_start_def)
  have len: "length [9, 9, 0 :: u8] = 3" and sz: "unat (in_size (link_inodes 1)) = 3" "in_blocks (link_inodes 1) = 1"
    by (simp_all add: link_inodes_def demo_inode_def)
  have utf: "utf8_valid [9, 9, 0]" by (rule ascii_valid) auto
  have "take 3 (link_blocks ! 5) = [9, 9, 0]" by (simp add: b5 numeral_3_eq_3)
  moreover have "data_addr demo_handler (in_direct (link_inodes 1) ! 0) = 5"
    by (simp add: link_inodes_def demo_inode_def data_addr_def demo_handler_def inode_table_handler_new_def)
  ultimately have "link_at demo_handler link_blocks (link_inodes 1) [9, 9, 0]"
    using V(3) utf sz unfolding link_at_def len by (simp add: BLOCK_SIZE_def)
  moreover have "in_file_type (link_inodes 1) = Symlink" by (simp add: link_inodes_def)
  ultimately have "holds demo_format link_blocks 1 (link_inodes 1) (Link [9, 9, 0])"
    using R(2) by (simp add: holds_def child_ready_def h)
  moreover have "owned demo_handler link_blocks (link_inodes 1) \<inter> owned demo_handler link_blocks (link_inodes 0) = {}"
    using R(2) by (simp add: child_ready_def h)
  ultimately show ?thesis
    using root V(2) unfolding tree_at_def h
    by (auto simp: link_names_def is_folder_def split: if_splits)
qed

text \<open>
  Links one after the other do not count: where the root holds a link to \<open>.\<close>, a path of any number of these links
  leads back to the root.
\<close>

lemma follow_successive:
  assumes "child_of ns root name = Some c" "link_of ns c = Some [46]" "is_folder ns root"
  shows "follow ns root 0 (replicate n (Normal name)) True progress (start root) = Ok (start root)"
proof (induction n arbitrary: progress)
  case (Suc n)
  have "follow ns root 1 (components [46]) True [] (start root) = Ok (start root)" by (simp add: components_def follow.simps)
  with Suc assms show ?case by (simp add: follow.simps(2) [of _ _ _ "Normal name"] Let_def)
qed (simp add: follow.simps)

lemma successive_links_resolve:
  assumes dev: "block_device ops blks dinv" and d: "dinv d" and tree: "tree_at f (blks d) I ns"
    and link: "child_of ns (sb_root_inode (fv_superblock f)) name = Some c" "link_of ns c = Some [46]"
  shows "\<exists>st d'. resolve_path ops (replicate n (Normal name)) True (f, d) = (Ok st, f, d') \<and>
    rr_target_inode_index st = sb_root_inode (fv_superblock f)"
proof -
  from block_device.resolve_path_execs [OF dev tree, of "replicate n (Normal name)" True] obtain r where
    run: "fs_execs dinv blks (resolve_path ops (replicate n (Normal name)) True) f (blks d) r f (blks d)"
    and ans: "answers f (blks d) I ns (Ok (start (sb_root_inode (fv_superblock f)))) r"
    unfolding follow_successive [OF link tree_atD(3) [OF tree]] by blast
  from fs_execsD [OF run d refl] ans show ?thesis by (auto simp: answers_def reached_def)
qed

text \<open>
  C4. Path resolution from the root of a mounted volume whose inodes show the namespace \<open>ns\<close>: for every path,
  \<open>resolve\<close> changes nothing and returns exactly what \<open>follow\<close> gives on the namespace, that is the inode, its
  directory and the position of its entry, or the same error: \<open>DoesNotExist\<close> and \<open>NotADirectory\<close> with the part
  of the path walked so far, \<open>EmptySymlink\<close>, or \<open>MaximumSymlinkDepthReached\<close> when symbolic links are nested more than
  40 deep. The limit is on the nesting, not on the number of links that a path follows, as the format
  description has it: any number of links one after the other is followed (\<open>successive_links_resolve\<close>).
\<close>

theorem resolve_path_follows:
  assumes dev: "block_device ops blks dinv" and d: "dinv d" and tree: "tree_at f (blks d) I ns"
  shows "\<exists>r d'. resolve_path ops path final (f, d) = (r, f, d') \<and> dinv d' \<and> blks d' = blks d \<and>
    answers f (blks d) I ns
      (follow ns (sb_root_inode (fv_superblock f)) 0 path final [] (start (sb_root_inode (fv_superblock f)))) r"
proof -
  from block_device.resolve_path_execs [OF dev tree, of path final] obtain r where
    run: "fs_execs dinv blks (resolve_path ops path final) f (blks d) r f (blks d)"
    and ans: "answers f (blks d) I ns
      (follow ns (sb_root_inode (fv_superblock f)) 0 path final [] (start (sb_root_inode (fv_superblock f)))) r" by blast
  from fs_execsD [OF run d refl] ans show ?thesis by blast
qed

theorem resolve_path_follows_witness:
  "\<exists>d' st d''. resolve_path mem_ops [Normal [97]] True (demo_format, \<lparr>md_blocks = link_blocks\<rparr>) = (Err (DoesNotExist [9, 9, 0]), demo_format, d') \<and>
    resolve_path mem_ops [CurDir, Normal [97]] False (demo_format, \<lparr>md_blocks = link_blocks\<rparr>) = (Ok st, demo_format, d'') \<and>
    rr_target_inode_index st = 1 \<and> rr_parent_inode_index st = 0"
proof -
  let ?d = "\<lparr>md_blocks = link_blocks\<rparr>"
  have root: "sb_root_inode (fv_superblock demo_format) = 0" by (simp add: demo_format_def demo_superblock_def)
  have c: "components [9, 9, 0] = [Normal [9, 9, 0]]" by (simp add: components_def)
  have f: "follow link_names 0 0 [Normal [97]] True [] (start 0) = Err (DoesNotExist [9, 9, 0])"
    "follow link_names 0 0 [CurDir, Normal [97]] False [] (start 0) = Ok \<lparr>pl_target = 1, pl_parent = 0, pl_name = Some [97]\<rparr>"
    by (simp_all add: follow.simps Let_def child_of_def link_of_def link_names_def c join_def)
  have tree: "tree_at demo_format (md_blocks ?d) link_inodes link_names" by (simp add: link_tree)
  note R = resolve_path_follows [OF mem.block_device_axioms link_volume(1) tree, unfolded root]
  from R [of "[Normal [97]]" True] R [of "[CurDir, Normal [97]]" False] show ?thesis
    unfolding f by (auto simp: answers_def reached_def)
qed

end
