(* ===== verification/Path_Operations.thy ===== *)
theory Path_Operations
  imports Namespace
begin

text \<open>
  The calls that create and delete by path, as updates of the namespace: what a creation and a deletion
  do to the tree of names, that the new path leads to the new node, and the creation below a regular
  file, which the program does not refuse.
\<close>


section \<open>Updates\<close>

lemma option_eqI: "(\<And>n. a = Some n \<longleftrightarrow> b = Some n) \<Longrightarrow> a = b"
  by (cases a; cases b) auto

lemma entry_map_Some:
  "distinct (map name_of (live ess)) \<Longrightarrow> entry_map ess name = Some n \<longleftrightarrow> (\<exists>e \<in> set (live ess). name_of e = name \<and> de_inode e = n)"
  unfolding entry_map_def by (subst map_of_eq_Some_iff) (auto simp: comp_def)

lemma entry_map_None: "entry_map ess name = None \<longleftrightarrow> name \<notin> name_of ` set (live ess)"
  by (auto simp: entry_map_def map_of_eq_None_iff image_image)

lemma entry_map_add:
  assumes dis: "distinct (map name_of (live ess))" and ms: "mset (live ess') = add_mset e (mset (live ess))"
    and new: "entry_map ess (name_of e) = None"
  shows "distinct (map name_of (live ess'))" "entry_map ess' = (entry_map ess)(name_of e \<mapsto> de_inode e)"
proof -
  have "mset (map name_of (live ess')) = mset (name_of e # map name_of (live ess))" using arg_cong [OF ms, of "image_mset name_of"] by simp
  then show d: "distinct (map name_of (live ess'))" using dis new by (metis distinct.simps(2) entry_map_None list.set_map mset_eq_imp_distinct_iff)
  have st: "set (live ess') = insert e (set (live ess))" using arg_cong [OF ms, of set_mset] by simp
  have neq: "name_of e' \<noteq> name_of e" if "e' \<in> set (live ess)" for e' using new that unfolding entry_map_None by (metis imageI)
  show "entry_map ess' = (entry_map ess)(name_of e \<mapsto> de_inode e)"
  proof (rule ext, rule option_eqI)
    fix x n
    show "entry_map ess' x = Some n \<longleftrightarrow> ((entry_map ess)(name_of e \<mapsto> de_inode e)) x = Some n"
      using neq unfolding entry_map_Some [OF d] st by (auto simp: entry_map_Some [OF dis] simp del: set_filter)
  qed
qed

lemma entry_map_remove:
  assumes dis: "distinct (map name_of (live ess))" and ms: "mset (live ess) = add_mset e (mset (live ess'))"
  shows "distinct (map name_of (live ess'))" "entry_map ess' = (entry_map ess)(name_of e := None)"
proof -
  have "mset (map name_of (live ess)) = mset (name_of e # map name_of (live ess'))" using arg_cong [OF ms, of "image_mset name_of"] by simp
  then have "distinct (name_of e # map name_of (live ess'))" using dis by (metis mset_eq_imp_distinct_iff)
  then show d: "distinct (map name_of (live ess'))" by simp
  have new: "entry_map ess' (name_of e) = None" using \<open>distinct (name_of e # map name_of (live ess'))\<close> unfolding entry_map_None by simp
  have "entry_map ess = (entry_map ess')(name_of e \<mapsto> de_inode e)" by (rule entry_map_add(2) [OF d ms new])
  with new show "entry_map ess' = (entry_map ess)(name_of e := None)" by auto
qed

text \<open>A node whose blocks are not written stays what it is.\<close>

lemma holds_frame:
  assumes x: "holds f bs n i x" and live: "live_inode f' bs' n i" and h: "fv_inode_handler f' = fv_inode_handler f"
    and l: "length bs' = length bs"
    and kept: "\<And>a. a \<in> owned (fv_inode_handler f) bs i \<Longrightarrow> bs' ! a = bs ! a \<and> marked f' bs' a"
  shows "holds f' bs' n i x" "owned (fv_inode_handler f) bs' i = owned (fv_inode_handler f) bs i"
proof -
  let ?h = "fv_inode_handler f"
  have k: "bs' ! a = bs ! a" if "a \<in> owned ?h bs i" for a using kept [OF that] ..
  note fr = dir_frame [OF k l]
  show own: "owned ?h bs' i = owned ?h bs i" by (rule owned_frame(3) [OF k])
  have "data_addr ?h (in_direct i ! 0) \<in> owned ?h bs i" if "in_blocks i \<noteq> 0"
  proof -
    have "0 < unat (in_blocks i)" using that by (simp add: unat_gt_0)
    then have "in_direct i ! 0 \<in> set (inode_blocks ?h bs i)" by (force simp: inode_blocks_def block_at_def)
    then show ?thesis by (simp add: owned_def)
  qed
  then have "node_at ?h bs' i x" using x kept fr(1) l by (cases x) (auto simp: holds_def link_at_def)
  then show "holds f' bs' n i x" using x live kept l unfolding holds_def h own by (simp add: meta_ok_def file_sep_def fr)
qed

text \<open>The nodes apart from the directory that changes.\<close>

lemma others_kept:
  assumes tree: "tree_at f bs I ns" and k: "ns k = Some x" "k \<noteq> p" "p \<in> dom ns" and live: "live_inode f' bs' k (I k)"
    and h: "fv_inode_handler f' = fv_inode_handler f" "length bs' = length bs"
    and kept: "\<And>a. marked f bs a \<Longrightarrow> a \<notin> owned (fv_inode_handler f) bs (I p) \<Longrightarrow> bs' ! a = bs ! a"
    and marks: "\<And>a. a \<in> owned (fv_inode_handler f) bs (I k) \<Longrightarrow> marked f bs a \<Longrightarrow> marked f' bs' a"
  shows "holds f' bs' k (I k) x" "owned (fv_inode_handler f) bs' (I k) = owned (fv_inode_handler f) bs (I k)"
proof -
  note x = tree_atD(4) [OF tree k(1)]
  have "owned (fv_inode_handler f) bs (I k) \<inter> owned (fv_inode_handler f) bs (I p) = {}" using tree_atD(5) [OF tree _ k(3,2)] k(1) by blast
  then have "bs' ! a = bs ! a \<and> marked f' bs' a" if "a \<in> owned (fv_inode_handler f) bs (I k)" for a
    using x kept [of a] marks [OF that] that unfolding holds_def by blast
  from holds_frame [OF x live h this]
  show "holds f' bs' k (I k) x" "owned (fv_inode_handler f) bs' (I k) = owned (fv_inode_handler f) bs (I k)" by blast+
qed

lemma tree_added:
  assumes tree: "tree_at f bs I ns" and p: "ns p = Some (Folder (entry_map ess))" and dis: "distinct (map name_of (live ess))"
    and add: "child_added f bs p (I p) ess now n i e f' bs'" and e: "entry_map ess (name_of e) = None" "de_inode e = n"
    and x: "holds f' bs' n i x" "\<And>m. x = Folder m \<Longrightarrow> ran m \<subseteq> {n, p}"
  shows "n \<notin> dom ns" "tree_at f' bs' (I(p := (I p)\<lparr>in_modified := now\<rparr>, n := i)) (ns(p \<mapsto> Folder ((entry_map ess)(name_of e \<mapsto> n)), n \<mapsto> x))"
proof -
  note A = child_addedD [OF add] and T = tree_atD [OF tree]
  let ?h = "fv_inode_handler f" let ?pi = "(I p)\<lparr>in_modified := now\<rparr>"
  let ?I = "I(p := ?pi, n := i)" let ?ns = "ns(p \<mapsto> Folder ((entry_map ess)(name_of e \<mapsto> n)), n \<mapsto> x)"
  show new: "n \<notin> dom ns" using T(4) A(5) by (auto simp: holds_def live_inode_def)
  have pd: "p \<in> dom ns" "p \<noteq> n" and dm: "dom ?ns = insert n (dom ns)" using p new by auto
  from A(11) obtain ess' where pr: "parent_ready f' bs' p ?pi ess'" and ms: "mset (live ess') = add_mset e (mset (live ess))" by blast
  note E = entry_map_add [OF dis ms e(1), unfolded e(2)]
  have hp: "holds f' bs' p ?pi (Folder ((entry_map ess)(name_of e \<mapsto> n)))" by (rule parent_holds [OF pr E(1) E(2) [symmetric]])
  have ok: "holds f' bs' k (I k) y" "owned ?h bs' (I k) = owned ?h bs (I k)" if "ns k = Some y" "k \<noteq> p" for k y
    using others_kept [OF tree that pd(1) A(7) A(1,3) A(10)] that T(4) [OF that(1)] A(8) by (auto simp: holds_def)
  have own: "owned ?h bs' (?I k) = owned ?h bs (I k)" if "k \<in> dom ns" for k using ok(2) A(4) new that by auto
  have fresh: "owned ?h bs' i \<inter> owned ?h bs (I k) = {}" if "k \<in> dom ns" for k
    using A(9) T(4) that by (fastforce simp: holds_def)
  show "tree_at f' bs' ?I ?ns"
    unfolding tree_at_def A(1,2)
  proof (intro conjI allI impI)
    show "mounted f' bs'" using pr by (simp add: parent_ready_def)
    show "is_folder ?ns (sb_root_inode (fv_superblock f))" using T(3) new by (auto simp: is_folder_def split: option.splits)
    show "holds f' bs' k (?I k) y" if "?ns k = Some y" for k y using that hp ok(1) x(1) pd(2) by (auto split: if_splits)
    show "owned ?h bs' (?I a) \<inter> owned ?h bs' (?I b) = {}" if ab: "a \<in> dom ?ns" "b \<in> dom ?ns" "a \<noteq> b" for a b
    proof -
      consider "a = n" "b \<in> dom ns" | "b = n" "a \<in> dom ns" | "a \<in> dom ns" "b \<in> dom ns" using ab unfolding dm by blast
      then show ?thesis
      proof cases
        case 1
        then show ?thesis using fresh [OF 1(2)] by (simp only: own [OF 1(2)] fun_upd_same)
      next
        case 2
        then show ?thesis using fresh [OF 2(2)] by (simp only: own [OF 2(2)] fun_upd_same Int_commute)
      next
        case 3
        then show ?thesis using T(5) [OF 3 ab(3)] by (simp only: own)
      qed
    qed
    show "ran m \<subseteq> dom ?ns" if m: "?ns k = Some (Folder m)" for k m
    proof (cases "k = n \<or> k = p")
      case True
      have "ran (entry_map ess) \<subseteq> dom ns" using tree p unfolding tree_at_def by blast
      moreover have "ran ((entry_map ess)(name_of e \<mapsto> n)) \<subseteq> insert n (ran (entry_map ess))" by (auto simp: ran_def split: if_splits)
      ultimately show ?thesis using True m x(2) [of m] pd by (auto split: if_splits)
    next
      case False
      with m have "ns k = Some (Folder m)" by simp
      then show ?thesis using tree unfolding tree_at_def by fastforce
    qed
  qed
qed

lemma tree_removed:
  assumes tree: "tree_at f bs I ns" and p: "ns p = Some (Folder (entry_map ess))" and dis: "distinct (map name_of (live ess))"
    and rem: "child_removed f bs p (I p) ess now c (I c) e f' bs'" and c: "c \<in> dom ns" "c \<noteq> p" "c \<noteq> sb_root_inode (fv_superblock f)"
    and alone: "\<And>k m name. ns k = Some (Folder m) \<Longrightarrow> m name = Some c \<Longrightarrow> k = c \<or> k = p \<and> name = name_of e"
  shows "tree_at f' bs' (I(p := (I p)\<lparr>in_modified := now\<rparr>)) (ns(p \<mapsto> Folder ((entry_map ess)(name_of e := None)), c := None))"
proof -
  note R = child_removedD [OF rem] and T = tree_atD [OF tree]
  let ?h = "fv_inode_handler f" let ?pi = "(I p)\<lparr>in_modified := now\<rparr>"
  let ?I = "I(p := ?pi)" let ?ns = "ns(p \<mapsto> Folder ((entry_map ess)(name_of e := None)), c := None)"
  have pd: "p \<in> dom ns" and dm: "dom ?ns = dom ns - {c}" using p by auto
  from R(8) obtain ess' where pr: "parent_ready f' bs' p ?pi ess'" and ms: "mset (live ess) = add_mset e (mset (live ess'))" by blast
  note E = entry_map_remove [OF dis ms]
  have hp: "holds f' bs' p ?pi (Folder ((entry_map ess)(name_of e := None)))" by (rule parent_holds [OF pr E(1) E(2) [symmetric]])
  have mk: "marked f' bs' a" if "a \<in> owned ?h bs (I k)" "k \<in> dom ns" "k \<noteq> c" "marked f bs a" for k a
    using T(5) [OF that(2) c(1) that(3)] that R(6) [of a] by (auto simp: owned_def)
  have ok: "holds f' bs' k (I k) y" "owned ?h bs' (I k) = owned ?h bs (I k)" if "ns k = Some y" "k \<noteq> p" "k \<noteq> c" for k y
  proof -
    have live: "live_inode f bs k (I k)" and k: "k \<in> dom ns" using T(4) [OF that(1)] that(1) by (auto simp: holds_def)
    have "marked f' bs' a" if a: "a \<in> owned ?h bs (I k)" "marked f bs a" for a by (rule mk [OF a(1) k \<open>k \<noteq> c\<close> a(2)])
    from others_kept [OF tree that(1,2) pd R(5) [OF that(2,3) live] R(1,3) R(7) this]
    show "holds f' bs' k (I k) y" "owned ?h bs' (I k) = owned ?h bs (I k)" by blast+
  qed
  have own: "owned ?h bs' (?I k) = owned ?h bs (I k)" if "k \<in> dom ?ns" for k using ok(2) R(4) that unfolding dm by auto
  show "tree_at f' bs' ?I ?ns"
    unfolding tree_at_def R(1,2)
  proof (intro conjI allI impI)
    show "mounted f' bs'" using pr by (simp add: parent_ready_def)
    show "is_folder ?ns (sb_root_inode (fv_superblock f))" using T(3) c(3) by (auto simp: is_folder_def split: option.splits)
    show "holds f' bs' k (?I k) y" if "?ns k = Some y" for k y using that hp ok(1) by (auto split: if_splits)
    show "owned ?h bs' (?I a) \<inter> owned ?h bs' (?I b) = {}" if ab: "a \<in> dom ?ns" "b \<in> dom ?ns" "a \<noteq> b" for a b
      using T(5) [OF _ _ ab(3)] ab unfolding own [OF ab(1)] own [OF ab(2)] dm by blast
    show "ran m \<subseteq> dom ?ns" if m: "?ns k = Some (Folder m)" for k m
    proof
      fix x assume "x \<in> ran m"
      then obtain name where x: "m name = Some x" by (auto simp: ran_def)
      from m have kc: "k \<noteq> c" by (auto split: if_splits)
      with m x p obtain m' where m': "ns k = Some (Folder m')" "m' name = Some x" "k = p \<Longrightarrow> name \<noteq> name_of e"
        by (auto split: if_splits)
      then have "x \<in> dom ns" using T(6) [of k name x] by (simp add: child_of_def)
      moreover have "x \<noteq> c" using alone [OF m'(1)] m'(2,3) kc by blast
      ultimately show "x \<in> dom ?ns" unfolding dm by blast
    qed
  qed
qed

definition new_node :: "file_type \<Rightarrow> u32 \<Rightarrow> u32 \<Rightarrow> node" where
  "new_node t n p =
     (case t of Directory \<Rightarrow> Folder [[dot] \<mapsto> n, [dot, dot] \<mapsto> p] | Symlink \<Rightarrow> Link [] | _ \<Rightarrow> Leaf)"

lemma dir_start_map:
  assumes "n \<noteq> INVALID_ADDRESS" "p \<noteq> INVALID_ADDRESS"
  shows "distinct (map name_of (live [dir_start n p]))" "entry_map [dir_start n p] = [[dot] \<mapsto> n, [dot, dot] \<mapsto> p]"
proof -
  note ok = small_entry_ok [of n "[dot]" 12 Directory] small_entry_ok [of p "[dot, dot]" 12 Directory]
  have "live [dir_start n p] = [small_entry n Directory [dot] 12, small_entry p Directory [dot, dot] 12]"
    using ok assms by (simp add: dir_start_def MAX_NAME_def BLOCK_SIZE_def)
  then show "distinct (map name_of (live [dir_start n p]))" "entry_map [dir_start n p] = [[dot] \<mapsto> n, [dot, dot] \<mapsto> p]"
    using ok assms by (auto simp: entry_map_def MAX_NAME_def BLOCK_SIZE_def small_entry_def)
qed

lemma child_holds:
  assumes mt: "mounted f bs" "can_allocate f bs t" "t \<noteq> Unknown" "unat p < inode_count (fv_inode_handler f)"
    and add: "child_added f bs p pi ess now n (child_inode f bs now t) e f' bs'" and n: "n = child_number f bs"
    and dir: "t = Directory \<longrightarrow> dir_layout (fv_inode_handler f) bs' (child_inode f bs now t) [dir_start n p]"
  shows "holds f' bs' n (child_inode f bs now t) (new_node t n p)"
proof -
  note A = child_addedD [OF add] and Y = child_data_props [OF mt(1,2)]
  have ys: "t = File \<and> child_data f bs t = [] \<or> t \<noteq> File \<and> (\<exists>b. child_data f bs t = [b])" using Y(1,2) by blast
  then have "node_at (fv_inode_handler f) bs' (child_inode f bs now t) (new_node t n p)"
    using dir mt(3) dir_start_map [of n p] inode_limit(1) [OF mt(1)] mt(4) child_number_props(2) [OF mt(1,2)]
    by (cases t) (auto simp: new_node_def child_inode_def link_at_def n fresh_inode_def inode_empty_def intro!: exI [of _ "[dir_start n p]"])
  moreover have "in_blocks (fresh_inode now t []) = 0" by (simp add: fresh_inode_def inode_empty_def)
  ultimately show ?thesis
    using A ys by (auto simp: holds_def A(1) child_inode_def meta_ok_def file_sep_def fresh_inode_blocks)
qed


section \<open>Creating by path\<close>

definition add_node :: "namespace \<Rightarrow> u32 \<Rightarrow> bytes \<Rightarrow> u32 \<Rightarrow> node \<Rightarrow> namespace" where
  "add_node ns p name n x = (case ns p of Some (Folder m) \<Rightarrow> ns(p \<mapsto> Folder (m(name \<mapsto> n)), n \<mapsto> x) | _ \<Rightarrow> ns)"

text \<open>The directory \<open>p\<close> has a free region for an entry with this name, and no name that fills its field.\<close>

definition room_for :: "format_v1 \<Rightarrow> bytes list \<Rightarrow> (u32 \<Rightarrow> inode) \<Rightarrow> namespace \<Rightarrow> u32 \<Rightarrow> bytes \<Rightarrow> bool" where
  "room_for f bs I ns p name \<longleftrightarrow>
     (\<exists>ess. dir_layout (fv_inode_handler f) bs (I p) ess \<and> distinct (map name_of (live ess)) \<and>
        ns p = Some (Folder (entry_map ess)) \<and> entry_room name ess \<and> short_names ess)"

lemma room_forD:
  assumes "tree_at f bs I ns" "room_for f bs I ns p name"
  obtains ess where "parent_ready f bs p (I p) ess" "distinct (map name_of (live ess))" "ns p = Some (Folder (entry_map ess))"
    "entry_room name ess" "short_names ess"
proof -
  from assms(2) obtain ess where r: "dir_layout (fv_inode_handler f) bs (I p) ess" "distinct (map name_of (live ess))"
    "ns p = Some (Folder (entry_map ess))" "entry_room name ess" "short_names ess" by (auto simp: room_for_def)
  from tree_atD(4) [OF assms(1) r(3)] r(1) tree_atD(1) [OF assms(1)] have "parent_ready f bs p (I p) ess"
    by (simp add: holds_def parent_ready_def)
  with r that show thesis by blast
qed

lemma path_split: "path_parent cs = Some dir \<Longrightarrow> path_file_name cs = Some name \<Longrightarrow> cs = dir @ [Normal name]"
  by (auto simp: path_parent_def path_file_name_def split: if_splits component.splits) (metis append_butlast_last_id)

lemma add_node_extends:
  assumes tree: "tree_at f bs I ns" and p: "is_folder ns p" and new: "child_of ns p name = None" "n \<notin> dom ns"
  shows "extends ns (add_node ns p name n x)"
proof -
  from p obtain m where m: "ns p = Some (Folder m)" by (auto simp: is_folder_def split: option.splits node.splits)
  have "n \<noteq> p" using m new(2) by auto
  moreover have "k \<noteq> n" if "child_of ns j nm = Some k" for j nm k using tree_atD(6) [OF tree that] new(2) by auto
  moreover have "ns n = None" using new(2) by auto
  ultimately show ?thesis
    using m new(1) unfolding extends_def add_node_def
    by (auto simp: child_of_def link_of_def is_folder_def split: option.splits node.splits)
qed

lemma follow_new:
  assumes tree: "tree_at f bs I ns" and dir: "follow ns root it dir True [] pl0 = Ok pl" and p: "is_folder ns (pl_target pl)"
    and new: "child_of ns (pl_target pl) name = None" "n \<notin> dom ns" and final: "(\<forall>t. x \<noteq> Link t) \<or> \<not> final"
  shows "follow (add_node ns (pl_target pl) name n x) root it (dir @ [Normal name]) final [] pl0 =
    Ok \<lparr>pl_target = n, pl_parent = pl_target pl, pl_name = Some name\<rparr>"
proof -
  let ?ns = "add_node ns (pl_target pl) name n x"
  note ext = add_node_extends [OF tree p new, of x]
  from p obtain m where m: "ns (pl_target pl) = Some (Folder m)" by (auto simp: is_folder_def split: option.splits node.splits)
  with new(2) have c: "child_of ?ns (pl_target pl) name = Some n" "link_of ?ns n = (case x of Link t \<Rightarrow> Some t | _ \<Rightarrow> None)"
    by (auto simp: child_of_def link_of_def add_node_def split: node.splits)
  have "is_folder ?ns (pl_target pl)" using ext p by (simp add: extends_def)
  from follow_snoc [OF follow_mono [OF ext dir] this, of "Normal name" final] obtain q where
    "follow ?ns root it (dir @ [Normal name]) final [] pl0 = follow ?ns root it [Normal name] final q pl" by blast
  then show ?thesis using c final by (auto simp: follow.simps Let_def split: node.splits)
qed

context block_device
begin

lemma execs_catch: "execs I A m b (Ok v) b' \<Longrightarrow> execs I A (catchM m h) b (Ok v) b'"
  by (fastforce simp: execs_def catchM_def)

lemma resolve_path_reaches:
  assumes tree: "tree_at f bs I ns"
    and pl: "follow ns (sb_root_inode (fv_superblock f)) 0 path final [] (start (sb_root_inode (fv_superblock f))) = Ok pl"
  obtains st where "fs_execs inv blks (resolve_path ops path final) f bs (Ok st) f bs" "reached f bs I ns pl st"
  using resolve_path_execs [OF tree, of path final] unfolding pl answers_def by auto

lemma file_exists_execs:
  assumes tree: "tree_at f bs I ns"
    and pl: "follow ns (sb_root_inode (fv_superblock f)) 0 (components path) True [] (start (sb_root_inode (fv_superblock f))) = Ok pl"
  shows "fs_execs inv blks (file_exists ops path) f bs (Ok (True, Some (in_file_type (I (pl_target pl))))) f bs"
proof -
  from resolve_path_reaches [OF tree pl] obtain st where
    st: "fs_execs inv blks (resolve_path ops (components path) True) f bs (Ok st) f bs" "rr_target_inode st = I (pl_target pl)"
    by (auto simp: reached_def)
  show ?thesis unfolding file_exists_def st(2) [symmetric] by (intro execs_catch execs_bind [OF st(1)] execs_return)
qed

lemma create_execs:
  assumes tree: "tree_at f bs I ns" and wf: "wf_blocks bs"
    and path: "path_parent (components path) = Some dir" "path_file_name (components path) = Some name"
    and pl: "follow ns (sb_root_inode (fv_superblock f)) 0 dir True [] (start (sb_root_inode (fv_superblock f))) = Ok pl"
    and room: "room_for f bs I ns (pl_target pl) name" and new: "child_of ns (pl_target pl) name = None"
    and al: "can_allocate f bs t" and t: "t \<noteq> Unknown" and name: "length name \<le> MAX_NAME"
  shows "\<exists>bs' ess. fs_execs inv blks (create ops now path t) f bs (Ok (child_inode f bs now t, child_number f bs)) (child_format f bs t) bs' \<and>
    child_added f bs (pl_target pl) (I (pl_target pl)) ess now (child_number f bs) (child_inode f bs now t)
      (new_entry (child_number f bs) t name) (child_format f bs t) bs' \<and> child_number f bs \<notin> dom ns \<and>
    tree_at (child_format f bs t) bs'
      (I(pl_target pl := (I (pl_target pl))\<lparr>in_modified := now\<rparr>, child_number f bs := child_inode f bs now t))
      (add_node ns (pl_target pl) name (child_number f bs) (new_node t (child_number f bs) (pl_target pl)))"
proof -
  let ?p = "pl_target pl" let ?n = "child_number f bs" let ?i = "child_inode f bs now t"
  from room_forD [OF tree room] obtain ess where pr: "parent_ready f bs ?p (I ?p) ess" and dis: "distinct (map name_of (live ess))"
    and ns: "ns ?p = Some (Folder (entry_map ess))" and ess: "entry_room name ess" "short_names ess" by blast
  note P = parent_readyD [OF pr]
  from resolve_path_reaches [OF tree pl] obtain st where
    res: "fs_execs inv blks (resolve_path ops dir True) f bs (Ok st) f bs" "rr_target_inode st = I ?p" "rr_target_inode_index st = ?p"
    by (auto simp: reached_def)
  from create_entry_adds [OF pr al t wf name ess(1)] obtain bs' where
    run: "fs_execs inv blks (create_entry ops now t (new_entry INVALID_ADDRESS t name) (I ?p) ?p) f bs (Ok (?i, ?n)) (child_format f bs t) bs'"
    and add: "child_added f bs ?p (I ?p) ess now ?n ?i (new_entry ?n t name) (child_format f bs t) bs'"
    and sub: "t = Directory \<longrightarrow> dir_layout (fv_inode_handler f) bs' ?i [dir_start ?n ?p]" by blast
  have e: "name_of (new_entry ?n t name) = name"
    using new_entry_ok(5) [OF name] inode_limit(1) [OF P(1) child_number_props(2) [OF P(1) al]] by blast
  let ?I = "I(?p := (I ?p)\<lparr>in_modified := now\<rparr>, ?n := ?i)"
  have run': "fs_execs inv blks (create ops now path t) f bs (Ok (?i, ?n)) (child_format f bs t) bs'"
    unfolding create_def Let_def
    by (simp only: t path unwrap_def option.case bindM_liftM_Ok if_False, rule execs_bind [OF res(1)], simp only: res new_entry_eq [OF name] bindM_liftM_Ok,
        rule execs_bind [OF no_collision_execs [OF pr name ess(2)]], simp only: simp_thms if_False, rule run)
  have new': "entry_map ess (name_of (new_entry ?n t name)) = None" using new by (simp add: e child_of_def ns)
  note X = child_holds [OF P(1) al t P(2) add refl sub]
  have "ran m \<subseteq> {?n, ?p}" if "new_node t ?n ?p = Folder m" for m
    using that by (auto simp: new_node_def ran_def split: file_type.splits if_splits)
  note T = tree_added [OF tree ns dis add new' new_entry_simps(4) X this, unfolded e]
  have "add_node ns ?p name ?n (new_node t ?n ?p) = ns(?p \<mapsto> Folder ((entry_map ess)(name \<mapsto> ?n)), ?n \<mapsto> new_node t ?n ?p)"
    by (simp add: add_node_def ns)
  with T(2) have tree': "tree_at (child_format f bs t) bs' ?I (add_node ns ?p name ?n (new_node t ?n ?p))" by (simp only:)
  from run' T(1) add tree' show ?thesis by blast
qed

end

text \<open>The namespace of a new volume.\<close>

definition root_names :: namespace where
  "root_names = [0 \<mapsto> Folder [[dot] \<mapsto> 0, [dot, dot] \<mapsto> 0]]"

lemma fresh_tree:
  assumes F: "formatted now bs" and l: "length bs = 16"
  shows "tree_at (fresh_format 16) bs (\<lambda>_. root_inode now) root_names" "sb_root_inode (fv_superblock (fresh_format 16)) = 0"
    "length name \<le> 2 \<Longrightarrow> room_for (fresh_format 16) bs (\<lambda>_. root_inode now) root_names 0 name"
proof -
  note pr = fresh_parent(1) [OF F l] and m = dir_start_map [of 0 0]
  show root: "sb_root_inode (fv_superblock (fresh_format 16)) = 0" by (simp add: fresh_format_def fresh_superblock_def)
  have "holds (fresh_format 16) bs 0 (root_inode now) (Folder [[dot] \<mapsto> 0, [dot, dot] \<mapsto> 0])"
    by (rule parent_holds [OF pr]) (use m in \<open>simp_all add: INVALID_ADDRESS_def\<close>)
  with parent_readyD(1) [OF pr] show "tree_at (fresh_format 16) bs (\<lambda>_. root_inode now) root_names"
    unfolding tree_at_def root by (auto simp: root_names_def is_folder_def ran_def split: if_splits)
  show "room_for (fresh_format 16) bs (\<lambda>_. root_inode now) root_names 0 name" if "length name \<le> 2"
    unfolding room_for_def
    by (intro exI [of _ "[dir_start 0 0]"]) (use parent_readyD(4) [OF pr] m dir_start_room(1) dir_start_room(2) [of name] that in \<open>simp add: root_names_def INVALID_ADDRESS_def\<close>)
qed

text \<open>
  C5. \<open>create\<close> by path on a mounted volume that shows the namespace \<open>ns\<close>: when the parent path leads to a
  directory with room and without that name, it succeeds; the volume then shows the namespace with a new
  node, a file, an empty link or a directory with \<open>.\<close> and \<open>..\<close>, under that name, and nothing else has
  changed; the path leads to the new node, and \<open>file_exists\<close> reports a file or a directory with its type.
\<close>

theorem create_path_extends:
  assumes dev: "block_device ops blks dinv" and d: "dinv d" and tree: "tree_at f (blks d) I ns"
    and path: "path_parent (components path) = Some dir" "path_file_name (components path) = Some name"
    and root: "root = sb_root_inode (fv_superblock f)" and pl: "follow ns root 0 dir True [] (start root) = Ok pl"
    and room: "room_for f (blks d) I ns (pl_target pl) name" and new: "child_of ns (pl_target pl) name = None"
    and al: "can_allocate f (blks d) t" and t: "t \<noteq> Unknown" and name: "length name \<le> MAX_NAME"
  shows "\<exists>n i f' d' I' ns'. create ops now path t (f, d) = (Ok (i, n), f', d') \<and> dinv d' \<and> n \<notin> dom ns \<and>
    ns' = add_node ns (pl_target pl) name n (new_node t n (pl_target pl)) \<and> tree_at f' (blks d') I' ns' \<and>
    follow ns' root 0 (components path) False [] (start root) = Ok \<lparr>pl_target = n, pl_parent = pl_target pl, pl_name = Some name\<rparr> \<and>
    (t \<noteq> Symlink \<longrightarrow> fst (file_exists ops path (f', d')) = Ok (True, Some t))"
proof -
  let ?n = "child_number f (blks d)" let ?i = "child_inode f (blks d) now t" let ?f = "child_format f (blks d) t"
  let ?I = "I(pl_target pl := (I (pl_target pl))\<lparr>in_modified := now\<rparr>, ?n := ?i)"
  let ?ns = "add_node ns (pl_target pl) name ?n (new_node t ?n (pl_target pl))"
  from block_device.create_execs [OF dev tree block_device.blocks_wf [OF dev d] path pl [unfolded root] room new al t name, of now] obtain bs' ess where
    run: "fs_execs dinv blks (create ops now path t) f (blks d) (Ok (?i, ?n)) ?f bs'" and n: "?n \<notin> dom ns"
    and sb: "sb_root_inode (fv_superblock ?f) = root" and tree': "tree_at ?f bs' ?I ?ns" using child_addedD(2) unfolding root by blast
  have fold: "is_folder ns (pl_target pl)" using room by (auto simp: room_for_def is_folder_def)
  note F = follow_new [OF tree pl fold new n, of "new_node t ?n (pl_target pl)", folded path_split [OF path]]
  from fs_execsD [OF run d refl] obtain d' where d': "create ops now path t (f, d) = (Ok (?i, ?n), ?f, d')" "dinv d'" "blks d' = bs'" by blast
  have "fst (file_exists ops path (?f, d')) = Ok (True, Some t)" if "t \<noteq> Symlink"
  proof -
    have "follow ?ns root 0 (components path) True [] (start root) = Ok \<lparr>pl_target = ?n, pl_parent = pl_target pl, pl_name = Some name\<rparr>"
      using that by (intro F) (auto simp: new_node_def split: file_type.splits)
    from block_device.file_exists_execs [OF dev tree', unfolded sb, OF this]
    have "fs_execs dinv blks (file_exists ops path) ?f bs' (Ok (True, Some t)) ?f bs'" by (simp add: child_inode_def)
    from fs_execsD [OF this d'(2,3)] show ?thesis by auto
  qed
  with d' n tree' F [of False] show ?thesis by blast
qed

theorem create_path_extends_witness:
  "\<exists>d1 d2 n i f' d' I'. format mem_ops 9 (mem_empty 16) = (Ok (), d1) \<and> mount mem_ops d1 = (Ok (fresh_format 16), d2) \<and>
    create mem_ops 7 [slash, 97] Directory (fresh_format 16, d2) = (Ok (i, n), f', d') \<and>
    tree_at f' (md_blocks d') I' (add_node root_names 0 [97] n (Folder [[dot] \<mapsto> n, [dot, dot] \<mapsto> 0])) \<and>
    fst (file_exists mem_ops [slash, 97] (f', d')) = Ok (True, Some Directory)"
proof -
  obtain d1 d2 where d: "format mem_ops 9 (mem_empty 16) = (Ok (), d1)" "mount mem_ops d1 = (Ok (fresh_format 16), d2)"
    "mem_inv d2" "formatted 9 (md_blocks d2)" "length (md_blocks d2) = 16" "mounted (fresh_format 16) (md_blocks d2)" by (rule fresh_mem)
  note T = fresh_tree [OF d(4,5)]
  have c: "components [slash, 97] = [RootDir, Normal [97]]" by (simp add: components_def)
  have p: "path_parent (components [slash, 97]) = Some [RootDir]" "path_file_name (components [slash, 97]) = Some [97]"
    unfolding c by (simp_all add: path_parent_def path_file_name_def)
  have f: "follow root_names 0 0 [RootDir] True [] (start 0) = Ok (start 0)" by (simp add: follow.simps)
  have r: "room_for (fresh_format 16) (md_blocks d2) (\<lambda>_. root_inode 9) root_names (pl_target (start 0)) [97]"
    "child_of root_names (pl_target (start 0)) [97] = None" using T(3) [of "[97]"] by (simp_all add: child_of_def root_names_def)
  have nn: "new_node Directory n 0 = Folder [[dot] \<mapsto> n, [dot, dot] \<mapsto> 0]" for n by (simp add: new_node_def)
  have h: "Directory \<noteq> Unknown" "length [97 :: u8] \<le> MAX_NAME" by (simp_all add: MAX_NAME_def)
  from create_path_extends [OF mem.block_device_axioms d(3) T(1) p T(2) [symmetric] f r fresh_parent(2) [OF d(4,5)] h, of 7] d(1,2)
  show ?thesis by (auto simp: nn)
qed


section \<open>Deleting by path\<close>

definition remove_node :: "namespace \<Rightarrow> u32 \<Rightarrow> bytes \<Rightarrow> u32 \<Rightarrow> namespace" where
  "remove_node ns p name c = (case ns p of Some (Folder m) \<Rightarrow> ns(p \<mapsto> Folder (m(name := None)), c := None) | _ \<Rightarrow> ns)"

text \<open>The entry \<open>name\<close> of \<open>p\<close> is the only one for \<open>c\<close> outside \<open>c\<close> itself, and if \<open>c\<close> is a directory, it is empty.\<close>

definition removable :: "namespace \<Rightarrow> u32 \<Rightarrow> bytes \<Rightarrow> u32 \<Rightarrow> bool" where
  "removable ns p name c \<longleftrightarrow>
     c \<noteq> p \<and> (\<forall>k nm. child_of ns k nm = Some c \<longrightarrow> k = c \<or> k = p \<and> nm = name) \<and>
     (\<forall>nm. child_of ns c nm \<noteq> None \<longrightarrow> nm = [dot] \<or> nm = [dot, dot])"

lemma removable_empty:
  assumes tree: "tree_at f bs I ns" and c: "c \<in> dom ns" "removable ns p name c" "in_file_type (I c) = Directory"
  shows "empty_dir f bs (I c)"
proof -
  from c(1) obtain x where x: "ns c = Some x" by blast
  from tree_atD(4) [OF tree x] c(3) obtain ess where ess: "dir_layout (fv_inode_handler f) bs (I c) ess" "x = Folder (entry_map ess)"
    by (cases x) (auto simp: holds_def)
  have "name_of e = [dot] \<or> name_of e = [dot, dot]" if "e \<in> set (live ess)" for e
  proof -
    have "entry_map ess (name_of e) \<noteq> None" using that unfolding entry_map_None by blast
    with c(2) x ess(2) show ?thesis by (simp add: removable_def child_of_def)
  qed
  with ess(1) show ?thesis unfolding empty_dir_def by blast
qed

context block_device
begin

lemma delete_execs:
  assumes tree: "tree_at f bs I ns" and wf: "wf_blocks bs" and root: "root = sb_root_inode (fv_superblock f)"
    and pl: "follow ns root 0 (components path) False [] (start root) = Ok \<lparr>pl_target = c, pl_parent = p, pl_name = Some name\<rparr>"
    and c: "c \<noteq> root" "removable ns p name c" "\<not> 1 < in_links (I c)"
    and room: "unat (sb_free_data (fv_superblock f)) + unat (in_blocks (I c)) < 2 ^ 32" "unat (sb_free_inodes (fv_superblock f)) + 1 < 2 ^ 32"
  shows "\<exists>f' bs' I'. fs_execs inv blks (delete ops now path) f bs (Ok ()) f' bs' \<and> tree_at f' bs' I' (remove_node ns p name c)"
proof -
  from resolve_path_reaches [OF tree pl [unfolded root]] obtain st where
    res: "fs_execs inv blks (resolve_path ops (components path) False) f bs (Ok st) f bs"
    and st: "reached f bs I ns \<lparr>pl_target = c, pl_parent = p, pl_name = Some name\<rparr> st" by blast
  from st obtain ess e where pr: "parent_ready f bs p (I p) ess" and dis: "distinct (map name_of (live ess))"
    and ns: "ns p = Some (Folder (entry_map ess))" and e: "de_inode e = c"
    and found: "locate_in (named name) (contents (fv_inode_handler f) bs (I p) ess) = Some (e, rr_dir_entry_block_index st, rr_dir_entry_offset st)"
    by (auto simp: reached_def)
  have at: "rr_target_inode_index st = c" "rr_target_inode st = I c" "rr_parent_inode_index st = p" and cd: "c \<in> dom ns"
    using st by (auto simp: reached_def)
  have nm: "name_of e = name" using located_block [OF parent_readyD(4) [OF pr] found] by (auto simp: named_def)
  have cr: "child_ready f bs p (I p) c (I c)"
    using tree_atD(4) [OF tree, of c] tree_atD(5) [OF tree cd, of p] cd ns c(2) room by (auto simp: child_ready_def holds_def removable_def)
  from delete_entry_removes [OF pr cr wf c(3) found, of now] obtain f' bs' where
    run: "fs_execs inv blks (delete_entry ops now (I c) c (I p) p (rr_dir_entry_block_index st) (rr_dir_entry_offset st)) f bs (Ok ()) f' bs'"
    and rem: "child_removed f bs p (I p) ess now c (I c) e f' bs'" by blast
  have lp: "live_inode f bs p (I p)" using pr by (simp add: parent_ready_def)
  note empty = check_empty_execs [OF parent_readyD(1) [OF pr] removable_empty [OF tree cd c(2)]]
  have "fs_execs inv blks (delete ops now path) f bs (Ok ()) f' bs'"
    unfolding delete_def Let_def
    by (rule fs_bind_self, rule execs_bind [OF res], simp only: at c(1) [unfolded root] if_False,
        rule fs_bind_dev [OF live_allocated_execs(2) [OF parent_readyD(1) [OF pr] lp]], rule execs_bind [OF empty], assumption, rule run)
  moreover have "k = c \<or> k = p \<and> nm = name" if "ns k = Some (Folder m)" "m nm = Some c" for k m nm
    using c(2) that by (auto simp: removable_def child_of_def)
  then have "tree_at f' bs' (I(p := (I p)\<lparr>in_modified := now\<rparr>)) (ns(p \<mapsto> Folder ((entry_map ess)(name := None)), c := None))"
    using c(2) by (intro tree_removed [OF tree ns dis rem cd _ c(1) [unfolded root], unfolded nm]) (auto simp: removable_def)
  then have "tree_at f' bs' (I(p := (I p)\<lparr>in_modified := now\<rparr>)) (remove_node ns p name c)" by (simp add: remove_node_def ns)
  ultimately show ?thesis by blast
qed

end

text \<open>
  C6. \<open>delete\<close> by path: when the path leads, without following a final symbolic link, to a node other than
  the root that has one link, is not referenced elsewhere and is an empty directory if it is one, it succeeds,
  and the volume shows the namespace without the node and without its entry; nothing else has changed.
\<close>

theorem delete_path_removes:
  assumes dev: "block_device ops blks dinv" and d: "dinv d" and tree: "tree_at f (blks d) I ns"
    and root: "root = sb_root_inode (fv_superblock f)"
    and pl: "follow ns root 0 (components path) False [] (start root) = Ok \<lparr>pl_target = c, pl_parent = p, pl_name = Some name\<rparr>"
    and c: "c \<noteq> root" "removable ns p name c" "\<not> 1 < in_links (I c)"
    and room: "unat (sb_free_data (fv_superblock f)) + unat (in_blocks (I c)) < 2 ^ 32" "unat (sb_free_inodes (fv_superblock f)) + 1 < 2 ^ 32"
  shows "\<exists>f' d' I'. delete ops now path (f, d) = (Ok (), f', d') \<and> dinv d' \<and> tree_at f' (blks d') I' (remove_node ns p name c)"
proof -
  from block_device.delete_execs [OF dev tree block_device.blocks_wf [OF dev d] root pl c room, of now] obtain f' bs' I' where
    run: "fs_execs dinv blks (delete ops now path) f (blks d) (Ok ()) f' bs'" and tree': "tree_at f' bs' I' (remove_node ns p name c)" by blast
  from fs_execsD [OF run d refl] tree' show ?thesis by blast
qed

theorem delete_path_removes_witness:
  "\<exists>f' d' I'. delete mem_ops 5 [97] (demo_format, \<lparr>md_blocks = link_blocks\<rparr>) = (Ok (), f', d') \<and>
    tree_at f' (md_blocks d') I' [0 \<mapsto> Folder Map.empty]"
proof -
  let ?d = "\<lparr>md_blocks = link_blocks\<rparr>"
  have tree: "tree_at demo_format (md_blocks ?d) link_inodes link_names" by (simp add: link_tree)
  have root: "0 = sb_root_inode (fv_superblock demo_format)" by (simp add: demo_format_def demo_superblock_def)
  have f: "follow link_names 0 0 (components [97]) False [] (start 0) = Ok \<lparr>pl_target = 1, pl_parent = 0, pl_name = Some [97]\<rparr>"
    by (simp add: components_def follow.simps Let_def child_of_def link_of_def link_names_def join_def)
  have c: "(1 :: u32) \<noteq> 0" "removable link_names 0 [97] 1" "\<not> 1 < in_links (link_inodes 1)"
    by (auto simp: removable_def child_of_def link_names_def link_inodes_def demo_inode_def inode_empty_def split: if_splits)
  have r: "unat (sb_free_data (fv_superblock demo_format)) + unat (in_blocks (link_inodes 1)) < 2 ^ 32"
    "unat (sb_free_inodes (fv_superblock demo_format)) + 1 < 2 ^ 32"
    by (simp_all add: demo_format_def demo_superblock_def link_inodes_def demo_inode_def)
  have "remove_node link_names 0 [97] 1 = [0 \<mapsto> Folder Map.empty]" by (auto simp: remove_node_def link_names_def fun_eq_iff)
  with delete_path_removes [OF mem.block_device_axioms link_volume(1) tree root f c r, of 5] show ?thesis by metis
qed


section \<open>Creating below a file\<close>

text \<open>
  \<open>create\<close> does not check that the parent path leads to a directory. Where the parent inode has no block in which
  the entry fits, \<open>create_entry\<close> gives it a new block with the record of the child.
\<close>

definition grown_parent :: "inode \<Rightarrow> u32 \<Rightarrow> u64 \<Rightarrow> inode" where
  "grown_parent pi b now =
     pi\<lparr>in_direct := (in_direct pi)[unat (in_blocks pi) := b], in_blocks := in_blocks pi + 1, in_size := in_size pi + 256,
       in_modified := now\<rparr>"

definition first_record :: "u32 \<Rightarrow> bytes \<Rightarrow> dir_entry list" where
  "first_record n name = [new_entry n File name, dir_entry_free (of_nat (BLOCK_SIZE - rec_len (new_entry n File name)))]"

lemma add_direct_block:
  assumes "unat (in_blocks pi) < 12" "inode_wf pi"
  shows "add_block ops h pi b [] = returnM (pi\<lparr>in_direct := (in_direct pi)[unat (in_blocks pi) := b], in_blocks := in_blocks pi + 1\<rparr>)"
proof -
  have "addW (in_blocks pi) 1 = Ok (in_blocks pi + 1)" using assms(1) by (simp add: addW_def)
  then show ?thesis using assms by (simp add: add_block_def place_block_def updateR_def Let_def inode_wf_def)
qed

context block_device
begin

lemma create_entry_grows:
  fixes now :: u64
  assumes mt: "mounted f bs" and p: "unat p < inode_count (fv_inode_handler f)" and pi: "inode_wf pi" "unat (in_blocks pi) < 12" "unat (in_size pi) + 256 < 2 ^ 64"
    and fit: "execs inv blks (can_fit ops (fv_directory_handler f) pi (fv_inode_handler f) (new_entry m File name)) bs (Ok None) bs"
    and al: "can_allocate f bs Symlink" and name: "length name \<le> MAX_NAME"
  defines "h \<equiv> fv_inode_handler f" and "n \<equiv> child_number f bs" and "b \<equiv> hd (child_data f bs Symlink)" and "i \<equiv> inode_empty File 0xFFFF now"
  shows "fs_execs inv blks (create_entry ops now File (new_entry m File name) pi p) f bs (Ok (i, n)) (reserve_format f [n] [b])
    (put_inode h ((put_inode h (reserve_blocks f bs [n] [b]) n i)[data_addr h b := image (first_record n name)]) p (grown_parent pi b now))"
proof -
  note N = child_number_props [OF mt al, folded h_def n_def] and Y = child_data_props [OF mt al, folded h_def]
  have ys: "child_data f bs Symlink = [b]" using Y(2) by (simp add: b_def)
  have table: "table_ok h (length bs)" using mounted_ok(3) [OF mt] by (simp add: h_def)
  let ?dh = "fv_directory_handler f" let ?f = "reserve_format f [n] [b]"
  let ?b1 = "reserve_blocks f bs [n] [b]" let ?b2 = "put_inode h ?b1 n i" let ?b3 = "?b2[data_addr h b := image (first_record n name)]"
  have n: "n \<noteq> INVALID_ADDRESS" using inode_limit(1) [OF mt] N(2) by (simp add: h_def)
  note ok = new_entry_ok [OF name, of n File]
  have alloc: "fs_execs inv blks (fs_allocate ops 1 1) f bs (Ok ([n], [b])) ?f ?b1"
    using fs_allocate_execs [OF mt, of 1 1] al N(1) ys by (simp add: can_allocate_def child_data_def n_def nblocks_def word_le_nat_alt)
  have wi: "execs inv blks (write_inode ops h n i) ?b1 (Ok ()) ?b2"
    using write_inode_execs [of h ?b1 n i] table N(2) by (simp add: i_def)
  have wf: "inode_wf (grown_parent pi b now)" using pi(1) by (simp add: grown_parent_def inode_wf_def)
  have wp: "execs inv blks (write_inode ops h p (grown_parent pi b now)) ?b3 (Ok ()) (put_inode h ?b3 p (grown_parent pi b now))"
    using write_inode_execs [of h ?b3 p "grown_parent pi b now"] table p wf by (simp add: h_def)
  have "rec_len (new_entry n File name) + 9 \<le> BLOCK_SIZE" using name unfolding ok(1) by (simp add: MAX_NAME_def BLOCK_SIZE_def)
  then have grow: "execs inv blks (add_entry_grow ops ?dh (new_entry n File name) b) ?b2 (Ok ()) ?b3"
    using add_entry_grow_execs [of h b ?b2 ?dh "new_entry n File name"] Y(4) ys ok(3) n mounted_ok(7) [OF mt]
    by (simp add: first_record_def h_def)
  have zero: "blocks_necessary_to_grow pi = Ok 0"
    using pi(2) by (simp add: blocks_necessary_to_grow_def blocks_necessary_to_grow_n_def metadata_blocks_def subN_def Let_def)
  have sz: "addW (in_size pi) (of_nat BLOCK_SIZE) = Ok (in_size pi + 256)" using pi(3) by (simp add: addW_def BLOCK_SIZE_def)
  have place: "fs_execs inv blks (place_entry ops pi (new_entry n File name) None [b] 0) ?f ?b2
      (Ok ((grown_parent pi b now)\<lparr>in_modified := in_modified pi\<rparr>)) ?f ?b3"
    unfolding place_entry_def
    by (rule fs_bind_self, simp only: option.case reserve_format_simps h_def [symmetric] zero bindM_liftM_Ok,
        simp add: indexR_def add_direct_block [OF pi(2,1)] sz, rule fs_bind_dev [OF grow])
      (auto simp: grown_parent_def)
  have idx: "indexR [n] 0 = Ok n" by (simp add: indexR_def)
  have eb: "entry_blocks pi None 0 = Ok 1" by (simp add: entry_blocks_def zero)
  have fields: "file_blocks File = Ok 0" "initial_size File i = Ok 0" "i\<lparr>in_size := 0\<rparr> = i"
    by (simp_all add: file_blocks_def initial_size_def i_def inode_empty_def)
  have md: "(grown_parent pi b now)\<lparr>in_modified := in_modified pi, in_modified := now\<rparr> = grown_parent pi b now" by (simp add: grown_parent_def)
  show ?thesis
    unfolding create_entry_def Let_def i_def [symmetric]
    by (simp only: fields bindM_liftM_Ok, rule fs_bind_self, rule fs_bind_dev [OF fit], simp only: eb bindM_liftM_Ok, rule execs_bind [OF alloc],
        simp only: prod.case idx bindM_liftM_Ok file_type.distinct simp_thms if_False bindM_returnM fields new_entry_simps h_def [symmetric],
        rule fs_bind_dev [OF wi], rule execs_bind [OF place], simp only: md, rule fs_bind_dev [OF wp], rule execs_return)
qed

lemma create_below_execs:
  fixes now :: u64
  assumes tree: "tree_at f bs I ns"
    and path: "path_parent (components path) = Some dir" "path_file_name (components path) = Some name"
    and pl: "follow ns (sb_root_inode (fv_superblock f)) 0 dir True [] (start (sb_root_inode (fv_superblock f))) = Ok pl"
    and e: "in_blocks (I (pl_target pl)) = 0" "in_size (I (pl_target pl)) = 0"
    and al: "can_allocate f bs Symlink" and name: "length name \<le> MAX_NAME"
  defines "h \<equiv> fv_inode_handler f" and "n \<equiv> child_number f bs" and "b \<equiv> hd (child_data f bs Symlink)" and "i \<equiv> inode_empty File 0xFFFF now"
  shows "fs_execs inv blks (create ops now path File) f bs (Ok (i, n)) (reserve_format f [n] [b])
    (put_inode h ((put_inode h (reserve_blocks f bs [n] [b]) n i)[data_addr h b := image (first_record n name)]) (pl_target pl)
      (grown_parent (I (pl_target pl)) b now))"
proof -
  let ?p = "pl_target pl" let ?e = "new_entry INVALID_ADDRESS File name"
  from resolve_path_reaches [OF tree pl] obtain st where
    run: "fs_execs inv blks (resolve_path ops dir True) f bs (Ok st) f bs" and st: "reached f bs I ns pl st" by blast
  have res: "rr_target_inode st = I ?p" "rr_target_inode_index st = ?p" and pd: "?p \<in> dom ns" using st by (simp_all add: reached_def)
  note mt = tree_atD(1) [OF tree]
  have H: "inode_wf (I ?p)" "unat ?p < inode_count (fv_inode_handler f)" "meta_ok (fv_inode_handler f) bs (I ?p)"
    using tree_atD(4) [OF tree] pd by (auto simp: holds_def live_inode_def)
  have lay: "dir_layout (fv_inode_handler f) bs (I ?p) []" using H e(1) by (simp add: dir_layout_def inode_blocks_def)
  note dh = mounted_ok(7) [OF mt]
  have coll: "fs_execs inv blks (name_collision ops (I ?p) ?e) f bs (Ok None) f bs"
    unfolding name_collision_def using find_entry_execs [OF lay dh, of "de_name ?e"] by (intro fs_bind_self dev_execs) simp
  have fit: "execs inv blks (can_fit ops (fv_directory_handler f) (I ?p) (fv_inode_handler f) ?e) bs (Ok None) bs"
    using can_fit_execs [OF lay dh, of ?e] new_entry_ok(2) [OF name] by simp
  have s: "unat (in_blocks (I ?p)) < 12" "unat (in_size (I ?p)) + 256 < 2 ^ 64" by (simp_all add: e)
  note grow = create_entry_grows [OF mt H(2,1) s fit al name, of now, folded h_def n_def b_def i_def]
  show ?thesis
    unfolding create_def Let_def
    by (simp only: path unwrap_def option.case bindM_liftM_Ok file_type.distinct if_False, rule execs_bind [OF run],
        simp only: res new_entry_eq [OF name] bindM_liftM_Ok,
        rule execs_bind [OF coll], simp only: simp_thms if_False, rule grow)
qed

end

lemma first_record_length: "length name \<le> MAX_NAME \<Longrightarrow> n \<noteq> INVALID_ADDRESS \<Longrightarrow> length (image (first_record n name)) = BLOCK_SIZE"
proof -
  assume a: "length name \<le> MAX_NAME" "n \<noteq> INVALID_ADDRESS"
  note ok = new_entry_ok [OF a(1), of n File]
  let ?r = "BLOCK_SIZE - rec_len (new_entry n File name)"
  have r: "9 \<le> ?r" "?r \<le> BLOCK_SIZE" "rec_len (new_entry n File name) + ?r = BLOCK_SIZE"
    using a(1) unfolding ok(1) by (simp_all add: MAX_NAME_def BLOCK_SIZE_def)
  then have u: "unat (of_nat ?r :: u16) = ?r" by (intro unat_u16_of_nat) (simp add: BLOCK_SIZE_def)
  have "layout (first_record n name) (image (first_record n name))"
    using ok(3) [OF a(2)] dir_entry_free_ok [of "of_nat ?r", unfolded u, OF r(1,2)] u r(3)
    unfolding layout_def first_record_def total_def by (simp del: new_entry_simps of_nat_diff)
  then show ?thesis by (rule layout_length)
qed

text \<open>
  C38. A path below a regular file is not refused: when the parent path leads to an empty file, \<open>create\<close> returns
  \<open>Ok\<close>, and the file, which stays a file, is no longer empty. Its 256 bytes are now a block of directory records
  with the entry of the new child, which no directory contains.
\<close>

theorem create_below_file:
  assumes dev: "block_device ops blks dinv" and d: "dinv d" and tree: "tree_at f (blks d) I ns"
    and path: "path_parent (components path) = Some dir" "path_file_name (components path) = Some name"
    and root: "root = sb_root_inode (fv_superblock f)" and pl: "follow ns root 0 dir True [] (start root) = Ok pl"
    and leaf: "ns (pl_target pl) = Some Leaf" "in_blocks (I (pl_target pl)) = 0" "in_size (I (pl_target pl)) = 0"
    and al: "can_allocate f (blks d) Symlink" and name: "length name \<le> MAX_NAME"
  shows "\<exists>n i f' d' pi. create ops now path File (f, d) = (Ok (i, n), f', d') \<and>
    inode_at (fv_inode_handler f') (blks d') (pl_target pl) = Ok pi \<and> in_file_type pi = File \<and>
    content (fv_inode_handler f) (blks d) (I (pl_target pl)) = [] \<and>
    content (fv_inode_handler f') (blks d') pi = image (first_record n name)"
proof -
  let ?h = "fv_inode_handler f" let ?p = "pl_target pl" let ?n = "child_number f (blks d)" let ?b = "hd (child_data f (blks d) Symlink)"
  let ?i = "inode_empty File 0xFFFF now" let ?f = "reserve_format f [?n] [?b]" let ?pi = "grown_parent (I ?p) ?b now"
  let ?b2 = "put_inode ?h (reserve_blocks f (blks d) [?n] [?b]) ?n ?i" let ?b3 = "?b2[data_addr ?h ?b := image (first_record ?n name)]"
  note mt = tree_atD(1) [OF tree]
  note N = child_number_props [OF mt al] and Y = child_data_props [OF mt al]
  note run = block_device.create_below_execs [OF dev tree path pl [unfolded root] leaf(2,3) al name, of now]
  from fs_execsD [OF run d refl] obtain d' where
    d': "create ops now path File (f, d) = (Ok (?i, ?n), ?f, d')" "blks d' = put_inode ?h ?b3 ?p ?pi" by blast
  have n: "?n \<noteq> INVALID_ADDRESS" by (rule inode_limit(1) [OF mt N(2)])
  note len = first_record_length [OF name n]
  have H: "inode_wf (I ?p)" "unat ?p < inode_count ?h" "in_file_type (I ?p) = File"
    using tree_atD(4) [OF tree leaf(1)] by (auto simp: holds_def live_inode_def)
  have wf: "wf_blocks ?b3"
    using block_device.blocks_wf [OF dev d] inode_limit(2) [OF mt N(2)] len by (simp add: wf_put_inode wf_reserve_blocks)
  have pwf: "inode_wf ?pi" using H(1) by (simp add: grown_parent_def inode_wf_def)
  have at: "inode_at ?h (put_inode ?h ?b3 ?p ?pi) ?p = Ok ?pi"
    using inode_limit(2) [OF mt H(2)] by (intro inode_at_put_same wf pwf) simp
  have ys: "child_data f (blks d) Symlink = [?b]" using Y(2) by simp
  have "data_addr ?h ?b \<noteq> slot_block ?h ?p"
    using inode_limit(3) [OF mt H(2)] in_areas(1) [of f ?b] areas_disjoint(10) [OF mt] by auto
  moreover have "data_addr ?h ?b < length (blks d)" using Y(4) ys by (metis list.set_intros(1))
  ultimately have blk: "put_inode ?h ?b3 ?p ?pi ! data_addr ?h ?b = image (first_record ?n name)" by (simp add: put_inode_other)
  have "inode_blocks ?h bs ?pi = [?b]" for bs
    using H(1) leaf(2) by (simp add: inode_blocks_def block_at_def grown_parent_def inode_wf_def)
  with blk len leaf(3) have "content ?h (put_inode ?h ?b3 ?p ?pi) ?pi = image (first_record ?n name)"
    by (simp add: content_def file_data_def grown_parent_def BLOCK_SIZE_def)
  moreover have "content ?h (blks d) (I ?p) = []" "in_file_type ?pi = File" using leaf(3) H(3) by (simp_all add: content_def grown_parent_def)
  ultimately show ?thesis using d' at by (intro exI [of _ ?n] exI [of _ ?i] exI [of _ ?f] exI [of _ d'] exI [of _ ?pi]) simp
qed

text \<open>A new volume of sixteen blocks with one empty file.\<close>

lemma file_tree:
  assumes F: "formatted 9 (md_blocks d)" and l: "length (md_blocks d) = 16" and d: "mem_inv d"
  obtains d' I n where "create mem_ops 7 [97] File (fresh_format 16, d) = (Ok (I n, n), child_format (fresh_format 16) (md_blocks d) File, d')"
    "mem_inv d'" "tree_at (child_format (fresh_format 16) (md_blocks d) File) (md_blocks d') I (add_node root_names 0 [97] n Leaf)"
    "sb_root_inode (fv_superblock (child_format (fresh_format 16) (md_blocks d) File)) = 0" "n \<notin> dom root_names"
    "in_blocks (I n) = 0" "in_size (I n) = 0" "can_allocate (child_format (fresh_format 16) (md_blocks d) File) (md_blocks d') Symlink"
proof -
  let ?f = "fresh_format 16" let ?bs = "md_blocks d" let ?n = "child_number ?f ?bs" let ?i = "child_inode ?f ?bs 7 File" let ?f1 = "child_format ?f ?bs File"
  let ?I = "(\<lambda>_. root_inode 9)(0 := (root_inode 9)\<lparr>in_modified := 7\<rparr>, ?n := ?i)"
  note T = fresh_tree [OF F l] and al = fresh_parent(2) [OF F l] and mt = parent_readyD(1) [OF fresh_parent(1) [OF F l]]
  have c: "components [97] = [Normal [97]]" by (simp add: components_def)
  have p: "path_parent (components [97]) = Some []" "path_file_name (components [97]) = Some [97]"
    unfolding c by (simp_all add: path_parent_def path_file_name_def)
  have f: "follow root_names (sb_root_inode (fv_superblock ?f)) 0 [] True [] (start (sb_root_inode (fv_superblock ?f))) = Ok (start 0)"
    by (simp add: follow.simps T(2))
  have r: "room_for ?f ?bs (\<lambda>_. root_inode 9) root_names (pl_target (start 0)) [97]" "child_of root_names (pl_target (start 0)) [97] = None"
    using T(3) [of "[97]"] by (simp_all add: child_of_def root_names_def)
  have h: "File \<noteq> Unknown" "length [97 :: u8] \<le> MAX_NAME" by (simp_all add: MAX_NAME_def)
  from mem.create_execs [OF T(1) mem.blocks_wf [OF d] p f r al h, of 7] obtain bs' ess where
    run: "fs_execs mem_inv md_blocks (create mem_ops 7 [97] File) ?f ?bs (Ok (?i, ?n)) ?f1 bs'"
    and add: "child_added ?f ?bs 0 (root_inode 9) ess 7 ?n ?i (new_entry ?n File [97]) ?f1 bs'"
    and n: "?n \<notin> dom root_names" and tree: "tree_at ?f1 bs' ?I (add_node root_names 0 [97] ?n Leaf)" by (auto simp: new_node_def)
  from fs_execsD [OF run d refl] obtain d' where d': "create mem_ops 7 [97] File (?f, d) = (Ok (?i, ?n), ?f1, d')" "mem_inv d'" "md_blocks d' = bs'" by blast
  have i: "in_blocks ?i = 0" "in_size ?i = 0" using child_data_props(1) [OF mt al] by (simp_all add: child_inode_def fresh_inode_def inode_empty_def)
  have sz: "unat (ba_size (fv_inode_allocator ?f)) = 1" "unat (ba_max_index (fv_inode_allocator ?f)) = 4" "inode_count (fv_inode_handler ?f) = 4"
    "sb_free_inodes (fv_superblock ?f) = 3" "sb_free_data (fv_superblock ?f) = 10"
    by (simp_all add: fresh_format_def bitmap_allocator_new_def inode_table_handler_new_def fresh_superblock_def table_size_def bitmap_size_def)
  have bits: "bit_at (fv_inode_allocator ?f) ?bs x \<longleftrightarrow> x = 0" if "x < 4" for x
    using F l that by (simp add: formatted_def Let_def)
  have n4: "unat ?n < 4" using child_number_props(2) [OF mt al] sz(3) by simp
  define x where "x = (if unat ?n = 2 then 3 else 2 :: nat)"
  have x: "x < 4" "x \<noteq> unat ?n" "x \<noteq> 0" by (auto simp: x_def)
  have "ba_last_alloc (fv_inode_allocator ?f1) = ?n" "ba_size (fv_inode_allocator ?f1) = ba_size (fv_inode_allocator ?f)"
    "ba_max_index (fv_inode_allocator ?f1) = ba_max_index (fv_inode_allocator ?f)"
    by (simp_all add: child_format_def reserve_format_def take_alloc_def)
  moreover have "\<not> bit_at (fv_inode_allocator ?f1) bs' x" using add x bits by (simp add: child_added_def sz)
  ultimately have "x \<in> set (ahead (fv_inode_allocator ?f1) bs')" using x(1) n4 sz(1,2) by (simp add: in_ahead)
  then have "1 \<le> length (ahead (fv_inode_allocator ?f1) bs')" by (metis One_nat_def Suc_leI length_pos_if_in_set)
  moreover have "1 \<le> length (ahead (fv_block_allocator ?f1) bs')"
    using created_ahead [OF add i(1)] fresh_parent(2) [OF F l, of Symlink] by (simp add: can_allocate_def nblocks_def)
  ultimately have "can_allocate ?f1 bs' Symlink"
    using add i(1) by (simp add: can_allocate_def nblocks_def child_added_def sz word_le_nat_alt)
  with that [of ?I ?n d'] d' tree child_addedD(2) [OF add] T(2) n i show thesis by simp
qed

theorem create_below_file_witness:
  "\<exists>d1 d2 n i f' d' n' i' f'' d'' pi. format mem_ops 9 (mem_empty 16) = (Ok (), d1) \<and> mount mem_ops d1 = (Ok (fresh_format 16), d2) \<and>
    create mem_ops 7 [97] File (fresh_format 16, d2) = (Ok (i, n), f', d') \<and>
    create mem_ops 8 [97, slash, 98] File (f', d') = (Ok (i', n'), f'', d'') \<and>
    inode_at (fv_inode_handler f'') (md_blocks d'') n = Ok pi \<and> in_file_type pi = File \<and>
    content (fv_inode_handler f'') (md_blocks d'') pi = image (first_record n' [98])"
proof -
  obtain d1 d2 where d: "format mem_ops 9 (mem_empty 16) = (Ok (), d1)" "mount mem_ops d1 = (Ok (fresh_format 16), d2)"
    "mem_inv d2" "formatted 9 (md_blocks d2)" "length (md_blocks d2) = 16" "mounted (fresh_format 16) (md_blocks d2)" by (rule fresh_mem)
  let ?f1 = "child_format (fresh_format 16) (md_blocks d2) File"
  obtain d' I n where
    x: "create mem_ops 7 [97] File (fresh_format 16, d2) = (Ok (I n, n), ?f1, d')" "mem_inv d'"
      "tree_at ?f1 (md_blocks d') I (add_node root_names 0 [97] n Leaf)" "sb_root_inode (fv_superblock ?f1) = 0" "n \<notin> dom root_names"
      "in_blocks (I n) = 0" "in_size (I n) = 0" "can_allocate ?f1 (md_blocks d') Symlink" by (rule file_tree [OF d(4,5,3)])
  let ?ns = "add_node root_names 0 [97] n Leaf" let ?pl = "\<lparr>pl_target = n, pl_parent = 0, pl_name = Some [97]\<rparr>"
  have c: "components [97, slash, 98] = [Normal [97], Normal [98]]" by (simp add: components_def)
  have p: "path_parent (components [97, slash, 98]) = Some [Normal [97]]" "path_file_name (components [97, slash, 98]) = Some [98]"
    unfolding c by (simp_all add: path_parent_def path_file_name_def)
  have ns: "?ns 0 = Some (Folder [[dot] \<mapsto> 0, [dot, dot] \<mapsto> 0, [97] \<mapsto> n])" "?ns n = Some Leaf"
    using x(5) by (auto simp: add_node_def root_names_def)
  then have f: "follow ?ns 0 0 [Normal [97]] True [] (start 0) = Ok ?pl"
    by (simp add: follow.simps Let_def child_of_def link_of_def)
  have leaf: "?ns (pl_target ?pl) = Some Leaf" "in_blocks (I (pl_target ?pl)) = 0" "in_size (I (pl_target ?pl)) = 0" using ns x by simp_all
  have h: "length [98 :: u8] \<le> MAX_NAME" by (simp add: MAX_NAME_def)
  from create_below_file [OF mem.block_device_axioms x(2,3) p x(4) [symmetric] f leaf x(8) h, of 8, unfolded place.select_convs]
  obtain n' i' f'' d'' pi where "create mem_ops 8 [97, slash, 98] File (?f1, d') = (Ok (i', n'), f'', d'')"
    "inode_at (fv_inode_handler f'') (md_blocks d'') n = Ok pi" "in_file_type pi = File"
    "content (fv_inode_handler f'') (md_blocks d'') pi = image (first_record n' [98])" by blast
  with d(1,2) x(1) show ?thesis by blast
qed

end
