(* ===== verification/Hard_Links.thy ===== *)
theory Hard_Links
  imports Path_Operations Integrity_Report
begin

text \<open>
  Hard links: \<open>create_hardlink\<close> gives a file a second name, \<open>delete\<close> takes one of several names away. Both rewrite the
  inode of the file with another link count, one block of the directory and the inode of the directory, and nothing
  else; the namespace changes by one entry, and the contents of the file stay. The integrity check takes a second name for a
  second use of the blocks, and a symbolic link for a file of the wrong type.
\<close>


section \<open>The writes\<close>

text \<open>
  \<open>relinked f bs p pi ess' now c ci bs'\<close>: the inode \<open>c\<close> is now \<open>ci\<close> and the entries of the directory \<open>p\<close> are \<open>ess'\<close>; every
  other inode, both bitmaps and every block in use outside \<open>p\<close> are as they were.
\<close>

definition relinked ::
  "format_v1 \<Rightarrow> bytes list \<Rightarrow> u32 \<Rightarrow> inode \<Rightarrow> dir_entry list list \<Rightarrow> u64 \<Rightarrow> u32 \<Rightarrow> inode \<Rightarrow> bytes list \<Rightarrow> bool" where
  "relinked f bs p pi ess' now c ci bs' \<longleftrightarrow>
     length bs' = length bs \<and> live_inode f bs' c ci \<and> parent_ready f bs' p (pi\<lparr>in_modified := now\<rparr>) ess' \<and>
     owned (fv_inode_handler f) bs' pi = owned (fv_inode_handler f) bs pi \<and>
     (\<forall>m j. m \<noteq> p \<longrightarrow> m \<noteq> c \<longrightarrow> live_inode f bs m j \<longrightarrow> live_inode f bs' m j) \<and>
     (\<forall>a. marked f bs' a \<longleftrightarrow> marked f bs a) \<and>
     (\<forall>a. marked f bs a \<longrightarrow> a \<notin> owned (fv_inode_handler f) bs pi \<longrightarrow> bs' ! a = bs ! a)"

text \<open>The inode \<open>c\<close> is written on a device that differs from \<open>bs\<close> at most in the superblock.\<close>

lemma relink_frame:
  assumes mt: "mounted f bs" and wf: "wf_blocks bs0" and c: "unat c < inode_count (fv_inode_handler f)" "inode_wf ci"
    and bs0: "length bs0 = length bs" "\<forall>a. a \<noteq> 0 \<longrightarrow> bs0 ! a = bs ! a" and bs1: "bs1 = put_inode (fv_inode_handler f) bs0 c ci"
  shows "mounted f bs1" "wf_blocks bs1" "a \<in> data_area f \<Longrightarrow> bs1 ! a = bs ! a"
    "x < unat (ba_size (fv_inode_allocator f)) * 2048 \<Longrightarrow> bit_at (fv_inode_allocator f) bs1 x = bit_at (fv_inode_allocator f) bs x"
    "x < unat (ba_size (fv_block_allocator f)) * 2048 \<Longrightarrow> bit_at (fv_block_allocator f) bs1 x = bit_at (fv_block_allocator f) bs x"
    "inode_at (fv_inode_handler f) bs1 c = Ok ci"
    "unat m < inode_count (fv_inode_handler f) \<Longrightarrow> m \<noteq> c \<Longrightarrow> inode_at (fv_inode_handler f) bs1 m = inode_at (fv_inode_handler f) bs m"
proof -
  let ?h = "fv_inode_handler f"
  note dis = areas_disjoint [OF mt] and lim = inode_limit [OF mt]
  have len: "length bs1 = length bs" by (simp add: bs1 bs0(1))
  show "mounted f bs1" using mt mounted_length [OF len, of f] by simp
  have slots: "slot_block ?h m < length bs0" if "unat m < inode_count ?h" for m using lim(2) [OF that] bs0(1) by simp
  show "wf_blocks bs1" using wf slots [OF c(1)] c(2) by (simp add: bs1 wf_put_inode)
  have out: "bs1 ! a = bs ! a" if "a \<notin> table_area f" "a \<noteq> 0" for a
  proof -
    have "a \<noteq> slot_block ?h c" using that(1) lim(3) [OF c(1)] by metis
    then show ?thesis using bs0(2) that(2) by (simp add: bs1 put_inode_other)
  qed
  show "bs1 ! a = bs ! a" if "a \<in> data_area f" for a using that dis(4,10) by (intro out) auto
  show "bit_at (fv_inode_allocator f) bs1 x = bit_at (fv_inode_allocator f) bs x" if "x < unat (ba_size (fv_inode_allocator f)) * 2048" for x
    using that dis(1,6) by (intro inode_bits_frame out) auto
  show "bit_at (fv_block_allocator f) bs1 x = bit_at (fv_block_allocator f) bs x" if "x < unat (ba_size (fv_block_allocator f)) * 2048" for x
    using that dis(2,8) by (intro bits_frame out) auto
  show "inode_at ?h bs1 c = Ok ci" unfolding bs1 by (rule inode_at_put_same [OF wf slots [OF c(1)] c(2)])
  show "inode_at ?h bs1 m = inode_at ?h bs m" if m: "unat m < inode_count ?h" "m \<noteq> c" for m
  proof -
    have "slot_block ?h m \<noteq> 0" using lim(3) [OF m(1)] dis(3) by metis
    then have "inode_at ?h bs0 m = inode_at ?h bs m" using bs0(2) by (intro inode_at_frame) simp
    then show ?thesis unfolding bs1 using inode_at_put_other [OF wf slots [OF c(1)] slots [OF m(1)] c(2) m(2)] by simp
  qed
qed

lemma relinkedI:
  assumes pr: "parent_ready f bs p pi ess" and wf: "wf_blocks bs0" and c: "live_inode f bs c ci0" "c \<noteq> p" "inode_wf ci"
    and bs0: "length bs0 = length bs" "\<forall>a. a \<noteq> 0 \<longrightarrow> bs0 ! a = bs ! a" and bs1: "bs1 = put_inode (fv_inode_handler f) bs0 c ci"
    and r: "r \<in> set (inode_blocks (fv_inode_handler f) bs pi)" and lay: "layout es (image es)"
    and dir: "dir_layout (fv_inode_handler f) (bs1[data_addr (fv_inode_handler f) r := image es]) pi ess'"
  shows "relinked f bs p pi ess' now c ci (touch_dir f bs1 now p pi r es)"
proof -
  let ?h = "fv_inode_handler f" let ?bs' = "touch_dir f bs1 now p pi r es"
  note P = parent_readyD [OF pr] and lim = inode_limit [OF parent_readyD(1) [OF pr]]
  have cn: "unat c < inode_count ?h" "bit_at (fv_inode_allocator f) bs (unat c)" using c(1) by (simp_all add: live_inode_def)
  note R = relink_frame [OF P(1) wf cn(1) c(3) bs0 bs1]
  have len: "length bs1 = length bs" by (simp add: bs1 bs0(1))
  note T = touch_inodes [OF R(1) P(2) R(2) P(3) lay] and TB = touch_bits [OF R(1) P(2)]
  have bits: "bit_at (fv_inode_allocator f) ?bs' (unat m) = bit_at (fv_inode_allocator f) bs (unat m)" if "unat m < inode_count ?h" for m :: u32
    using TB(1) R(4) lim(4) [OF that] by simp
  have "unat (ba_max_index (fv_block_allocator f)) \<le> unat (ba_size (fv_block_allocator f)) * 2048"
    using mounted_ok(2) [OF P(1)] by (simp add: bitmap_ok_def)
  then have marks: "marked f ?bs' a \<longleftrightarrow> marked f bs a" for a using TB(2) R(5) unfolding marked_def by (auto cong: conj_cong)
  have live_p: "live_inode f ?bs' p (pi\<lparr>in_modified := now\<rparr>)" using P(2,9) T(1) bits [OF P(2)] by (simp add: live_inode_def)
  have live_c: "live_inode f ?bs' c ci" using cn T(2) [OF cn(1) c(2)] R(6) bits [OF cn(1)] by (simp add: live_inode_def)
  have live_m: "live_inode f ?bs' m j" if "m \<noteq> p" "m \<noteq> c" "live_inode f bs m j" for m j
    using that T(2) [of m] R(7) [of m] bits [of m] by (simp add: live_inode_def)
  have kept: "?bs' ! a = bs ! a" if "marked f bs a" "a \<notin> owned ?h bs pi" for a
  proof -
    have "a \<noteq> data_addr ?h r" using that(2) r by (auto simp: owned_def)
    then show ?thesis using touch_frame(1) [OF R(1) P(2), of a] marked_data [OF that(1)] R(3) [of a] by simp
  qed
  have pk: "bs1 ! a = bs ! a" if "a \<in> owned ?h bs pi" for a by (rule R(3) [OF owned_data [OF that]])
  have pm: "marked f ?bs' a" if "a \<in> owned ?h bs pi" for a using P(7) [OF that] marks by blast
  note tp = touch_parent [OF pr pk len r dir refl R(1) live_p pm]
  show ?thesis unfolding relinked_def using len live_c tp live_m marks kept by simp
qed


lemma reserve_none: "reserve_format f [] [] = f" "reserve_blocks f bs [] [] = bs[0 := super_image (fv_superblock f)]"
  by (simp_all add: reserve_blocks_def reserve_format_def take_alloc_def)

text \<open>The slot of an inode is not a data block.\<close>

lemma put_slot_commute:
  assumes mt: "mounted f bs" and c: "unat c < inode_count (fv_inode_handler f)"
  shows "put_inode (fv_inode_handler f) (bs1[data_addr (fv_inode_handler f) r := b]) c i = (put_inode (fv_inode_handler f) bs1 c i)[data_addr (fv_inode_handler f) r := b]"
proof -
  have "data_addr (fv_inode_handler f) r \<noteq> slot_block (fv_inode_handler f) c"
    using inode_limit(3) [OF mt c] in_areas(1) [of f r] areas_disjoint(10) [OF mt] by auto
  then show ?thesis by (simp add: put_inode_def list_update_swap)
qed

lemma put_slot_layout:
  assumes mt: "mounted f bs" and c: "unat c < inode_count (fv_inode_handler f)"
  shows "dir_layout (fv_inode_handler f) (put_inode (fv_inode_handler f) bs1 c i) pi ess = dir_layout (fv_inode_handler f) bs1 pi ess"
proof (rule dir_frame(1) [OF put_inode_other length_put_inode])
  fix a
  assume "a \<in> owned (fv_inode_handler f) bs1 pi"
  then show "a \<noteq> slot_block (fv_inode_handler f) c"
    using owned_data [of a f bs1 pi] inode_limit(3) [OF mt c] areas_disjoint(10) [OF mt] by auto
qed

context block_device
begin

lemma link_entry_execs:
  assumes pr: "parent_ready f bs p pi ess" and wf: "wf_blocks bs" and c: "live_inode f bs c ci" "c \<noteq> p" "inode_wf ci"
    and links: "addW (in_links ci) 1 = Ok k" and name: "length name \<le> MAX_NAME" and ess: "entry_room name ess" "short_names ess"
  shows "\<exists>bs' ess'. fs_execs inv blks (link_entry ops now ci c dst name pi p) f bs (Ok (ci\<lparr>in_links := k\<rparr>, pi\<lparr>in_modified := now\<rparr>)) f bs' \<and>
    relinked f bs p pi ess' now c (ci\<lparr>in_links := k\<rparr>) bs' \<and> mset (live ess') = add_mset (new_entry c File name) (mset (live ess))"
proof -
  let ?h = "fv_inode_handler f" let ?e = "new_entry c File name" let ?ci = "ci\<lparr>in_links := k\<rparr>"
  let ?b0 = "reserve_blocks f bs [] []" let ?b1 = "put_inode ?h ?b0 c ?ci"
  note P = parent_readyD [OF pr]
  have cn: "unat c < inode_count ?h" and cw: "inode_wf ?ci" using c by (simp_all add: live_inode_def inode_wf_def)
  have z: "\<forall>a. a \<noteq> 0 \<longrightarrow> ?b0 ! a = bs ! a" and w0: "wf_blocks ?b0" and l0: "length ?b0 = length bs"
    using wf_reserve_blocks [OF wf, of f "[]" "[]"] by (simp_all add: reserve_none)
  note R = relink_frame [OF P(1) w0 cn cw l0 z refl]
  have "a \<noteq> 0" if "a \<in> data_area f" for a using that areas_disjoint(4) [OF P(1)] by metis
  then have kept: "\<forall>a \<in> owned ?h bs pi. ?b0 ! a = bs ! a" using z owned_data by blast
  obtain fr r off where found: "locate_in (takes ?e) (contents ?h bs pi ess) = Some (fr, r, off)" by (rule entry_room_found [OF P(4) ess(1)])
  from insert_entry_execs [OF pr kept l0 name inode_limit(1) [OF P(1) cn] found] ess(1) obtain es ess' where
    ins: "execs inv blks (add_entry_here ops (fv_directory_handler f) ?e r (of_nat off)) ?b0 (Ok ()) (?b0[data_addr ?h r := image es])"
    and lay: "layout es (image es)" and dir: "dir_layout ?h (?b0[data_addr ?h r := image es]) pi ess'"
    and live: "mset (live ess') = add_mset ?e (mset (live ess))" and r: "r \<in> set (inode_blocks ?h bs pi)" unfolding entry_room_def by blast
  note com = put_slot_commute [OF P(1) cn, of ?b0 r "image es" ?ci]
  have dir1: "dir_layout ?h (?b1[data_addr ?h r := image es]) pi ess'"
    using dir put_slot_layout [OF P(1) cn, of "?b0[data_addr ?h r := image es]" ?ci] by (simp add: com)
  have alloc: "fs_execs inv blks (fs_allocate ops 0 0) f bs (Ok ([], [])) f ?b0"
    using fs_allocate_execs [OF P(1), of 0 0] by (simp add: first_free_def reserve_none(1))
  have wc: "execs inv blks (write_inode ops ?h c ?ci) (?b0[data_addr ?h r := image es]) (Ok ()) (?b1[data_addr ?h r := image es])"
    using write_inode_execs [of ?h "?b0[data_addr ?h r := image es]" c ?ci] mounted_ok(3) [OF P(1)] cn cw l0 by (simp add: com)
  have eb: "entry_blocks pi (Some (r, of_nat off)) 0 = Ok 0" by (simp add: entry_blocks_def)
  have run: "fs_execs inv blks (link_entry ops now ci c dst name pi p) f bs (Ok (?ci, pi\<lparr>in_modified := now\<rparr>)) f (touch_dir f ?b1 now p pi r es)"
    unfolding link_entry_def Let_def new_entry_eq [OF name] bindM_liftM_Ok
    by (rule fs_bind_self, rule execs_bind [OF no_collision_execs [OF pr name ess(2)]], simp only: simp_thms if_False,
        rule fs_bind_dev [OF find_room_execs [OF pr name found]], simp only: eb bindM_liftM_Ok, rule execs_bind [OF alloc], simp only: prod.case,
        rule execs_bind [OF place_found_execs [OF ins]], simp only: links bindM_liftM_Ok, rule fs_bind_dev [OF wc],
        rule fs_bind_dev [OF touch_inode_execs [OF R(1) P(2,3)]], rule execs_return)
  from run relinkedI [OF pr w0 c(1,2) cw l0 z refl r lay dir1, of now] live show ?thesis by blast
qed

lemma unlink_entry_execs:
  assumes pr: "parent_ready f bs p pi ess" and wf: "wf_blocks bs" and c: "live_inode f bs c ci" "c \<noteq> p" "inode_wf ci"
    and links: "1 < in_links ci" and found: "locate_in (named name) (contents (fv_inode_handler f) bs pi ess) = Some (e, r, off)"
  defines "ci' \<equiv> ci\<lparr>in_links := in_links ci - 1\<rparr>"
  shows "\<exists>bs' ess'. fs_execs inv blks (delete_entry ops now ci c pi p r off) f bs (Ok ()) f bs' \<and>
    relinked f bs p pi ess' now c ci' bs' \<and> mset (live ess) = add_mset e (mset (live ess'))"
proof -
  let ?h = "fv_inode_handler f" let ?b1 = "put_inode ?h bs c ci'"
  note P = parent_readyD [OF pr]
  have cn: "unat c < inode_count ?h" using c(1) by (simp add: live_inode_def)
  have cw: "inode_wf ci'" using c(3) by (simp add: ci'_def inode_wf_def)
  have z: "\<forall>a. a \<noteq> 0 \<longrightarrow> bs ! a = bs ! a" by simp
  note R = relink_frame [OF P(1) wf cn cw refl z refl]
  have kept: "?b1 ! a = bs ! a" if "a \<in> owned ?h bs pi" for a by (rule R(3) [OF owned_data [OF that]])
  have fr: "dir_layout ?h ?b1 pi ess" "inode_blocks ?h ?b1 pi = inode_blocks ?h bs pi" "meta_blocks ?h ?b1 pi = meta_blocks ?h bs pi"
    using dir_frame [OF kept] P(4) by simp_all
  have found1: "locate_in (named name) (contents ?h ?b1 pi ess) = Some (e, r, off)" using found unfolding fr(2) .
  from remove_located [OF fr(1) P(8) _ _ found1] P(5,6) fr(2,3) obtain es ess' where
    rem: "execs inv blks (free_region ops (fv_directory_handler f) r (of_nat off)) ?b1 (Ok (de_record_len e)) (?b1[data_addr ?h r := image es])"
    and lay: "layout es (image es)" and dir: "dir_layout ?h (?b1[data_addr ?h r := image es]) pi ess'"
    and live: "mset (live ess) = add_mset e (mset (live ess'))" and r: "r \<in> set (inode_blocks ?h bs pi)" by auto
  have wc: "execs inv blks (write_inode ops ?h c ci') bs (Ok ()) ?b1"
    using write_inode_execs [of ?h bs c ci'] mounted_ok(3) [OF P(1)] cn cw by simp
  note wp = touch_inode_execs [OF R(1) P(2,3)]
  have run: "fs_execs inv blks (delete_entry ops now ci c pi p r off) f bs (Ok ()) f (touch_dir f ?b1 now p pi r es)"
    unfolding delete_entry_def ci'_def [symmetric]
    by (rule fs_bind_self, simp only: if_P [OF links], rule fs_bind_dev [OF wc], rule fs_bind_dev [OF rem], rule dev_execs, rule wp)
  from run relinkedI [OF pr wf c(1,2) cw refl z refl r lay dir, of now] live show ?thesis by blast
qed

end


section \<open>The namespace\<close>

lemma links_blocks [simp]:
  "inode_blocks h bs (i\<lparr>in_links := k\<rparr>) = inode_blocks h bs i" "meta_blocks h bs (i\<lparr>in_links := k\<rparr>) = meta_blocks h bs i"
  "owned h bs (i\<lparr>in_links := k\<rparr>) = owned h bs i" "content h bs (i\<lparr>in_links := k\<rparr>) = content h bs i"
proof -
  show b: "inode_blocks h bs (i\<lparr>in_links := k\<rparr>) = inode_blocks h bs i" and m: "meta_blocks h bs (i\<lparr>in_links := k\<rparr>) = meta_blocks h bs i"
    by (simp_all add: inode_blocks_def meta_blocks_def block_at_def cong: map_cong)
  show "owned h bs (i\<lparr>in_links := k\<rparr>) = owned h bs i" "content h bs (i\<lparr>in_links := k\<rparr>) = content h bs i"
    by (simp_all add: owned_def content_def file_data_def b m)
qed

lemma relinked_holds:
  assumes tree: "tree_at f bs I ns" and p: "p \<in> dom ns" and c: "ns c = Some Leaf" "c \<noteq> p"
    and rel: "relinked f bs p (I p) ess' now c ((I c)\<lparr>in_links := k\<rparr>) bs'"
  shows "holds f bs' c ((I c)\<lparr>in_links := k\<rparr>) Leaf" "content (fv_inode_handler f) bs' (I c) = content (fv_inode_handler f) bs (I c)"
    "owned (fv_inode_handler f) bs' (I c) = owned (fv_inode_handler f) bs (I c)"
proof -
  let ?h = "fv_inode_handler f"
  have R: "length bs' = length bs" "live_inode f bs' c ((I c)\<lparr>in_links := k\<rparr>)" "\<And>a. marked f bs' a \<longleftrightarrow> marked f bs a"
    "\<And>a. marked f bs a \<Longrightarrow> a \<notin> owned ?h bs (I p) \<Longrightarrow> bs' ! a = bs ! a"
    using rel by (simp_all add: relinked_def)
  note H = tree_atD(4) [OF tree c(1)]
  have marks: "marked f bs a" if "a \<in> owned ?h bs (I c)" for a using H that by (simp add: holds_def)
  have kept: "bs' ! a = bs ! a" if "a \<in> owned ?h bs (I c)" for a
    using tree_atD(5) [OF tree _ p c(2)] c(1) R(4) [OF marks [OF that]] that by blast
  note fr = dir_frame(2,3) [OF kept R(1)] owned_frame(3,4) [OF kept]
  show "content ?h bs' (I c) = content ?h bs (I c)" "owned ?h bs' (I c) = owned ?h bs (I c)" using fr(3,4) by (simp_all add: content_def)
  show "holds f bs' c ((I c)\<lparr>in_links := k\<rparr>) Leaf"
    using H R(1-3) fr by (simp add: holds_def inode_wf_def meta_ok_def file_sep_def)
qed

lemma tree_relinked:
  assumes tree: "tree_at f bs I ns" and p: "p \<in> dom ns" and c: "ns c = Some Leaf" "c \<noteq> p"
    and rel: "relinked f bs p (I p) ess' now c ((I c)\<lparr>in_links := k\<rparr>) bs'"
    and ess': "distinct (map name_of (live ess'))" "ran (entry_map ess') \<subseteq> dom ns"
  shows "tree_at f bs' (I(p := (I p)\<lparr>in_modified := now\<rparr>, c := (I c)\<lparr>in_links := k\<rparr>)) (ns(p \<mapsto> Folder (entry_map ess')))"
proof -
  note C = relinked_holds [OF tree p c rel] and T = tree_atD [OF tree]
  let ?h = "fv_inode_handler f" let ?pi = "(I p)\<lparr>in_modified := now\<rparr>" let ?ci = "(I c)\<lparr>in_links := k\<rparr>"
  let ?I = "I(p := ?pi, c := ?ci)" let ?ns = "ns(p \<mapsto> Folder (entry_map ess'))"
  have R: "length bs' = length bs" "parent_ready f bs' p ?pi ess'" "owned ?h bs' (I p) = owned ?h bs (I p)"
    "\<And>m j. m \<noteq> p \<Longrightarrow> m \<noteq> c \<Longrightarrow> live_inode f bs m j \<Longrightarrow> live_inode f bs' m j" "\<And>a. marked f bs' a \<longleftrightarrow> marked f bs a"
    "\<And>a. marked f bs a \<Longrightarrow> a \<notin> owned ?h bs (I p) \<Longrightarrow> bs' ! a = bs ! a"
    using rel by (simp_all add: relinked_def)
  have hp: "holds f bs' p ?pi (Folder (entry_map ess'))" by (rule parent_holds [OF R(2) ess'(1) refl])
  have ok: "holds f bs' m (I m) y" "owned ?h bs' (I m) = owned ?h bs (I m)" if "ns m = Some y" "m \<noteq> p" "m \<noteq> c" for m y
  proof -
    have live: "live_inode f bs' m (I m)" using T(4) [OF that(1)] that R(4) by (simp add: holds_def)
    from others_kept [OF tree that(1,2) p live refl R(1,6)] R(5)
    show "holds f bs' m (I m) y" "owned ?h bs' (I m) = owned ?h bs (I m)" by blast+
  qed
  have dm: "dom ?ns = dom ns" using p by auto
  have own: "owned ?h bs' (?I m) = owned ?h bs (I m)" if "m \<in> dom ns" for m using ok(2) R(3) C(3) that by auto
  show ?thesis
    unfolding tree_at_def dm
  proof (intro conjI allI impI)
    show "mounted f bs'" using R(2) by (simp add: parent_ready_def)
    show "is_folder ?ns (sb_root_inode (fv_superblock f))" using T(3) by (auto simp: is_folder_def split: option.splits)
    show "holds f bs' m (?I m) y" if "?ns m = Some y" for m y using that hp ok(1) C(1) c by (auto split: if_splits)
    show "owned ?h bs' (?I a) \<inter> owned ?h bs' (?I b) = {}" if ab: "a \<in> dom ns" "b \<in> dom ns" "a \<noteq> b" for a b
      using T(5) [OF ab] by (simp only: own [OF ab(1)] own [OF ab(2)])
    show "ran m \<subseteq> dom ns" if "?ns j = Some (Folder m)" for j m
      using that ess'(2) tree unfolding tree_at_def by (cases "j = p") auto
  qed
qed


section \<open>Adding a name\<close>

lemma add_name_extends:
  assumes p: "is_folder ns p" and new: "child_of ns p name = None" and c: "ns c = Some Leaf"
  shows "extends ns (add_node ns p name c Leaf)"
proof -
  from p obtain m where m: "ns p = Some (Folder m)" by (auto simp: is_folder_def split: option.splits node.splits)
  then have "p \<noteq> c" using c by auto
  then show ?thesis
    using m new c unfolding extends_def add_node_def
    by (auto simp: child_of_def link_of_def is_folder_def split: option.splits node.splits)
qed

lemma follow_added:
  assumes ext: "extends ns (add_node ns (pl_target pl) name n Leaf)" and dir: "follow ns root it dir True [] pl0 = Ok pl"
    and p: "is_folder ns (pl_target pl)" "pl_target pl \<noteq> n"
  shows "follow (add_node ns (pl_target pl) name n Leaf) root it (dir @ [Normal name]) final [] pl0 =
    Ok \<lparr>pl_target = n, pl_parent = pl_target pl, pl_name = Some name\<rparr>"
proof -
  let ?ns = "add_node ns (pl_target pl) name n Leaf"
  from p(1) obtain m where m: "ns (pl_target pl) = Some (Folder m)" by (auto simp: is_folder_def split: option.splits node.splits)
  with p(2) have c: "child_of ?ns (pl_target pl) name = Some n" "link_of ?ns n = None"
    by (auto simp: child_of_def link_of_def add_node_def split: node.splits)
  have "is_folder ?ns (pl_target pl)" using ext p by (simp add: extends_def)
  from follow_snoc [OF follow_mono [OF ext dir] this, of "Normal name" final] obtain q where
    "follow ?ns root it (dir @ [Normal name]) final [] pl0 = follow ?ns root it [Normal name] final q pl" by blast
  then show ?thesis using c by (auto simp: follow.simps Let_def)
qed

context block_device
begin

lemma create_hardlink_execs:
  fixes now :: u64
  assumes tree: "tree_at f bs I ns" and wf: "wf_blocks bs" and root: "root = sb_root_inode (fv_superblock f)"
    and src: "follow ns root 0 (components src) True [] (start root) = Ok s" "ns (pl_target s) = Some Leaf"
    and path: "path_parent (components dst) = Some dir" "path_file_name (components dst) = Some name"
    and pl: "follow ns root 0 dir True [] (start root) = Ok pl"
    and room: "room_for f bs I ns (pl_target pl) name" and new: "child_of ns (pl_target pl) name = None"
    and name: "length name \<le> MAX_NAME" and links: "addW (in_links (I (pl_target s))) 1 = Ok k"
  defines "I' \<equiv> I(pl_target pl := (I (pl_target pl))\<lparr>in_modified := now\<rparr>, pl_target s := (I (pl_target s))\<lparr>in_links := k\<rparr>)"
  shows "\<exists>bs'. fs_execs inv blks (create_hardlink ops now src dst) f bs (Ok ()) f bs' \<and>
    tree_at f bs' I' (add_node ns (pl_target pl) name (pl_target s) Leaf) \<and>
    content (fv_inode_handler f) bs' (I' (pl_target s)) = content (fv_inode_handler f) bs (I (pl_target s))"
proof -
  let ?p = "pl_target pl" let ?c = "pl_target s"
  from room_forD [OF tree room] obtain ess where pr: "parent_ready f bs ?p (I ?p) ess" and dis: "distinct (map name_of (live ess))"
    and ns: "ns ?p = Some (Folder (entry_map ess))" and ess: "entry_room name ess" "short_names ess" by blast
  from resolve_path_reaches [OF tree src(1) [unfolded root]] obtain st where
    s: "fs_execs inv blks (resolve_path ops (components src) True) f bs (Ok st) f bs" "rr_target_inode st = I ?c" "rr_target_inode_index st = ?c"
    by (auto simp: reached_def)
  from resolve_path_reaches [OF tree pl [unfolded root]] obtain st' where
    t: "fs_execs inv blks (resolve_path ops dir True) f bs (Ok st') f bs" "rr_target_inode st' = I ?p" "rr_target_inode_index st' = ?p"
    by (auto simp: reached_def)
  have C: "live_inode f bs ?c (I ?c)" "inode_wf (I ?c)" "in_file_type (I ?c) = File" and cp: "?c \<noteq> ?p"
    using tree_atD(4) [OF tree src(2)] src(2) ns by (auto simp: holds_def)
  from link_entry_execs [OF pr wf C(1) cp C(2) links name ess] obtain bs' ess' where
    run: "fs_execs inv blks (link_entry ops now (I ?c) ?c dst name (I ?p) ?p) f bs (Ok ((I ?c)\<lparr>in_links := k\<rparr>, (I ?p)\<lparr>in_modified := now\<rparr>)) f bs'"
    and rel: "relinked f bs ?p (I ?p) ess' now ?c ((I ?c)\<lparr>in_links := k\<rparr>) bs'"
    and ms: "mset (live ess') = add_mset (new_entry ?c File name) (mset (live ess))" by blast
  have "?c \<noteq> INVALID_ADDRESS" using inode_limit(1) [OF tree_atD(1) [OF tree]] C(1) by (simp add: live_inode_def)
  then have e: "name_of (new_entry ?c File name) = name" using new_entry_ok(5) [OF name] by blast
  have fresh: "entry_map ess (name_of (new_entry ?c File name)) = None" using new by (simp add: e child_of_def ns)
  note E = entry_map_add [OF dis ms fresh, unfolded e new_entry_simps(4)]
  have p: "?p \<in> dom ns" using ns by blast
  have "ran (entry_map ess') \<subseteq> insert ?c (ran (entry_map ess))" unfolding E(2) by (auto simp: ran_def split: if_splits)
  moreover have "ran (entry_map ess) \<subseteq> dom ns" using tree ns unfolding tree_at_def by blast
  ultimately have ran: "ran (entry_map ess') \<subseteq> dom ns" using src(2) by blast
  have names: "add_node ns ?p name ?c Leaf = ns(?p \<mapsto> Folder (entry_map ess'))"
    using src(2) cp by (auto simp: add_node_def ns E(2))
  have "fs_execs inv blks (create_hardlink ops now src dst) f bs (Ok ()) f bs'"
    unfolding create_hardlink_def Let_def
    by (rule execs_bind [OF s(1)], simp only: s C(3) simp_thms if_False path unwrap_def option.case bindM_liftM_Ok,
        rule execs_bind [OF t(1)], simp only: t, rule execs_bind [OF run], rule execs_return)
  with tree_relinked [OF tree p src(2) cp rel E(1) ran] relinked_holds(2) [OF tree p src(2) cp rel] show ?thesis
    unfolding names by (auto simp: I'_def)
qed

end

text \<open>
  C7. \<open>create_hardlink\<close> on a mounted volume that shows the namespace \<open>ns\<close>: when the source path leads to a file whose
  link count does not overflow, and the parent of the destination to a directory with room and without that name, it succeeds;
  the namespace has one more entry, the destination path leads to the file, whose inode has one link more and
  whose contents are the same, and nothing else has changed.
\<close>

theorem create_hardlink_adds_name:
  assumes dev: "block_device ops blks dinv" and d: "dinv d" and tree: "tree_at f (blks d) I ns"
    and root: "root = sb_root_inode (fv_superblock f)"
    and src: "follow ns root 0 (components src) True [] (start root) = Ok s" "ns (pl_target s) = Some Leaf"
    and links: "unat (in_links (I (pl_target s))) + 1 < 2 ^ 16"
    and path: "path_parent (components dst) = Some dir" "path_file_name (components dst) = Some name"
    and pl: "follow ns root 0 dir True [] (start root) = Ok pl"
    and room: "room_for f (blks d) I ns (pl_target pl) name" and new: "child_of ns (pl_target pl) name = None"
    and name: "length name \<le> MAX_NAME"
  shows "\<exists>d' I' ns'. create_hardlink ops now src dst (f, d) = (Ok (), f, d') \<and> dinv d' \<and>
    ns' = add_node ns (pl_target pl) name (pl_target s) Leaf \<and> tree_at f (blks d') I' ns' \<and>
    I' (pl_target s) = (I (pl_target s))\<lparr>in_links := in_links (I (pl_target s)) + 1\<rparr> \<and>
    content (fv_inode_handler f) (blks d') (I' (pl_target s)) = content (fv_inode_handler f) (blks d) (I (pl_target s)) \<and>
    follow ns' root 0 (components dst) True [] (start root) = Ok \<lparr>pl_target = pl_target s, pl_parent = pl_target pl, pl_name = Some name\<rparr>"
proof -
  have k: "addW (in_links (I (pl_target s))) 1 = Ok (in_links (I (pl_target s)) + 1)" using links by (simp add: addW_def)
  from block_device.create_hardlink_execs [OF dev tree block_device.blocks_wf [OF dev d] root src path pl room new name k, of now] obtain bs' where
    run: "fs_execs dinv blks (create_hardlink ops now src dst) f (blks d) (Ok ()) f bs'"
    and x: "tree_at f bs' (I(pl_target pl := (I (pl_target pl))\<lparr>in_modified := now\<rparr>, pl_target s := (I (pl_target s))\<lparr>in_links := in_links (I (pl_target s)) + 1\<rparr>))
        (add_node ns (pl_target pl) name (pl_target s) Leaf)"
      "content (fv_inode_handler f) bs' ((I (pl_target s))\<lparr>in_links := in_links (I (pl_target s)) + 1\<rparr>) =
        content (fv_inode_handler f) (blks d) (I (pl_target s))" by auto
  have fold: "is_folder ns (pl_target pl)" "pl_target pl \<noteq> pl_target s" using room src(2) by (auto simp: room_for_def is_folder_def)
  note F = follow_added [OF add_name_extends [OF fold(1) new src(2)] pl fold, of True, folded path_split [OF path]]
  from fs_execsD [OF run d refl] obtain d' where d': "create_hardlink ops now src dst (f, d) = (Ok (), f, d')" "dinv d'" "blks d' = bs'" by blast
  show ?thesis by (intro exI conjI, rule d'(1), rule d'(2), rule refl, unfold d'(3), rule x(1)) (use x(2) F in simp_all)
qed


section \<open>Removing one of several names\<close>

definition remove_name :: "namespace \<Rightarrow> u32 \<Rightarrow> bytes \<Rightarrow> namespace" where
  "remove_name ns p name = (case ns p of Some (Folder m) \<Rightarrow> ns(p \<mapsto> Folder (m(name := None))) | _ \<Rightarrow> ns)"

context block_device
begin

lemma delete_name_execs:
  fixes now :: u64
  assumes tree: "tree_at f bs I ns" and wf: "wf_blocks bs" and root: "root = sb_root_inode (fv_superblock f)"
    and pl: "follow ns root 0 (components path) False [] (start root) = Ok \<lparr>pl_target = c, pl_parent = p, pl_name = Some name\<rparr>"
    and c: "ns c = Some Leaf" "1 < in_links (I c)"
  defines "I' \<equiv> I(p := (I p)\<lparr>in_modified := now\<rparr>, c := (I c)\<lparr>in_links := in_links (I c) - 1\<rparr>)"
  shows "\<exists>bs'. fs_execs inv blks (delete ops now path) f bs (Ok ()) f bs' \<and> tree_at f bs' I' (remove_name ns p name) \<and>
    content (fv_inode_handler f) bs' (I' c) = content (fv_inode_handler f) bs (I c)"
proof -
  from resolve_path_reaches [OF tree pl [unfolded root]] obtain st where
    res: "fs_execs inv blks (resolve_path ops (components path) False) f bs (Ok st) f bs"
    and st: "reached f bs I ns \<lparr>pl_target = c, pl_parent = p, pl_name = Some name\<rparr> st" by blast
  from st obtain ess e where pr: "parent_ready f bs p (I p) ess" and dis: "distinct (map name_of (live ess))"
    and ns: "ns p = Some (Folder (entry_map ess))" and e: "de_inode e = c"
    and found: "locate_in (named name) (contents (fv_inode_handler f) bs (I p) ess) = Some (e, rr_dir_entry_block_index st, rr_dir_entry_offset st)"
    by (auto simp: reached_def)
  have at: "rr_target_inode_index st = c" "rr_target_inode st = I c" "rr_parent_inode_index st = p" using st by (auto simp: reached_def)
  have nm: "name_of e = name" using located_block [OF parent_readyD(4) [OF pr] found] by (auto simp: named_def)
  have C: "live_inode f bs c (I c)" "inode_wf (I c)" "in_file_type (I c) = File" and cp: "c \<noteq> p" "p \<in> dom ns"
    and cr: "c \<noteq> sb_root_inode (fv_superblock f)"
    using tree_atD(4) [OF tree c(1)] c(1) ns tree_atD(3) [OF tree] by (auto simp: holds_def is_folder_def)
  from unlink_entry_execs [OF pr wf C(1) cp(1) C(2) c(2) found] obtain bs' ess' where
    run: "fs_execs inv blks (delete_entry ops now (I c) c (I p) p (rr_dir_entry_block_index st) (rr_dir_entry_offset st)) f bs (Ok ()) f bs'"
    and rel: "relinked f bs p (I p) ess' now c ((I c)\<lparr>in_links := in_links (I c) - 1\<rparr>) bs'"
    and ms: "mset (live ess) = add_mset e (mset (live ess'))" by blast
  note E = entry_map_remove [OF dis ms, unfolded nm]
  have "ran (entry_map ess') \<subseteq> ran (entry_map ess)" unfolding E(2) by (auto simp: ran_def)
  moreover have "ran (entry_map ess) \<subseteq> dom ns" using tree ns unfolding tree_at_def by blast
  ultimately have ran: "ran (entry_map ess') \<subseteq> dom ns" by blast
  have lp: "live_inode f bs p (I p)" using pr by (simp add: parent_ready_def)
  have "in_file_type (I c) = Directory \<Longrightarrow> empty_dir f bs (I c)" using C(3) by simp
  note empty = check_empty_execs [OF parent_readyD(1) [OF pr] this]
  have "fs_execs inv blks (delete ops now path) f bs (Ok ()) f bs'"
    unfolding delete_def Let_def
    by (rule fs_bind_self, rule execs_bind [OF res], simp only: at cr if_False,
        rule fs_bind_dev [OF live_allocated_execs(2) [OF parent_readyD(1) [OF pr] lp]], rule execs_bind [OF empty], assumption, rule run)
  moreover have "remove_name ns p name = ns(p \<mapsto> Folder (entry_map ess'))" by (simp add: remove_name_def ns E(2))
  ultimately show ?thesis
    using tree_relinked [OF tree cp(2) c(1) cp(1) rel E(1) ran] relinked_holds(2) [OF tree cp(2) c(1) cp(1) rel] by (auto simp: I'_def)
qed

end


text \<open>
  C8. \<open>delete\<close> of a path that leads, without following a final symbolic link, to a file with more than one link: it succeeds;
  only the entry is gone from the namespace, the inode stays in use with one link less and the same contents.
\<close>

theorem delete_name_keeps_file:
  assumes dev: "block_device ops blks dinv" and d: "dinv d" and tree: "tree_at f (blks d) I ns"
    and root: "root = sb_root_inode (fv_superblock f)"
    and pl: "follow ns root 0 (components path) False [] (start root) = Ok \<lparr>pl_target = c, pl_parent = p, pl_name = Some name\<rparr>"
    and c: "ns c = Some Leaf" "1 < in_links (I c)"
  shows "\<exists>d' I'. delete ops now path (f, d) = (Ok (), f, d') \<and> dinv d' \<and> tree_at f (blks d') I' (remove_name ns p name) \<and>
    I' c = (I c)\<lparr>in_links := in_links (I c) - 1\<rparr> \<and>
    content (fv_inode_handler f) (blks d') (I' c) = content (fv_inode_handler f) (blks d) (I c)"
proof -
  from block_device.delete_name_execs [OF dev tree block_device.blocks_wf [OF dev d] root pl c, of now] obtain bs' where
    run: "fs_execs dinv blks (delete ops now path) f (blks d) (Ok ()) f bs'"
    and x: "tree_at f bs' (I(p := (I p)\<lparr>in_modified := now\<rparr>, c := (I c)\<lparr>in_links := in_links (I c) - 1\<rparr>)) (remove_name ns p name)"
      "content (fv_inode_handler f) bs' ((I c)\<lparr>in_links := in_links (I c) - 1\<rparr>) = content (fv_inode_handler f) (blks d) (I c)" by auto
  from fs_execsD [OF run d refl] obtain d' where d': "delete ops now path (f, d) = (Ok (), f, d')" "dinv d'" "blks d' = bs'" by blast
  show ?thesis by (intro exI conjI, rule d'(1), rule d'(2), unfold d'(3), rule x(1)) (use x(2) in simp_all)
qed


section \<open>The integrity check\<close>

context block_device
begin

lemma check_other_execs:
  assumes tree: "tree_at f bs I ns" and c: "ns c = Some x"
    and vi: "bm_ok vi" "unat c < length (cb_bitmap vi) * 8" and vb: "bm_ok vb" "unat (max_index (fv_block_allocator f)) \<le> length (cb_bitmap vb) * 8"
  defines "rs \<equiv> inode_blocks (fv_inode_handler f) bs (I c)" and "al \<equiv> bit_at (fv_block_allocator f) bs"
  shows "\<forall>r \<in> set rs. al (unat r)"
    "\<exists>vi' vb'. execs inv blks (check_other ops f c (res, vi, vb)) bs
        (Ok (res @ type_report (in_file_type (I c)) c @ blocks_report al c {x. bm_bit vb x} rs, vi', vb')) bs \<and>
      bm_ok vi' \<and> length (cb_bitmap vi') = length (cb_bitmap vi) \<and> bm_ok vb' \<and> length (cb_bitmap vb') = length (cb_bitmap vb) \<and>
      (\<forall>y. bm_bit vb' y \<longleftrightarrow> bm_bit vb y \<or> y \<in> unat ` set rs)"
proof -
  note mt = tree_atD(1) [OF tree]
  have H: "live_inode f bs c (I c)" "inode_wf (I c)" "meta_ok (fv_inode_handler f) bs (I c)"
    "\<forall>a \<in> owned (fv_inode_handler f) bs (I c). marked f bs a"
    using tree_atD(4) [OF tree c] by (simp_all add: holds_def)
  have in_use: "unat r < unat (max_index (fv_block_allocator f)) \<and> al (unat r)" if "r \<in> set rs" for r
  proof -
    have "marked f bs (data_addr (fv_inode_handler f) r)" using H(4) that by (simp add: owned_def rs_def)
    then show ?thesis by (auto simp: marked_def data_addr_def al_def max_index_def)
  qed
  then show "\<forall>r \<in> set rs. al (unat r)" by blast
  from visit_cases [OF vi] obtain vi' where v: "visit vi c = Ok (bm_bit vi (unat c), vi')" "bm_ok vi'" "length (cb_bitmap vi') = length (cb_bitmap vi)" by blast
  have ia: "execs inv blks (check_integrity_inode_allocation ops f c vi) bs (Ok ([], vi')) bs"
    unfolding check_integrity_inode_allocation_def by (rule execs_bind [OF live_allocated_execs(1) [OF mt H(1)]]) (auto simp: v)
  have at: "inode_at (fv_inode_handler f) bs c = Ok (I c)" "unat c < inode_count (fv_inode_handler f)" using H(1) by (simp_all add: live_inode_def)
  have "\<forall>r \<in> set (inode_blocks (fv_inode_handler f) bs (I c)). unat r < unat (max_index (fv_block_allocator f))" using in_use by (simp add: rs_def)
  from check_inode_execs [OF mt at H(2,3) this vb] obtain vb' where
    ci: "execs inv blks (check_integrity_inode ops f c vb File) bs
      (Ok (type_report (in_file_type (I c)) c @ blocks_report al c {x. bm_bit vb x} rs, vb')) bs"
    and vb': "bm_ok vb'" "length (cb_bitmap vb') = length (cb_bitmap vb)" "\<forall>y. bm_bit vb' y \<longleftrightarrow> bm_bit vb y \<or> y \<in> unat ` set rs"
    by (auto simp: rs_def al_def)
  have "execs inv blks (check_other ops f c (res, vi, vb)) bs
      (Ok (res @ type_report (in_file_type (I c)) c @ blocks_report al c {x. bm_bit vb x} rs, vi', vb')) bs"
    unfolding check_other_def split_conv Let_def append_Nil2
    by (rule execs_bind [OF ia], simp only: split_conv append_Nil2, rule execs_bind [OF ci], simp only: split_conv, rule execs_return)
  with v vb' show "\<exists>vi' vb'. execs inv blks (check_other ops f c (res, vi, vb)) bs
      (Ok (res @ type_report (in_file_type (I c)) c @ blocks_report al c {x. bm_bit vb x} rs, vi', vb')) bs \<and>
      bm_ok vi' \<and> length (cb_bitmap vi') = length (cb_bitmap vi) \<and> bm_ok vb' \<and> length (cb_bitmap vb') = length (cb_bitmap vb) \<and>
      (\<forall>y. bm_bit vb' y \<longleftrightarrow> bm_bit vb y \<or> y \<in> unat ` set rs)" by blast
qed

end

text \<open>
  C33. The check treats every child that is not a directory as a regular file: for a symbolic link of a
  well-formed volume, whose block was not met before, the loop over these children adds
  \<open>MismatchedFileType\<close> to the report, and nothing else; the type the report calls expected is
  \<open>Directory\<close>.
\<close>

theorem symlink_reported:
  assumes dev: "block_device ops blks dinv" and d: "dinv d" and tree: "tree_at f (blks d) I ns" and c: "ns c = Some (Link t)"
    and vi: "bm_ok vi" "unat c < length (cb_bitmap vi) * 8" and vb: "bm_ok vb" "unat (max_index (fv_block_allocator f)) \<le> length (cb_bitmap vb) * 8"
    and new: "\<forall>r \<in> set (inode_blocks (fv_inode_handler f) (blks d) (I c)). \<not> bm_bit vb (unat r)"
  shows "\<exists>vi' vb' d'. check_other ops f c (res, vi, vb) d = (Ok (res @ [MismatchedFileType Symlink Directory c], vi', vb'), d') \<and> blks d' = blks d"
proof -
  let ?rs = "inode_blocks (fv_inode_handler f) (blks d) (I c)" let ?al = "bit_at (fv_block_allocator f) (blks d)"
  have "in_file_type (I c) = Symlink" "distinct ?rs" using tree_atD(4) [OF tree c] by (simp_all add: holds_def file_sep_def)
  moreover note block_device.check_other_execs(1) [OF dev tree c vi vb]
  ultimately have "blocks_report ?al c {x. bm_bit vb x} ?rs = []" "type_report (in_file_type (I c)) c = [MismatchedFileType Symlink Directory c]"
    using new by (simp_all add: report_empty type_report_def)
  with block_device.check_other_execs(2) [OF dev tree c vi vb, of res] obtain vi' vb' where
    "execs dinv blks (check_other ops f c (res, vi, vb)) (blks d) (Ok (res @ [MismatchedFileType Symlink Directory c], vi', vb')) (blks d)" by auto
  from execsD [OF this d refl] show ?thesis by blast
qed

theorem symlink_reported_witness:
  "\<exists>vi' vb' d'. check_other mem_ops demo_format 1 ([], checker_bitmap_new 2, checker_bitmap_new 4) \<lparr>md_blocks = link_blocks\<rparr> =
    (Ok ([MismatchedFileType Symlink Directory 1], vi', vb'), d')"
proof -
  let ?d = "\<lparr>md_blocks = link_blocks\<rparr>"
  have tree: "tree_at demo_format (md_blocks ?d) link_inodes link_names" using link_tree by simp
  have c: "link_names 1 = Some (Link [9, 9, 0])" by (simp add: link_names_def)
  have rs: "inode_blocks (fv_inode_handler demo_format) (md_blocks ?d) (link_inodes 1) = [1]"
    by (simp add: demo_format_def inode_blocks_def block_at_def link_inodes_def demo_inode_def)
  have vi: "bm_ok (checker_bitmap_new 2)" "unat (1 :: u32) < length (cb_bitmap (checker_bitmap_new 2)) * 8" using bm_new(1,2) [of 2] by simp_all
  have vb: "bm_ok (checker_bitmap_new 4)" "unat (max_index (fv_block_allocator demo_format)) \<le> length (cb_bitmap (checker_bitmap_new 4)) * 8"
    using bm_new(1,2) [of 4] by (simp_all add: demo_format_def max_index_def bitmap_allocator_new_def)
  have "\<not> bm_bit (checker_bitmap_new 4) 1" using bm_new(2) [of 4] bm_new(3) [of 4 1] by simp
  then have "\<forall>r \<in> set (inode_blocks (fv_inode_handler demo_format) (md_blocks ?d) (link_inodes 1)). \<not> bm_bit (checker_bitmap_new 4) (unat r)"
    unfolding rs by simp
  from symlink_reported [OF mem.block_device_axioms link_volume(1) tree c vi vb this, of "[]"] show ?thesis by auto
qed

text \<open>
  C34. The integrity check takes hard links for corruption: a file that is well-formed, and whose blocks were not met
  before, is passed at its first name and reported at its second, with a \<open>DoubleReference\<close> for each of its blocks.
\<close>

theorem hardlink_reported:
  assumes dev: "block_device ops blks dinv" and d: "dinv d" and tree: "tree_at f (blks d) I ns" and c: "ns c = Some Leaf"
    and vi: "bm_ok vi" "unat c < length (cb_bitmap vi) * 8" and vb: "bm_ok vb" "unat (max_index (fv_block_allocator f)) \<le> length (cb_bitmap vb) * 8"
    and new: "\<forall>r \<in> set (inode_blocks (fv_inode_handler f) (blks d) (I c)). \<not> bm_bit vb (unat r)"
  shows "\<exists>vi' vb' d'. foldM (check_other ops f) [c, c] (res, vi, vb) d =
    (Ok (res @ map DoubleReference (inode_blocks (fv_inode_handler f) (blks d) (I c)), vi', vb'), d') \<and> blks d' = blks d"
proof -
  let ?rs = "inode_blocks (fv_inode_handler f) (blks d) (I c)" let ?al = "bit_at (fv_block_allocator f) (blks d)"
  have "in_file_type (I c) = File" using tree_atD(4) [OF tree c] by (simp add: holds_def)
  then have ty: "type_report (in_file_type (I c)) c = []" by (simp add: type_report_def)
  note C = block_device.check_other_execs [OF dev tree c, unfolded ty append_Nil]
  from C(2) [OF vi vb, of res] obtain v1 b1 where
    first: "execs dinv blks (check_other ops f c (res, vi, vb)) (blks d) (Ok (res @ blocks_report ?al c {x. bm_bit vb x} ?rs, v1, b1)) (blks d)"
    and ok: "bm_ok v1" "length (cb_bitmap v1) = length (cb_bitmap vi)" "bm_ok b1" "length (cb_bitmap b1) = length (cb_bitmap vb)"
      "\<forall>y. bm_bit b1 y \<longleftrightarrow> bm_bit vb y \<or> y \<in> unat ` set ?rs" by blast
  have "distinct ?rs" using tree_atD(4) [OF tree c] by (simp add: holds_def file_sep_def)
  then have none: "blocks_report ?al c {x. bm_bit vb x} ?rs = []" using new C(1) [OF vi vb] by (simp add: report_empty)
  have all: "blocks_report ?al c {x. bm_bit b1 x} ?rs = map DoubleReference ?rs" using ok(5) C(1) [OF vi vb] by (intro report_seen) auto
  have "unat c < length (cb_bitmap v1) * 8" "unat (max_index (fv_block_allocator f)) \<le> length (cb_bitmap b1) * 8" using vi(2) vb(2) ok(2,4) by simp_all
  from C(2) [OF ok(1) this(1) ok(3) this(2), of res] obtain v2 b2 where
    second: "execs dinv blks (check_other ops f c (res, v1, b1)) (blks d) (Ok (res @ map DoubleReference ?rs, v2, b2)) (blks d)"
    unfolding all by blast
  have "execs dinv blks (foldM (check_other ops f) [c, c] (res, vi, vb)) (blks d) (Ok (res @ map DoubleReference ?rs, v2, b2)) (blks d)"
    unfolding foldM.simps by (rule execs_bind [OF first [unfolded none append_Nil2]], rule execs_bind [OF second], rule execs_return)
  from execsD [OF this d refl] show ?thesis by blast
qed


section \<open>A volume with one file\<close>

text \<open>The root directory holds the file \<open>a\<close>, inode 1, with three bytes and one link.\<close>

definition name_entries :: "dir_entry list" where
  "name_entries = [small_entry 1 File [97] 12, dir_entry_free 244]"

definition name_inodes :: "u32 \<Rightarrow> inode" where
  "name_inodes = link_inodes(0 := (link_inodes 0)\<lparr>in_modified := 0\<rparr>, 1 := demo_inode 1 3)"

definition name_blocks :: "bytes list" where
  "name_blocks = touch_dir demo_format (put_inode demo_handler link_blocks 1 (demo_inode 1 3)) 0 0 (link_inodes 0) 0 name_entries"

definition one_name :: namespace where
  "one_name = [0 \<mapsto> Folder [[97] \<mapsto> 1], 1 \<mapsto> Leaf]"

lemma name_entries_props:
  "layout name_entries (image name_entries)" "live [name_entries] = [small_entry 1 File [97] 12]"
  "name_of (small_entry 1 File [97] 12) = [97]" "short_names [name_entries]" "entry_room [98] [name_entries]"
proof -
  note e = small_entry_ok [of 1 "[97]" 12 File] and f = dir_entry_free_ok [of 244]
  show "layout name_entries (image name_entries)" "live [name_entries] = [small_entry 1 File [97] 12]" "name_of (small_entry 1 File [97] 12) = [97]"
    using e f by (simp_all add: layout_def name_entries_def MAX_NAME_def BLOCK_SIZE_def INVALID_ADDRESS_def)
  show "short_names [name_entries]" by (simp add: short_names_def name_entries_def small_entry_def MAX_NAME_def)
  have "is_free (dir_entry_free 244)" "\<not> is_free (small_entry 1 File [97] 12)" using e by (simp_all add: MAX_NAME_def BLOCK_SIZE_def INVALID_ADDRESS_def)
  then show "entry_room [98] [name_entries]"
    using new_entry_ok(1) [of "[98]" 0 File] by (simp add: entry_room_def name_entries_def takes_def MAX_NAME_def)
qed


lemma name_relinked: "relinked demo_format link_blocks 0 (link_inodes 0) [name_entries] 0 1 (demo_inode 1 3) name_blocks"
proof -
  let ?b1 = "put_inode demo_handler link_blocks 1 (demo_inode 1 3)"
  have h: "fv_inode_handler demo_format = demo_handler" by (simp add: demo_format_def)
  note V = link_volume and R = link_ready and lay = name_entries_props(1)
  have wf: "wf_blocks link_blocks" using V(1) by (simp add: mem_inv_def)
  have blk: "inode_blocks demo_handler bs (link_inodes 0) = [0]" "meta_blocks demo_handler bs (link_inodes 0) = []" for bs
    by (simp_all add: inode_blocks_def block_at_def meta_blocks_def link_inodes_def demo_inode_def)
  have z: "\<forall>a. a \<noteq> 0 \<longrightarrow> link_blocks ! a = link_blocks ! a" by simp
  have a: "data_addr demo_handler 0 = 4" by (simp add: data_addr_def demo_handler_def inode_table_handler_new_def)
  have "?b1 ! 4 = link_blocks ! 4" by (intro put_inode_other) (simp add: demo_slots)
  then have "?b1 ! x = link_blocks ! x" if "x \<in> owned demo_handler link_blocks (link_inodes 0)" for x
    using that by (simp add: owned_def blk a)
  from dir_frame(1) [OF this] V(6) have "dir_layout demo_handler ?b1 (link_inodes 0) [link_entries]" by simp
  from dir_layout_update(1) [OF this, of 0 name_entries] lay
  have "dir_layout demo_handler (?b1[4 := image name_entries]) (link_inodes 0) [name_entries]" by (simp add: blk a)
  then show ?thesis
    unfolding name_blocks_def using relinkedI [OF R(1) wf V(5) _ demo_inode_wf refl z refl _ lay, where r = 0 and ess' = "[name_entries]" and now = 0]
    by (simp add: h blk a)
qed

lemma name_tree: "tree_at demo_format name_blocks name_inodes one_name" "mem_inv \<lparr>md_blocks = name_blocks\<rparr>"
  "room_for demo_format name_blocks name_inodes one_name 0 [98]"
proof -
  have h: "fv_inode_handler demo_format = demo_handler" "sb_root_inode (fv_superblock demo_format) = 0"
    by (simp_all add: demo_format_def demo_superblock_def)
  note N = name_relinked [unfolded relinked_def h] and E = name_entries_props
  have pr: "parent_ready demo_format name_blocks 0 (name_inodes 0) [name_entries]" using N by (simp add: name_inodes_def)
  have blk: "inode_blocks demo_handler bs (name_inodes 0) = [0]" "inode_blocks demo_handler bs (name_inodes 1) = [1]"
    "meta_blocks demo_handler bs (name_inodes n) = []" for bs n
    by (simp_all add: inode_blocks_def block_at_def meta_blocks_def name_inodes_def link_inodes_def demo_inode_def)
  have own: "owned demo_handler bs (name_inodes 0) = {4}" "owned demo_handler bs (name_inodes 1) = {5}" for bs
    unfolding owned_def blk by (simp_all add: data_addr_def demo_handler_def inode_table_handler_new_def)
  have l1: "inode_blocks demo_handler link_blocks (link_inodes 1) = [1]" "meta_blocks demo_handler link_blocks (link_inodes 1) = []"
    by (simp_all add: inode_blocks_def block_at_def meta_blocks_def link_inodes_def demo_inode_def)
  have "owned demo_handler link_blocks (link_inodes 1) = owned demo_handler link_blocks (name_inodes 1)" by (simp add: owned_def blk l1)
  then have m: "marked demo_format link_blocks 5" using link_ready(2) own(2) by (simp add: child_ready_def h)
  have map: "entry_map [name_entries] = [[97] \<mapsto> 1]" "distinct (map name_of (live [name_entries]))"
    using E(2,3) by (simp_all add: entry_map_def small_entry_def)
  note p = parent_holds [OF pr map(2) map(1) [symmetric]]
  have "live_inode demo_format name_blocks 1 (name_inodes 1)" "marked demo_format name_blocks 5" using N m by (simp_all add: name_inodes_def)
  moreover have "in_blocks (name_inodes 1) = 1" "in_file_type (name_inodes 1) = File" "inode_wf (name_inodes 1)"
    by (simp_all add: name_inodes_def demo_inode_def inode_empty_def inode_wf_def)
  ultimately have c: "holds demo_format name_blocks 1 (name_inodes 1) Leaf" by (simp add: holds_def h own meta_ok_def file_sep_def blk)
  show "tree_at demo_format name_blocks name_inodes one_name"
    using p c parent_readyD(1) [OF pr] own unfolding tree_at_def h by (auto simp: one_name_def is_folder_def split: if_splits)
  show "room_for demo_format name_blocks name_inodes one_name 0 [98]"
    unfolding room_for_def h by (intro exI [of _ "[name_entries]"]) (use E parent_readyD(4) [OF pr] map in \<open>simp add: h one_name_def\<close>)
  have "wf_blocks link_blocks" "inode_wf (link_inodes 0)" using link_volume(1,6) by (simp_all add: mem_inv_def dir_layout_def)
  moreover have "wf_blocks (put_inode demo_handler link_blocks 1 (demo_inode 1 3))"
    using calculation(1) by (intro wf_put_inode) (simp_all add: demo_slots link_volume(3))
  ultimately have "wf_blocks name_blocks"
    unfolding name_blocks_def touch_dir_def h using layout_length [OF E(1)]
    by (intro wf_put_inode) (simp_all add: demo_slots link_volume(3))
  moreover have "length name_blocks = 8" using N by (simp add: link_volume(3))
  ultimately show "mem_inv \<lparr>md_blocks = name_blocks\<rparr>" by (simp add: mem_inv_def)
qed


text \<open>The paths \<open>a\<close> and \<open>/b\<close> on it.\<close>

definition place_a :: place where "place_a = \<lparr>pl_target = 1, pl_parent = 0, pl_name = Some [97]\<rparr>"

definition two_names :: namespace where
  "two_names = [0 \<mapsto> Folder [[97] \<mapsto> 1, [98] \<mapsto> 1], 1 \<mapsto> Leaf]"

lemma name_paths:
  "0 = sb_root_inode (fv_superblock demo_format)"
  "follow one_name 0 0 (components [97]) True [] (start 0) = Ok place_a" "one_name (pl_target place_a) = Some Leaf"
  "path_parent (components [slash, 98]) = Some [RootDir]" "path_file_name (components [slash, 98]) = Some [98]"
  "follow one_name 0 0 [RootDir] True [] (start 0) = Ok (start 0)"
  "room_for demo_format name_blocks name_inodes one_name (pl_target (start 0)) [98]"
  "child_of one_name (pl_target (start 0)) [98] = None" "length [98 :: u8] \<le> MAX_NAME"
  "in_links (name_inodes (pl_target place_a)) = 1" "add_node one_name (pl_target (start 0)) [98] (pl_target place_a) Leaf = two_names"
proof -
  show "0 = sb_root_inode (fv_superblock demo_format)" by (simp add: demo_format_def demo_superblock_def)
  show "follow one_name 0 0 (components [97]) True [] (start 0) = Ok place_a" "one_name (pl_target place_a) = Some Leaf"
    by (simp_all add: components_def follow.simps Let_def child_of_def link_of_def one_name_def place_a_def)
  have c: "components [slash, 98] = [RootDir, Normal [98]]" by (simp add: components_def)
  show "path_parent (components [slash, 98]) = Some [RootDir]" "path_file_name (components [slash, 98]) = Some [98]"
    unfolding c by (simp_all add: path_parent_def path_file_name_def)
  show "follow one_name 0 0 [RootDir] True [] (start 0) = Ok (start 0)" by (simp add: follow.simps)
  show "room_for demo_format name_blocks name_inodes one_name (pl_target (start 0)) [98]" using name_tree(3) by simp
  show "child_of one_name (pl_target (start 0)) [98] = None" "length [98 :: u8] \<le> MAX_NAME"
    by (simp_all add: child_of_def one_name_def MAX_NAME_def)
  show "in_links (name_inodes (pl_target place_a)) = 1" by (simp add: name_inodes_def demo_inode_def inode_empty_def place_a_def)
  show "add_node one_name (pl_target (start 0)) [98] (pl_target place_a) Leaf = two_names"
    by (auto simp: add_node_def one_name_def two_names_def place_a_def fun_eq_iff)
qed

theorem create_hardlink_adds_name_witness:
  "\<exists>d' I'. create_hardlink mem_ops 7 [97] [slash, 98] (demo_format, \<lparr>md_blocks = name_blocks\<rparr>) = (Ok (), demo_format, d') \<and>
    tree_at demo_format (md_blocks d') I' two_names \<and> in_links (I' 1) = 2"
proof -
  let ?d = "\<lparr>md_blocks = name_blocks\<rparr>"
  note N = name_paths
  have tree: "tree_at demo_format (md_blocks ?d) name_inodes one_name"
    and room: "room_for demo_format (md_blocks ?d) name_inodes one_name (pl_target (start 0)) [98]" using name_tree(1) N(7) by simp_all
  have links: "unat (in_links (name_inodes (pl_target place_a))) + 1 < 2 ^ 16" by (simp add: N(10))
  from create_hardlink_adds_name [OF mem.block_device_axioms name_tree(2) tree N(1-3) links N(4-6) room N(8,9), of 7] obtain d' I' where
    "create_hardlink mem_ops 7 [97] [slash, 98] (demo_format, ?d) = (Ok (), demo_format, d')" "tree_at demo_format (md_blocks d') I' two_names"
    "I' (pl_target place_a) = (name_inodes (pl_target place_a))\<lparr>in_links := in_links (name_inodes (pl_target place_a)) + 1\<rparr>"
    unfolding N(11) by blast
  then show ?thesis using N(10) by (intro exI [of _ d'] exI [of _ I']) (simp add: place_a_def)
qed

definition linked_inodes :: "u32 \<Rightarrow> inode" where
  "linked_inodes = name_inodes(0 := (name_inodes 0)\<lparr>in_modified := 7\<rparr>, 1 := (name_inodes 1)\<lparr>in_links := 2\<rparr>)"

lemma linked_volume:
  obtains d' where "create_hardlink mem_ops 7 [97] [slash, 98] (demo_format, \<lparr>md_blocks = name_blocks\<rparr>) = (Ok (), demo_format, d')" "mem_inv d'"
    "tree_at demo_format (md_blocks d') linked_inodes two_names"
    "content demo_handler (md_blocks d') (linked_inodes 1) = content demo_handler name_blocks (name_inodes 1)"
proof -
  note N = name_paths
  have h: "fv_inode_handler demo_format = demo_handler" by (simp add: demo_format_def)
  have k: "addW (in_links (name_inodes (pl_target place_a))) 1 = Ok 2" by (simp add: N(10) addW_def)
  have wf: "wf_blocks name_blocks" using name_tree(2) by (simp add: mem_inv_def)
  from mem.create_hardlink_execs [OF name_tree(1) wf N(1-9) k, of 7] obtain bs' where
    run: "fs_execs mem_inv md_blocks (create_hardlink mem_ops 7 [97] [slash, 98]) demo_format name_blocks (Ok ()) demo_format bs'"
    and x: "tree_at demo_format bs' linked_inodes two_names" "content demo_handler bs' (linked_inodes 1) = content demo_handler name_blocks (name_inodes 1)"
    unfolding N(11) by (auto simp: place_a_def h linked_inodes_def)
  from fs_execsD [OF run name_tree(2)] that x show thesis by auto
qed

theorem delete_name_keeps_file_witness:
  "\<exists>d' d'' I'. create_hardlink mem_ops 7 [97] [slash, 98] (demo_format, \<lparr>md_blocks = name_blocks\<rparr>) = (Ok (), demo_format, d') \<and>
    delete mem_ops 8 [97] (demo_format, d') = (Ok (), demo_format, d'') \<and>
    tree_at demo_format (md_blocks d'') I' [0 \<mapsto> Folder [[98] \<mapsto> 1], 1 \<mapsto> Leaf] \<and> in_links (I' 1) = 1 \<and>
    content demo_handler (md_blocks d'') (I' 1) = content demo_handler name_blocks (name_inodes 1)"
proof -
  let ?d = "\<lparr>md_blocks = name_blocks\<rparr>"
  have h: "fv_inode_handler demo_format = demo_handler" by (simp add: demo_format_def)
  obtain d' where d': "create_hardlink mem_ops 7 [97] [slash, 98] (demo_format, ?d) = (Ok (), demo_format, d')" "mem_inv d'"
    and tree: "tree_at demo_format (md_blocks d') linked_inodes two_names"
    and ct: "content demo_handler (md_blocks d') (linked_inodes 1) = content demo_handler name_blocks (name_inodes 1)" by (rule linked_volume)
  have f: "follow two_names 0 0 (components [97]) False [] (start 0) = Ok \<lparr>pl_target = 1, pl_parent = 0, pl_name = Some [97]\<rparr>"
    by (simp add: components_def follow.simps Let_def child_of_def link_of_def two_names_def)
  have c: "two_names 1 = Some Leaf" "1 < in_links (linked_inodes 1)" by (simp_all add: two_names_def linked_inodes_def)
  have "remove_name two_names 0 [97] = [0 \<mapsto> Folder [[98] \<mapsto> 1], 1 \<mapsto> Leaf]" by (auto simp: remove_name_def two_names_def fun_eq_iff)
  with delete_name_keeps_file [OF mem.block_device_axioms d'(2) tree name_paths(1) f c, of 8] obtain d'' I' where
    "delete mem_ops 8 [97] (demo_format, d') = (Ok (), demo_format, d'')" "tree_at demo_format (md_blocks d'') I' [0 \<mapsto> Folder [[98] \<mapsto> 1], 1 \<mapsto> Leaf]"
    "I' 1 = (linked_inodes 1)\<lparr>in_links := in_links (linked_inodes 1) - 1\<rparr>" "content demo_handler (md_blocks d'') (I' 1) = content demo_handler (md_blocks d') (linked_inodes 1)"
    unfolding h by auto
  with d'(1) ct show ?thesis by (intro exI [of _ d'] exI [of _ d''] exI [of _ I']) (simp add: linked_inodes_def)
qed


theorem hardlink_reported_witness:
  "\<exists>d' vi' vb' d''. create_hardlink mem_ops 7 [97] [slash, 98] (demo_format, \<lparr>md_blocks = name_blocks\<rparr>) = (Ok (), demo_format, d') \<and>
    foldM (check_other mem_ops demo_format) [1, 1] ([], checker_bitmap_new 2, checker_bitmap_new 4) d' = (Ok ([DoubleReference 1], vi', vb'), d'')"
proof -
  obtain d' where d': "create_hardlink mem_ops 7 [97] [slash, 98] (demo_format, \<lparr>md_blocks = name_blocks\<rparr>) = (Ok (), demo_format, d')" "mem_inv d'"
    and tree: "tree_at demo_format (md_blocks d') linked_inodes two_names" by (rule linked_volume)
  have c: "two_names 1 = Some Leaf" by (simp add: two_names_def)
  have h: "fv_inode_handler demo_format = demo_handler" "max_index (fv_block_allocator demo_format) = 4"
    by (simp_all add: demo_format_def max_index_def bitmap_allocator_new_def)
  have rs: "inode_blocks (fv_inode_handler demo_format) (md_blocks d') (linked_inodes 1) = [1]"
    by (simp add: h linked_inodes_def name_inodes_def inode_blocks_def block_at_def demo_inode_def)
  have vi: "bm_ok (checker_bitmap_new 2)" "unat (1 :: u32) < length (cb_bitmap (checker_bitmap_new 2)) * 8" using bm_new(1,2) [of 2] by simp_all
  have vb: "bm_ok (checker_bitmap_new 4)" "unat (max_index (fv_block_allocator demo_format)) \<le> length (cb_bitmap (checker_bitmap_new 4)) * 8"
    using bm_new(1,2) [of 4] h by simp_all
  have "\<not> bm_bit (checker_bitmap_new 4) 1" using bm_new(2) [of 4] bm_new(3) [of 4 1] by simp
  then have new: "\<forall>r \<in> set (inode_blocks (fv_inode_handler demo_format) (md_blocks d') (linked_inodes 1)). \<not> bm_bit (checker_bitmap_new 4) (unat r)"
    by (simp add: rs)
  from hardlink_reported [OF mem.block_device_axioms d'(2) tree c vi vb new, of "[]"] d'(1) show ?thesis unfolding rs by auto
qed

end
