(* ===== verification/File_Refinement.thy ===== *)
theory File_Refinement
  imports File_Operations
begin

text \<open>
  Open files as byte sequences. The specification of an open file is its contents, its slack (the bytes
  of its allocated blocks past the end of the file) and a position, and four operations on them; the
  open files of a volume are independent of each other. \<open>simulation\<close> is
  the interface between an implementation and such a specification, and every conforming block device
  gives an instance of it for \<open>read\<close>, \<open>write\<close>, \<open>seek\<close> and \<open>truncate\<close> of \<^verbatim>\<open>src/src/formats/v1/format.rs\<close>.
\<close>


section \<open>Scripts of operations\<close>

primrec script :: "('op \<Rightarrow> ('s, 'a) io) \<Rightarrow> 'op list \<Rightarrow> ('s, 'a list) io" where
  "script step [] = returnM []"
| "script step (x # xs) = bindM (step x) (\<lambda>a. bindM (script step xs) (\<lambda>as. returnM (a # as)))"

primrec spec_script :: "('op \<Rightarrow> 'x \<Rightarrow> 'a \<times> 'x) \<Rightarrow> 'op list \<Rightarrow> 'x \<Rightarrow> 'a list \<times> 'x" where
  "spec_script spec [] x = ([], x)"
| "spec_script spec (o1 # xs) x =
     (let (a, x1) = spec o1 x; (as, x2) = spec_script spec xs x1 in (a # as, x2))"

primrec script_ok :: "('op \<Rightarrow> 'x \<Rightarrow> 'a \<times> 'x) \<Rightarrow> ('op \<Rightarrow> 'x \<Rightarrow> bool) \<Rightarrow> 'op list \<Rightarrow> 'x \<Rightarrow> bool" where
  "script_ok spec ok [] x \<longleftrightarrow> True"
| "script_ok spec ok (o1 # xs) x \<longleftrightarrow> ok o1 x \<and> script_ok spec ok xs (snd (spec o1 x))"

locale simulation =
  fixes step :: "'op \<Rightarrow> ('s, 'a) io" and spec :: "'op \<Rightarrow> 'x \<Rightarrow> 'a \<times> 'x"
    and ok :: "'op \<Rightarrow> 'x \<Rightarrow> bool" and rel :: "'s \<Rightarrow> 'x \<Rightarrow> bool"
  assumes simulates: "rel s x \<Longrightarrow> ok o1 x \<Longrightarrow> \<exists>s'. step o1 s = (Ok (fst (spec o1 x)), s') \<and> rel s' (snd (spec o1 x))"
begin

lemma script_simulates:
  "rel s x \<Longrightarrow> script_ok spec ok xs x \<Longrightarrow>
   \<exists>s'. script step xs s = (Ok (fst (spec_script spec xs x)), s') \<and> rel s' (snd (spec_script spec xs x))"
proof (induction xs arbitrary: s x)
  case (Cons o1 xs)
  obtain s1 where s1: "step o1 s = (Ok (fst (spec o1 x)), s1)" "rel s1 (snd (spec o1 x))"
    using simulates [of s x o1] Cons.prems by auto
  with Cons.IH [OF s1(2)] Cons.prems obtain s2 where
    "script step xs s1 = (Ok (fst (spec_script spec xs (snd (spec o1 x)))), s2)"
    "rel s2 (snd (spec_script spec xs (snd (spec o1 x))))" by auto
  with s1(1) show ?case by (auto simp: bindM_Ok returnM_def split: prod.splits)
qed (simp add: returnM_def)

end


section \<open>The specification\<close>

datatype file_op = Op_read bytes | Op_write bytes | Op_seek seek_from | Op_truncate u64

datatype file_answer = A_read nat bytes | A_wrote nat | A_pos u64 | A_unit

type_synonym open_file = "bytes \<times> bytes \<times> nat"

fun seek_target :: "seek_from \<Rightarrow> bytes \<Rightarrow> nat \<Rightarrow> nat" where
  "seek_target (SeekStart off) c p = unat off"
| "seek_target (SeekEnd off) c p = nat (int (length c) + sint off)"
| "seek_target (SeekCurrent off) c p = nat (int p + sint off)"

text \<open>
  A write may start past the end of the file: what is between the end and the position then becomes part
  of the contents, as the slack has it, and zeros where the file has no block yet. Writing nothing changes
  nothing.
\<close>

definition written_at :: "bytes \<Rightarrow> open_file \<Rightarrow> open_file" where
  "written_at buf = (\<lambda>(c, r, p).
     let q = p + length buf;
         d = c @ r @ replicate ((q + 255) div BLOCK_SIZE * BLOCK_SIZE - length (c @ r)) 0
     in if buf = [] then (c, r, p)
        else (take p d @ buf @ drop q c, drop (max (length c) q) d, q))"

fun file_spec :: "file_op \<Rightarrow> open_file \<Rightarrow> file_answer \<times> open_file" where
  "file_spec (Op_read buf) (c, r, p) =
     (let n = min (length buf) (length c - p) in (A_read n (slice c p n @ drop n buf), (c, r, p + n)))"
| "file_spec (Op_write buf) x = (A_wrote (length buf), written_at buf x)"
| "file_spec (Op_seek pos) (c, r, p) = (A_pos (of_nat (seek_target pos c p)), (c, r, seek_target pos c p))"
| "file_spec (Op_truncate sz) (c, r, p) = (A_unit, (take (unat sz) c, drop (unat sz) c @ r, p))"

text \<open>
  The operations the specification speaks of, for a file of at most \<open>n\<close> blocks: a write ends within
  \<open>n\<close> blocks, wherever it starts; the sums of relative seeks are below \<open>2 ^ 63\<close>.
\<close>

fun op_ok :: "nat \<Rightarrow> file_op \<Rightarrow> open_file \<Rightarrow> bool" where
  "op_ok n (Op_read buf) (c, r, p) \<longleftrightarrow> True"
| "op_ok n (Op_write buf) (c, r, p) \<longleftrightarrow> buf = [] \<or> p + length buf \<le> n * BLOCK_SIZE"
| "op_ok n (Op_seek (SeekStart off)) (c, r, p) \<longleftrightarrow> True"
| "op_ok n (Op_seek (SeekEnd off)) (c, r, p) \<longleftrightarrow> int (length c) + sint off < 2 ^ 63"
| "op_ok n (Op_seek (SeekCurrent off)) (c, r, p) \<longleftrightarrow> p < 2 ^ 63 \<and> int p + sint off < 2 ^ 63"
| "op_ok n (Op_truncate sz) (c, r, p) \<longleftrightarrow> True"

text \<open>Inside the file and at its end, a write replaces the bytes at the position and leaves the others.\<close>

lemma written_inside:
  assumes "p \<le> length c" "buf \<noteq> []"
  shows "\<exists>r'. written_at buf (c, r, p) = (take p c @ buf @ drop (p + length buf) c, r', p + length buf)"
  using assms by (simp add: written_at_def Let_def)

text \<open>The gap left by a write past the end is zero where the slack is.\<close>

lemma written_past:
  assumes "length c < p" "buf \<noteq> []"
  shows "fst (written_at buf (c, replicate z 0, p)) = c @ replicate (p - length c) 0 @ buf"
proof -
  have "(p + length buf + 255) div BLOCK_SIZE * BLOCK_SIZE \<ge> p" unfolding BLOCK_SIZE_def by linarith
  then show ?thesis using assms by (simp add: written_at_def Let_def take_replicate replicate_add [symmetric] min_def)
qed

text \<open>Several open files, by the identifiers of their handles.\<close>

type_synonym files = "u32 \<rightharpoonup> open_file"

definition files_spec :: "u32 \<times> file_op \<Rightarrow> files \<Rightarrow> file_answer \<times> files" where
  "files_spec = (\<lambda>(k, x) F. case F k of
     None \<Rightarrow> (A_unit, F)
   | Some cp \<Rightarrow> (let (a, cp') = file_spec x cp in (a, F(k \<mapsto> cp'))))"

definition files_ok :: "(u32 \<Rightarrow> nat) \<Rightarrow> u32 \<times> file_op \<Rightarrow> files \<Rightarrow> bool" where
  "files_ok N = (\<lambda>(k, x) F. case F k of None \<Rightarrow> False | Some cp \<Rightarrow> op_ok (N k) x cp)"

text \<open>The same operations of the file system.\<close>

fun file_call :: "'d block_ops \<Rightarrow> u64 \<Rightarrow> u32 \<times> file_op \<Rightarrow> ('d, file_answer) fs" where
  "file_call ops now (k, Op_read buf) =
     bindM (fs_read ops \<lparr>fh_id = k\<rparr> buf) (\<lambda>(n, buf). returnM (A_read n buf))"
| "file_call ops now (k, Op_write buf) = bindM (fs_write ops now \<lparr>fh_id = k\<rparr> buf) (\<lambda>n. returnM (A_wrote n))"
| "file_call ops now (k, Op_seek pos) = bindM (seek ops \<lparr>fh_id = k\<rparr> pos) (\<lambda>off. returnM (A_pos off))"
| "file_call ops now (k, Op_truncate sz) = bindM (truncate ops now \<lparr>fh_id = k\<rparr> sz) (\<lambda>_. returnM A_unit)"


section \<open>The relation\<close>

definition file_view :: "inode_table_handler \<Rightarrow> bytes list \<Rightarrow> file_metadata \<Rightarrow> inode \<Rightarrow> open_file" where
  "file_view h bs m i = (content h bs i, drop (unat (in_size i)) (file_data h bs i), unat (fm_offset m))"

lemma file_view_frame: "file_data h bs' i = file_data h bs i \<Longrightarrow> file_view h bs' m i = file_view h bs m i"
  by (simp add: file_view_def content_def)

text \<open>
  \<open>files_at N f bs F M I\<close>: the handles in \<open>F\<close> are open, with metadata \<open>M\<close> and inodes \<open>I\<close>, on distinct inodes
  with disjoint blocks; contents, slack and positions are those of \<open>F\<close>; and there are spare blocks for
  every file \<open>k\<close> to have \<open>N k\<close> blocks.
\<close>

definition files_at ::
  "(u32 \<Rightarrow> nat) \<Rightarrow> format_v1 \<Rightarrow> bytes list \<Rightarrow> files \<Rightarrow> (u32 \<Rightarrow> file_metadata) \<Rightarrow> (u32 \<Rightarrow> inode) \<Rightarrow> bool" where
  "files_at N f bs F M I \<longleftrightarrow>
     finite (dom F) \<and>
     (\<forall>k \<in> dom F. file_state f bs k (M k) (I k) \<and>
        F k = Some (file_view (fv_inode_handler f) bs (M k) (I k)) \<and>
        unat (in_blocks (I k)) \<le> N k \<and> N k \<le> MAX_BLOCKS) \<and>
     (\<forall>k \<in> dom F. \<forall>k' \<in> dom F. k \<noteq> k' \<longrightarrow> fm_inode (M k) \<noteq> fm_inode (M k') \<and>
        owned (fv_inode_handler f) bs (I k) \<inter> owned (fv_inode_handler f) bs (I k') = {}) \<and>
     (\<Sum>k \<in> dom F. lacking (I k) (N k)) \<le> spare f bs"

lemma lacking_mono: "n \<le> n' \<Longrightarrow> lacking i n \<le> lacking i n'"
  unfolding lacking_def using metadata_blocks_mono [of n n'] by linarith

lemma files_at_file:
  assumes "files_at N f bs F M I" "F k = Some cp"
  shows "file_state f bs k (M k) (I k)" "cp = file_view (fv_inode_handler f) bs (M k) (I k)"
    "unat (in_blocks (I k)) \<le> N k" "N k \<le> MAX_BLOCKS" "lacking (I k) (N k) \<le> spare f bs"
proof -
  have k: "k \<in> dom F" using assms(2) by blast
  then show "file_state f bs k (M k) (I k)" "cp = file_view (fv_inode_handler f) bs (M k) (I k)"
    "unat (in_blocks (I k)) \<le> N k" "N k \<le> MAX_BLOCKS" using assms unfolding files_at_def by auto
  have "lacking (I k) (N k) \<le> (\<Sum>k \<in> dom F. lacking (I k) (N k))"
    using assms(1) k by (intro member_le_sum) (auto simp: files_at_def)
  then show "lacking (I k) (N k) \<le> spare f bs" using assms(1) unfolding files_at_def by linarith
qed

lemma files_at_update:
  assumes F: "files_at N f bs F M I" and k: "F k = Some cp"
    and st: "file_state f' bs' k m' i'" "fm_inode m' = fm_inode (M k)" "unat (in_blocks i') \<le> N k"
    and h: "fv_inode_handler f' = fv_inode_handler f"
    and sp: "spare f bs + lacking i' (N k) \<le> spare f' bs' + lacking (I k) (N k)"
    and others: "\<And>k'. k' \<in> dom F \<Longrightarrow> k' \<noteq> k \<Longrightarrow> file_state f' bs' k' (M k') (I k') \<and>
      file_data (fv_inode_handler f) bs' (I k') = file_data (fv_inode_handler f) bs (I k') \<and>
      owned (fv_inode_handler f) bs' (I k') = owned (fv_inode_handler f) bs (I k') \<and>
      owned (fv_inode_handler f) bs' i' \<inter> owned (fv_inode_handler f) bs' (I k') = {}"
  shows "files_at N f' bs' (F(k \<mapsto> file_view (fv_inode_handler f') bs' m' i')) (M(k := m')) (I(k := i'))"
proof -
  have kd: "k \<in> dom F" and dom: "insert k (dom F) = dom F" using k by auto
  have fin: "finite (dom F)" and N: "N k \<le> MAX_BLOCKS" using F kd by (auto simp: files_at_def)
  let ?s = "\<lambda>I. (\<Sum>x \<in> dom F. lacking (I x) (N x))"
  have "?s (I(k := i')) = lacking i' (N k) + (\<Sum>x \<in> dom F - {k}. lacking (I x) (N x))"
    using sum.remove [OF fin kd, of "\<lambda>x. lacking ((I(k := i')) x) (N x)"]
      sum.cong [of "dom F - {k}" "dom F - {k}" "\<lambda>x. lacking ((I(k := i')) x) (N x)" "\<lambda>x. lacking (I x) (N x)"] by simp
  moreover have "?s I = lacking (I k) (N k) + (\<Sum>x \<in> dom F - {k}. lacking (I x) (N x))" by (rule sum.remove [OF fin kd])
  moreover have "?s I \<le> spare f bs" using F by (simp add: files_at_def)
  ultimately have sum: "?s (I(k := i')) \<le> spare f' bs'" using sp by linarith
  have "file_state f' bs' x ((M(k := m')) x) ((I(k := i')) x) \<and>
      (F(k \<mapsto> file_view (fv_inode_handler f') bs' m' i')) x =
        Some (file_view (fv_inode_handler f') bs' ((M(k := m')) x) ((I(k := i')) x)) \<and>
      unat (in_blocks ((I(k := i')) x)) \<le> N x \<and> N x \<le> MAX_BLOCKS" if "x \<in> dom F" for x
  proof (cases "x = k")
    case False
    have "file_state f bs x (M x) (I x) \<and> F x = Some (file_view (fv_inode_handler f) bs (M x) (I x)) \<and>
      unat (in_blocks (I x)) \<le> N x \<and> N x \<le> MAX_BLOCKS" using that F unfolding files_at_def by blast
    with others [OF that False] False show ?thesis by (simp add: h file_view_frame [of _ bs' _ bs])
  qed (use st N in simp)
  moreover have "fm_inode ((M(k := m')) x) \<noteq> fm_inode ((M(k := m')) y) \<and>
      owned (fv_inode_handler f') bs' ((I(k := i')) x) \<inter> owned (fv_inode_handler f') bs' ((I(k := i')) y) = {}"
    if "x \<in> dom F" "y \<in> dom F" "x \<noteq> y" for x y
    using that F st(2) others [of x] others [of y] kd unfolding files_at_def h
    by (cases "x = k"; cases "y = k") (simp_all add: Int_commute)
  ultimately show ?thesis using sum fin unfolding files_at_def dom_fun_upd by (simp add: dom)
qed


section \<open>The operations follow the specification\<close>

lemma file_state_offset:
  "file_state f bs k m i \<Longrightarrow> file_state (with_offset f k m off) bs k (m\<lparr>fm_offset := off\<rparr>) i"
  by (simp add: file_state_def opened_def file_ok_def mounted_def marked_def)

lemma files_at_offset:
  assumes F: "files_at N f bs F M I" and k: "F k = Some (c, r, p)"
  shows "files_at N (with_offset f k (M k) off) bs (F(k \<mapsto> (c, r, unat off))) (M(k := (M k)\<lparr>fm_offset := off\<rparr>)) I"
proof -
  let ?f = "with_offset f k (M k) off"
  note X = files_at_file [OF F k]
  have others: "file_state ?f bs k' (M k') (I k') \<and> file_data (fv_inode_handler f) bs (I k') = file_data (fv_inode_handler f) bs (I k') \<and>
      owned (fv_inode_handler f) bs (I k') = owned (fv_inode_handler f) bs (I k') \<and>
      owned (fv_inode_handler f) bs (I k) \<inter> owned (fv_inode_handler f) bs (I k') = {}" if "k' \<in> dom F" "k' \<noteq> k" for k'
  proof -
    have st: "file_state f bs k' (M k') (I k')" and dis: "owned (fv_inode_handler f) bs (I k) \<inter> owned (fv_inode_handler f) bs (I k') = {}"
      using F k that unfolding files_at_def by blast+
    have "fv_open_files ?f k' = fv_open_files f k'" using that(2) by (simp add: with_offset_def)
    with st have "file_state ?f bs k' (M k') (I k')"
      by (simp add: file_state_def opened_def file_ok_def mounted_def marked_def)
    with dis show ?thesis by blast
  qed
  have "spare ?f bs = spare f bs" by (simp add: spare_def)
  then have "files_at N ?f bs (F(k \<mapsto> file_view (fv_inode_handler ?f) bs ((M k)\<lparr>fm_offset := off\<rparr>) (I k)))
      (M(k := (M k)\<lparr>fm_offset := off\<rparr>)) (I(k := I k))"
    using X(3) others by (intro files_at_update [OF F k file_state_offset [OF X(1)]]) simp_all
  then show ?thesis using X(2) by (simp add: file_view_def)
qed

lemma read_follows:
  fixes buf :: bytes
  assumes dev: "block_device ops blks dinv" and d: "dinv d" and F: "files_at N f (blks d) F M I" and k: "F k = Some (c, r, p)"
  defines "n \<equiv> min (length buf) (length c - p)"
  shows "\<exists>f' d' M'. fs_read ops \<lparr>fh_id = k\<rparr> buf (f, d) = (Ok (n, slice c p n @ drop n buf), f', d') \<and> dinv d' \<and>
    files_at N f' (blks d') (F(k \<mapsto> (c, r, p + n))) M' I"
proof -
  note X = files_at_file [OF F k]
  have cp: "c = content (fv_inode_handler f) (blks d) (I k)" "p = unat (fm_offset (M k))" using X(2) by (simp_all add: file_view_def)
  have op: "opened f (blks d) (fh_id \<lparr>fh_id = k\<rparr>) (M k) (I k)" using X(1) by (simp add: file_state_def)
  show ?thesis
  proof (cases "buf = []")
    case True
    have "fs_read ops \<lparr>fh_id = k\<rparr> [] (f, d) = (Ok (0, []), f, d)"
      using op by (simp add: fs_read_def opened_def self_def io_simps)
    moreover have "F(k \<mapsto> (c, r, p)) = F" using k by auto
    ultimately show ?thesis using True F d by (auto simp: n_def slice_def)
  next
    case False
    let ?off = "fm_offset (M k) + of_nat n"
    from read_runs [OF dev d op False, folded cp, folded n_def] obtain d' where
      run: "fs_read ops \<lparr>fh_id = k\<rparr> buf (f, d) = (Ok (n, slice c p n @ drop n buf), with_offset f k (M k) ?off, d')"
      "blks d' = blks d" "dinv d'" by auto
    have "length c \<le> unat (in_size (I k))" by (simp add: cp content_def)
    moreover have "p + n \<le> max p (length c)" unfolding n_def by linarith
    ultimately have lt: "p + n < 18446744073709551616"
      using unat_u64_bound [of "in_size (I k)"] unat_u64_bound [of "fm_offset (M k)", folded cp(2)] by linarith
    then have "unat (of_nat n :: u64) = n" by (intro unat_u64_of_nat) simp
    then have "unat ?off = p + n" using lt unat_add_small [of "fm_offset (M k)" "of_nat n"] by (simp add: cp(2))
    then show ?thesis using run files_at_offset [OF F k, of ?off] by auto
  qed
qed

text \<open>What \<open>written\<close> says of the view of the file.\<close>

lemma splice_cut:
  assumes "s \<le> length d" "p + length buf \<le> length (d @ zs)"
  shows "take (max s (p + length buf)) (splice (d @ zs) p buf) = take p (d @ zs) @ buf @ drop (p + length buf) (take s d)"
    "drop (max s (p + length buf)) (splice (d @ zs) p buf) = drop (max s (p + length buf)) (d @ zs)"
proof -
  define e where "e = d @ zs"
  have p: "length (take p e) = p" and q: "p + length buf \<le> length e" using assms(2) by (simp_all add: e_def)
  have "take (max s (p + length buf)) (splice e p buf) = take p e @ buf @ take (s - (p + length buf)) (drop (p + length buf) e)"
    unfolding splice_def take_append p using p by (auto simp: max_def)
  moreover have "take (s - (p + length buf)) (drop (p + length buf) e) = drop (p + length buf) (take s d)"
    using assms(1) by (simp add: drop_take e_def)
  ultimately show "take (max s (p + length buf)) (splice (d @ zs) p buf) = take p (d @ zs) @ buf @ drop (p + length buf) (take s d)"
    by (simp add: e_def)
  have "drop (max s (p + length buf)) (splice e p buf) = drop (max s (p + length buf)) e"
    unfolding splice_def drop_append p using p q by (auto simp: max_def)
  then show "drop (max s (p + length buf)) (splice (d @ zs) p buf) = drop (max s (p + length buf)) (d @ zs)" by (simp only: e_def)
qed

lemma splice_view:
  assumes "length d = n * BLOCK_SIZE" "s \<le> length d" "m = max n ((p + length buf + 255) div BLOCK_SIZE)"
    and "length (splice (d @ replicate z 0) p buf) = m * BLOCK_SIZE" "buf \<noteq> []"
  shows "(take (max s (p + length buf)) (splice (d @ replicate z 0) p buf), drop (max s (p + length buf)) (splice (d @ replicate z 0) p buf),
    p + length buf) = written_at buf (take s d, drop s d, p)"
proof -
  let ?q = "p + length buf" and ?z = "(p + length buf + 255) div BLOCK_SIZE * BLOCK_SIZE - length d"
  have up: "?q \<le> (?q + 255) div BLOCK_SIZE * BLOCK_SIZE" unfolding BLOCK_SIZE_def by linarith
  have m: "m * BLOCK_SIZE = max (length d) ((?q + 255) div BLOCK_SIZE * BLOCK_SIZE)"
    unfolding assms(3,1) by (simp add: max_def)
  have "splice (d @ replicate z 0) p buf = splice (d @ replicate ?z 0) p buf"
  proof (cases "?q \<le> length d + z")
    case True
    then have "length d + z = m * BLOCK_SIZE" using assms(4) by (simp add: splice_def)
    then have "z = ?z" unfolding m by (simp add: max_def split: if_splits)
    then show ?thesis by simp
  next
    case False
    then have "p \<le> length d + z" "?q = m * BLOCK_SIZE"
      using assms(4) up m by (auto simp: splice_def min_def split: if_splits)
    then show ?thesis using False up m by (simp add: splice_def max_def split: if_splits)
  qed
  moreover have "?q \<le> length (d @ replicate ?z 0)" using up by simp
  moreover have "written_at buf (take s d, drop s d, p) = (take p (d @ replicate ?z 0) @ buf @ drop ?q (take s d), drop (max s ?q) (d @ replicate ?z 0), ?q)"
    using assms(2,5) by (simp only: written_at_def prod.case Let_def append_assoc [symmetric] append_take_drop_id if_False length_take min_absorb2)
  ultimately show ?thesis using assms(2) by (simp only: splice_cut)
qed

lemma written_view:
  assumes st: "file_state f bs k m i" and wf: "wf_blocks bs" "wf_blocks bs'" and w: "written f bs m i f' bs' i' k buf" and buf: "buf \<noteq> []"
    and off: "unat (fm_offset m + of_nat (length buf)) = unat (fm_offset m) + length buf"
  defines "m' \<equiv> m\<lparr>fm_offset := fm_offset m + of_nat (length buf)\<rparr>"
  shows "file_view (fv_inode_handler f') bs' m' i' = written_at buf (file_view (fv_inode_handler f) bs m i)"
    "file_state f' bs' k m' i'" "fv_inode_handler f' = fv_inode_handler f"
proof -
  define h where "h = fv_inode_handler f"
  let ?p = "unat (fm_offset m)" and ?q = "unat (fm_offset m) + length buf"
  note W = w [unfolded written_def Let_def, folded h_def m'_def]
  show h': "fv_inode_handler f' = fv_inode_handler f" using W by (simp add: h_def)
  show st': "file_state f' bs' k m' i'" using W by (simp add: file_state_def h_def)
  have len: "length (file_data h bs i) = unat (in_blocks i) * BLOCK_SIZE" "length (file_data h bs' i') = unat (in_blocks i') * BLOCK_SIZE"
    using file_blocks_wf(2) [OF wf(1), of h i] file_blocks_wf(2) [OF wf(2), of h i'] st st' h'
    by (auto simp: file_state_def opened_def file_ok_def h_def)
  have sz: "unat (in_size i') = max (unat (in_size i)) ?q" and blk: "unat (in_blocks i) \<le> unat (in_blocks i')"
    "unat (in_blocks i') \<le> max (unat (in_blocks i)) ((?q + 255) div BLOCK_SIZE)" using W by (auto simp: word_le_nat_alt)
  have "?q \<le> unat (in_blocks i') * BLOCK_SIZE" using st' sz by (simp add: file_state_def opened_def file_ok_def)
  then have "(?q + 255) div BLOCK_SIZE \<le> unat (in_blocks i')" unfolding BLOCK_SIZE_def by linarith
  with blk have n: "unat (in_blocks i') = max (unat (in_blocks i)) ((?q + 255) div BLOCK_SIZE)" by linarith
  from W obtain z where z: "file_data h bs' i' = splice (file_data h bs i @ replicate z 0) ?p buf" by blast
  from splice_view [OF len(1) _ n len(2) [unfolded z] buf] file_state_small [OF st wf(1)] off
  show "file_view (fv_inode_handler f') bs' m' i' = written_at buf (file_view (fv_inode_handler f) bs m i)"
    by (simp add: file_view_def content_def h' h_def [symmetric] z sz m'_def)
qed

lemma write_follows:
  assumes dev: "block_device ops blks dinv" and d: "dinv d" and F: "files_at N f (blks d) F M I" and k: "F k = Some (c, r, p)"
    and ok: "buf = [] \<or> p + length buf \<le> N k * BLOCK_SIZE"
  shows "\<exists>f' d' M' I'. fs_write ops now \<lparr>fh_id = k\<rparr> buf (f, d) = (Ok (length buf), f', d') \<and> dinv d' \<and>
    files_at N f' (blks d') (F(k \<mapsto> written_at buf (c, r, p))) M' I'"
proof -
  note X = files_at_file [OF F k]
  let ?m = "M k" and ?i = "I k" and ?h = "fv_inode_handler f"
  have p: "p = unat (fm_offset ?m)" using X(2) by (simp add: file_view_def)
  have st: "file_state f (blks d) (fh_id \<lparr>fh_id = k\<rparr>) ?m ?i" using X(1) by simp
  show ?thesis
  proof (cases "buf = []")
    case True
    have "fs_write ops now \<lparr>fh_id = k\<rparr> [] (f, d) = (Ok 0, f, d)"
      using st by (simp add: fs_write_def file_state_def opened_def self_def io_simps)
    moreover have "F(k \<mapsto> (c, r, p)) = F" using k by auto
    ultimately show ?thesis using True F d by (auto simp: written_at_def Let_def)
  next
    case False
    with ok have le: "p + length buf \<le> N k * BLOCK_SIZE" by auto
    let ?n = "(unat (fm_offset ?m) + length buf + 255) div BLOCK_SIZE"
    have n: "?n \<le> N k" using le by (simp add: p BLOCK_SIZE_def)
    have bound: "unat (fm_offset ?m) + length buf \<le> MAX_SIZE" using le X(4) by (simp add: p MAX_SIZE_def BLOCK_SIZE_def)
    have rm: "room f (blks d) ?i ?n" unfolding room_def using lacking_mono [OF n, of ?i] X(5) by linarith
    from write_runs [OF dev d st False bound rm, of now] obtain f' d' i' where
      run: "fs_write ops now \<lparr>fh_id = k\<rparr> buf (f, d) = (Ok (length buf), f', d')" "dinv d'"
      and w: "written f (blks d) ?m ?i f' (blks d') i' k buf" by auto
    have "unat (of_nat (length buf) :: u64) = length buf" "p + length buf < 2 ^ 64"
      using bound by (simp_all add: p MAX_SIZE_def BLOCK_SIZE_def unat_u64_of_nat)
    then have off: "unat (fm_offset ?m + of_nat (length buf)) = unat (fm_offset ?m) + length buf"
      using unat_add_small [of "fm_offset ?m" "of_nat (length buf)"] by (simp add: p)
    note C = written_view [OF X(1) block_device.blocks_wf [OF dev d] block_device.blocks_wf [OF dev run(2)] w False off]
    note W = w [unfolded written_def Let_def]
    have blk: "unat (in_blocks i') \<le> N k" "in_blocks ?i \<le> in_blocks i'" "spare f' (blks d') = spare f (blks d) - lacking ?i (unat (in_blocks i'))"
      using W n X(3) by auto
    have sp: "spare f (blks d) + lacking i' (N k) \<le> spare f' (blks d') + lacking ?i (N k)"
      using lacking_split [OF blk(2,1)] blk(3) X(5) by linarith
    have others: "file_state f' (blks d') k' (M k') (I k') \<and> file_data ?h (blks d') (I k') = file_data ?h (blks d) (I k') \<and>
        owned ?h (blks d') (I k') = owned ?h (blks d) (I k') \<and> owned ?h (blks d') i' \<inter> owned ?h (blks d') (I k') = {}"
      if "k' \<in> dom F" "k' \<noteq> k" for k'
    proof -
      have st': "file_state f (blks d) k' (M k') (I k')" "fm_inode (M k') \<noteq> fm_inode ?m"
        "owned ?h (blks d) ?i \<inter> owned ?h (blks d) (I k') = {}" using F k that unfolding files_at_def by blast+
      from written_other [OF st'(1) w that(2) st'(2,3)] show ?thesis by blast
    qed
    from files_at_update [OF F k C(2) _ blk(1) C(3) sp others] C(1) X(2) run show ?thesis by auto
  qed
qed

lemma take_drop_slack: "a \<le> b \<Longrightarrow> drop a xs = drop a (take b xs) @ drop b xs"
  by (metis append_take_drop_id drop_drop drop_take le_add_diff_inverse2)

lemma truncate_follows:
  assumes dev: "block_device ops blks dinv" and d: "dinv d" and F: "files_at N f (blks d) F M I" and k: "F k = Some (c, r, p)"
  shows "\<exists>d' I'. truncate ops now \<lparr>fh_id = k\<rparr> sz (f, d) = (Ok (), f, d') \<and> dinv d' \<and>
    files_at N f (blks d') (F(k \<mapsto> (take (unat sz) c, drop (unat sz) c @ r, p))) M I'"
proof -
  note X = files_at_file [OF F k]
  let ?m = "M k" and ?i = "I k" and ?h = "fv_inode_handler f"
  have cp: "c = content ?h (blks d) ?i" "r = drop (unat (in_size ?i)) (file_data ?h (blks d) ?i)" "p = unat (fm_offset ?m)"
    using X(2) by (simp_all add: file_view_def)
  have st: "file_state f (blks d) (fh_id \<lparr>fh_id = k\<rparr>) ?m ?i" using X(1) by simp
  show ?thesis
  proof (cases "sz < in_size ?i")
    case False
    have "take (unat sz) c = c" "drop (unat sz) c = []" using False by (simp_all add: cp content_def word_less_nat_alt)
    moreover have "F(k \<mapsto> (c, r, p)) = F" using k by auto
    ultimately show ?thesis using truncate_runs(1) [OF dev d st False, of now] F by (metis append_Nil)
  next
    case True
    let ?i' = "?i\<lparr>in_modified := now, in_size := sz\<rparr>"
    from truncate_runs(2) [OF dev d st True] obtain d' where run: "truncate ops now \<lparr>fh_id = k\<rparr> sz (f, d) = (Ok (), f, d')" "dinv d'"
      and bs': "stored f (blks d) (fm_inode ?m) ?i' False = blks d'" by metis
    note T = truncated_state [OF X(1) block_device.blocks_wf [OF dev d] True, where now = now, unfolded bs']
    have others: "file_state f (blks d') k' (M k') (I k') \<and> file_data ?h (blks d') (I k') = file_data ?h (blks d) (I k') \<and>
        owned ?h (blks d') (I k') = owned ?h (blks d) (I k') \<and> owned ?h (blks d') ?i' \<inter> owned ?h (blks d') (I k') = {}"
      if "k' \<in> dom F" "k' \<noteq> k" for k'
    proof -
      have st': "file_state f (blks d) k' (M k') (I k')" "fm_inode (M k') \<noteq> fm_inode ?m"
        "owned ?h (blks d) ?i \<inter> owned ?h (blks d) (I k') = {}" using F k that unfolding files_at_def by blast+
      have n: "unat (fm_inode (M k')) < inode_count ?h" and own: "\<And>a. a \<in> owned ?h (blks d) (I k') \<Longrightarrow> marked f (blks d) a"
        using st'(1) by (auto simp: file_state_def opened_def)
      have mt: "mounted f (blks d')" using T(1) by (simp add: file_state_def)
      have len: "length (blks d') = length (blks d)" unfolding bs' [symmetric] by simp
      have "blks d' ! a = blks d ! a" if "a \<in> owned ?h (blks d) (I k')" for a using T(6) marked_data [OF own [OF that]] by blast
      from file_state_frame [OF st'(1) mt len refl refl T(7) [OF st'(2) n] _ this] T(3,5) st'(3) show ?thesis by simp
    qed
    have "unat sz < unat (in_size ?i)" using True by (simp add: word_less_nat_alt)
    then have "file_view ?h (blks d') ?m ?i' = (take (unat sz) c, drop (unat sz) c @ r, p)"
      using T(2,8) take_drop_slack [of "unat sz" "unat (in_size ?i)" "file_data ?h (blks d) ?i"]
      by (simp add: file_view_def cp content_def)
    with files_at_update [OF F k T(1) refl _ refl _ others] X(3) T(4) run show ?thesis
      by (auto simp: lacking_def)
  qed
qed

lemma seek_follows:
  assumes dev: "block_device ops blks dinv" and d: "dinv d" and F: "files_at N f (blks d) F M I" and k: "F k = Some (c, r, p)"
    and ok: "op_ok n (Op_seek pos) (c, r, p)"
  shows "\<exists>f' d' M'. seek ops \<lparr>fh_id = k\<rparr> pos (f, d) = (Ok (of_nat (seek_target pos c p)), f', d') \<and> dinv d' \<and>
    files_at N f' (blks d') (F(k \<mapsto> (c, r, seek_target pos c p))) M' I"
proof -
  note X = files_at_file [OF F k]
  let ?m = "M k" and ?i = "I k"
  have cp: "c = content (fv_inode_handler f) (blks d) ?i" "p = unat (fm_offset ?m)" using X(2) by (simp_all add: file_view_def)
  have op: "opened f (blks d) k ?m ?i" using X(1) by (simp add: file_state_def)
  then have m: "fv_open_files f (fh_id \<lparr>fh_id = k\<rparr>) = Some ?m" by (simp add: opened_def)
  let ?t = "seek_target pos c p"
  have "\<exists>d'. seek ops \<lparr>fh_id = k\<rparr> pos (f, d) = (Ok (of_nat ?t), with_offset f k ?m (of_nat ?t), d') \<and> dinv d' \<and> blks d' = blks d \<and> ?t < 2 ^ 64"
  proof (cases pos)
    case (SeekStart off)
    then show ?thesis using seek_start [OF m, of ops off d] d by simp
  next
    case (SeekCurrent off)
    with ok have c: "unat (fm_offset ?m) < 2 ^ 63" "int (unat (fm_offset ?m)) + sint off < 2 ^ 63" by (simp_all add: cp(2))
    then have "nat (int (unat (fm_offset ?m)) + sint off) < 2 ^ 64" by simp
    with c d show ?thesis
      using seek_current [OF m, of ops off d] by (simp add: SeekCurrent add_i64_small of_int_max cp(2))
  next
    case (SeekEnd off)
    have lc: "length c = unat (in_size ?i)"
      using file_state_small [OF X(1) block_device.blocks_wf [OF dev d]] by (simp add: cp(1) content_def)
    have "unat (in_size ?i) \<le> unat (in_blocks ?i) * BLOCK_SIZE" using op by (simp add: opened_def file_ok_def)
    then have small: "unat (in_size ?i) < 2 ^ 63" using X(3,4) by (simp add: BLOCK_SIZE_def)
    have sum: "int (unat (in_size ?i)) + sint off < 2 ^ 63" using ok SeekEnd lc by simp
    have set: "fs_execs dinv blks (set_offset k v) f (blks d) (Ok ()) (with_offset f k ?m v) (blks d)" for v
      using set_offset_execs [of dinv blks k v f ?m "fm_offset ?m" "blks d"] m by (simp add: with_offset_same)
    have "fs_execs dinv blks (seek ops \<lparr>fh_id = k\<rparr> pos) f (blks d) (Ok (of_nat ?t)) (with_offset f k ?m (of_nat ?t)) (blks d)"
      unfolding seek_def
      by (rule fs_bind_self, simp only: m option.case SeekEnd seek_from.case bindM_assoc,
          rule fs_bind_dev [OF block_device.read_opened [OF dev op]])
        (use sum in \<open>simp add: add_i64_small [OF small] of_int_max lc execs_bind [OF set] execs_return\<close>)
    from fs_execsD [OF this d refl] sum show ?thesis using SeekEnd lc by auto
  qed
  then obtain d' where run: "seek ops \<lparr>fh_id = k\<rparr> pos (f, d) = (Ok (of_nat ?t), with_offset f k ?m (of_nat ?t), d')" "dinv d'"
    "blks d' = blks d" "?t < 2 ^ 64" by blast
  have "unat (of_nat ?t :: u64) = ?t" using run(4) by (intro unat_u64_of_nat) simp
  with run files_at_offset [OF F k, of "of_nat ?t"] show ?thesis by auto
qed

definition represents :: "('d \<Rightarrow> bool) \<Rightarrow> ('d \<Rightarrow> bytes list) \<Rightarrow> (u32 \<Rightarrow> nat) \<Rightarrow> format_v1 \<times> 'd \<Rightarrow> files \<Rightarrow> bool" where
  "represents dinv blks N = (\<lambda>(f, d) F. dinv d \<and> (\<exists>M I. files_at N f (blks d) F M I))"

lemma representsE:
  assumes "represents dinv blks N s F"
  obtains f d M I where "s = (f, d)" "dinv d" "files_at N f (blks d) F M I"
  using assms by (cases s) (auto simp: represents_def)

lemma representsI: "dinv d \<Longrightarrow> files_at N f (blks d) F M I \<Longrightarrow> represents dinv blks N (f, d) F"
  by (auto simp: represents_def)

lemma handle_eq [simp]: "\<lparr>fh_id = fh_id h\<rparr> = (h :: file_handle)"
  by (cases h) simp

lemma represents_read:
  fixes buf :: bytes
  assumes dev: "block_device ops blks dinv" and s: "represents dinv blks N s F" and k: "F (fh_id file) = Some (c, r, p)"
  defines "n \<equiv> min (length buf) (length c - p)"
  shows "\<exists>s'. fs_read ops file buf s = (Ok (n, slice c p n @ drop n buf), s') \<and> represents dinv blks N s' (F(fh_id file \<mapsto> (c, r, p + n)))"
proof -
  from s obtain f d M I where x: "s = (f, d)" "dinv d" "files_at N f (blks d) F M I" by (rule representsE)
  from read_follows [OF dev x(2,3) k, of buf] show ?thesis unfolding x(1) n_def by (auto intro: representsI)
qed

lemma represents_write:
  assumes dev: "block_device ops blks dinv" and s: "represents dinv blks N s F" and k: "F (fh_id file) = Some (c, r, p)"
    and ok: "buf = [] \<or> p + length buf \<le> N (fh_id file) * BLOCK_SIZE"
  shows "\<exists>s'. fs_write ops now file buf s = (Ok (length buf), s') \<and>
    represents dinv blks N s' (F(fh_id file \<mapsto> written_at buf (c, r, p)))"
proof -
  from s obtain f d M I where x: "s = (f, d)" "dinv d" "files_at N f (blks d) F M I" by (rule representsE)
  from write_follows [OF dev x(2,3) k ok, of now] show ?thesis unfolding x(1) by (auto intro: representsI)
qed

lemma represents_seek:
  assumes dev: "block_device ops blks dinv" and s: "represents dinv blks N s F" and k: "F (fh_id file) = Some (c, r, p)"
    and ok: "op_ok n (Op_seek pos) (c, r, p)"
  shows "\<exists>s'. seek ops file pos s = (Ok (of_nat (seek_target pos c p)), s') \<and>
    represents dinv blks N s' (F(fh_id file \<mapsto> (c, r, seek_target pos c p)))"
proof -
  from s obtain f d M I where x: "s = (f, d)" "dinv d" "files_at N f (blks d) F M I" by (rule representsE)
  from seek_follows [OF dev x(2,3) k ok] show ?thesis unfolding x(1) by (auto intro: representsI)
qed

lemma represents_truncate:
  assumes dev: "block_device ops blks dinv" and s: "represents dinv blks N s F" and k: "F (fh_id file) = Some (c, r, p)"
  shows "\<exists>s'. truncate ops now file sz s = (Ok (), s') \<and> represents dinv blks N s' (F(fh_id file \<mapsto> (take (unat sz) c, drop (unat sz) c @ r, p)))"
proof -
  from s obtain f d M I where x: "s = (f, d)" "dinv d" "files_at N f (blks d) F M I" by (rule representsE)
  from truncate_follows [OF dev x(2,3) k, of now sz] show ?thesis unfolding x(1) by (auto intro: representsI)
qed

lemma file_call_follows:
  assumes dev: "block_device ops blks dinv" and s: "represents dinv blks N s F" and ok: "files_ok N x F"
  shows "\<exists>s'. file_call ops now x s = (Ok (fst (files_spec x F)), s') \<and> represents dinv blks N s' (snd (files_spec x F))"
proof -
  obtain k y where x: "x = (k, y)" by (cases x)
  obtain c r p where k: "F (fh_id \<lparr>fh_id = k\<rparr>) = Some (c, r, p)" and oky: "op_ok (N k) y (c, r, p)"
    using ok by (auto simp: files_ok_def x split: option.splits)
  note call = x files_spec_def bindM_Ok returnM_def Let_def
  show ?thesis
  proof (cases y)
    case (Op_read buf)
    then show ?thesis using represents_read [OF dev s k, of buf] k by (auto simp: call)
  next
    case (Op_write buf)
    then show ?thesis using represents_write [OF dev s k, of buf now] k oky by (auto simp: call)
  next
    case (Op_seek pos)
    then show ?thesis using represents_seek [OF dev s k oky [unfolded Op_seek]] k by (auto simp: call)
  next
    case (Op_truncate sz)
    then show ?thesis using represents_truncate [OF dev s k, of now sz] k by (auto simp: call)
  qed
qed

text \<open>Every conforming device gives an implementation of the specification.\<close>

sublocale block_device < open_files: simulation "file_call ops now" files_spec "files_ok N" "represents inv blks N" for now N
  by unfold_locales (rule file_call_follows [OF block_device_axioms])

context block_device
begin

lemmas files_script = open_files.script_simulates

end

interpretation mem_files: simulation "file_call mem_ops now" files_spec "files_ok N" "represents mem_inv md_blocks N" for now N
  by unfold_locales (rule file_call_follows [OF mem.block_device_axioms])

text \<open>The two files of the example volume.\<close>

abbreviation demo_view :: files where
  "demo_view \<equiv> [7 \<mapsto> ([1, 2, 3], replicate 253 0, 1), 8 \<mapsto> ([9, 9], replicate 254 0, 0)]"

lemma spec_step: "F k = Some x \<Longrightarrow> files_spec (k, y) F = (fst (file_spec y x), F(k \<mapsto> snd (file_spec y x)))"
  by (simp add: files_spec_def split_beta Let_def)

lemma demo_files: "represents mem_inv md_blocks (\<lambda>k. if k = 7 then 2 else 1) (demo_format, demo_device) demo_view"
proof -
  let ?M = "\<lambda>k :: u32. if k = 7 then \<lparr>fm_inode = 0, fm_offset = 1, fm_mode = OM_ReadWrite\<rparr> else \<lparr>fm_inode = 1, fm_offset = 0, fm_mode = OM_ReadWrite\<rparr>"
  let ?I = "\<lambda>k :: u32. if k = 7 then demo_inode 0 3 else demo_inode 1 2"
  have h: "fv_inode_handler demo_format = demo_handler" by (simp add: demo_format_def)
  have b: "in_blocks (demo_inode b n) = 1" "in_size (demo_inode b n) = n" for b n by (simp_all add: demo_inode_def)
  have "data_addr demo_handler 0 = 4" "data_addr demo_handler 1 = 5"
    by (simp_all add: data_addr_def demo_handler_def inode_table_handler_new_def)
  then have data: "file_data demo_handler demo_blocks (demo_inode 0 3) = [1, 2, 3] @ replicate 253 0"
    "file_data demo_handler demo_blocks (demo_inode 1 2) = [9, 9] @ replicate 254 0"
    by (simp_all add: file_data_def demo_file demo_nth demo_start_def)
  have "spare demo_format demo_blocks \<ge> 1" using demo_ahead by (simp add: spare_def demo_format_def demo_superblock_def)
  then have "files_at (\<lambda>k. if k = 7 then 2 else 1) demo_format demo_blocks demo_view ?M ?I"
    using demo_state by (simp add: files_at_def h demo_content demo_file b lacking_def metadata_blocks_def file_view_def data)
  then show ?thesis using demo_inv by (auto simp: represents_def)
qed

text \<open>
  C9. Any number of open files behave as independent byte sequences, on any device that satisfies the
  block-device contract: a script of reads, writes, seeks and truncations through their handles, in any
  order and at any position, returns what the specification \<open>file_spec\<close> returns, and leaves the files with its
  contents, slack and positions; as long as relative seeks stay below \<open>2 ^ 63\<close> and there are spare blocks
  for the sizes the files reach. In the specification truncating keeps the bytes cut off in the slack,
  and a write past the end of the file makes the slack before it part of the contents. The script of the
  witness writes \<open>300\<close> bytes, truncates the file to \<open>2\<close>, and writes one byte at \<open>8\<close>: reading shows the
  truncated bytes again, where the format description promises zeros.
\<close>

theorem open_files_refine:
  assumes "block_device ops blks dinv" and "represents dinv blks N s F" and "script_ok files_spec (files_ok N) xs F"
  shows "\<exists>s'. script (file_call ops now) xs s = (Ok (fst (spec_script files_spec xs F)), s') \<and>
    represents dinv blks N s' (snd (spec_script files_spec xs F))"
  by (rule block_device.files_script [OF assms])

theorem open_files_refine_witness:
  "\<exists>s'. script (file_call mem_ops 5)
     [(7, Op_write (replicate 300 6)), (8, Op_read [0, 0]), (7, Op_seek (SeekEnd (- 1))), (7, Op_read [0]), (7, Op_truncate 2),
      (7, Op_seek (SeekStart 8)), (7, Op_write [5]), (7, Op_seek (SeekStart 0)), (7, Op_read (replicate 10 0))] (demo_format, demo_device) =
     (Ok [A_wrote 300, A_read 2 [9, 9], A_pos 300, A_read 1 [6], A_unit, A_pos 8, A_wrote 1, A_pos 0,
          A_read 9 [1, 6, 6, 6, 6, 6, 6, 6, 5, 0]], s') \<and>
   represents mem_inv md_blocks (\<lambda>k. if k = 7 then 2 else 1) s'
     [7 \<mapsto> ([1, 6, 6, 6, 6, 6, 6, 6, 5], replicate 292 6 @ replicate 211 0, 9), 8 \<mapsto> ([9, 9], replicate 254 0, 2)]"
proof -
  let ?N = "\<lambda>k :: u32. if k = 7 then 2 else 1 :: nat"
  let ?xs = "[(7, Op_write (replicate 300 6)), (8, Op_read [0, 0]), (7, Op_seek (SeekEnd (- 1))), (7, Op_read [0]), (7, Op_truncate 2),
    (7, Op_seek (SeekStart 8)), (7, Op_write [5]), (7, Op_seek (SeekStart 0)), (7, Op_read (replicate 10 0))] :: (u32 \<times> file_op) list"
  let ?t = "replicate 299 6 @ replicate 211 0 :: bytes" and ?c = "[1, 6, 6, 6, 6, 6, 6, 6, 5] :: bytes"
  have w1: "written_at (replicate 300 6) ([1, 2, 3], replicate 253 0, Suc 0) = (1 # replicate 300 6, replicate 211 0, 301)"
    by (simp add: written_at_def Let_def BLOCK_SIZE_def)
  have six: "replicate 6 6 = [6, 6, 6, 6, 6, 6 :: u8]" by (simp add: numeral_eq_Suc)
  have w2: "written_at [5] ([1, 6], ?t, 8) = (?c, replicate 292 6 @ replicate 211 0, 9)"
    by (simp add: written_at_def Let_def BLOCK_SIZE_def six)
  have nine: "Suc (Suc (Suc (Suc (Suc (Suc (Suc (Suc (Suc 0)))))))) = 9" by simp
  have tr: "take 2 (1 # replicate 300 6) = [1, 6 :: u8]" "drop 2 (1 # replicate 300 6) @ replicate 211 0 = ?t" by simp_all
  have spec: "spec_script files_spec ?xs demo_view =
     ([A_wrote 300, A_read 2 [9, 9], A_pos 300, A_read 1 [6], A_unit, A_pos 8, A_wrote 1, A_pos 0, A_read 9 (?c @ [0])],
      [7 \<mapsto> (?c, replicate 292 6 @ replicate 211 0, 9), 8 \<mapsto> ([9, 9], replicate 254 0, 2)])"
    by (simp add: spec_step w1 w2 tr fun_upd_twist) (simp add: slice_def numeral_2_eq_2 [symmetric] nine)
  have ok: "script_ok files_spec (files_ok ?N) ?xs demo_view"
    by (simp add: files_spec_def files_ok_def w1 w2 tr BLOCK_SIZE_def)
  from open_files_refine [OF mem.block_device_axioms demo_files ok, of 5] show ?thesis unfolding spec by simp
qed

end
