(* ===== verification/Example.thy ===== *)
theory Example
  imports Creation File_Refinement Full_Cache
begin

text \<open>
  The file input and output of the example program \<^verbatim>\<open>src/examples/basic.rs\<close>, and files that are opened
  right after they were created. \<open>file_io\<close> is generic over the device, as it is in the source.
\<close>


section \<open>Opening a new file\<close>

lemma created_spare:
  assumes add: "child_added f bs p pi ess now n i e f' bs'" and i: "in_blocks i = 0"
  shows "spare f' bs' = spare f bs"
  using created_ahead [OF add i] add i by (simp add: spare_def child_added_def)

lemma open_empty:
  assumes dev: "block_device ops blks dinv" and d: "dinv d" and mt: "mounted f (blks d)" and live: "live_inode f (blks d) n i"
    and i: "in_file_type i = File" "inode_wf i" "in_blocks i = 0" "in_size i = 0"
    and id: "unat (fv_next_file_id f) + 1 < 4294967296" and N: "N \<le> MAX_BLOCKS" "N + metadata_blocks N \<le> spare f (blks d)"
  shows "\<exists>s. open_file_from_inode ops n (f, d) = (Ok \<lparr>fh_id = fv_next_file_id f\<rparr>, s) \<and>
    represents dinv blks (\<lambda>_. N) s [fv_next_file_id f \<mapsto> ([], [], 0)]"
proof -
  let ?k = "fv_next_file_id f" let ?m = "file_metadata_new n OM_ReadWrite"
  define f' where "f' = f\<lparr>fv_next_file_id := ?k + 1, fv_open_files := (fv_open_files f)(?k \<mapsto> ?m)\<rparr>"
  have nxt: "addW ?k 1 = Ok (?k + 1)" using id by (simp add: addW_def)
  have run: "fs_execs dinv blks (open_file_from_inode ops n) f (blks d) (Ok \<lparr>fh_id = ?k\<rparr>) f' (blks d)"
    unfolding open_file_from_inode_def new_handle_def
    by (rule execs_bind [OF block_device.get_inode_execs [OF dev mt live]], simp only: i(1) simp_thms if_False, rule fs_bind_self,
        simp only: Let_def nxt bindM_liftM_Ok, rule fs_bind_update)
      (unfold f'_def, rule execs_return)
  have blk: "inode_blocks h bs i = []" "meta_blocks h bs i = []" "owned h bs i = {}" for h bs
    using i(3) by (simp_all add: inode_blocks_def meta_blocks_def owned_def)
  have f'_simps: "mounted f' = mounted f" "fv_inode_handler f' = fv_inode_handler f" "fv_open_files f' ?k = Some ?m" "spare f' = spare f"
    by (auto simp: f'_def fun_eq_iff mounted_def spare_def)
  have "file_ok f' (blks d) i"
    using i mounted_ok(6) [OF mt] by (simp add: file_ok_def meta_ok_def blk f'_def)
  then have "file_state f' (blks d) ?k ?m i"
    using mt live mounted_ok(3) [OF mt] blk by (simp add: file_state_def opened_def f'_simps file_sep_def live_inode_def file_metadata_new_def)
  then have "files_at (\<lambda>_. N) f' (blks d) [?k \<mapsto> ([], [], 0)] (\<lambda>_. ?m) (\<lambda>_. i)"
    using N i(3,4) blk(1) by (simp add: files_at_def file_view_def content_def file_data_def f'_simps lacking_def file_metadata_new_def)
  with fs_execsD [OF run d refl] show ?thesis by (fastforce simp: represents_def)
qed


section \<open>The example program\<close>

text \<open>
  \<open>file_io\<close>, through the methods of the front end; the two writes may read different clocks. The result
  is what the program prints.
\<close>

definition newline :: u8 where "newline = 10"

definition banana :: bytes where "banana = [98, 97, 110, 97, 110, 97]"

definition nanaba :: bytes where "nanaba = [110, 97, 110, 97, 98, 97]"

definition nabana :: bytes where "nabana = [110, 97, 98, 97, 110, 97]"

definition file_io :: "('f, 'd) fs_format \<Rightarrow> ('f, 'd) fs_format \<Rightarrow> file_handle \<Rightarrow> ('f \<times> 'd, bytes) io" where
  "file_io ffs ffs' file =
     (let text = banana; buf = replicate 6 0 in
      bindM (ff_write ffs file text) (\<lambda>_.
      bindM (ff_write ffs' file text) (\<lambda>_.
      bindM (ff_seek ffs file (SeekCurrent (- 6))) (\<lambda>_.
      bindM (ff_read ffs file buf) (\<lambda>(_, buf).
      let out = buf @ [newline] in
      bindM (ff_seek ffs file (SeekStart 2)) (\<lambda>_.
      bindM (ff_read ffs file buf) (\<lambda>(_, buf).
      let out = out @ buf @ [newline] in
      bindM (ff_seek ffs file (SeekEnd (- 8))) (\<lambda>_.
      bindM (ff_read ffs file buf) (\<lambda>(_, buf).
      returnM (out @ buf @ [newline]))))))))))"

text \<open>
  C20. \<open>file_io\<close> of the example prints what its comments say, on every device that satisfies the
  block-device contract: for an open file that is empty and has a spare block, it prints \<open>banana\<close>,
  \<open>nanaba\<close> and \<open>nabana\<close>, and leaves \<open>bananabanana\<close> in the file. Memory and file devices satisfy the
  contract, and so does a cached device that can hold all the blocks of its inner device (\<open>full_cache_device\<close>), on which the
  witness formats a volume, creates and opens a file and runs \<open>file_io\<close>. The cache of fifty blocks over a
  hundred that \<open>main\<close> builds is smaller than its device and not covered.
\<close>

theorem file_io_prints:
  assumes dev: "block_device ops blks dinv" and s: "represents dinv blks N s F"
    and k: "F (fh_id file) = Some ([], r, 0)" and N: "1 \<le> N (fh_id file)"
  shows "\<exists>s' r'. file_io (format_v1_methods ops t u) (format_v1_methods ops t' u') file s =
      (Ok (banana @ [newline] @ nanaba @ [newline] @ nabana @ [newline]), s') \<and>
    represents dinv blks N s' (F(fh_id file \<mapsto> (banana @ banana, r', 10)))"
proof -
  let ?k = "fh_id file" and ?z = "replicate 6 0 :: bytes"
  have len: "length banana = 6" "length nanaba = 6" "banana \<noteq> []" by (simp_all add: banana_def nanaba_def)
  have cut: "slice (banana @ banana) 6 6 = banana" "slice (banana @ banana) 2 6 = nanaba"
    "slice (banana @ banana) 4 6 = nabana" by (simp_all add: banana_def nanaba_def nabana_def slice_def)
  have room: "256 \<le> N ?k * BLOCK_SIZE" using N by (simp add: BLOCK_SIZE_def)
  obtain s1 r1 where s1: "fs_write ops t file banana s = (Ok 6, s1)" "represents dinv blks N s1 (F(?k \<mapsto> (banana, r1, 6)))"
    using represents_write [OF dev s k, of banana t] room written_inside [of 0 "[]" banana r] by (auto simp: len)
  obtain s2 r' where s2: "fs_write ops t' file banana s1 = (Ok 6, s2)" "represents dinv blks N s2 (F(?k \<mapsto> (banana @ banana, r', 12)))"
    using represents_write [OF dev s1(2), of "file" banana r1 6 banana t'] room written_inside [of 6 banana banana r1] by (auto simp: len)
  obtain s3 where s3: "seek ops file (SeekCurrent (- 6)) s2 = (Ok 6, s3)" "represents dinv blks N s3 (F(?k \<mapsto> (banana @ banana, r', 6)))"
    using represents_seek [OF dev s2(2), of "file" "banana @ banana" r' 12 _ "SeekCurrent (- 6)"] by auto
  obtain s4 where s4: "fs_read ops file ?z s3 = (Ok (6, banana), s4)" "represents dinv blks N s4 (F(?k \<mapsto> (banana @ banana, r', 12)))"
    using represents_read [OF dev s3(2), of "file" "banana @ banana" r' 6 ?z] by (auto simp: len cut)
  obtain s5 where s5: "seek ops file (SeekStart 2) s4 = (Ok 2, s5)" "represents dinv blks N s5 (F(?k \<mapsto> (banana @ banana, r', 2)))"
    using represents_seek [OF dev s4(2), of "file" "banana @ banana" r' 12 _ "SeekStart 2"] by auto
  obtain s6 where s6: "fs_read ops file banana s5 = (Ok (6, nanaba), s6)" "represents dinv blks N s6 (F(?k \<mapsto> (banana @ banana, r', 8)))"
    using represents_read [OF dev s5(2), of "file" "banana @ banana" r' 2 banana] by (auto simp: len cut)
  obtain s7 where s7: "seek ops file (SeekEnd (- 8)) s6 = (Ok 4, s7)" "represents dinv blks N s7 (F(?k \<mapsto> (banana @ banana, r', 4)))"
    using represents_seek [OF dev s6(2), of "file" "banana @ banana" r' 8 _ "SeekEnd (- 8)"] by (auto simp: len)
  obtain s8 where s8: "fs_read ops file nanaba s7 = (Ok (6, nabana), s8)"
    "represents dinv blks N s8 (F(?k \<mapsto> (banana @ banana, r', 10)))"
    using represents_read [OF dev s7(2), of "file" "banana @ banana" r' 4 nanaba] by (auto simp: len cut)
  show ?thesis
    using s8(2) by (simp add: file_io_def format_v1_methods_def bindM_Ok s1(1) s2(1) s3(1) s4(1) s5(1) s6(1) s7(1) s8(1) returnM_def) blast
qed

lemma file_io_fresh:
  assumes dev: "block_device ops blks dinv" and e: "dinv e" "length (blks e) = 16"
  shows "\<exists>d0 d n i f1 d1 s2. format ops 9 e = (Ok (), d0) \<and> mount ops d0 = (Ok (fresh_format 16), d) \<and>
    create_child ops 7 File [97] 0 (fresh_format 16, d) = (Ok (i, n), f1, d1) \<and>
    open_file_from_inode ops n (f1, d1) = (Ok \<lparr>fh_id = 0\<rparr>, s2) \<and> represents dinv blks (\<lambda>_. 1) s2 [0 \<mapsto> ([], [], 0)]"
proof -
  let ?f = "fresh_format 16"
  obtain d0 d where d: "format ops 9 e = (Ok (), d0)" "mount ops d0 = (Ok ?f, d)"
    "dinv d" "formatted 9 (blks d)" "length (blks d) = 16" "mounted ?f (blks d)" by (rule fresh_device [OF dev e])
  have h: "length [97 :: u8] \<le> MAX_NAME" "entry_room [97] [dir_start 0 0]" by (simp_all add: MAX_NAME_def dir_start_room)
  from block_device.create_child_execs [OF dev fresh_parent [OF d(4,5)] _ _ h(1) dir_start_room(1) h(2), of File 7] block_device.blocks_wf [OF dev d(3)]
  obtain bs where run: "fs_execs dinv blks (create_child ops 7 File [97] 0) ?f (blks d)
      (Ok (child_inode ?f (blks d) 7 File, child_number ?f (blks d))) (child_format ?f (blks d) File) bs"
    and add: "child_added ?f (blks d) 0 (root_inode 9) [dir_start 0 0] 7 (child_number ?f (blks d))
      (child_inode ?f (blks d) 7 File) (new_entry (child_number ?f (blks d)) File [97]) (child_format ?f (blks d) File) bs"
    by auto
  let ?n = "child_number ?f (blks d)" and ?i = "child_inode ?f (blks d) 7 File" and ?f1 = "child_format ?f (blks d) File"
  from fs_execsD [OF run d(3) refl] obtain d1 where
    d1: "create_child ops 7 File [97] 0 (?f, d) = (Ok (?i, ?n), ?f1, d1)" "dinv d1" "blks d1 = bs" by blast
  have i: "in_file_type ?i = File" "inode_wf ?i" "in_blocks ?i = 0" "in_size ?i = 0"
    by (simp_all add: child_inode_def child_data_def nblocks_def first_free_def fresh_inode_def inode_empty_def inode_wf_def)
  from add have live: "live_inode ?f1 (blks d1) ?n ?i" "mounted ?f1 (blks d1)" "fv_next_file_id ?f1 = 0"
    by (auto simp: child_added_def d1(3) parent_ready_def fresh_format_def)
  have "1 \<le> spare ?f (blks d)" using fresh_parent(2) [OF d(4,5), of Directory] by (simp add: can_allocate_def nblocks_def spare_def)
  then have sp: "1 + metadata_blocks 1 \<le> spare ?f1 (blks d1)"
    using created_spare [OF add i(3)] by (simp add: d1(3) metadata_blocks_def)
  from open_empty [OF dev d1(2) live(2,1) i _ _ sp] live(3) d(1,2) d1(1) show ?thesis by auto
qed

theorem file_io_prints_witness:
  "\<exists>d0 d n i f1 d1 s2 s3. format (cached_ops mem_ops (\<lambda>m. [])) 9 (cached_new (mem_empty 16) 16) = (Ok (), d0) \<and>
    mount (cached_ops mem_ops (\<lambda>m. [])) d0 = (Ok (fresh_format 16), d) \<and>
    create_child (cached_ops mem_ops (\<lambda>m. [])) 7 File [97] 0 (fresh_format 16, d) = (Ok (i, n), f1, d1) \<and>
    open_file_from_inode (cached_ops mem_ops (\<lambda>m. [])) n (f1, d1) = (Ok \<lparr>fh_id = 0\<rparr>, s2) \<and>
    file_io (format_v1_methods (cached_ops mem_ops (\<lambda>m. [])) 8 8) (format_v1_methods (cached_ops mem_ops (\<lambda>m. [])) 9 9) \<lparr>fh_id = 0\<rparr> s2 =
      (Ok (banana @ [newline] @ nanaba @ [newline] @ nabana @ [newline]), s3)"
proof -
  let ?e = "cached_new (mem_empty 16) 16"
  have m: "mem_inv (mem_empty 16)" "length (md_blocks (mem_empty 16)) = 16" by (simp_all add: mem_empty_def mem_inv_def wf_blocks_def)
  have e: "full_inv mem_inv md_blocks ?e" by (rule full_inv_new) (simp_all add: m)
  have l: "length (cd_blocks md_blocks ?e) = 16" by (simp add: m cached_new_def)
  note dev = fullMem.block_device_axioms [of "\<lambda>m. []"]
  have k: "[0 \<mapsto> ([], [], 0)] (fh_id \<lparr>fh_id = 0\<rparr>) = Some ([] :: bytes, [] :: bytes, 0 :: nat)" by simp
  from file_io_fresh [OF dev e l] obtain d0 d n i f1 d1 s2 where x: "format (cached_ops mem_ops (\<lambda>m. [])) 9 ?e = (Ok (), d0)"
    "mount (cached_ops mem_ops (\<lambda>m. [])) d0 = (Ok (fresh_format 16), d)"
    "create_child (cached_ops mem_ops (\<lambda>m. [])) 7 File [97] 0 (fresh_format 16, d) = (Ok (i, n), f1, d1)"
    "open_file_from_inode (cached_ops mem_ops (\<lambda>m. [])) n (f1, d1) = (Ok \<lparr>fh_id = 0\<rparr>, s2)"
    "represents (full_inv mem_inv md_blocks) (cd_blocks md_blocks) (\<lambda>_. 1) s2 [0 \<mapsto> ([], [], 0)]" by blast
  from file_io_prints [OF dev x(5) k, of 8 8 9 9] obtain s3 where
    "file_io (format_v1_methods (cached_ops mem_ops (\<lambda>m. [])) 8 8) (format_v1_methods (cached_ops mem_ops (\<lambda>m. [])) 9 9) \<lparr>fh_id = 0\<rparr> s2 =
      (Ok (banana @ [newline] @ nanaba @ [newline] @ nabana @ [newline]), s3)" by blast
  with x(1-4) show ?thesis by blast
qed

end
