(* ===== verification/Spec2Isabelle.thy ===== *)
theory Spec2Isabelle
  imports Cache_Repetition Full_Cache File_Device Directory_Update File_Operations Format_Mount Integrity_Report
    Fuse_Operations Termination Hard_Links Example
begin

text \<open>
  A model of FerrisFileSystem, a user-space file system in Rust: block devices, an on-disk format with
  inodes, bitmaps and directories, a front end and a FUSE adapter. The model is written in the shape
  of the source, and the theorems say what its components do and where they fail.

  \<^bold>\<open>The program and its parts.\<close> A block device stores blocks of 256 bytes. \<open>FormatV1\<close> lays a volume out on it: the
  superblock, the bitmap of the inodes, the bitmap of the data blocks, the inode table, the data
  blocks. Inodes hold twelve direct block addresses, an indirect and a double-indirect one; directories
  are files of variable-length records. \<open>FFS\<close> dispatches the calls of an application to the format of
  the mounted device, \<open>FuseFFS\<close> those of the kernel, behind a mutex.

  \<^bold>\<open>Reading the model.\<close> A computation on a state is a function to a result and the new state (theory Outcome):
  \<open>Ok\<close>, \<open>Err\<close> with an \<open>FSError\<close>, \<open>Panic\<close>, or \<open>Diverge\<close> for a loop that does not end; \<open>bindM\<close> is the \<open>?\<close>
  operator. Integers are words of their width; the arithmetic of the source is \<open>addW\<close>, \<open>subW\<close>, \<open>mulW\<close>, which
  panic on overflow, as in a build with overflow checks. A method of the format with \<open>&mut self\<close> and a device is a
  computation on the pair of both (\<open>self\<close>, \<open>update\<close>, \<open>dev\<close> in Format_V1). A device is a record of
  operations, \<open>block_ops\<close>, the argument \<open>ops\<close> of everything above it. Every call of the
  system clock is an argument (\<open>now\<close>). Definitions carry the names of the source, with a prefix where
  HOL or another component has the name already.

  \<^bold>\<open>Theories and sources\<close> (paths below \<^verbatim>\<open>src/src/\<close>):
  \<^item> Prelude, Outcome: words, byte slices, results; lemmas and simplification sets shared by all others.
  \<^item> Fs_Error: \<^verbatim>\<open>fs_error.rs\<close>. File_Type: \<^verbatim>\<open>file.rs\<close>, \<^verbatim>\<open>formats/v1/file.rs\<close>, part of \<^verbatim>\<open>common.rs\<close>.
  \<^item> Block_Device: \<^verbatim>\<open>device/block_device.rs\<close>, \<^verbatim>\<open>fs_utils.rs\<close>. Memory_Device, File_Device, Cached_Device: the files of
    those names below \<^verbatim>\<open>device/\<close>. The order in which the hash map of the cache is iterated is an argument.
  \<^item> Superblock, INode, INode_Handler, Bitmap_Allocator, Directory, Directory_Handler: the files of those names below
    \<^verbatim>\<open>formats/v1/\<close>; Bitmap_Count holds the lemmas on \<open>count_allocated\<close>; Path: the components of \<open>std::path::Path\<close> that path
    resolution uses, and the check for UTF-8.
  \<^item> Format_V1: \<^verbatim>\<open>formats/v1/format.rs\<close> without the integrity check, which is Integrity, with
    \<^verbatim>\<open>formats/v1/integrity_checker_errors.rs\<close> and the rest of \<^verbatim>\<open>common.rs\<close>.
  \<^item> Ffs: \<^verbatim>\<open>ffs.rs\<close> and \<^verbatim>\<open>formats/format.rs\<close>. Fuse_V1: \<^verbatim>\<open>fuse/formats/fuse_format_v1.rs\<close> and \<^verbatim>\<open>fuse/fuse_utils.rs\<close>. Fuse_FFS:
    \<^verbatim>\<open>fuse/fuse_ffs.rs\<close>, \<^verbatim>\<open>fuse/fuse_format.rs\<close>, \<^verbatim>\<open>fuse/fuse_impl.rs\<close>. Example: \<open>file_io\<close> of \<^verbatim>\<open>src/examples/basic.rs\<close>.

  \<^bold>\<open>Interfaces.\<close> \<open>partial_device\<close>, \<open>block_device\<close>, \<open>resizable_device\<close> and \<open>checked_device\<close> (Block_Device) are the contracts of a
  device, each stronger than the one before: accesses that return do what a list of blocks does; accesses in range return; the
  device can be resized; accesses out of range are refused. The lemmas on everything above a device are proved inside \<open>block_device\<close>, once for all
  devices, as triples \<open>execs\<close> and \<open>fs_execs\<close> from contents to contents. Memory and file devices satisfy
  \<open>checked_device\<close>. A cached device satisfies \<open>partial_device\<close>, and \<open>block_device\<close> when its cache can hold all the
  blocks of the inner device (Full_Cache); a smaller one does not, because a repeated access corrupts its recency list, but it is
  transparent on the scripts without repetition. The cache that \<^verbatim>\<open>src/examples/basic.rs\<close> builds is of the smaller kind. \<open>terminating_device\<close> (Termination) is the
  contract that accesses return at all, which all three satisfy. \<open>simulation\<close> (File_Refinement) is the
  interface between operations and an abstract specification; every \<open>block_device\<close> gives an instance.

  \<^bold>\<open>What is shown.\<close>
  \<^item> Devices: file and memory devices are interchangeable, also in what they refuse; the cache is an LRU cache and never
    stale (Cached_Device); how a repeated access breaks its list and leads to a panic (Cache_Repetition).
  \<^item> Encodings, table and bitmaps: inodes written are read back; growing an inode appends to its block list in all three
    regions; the searches of the bitmaps, and the free indices that they miss (INode_Handler, Bitmap_Allocator, Bitmap_Count).
  \<^item> Directories: search, insertion, removal and whole directories, on the sequence of records; the insertion
    that destroys a block (Directory_Handler, Directory_Update).
  \<^item> Volumes: Volume states the well-formedness of a mounted volume and its areas; Format_Mount shows that \<open>format\<close> and
    \<open>mount\<close> give one. File_Contents, File_Write and File_Operations give the effect of \<open>read\<close>, \<open>write\<close>, \<open>seek\<close>
    and \<open>truncate\<close> on the bytes of a file, growth included; File_Refinement shows that any number of open files
    behave as independent byte sequences under any script of these operations, and what a write past the
    end finds there; Example runs \<open>file_io\<close> of the example program on it. Allocation, Creation and Deletion give the effect of \<open>create_child\<close> and
    \<open>delete_child\<close> on the whole volume, and that they undo each other.
  \<^item> Paths: Namespace abstracts a volume to its tree of names and shows that path resolution, with symbolic links and
    all its errors, is the walk \<open>follow\<close> on that tree. Path_Operations shows that \<open>create\<close> and \<open>delete\<close> by path add
    and remove exactly one node of the tree, and that a creation below a regular file is not refused but destroys it. Hard_Links
    shows that \<open>create_hardlink\<close> adds one name for a file and \<open>delete\<close> takes one of several away, and that both keep its contents.
  \<^item> Sessions: whatever is called, handles stay valid, identifiers are not reused and the layout stays (Session); every call
    but those that walk directories unchecked returns, on every image (Termination).
  \<^item> The integrity check: what it reports for an inode, a directory block and a new volume, and where it is
    wrong, on symbolic and on hard links, or does not return (Integrity_Fresh, Integrity_Report, Hard_Links, Termination).
  \<^item> FUSE: reading back, paged listings, and the callbacks that do not work or take the mount down (Fuse_Operations).

  \<^bold>\<open>Bounds and fuel.\<close> The loops of \<open>read\<close> and \<open>write\<close> have fuel \<open>length buf + 1\<close>: an iteration that does not move on
  by a byte is the last one. File_Contents and File_Write prove it enough for well-formed files, Termination for every state. Path
  resolution needs none: the source bounds the nesting of symbolic links by 40, and the counter with the length
  of the path is a termination measure. An unchecked walk of a directory block has fuel \<open>BLOCK_SIZE + 1\<close>, more than
  the records that fit; the descent of the integrity check has one more than the number of inodes, more than the
  directories that can be nested. Running out of either is \<open>Diverge\<close>, and Termination proves that the walk over a record of
  length 0 is a real infinite loop, for every fuel. Format_Mount is for devices of 5 to 8192 blocks: below, there is no
  room for a data block; above, \<open>format\<close> reserves too small a bitmap for the inodes.

  \<^bold>\<open>Not modelled.\<close> The tables that debug builds print (\<open>#[cfg(debug_assertions)]\<close>, among them a panic of \<open>delete\<close> on an inode of
  unknown type), \<open>Display\<close> and the \<open>print\<close> methods: text only. \<open>V1IntegrityError::to_string\<close> is
  \<open>todo!()\<close> in the source. Opening host files by name and the errors of the host file system. The unit tests. The
  binaries below \<^verbatim>\<open>bin/\<close> and \<^verbatim>\<open>src/examples/fuse_demo.rs\<close>, which hand a new volume to the library
  \<open>fuser\<close>; of that library and of \<open>libc\<close>, the constants and the size of the directory buffer are arguments (\<open>fuse_env\<close>).
  Concurrency: the mutex of \<open>FuseFFS\<close> serialises the callbacks, which are modelled as a sequence.
\<close>

end
